(* ===== verification/Prelude.thy ===== *)
theory Prelude
  imports Main "HOL-Library.Word"
begin

text \<open>
  Shared vocabulary of the development: the outcome of C code whose behaviour can become
  undefined (an access outside an array, a null dereference), the list operations behind the
  \<^verbatim>\<open>std::list\<close> of every core object (update or erase the first match, erase all matches),
  the interface of a keyed registry as a locale, and the theorem collections the component
  proofs use.
\<close>

section \<open>Theorem collections\<close>

named_theorems reg_simps \<open>key lists of the keyed registries\<close>
named_theorems cstr_simps \<open>C string and buffer primitives\<close>
named_theorems author_simps \<open>authorization marks and reply lists\<close>

section \<open>Outcomes of C code\<close>

text \<open>
  \<open>Inl OutOfBounds\<close> is an access outside an array (C leaves the behaviour undefined);
  \<open>Inl NullDeref\<close> is a read through a null pointer; \<open>Inl Indeterminate\<close> is a read of a local
  that was never written; \<open>Inl DoubleFree\<close> is memory given back twice;
  \<open>Inl Abort\<close> is an exception no handler takes.
\<close>

datatype cfault = OutOfBounds | NullDeref | Indeterminate | DoubleFree | Abort

type_synonym 'a cres = "cfault + 'a"

definition cbind :: "'a cres \<Rightarrow> ('a \<Rightarrow> 'b cres) \<Rightarrow> 'b cres" where
  "cbind m f = (case m of Inl e \<Rightarrow> Inl e | Inr x \<Rightarrow> f x)"

lemma cbind_simps [simp]: "cbind (Inl e) f = Inl e" "cbind (Inr x) f = f x"
  by (simp_all add: cbind_def)

lemma cbind_eq_Inr [simp]: "(cbind m f = Inr y) = (\<exists>x. m = Inr x \<and> f x = Inr y)"
  by (cases m) auto

lemma cbind_eq_Inl: "(cbind m f = Inl e) = (m = Inl e \<or> (\<exists>x. m = Inr x \<and> f x = Inl e))"
  by (cases m) auto

text \<open>Code that may not return: \<open>None\<close>.\<close>

definition obind :: "'a cres option \<Rightarrow> ('a \<Rightarrow> 'b cres option) \<Rightarrow> 'b cres option" where
  "obind m f = (case m of None \<Rightarrow> None | Some (Inl e) \<Rightarrow> Some (Inl e) | Some (Inr x) \<Rightarrow> f x)"

lemma obind_simps [simp]: "obind None f = None" "obind (Some (Inl e)) f = Some (Inl e)" "obind (Some (Inr x)) f = f x"
  by (simp_all add: obind_def)

lemma obind_eq_Inr [simp]: "(obind m f = Some (Inr y)) = (\<exists>x. m = Some (Inr x) \<and> f x = Some (Inr y))"
  by (auto simp: obind_def split: option.splits sum.splits)

lemma obind_mono [partial_function_mono]:
  assumes "mono_option B" "\<And>y. mono_option (\<lambda>f. C y f)"
  shows "mono_option (\<lambda>f. obind (B f) (\<lambda>y. C y f))"
proof -
  have "obind m g = Option.bind m (\<lambda>x. case x of Inl e \<Rightarrow> Some (Inl e) | Inr y \<Rightarrow> g y)" for m :: "'c cres option" and g :: "'c \<Rightarrow> 'd cres option"
    by (simp add: obind_def split: option.splits sum.splits)
  moreover have "mono_option (\<lambda>f. case x of Inl e \<Rightarrow> Some (Inl e) | Inr y \<Rightarrow> C y f)" for x
    using assms(2) by (cases x) (auto intro!: partial_function_mono)
  ultimately show ?thesis
    using bind_mono[OF assms(1), of "\<lambda>x f. case x of Inl e \<Rightarrow> Some (Inl e) | Inr y \<Rightarrow> C y f"] by simp
qed

section \<open>Lists of objects\<close>

fun upd_first :: "('a \<Rightarrow> bool) \<Rightarrow> ('a \<Rightarrow> 'a) \<Rightarrow> 'a list \<Rightarrow> 'a list" where
  "upd_first P f [] = []"
| "upd_first P f (x # xs) = (if P x then f x # xs else x # upd_first P f xs)"

fun del_first :: "('a \<Rightarrow> bool) \<Rightarrow> 'a list \<Rightarrow> 'a list" where
  "del_first P [] = []"
| "del_first P (x # xs) = (if P x then xs else x # del_first P xs)"

lemma upd_first_none [simp]: "\<forall>x \<in> set xs. \<not> P x \<Longrightarrow> upd_first P f xs = xs"
  by (induction xs) auto

lemma length_upd_first [simp]: "length (upd_first P f xs) = length xs"
  by (induction xs) auto

lemma map_upd_first:
  "(\<And>x. P x \<Longrightarrow> g (f x) = g x) \<Longrightarrow> map g (upd_first P f xs) = map g xs"
  by (induction xs) auto

lemma find_upd_first_same:
  "(\<And>x. P x \<Longrightarrow> P (f x)) \<Longrightarrow> find P (upd_first P f xs) = map_option f (find P xs)"
  by (induction xs) auto

lemma find_upd_first_other:
  "(\<And>x. P x \<Longrightarrow> \<not> Q x \<and> \<not> Q (f x)) \<Longrightarrow> find Q (upd_first P f xs) = find Q xs"
  by (induction xs) auto

lemma set_upd_first_subset: "set (upd_first P f xs) \<subseteq> set xs \<union> f ` set xs"
  by (induction xs) auto

lemma filter_upd_first_other:
  "(\<And>x. P x \<Longrightarrow> \<not> Q x \<and> \<not> Q (f x)) \<Longrightarrow> filter Q (upd_first P f xs) = filter Q xs"
  by (induction xs) auto

lemma del_first_none [simp]: "\<forall>x \<in> set xs. \<not> P x \<Longrightarrow> del_first P xs = xs"
  by (induction xs) auto

lemma set_del_first_subset: "set (del_first P xs) \<subseteq> set xs"
  by (induction xs) auto

lemma filter_del_first_other:
  "(\<And>x. P x \<Longrightarrow> \<not> Q x) \<Longrightarrow> filter Q (del_first P xs) = filter Q xs"
  by (induction xs) auto

lemma length_del_first:
  "length (del_first P xs) = (if \<exists>x \<in> set xs. P x then length xs - 1 else length xs)"
proof (induction xs)
  case (Cons x xs)
  then show ?case by (cases xs) auto
qed simp

lemma map_del_first_key:
  "distinct (map g xs) \<Longrightarrow> map g (del_first (\<lambda>x. g x = k) xs) = filter (\<lambda>y. y \<noteq> k) (map g xs)"
proof (induction xs)
  case (Cons x xs)
  show ?case
  proof (cases "g x = k")
    case True
    with Cons.prems have "k \<notin> set (map g xs)" by simp
    then have "filter (\<lambda>y. y \<noteq> k) (map g xs) = map g xs" by (induction xs) auto
    with True show ?thesis by simp
  next
    case False
    with Cons show ?thesis by simp
  qed
qed simp

lemma map_filter_key: "map g (filter (\<lambda>x. g x \<noteq> k) xs) = filter (\<lambda>y. y \<noteq> k) (map g xs)"
  by (induction xs) auto

lemma find_key_iff: "(find (\<lambda>x. g x = k) xs = None) = (k \<notin> set (map g xs))"
  by (auto simp: find_None_iff)

lemma find_append: "find P (xs @ ys) = (case find P xs of None \<Rightarrow> find P ys | Some x \<Rightarrow> Some x)"
  by (induction xs) auto

lemma list_all_filter [simp]: "list_all P xs \<Longrightarrow> list_all P (filter Q xs)"
  by (auto simp: list_all_iff)

section \<open>Keyed registries\<close>

text \<open>
  Every core object (access lists, devices, managers, pools, peers, billing modules) keeps a list
  of entries, refuses a second entry with a key it already holds and erases by key. What
  the rest of the program relies on is the list of keys.
\<close>

datatype 'k reg_op = Reg 'k | Unreg 'k

locale registry =
  fixes keys :: "'s \<Rightarrow> 'k list"
    and reg_add :: "'k \<Rightarrow> 's \<Rightarrow> 's"
    and reg_del :: "'k \<Rightarrow> 's \<Rightarrow> 's"
  assumes keys_add: "keys (reg_add k s) = (if k \<in> set (keys s) then keys s else keys s @ [k])"
    and keys_del: "distinct (keys s) \<Longrightarrow> keys (reg_del k s) = filter (\<lambda>x. x \<noteq> k) (keys s)"
begin

fun reg_run :: "'k reg_op list \<Rightarrow> 's \<Rightarrow> 's" where
  "reg_run [] s = s"
| "reg_run (Reg k # ops) s = reg_run ops (reg_add k s)"
| "reg_run (Unreg k # ops) s = reg_run ops (reg_del k s)"

lemma distinct_add: "distinct (keys s) \<Longrightarrow> distinct (keys (reg_add k s))"
  by (simp add: keys_add)

lemma distinct_del: "distinct (keys s) \<Longrightarrow> distinct (keys (reg_del k s))"
  by (simp add: keys_del)

lemma distinct_run: "distinct (keys s) \<Longrightarrow> distinct (keys (reg_run ops s))"
  by (induction ops s rule: reg_run.induct) (auto intro: distinct_add distinct_del)

lemma member_add: "k \<in> set (keys (reg_add k s))"
  by (simp add: keys_add)

lemma not_member_del: "distinct (keys s) \<Longrightarrow> k \<notin> set (keys (reg_del k s))"
  by (simp add: keys_del)

lemma keys_add_del:
  "distinct (keys s) \<Longrightarrow> k \<notin> set (keys s) \<Longrightarrow> keys (reg_del k (reg_add k s)) = keys s"
  by (simp add: keys_add keys_del distinct_add filter_id_conv) metis

lemma keys_other:
  "distinct (keys s) \<Longrightarrow> j \<noteq> k \<Longrightarrow>
    (j \<in> set (keys (reg_add k s))) = (j \<in> set (keys s)) \<and>
    (j \<in> set (keys (reg_del k s))) = (j \<in> set (keys s))"
  by (auto simp: keys_add keys_del)

text \<open>The last operation on a key decides whether it is registered.\<close>

lemma member_run:
  "distinct (keys s) \<Longrightarrow>
   (k \<in> set (keys (reg_run ops s))) =
     (case filter (\<lambda>oper. oper = Reg k \<or> oper = Unreg k) (rev ops) of
        [] \<Rightarrow> k \<in> set (keys s) | oper # _ \<Rightarrow> oper = Reg k)"
proof (induction ops s rule: reg_run.induct)
  case (2 j ops s)
  from "2.IH"[OF distinct_add[OF "2.prems"]] show ?case
    using keys_other[OF "2.prems"] member_add[of j s]
    by (cases "j = k") (auto split: list.splits)
next
  case (3 j ops s)
  from "3.IH"[OF distinct_del[OF "3.prems"]] show ?case
    using keys_other[OF "3.prems"] not_member_del[OF "3.prems", of j]
    by (cases "j = k") (auto split: list.splits)
qed simp

end

end
