(* ===== verification/CString.thy ===== *)
theory CString
  imports Prelude
begin

text \<open>
  C strings and the parts of the C library the program uses on them: the bytes before the
  terminator as a \<^typ>\<open>string\<close>, character classes of the C locale, \<^verbatim>\<open>snprintf\<close> with
  \<^verbatim>\<open>%s\<close>, \<^verbatim>\<open>%d\<close> and \<^verbatim>\<open>%0Nd\<close>, \<^verbatim>\<open>atoi\<close>, fixed arrays read back as C strings, and
  the cast between \<^verbatim>\<open>char\<close> and \<^verbatim>\<open>unsigned char\<close>.
\<close>

section \<open>Characters\<close>

abbreviation NUL :: char where "NUL \<equiv> CHR 0x00"

definition code :: "char \<Rightarrow> nat" where
  "code c = of_char c"

lemma code_less [simp]: "code c < 256"
  by (simp add: code_def)

lemma code_inj [simp]: "(code c = code d) = (c = d)"
  by (simp add: code_def)

lemma code_char_of [simp]: "code (char_of n) = n mod 256"
  by (simp add: code_def)

lemma char_of_code [simp]: "char_of (code c) = c"
  by (simp add: code_def)

definition isdigit_c :: "char \<Rightarrow> bool" where
  "isdigit_c c = (48 \<le> code c \<and> code c \<le> 57)"

definition isupper_c :: "char \<Rightarrow> bool" where
  "isupper_c c = (65 \<le> code c \<and> code c \<le> 90)"

definition islower_c :: "char \<Rightarrow> bool" where
  "islower_c c = (97 \<le> code c \<and> code c \<le> 122)"

definition isspace_c :: "char \<Rightarrow> bool" where
  "isspace_c c = (code c = 32 \<or> (9 \<le> code c \<and> code c \<le> 13))"

definition tolower_c :: "char \<Rightarrow> char" where
  "tolower_c c = (if isupper_c c then char_of (code c + 32) else c)"

definition toupper_c :: "char \<Rightarrow> char" where
  "toupper_c c = (if islower_c c then char_of (code c - 32) else c)"

lemma tolower_idem [simp]: "tolower_c (tolower_c c) = tolower_c c"
  by (auto simp: tolower_c_def isupper_c_def)

lemma isupper_tolower [simp]: "\<not> isupper_c (tolower_c c)"
  by (auto simp: tolower_c_def isupper_c_def)

lemma tolower_NUL [simp]: "(tolower_c c = NUL) = (c = NUL)"
proof -
  have "code NUL = 0" by (simp add: code_def)
  moreover have "code (tolower_c c) = 0 \<longleftrightarrow> code c = 0"
    by (auto simp: tolower_c_def isupper_c_def)
  ultimately show ?thesis by (metis code_inj)
qed

section \<open>Terminators and fixed buffers\<close>

definition c_str :: "string \<Rightarrow> string" where
  "c_str s = takeWhile (\<lambda>c. c \<noteq> NUL) s"

definition nul_free :: "string \<Rightarrow> bool" where
  "nul_free s = (NUL \<notin> set s)"

lemma c_str_nul_free [simp]: "nul_free s \<Longrightarrow> c_str s = s"
  by (auto simp: c_str_def nul_free_def takeWhile_eq_all_conv)

lemma nul_free_c_str [simp]: "nul_free (c_str s)"
  by (auto simp: c_str_def nul_free_def dest: set_takeWhileD)

lemma length_c_str: "length (c_str s) \<le> length s"
  by (simp add: c_str_def length_takeWhile_le)

lemma nul_free_simps [simp]:
  "nul_free []"
  "nul_free (c # s) = (c \<noteq> NUL \<and> nul_free s)"
  "nul_free (s @ t) = (nul_free s \<and> nul_free t)"
  by (auto simp: nul_free_def)

lemma nul_free_take [intro]: "nul_free s \<Longrightarrow> nul_free (take n s)"
  by (auto simp: nul_free_def dest: in_set_takeD)

lemma nul_free_drop [intro]: "nul_free s \<Longrightarrow> nul_free (drop n s)"
  by (auto simp: nul_free_def dest: in_set_dropD)

text \<open>The text \<^verbatim>\<open>snprintf(buf,n,"%s",s)\<close> leaves in \<open>buf\<close> (\<open>n > 0\<close>).\<close>

definition snprintf_s :: "nat \<Rightarrow> string \<Rightarrow> string" where
  "snprintf_s n s = take (n - 1) (c_str s)"

lemma snprintf_s_short [cstr_simps]: "nul_free s \<Longrightarrow> length s < n \<Longrightarrow> snprintf_s n s = s"
  by (simp add: snprintf_s_def)

lemma snprintf_s_length: "0 < n \<Longrightarrow> length (snprintf_s n s) < n"
  by (simp add: snprintf_s_def)

lemma nul_free_snprintf_s [simp]: "nul_free (snprintf_s n s)"
  by (auto simp: snprintf_s_def)

text \<open>
  The C string in an array of \<open>n\<close> zeroed bytes whose first bytes are \<open>s\<close>. With no terminator
  left the reader runs past the array.
\<close>

definition buf_str :: "nat \<Rightarrow> string \<Rightarrow> string cres" where
  "buf_str n s = (if length (c_str s) < n then Inr (c_str s) else Inl OutOfBounds)"

text \<open>Reading index \<open>i\<close> of a C string: the terminator is the last byte one may read.\<close>

definition rd :: "string \<Rightarrow> nat \<Rightarrow> char cres" where
  "rd s i = (if i < length s then Inr (s ! i) else if i = length s then Inr NUL else Inl OutOfBounds)"

text \<open>The suffix \<^verbatim>\<open>s + i\<close>.\<close>

definition ptr_add :: "string \<Rightarrow> nat \<Rightarrow> string cres" where
  "ptr_add s i = (if i \<le> length s then Inr (drop i s) else Inl OutOfBounds)"

text \<open>
  \<^verbatim>\<open>strncpy(dst,mem+off,n)\<close> into an array of \<open>cap\<close> bytes: the text that arrives. The count
  is a \<^verbatim>\<open>size_t\<close>, so a negative one is a huge one; the copy pads \<open>dst\<close> with zeros up to
  the count; the source is read until a terminator or the count, never past the memory \<open>mem\<close>.
\<close>

definition strncpy_in :: "nat \<Rightarrow> string \<Rightarrow> nat \<Rightarrow> int \<Rightarrow> string cres" where
  "strncpy_in cap mem off n =
     (if n < 0 \<or> int cap < n then Inl OutOfBounds
      else let t = takeWhile (\<lambda>c. c \<noteq> NUL) (take (nat n) (drop off mem))
           in if length t < nat n \<and> length mem \<le> off + length t then Inl OutOfBounds else Inr t)"

text \<open>The same, followed by \<^verbatim>\<open>dst[n] = 0\<close>.\<close>

definition strncpy_z :: "nat \<Rightarrow> string \<Rightarrow> nat \<Rightarrow> int \<Rightarrow> string cres" where
  "strncpy_z cap mem off n = (if int cap \<le> n then Inl OutOfBounds else strncpy_in cap mem off n)"

lemma strncpy_in_zero [simp]: "strncpy_in cap mem off 0 = Inr []"
  by (simp add: strncpy_in_def)

lemma strncpy_in_field:
  assumes "nul_free f" "length f \<le> cap"
  shows "strncpy_in cap (pre @ f @ post) (length pre) (int (length f)) = Inr f"
proof -
  have "takeWhile (\<lambda>c. c \<noteq> NUL) f = f" using assms(1) c_str_nul_free[of f] by (simp add: c_str_def)
  then show ?thesis using assms(2) by (simp add: strncpy_in_def Let_def)
qed

lemma strncpy_z_field:
  "nul_free f \<Longrightarrow> length f < cap \<Longrightarrow>
   strncpy_z cap (pre @ f @ post) (length pre) (int (length f)) = Inr f"
  by (simp add: strncpy_z_def strncpy_in_field)

lemma strncpy_z_short: "strncpy_z cap mem off n = Inr t \<Longrightarrow> length t < cap \<and> nul_free t"
proof -
  assume "strncpy_z cap mem off n = Inr t"
  then have n: "n < int cap" "0 \<le> n" and t: "t = takeWhile (\<lambda>c. c \<noteq> NUL) (take (nat n) (drop off mem))"
    by (auto simp: strncpy_z_def strncpy_in_def Let_def split: if_splits)
  have "length t \<le> nat n" using t length_takeWhile_le[of "\<lambda>c. c \<noteq> NUL" "take (nat n) (drop off mem)"] by simp
  moreover have "nul_free t" using t nul_free_c_str[of "take (nat n) (drop off mem)"] by (simp add: c_str_def)
  ultimately show ?thesis using n by linarith
qed

section \<open>Decimal numbers\<close>

definition digit :: "nat \<Rightarrow> char" where
  "digit d = char_of (48 + d)"

lemma code_digit [simp]: "d < 10 \<Longrightarrow> code (digit d) = 48 + d"
  by (simp add: digit_def)

lemma isdigit_digit [simp]: "d < 10 \<Longrightarrow> isdigit_c (digit d)"
  by (simp add: isdigit_c_def)

fun dec_nat :: "nat \<Rightarrow> string" where
  "dec_nat n = (if n < 10 then [digit n] else dec_nat (n div 10) @ [digit (n mod 10)])"

declare dec_nat.simps [simp del]

definition dec_int :: "int \<Rightarrow> string" where
  "dec_int i = (if i < 0 then CHR ''-'' # dec_nat (nat (- i)) else dec_nat (nat i))"

text \<open>\<^verbatim>\<open>%0wd\<close>: the width counts the sign.\<close>

definition zpad :: "nat \<Rightarrow> int \<Rightarrow> string" where
  "zpad w i =
     (let ds = dec_nat (nat \<bar>i\<bar>)
      in if i < 0 then CHR ''-'' # replicate (w - 1 - length ds) CHR ''0'' @ ds
         else replicate (w - length ds) CHR ''0'' @ ds)"

definition digits_val :: "string \<Rightarrow> nat" where
  "digits_val ds = foldl (\<lambda>a c. 10 * a + (code c - 48)) 0 ds"

text \<open>
  \<^verbatim>\<open>atoi\<close> of the C library: leading blanks, a sign, digits; the value saturates at 64 bits
  and is then cut to 32.
\<close>

definition clamp64 :: "int \<Rightarrow> int" where
  "clamp64 i = max (- (2 ^ 63)) (min (2 ^ 63 - 1) i)"

definition wrap32 :: "int \<Rightarrow> int" where
  "wrap32 i = (i + 2 ^ 31) mod 2 ^ 32 - 2 ^ 31"

definition atol_c :: "string \<Rightarrow> int" where
  "atol_c s =
     (let s1 = dropWhile isspace_c s
      in case s1 of
           [] \<Rightarrow> 0
         | c # r \<Rightarrow>
             if c = CHR ''-'' then clamp64 (- int (digits_val (takeWhile isdigit_c r)))
             else if c = CHR ''+'' then clamp64 (int (digits_val (takeWhile isdigit_c r)))
             else clamp64 (int (digits_val (takeWhile isdigit_c s1))))"

definition atoi_c :: "string \<Rightarrow> int" where
  "atoi_c s = wrap32 (atol_c s)"

lemma dec_nat_nonempty [simp]: "dec_nat n \<noteq> []"
  by (subst dec_nat.simps) simp

lemma dec_nat_digits: "\<forall>c \<in> set (dec_nat n). isdigit_c c"
proof (induction n rule: dec_nat.induct)
  case (1 n)
  show ?case
  proof (cases "n < 10")
    case False
    with "1" show ?thesis by (subst dec_nat.simps) auto
  qed (subst dec_nat.simps, simp)
qed

lemma digits_val_dec_nat: "digits_val (dec_nat n) = n"
proof (induction n rule: dec_nat.induct)
  case (1 n)
  show ?case
  proof (cases "n < 10")
    case True
    then show ?thesis by (subst dec_nat.simps) (simp add: digits_val_def)
  next
    case False
    with "1" have ih: "digits_val (dec_nat (n div 10)) = n div 10" by simp
    from False have "digits_val (dec_nat n) = 10 * digits_val (dec_nat (n div 10)) + n mod 10"
      by (subst dec_nat.simps) (simp add: digits_val_def)
    also have "\<dots> = n" by (simp add: ih)
    finally show ?thesis .
  qed
qed

lemma isdigit_not_special:
  assumes "isdigit_c c"
  shows "\<not> isspace_c c" "c \<noteq> CHR ''-''" "c \<noteq> CHR ''+''" "c \<noteq> NUL" "c \<noteq> CHR ''.''"
    "c \<noteq> CHR '':''" "c \<noteq> CHR '' ''" "c \<noteq> CHR '',''"
  using assms by (auto simp: isdigit_c_def isspace_c_def code_def)

lemma nul_free_dec_nat [simp]: "nul_free (dec_nat n)"
  using dec_nat_digits isdigit_not_special(4) by (auto simp: nul_free_def)

lemma nul_free_dec_int [simp]: "nul_free (dec_int i)"
  by (simp add: dec_int_def)

lemma digits_val_zeros [simp]: "digits_val (replicate k CHR ''0'' @ ds) = digits_val ds"
  by (induction k) (simp_all add: digits_val_def code_def)

lemma takeWhile_digits_append:
  "\<forall>c \<in> set ds. isdigit_c c \<Longrightarrow> (rest = [] \<or> \<not> isdigit_c (hd rest)) \<Longrightarrow>
     takeWhile isdigit_c (ds @ rest) = ds"
  by (cases rest) (auto simp: takeWhile_append)

text \<open>\<^verbatim>\<open>atoi\<close> on a block of digits followed by anything that is not a digit.\<close>

lemma atoi_digits:
  assumes "ds \<noteq> []" "\<forall>c \<in> set ds. isdigit_c c" "rest = [] \<or> \<not> isdigit_c (hd rest)"
    and "digits_val ds < 2 ^ 31"
  shows "atoi_c (ds @ rest) = int (digits_val ds)"
proof -
  obtain c r where ds: "ds = c # r" using assms(1) by (cases ds) auto
  with assms(2) have c: "isdigit_c c" by simp
  have "takeWhile isdigit_c ((c # r) @ rest) = c # r"
    using takeWhile_digits_append[OF assms(2,3)] ds by simp
  then have t: "takeWhile isdigit_c (c # r @ rest) = c # r" by simp
  have bound: "int (digits_val ds) < 2 ^ 31"
    using assms(4) of_nat_less_iff[of "digits_val ds" "2 ^ 31", where ?'a = int] by simp
  then have "clamp64 (int (digits_val ds)) = int (digits_val ds)"
    by (simp add: clamp64_def max_def min_def)
  moreover have "wrap32 (int (digits_val ds)) = int (digits_val ds)"
    using bound by (simp add: wrap32_def)
  ultimately show ?thesis
    using t isdigit_not_special[OF c] by (simp add: atoi_c_def atol_c_def ds Let_def)
qed

lemma atoi_dec_nat: "n < 2 ^ 31 \<Longrightarrow> atoi_c (dec_nat n) = int n"
  using atoi_digits[of "dec_nat n" "[]"] dec_nat_digits by (simp add: digits_val_dec_nat)

lemma atoi_zpad:
  assumes "0 \<le> i" "i < 2 ^ 31" "rest = [] \<or> \<not> isdigit_c (hd rest)"
  shows "atoi_c (zpad w i @ rest) = i"
proof -
  let ?ds = "replicate (w - length (dec_nat (nat i))) CHR ''0'' @ dec_nat (nat i)"
  have z: "zpad w i = ?ds" using assms(1) by (simp add: zpad_def Let_def)
  have n: "nat i < 2 ^ 31" using assms(1,2) by (simp add: nat_less_iff)
  have "isdigit_c CHR ''0''" by (simp add: isdigit_c_def code_def)
  then have d: "\<forall>c \<in> set ?ds. isdigit_c c" using dec_nat_digits by auto
  have "atoi_c (?ds @ rest) = int (digits_val ?ds)"
    by (rule atoi_digits) (use d n assms(3) in \<open>simp_all add: digits_val_dec_nat\<close>)
  then show ?thesis using assms(1) z by (simp add: digits_val_dec_nat)
qed

lemma length_dec_nat: "n < 10 ^ w \<Longrightarrow> 0 < w \<Longrightarrow> length (dec_nat n) \<le> w"
proof (induction w arbitrary: n)
  case (Suc w)
  show ?case
  proof (cases "n < 10")
    case True
    then show ?thesis by (subst dec_nat.simps) simp
  next
    case False
    with Suc.prems have "0 < w" by (cases w) auto
    moreover have "n div 10 < 10 ^ w" using Suc.prems by (simp add: less_mult_imp_div_less mult.commute)
    ultimately have "length (dec_nat (n div 10)) \<le> w" using Suc.IH by blast
    with False show ?thesis by (subst dec_nat.simps) simp
  qed
qed simp

lemma length_zpad: "0 \<le> i \<Longrightarrow> i < 10 ^ w \<Longrightarrow> 0 < w \<Longrightarrow> length (zpad w i) = w"
  using length_dec_nat[of "nat i" w] by (simp add: zpad_def Let_def nat_less_iff)

lemma nul_free_replicate [simp]: "c \<noteq> NUL \<Longrightarrow> nul_free (replicate n c)"
  by (auto simp: nul_free_def)

lemma nul_free_zpad [simp]: "nul_free (zpad w i)"
  by (simp add: zpad_def Let_def)

section \<open>Bytes\<close>

type_synonym byte = "8 word"

definition byte_of_char :: "char \<Rightarrow> byte" where
  "byte_of_char c = of_nat (code c)"

definition char_of_byte :: "byte \<Rightarrow> char" where
  "char_of_byte b = char_of (unat b)"

lemma char_of_byte_of_char [simp]: "char_of_byte (byte_of_char c) = c"
  by (simp add: char_of_byte_def byte_of_char_def unat_of_nat)

lemma byte_of_char_of_byte [simp]: "byte_of_char (char_of_byte b) = b"
proof -
  have "unat b < 256" using unsigned_less[of b] by simp
  then show ?thesis by (simp add: char_of_byte_def byte_of_char_def)
qed

definition to_bytes :: "string \<Rightarrow> byte list" where
  "to_bytes s = map byte_of_char s"

definition of_bytes :: "byte list \<Rightarrow> string" where
  "of_bytes bs = map char_of_byte bs"

lemma bytes_simps [simp]:
  "of_bytes (to_bytes s) = s" "to_bytes (of_bytes bs) = bs"
  "length (to_bytes s) = length s" "length (of_bytes bs) = length bs"
  "to_bytes [] = []" "of_bytes [] = []"
  "to_bytes (s @ t) = to_bytes s @ to_bytes t" "of_bytes (bs @ cs) = of_bytes bs @ of_bytes cs"
  by (simp_all add: of_bytes_def to_bytes_def map_idI)

lemma bytes_Nil [simp]: "(to_bytes s = []) = (s = [])" "(of_bytes bs = []) = (bs = [])"
  by (simp_all add: of_bytes_def to_bytes_def)

lemma to_bytes_take: "to_bytes (take n s) = take n (to_bytes s)"
  by (simp add: to_bytes_def take_map)

lemma of_bytes_take_drop [simp]:
  "of_bytes (take n bs) = take n (of_bytes bs)" "of_bytes (drop n bs) = drop n (of_bytes bs)"
  by (simp_all add: of_bytes_def take_map drop_map)

lemma char_of_byte_NUL: "(char_of_byte b = NUL) = (b = 0)"
proof -
  have "byte_of_char NUL = 0" by (simp add: byte_of_char_def code_def)
  then show ?thesis by (metis byte_of_char_of_byte char_of_byte_of_char)
qed

lemma c_str_of_bytes: "c_str (of_bytes bs) = of_bytes (takeWhile (\<lambda>b. b \<noteq> 0) bs)"
  by (simp add: c_str_def of_bytes_def takeWhile_map char_of_byte_NUL comp_def)

section \<open>Regular expressions\<close>

text \<open>The regular expression library is a parameter: \<open>rx pattern text\<close> is \<open>None\<close> when the pattern
does not compile, otherwise whether the pattern is found in the text.\<close>

type_synonym regex = "string \<Rightarrow> string \<Rightarrow> bool option"

section \<open>Parameters of a command\<close>

text \<open>Reading the first of an empty parameter list is a null dereference.\<close>

definition first_param :: "string list \<Rightarrow> string cres" where
  "first_param ps = (case ps of [] \<Rightarrow> Inl NullDeref | p # _ \<Rightarrow> Inr p)"

end
