(* ===== verification/Utils.thy ===== *)
theory Utils
  imports CString
begin

text \<open>
  The string helpers of \<^verbatim>\<open>src/Utils.cc\<close> that do not depend on the clock: comparison,
  case, ports, addresses, splitting of identifiers, attribute-value pairs, SQL quoting. A
  \<^verbatim>\<open>char*\<close> that may be null is a \<^typ>\<open>string option\<close>. Results of type \<open>cres\<close> are
  \<open>Inl\<close> where the C code leaves an array.
\<close>

section \<open>Comparison, case, numbers\<close>

fun scomp :: "string option \<Rightarrow> string option \<Rightarrow> bool" where
  "scomp None None = True"
| "scomp (Some a) (Some b) = (a = b)"
| "scomp _ _ = False"

text \<open>A negative count becomes a huge \<^verbatim>\<open>size_t\<close>, so \<^verbatim>\<open>strncmp\<close> compares everything.\<close>

fun scompn :: "string option \<Rightarrow> string option \<Rightarrow> int \<Rightarrow> bool" where
  "scompn None None num = True"
| "scompn (Some a) (Some b) num =
     (if int (length a) < num \<or> int (length b) < num then False
      else if num < 0 then a = b
      else take (nat num) a = take (nat num) b)"
| "scompn _ _ num = False"

definition prefixed :: "string \<Rightarrow> string \<Rightarrow> bool" where
  "prefixed a p = scompn (Some a) (Some p) (int (length p))"

lemma prefixed_iff: "prefixed a p = (\<exists>r. a = p @ r)"
proof -
  have "length p \<le> length a \<Longrightarrow> take (length p) a = p \<Longrightarrow> \<exists>r. a = p @ r"
    by (metis append_take_drop_id)
  then show ?thesis by (auto simp: prefixed_def)
qed

lemma prefixed_append [simp]: "prefixed (p @ r) p"
  by (auto simp: prefixed_iff)

definition lower :: "string \<Rightarrow> string" where
  "lower s = map tolower_c (snprintf_s 799 s)"

definition upper :: "string \<Rightarrow> string" where
  "upper s = map toupper_c (snprintf_s 799 s)"

definition newstr :: "string option \<Rightarrow> string option" where
  "newstr s = (case s of None \<Rightarrow> None | Some t \<Rightarrow> if length t = 0 then Some [] else Some (c_str t))"

definition toString_int :: "32 word \<Rightarrow> string" where
  "toString_int a = snprintf_s 99 (dec_int (sint a))"

definition toString_uint :: "32 word \<Rightarrow> string" where
  "toString_uint a = snprintf_s 99 (dec_nat (unat a))"

definition toString_ulong :: "64 word \<Rightarrow> string" where
  "toString_ulong a = snprintf_s 99 (dec_nat (unat a))"

text \<open>\<^verbatim>\<open>get_digit\<close>: twenty digits fill \<^verbatim>\<open>dig[20]\<close> and the terminator goes past it.\<close>

definition get_digit :: "string option \<Rightarrow> int cres" where
  "get_digit str = (case str of
      None \<Rightarrow> Inr 0
    | Some s \<Rightarrow> if s = [] then Inr 0
        else let dig = take 20 (takeWhile isdigit_c s)
             in if length dig < 20 then Inr (atoi_c dig) else Inl OutOfBounds)"

section \<open>Ports\<close>

definition portConvert :: "string \<Rightarrow> string" where
  "portConvert inp =
     (if inp = [] then [] else
      let p = snprintf_s 99 inp;
          port = snprintf_s 99 p;
          port = (if prefixed p ''Serial'' then snprintf_s 99 (''Se'' @ drop 6 p)
                  else if prefixed p ''Async'' then snprintf_s 99 (''As'' @ drop 5 p)
                  else port);
          port = (if prefixed p ''Se'' \<and> \<not> prefixed p ''Seri''
                  then snprintf_s 99 (''Serial'' @ drop 2 p)
                  else if prefixed p ''As'' \<and> \<not> prefixed p ''Asyn''
                  then snprintf_s 99 (''Async'' @ drop 2 p)
                  else port)
      in port)"

lemma portConvert_shorten:
  assumes "nul_free d" "length d < 90"
  shows "portConvert (''Async'' @ d) = ''As'' @ d" "portConvert (''Serial'' @ d) = ''Se'' @ d"
  using assms
  by (simp_all add: portConvert_def prefixed_iff snprintf_s_def Let_def)

lemma portConvert_expand:
  assumes "nul_free d" "length d < 90"
  shows "\<not> prefixed d ''yn'' \<Longrightarrow> portConvert (''As'' @ d) = ''Async'' @ d"
    and "\<not> prefixed d ''ri'' \<Longrightarrow> portConvert (''Se'' @ d) = ''Serial'' @ d"
  using assms
  by (auto simp add: portConvert_def prefixed_iff snprintf_s_def Let_def)

section \<open>Addresses in text form\<close>

text \<open>One step of \<^verbatim>\<open>getDigitFromIp\<close>: at most three characters up to a dot, then the dot.\<close>

definition next_octet :: "string \<Rightarrow> string \<times> string" where
  "next_octet s =
     (let d = take 3 (takeWhile (\<lambda>c. c \<noteq> CHR ''.'') s); r = drop (length d) s
      in (d, case r of [] \<Rightarrow> [] | c # t \<Rightarrow> if c = CHR ''.'' then t else r))"

definition getDigitFromIp :: "string option \<Rightarrow> int \<Rightarrow> int" where
  "getDigitFromIp str n = (case str of
      None \<Rightarrow> 0
    | Some s \<Rightarrow> if s = [] then 0 else
        let (d1, s1) = next_octet s; (d2, s2) = next_octet s1;
            (d3, s3) = next_octet s2; (d4, s4) = next_octet s3
        in if n = 1 then atoi_c d1 else if n = 2 then atoi_c d2
           else if n = 3 then atoi_c d3 else if n = 4 then atoi_c d4 else 0)"

text \<open>
  \<^verbatim>\<open>isIp\<close>: the scan walks the memory that holds the string, its terminator and what follows
  (\<open>after\<close>): after the last octet \<^verbatim>\<open>i++\<close> steps over the terminator and the loop test
  reads one more byte. Rows of \<^verbatim>\<open>char s[4][4]\<close> hold three digits and a terminator; a row
  that the scan did not reach is indeterminate.
\<close>

function ip_scan :: "nat \<Rightarrow> string \<Rightarrow> string list option cres" where
  "ip_scan j m = (case m of
      [] \<Rightarrow> Inl OutOfBounds
    | c # _ \<Rightarrow>
       if c = NUL \<or> 4 \<le> j then Inr (Some [])
       else let oct = takeWhile (\<lambda>c. c \<noteq> CHR ''.'' \<and> c \<noteq> NUL) m;
                ds = takeWhile isdigit_c oct;
                rest = drop (length oct) m
            in if 4 < length ds then Inl OutOfBounds
               else if ds \<noteq> oct then Inr None
               else if length ds = 4 then Inl OutOfBounds
               else if rest = [] then Inl OutOfBounds
               else cbind (ip_scan (Suc j) (tl rest))
                      (\<lambda>r. Inr (map_option (\<lambda>os. ds # os) r)))"
  by pat_completeness auto
termination
  by (relation "measure (\<lambda>(j, m). length m)") (auto simp: Let_def split: if_splits)

declare ip_scan.simps [simp del]

definition oct_val :: "string \<Rightarrow> int" where
  "oct_val s = (if 0 < length s then atoi_c s else 0)"

definition isIp :: "string option \<Rightarrow> string \<Rightarrow> bool cres" where
  "isIp str after = (case str of
      None \<Rightarrow> Inr False
    | Some s \<Rightarrow>
       if length s < 7 then Inr False
       else cbind (ip_scan 0 (s @ NUL # after)) (\<lambda>r. case r of
              None \<Rightarrow> Inr False
            | Some os \<Rightarrow>
               if length os < 4 then Inl Indeterminate
               else let d1 = oct_val (os ! 0); d2 = oct_val (os ! 1);
                        d3 = oct_val (os ! 2); d4 = oct_val (os ! 3)
                    in Inr (0 < d1 \<and> d1 \<le> 255 \<and> 0 \<le> d2 \<and> d2 \<le> 255 \<and>
                            0 \<le> d3 \<and> d3 \<le> 255 \<and> 0 < d4 \<and> d4 < 255)))"

lemma ip_scan_octet:
  assumes "j < 4" "ds \<noteq> []" "\<forall>c \<in> set ds. isdigit_c c" "length ds < 4" "c = CHR ''.'' \<or> c = NUL"
  shows "ip_scan j (ds @ c # rest) =
    cbind (ip_scan (Suc j) rest) (\<lambda>r. Inr (map_option (\<lambda>os. ds # os) r))"
proof -
  obtain d ds' where ds: "ds = d # ds'" using assms(2) by (cases ds) auto
  with assms(3) have d: "d \<noteq> NUL" using isdigit_not_special by auto
  have t: "takeWhile (\<lambda>c. c \<noteq> CHR ''.'' \<and> c \<noteq> NUL) (ds @ c # rest) = ds"
    using assms(3,5) isdigit_not_special(4,5) by (auto simp: takeWhile_append)
  have u: "takeWhile isdigit_c ds = ds" using assms(3) by (simp add: takeWhile_eq_all_conv)
  have "ds @ c # rest = d # (ds' @ c # rest)" by (simp add: ds)
  then show ?thesis
    using assms(1,4) d t u by (subst ip_scan.simps) (auto simp: Let_def)
qed

definition dotted :: "nat \<Rightarrow> nat \<Rightarrow> nat \<Rightarrow> nat \<Rightarrow> string" where
  "dotted a b c d = dec_nat a @ ''.'' @ dec_nat b @ ''.'' @ dec_nat c @ ''.'' @ dec_nat d"

lemma oct_val_dec: "a < 256 \<Longrightarrow> oct_val (dec_nat a) = int a"
  by (simp add: oct_val_def atoi_dec_nat)

lemma dec_octet: "a < 256 \<Longrightarrow> length (dec_nat a) < 4"
  using length_dec_nat[of a 3] by simp

lemma ip_scan_dotted:
  assumes "a < 256" "b < 256" "c < 256" "d < 256"
  shows "ip_scan 0 (dotted a b c d @ NUL # x # after) =
    Inr (Some [dec_nat a, dec_nat b, dec_nat c, dec_nat d])"
proof -
  have stop: "ip_scan (Suc (Suc (Suc (Suc 0)))) (x # after) = Inr (Some [])"
    by (subst ip_scan.simps) simp
  show ?thesis
    using assms stop by (simp add: dotted_def ip_scan_octet dec_nat_digits dec_octet)
qed

lemma length_dotted: "7 \<le> length (dotted a b c d)"
proof -
  have "1 \<le> length (dec_nat n)" for n by (cases "dec_nat n") auto
  from this[of a] this[of b] this[of c] this[of d] show ?thesis by (simp add: dotted_def)
qed

lemma isIp_dotted_eq:
  assumes "a < 256" "b < 256" "c < 256" "d < 256"
  shows "isIp (Some (dotted a b c d)) (x # after) = Inr (0 < a \<and> 0 < d \<and> d < 255)"
  using assms length_dotted[of a b c d]
  by (auto simp: isIp_def ip_scan_dotted oct_val_dec)

section \<open>Identifiers and words\<close>

text \<open>\<^verbatim>\<open>name@host:port\<close> or \<^verbatim>\<open>host:port\<close>; parts 0, 1, 2.\<close>

definition at_char :: "string \<Rightarrow> nat \<Rightarrow> char \<Rightarrow> bool" where
  "at_char s i c = (i < length s \<and> s ! i = c)"

definition splitId :: "string option \<Rightarrow> int \<Rightarrow> string cres" where
  "splitId os c = (case os of None \<Rightarrow> Inr [] | Some s \<Rightarrow>
     if s = [] then Inr [] else
     let name = take 256 (takeWhile (\<lambda>x. x \<noteq> CHR ''@'') s);
         i = length name;
         host = take 256 (takeWhile (\<lambda>x. x \<noteq> CHR '':'') s);
         k = length host
     in if \<not> at_char s i CHR ''@'' \<and> c = 0 then Inr []
        else if at_char s i CHR ''@'' \<and> c = 0 then buf_str 256 name
        else if \<not> at_char s i CHR ''@'' \<and> c = 1 then
          (if at_char s k CHR '':'' then buf_str 256 host else Inr [])
        else if at_char s i CHR ''@'' \<and> c = 1 then
          (let h = take (256 - Suc i) (takeWhile (\<lambda>x. x \<noteq> CHR '':'') (drop (Suc i) s))
           in if at_char s (Suc i + length h) CHR '':'' then buf_str 256 h else Inr [])
        else if c = 2 then
          (if \<not> at_char s k CHR '':'' then Inr []
           else buf_str 256 (take (256 - Suc k) (drop (Suc k) s)))
        else Inr [])"

definition skip_word :: "string \<Rightarrow> string" where
  "skip_word s = dropWhile (\<lambda>c. c = CHR '' '') (dropWhile (\<lambda>c. c \<noteq> CHR '' '') s)"

definition split :: "string option \<Rightarrow> int \<Rightarrow> string cres" where
  "split os c = (case os of None \<Rightarrow> Inr [] | Some s \<Rightarrow>
     if s = [] then Inr [] else
     let t = (skip_word ^^ nat c) s
     in if t = [] then Inr []
        else buf_str 500 (take 500 (takeWhile (\<lambda>x. x \<noteq> CHR '' '') t)))"

section \<open>Attribute-value pairs\<close>

definition getAvpName :: "string option \<Rightarrow> string cres" where
  "getAvpName av = (case av of None \<Rightarrow> Inr [] | Some s \<Rightarrow>
     if s = [] then Inr [] else
     let n = take 200 (takeWhile (\<lambda>c. c \<noteq> CHR ''='') s)
     in if \<not> at_char s (length n) CHR ''='' then Inr [] else buf_str 200 n)"

definition getAvpValue :: "string option \<Rightarrow> string cres" where
  "getAvpValue av = (case av of None \<Rightarrow> Inr [] | Some s \<Rightarrow>
     if s = [] then Inr [] else
     let i = Suc (length (takeWhile (\<lambda>c. c \<noteq> CHR ''='') s))
     in buf_str 300 (take 300 (drop i s)))"

definition getAvpMod :: "string option \<Rightarrow> string cres" where
  "getAvpMod av = (case av of None \<Rightarrow> Inr [] | Some s \<Rightarrow>
     if s = [] then Inr [] else
     let i = length (takeWhile (\<lambda>c. c \<noteq> CHR '':'') s)
     in if \<not> at_char s i CHR '':'' then Inr []
        else if Suc i = length s then Inr []
        else buf_str 300 (take 300 (drop (Suc i) s)))"

section \<open>SQL quoting\<close>

definition sql_special :: "char \<Rightarrow> bool" where
  "sql_special c = (c = CHR 0x5C \<or> c = CHR 0x27 \<or> c = CHR 0x22)"

text \<open>The copy loop: \<open>j\<close> counts the bytes already in \<^verbatim>\<open>ret[1000]\<close>.\<close>

fun toSQL_loop :: "nat \<Rightarrow> string \<Rightarrow> string" where
  "toSQL_loop j [] = []"
| "toSQL_loop j (c # r) =
     (if j < 1000 - 3 then
        (if sql_special c then CHR 0x5C # c # toSQL_loop (j + 2) r
         else c # toSQL_loop (j + 1) r)
      else [])"

definition toSQL :: "string \<Rightarrow> string" where
  "toSQL s = toSQL_loop 0 (snprintf_s 899 s)"

text \<open>How an SQL reader sees the text between two single quotes: a backslash takes the next byte
literally; a bare single quote ends the literal; a backslash at the end would take the closing quote.\<close>

fun sql_literal :: "string \<Rightarrow> string option" where
  "sql_literal [] = Some []"
| "sql_literal [c] = (if c = CHR 0x5C \<or> c = CHR 0x27 then None else Some [c])"
| "sql_literal (c # d # r) =
     (if c = CHR 0x5C then map_option (\<lambda>t. d # t) (sql_literal r)
      else if c = CHR 0x27 then None
      else map_option (\<lambda>t. c # t) (sql_literal (d # r)))"

lemma sql_literal_plain: "\<not> sql_special c \<Longrightarrow> sql_literal (c # r) = map_option (\<lambda>t. c # t) (sql_literal r)"
  by (cases r) (auto simp: sql_special_def)

lemma sql_literal_escaped: "sql_literal (CHR 0x5C # d # r) = map_option (\<lambda>t. d # t) (sql_literal r)"
  by simp

text \<open>The prefix of the input that fits.\<close>

fun toSQL_kept :: "nat \<Rightarrow> string \<Rightarrow> string" where
  "toSQL_kept j [] = []"
| "toSQL_kept j (c # r) =
     (if j < 1000 - 3 then c # toSQL_kept (j + (if sql_special c then 2 else 1)) r else [])"

lemma toSQL_loop_literal: "sql_literal (toSQL_loop j s) = Some (toSQL_kept j s)"
  by (induction j s rule: toSQL_loop.induct) (simp_all add: sql_literal_plain)

lemma toSQL_kept_prefix: "\<exists>r. s = toSQL_kept j s @ r"
  by (induction j s rule: toSQL_kept.induct) auto

lemma toSQL_kept_all: "j + 2 * length s < 1000 - 1 \<Longrightarrow> toSQL_kept j s = s"
  by (induction j s rule: toSQL_kept.induct) auto

lemma toSQL_loop_bound: "j + length (toSQL_loop j s) \<le> max j 998"
  by (induction j s rule: toSQL_loop.induct) (auto split: if_splits)

section \<open>Lemmas on splitting\<close>

lemma takeWhile_stop: "c \<notin> set s \<Longrightarrow> takeWhile (\<lambda>x. x \<noteq> c) (s @ c # t) = s"
  by (induction s) auto

lemma takeWhile_all: "c \<notin> set s \<Longrightarrow> takeWhile (\<lambda>x. x \<noteq> c) s = s"
  by (induction s) auto

lemma at_char_append [simp]: "at_char (s @ c # t) (length s) d = (c = d)"
  by (simp add: at_char_def)

lemma at_char_none: "c \<notin> set s \<Longrightarrow> \<not> at_char s i c"
  by (auto simp: at_char_def)

lemma at_char_end [simp]: "\<not> at_char s (length s) d"
  by (simp add: at_char_def)

lemma buf_str_short [cstr_simps]: "nul_free s \<Longrightarrow> length s < n \<Longrightarrow> buf_str n s = Inr s"
  by (simp add: buf_str_def)

text \<open>Words joined by single blanks, as command lines and reports have them.\<close>

fun join_sp :: "string list \<Rightarrow> string" where
  "join_sp [] = []"
| "join_sp [w] = w"
| "join_sp (w # ws) = w @ CHR '' '' # join_sp ws"

definition is_word :: "string \<Rightarrow> bool" where
  "is_word w = (w \<noteq> [] \<and> CHR '' '' \<notin> set w \<and> nul_free w \<and> length w < 500)"

lemma join_sp_head: "ws \<noteq> [] \<Longrightarrow> \<forall>w \<in> set ws. is_word w \<Longrightarrow>
    \<exists>c t. join_sp ws = c # t \<and> c \<noteq> CHR '' ''"
proof (induction ws rule: join_sp.induct)
  case (2 w)
  then show ?case by (cases w) (auto simp: is_word_def)
next
  case (3 w v ws)
  then show ?case by (cases w) (auto simp: is_word_def)
qed simp

lemma skip_word_join: "is_word w \<Longrightarrow> \<forall>v \<in> set ws. is_word v \<Longrightarrow> skip_word (join_sp (w # ws)) = join_sp ws"
proof (cases ws)
  case Nil
  assume "is_word w"
  then have "dropWhile (\<lambda>c. c \<noteq> CHR '' '') w = []" by (auto simp: is_word_def dropWhile_eq_Nil_conv)
  with Nil show ?thesis by (simp only: skip_word_def join_sp.simps dropWhile.simps)
next
  case (Cons v vs)
  assume w: "is_word w" and "\<forall>v \<in> set ws. is_word v"
  then obtain c t where ct: "join_sp ws = c # t" "c \<noteq> CHR '' ''"
    using join_sp_head[of ws] Cons by auto
  have "dropWhile (\<lambda>c. c \<noteq> CHR '' '') (w @ CHR '' '' # join_sp ws) = CHR '' '' # join_sp ws"
    using w by (auto simp: is_word_def dropWhile_append)
  with ct Cons show ?thesis by (simp add: skip_word_def)
qed

lemma skip_word_Nil [simp]: "skip_word [] = []"
  by (simp add: skip_word_def)

lemma skip_words_join:
  "\<forall>v \<in> set ws. is_word v \<Longrightarrow> (skip_word ^^ n) (join_sp ws) = join_sp (drop n ws)"
proof (induction n arbitrary: ws)
  case (Suc n)
  show ?case
  proof (cases ws)
    case Nil
    have "(skip_word ^^ k) [] = []" for k by (induction k) simp_all
    with Nil show ?thesis by simp
  next
    case (Cons w vs)
    with Suc.prems have "skip_word (join_sp ws) = join_sp vs" by (simp add: skip_word_join)
    moreover have "(skip_word ^^ n) (join_sp vs) = join_sp (drop n vs)" using Suc Cons by simp
    ultimately show ?thesis using Cons by (simp add: funpow_swap1)
  qed
qed simp

lemma first_word_join:
  "is_word w \<Longrightarrow> takeWhile (\<lambda>x. x \<noteq> CHR '' '') (join_sp (w # ws)) = w"
  by (cases ws) (auto simp: is_word_def takeWhile_stop takeWhile_all)

section \<open>Properties\<close>

text \<open>C34: whatever user text goes in, an SQL reader that opens a quote before \<^verbatim>\<open>toSQL\<close>'s output
reads it to its end as one literal (no bare quote, no dangling backslash, truncation
included), the literal is a prefix of the input as \<^verbatim>\<open>snprintf\<close> cut it, and the output with its
terminator fits \<^verbatim>\<open>ret[1000]\<close>.\<close>

theorem toSQL_safe:
  "\<exists>kept rest. sql_literal (toSQL s) = Some kept \<and> snprintf_s 899 s = kept @ rest \<and>
     length (toSQL s) < 1000"
proof -
  obtain r where "snprintf_s 899 s = toSQL_kept 0 (snprintf_s 899 s) @ r"
    using toSQL_kept_prefix by blast
  moreover have "length (toSQL s) < 1000"
    using toSQL_loop_bound[of 0 "snprintf_s 899 s"] by (simp add: toSQL_def)
  ultimately show ?thesis by (auto simp: toSQL_def toSQL_loop_literal)
qed

text \<open>On a C string of at most 498 bytes the quoting loses nothing: the literal an SQL reader
sees is the input.\<close>

lemma toSQL_roundtrip:
  assumes "nul_free s" "length s \<le> 498"
  shows "sql_literal (toSQL s) = Some s"
proof -
  have "snprintf_s 899 s = s" using assms by (simp add: snprintf_s_short)
  then show ?thesis using assms(2) by (simp add: toSQL_def toSQL_loop_literal toSQL_kept_all)
qed

lemma toSQL_roundtrip_witness:
  "sql_literal (toSQL (''it'' @ [CHR 0x27] @ ''s'')) = Some (''it'' @ [CHR 0x27] @ ''s'')"
  by (rule toSQL_roundtrip) simp_all

text \<open>On a string of words separated by single blanks, \<^verbatim>\<open>split(s,n)\<close> is the n-th word, and
the empty string past the last one.\<close>

lemma split_words:
  assumes "\<forall>w \<in> set ws. is_word w"
  shows "split (Some (join_sp ws)) (int n) = Inr (if n < length ws then ws ! n else [])"
proof (cases "n < length ws")
  case True
  then have d: "drop n ws = ws ! n # drop (Suc n) ws" by (simp add: Cons_nth_drop_Suc)
  from True assms have w: "is_word (ws ! n)" by simp
  then have "ws ! n \<noteq> []" "length (ws ! n) < 500" "nul_free (ws ! n)" by (auto simp: is_word_def)
  moreover have "takeWhile (\<lambda>x. x \<noteq> CHR '' '') (join_sp (drop n ws)) = ws ! n"
    using first_word_join[OF w] d by simp
  moreover from this have "join_sp (drop n ws) \<noteq> []" using calculation(1) by auto
  moreover have "join_sp ws \<noteq> []" using True join_sp_head[of ws] assms by (cases ws) auto
  ultimately show ?thesis
    using True assms by (simp add: split_def skip_words_join buf_str_def Let_def)
next
  case False
  with assms show ?thesis by (simp add: split_def skip_words_join)
qed

lemma split_words_witness: "split (Some ''show ip route'') 1 = Inr ''ip''"
  using split_words[of "[''show'', ''ip'', ''route'']" 1] by (simp add: is_word_def)

text \<open>\<^verbatim>\<open>splitId\<close> takes \<^verbatim>\<open>name@host:port\<close> apart into exactly its three parts, and
\<^verbatim>\<open>host:port\<close> into its two (the empty name included).\<close>

lemma splitId_parts:
  assumes "CHR ''@'' \<notin> set name" "CHR '':'' \<notin> set name"
    and "CHR ''@'' \<notin> set host" "CHR '':'' \<notin> set host" "CHR ''@'' \<notin> set port"
    and "nul_free name" "nul_free host" "nul_free port"
    and "length name + length host + length port < 250"
  shows "splitId (Some (name @ ''@'' @ host @ '':'' @ port)) 0 = Inr name \<and>
    splitId (Some (name @ ''@'' @ host @ '':'' @ port)) 1 = Inr host \<and>
    splitId (Some (name @ ''@'' @ host @ '':'' @ port)) 2 = Inr port \<and>
    splitId (Some (host @ '':'' @ port)) 0 = Inr [] \<and>
    splitId (Some (host @ '':'' @ port)) 1 = Inr host \<and>
    splitId (Some (host @ '':'' @ port)) 2 = Inr port"
proof -
  let ?s = "name @ CHR ''@'' # host @ CHR '':'' # port" and ?t = "host @ CHR '':'' # port"
  have n: "takeWhile (\<lambda>x. x \<noteq> CHR ''@'') ?s = name" using assms(1) by (rule takeWhile_stop)
  have h: "takeWhile (\<lambda>x. x \<noteq> CHR '':'') ?t = host" using assms(4) by (rule takeWhile_stop)
  have nh: "takeWhile (\<lambda>x. x \<noteq> CHR '':'') ?s = name @ CHR ''@'' # host"
    using takeWhile_stop[of "CHR '':''" "name @ CHR ''@'' # host" port] assms(2,4) by simp
  have len: "length name < 250" "length host < 250" "length port < 250"
    "length name + length host < 250" "length host + length port < 250" using assms(9) by simp_all
  have a1: "at_char ?s (Suc (length name + length host)) CHR '':''"
    by (simp add: at_char_def nth_append)
  have a2: "\<not> at_char ?t i CHR ''@''" for i using assms(3,5) by (intro at_char_none) simp
  have p1: "splitId (Some (name @ ''@'' @ host @ '':'' @ port)) 0 = Inr name"
    using n len assms(6) by (simp add: splitId_def buf_str_def Let_def)
  have p2: "splitId (Some (name @ ''@'' @ host @ '':'' @ port)) 1 = Inr host"
    using n h len a1 assms(7) by (simp add: splitId_def buf_str_def Let_def)
  have p3: "splitId (Some (name @ ''@'' @ host @ '':'' @ port)) 2 = Inr port"
    using n nh len a1 assms(8,9) by (simp add: splitId_def buf_str_def Let_def)
  have p4: "splitId (Some (host @ '':'' @ port)) 0 = Inr []"
    using a2 by (simp add: splitId_def Let_def)
  have p5: "splitId (Some (host @ '':'' @ port)) 1 = Inr host"
    using h len a2 assms(7) by (simp add: splitId_def buf_str_def Let_def)
  have p6: "splitId (Some (host @ '':'' @ port)) 2 = Inr port"
    using h len assms(8) by (simp add: splitId_def buf_str_def Let_def)
  from p1 p2 p3 p4 p5 p6 show ?thesis by simp
qed

lemma splitId_parts_witness: "splitId (Some ''db@10.1.1.1:49'') 2 = Inr ''49''"
  using splitId_parts[of "''db''" "''10.1.1.1''" "''49''"] by simp

text \<open>\<^verbatim>\<open>getAvpName\<close> and \<^verbatim>\<open>getAvpValue\<close> take \<^verbatim>\<open>name=value\<close> apart: for a name without an
equals sign both parts come back, whatever the value holds.\<close>

lemma avp_roundtrip:
  assumes "CHR ''='' \<notin> set name" "nul_free name" "nul_free value"
    and "length name < 200" "length value < 300"
  shows "getAvpName (Some (name @ ''='' @ value)) = Inr name \<and>
         getAvpValue (Some (name @ ''='' @ value)) = Inr value"
proof -
  have "takeWhile (\<lambda>c. c \<noteq> CHR ''='') (name @ CHR ''='' # value) = name"
    using assms(1) by (rule takeWhile_stop)
  then show ?thesis
    using assms(2-5) by (simp add: getAvpName_def getAvpValue_def buf_str_def Let_def)
qed

lemma avp_roundtrip_witness:
  "getAvpName (Some ''addr=INT:addrpool=1'') = Inr ''addr'' \<and>
   getAvpValue (Some ''addr=INT:addrpool=1'') = Inr ''INT:addrpool=1''"
  using avp_roundtrip[of "''addr''" "''INT:addrpool=1''"] by simp

text \<open>\<^verbatim>\<open>portConvert\<close> swaps the long and the short form of a port, so doing it twice gives back
the form it started from; the double call of the accounting code does not bring both forms to
one.\<close>

lemma portConvert_involution:
  assumes "nul_free d" "length d < 90" "\<not> prefixed d ''yn''" "\<not> prefixed d ''ri''"
    and "p \<in> {''Async'' @ d, ''As'' @ d, ''Serial'' @ d, ''Se'' @ d}"
  shows "portConvert (portConvert p) = p \<and> portConvert p \<noteq> p"
  using assms(5) portConvert_shorten[OF assms(1,2)] portConvert_expand[OF assms(1,2)] assms(3,4)
  by auto

lemma portConvert_involution_witness:
  "portConvert (portConvert ''As33'') = ''As33'' \<and> portConvert ''As33'' \<noteq> ''As33''"
  by (rule portConvert_involution[of "''33''"]) (simp_all add: prefixed_iff)

text \<open>For a dotted quad of octets below 256, with at least one readable byte after the
terminator, \<^verbatim>\<open>isIp\<close> accepts exactly the addresses whose first octet is positive and whose last
is in 1..254; with no byte there the scan leaves the string's memory on every such input.\<close>

lemma isIp_dotted:
  assumes "a < 256" "b < 256" "c < 256" "d < 256"
  shows "isIp (Some (dotted a b c d)) (x # after) = Inr (0 < a \<and> 0 < d \<and> d < 255) \<and>
    isIp (Some (dotted a b c d)) [] = Inl OutOfBounds"
proof
  show "isIp (Some (dotted a b c d)) (x # after) = Inr (0 < a \<and> 0 < d \<and> d < 255)"
    using assms by (rule isIp_dotted_eq)
  have "ip_scan (Suc (Suc (Suc (Suc 0)))) [] = Inl OutOfBounds"
    by (subst ip_scan.simps) simp
  then have "ip_scan 0 (dotted a b c d @ [NUL]) = Inl OutOfBounds"
    using assms by (simp add: dotted_def ip_scan_octet dec_nat_digits dec_octet)
  then show "isIp (Some (dotted a b c d)) [] = Inl OutOfBounds"
    using length_dotted[of a b c d] by (simp add: isIp_def)
qed

lemma isIp_dotted_witness:
  "isIp (Some (dotted 10 0 0 7)) [NUL] = Inr True \<and> isIp (Some (dotted 10 0 0 7)) [] = Inl OutOfBounds"
  using isIp_dotted[of 10 0 0 7 NUL "[]"] by simp

end
