(* ===== verification/UtilsTime.thy ===== *)
theory UtilsTime
  imports Utils
begin

text \<open>
  Dates and times of \<^verbatim>\<open>src/Utils.cc\<close>: ISO and SQL texts, the H.323 texts of voice gateways and
  the cron-like access times. The C library's \<^verbatim>\<open>localtime_r\<close> and \<^verbatim>\<open>mktime\<close> are
  parameters. Loops that the source does not bound give \<open>None\<close> when they never end.
\<close>

record tm =
  tm_sec :: int
  tm_min :: int
  tm_hour :: int
  tm_mday :: int
  tm_mon :: int
  tm_year :: int
  tm_wday :: int
  tm_isdst :: int
  tm_zone :: string

definition zero_tm :: tm where
  "zero_tm = \<lparr> tm_sec = 0, tm_min = 0, tm_hour = 0, tm_mday = 0, tm_mon = 0, tm_year = 0,
     tm_wday = 0, tm_isdst = 0, tm_zone = [] \<rparr>"

section \<open>ISO and SQL\<close>

definition time2iso :: "(int \<Rightarrow> tm) \<Rightarrow> int \<Rightarrow> string" where
  "time2iso localtime t = (let tt = localtime t in
     snprintf_s 63 (zpad 4 (1900 + tm_year tt) @ ''-'' @ zpad 2 (tm_mon tt + 1) @ ''-'' @ zpad 2 (tm_mday tt) @
       '' '' @ zpad 2 (tm_hour tt) @ '':'' @ zpad 2 (tm_min tt) @ '':'' @ zpad 2 (tm_sec tt)))"

definition time2sql :: "(int \<Rightarrow> tm) \<Rightarrow> int \<Rightarrow> string" where
  "time2sql localtime t = (let tt = localtime t; tz = take 9 (tm_zone tt) in
     snprintf_s 63 (zpad 2 (tm_mon tt + 1) @ ''/'' @ zpad 2 (tm_mday tt) @ ''/'' @ zpad 4 (1900 + tm_year tt) @
       '' '' @ zpad 2 (tm_hour tt) @ '':'' @ zpad 2 (tm_min tt) @ '':'' @ zpad 2 (tm_sec tt) @ '' '' @ tz))"

text \<open>The characters from \<open>lo\<close> up to \<open>hi\<close> or the terminator; beyond the terminator there is nothing
to read.\<close>

definition field :: "nat \<Rightarrow> nat \<Rightarrow> string \<Rightarrow> string cres" where
  "field lo hi s = (if length s < lo then Inl OutOfBounds else Inr (take (hi - lo) (drop lo s)))"

text \<open>\<open>junk\<close> is what the uninitialised \<^verbatim>\<open>struct tm\<close> holds.\<close>

definition iso2time :: "(tm \<Rightarrow> int) \<Rightarrow> tm \<Rightarrow> string option \<Rightarrow> int cres" where
  "iso2time mktime junk str = (case str of
      None \<Rightarrow> Inr 0
    | Some s \<Rightarrow>
       if length s < 8 then Inr 0
       else cbind (field 0 4 s) (\<lambda>y. cbind (field 5 7 s) (\<lambda>mo. cbind (field 8 10 s) (\<lambda>d.
            cbind (field 11 13 s) (\<lambda>h. cbind (field 14 16 s) (\<lambda>mi. cbind (field 17 19 s) (\<lambda>se.
            Inr (mktime (junk \<lparr> tm_year := atoi_c y - 1900, tm_mon := atoi_c mo - 1, tm_mday := atoi_c d,
              tm_hour := atoi_c h, tm_min := atoi_c mi, tm_sec := atoi_c se \<rparr>)))))))))"

section \<open>H.323\<close>

definition months :: "string list" where
  "months = [''Jan'', ''Feb'', ''Mar'', ''Apr'', ''May'', ''Jun'', ''Jul'', ''Aug'', ''Sep'', ''Oct'', ''Nov'', ''Dec'']"

fun index_of :: "string \<Rightarrow> string list \<Rightarrow> nat \<Rightarrow> int" where
  "index_of m [] i = 0"
| "index_of m (x # xs) i = (if scomp (Some m) (Some x) then int i else index_of m xs (Suc i))"

definition month_no :: "string \<Rightarrow> int" where
  "month_no m = index_of m months 1"

text \<open>Fixed columns: eight characters of time, thirteen skipped, three of month, the day, the year.\<close>

definition h323time2iso :: "string option \<Rightarrow> string cres" where
  "h323time2iso str = (case str of
      None \<Rightarrow> Inr ''1980-01-01 00:00:00''
    | Some s \<Rightarrow>
       if length s < 6 then Inr ''1980-01-01 00:00:00''
       else let t = take 8 s; i = length t + 13
            in cbind (ptr_add s i) (\<lambda>r1. let m = take 3 r1 in
               cbind (ptr_add r1 (length m + 1)) (\<lambda>r2. let d = take 2 (takeWhile (\<lambda>c. c \<noteq> CHR '' '') r2) in
               cbind (ptr_add r2 (length d + 1)) (\<lambda>r3. let y = take 4 r3 in
               Inr (snprintf_s 63 (y @ ''-'' @ zpad 2 (month_no m) @ ''-'' @ zpad 2 (atoi_c d) @ '' '' @ t))))))"

text \<open>One component into \<^verbatim>\<open>str[40]\<close>.\<close>

definition seg :: "char \<Rightarrow> string \<Rightarrow> (string \<times> string) cres" where
  "seg c s = (let w = takeWhile (\<lambda>x. x \<noteq> c) s
     in if 40 \<le> length w then Inl OutOfBounds else Inr (w, drop (length w) s))"

definition skip_blank :: "string \<Rightarrow> string" where
  "skip_blank s = drop 1 (dropWhile (\<lambda>x. x \<noteq> CHR '' '') s)"

text \<open>After the month and after the day the index stays on the blank.\<close>

definition h323time2time :: "(tm \<Rightarrow> int) \<Rightarrow> string option \<Rightarrow> int cres" where
  "h323time2time mktime str = (case str of
      None \<Rightarrow> Inr 0
    | Some s \<Rightarrow>
       if length s < 5 then Inr 0
       else cbind (seg CHR '':'' s) (\<lambda>(h, s). let s = drop 1 s in
            cbind (seg CHR '':'' s) (\<lambda>(mi, s). let s = drop 1 s in
            cbind (seg CHR ''.'' s) (\<lambda>(se, s). let s = skip_blank (skip_blank (skip_blank (drop 1 s))) in
            cbind (seg CHR '' '' s) (\<lambda>(mo, s).
            cbind (seg CHR '' '' s) (\<lambda>(d, s).
            if 40 \<le> length s then Inl OutOfBounds
            else Inr (mktime (zero_tm \<lparr> tm_hour := atoi_c h, tm_min := atoi_c mi, tm_sec := atoi_c se,
                   tm_mon := month_no mo, tm_mday := atoi_c d, tm_year := atoi_c s - 1900 \<rparr>))))))))"

section \<open>Access times\<close>

definition skip_comma :: "string \<Rightarrow> string" where
  "skip_comma s = (case s of [] \<Rightarrow> [] | c # r \<Rightarrow> if c = CHR '','' then r else s)"

partial_function (option) cron_loop :: "int \<Rightarrow> string \<Rightarrow> bool cres option" where
  "cron_loop curtime s =
     (if s = [] then Some (Inr False)
      else case get_digit (Some s) of
        Inl e \<Rightarrow> Some (Inl e)
      | Inr dig \<Rightarrow>
         if curtime = dig then Some (Inr True)
         else let s1 = dropWhile isdigit_c s
              in if s1 \<noteq> [] \<and> hd s1 = CHR ''-'' then
                   (case get_digit (Some (tl s1)) of
                      Inl e \<Rightarrow> Some (Inl e)
                    | Inr dig2 \<Rightarrow>
                       if dig \<le> curtime \<and> curtime \<le> dig2 then Some (Inr True)
                       else cron_loop curtime (skip_comma (dropWhile isdigit_c (tl s1))))
                 else cron_loop curtime (skip_comma s1))"

definition cron_parse :: "string option \<Rightarrow> int \<Rightarrow> bool cres option" where
  "cron_parse entry curtime = (case entry of
      None \<Rightarrow> Some (Inr False)
    | Some s \<Rightarrow>
       if s = [] then Some (Inr False)
       else if hd s = CHR ''*'' then Some (Inr True)
       else cron_loop curtime s)"

text \<open>
  One of the first four fields, into an array of 100 bytes: only a blank ends it, and an empty one leaves the
  array unwritten (\<open>None\<close>). Blanks after it are skipped.
\<close>

definition time_field :: "string \<Rightarrow> (string option \<times> string) cres" where
  "time_field s = (let w = takeWhile (\<lambda>c. c \<noteq> CHR '' '') s
     in if CHR '' '' \<notin> set s \<or> 100 \<le> length w then Inl OutOfBounds
        else Inr (if w = [] then None else Some w, dropWhile (\<lambda>c. c = CHR '' '') (drop (length w) s)))"

definition last_field :: "string \<Rightarrow> string option cres" where
  "last_field s = (let w = takeWhile (\<lambda>c. c \<noteq> CHR '' '') s
     in if 100 \<le> length w then Inl OutOfBounds else Inr (if w = [] then None else Some w))"

fun cron_all :: "(string option \<times> int) list \<Rightarrow> bool cres option" where
  "cron_all [] = Some (Inr True)"
| "cron_all ((None, t) # fs) = Some (Inl Indeterminate)"
| "cron_all ((Some f, t) # fs) = (case cron_parse (Some f) t of
      None \<Rightarrow> None
    | Some (Inl e) \<Rightarrow> Some (Inl e)
    | Some (Inr b) \<Rightarrow> if b then cron_all fs else Some (Inr False))"

definition check_time :: "tm \<Rightarrow> string option \<Rightarrow> bool cres option" where
  "check_time tt entry = (case entry of
      None \<Rightarrow> Some (Inr True)
    | Some s \<Rightarrow>
       if length s < 3 then Some (Inr True)
       else case cbind (time_field s) (\<lambda>(c_min, s). cbind (time_field s) (\<lambda>(c_hour, s).
              cbind (time_field s) (\<lambda>(c_day, s). cbind (time_field s) (\<lambda>(c_month, s).
              cbind (last_field s) (\<lambda>c_weekday. Inr [(c_min, tm_min tt), (c_hour, tm_hour tt),
                (c_day, tm_mday tt), (c_month, tm_mon tt + 1), (c_weekday, tm_wday tt)]))))) of
            Inl e \<Rightarrow> Some (Inl e)
          | Inr fs \<Rightarrow> cron_all fs)"

section \<open>Well-formed access times\<close>

datatype cron_item = One nat | Span nat nat

datatype cron_field = AnyTime | Items "cron_item list"

fun item_text :: "cron_item \<Rightarrow> string" where
  "item_text (One a) = dec_nat a"
| "item_text (Span a b) = dec_nat a @ ''-'' @ dec_nat b"

fun items_text :: "cron_item list \<Rightarrow> string" where
  "items_text [] = []"
| "items_text [i] = item_text i"
| "items_text (i # is) = item_text i @ '','' @ items_text is"

fun field_text :: "cron_field \<Rightarrow> string" where
  "field_text AnyTime = ''*''"
| "field_text (Items is) = items_text is"

fun item_has :: "int \<Rightarrow> cron_item \<Rightarrow> bool" where
  "item_has t (One a) = (t = int a)"
| "item_has t (Span a b) = (int a \<le> t \<and> t \<le> int b \<or> t = int a)"

fun field_has :: "int \<Rightarrow> cron_field \<Rightarrow> bool" where
  "field_has t AnyTime = True"
| "field_has t (Items is) = (\<exists>i \<in> set is. item_has t i)"

fun item_ok :: "cron_item \<Rightarrow> bool" where
  "item_ok (One a) = (a < 10 ^ 9)"
| "item_ok (Span a b) = (a < 10 ^ 9 \<and> b < 10 ^ 9)"

fun field_ok :: "cron_field \<Rightarrow> bool" where
  "field_ok AnyTime = True"
| "field_ok (Items is) = (is \<noteq> [] \<and> list_all item_ok is \<and> length (items_text is) < 100)"

definition digits_end :: "string \<Rightarrow> bool" where
  "digits_end r = (r = [] \<or> \<not> isdigit_c (hd r))"

lemma dropWhile_digits: "digits_end r \<Longrightarrow> dropWhile isdigit_c (dec_nat n @ r) = r"
  using dec_nat_digits by (cases r) (auto simp: digits_end_def dropWhile_append)

lemma get_digit_dec:
  assumes "n < 10 ^ 9" "digits_end r"
  shows "get_digit (Some (dec_nat n @ r)) = Inr (int n)"
proof -
  have t: "takeWhile isdigit_c (dec_nat n @ r) = dec_nat n"
    using assms(2) dec_nat_digits by (cases r) (auto simp: digits_end_def takeWhile_append)
  have "length (dec_nat n) \<le> 9" using length_dec_nat[of n 9] assms(1) by simp
  moreover have "n < 2 ^ 31" using assms(1) by simp
  ultimately show ?thesis by (simp add: get_digit_def t atoi_dec_nat)
qed

lemma digits_end_simps [simp]:
  "digits_end []" "digits_end (CHR '','' # r)" "digits_end (CHR ''-'' # r)" "digits_end (CHR '' '' # r)"
  by (simp_all add: digits_end_def isdigit_c_def code_def)

lemma cron_loop_item:
  assumes "item_ok i" "digits_end r" "r = [] \<or> hd r = CHR '',''"
  shows "cron_loop t (item_text i @ r) = (if item_has t i then Some (Inr True) else cron_loop t (skip_comma r))"
proof (cases i)
  case (One a)
  with assms show ?thesis
    by (subst cron_loop.simps) (auto simp: get_digit_dec dropWhile_digits)
next
  case (Span a b)
  have r: "digits_end (CHR ''-'' # dec_nat b @ r)" by simp
  show ?thesis
    using assms Span
    by (subst cron_loop.simps) (auto simp: get_digit_dec[OF _ r] get_digit_dec dropWhile_digits[OF r] dropWhile_digits)
qed

lemma cron_loop_items:
  "list_all item_ok is \<Longrightarrow> cron_loop t (items_text is) = Some (Inr (\<exists>i \<in> set is. item_has t i))"
proof (induction "is" rule: items_text.induct)
  case 1
  show ?case by (subst cron_loop.simps) simp
next
  case (2 i)
  then show ?case using cron_loop_item[of i "[]" t] by (simp add: skip_comma_def, subst cron_loop.simps, simp)
next
  case (3 i j js)
  then show ?case using cron_loop_item[of i "CHR '','' # items_text (j # js)" t] by (simp add: skip_comma_def)
qed

lemma items_text_chars: "c \<in> set (items_text is) \<Longrightarrow> isdigit_c c \<or> c = CHR '','' \<or> c = CHR ''-''"
proof (induction "is" rule: items_text.induct)
  case (2 i)
  then show ?case using dec_nat_digits by (cases i) auto
next
  case (3 i j js)
  then show ?case using dec_nat_digits by (cases i) auto
qed simp

lemma items_text_nonempty: "is \<noteq> [] \<Longrightarrow> items_text is \<noteq> [] \<and> hd (items_text is) \<noteq> CHR ''*''"
proof -
  assume ne: "is \<noteq> []"
  have i: "item_text i \<noteq> []" for i by (cases i) auto
  have n: "items_text is \<noteq> []" using ne i by (cases "is" rule: items_text.cases) auto
  then have "hd (items_text is) \<in> set (items_text is)" by simp
  from items_text_chars[OF this] n show ?thesis by (auto simp: isdigit_c_def code_def)
qed

lemma cron_parse_field: "field_ok f \<Longrightarrow> cron_parse (Some (field_text f)) t = Some (Inr (field_has t f))"
  by (cases f) (auto simp: cron_parse_def cron_loop_items dest: items_text_nonempty)

lemma items_text_no_blank: "CHR '' '' \<notin> set (items_text is)"
  using items_text_chars[of "CHR '' ''" "is"] by (auto simp: isdigit_c_def code_def)

lemma field_text_ok:
  "field_ok f \<Longrightarrow> field_text f \<noteq> [] \<and> length (field_text f) < 100 \<and> CHR '' '' \<notin> set (field_text f)"
  using items_text_nonempty items_text_no_blank by (cases f) auto

lemma time_field_text:
  assumes "field_ok f" "s \<noteq> []" "hd s \<noteq> CHR '' ''"
  shows "time_field (field_text f @ CHR '' '' # s) = Inr (Some (field_text f), s)"
proof -
  have "takeWhile (\<lambda>c. c \<noteq> CHR '' '') (field_text f @ CHR '' '' # s) = field_text f"
    using field_text_ok[OF assms(1)] by (simp add: takeWhile_stop)
  then show ?thesis
    using field_text_ok[OF assms(1)] assms(2,3) by (cases s) (auto simp: time_field_def)
qed

lemma last_field_text: "field_ok f \<Longrightarrow> last_field (field_text f) = Inr (Some (field_text f))"
  using field_text_ok[of f] by (simp add: last_field_def Let_def takeWhile_all)

section \<open>Properties\<close>



definition stuck :: "string \<Rightarrow> bool" where
  "stuck s = (s \<noteq> [] \<and> \<not> isdigit_c (hd s) \<and> hd s \<noteq> CHR ''-'' \<and> hd s \<noteq> CHR '','')"

lemma stuck_step: "stuck s \<Longrightarrow> get_digit (Some s) = Inr 0 \<and> dropWhile isdigit_c s = s \<and> skip_comma s = s"
  by (cases s) (auto simp: stuck_def get_digit_def atoi_c_def atol_c_def wrap32_def skip_comma_def)

lemma cron_loop_hangs: "cron_loop t s = Some r \<Longrightarrow> t \<noteq> 0 \<longrightarrow> \<not> stuck s"
proof (erule cron_loop.raw_induct[rotated])
  fix rec :: "int \<Rightarrow> string \<Rightarrow> bool cres option" and t :: int and s :: string and r :: "bool cres"
  assume ih: "\<And>s b y. rec s b = Some y \<Longrightarrow> s \<noteq> 0 \<longrightarrow> \<not> stuck b"
    and step: "(if s = [] then Some (Inr False)
      else case get_digit (Some s) of Inl e \<Rightarrow> Some (Inl e)
        | Inr dig \<Rightarrow> if t = dig then Some (Inr True)
            else let s1 = dropWhile isdigit_c s
              in if s1 \<noteq> [] \<and> hd s1 = CHR ''-'' then
                   (case get_digit (Some (tl s1)) of Inl e \<Rightarrow> Some (Inl e)
                    | Inr dig2 \<Rightarrow> if dig \<le> t \<and> t \<le> dig2 then Some (Inr True)
                        else rec t (skip_comma (dropWhile isdigit_c (tl s1))))
                 else rec t (skip_comma s1)) = Some r"
  show "t \<noteq> 0 \<longrightarrow> \<not> stuck s"
    using ih[of t s r] step stuck_step[of s] by (cases "stuck s") (auto simp: stuck_def Let_def split: if_splits)
qed

text \<open>A field that starts with a character other than a digit, a dash, a comma or a star is never
left, unless the clock component is 0: the check of the access time does not return.\<close>

lemma cron_hangs:
  assumes "\<not> isdigit_c c" "c \<notin> {CHR ''-'', CHR '','', CHR ''*''}" "t \<noteq> 0"
  shows "cron_parse (Some (c # s)) t = None"
  using cron_loop_hangs[of t "c # s"] assms by (cases "cron_loop t (c # s)") (auto simp: cron_parse_def stuck_def)

lemma cron_hangs_witness: "cron_parse (Some ''Mon'') 1 = None"
  by (rule cron_hangs) (simp_all add: isdigit_c_def code_def)

lemma field_append: "lo = length a \<Longrightarrow> hi = lo + length b \<Longrightarrow> field lo hi (a @ b @ c) = Inr b"
  by (simp add: field_def)

text \<open>The ISO text of a time read back gives \<^verbatim>\<open>mktime\<close> the same date and time of day; the other
members of the broken-down time (the summer time flag among them) are whatever the stack held.\<close>

lemma iso_roundtrip:
  assumes "localtime t = tt" "- 1900 \<le> tm_year tt" "tm_year tt < 8100"
    and "0 \<le> tm_mon tt" "tm_mon tt < 12" "0 \<le> tm_mday tt" "tm_mday tt < 32" "0 \<le> tm_hour tt" "tm_hour tt < 24"
    and "0 \<le> tm_min tt" "tm_min tt < 60" "0 \<le> tm_sec tt" "tm_sec tt < 61"
  shows "iso2time mktime junk (Some (time2iso localtime t)) =
    Inr (mktime (junk \<lparr> tm_year := tm_year tt, tm_mon := tm_mon tt, tm_mday := tm_mday tt,
      tm_hour := tm_hour tt, tm_min := tm_min tt, tm_sec := tm_sec tt \<rparr>))"
proof -
  define y mo d h mi se where v: "y = zpad 4 (1900 + tm_year tt)" "mo = zpad 2 (tm_mon tt + 1)"
    "d = zpad 2 (tm_mday tt)" "h = zpad 2 (tm_hour tt)" "mi = zpad 2 (tm_min tt)" "se = zpad 2 (tm_sec tt)"
  have l: "length y = 4" "length mo = 2" "length d = 2" "length h = 2" "length mi = 2" "length se = 2"
    unfolding v using assms by (simp_all add: length_zpad)
  have a: "atoi_c y = 1900 + tm_year tt" "atoi_c mo = tm_mon tt + 1" "atoi_c d = tm_mday tt"
    "atoi_c h = tm_hour tt" "atoi_c mi = tm_min tt" "atoi_c se = tm_sec tt"
    unfolding v using assms atoi_zpad[of _ "[]"] by simp_all
  define s where "s = y @ ''-'' @ mo @ ''-'' @ d @ '' '' @ h @ '':'' @ mi @ '':'' @ se"
  have "nul_free s" by (simp add: s_def v nul_free_zpad)
  then have t: "time2iso localtime t = s"
    using l by (simp add: time2iso_def assms(1) Let_def s_def v snprintf_s_short)
  have f: "field 0 4 s = Inr y" "field 5 7 s = Inr mo" "field 8 10 s = Inr d" "field 11 13 s = Inr h"
    "field 14 16 s = Inr mi" "field 17 19 s = Inr se"
    using field_append[of 0 "[]" 4 y] field_append[of 5 "y @ ''-''" 7 mo] field_append[of 8 "y @ ''-'' @ mo @ ''-''" 10 d]
      field_append[of 11 "y @ ''-'' @ mo @ ''-'' @ d @ '' ''" 13 h]
      field_append[of 14 "y @ ''-'' @ mo @ ''-'' @ d @ '' '' @ h @ '':''" 16 mi]
      field_append[of 17 "y @ ''-'' @ mo @ ''-'' @ d @ '' '' @ h @ '':'' @ mi @ '':''" 19 se "[]"] l
    by (simp_all add: s_def)
  have "length s = 19" using l by (simp add: s_def)
  then show ?thesis by (simp add: iso2time_def t f a)
qed

lemma iso_roundtrip_witness:
  "iso2time tm_mday zero_tm (Some (time2iso (\<lambda>t. zero_tm \<lparr> tm_mday := 17, tm_year := 108 \<rparr>) 0)) = Inr 17"
  by (subst iso_roundtrip[OF refl]) (simp_all add: zero_tm_def)

lemma seg_stop: "c \<notin> set w \<Longrightarrow> length w < 40 \<Longrightarrow> seg c (w @ c # s) = Inr (w, c # s)"
  by (simp add: seg_def Let_def takeWhile_stop)

lemma skip_blank_stop: "CHR '' '' \<notin> set w \<Longrightarrow> skip_blank (w @ CHR '' '' # s) = s"
  by (induction w) (auto simp: skip_blank_def)

text \<open>For a gateway's time \<open>hh:mm:ss.ms zone weekday month day year\<close> the reader leaves the
day of the month 0, takes the day for the year and counts the months from 1; the year is lost.\<close>

lemma h323_time_fields:
  assumes "0 \<le> h" "h < 100" "0 \<le> mi" "mi < 100" "0 \<le> se" "se < 100" "m < 12" "d < 100" "y < 10000"
    and "CHR '' '' \<notin> set ms" "CHR '' '' \<notin> set zone" "CHR '' '' \<notin> set wd"
  shows "h323time2time mktime (Some (zpad 2 h @ '':'' @ zpad 2 mi @ '':'' @ zpad 2 se @ ''.'' @ ms @ '' '' @ zone @ '' '' @
      wd @ '' '' @ months ! m @ '' '' @ dec_nat d @ '' '' @ dec_nat y)) =
    Inr (mktime (zero_tm \<lparr> tm_hour := h, tm_min := mi, tm_sec := se, tm_mon := int m + 1, tm_mday := 0,
      tm_year := int d - 1900 \<rparr>))"
proof -
  have z: "\<forall>c \<in> set (zpad 2 i). isdigit_c c" "length (zpad 2 i) = 2" "atoi_c (zpad 2 i) = i"
    if "0 \<le> i" "i < 100" for i
    using that dec_nat_digits atoi_zpad[of i "[]" 2] length_zpad[of i 2]
    by (auto simp: zpad_def Let_def isdigit_c_def code_def)
  have no: "CHR '':'' \<notin> set (zpad 2 i)" "CHR ''.'' \<notin> set (zpad 2 i)" if "0 \<le> i" "i < 100" for i
    using z(1)[OF that] by (auto simp: isdigit_c_def code_def)
  have mn: "month_no (months ! m) = int m + 1 \<and> length (months ! m) = 3 \<and> CHR '' '' \<notin> set (months ! m)"
  proof -
    have "\<forall>m \<in> set [0..<12]. month_no (months ! m) = int m + 1 \<and> length (months ! m) = 3 \<and> CHR '' '' \<notin> set (months ! m)"
      by (simp add: upt_rec[of 0] upt_rec months_def month_no_def)
    then show ?thesis using assms(7) by simp
  qed
  let ?y = "CHR '' '' # dec_nat d @ CHR '' '' # dec_nat y"
  have ly: "length ?y < 40" using length_dec_nat[of d 2] length_dec_nat[of y 4] assms(8,9) by simp
  have dd: "d < 2 ^ 31" using assms(8) by (rule order.strict_trans) simp
  have "atoi_c (dec_nat d @ CHR '' '' # dec_nat y) = int d"
    using atoi_digits[of "dec_nat d" "CHR '' '' # dec_nat y"] dec_nat_digits dd
    by (simp add: digits_val_dec_nat isdigit_c_def[of "CHR '' ''"] code_def)
  then have ay: "atoi_c ?y = int d" by (simp add: atoi_c_def atol_c_def isspace_c_def code_def)
  have e: "atoi_c [] = 0" by (simp add: atoi_c_def atol_c_def wrap32_def)
  show ?thesis
    using no z assms mn ly
    by (simp add: h323time2time_def seg_stop skip_blank_stop seg_def[of "CHR '' ''" ?y] ay e Let_def)
qed

lemma h323_time_fields_witness:
  "h323time2time tm_year (Some ''14:31:14.905 VSK Tue Nov 6 2001'') = Inr (- 1894)"
proof -
  have t: "''14:31:14.905 VSK Tue Nov 6 2001'' = zpad 2 14 @ '':'' @ zpad 2 31 @ '':'' @ zpad 2 14 @ ''.'' @ ''905'' @ '' '' @
     ''VSK'' @ '' '' @ ''Tue'' @ '' '' @ months ! 10 @ '' '' @ dec_nat 6 @ '' '' @ dec_nat 2001"
    by code_simp
  show ?thesis unfolding t by (subst h323_time_fields) simp_all
qed

end
