(* ===== verification/UtilsMatch.thy ===== *)
theory UtilsMatch
  imports Utils
begin

text \<open>
  Words of the command language against their masks (\<^verbatim>\<open>src/Utils.cc\<close>): in a mask the capitals are the
  part that must be typed. Bytes after the end of a buffer that is cleared first are zero.
\<close>

section \<open>Command words\<close>

text \<open>First loop: while the mask has capitals, second loop: the rest, up to the end of either.\<close>

fun match_low :: "string \<Rightarrow> string \<Rightarrow> bool" where
  "match_low (x # b) (m # msk) = (m = tolower_c x \<and> match_low b msk)"
| "match_low b [] = (b = [] \<or> hd b = CHR '' '')"
| "match_low [] msk = True"

fun match_up :: "string \<Rightarrow> string \<Rightarrow> bool" where
  "match_up (x # b) (m # msk) =
     (if isupper_c m then tolower_c m = tolower_c x \<and> match_up b msk else match_low (x # b) (m # msk))"
| "match_up b msk = match_low b msk"

definition match :: "string option \<Rightarrow> string option \<Rightarrow> bool" where
  "match b msk = (case (b, msk) of
      (Some w, Some m) \<Rightarrow> w \<noteq> [] \<and> m \<noteq> [] \<and> match_up w m
    | _ \<Rightarrow> False)"

fun strict_low :: "string \<Rightarrow> string \<Rightarrow> bool" where
  "strict_low (x # b) (m # msk) = (x = CHR '' '' \<or> m = tolower_c x \<and> strict_low b msk)"
| "strict_low b msk = True"

fun strict_up :: "string \<Rightarrow> string \<Rightarrow> bool" where
  "strict_up (x # b) (m # msk) =
     (if isupper_c m then tolower_c m = tolower_c x \<and> strict_up b msk else strict_low (x # b) (m # msk))"
| "strict_up [] (m # msk) = (\<not> isupper_c m)"
| "strict_up b [] = True"

definition matchNstrict :: "string \<Rightarrow> string \<Rightarrow> bool" where
  "matchNstrict b msk = (b \<noteq> [] \<and> strict_up b msk)"

section \<open>Values\<close>

text \<open>The mask split at the bars into at most eleven rows of 100 bytes; the eleventh stays empty.\<close>

fun split_mask :: "nat \<Rightarrow> string \<Rightarrow> string \<Rightarrow> string list cres" where
  "split_mask j row [] = Inr [row]"
| "split_mask j row (c # msk) =
     (if c = CHR ''|'' then
        (if j = 9 then Inr [row, []] else cbind (split_mask (Suc j) [] msk) (\<lambda>rs. Inr (row # rs)))
      else if length row = 99 then Inl OutOfBounds
      else split_mask j (row @ [c]) msk)"

definition choice_hit :: "string \<Rightarrow> string \<Rightarrow> bool" where
  "choice_hit b s =
     (let n = length (takeWhile isupper_c s)
      in n \<le> length b \<and> map tolower_c (take n s) = map tolower_c (take n b) \<and>
         list_all (\<lambda>(x, y). x = tolower_c y) (zip (drop n s) (drop n b)))"

definition vmatch :: "(string \<Rightarrow> bool) \<Rightarrow> string option \<Rightarrow> string option \<Rightarrow> string cres" where
  "vmatch regcomp_ok inp msk = (case (inp, msk) of
      (Some i, Some m) \<Rightarrow>
        if i = [] then Inr []
        else let b = snprintf_s 199 i
             in if scomp (Some m) (Some ''*'') then Inr b
                else if scomp (Some m) (Some ''(int)'') then Inr (if list_all isdigit_c b then b else [])
                else if scomp (Some m) (Some ''(regex)'') then Inr (if regcomp_ok b then b else [])
                else if scomp (Some m) (Some ''(ip)'') then
                  cbind (isIp (Some b) [NUL]) (\<lambda>ok. Inr (if ok then b else []))
                else cbind (split_mask 0 [] m) (\<lambda>rows.
                  Inr (case find (choice_hit b) rows of Some s \<Rightarrow> map tolower_c s | None \<Rightarrow> []))
    | _ \<Rightarrow> Inr [])"

section \<open>Properties\<close>

text \<open>A mask as the command tables write it: the part to type in capitals, the rest in small letters.\<close>

definition cmd_mask :: "string \<Rightarrow> string \<Rightarrow> bool" where
  "cmd_mask U L = (list_all isupper_c U \<and> list_all (\<lambda>c. \<not> isupper_c c) L \<and> U @ L \<noteq> [] \<and> CHR '' '' \<notin> set L)"

lemma tolower_low: "\<not> isupper_c c \<Longrightarrow> tolower_c c = c"
  by (simp add: tolower_c_def)

definition starts :: "string \<Rightarrow> string \<Rightarrow> bool" where
  "starts b m = (take (length b) m = b)"

lemma match_low_iff:
  "list_all (\<lambda>c. \<not> isupper_c c) L \<Longrightarrow> match_low b L =
     (length b \<le> length L \<and> take (length b) L = map tolower_c b \<or>
      (\<exists>w r. b = w @ CHR '' '' # r \<and> map tolower_c w = L))"
proof (induction b L rule: match_low.induct)
  case (1 x b m msk)
  have "(\<exists>w r. x # b = w @ CHR '' '' # r \<and> map tolower_c w = m # msk) =
    (m = tolower_c x \<and> (\<exists>w r. b = w @ CHR '' '' # r \<and> map tolower_c w = msk))" (is "?A = ?B")
  proof
    assume ?A
    then show ?B by (auto simp: Cons_eq_append_conv)
  next
    assume ?B
    then obtain w r where "b = w @ CHR '' '' # r" "map tolower_c w = msk" "m = tolower_c x" by blast
    then show ?A by (intro exI[of _ "x # w"] exI[of _ r]) simp
  qed
  with 1 show ?case by auto
next
  case (2 b)
  show ?case by (cases b) auto
qed auto

lemma match_up_iff:
  "list_all isupper_c U \<Longrightarrow> list_all (\<lambda>c. \<not> isupper_c c) L \<Longrightarrow> match_up b (U @ L) =
     (if length b \<le> length U then map tolower_c b = map tolower_c (take (length b) U) \<and> (length b = length U \<longrightarrow> True)
      else map tolower_c (take (length U) b) = map tolower_c U \<and> match_low (drop (length U) b) L)"
proof (induction U arbitrary: b)
  case Nil
  then show ?case by (cases b; cases L) auto
next
  case (Cons u U)
  then show ?case by (cases b) auto
qed

text \<open>A command word matches its mask exactly when it is, in any case, a beginning of the command
(capitals or not), or the whole command followed by a blank; the capitals of the mask are not required.\<close>

lemma match_abbrev:
  assumes "cmd_mask U L" "b \<noteq> []"
  shows "match (Some b) (Some (U @ L)) =
    (length b \<le> length (U @ L) \<and> map tolower_c b = map tolower_c (take (length b) (U @ L)) \<or>
     (\<exists>w r. b = w @ CHR '' '' # r \<and> map tolower_c w = map tolower_c (U @ L)))"
proof -
  have L: "list_all (\<lambda>c. \<not> isupper_c c) L" "list_all isupper_c U" "U @ L \<noteq> []" using assms by (auto simp: cmd_mask_def)
  have ml: "map tolower_c L = L" using L(1) tolower_low by (induction L) auto
  have mt: "map tolower_c (take n L) = take n L" for n by (simp add: take_map[symmetric] ml)
  show ?thesis
  proof (cases "length b \<le> length U")
    case True
    have "\<not> (\<exists>w r. b = w @ CHR '' '' # r \<and> map tolower_c w = map tolower_c (U @ L))"
    proof
      assume "\<exists>w r. b = w @ CHR '' '' # r \<and> map tolower_c w = map tolower_c (U @ L)"
      then obtain w r where "b = w @ CHR '' '' # r" "length w = length (U @ L)" by (metis length_map)
      with True show False by simp
    qed
    moreover have "match (Some b) (Some (U @ L)) = (map tolower_c b = map tolower_c (take (length b) U))"
      using True L assms(2) by (simp add: match_def match_up_iff)
    moreover have "take (length b) (U @ L) = take (length b) U" "length b \<le> length (U @ L)" using True by simp_all
    ultimately show ?thesis by metis
  next
    case False
    then obtain p q where b: "b = p @ q" "length p = length U" "q \<noteq> []"
      by (metis append_take_drop_id drop_eq_Nil length_take min.absorb2 nat_le_linear)
    have 1: "(length b \<le> length (U @ L) \<and> map tolower_c b = map tolower_c (take (length b) (U @ L))) =
      (map tolower_c p = map tolower_c U \<and> length q \<le> length L \<and> take (length q) L = map tolower_c q)"
      using b by (auto simp: mt)
    have 2: "(\<exists>w r. b = w @ CHR '' '' # r \<and> map tolower_c w = map tolower_c (U @ L)) =
      (map tolower_c p = map tolower_c U \<and> (\<exists>w r. q = w @ CHR '' '' # r \<and> map tolower_c w = L))"
    proof
      assume "\<exists>w r. b = w @ CHR '' '' # r \<and> map tolower_c w = map tolower_c (U @ L)"
      then obtain w r where w: "p @ q = w @ CHR '' '' # r" "map tolower_c w = map tolower_c U @ L"
        using b ml by auto
      then have lw: "length w = length U + length L" by (metis length_append length_map)
      then obtain w' where "w = p @ w'" using w(1) b(2)
        by (metis append_eq_append_conv_if append_take_drop_id le_add1)
      with w b(2) show "map tolower_c p = map tolower_c U \<and> (\<exists>w r. q = w @ CHR '' '' # r \<and> map tolower_c w = L)"
        by auto
    next
      assume "map tolower_c p = map tolower_c U \<and> (\<exists>w r. q = w @ CHR '' '' # r \<and> map tolower_c w = L)"
      then obtain w r where "map tolower_c p = map tolower_c U" "q = w @ CHR '' '' # r" "map tolower_c w = L" by blast
      with b ml show "\<exists>w r. b = w @ CHR '' '' # r \<and> map tolower_c w = map tolower_c (U @ L)"
        by (intro exI[of _ "p @ w"] exI[of _ r]) simp
    qed
    have "match (Some b) (Some (U @ L)) = (map tolower_c p = map tolower_c U \<and> match_low q L)"
      using False b L assms(2) by (simp add: match_def match_up_iff)
    then show ?thesis unfolding 1 2 match_low_iff[OF L(1)] by blast
  qed
qed

lemma match_abbrev_witness: "match (Some ''s'') (Some ''SHow'')"
proof -
  have t: "tolower_c CHR ''S'' = CHR ''s''" "tolower_c CHR ''s'' = CHR ''s''" by code_simp+
  show ?thesis
    using match_abbrev[of "''SH''" "''ow''" "''s''"] by (simp add: cmd_mask_def isupper_c_def code_def t)
qed

end
