(* ===== verification/IpAddr.thy ===== *)
theory IpAddr
  imports Utils
begin

text \<open>
  Class \<^verbatim>\<open>ipaddr\<close> of \<^verbatim>\<open>include/ipaddr.h\<close>: an address as a number with the name it was
  made from. Name resolution (\<^verbatim>\<open>gethostbyname_r\<close>) is the argument \<open>dns\<close>: \<open>None\<close> where the call
  reports an error. \<^verbatim>\<open>inet_addr\<close> and \<^verbatim>\<open>inet_ntoa\<close> of the C library are modelled; addresses are
  held in host order.
\<close>

type_synonym ipv4 = "32 word"
type_synonym dns = "string \<Rightarrow> ipv4 option"

record ipaddr =
  hname :: string
  ipa :: ipv4

definition UNKNOWN_IP :: string where
  "UNKNOWN_IP = ''0.0.0.0''"

definition octet :: "nat \<Rightarrow> ipv4 \<Rightarrow> nat" where
  "octet i a = unat a div 256 ^ (3 - i) mod 256"

definition inet_ntoa :: "ipv4 \<Rightarrow> string" where
  "inet_ntoa a = dotted (octet 0 a) (octet 1 a) (octet 2 a) (octet 3 a)"

text \<open>\<^verbatim>\<open>inet_addr\<close>: one to four numbers in C notation separated by dots, the last one filling the
bytes that are left; blanks may follow; anything else is \<^verbatim>\<open>INADDR_NONE\<close>.\<close>

definition hexdigit_c :: "char \<Rightarrow> bool" where
  "hexdigit_c c = (isdigit_c c \<or> (65 \<le> code c \<and> code c \<le> 70) \<or> (97 \<le> code c \<and> code c \<le> 102))"

definition hexval :: "char \<Rightarrow> nat" where
  "hexval c = (if isdigit_c c then code c - 48 else if code c < 97 then code c - 55 else code c - 87)"

definition base_val :: "nat \<Rightarrow> string \<Rightarrow> nat" where
  "base_val b s = foldl (\<lambda>a c. b * a + hexval c) 0 s"

definition inet_num :: "string \<Rightarrow> nat option" where
  "inet_num s =
     (if s = [] \<or> \<not> isdigit_c (hd s) then None
      else if take 2 s = ''0x'' \<or> take 2 s = ''0X'' then
        (if drop 2 s \<noteq> [] \<and> list_all hexdigit_c (drop 2 s) then Some (base_val 16 (drop 2 s)) else None)
      else if hd s = CHR ''0'' then
        (if list_all (\<lambda>c. isdigit_c c \<and> code c < 56) s then Some (base_val 8 s) else None)
      else if list_all isdigit_c s then Some (digits_val s) else None)"

fun split_dot :: "string \<Rightarrow> string list" where
  "split_dot [] = [[]]"
| "split_dot (c # s) =
     (if c = CHR ''.'' then [] # split_dot s
      else case split_dot s of [] \<Rightarrow> [[c]] | p # ps \<Rightarrow> (c # p) # ps)"

definition inet_addr :: "string \<Rightarrow> ipv4" where
  "inet_addr s =
     (let parts = map inet_num (split_dot (takeWhile (\<lambda>c. \<not> isspace_c c) s)); k = length parts
      in if 4 < k \<or> None \<in> set parts then - 1
         else let vs = map the parts
              in if (\<forall>v \<in> set (butlast vs). v < 256) \<and> last vs < 256 ^ (5 - k)
                 then word_of_nat (foldl (\<lambda>a (i, v). a + v * 256 ^ (3 - i)) 0
                        (zip [0..<k - 1] (butlast vs)) + last vs)
                 else - 1)"

section \<open>Operations\<close>

definition getipfromname :: "dns \<Rightarrow> string option \<Rightarrow> string" where
  "getipfromname dns name = (case name of
      None \<Rightarrow> UNKNOWN_IP
    | Some nm \<Rightarrow>
        if nm = [] then UNKNOWN_IP
        else if nm = ''localhost'' then ''127.0.0.1''
        else if nm = UNKNOWN_IP then UNKNOWN_IP
        else case dns nm of
               None \<Rightarrow> snprintf_s 63 nm
             | Some a \<Rightarrow> take 63 (inet_ntoa a))"

text \<open>\<^verbatim>\<open>fill\<close> tests \<^verbatim>\<open>!s && strlen(s)<1\<close>: a null pointer is dereferenced, an empty name is
\<^verbatim>\<open>0.0.0.0\<close>.\<close>

definition ip_fill :: "dns \<Rightarrow> string \<Rightarrow> ipaddr" where
  "ip_fill dns s = \<lparr> hname = snprintf_s 99 s, ipa = inet_addr (snprintf_s 99 (getipfromname dns (Some s))) \<rparr>"

definition ip_fill_ptr :: "dns \<Rightarrow> string option \<Rightarrow> ipaddr cres" where
  "ip_fill_ptr dns s = (case s of None \<Rightarrow> Inl NullDeref | Some t \<Rightarrow> Inr (ip_fill dns t))"

definition ip_default :: "dns \<Rightarrow> ipaddr" where
  "ip_default dns = ip_fill dns ''localhost''"

definition ip_get :: "ipaddr \<Rightarrow> string" where
  "ip_get a = inet_ntoa (ipa a)"

text \<open>The copy of the last octet also stops at a blank.\<close>

definition ip_get_n :: "ipaddr \<Rightarrow> int \<Rightarrow> int" where
  "ip_get_n a n =
     (let s = snprintf_s 99 (ip_get a);
          (d1, s1) = next_octet s; (d2, s2) = next_octet s1; (d3, s3) = next_octet s2;
          d4 = take 3 (takeWhile (\<lambda>c. c \<noteq> CHR ''.'' \<and> c \<noteq> CHR '' '') s3)
      in if n = 0 then atoi_c d1 else if n = 1 then atoi_c d2
         else if n = 2 then atoi_c d3 else if n = 3 then atoi_c d4 else 0)"

definition ip_eq :: "ipaddr \<Rightarrow> ipaddr \<Rightarrow> bool" where
  "ip_eq a b = (ipa a = ipa b)"

definition ip_eq_str :: "dns \<Rightarrow> ipaddr \<Rightarrow> string \<Rightarrow> bool" where
  "ip_eq_str dns a s = (ipa a = ipa (ip_fill dns s))"

definition ip_assign :: "ipaddr \<Rightarrow> ipaddr" where
  "ip_assign a = \<lparr> hname = snprintf_s 100 (hname a), ipa = ipa a \<rparr>"

section \<open>Lemmas\<close>

lemma ip_eq_equiv: "ip_eq a a" "ip_eq a b = ip_eq b a" "ip_eq a b \<Longrightarrow> ip_eq b c \<Longrightarrow> ip_eq a c"
  by (auto simp: ip_eq_def)

lemma octet_less [simp]: "octet i a < 256"
  by (simp add: octet_def)

lemma octets_sum:
  "octet 0 a * 16777216 + octet 1 a * 65536 + octet 2 a * 256 + octet 3 a = unat a"
proof -
  define n where "n = unat a"
  have lt: "n < 4294967296" using unsigned_less[of a, where ?'a = nat] by (simp add: n_def)
  define q1 q2 q3 where "q1 = n div 256" and "q2 = q1 div 256" and "q3 = q2 div 256"
  have d: "n div 65536 = q2" "n div 16777216 = q3"
    by (simp_all add: q1_def q2_def q3_def flip: div_mult2_eq)
  have "n = q1 * 256 + n mod 256" "q1 = q2 * 256 + q1 mod 256" "q2 = q3 * 256 + q2 mod 256"
    by (simp_all add: q1_def q2_def q3_def)
  moreover have "q3 < 256" using lt by (simp add: less_mult_imp_div_less flip: d(2))
  ultimately have "q3 mod 256 * 16777216 + q2 mod 256 * 65536 + q1 mod 256 * 256 + n mod 256 = n"
    by simp
  then show ?thesis by (simp add: octet_def d q1_def flip: n_def)
qed

lemma split_dot_stop: "CHR ''.'' \<notin> set p \<Longrightarrow> split_dot (p @ CHR ''.'' # s) = p # split_dot s"
  by (induction p) auto

lemma split_dot_all: "CHR ''.'' \<notin> set p \<Longrightarrow> split_dot p = [p]"
  by (induction p) auto

lemma dec_nat_no_dot [simp]: "CHR ''.'' \<notin> set (dec_nat n)"
  using dec_nat_digits isdigit_not_special(5) by blast

lemma dec_nat_hd: "0 < n \<Longrightarrow> hd (dec_nat n) \<noteq> CHR ''0''"
proof (induction n rule: dec_nat.induct)
  case (1 n)
  show ?case
  proof (cases "n < 10")
    case True
    have "code (digit n) \<noteq> code CHR ''0''" using True 1(2) by (simp add: code_def digit_def)
    then have "digit n \<noteq> CHR ''0''" by metis
    with True show ?thesis by (subst dec_nat.simps) simp
  next
    case False
    then have "hd (dec_nat (n div 10)) \<noteq> CHR ''0''" using 1 by simp
    with False show ?thesis by (subst dec_nat.simps) (simp add: hd_append)
  qed
qed

lemma isdigit_hd_dec [simp]: "isdigit_c (hd (dec_nat n))"
  using dec_nat_digits[of n] hd_in_set[OF dec_nat_nonempty[of n]] by blast

lemma inet_num_dec: "inet_num (dec_nat n) = Some n"
proof (cases "n = 0")
  case True
  have "inet_num (dec_nat 0) = Some 0" by code_simp
  with True show ?thesis by simp
next
  case False
  then have hd: "hd (dec_nat n) \<noteq> CHR ''0''" by (simp add: dec_nat_hd)
  have all: "list_all isdigit_c (dec_nat n)" using dec_nat_digits by (simp add: list_all_iff)
  moreover have "take 2 (dec_nat n) \<noteq> CHR ''0'' # t" for t using hd by (cases "dec_nat n") auto
  ultimately show ?thesis using hd by (simp add: inet_num_def digits_val_dec_nat)
qed

lemma inet_addr_dotted:
  assumes "a < 256" "b < 256" "c < 256" "d < 256"
  shows "inet_addr (dotted a b c d) = word_of_nat (a * 16777216 + b * 65536 + c * 256 + d)"
proof -
  let ?s = "dec_nat a @ CHR ''.'' # dec_nat b @ CHR ''.'' # dec_nat c @ CHR ''.'' # dec_nat d"
  have "\<not> isspace_c CHR ''.''" by (simp add: isspace_c_def code_def)
  then have t: "takeWhile (\<lambda>x. \<not> isspace_c x) ?s = ?s"
    using dec_nat_digits isdigit_not_special(1) by (subst takeWhile_eq_all_conv) auto
  have p: "split_dot ?s = [dec_nat a, dec_nat b, dec_nat c, dec_nat d]"
    by (simp add: split_dot_stop split_dot_all)
  show ?thesis
    unfolding dotted_def inet_addr_def append_Cons append_Nil t p
    using assms by (simp add: inet_num_dec Let_def upt_rec)
qed

lemma inet_addr_ntoa [simp]: "inet_addr (inet_ntoa a) = a"
  unfolding inet_ntoa_def by (subst inet_addr_dotted) (simp_all only: octet_less octets_sum, simp)

lemma length_inet_ntoa: "length (inet_ntoa a) \<le> 15"
  using dec_octet[OF octet_less[of 0 a]] dec_octet[OF octet_less[of 1 a]]
    dec_octet[OF octet_less[of 2 a]] dec_octet[OF octet_less[of 3 a]]
  by (simp add: inet_ntoa_def dotted_def)

lemma nul_free_inet_ntoa [simp]: "nul_free (inet_ntoa a)"
  by (simp add: inet_ntoa_def dotted_def)

lemma inet_ntoa_inj: "inet_ntoa a = inet_ntoa b \<Longrightarrow> a = b"
  by (metis inet_addr_ntoa)

lemma next_octet_dec: "a < 256 \<Longrightarrow> next_octet (dec_nat a @ CHR ''.'' # s) = (dec_nat a, s)"
  using dec_octet[of a] by (simp add: next_octet_def takeWhile_stop Let_def)

lemma getipfromname_ntoa:
  "dns (inet_ntoa a) = None \<or> dns (inet_ntoa a) = Some a \<Longrightarrow> getipfromname dns (Some (inet_ntoa a)) = inet_ntoa a"
proof -
  have "isdigit_c (hd (inet_ntoa a))"
    by (simp add: inet_ntoa_def dotted_def)
  then have l: "inet_ntoa a \<noteq> ''localhost''" by (auto simp: isdigit_c_def code_def)
  have "inet_ntoa a \<noteq> []" by (simp add: inet_ntoa_def dotted_def)
  moreover assume "dns (inet_ntoa a) = None \<or> dns (inet_ntoa a) = Some a"
  ultimately show ?thesis using l length_inet_ntoa[of a] by (auto simp: getipfromname_def snprintf_s_short)
qed

lemma ip_fill_ntoa:
  "dns (inet_ntoa a) = None \<or> dns (inet_ntoa a) = Some a \<Longrightarrow> ip_fill dns (inet_ntoa a) = \<lparr> hname = inet_ntoa a, ipa = a \<rparr>"
  using length_inet_ntoa[of a] by (simp add: ip_fill_def getipfromname_ntoa snprintf_s_short)

lemma unknown_ip [simp]: "ipa (ip_fill dns UNKNOWN_IP) = 0"
proof -
  have "CHR ''0'' = char_of (48 :: nat)" by code_simp
  then have z: "UNKNOWN_IP = inet_ntoa 0" by (simp add: UNKNOWN_IP_def inet_ntoa_def dotted_def octet_def dec_nat.simps digit_def)
  have "getipfromname dns (Some UNKNOWN_IP) = UNKNOWN_IP" by (simp add: getipfromname_def UNKNOWN_IP_def)
  then show ?thesis using length_inet_ntoa[of 0] by (simp add: ip_fill_def z snprintf_s_short)
qed

lemma ip_eq_unknown [simp]: "ip_eq_str dns a UNKNOWN_IP = (ipa a = 0)"
  by (simp add: ip_eq_str_def)

lemma atoi_octet: "atoi_c (dec_nat (octet i a)) = int (octet i a)"
  by (rule atoi_dec_nat) (rule order.strict_trans[OF octet_less], simp)

lemma ip_get_n_octet:
  assumes "n < 4"
  shows "ip_get_n x (int n) = int (octet n (ipa x))"
proof -
  let ?a = "ipa x"
  have s: "snprintf_s 99 (ip_get x) = ip_get x"
    using length_inet_ntoa[of ?a] by (simp add: ip_get_def snprintf_s_short)
  have four: "take 3 (takeWhile (\<lambda>c. c \<noteq> CHR ''.'' \<and> c \<noteq> CHR '' '') (dec_nat (octet 3 ?a))) = dec_nat (octet 3 ?a)"
    using dec_nat_digits isdigit_not_special(5,7) dec_octet[OF octet_less[of 3 ?a]]
    by (subst takeWhile_eq_all_conv[THEN iffD2]) (blast, simp)
  have eq: "ip_get_n x k = (if k = 0 then int (octet 0 ?a) else if k = 1 then int (octet 1 ?a)
      else if k = 2 then int (octet 2 ?a) else if k = 3 then int (octet 3 ?a) else 0)" for k
    unfolding ip_get_n_def s
    by (simp only: ip_get_def inet_ntoa_def dotted_def append_Cons append_Nil Let_def
        next_octet_dec[OF octet_less] prod.case four atoi_octet)
  consider "n = 0" | "n = 1" | "n = 2" | "n = 3" using assms by linarith
  then show ?thesis by cases (simp_all only: eq, simp_all)
qed

section \<open>Properties\<close>

text \<open>An address printed by \<^verbatim>\<open>get()\<close> and read back is the same address, with a resolver that
maps a dotted quad to itself; and \<^verbatim>\<open>get(n)\<close> is the n-th octet, from 0.\<close>

lemma ipaddr_roundtrip:
  assumes "dns (ip_get x) = Some (ipa x)"
  shows "ip_eq (ip_fill dns (ip_get x)) x \<and> ip_get (ip_fill dns (ip_get x)) = ip_get x \<and>
    (\<forall>n < 4. ip_get_n x (int n) = int (octet n (ipa x)))"
proof -
  have "ip_get_n x (int n) = int (octet n (ipa x))" if "n < 4" for n
    using that by (rule ip_get_n_octet)
  moreover from assms have "ip_fill dns (ip_get x) = \<lparr> hname = inet_ntoa (ipa x), ipa = ipa x \<rparr>"
    unfolding ip_get_def by (simp add: ip_fill_ntoa)
  ultimately show ?thesis by (simp add: ip_eq_def ip_get_def)
qed

lemma ipaddr_roundtrip_witness:
  "ip_get_n \<lparr> hname = [], ipa = 0x0A000107 \<rparr> 3 = 7 \<and>
   ip_get (ip_fill (\<lambda>s. Some 0x0A000107) ''10.0.1.7'') = ''10.0.1.7''"
proof -
  let ?x = "\<lparr> hname = [], ipa = 0x0A000107 \<rparr>"
  have o: "octet 3 0x0A000107 = 7" "octet 2 0x0A000107 = 1" "octet 1 0x0A000107 = 0"
    "octet 0 0x0A000107 = 10" by (simp_all add: octet_def)
  have "dotted 10 0 1 7 = ''10.0.1.7''" by code_simp
  then have g: "ip_get ?x = ''10.0.1.7''" by (simp only: ip_get_def inet_ntoa_def o ipaddr.select_convs)
  have r: "ip_get (ip_fill (\<lambda>s. Some 0x0A000107) (ip_get ?x)) = ip_get ?x"
    "\<forall>n < 4. ip_get_n ?x (int n) = int (octet n (ipa ?x))"
    using ipaddr_roundtrip[of "\<lambda>s. Some 0x0A000107" ?x] by auto
  from r(2) have "ip_get_n ?x (int 3) = int (octet 3 (ipa ?x))" by (rule allE[of _ 3]) simp
  with r(1) show ?thesis by (simp add: g o)
qed

end
