(* ===== verification/TacPacket.thy ===== *)
theory TacPacket
  imports CString
begin

unbundle bit_operations_syntax

text \<open>
  Layer 1 of TACACS+ (\<^verbatim>\<open>Packet::sockread\<close>, \<^verbatim>\<open>sockwrite\<close> of \<^verbatim>\<open>src/Packet.cc\<close>, class
  \<^verbatim>\<open>TacacsPacket\<close> of \<^verbatim>\<open>src/Tacacs.cc\<close>): the packet header, the chained MD5 pad, reading and
  writing one packet on a connection. A connection is the sequence of what \<^verbatim>\<open>select\<close> and
  \<^verbatim>\<open>read\<close>/\<^verbatim>\<open>write\<close> report on it. MD5 is not code of the repository: it is the argument
  \<open>md5\<close>; its result is written into an array of 16 bytes.
\<close>

section \<open>The header\<close>

abbreviation (input) TAC_PLUS_HDR_SIZE :: nat where "TAC_PLUS_HDR_SIZE \<equiv> 12"
abbreviation (input) TAC_PLUS_VER_0 :: byte where "TAC_PLUS_VER_0 \<equiv> 0xc0"
abbreviation (input) TAC_PLUS_VER_1 :: byte where "TAC_PLUS_VER_1 \<equiv> 0xc1"
abbreviation (input) TAC_PLUS_ENCRYPTED :: byte where "TAC_PLUS_ENCRYPTED \<equiv> 0"
abbreviation (input) TAC_PLUS_CLEAR :: byte where "TAC_PLUS_CLEAR \<equiv> 1"
abbreviation (input) TAC_PLUS_AUTHEN :: byte where "TAC_PLUS_AUTHEN \<equiv> 1"
abbreviation (input) TAC_PLUS_AUTHOR :: byte where "TAC_PLUS_AUTHOR \<equiv> 2"
abbreviation (input) TAC_PLUS_ACCT :: byte where "TAC_PLUS_ACCT \<equiv> 3"

text \<open>The two 32-bit fields are held after \<^verbatim>\<open>ntohl\<close>.\<close>

record HDR =
  h_version :: byte
  h_type :: byte
  h_seq_no :: byte
  h_encryption :: byte
  h_session_id :: "32 word"
  h_datalength :: "32 word"

definition be32 :: "32 word \<Rightarrow> byte list" where
  "be32 w = [ucast (drop_bit 24 w), ucast (drop_bit 16 w), ucast (drop_bit 8 w), ucast w]"

definition of_be32 :: "byte list \<Rightarrow> 32 word" where
  "of_be32 bs = foldl (\<lambda>a b. push_bit 8 a OR ucast b) 0 bs"

definition be16 :: "16 word \<Rightarrow> byte list" where
  "be16 w = [ucast (drop_bit 8 w), ucast w]"

definition le16 :: "16 word \<Rightarrow> byte list" where
  "le16 w = [ucast w, ucast (drop_bit 8 w)]"

definition of_be16 :: "byte list \<Rightarrow> 16 word" where
  "of_be16 bs = foldl (\<lambda>a b. push_bit 8 a OR ucast b) 0 bs"

definition of_le16 :: "byte list \<Rightarrow> 16 word" where
  "of_le16 bs = of_be16 (rev bs)"

lemma of_be32_be32 [simp]: "of_be32 (be32 w) = w"
proof (rule bit_eqI)
  fix n assume "possible_bit TYPE(32 word) n"
  then have n: "n < 32" by simp
  show "bit (of_be32 (be32 w)) n = bit w n"
    using n by (cases "n < 8"; cases "n < 16"; cases "n < 24")
      (auto simp: of_be32_def be32_def bit_simps)
qed

lemma of_be16_be16 [simp]: "of_be16 (be16 w) = w"
  by (simp add: of_be16_def be16_def) (auto simp: bit_eq_iff bit_simps)

lemma of_le16_le16 [simp]: "of_le16 (le16 w) = w"
  using of_be16_be16[of w] by (simp add: of_le16_def le16_def be16_def)

lemma length_be [simp]: "length (be32 w) = 4" "length (be16 u) = 2" "length (le16 u) = 2"
  by (simp_all add: be32_def be16_def le16_def)

definition hdr_bytes :: "HDR \<Rightarrow> byte list" where
  "hdr_bytes h = [h_version h, h_type h, h_seq_no h, h_encryption h] @
     be32 (h_session_id h) @ be32 (h_datalength h)"

definition hdr_of_bytes :: "byte list \<Rightarrow> HDR" where
  "hdr_of_bytes bs = \<lparr> h_version = bs ! 0, h_type = bs ! 1, h_seq_no = bs ! 2, h_encryption = bs ! 3,
     h_session_id = of_be32 (take 4 (drop 4 bs)), h_datalength = of_be32 (take 4 (drop 8 bs)) \<rparr>"

lemma length_hdr_bytes [simp]: "length (hdr_bytes h) = TAC_PLUS_HDR_SIZE"
  by (simp add: hdr_bytes_def)

lemma hdr_roundtrip [simp]: "hdr_of_bytes (hdr_bytes h) = h"
proof -
  have "take 4 (drop 4 (hdr_bytes h)) = be32 (h_session_id h)"
    "take 4 (drop 8 (hdr_bytes h)) = be32 (h_datalength h)"
    by (simp_all add: hdr_bytes_def)
  then show ?thesis by (simp add: hdr_of_bytes_def) (simp add: hdr_bytes_def)
qed

section \<open>The pad\<close>

text \<open>
  A cipher that XORs data with a pad that depends on a key and the length only. TACACS+ and the
  inter-server protocol both encrypt and decrypt with one such operation.
\<close>

locale xor_cipher =
  fixes crypt :: "'k \<Rightarrow> byte list \<Rightarrow> byte list"
    and pad :: "'k \<Rightarrow> nat \<Rightarrow> byte list"
  assumes crypt_pad: "crypt k d = map2 (XOR) d (pad k (length d))"
    and length_pad: "length (pad k n) = n"
begin

lemma length_crypt [simp]: "length (crypt k d) = length d"
  by (simp add: crypt_pad length_pad)

lemma nth_crypt: "i < length d \<Longrightarrow> crypt k d ! i = d ! i XOR pad k (length d) ! i"
  by (simp add: crypt_pad length_pad)

lemma crypt_crypt [simp]: "crypt k (crypt k d) = d"
proof (rule nth_equalityI)
  fix i assume "i < length (crypt k (crypt k d))"
  then have i: "i < length d" by simp
  then have "crypt k (crypt k d) ! i = (d ! i XOR pad k (length d) ! i) XOR pad k (length d) ! i"
    by (simp add: nth_crypt)
  then show "crypt k (crypt k d) ! i = d ! i" by (simp add: xor.assoc)
qed simp

lemma crypt_inj: "crypt k d = crypt k e \<Longrightarrow> d = e"
  by (metis crypt_crypt)

text \<open>A key that yields another pad never decrypts what a different pad encrypted.\<close>

lemma crypt_wrong_key:
  assumes "pad k (length d) \<noteq> pad k' (length d)"
  shows "crypt k' (crypt k d) \<noteq> d"
proof
  assume "crypt k' (crypt k d) = d"
  then have eq: "crypt k d = crypt k' d" by (metis crypt_crypt)
  have "pad k (length d) ! i = pad k' (length d) ! i" if i: "i < length d" for i
  proof -
    have "d ! i XOR pad k (length d) ! i = d ! i XOR pad k' (length d) ! i"
      using eq i by (metis nth_crypt)
    then have "d ! i XOR (d ! i XOR pad k (length d) ! i) = d ! i XOR (d ! i XOR pad k' (length d) ! i)"
      by simp
    then show ?thesis by (simp flip: xor.assoc)
  qed
  then show False using assms by (metis length_pad nth_equalityI)
qed

end

text \<open>\<^verbatim>\<open>MD5_Final(hash,..)\<close> fills the 16 bytes of \<open>hash\<close>.\<close>

definition md5_final :: "(byte list \<Rightarrow> byte list) \<Rightarrow> byte list \<Rightarrow> byte list" where
  "md5_final md5 s = take 16 (md5 s @ replicate 16 0)"

lemma length_md5_final [simp]: "length (md5_final md5 s) = 16"
  by (simp add: md5_final_def)

definition create_md5_hash ::
  "(byte list \<Rightarrow> byte list) \<Rightarrow> string \<Rightarrow> 32 word \<Rightarrow> byte \<Rightarrow> byte \<Rightarrow> byte list option \<Rightarrow> byte list" where
  "create_md5_hash md5 key sess_id v sq prev_hash =
     md5_final md5 (be32 sess_id @ to_bytes (snprintf_s 31 key) @ [v, sq] @
       (case prev_hash of None \<Rightarrow> [] | Some p \<Rightarrow> p))"

lemma length_create_md5_hash [simp]: "length (create_md5_hash md5 key s v q p) = 16"
  by (simp add: create_md5_hash_def)

text \<open>The loop of \<^verbatim>\<open>md5_xor\<close>: a new hash for every 16 bytes, each fed with the one before.\<close>

function xor_blocks :: "(byte list option \<Rightarrow> byte list) \<Rightarrow> byte list option \<Rightarrow> byte list \<Rightarrow> byte list" where
  "xor_blocks hsh prev data =
     (if data = [] then []
      else let hash = hsh prev
           in map2 (XOR) (take 16 data) hash @ xor_blocks hsh (Some hash) (drop 16 data))"
  by pat_completeness auto
termination
  by (relation "measure (\<lambda>(h, p, d). length d)") auto

declare xor_blocks.simps [simp del]

function pad_blocks :: "(byte list option \<Rightarrow> byte list) \<Rightarrow> byte list option \<Rightarrow> nat \<Rightarrow> byte list" where
  "pad_blocks hsh prev n =
     (if n = 0 then []
      else take (min 16 n) (hsh prev) @ pad_blocks hsh (Some (hsh prev)) (n - 16))"
  by pat_completeness auto
termination
  by (relation "measure (\<lambda>(h, p, n). n)") auto

declare pad_blocks.simps [simp del]

lemma length_pad_blocks: "(\<And>p. length (hsh p) = 16) \<Longrightarrow> length (pad_blocks hsh prev n) = n"
proof (induction hsh prev n rule: pad_blocks.induct)
  case (1 hsh prev n)
  then show ?case by (subst pad_blocks.simps) (simp add: min_def)
qed

lemma zip_take_long: "length xs \<le> n \<Longrightarrow> zip xs (take n ys) = zip xs ys"
proof (induction xs arbitrary: n ys)
  case (Cons x xs)
  then show ?case by (cases n; cases ys) auto
qed simp

lemma xor_blocks_pad:
  "(\<And>p. length (hsh p) = 16) \<Longrightarrow>
     xor_blocks hsh prev data = map2 (XOR) data (pad_blocks hsh prev (length data))"
proof (induction hsh prev data rule: xor_blocks.induct)
  case (1 hsh prev data)
  show ?case
  proof (cases "data = []")
    case True
    then show ?thesis by (simp add: xor_blocks.simps)
  next
    case False
    let ?h = "hsh prev"
    have split: "data = take 16 data @ drop 16 data" by simp
    have "map2 (XOR) data (take (min 16 (length data)) ?h @ pad_blocks hsh (Some ?h) (length data - 16))
        = map2 (XOR) (take 16 data @ drop 16 data)
            (take (min 16 (length data)) ?h @ pad_blocks hsh (Some ?h) (length (drop 16 data)))"
      by simp
    also have "\<dots> = map2 (XOR) (take 16 data) (take (min 16 (length data)) ?h) @
        map2 (XOR) (drop 16 data) (pad_blocks hsh (Some ?h) (length (drop 16 data)))"
      using "1.prems" by (subst zip_append) (auto simp: min_def)
    also have "map2 (XOR) (take 16 data) (take (min 16 (length data)) ?h) = map2 (XOR) (take 16 data) ?h"
      by (simp add: zip_take_long)
    finally show ?thesis
      using False "1.IH"[OF False refl "1.prems"]
      by (subst xor_blocks.simps, subst pad_blocks.simps) (simp add: Let_def)
  qed
qed

text \<open>The key of one packet: hash function, key text, session, version, sequence number.\<close>

type_synonym pak_key = "(byte list \<Rightarrow> byte list) \<times> string \<times> 32 word \<times> byte \<times> byte"

fun pak_hash :: "pak_key \<Rightarrow> byte list option \<Rightarrow> byte list" where
  "pak_hash (md5, key, sess, v, q) prev = create_md5_hash md5 key sess v q prev"

lemma length_pak_hash [simp]: "length (pak_hash k p) = 16"
  by (cases k) simp

definition pak_crypt :: "pak_key \<Rightarrow> byte list \<Rightarrow> byte list" where
  "pak_crypt k data = xor_blocks (pak_hash k) None data"

interpretation tac: xor_cipher pak_crypt "\<lambda>k n. pad_blocks (pak_hash k) None n"
  by unfold_locales (simp_all add: pak_crypt_def xor_blocks_pad length_pad_blocks)

section \<open>Sockets\<close>

text \<open>
  What the loop of \<^verbatim>\<open>sockread\<close> meets: \<^verbatim>\<open>select\<close> fails or times out, an exceptional
  condition, bytes that are ready (\<^verbatim>\<open>read\<close> takes at most the number asked for, the rest
  stays), end of file or a read error. When the list is over nothing more arrives and
  \<^verbatim>\<open>select\<close> times out.
\<close>

datatype rd_ev = RTimeout | RExcept | RBytes "byte list" | REof | RError

fun sockread_loop :: "rd_ev list \<Rightarrow> nat \<Rightarrow> byte list \<Rightarrow> byte list option \<times> rd_ev list" where
  "sockread_loop evs 0 got = (Some got, evs)"
| "sockread_loop [] (Suc n) got = (None, [])"
| "sockread_loop (RBytes bs # evs) (Suc n) got =
     (if bs = [] then (None, evs)
      else if length bs \<le> Suc n then sockread_loop evs (Suc n - length bs) (got @ bs)
      else (Some (got @ take (Suc n) bs), RBytes (drop (Suc n) bs) # evs))"
| "sockread_loop (ev # evs) (Suc n) got = (None, evs)"

text \<open>The value is \<^verbatim>\<open>nbytes - nleft\<close> and the bytes stored; a negative count reads nothing and
returns 0.\<close>

definition sockread :: "int \<Rightarrow> rd_ev list \<Rightarrow> int \<Rightarrow> int \<times> byte list \<times> rd_ev list" where
  "sockread fd evs nbytes =
     (if fd = -1 then (-1, [], evs)
      else case sockread_loop evs (nat nbytes) [] of
             (None, evs') \<Rightarrow> (-1, [], evs')
           | (Some got, evs') \<Rightarrow> (int (length got), got, evs'))"

datatype wr_ev = WTimeout | WExcept | WSent int

fun sockwrite_loop :: "int \<Rightarrow> wr_ev list \<Rightarrow> byte list \<Rightarrow> int \<Rightarrow> int \<times> byte list" where
  "sockwrite_loop tot evs [] sent = (tot, [])"
| "sockwrite_loop tot [] (b # bs) sent = (-1, [])"
| "sockwrite_loop tot (WTimeout # evs) (b # bs) sent = (-1, [])"
| "sockwrite_loop tot (WExcept # evs) (b # bs) sent = (sent, [])"
| "sockwrite_loop tot (WSent k # evs) (b # bs) sent =
     (if k \<le> 0 then (k, [])
      else if int (length (b # bs)) < k then (-1, [])
      else case sockwrite_loop tot evs (drop (nat k) (b # bs)) k of
             (r, wire) \<Rightarrow> (r, take (nat k) (b # bs) @ wire))"

definition sockwrite :: "int \<Rightarrow> wr_ev list \<Rightarrow> byte list \<Rightarrow> int \<times> byte list" where
  "sockwrite fd evs bytes =
     (if fd = -1 then (-1, []) else sockwrite_loop (int (length bytes)) evs bytes 0)"

lemma sockread_loop_len:
  "sockread_loop evs n got = (Some r, evs') \<Longrightarrow> length r = length got + n"
  by (induction evs n got rule: sockread_loop.induct) (auto split: if_splits)

text \<open>Bytes that arrive in any number of pieces are the same bytes.\<close>

fun rd_stream :: "rd_ev list \<Rightarrow> byte list option" where
  "rd_stream [] = Some []"
| "rd_stream (RBytes bs # evs) = (if bs = [] then None else map_option (\<lambda>r. bs @ r) (rd_stream evs))"
| "rd_stream (_ # evs) = None"

lemma sockread_loop_stream:
  "rd_stream evs = Some s \<Longrightarrow> n \<le> length s \<Longrightarrow>
   \<exists>evs'. sockread_loop evs n got = (Some (got @ take n s), evs') \<and> rd_stream evs' = Some (drop n s)"
proof (induction evs n got arbitrary: s rule: sockread_loop.induct)
  case (3 bs evs n got)
  from "3.prems" obtain r where r: "bs \<noteq> []" "rd_stream evs = Some r" "s = bs @ r"
    by (auto split: if_splits)
  show ?case
  proof (cases "length bs \<le> Suc n")
    case True
    with "3.IH"[OF r(1) True r(2)] "3.prems"(2) r show ?thesis by auto
  next
    case False
    with r show ?thesis by simp
  qed
qed auto

lemma sockwrite_loop_total:
  "sockwrite_loop tot evs bs sent = (r, wire) \<Longrightarrow> r = tot \<Longrightarrow>
   int (length bs) \<le> tot \<Longrightarrow> (bs \<noteq> [] \<Longrightarrow> sent < tot \<and> 0 < tot) \<Longrightarrow> wire = bs"
proof (induction tot evs bs sent arbitrary: r wire rule: sockwrite_loop.induct)
  case (5 tot k evs b bs sent)
  show ?case
  proof (cases "k \<le> 0 \<or> int (length (b # bs)) < k")
    case True
    with "5.prems" show ?thesis by (auto split: if_splits)
  next
    case False
    obtain r' w where rec: "sockwrite_loop tot evs (drop (nat k) (b # bs)) k = (r', w)"
      by (cases "sockwrite_loop tot evs (drop (nat k) (b # bs)) k")
    with False "5.prems" have eq: "r' = tot" "wire = take (nat k) (b # bs) @ w" by auto
    have lt: "drop (nat k) (b # bs) \<noteq> [] \<Longrightarrow> k < tot \<and> 0 < tot"
      using False "5.prems"(3) by (auto simp: zless_nat_eq_int_zless)
    have "int (length (drop (nat k) (b # bs))) \<le> tot" using "5.prems"(3) by simp
    from "5.IH"[OF _ _ rec eq(1) this lt] False have "w = drop (nat k) (b # bs)" by simp
    with eq(2) show ?thesis by (metis append_take_drop_id)
  qed
qed auto

lemma sockwrite_total:
  "sockwrite fd evs bytes = (int (length bytes), wire) \<Longrightarrow> wire = bytes"
  by (auto simp: sockwrite_def split: if_splits dest!: sockwrite_loop_total)

section \<open>Packets on a connection\<close>

record tacpkt =
  tp_session_id :: "32 word"
  tp_seq_no :: "32 word"
  tp_last_exch :: int
  tp_key :: string
  tp_peer :: string
  tp_version :: byte
  tp_fid :: int

definition new_TacacsPacket :: "string \<Rightarrow> string \<Rightarrow> int \<Rightarrow> 32 word \<Rightarrow> tacpkt" where
  "new_TacacsPacket k p f d = \<lparr> tp_session_id = d, tp_seq_no = 0, tp_last_exch = 0, tp_key = k,
     tp_peer = p, tp_version = 0, tp_fid = f \<rparr>"

definition selector :: "HDR option \<Rightarrow> int" where
  "selector buf = (case buf of None \<Rightarrow> 0
     | Some h \<Rightarrow> if h_type h = TAC_PLUS_AUTHEN then 1
               else if h_type h = TAC_PLUS_AUTHOR then 2
               else if h_type h = TAC_PLUS_ACCT then 3 else 0)"

text \<open>\<^verbatim>\<open>md5_xor\<close>: the data length is a signed integer; a negative one leaves the data alone.
The data buffer must hold that many bytes.\<close>

definition md5_xor :: "(byte list \<Rightarrow> byte list) \<Rightarrow> HDR \<Rightarrow> byte list \<Rightarrow> tacpkt \<Rightarrow>
    (HDR \<times> byte list \<times> tacpkt) cres" where
  "md5_xor md5 h data p =
     (let n = nat (sint (h_datalength h)); p = p \<lparr> tp_version := h_version h \<rparr>
      in if tp_key p = ''none'' then Inr (h \<lparr> h_encryption := TAC_PLUS_CLEAR \<rparr>, data, p)
         else if length data < n then Inl OutOfBounds
         else Inr (h \<lparr> h_encryption := if h_encryption h = TAC_PLUS_CLEAR
                                         then TAC_PLUS_ENCRYPTED else TAC_PLUS_CLEAR \<rparr>,
                   pak_crypt (md5, tp_key p, h_session_id h, h_version h, h_seq_no h) (take n data)
                     @ drop n data,
                   p))"

text \<open>
  A read returns a packet or a null pointer. \<open>RAbort\<close>: the length is so large that
  \<^verbatim>\<open>new unsigned char[len+3]\<close> is asked for a negative number of bytes; the exception is no
  \<^verbatim>\<open>int\<close>, no handler of the program takes it and the daemon ends.
\<close>

datatype 'a rd_res = RPkt 'a | RNull | RAbort

fun read_packet_header :: "int \<Rightarrow> rd_ev list \<Rightarrow> HDR option \<times> rd_ev list" where
  "read_packet_header fd evs =
     (case sockread fd evs (int TAC_PLUS_HDR_SIZE) of (len, bs, evs') \<Rightarrow>
        if len \<noteq> int TAC_PLUS_HDR_SIZE then (None, evs')
        else let h = hdr_of_bytes bs
             in if h_version h AND 0xf0 \<noteq> 0xc0 then (None, evs') else (Some h, evs'))"

declare read_packet_header.simps [simp del]

text \<open>\<^verbatim>\<open>read_packet(h)\<close>: the body that follows a header already read; the buffer has fifteen
zero bytes after it.\<close>

definition read_packet :: "(byte list \<Rightarrow> byte list) \<Rightarrow> int \<Rightarrow> HDR \<Rightarrow> rd_ev list \<Rightarrow> tacpkt \<Rightarrow>
    byte list rd_res \<times> rd_ev list \<times> tacpkt" where
  "read_packet md5 now h evs p =
     (let datalen = sint (h_datalength h); len = sint (12 + h_datalength h)
      in if 10000 < len then (RNull, evs, p)
         else if len + 3 < 0 then (RAbort, evs, p)
         else case sockread (tp_fid p) evs datalen of (r, bs, evs') \<Rightarrow>
           if r \<noteq> datalen then (RNull, evs', p)
           else let p = p \<lparr> tp_seq_no := tp_seq_no p + 1, tp_last_exch := now \<rparr>
                in if tp_seq_no p \<noteq> ucast (h_seq_no h) then (RNull, evs', p)
                   else case md5_xor md5 h (bs @ replicate 15 0) p of
                          Inl e \<Rightarrow> (RAbort, evs', p)
                        | Inr (h', data, p') \<Rightarrow>
                            (RPkt data, evs', p' \<lparr> tp_version := h_version h' \<rparr>))"

text \<open>\<^verbatim>\<open>read_packet()\<close> of the client side: header and body.\<close>

definition read_packet_client :: "(byte list \<Rightarrow> byte list) \<Rightarrow> int \<Rightarrow> rd_ev list \<Rightarrow> tacpkt \<Rightarrow>
    (HDR \<times> byte list) rd_res \<times> rd_ev list \<times> tacpkt" where
  "read_packet_client md5 now evs p =
     (case read_packet_header (tp_fid p) evs of
        (None, evs') \<Rightarrow> (RNull, evs', p)
      | (Some h, evs') \<Rightarrow>
          (case read_packet md5 now h evs' p of
             (RPkt data, evs2, p') \<Rightarrow> (RPkt (h, take (nat (sint (h_datalength h)) + 3) data), evs2, p')
           | (RNull, evs2, p') \<Rightarrow> (RNull, evs2, p')
           | (RAbort, evs2, p') \<Rightarrow> (RAbort, evs2, p')))"

text \<open>\<^verbatim>\<open>write_packet\<close>: \<open>body\<close> is the buffer after the header; the bytes that reached the wire
come back with the result.\<close>

definition write_packet :: "(byte list \<Rightarrow> byte list) \<Rightarrow> int \<Rightarrow> wr_ev list \<Rightarrow> HDR \<Rightarrow> byte list \<Rightarrow> tacpkt \<Rightarrow>
    (bool \<times> byte list \<times> tacpkt) cres" where
  "write_packet md5 now evs h body p =
     cbind (md5_xor md5 h body p) (\<lambda>(h', data, p').
       let n = nat (sint (h_datalength h))
       in if length data < n then Inl OutOfBounds
          else let pak = hdr_bytes h' @ take n data;
                   (r, wire) = sockwrite (tp_fid p') evs pak
               in if r \<noteq> int (length pak) then Inr (False, wire, p')
                  else Inr (True, wire, p' \<lparr> tp_last_exch := now \<rparr>))"

section \<open>Lemmas\<close>

lemma md5_xor_Inr:
  "md5_xor md5 h data p = Inr (h', data', p') \<Longrightarrow>
     length data' = length data \<and> h' = h \<lparr> h_encryption := h_encryption h' \<rparr> \<and>
     p' = p \<lparr> tp_version := h_version h \<rparr>"
  by (auto simp: md5_xor_def Let_def split: if_splits)

lemma md5_xor_ok: "nat (sint (h_datalength h)) \<le> length data \<Longrightarrow> \<exists>r. md5_xor md5 h data p = Inr r"
  by (auto simp: md5_xor_def Let_def)

text \<open>The receiver's \<^verbatim>\<open>md5_xor\<close> undoes the sender's when both hold the same key; the header's
encryption byte is not part of the key.\<close>

lemma md5_xor_md5_xor:
  assumes "md5_xor md5 h data p = Inr (h1, data1, p1)" "tp_key q = tp_key p"
    and "n = nat (sint (h_datalength h))" "n \<le> length data"
  shows "\<exists>h2. md5_xor md5 h1 (take n data1 @ rest) q =
      Inr (h2, take n data @ rest, q \<lparr> tp_version := h_version h \<rparr>)"
proof (cases "tp_key p = ''none''")
  case True
  with assms show ?thesis by (auto simp: md5_xor_def Let_def)
next
  case False
  let ?k = "(md5, tp_key p, h_session_id h, h_version h, h_seq_no h)"
  have d1: "take n data1 = pak_crypt ?k (take n data)"
    using assms False by (auto simp: md5_xor_def Let_def)
  have h1: "h_version h1 = h_version h" "h_seq_no h1 = h_seq_no h" "h_session_id h1 = h_session_id h"
    "h_datalength h1 = h_datalength h"
    using assms(1) False by (auto simp: md5_xor_def Let_def split: if_splits)
  have len: "length (take n data1) = n" using d1 assms(4) by simp
  have undo: "pak_crypt ?k (take n data1) = take n data" by (simp add: d1)
  have n: "nat (sint (h_datalength h1)) = n" using h1 assms(3) by simp
  show ?thesis
    unfolding md5_xor_def Let_def n using False assms(2) h1 len undo by simp
qed

lemma sint_len_bound:
  assumes "sint (12 + w :: 32 word) \<le> 10000" "0 \<le> sint w"
  shows "sint w \<le> 9988 \<or> 2147483636 \<le> sint w"
proof (rule ccontr)
  assume "\<not> ?thesis"
  then have r: "9988 < sint w" "sint w < 2147483636" by auto
  have "sint (12 + w) = signed_take_bit 31 (12 + sint w)"
    by (simp add: sint_word_ariths)
  also have "\<dots> = 12 + sint w" using r by (intro signed_take_bit_int_eq_self) auto
  finally show False using assms(1) r by simp
qed

lemma sint_add12: "0 \<le> sint w \<Longrightarrow> sint w < 2147483636 \<Longrightarrow> sint (12 + w :: 32 word) = 12 + sint w"
proof -
  assume r: "0 \<le> sint w" "sint w < 2147483636"
  have "sint (12 + w) = signed_take_bit 31 (12 + sint w)"
    by (simp add: sint_word_ariths)
  also have "\<dots> = 12 + sint w" using r by (intro signed_take_bit_int_eq_self) auto
  finally show ?thesis .
qed

lemma sint_of_nat: "n < 2147483648 \<Longrightarrow> sint (word_of_nat n :: 32 word) = int n"
proof -
  assume "n < 2147483648"
  then have "signed_take_bit 31 (int n) = int n" by (intro signed_take_bit_int_eq_self) auto
  then show ?thesis by (simp add: signed_of_nat)
qed

lemma read_packet_RPkt:
  assumes "read_packet md5 now h evs p = (RPkt data, evs', p')" "tp_fid p \<noteq> -1"
  shows "\<exists>bs. sockread_loop evs (nat (sint (h_datalength h))) [] = (Some bs, evs') \<and>
     0 \<le> sint (h_datalength h) \<and> sint (h_datalength h) \<le> 9988 \<and>
     length bs = nat (sint (h_datalength h)) \<and> length data = nat (sint (h_datalength h)) + 15 \<and>
     tp_seq_no p + 1 = ucast (h_seq_no h) \<and> tp_seq_no p' = ucast (h_seq_no h) \<and>
     tp_version p' = h_version h \<and> tp_key p' = tp_key p \<and> tp_session_id p' = tp_session_id p \<and>
     tp_fid p' = tp_fid p"
proof -
  let ?n = "sint (h_datalength h)"
  from assms have c: "sint (12 + h_datalength h) \<le> 10000" "0 \<le> sint (12 + h_datalength h) + 3"
    by (auto simp: read_packet_def Let_def split: if_splits)
  with assms obtain bs where bs: "sockread_loop evs (nat ?n) [] = (Some bs, evs')" "int (length bs) = ?n"
    by (auto simp: read_packet_def Let_def sockread_def split: if_splits prod.splits option.splits sum.splits)
  from bs(2) have pos: "0 \<le> ?n" by linarith
  have sum: "sint (12 + h_datalength h) = signed_take_bit 31 (12 + ?n)"
    by (simp add: sint_word_ariths)
  have up: "?n \<le> 9988"
  proof (rule ccontr)
    assume big: "\<not> ?n \<le> 9988"
    with sint_len_bound[OF c(1) pos] have r: "2147483636 \<le> ?n" by simp
    have "?n < 2147483648" using sint_lt[of "h_datalength h"] by simp
    have "(2147483660 + ?n) mod 4294967296 = ((?n - 2147483636) + 4294967296) mod 4294967296"
      by simp
    also have "\<dots> = (?n - 2147483636) mod 4294967296" by (simp only: mod_add_self2)
    also have "\<dots> = 2147483660 + ?n - 4294967296"
      using r \<open>?n < 2147483648\<close> by (subst mod_pos_pos_trivial) simp_all
    finally have "(2147483660 + ?n) mod 4294967296 = 2147483660 + ?n - 4294967296" .
    then have "signed_take_bit 31 (12 + ?n) = 12 + ?n - 4294967296"
      by (simp add: signed_take_bit_eq_take_bit_shift take_bit_eq_mod)
    with sum have "sint (12 + h_datalength h) = 12 + ?n - 4294967296" by (rule trans)
    with c(2) \<open>?n < 2147483648\<close> show False by linarith
  qed
  let ?p1 = "p \<lparr> tp_seq_no := tp_seq_no p + 1, tp_last_exch := now \<rparr>"
  have sq: "tp_seq_no p + 1 = ucast (h_seq_no h)"
    using assms bs c by (simp add: read_packet_def Let_def sockread_def split: if_splits)
  from assms bs c sq obtain h' p2 where
    x: "md5_xor md5 h (bs @ replicate 15 0) ?p1 = Inr (h', data, p2)"
    and p': "p' = p2 \<lparr> tp_version := h_version h' \<rparr>"
    by (simp add: read_packet_def Let_def sockread_def split: sum.splits prod.splits)
  from md5_xor_Inr[OF x] have h': "h_version h' = h_version h" by (metis HDR.select_convs(1) HDR.surjective HDR.update_convs(4))
  have f: "length data = length bs + 15" "p2 = ?p1 \<lparr> tp_version := h_version h \<rparr>"
    using md5_xor_Inr[OF x] by simp_all
  have "length bs = nat ?n" using bs(2) by simp
  with bs(1) pos up sq f p' h' show ?thesis by simp
qed

lemma unat_ucast_byte: "unat (ucast (b :: byte) :: 32 word) = unat b" "unat b < 256"
proof -
  show b: "unat b < 256" using unsigned_less[of b, where ?'a = nat] by simp
  then show "unat (ucast b :: 32 word) = unat b" by (simp add: unsigned_ucast_eq take_bit_nat_eq_self)
qed

lemma ucast_byte_succ:
  assumes "ucast (s :: byte) + 1 = (ucast (t :: byte) :: 32 word)"
  shows "t = s + 1 \<and> s \<noteq> 255"
proof -
  have "unat (ucast s + 1 :: 32 word) = unat s + 1"
    using unat_ucast_byte[of s] by (simp add: unat_word_ariths)
  then have eq: "unat t = unat s + 1" using assms unat_ucast_byte(1)[of t] by simp
  with unat_ucast_byte(2)[of t] have "s \<noteq> 255" by auto
  moreover have "t = s + 1"
    using eq unat_ucast_byte(2)[of t]
    by (intro word_unat_eq_iff[THEN iffD2]) (simp add: unat_word_ariths)
  ultimately show ?thesis by simp
qed

lemma read_packet_next:
  assumes "read_packet md5 now h evs p = (RPkt data, evs', p')" "tp_fid p \<noteq> -1"
    and "read_packet md5' now' h2 evs2 p' = (RPkt data2, evs2', p2')"
  shows "h_seq_no h2 = h_seq_no h + 1 \<and> h_seq_no h \<noteq> 255"
proof -
  have "tp_seq_no p' = ucast (h_seq_no h)" "tp_fid p' \<noteq> -1"
    using read_packet_RPkt[OF assms(1,2)] assms(2) by auto
  then have "ucast (h_seq_no h) + 1 = (ucast (h_seq_no h2) :: 32 word)"
    using read_packet_RPkt[OF assms(3)] by metis
  then show ?thesis by (rule ucast_byte_succ)
qed

lemma sockread_loop_header:
  assumes "rd_stream evs = Some (hdr_bytes h @ s)" "fd \<noteq> -1" "h_version h AND 0xf0 = 0xc0"
  shows "\<exists>evs'. read_packet_header fd evs = (Some h, evs') \<and> rd_stream evs' = Some s"
  using sockread_loop_stream[OF assms(1), of 12 "[]"] assms(2,3)
  by (auto simp: read_packet_header.simps sockread_def)

lemma read_packet_stream:
  assumes "rd_stream evs = Some (body @ s)" "tp_fid q \<noteq> -1"
    and "sint (h_datalength h) = int (length body)" "length body \<le> 9988"
    and "tp_seq_no q + 1 = ucast (h_seq_no h)"
    and "md5_xor md5 h (body @ replicate 15 0) (q \<lparr> tp_seq_no := tp_seq_no q + 1, tp_last_exch := now \<rparr>)
           = Inr (h', data, q')"
  shows "\<exists>evs'. read_packet md5 now h evs q = (RPkt data, evs', q' \<lparr> tp_version := h_version h' \<rparr>) \<and>
    rd_stream evs' = Some s"
proof -
  have "sint (12 + h_datalength h) = 12 + int (length body)"
    using assms(3,4) by (subst sint_add12) auto
  moreover obtain evs' where "sockread_loop evs (length body) [] = (Some body, evs')"
    "rd_stream evs' = Some s"
    using sockread_loop_stream[OF assms(1), of "length body" "[]"] by auto
  ultimately show ?thesis
    using assms by (simp add: read_packet_def Let_def sockread_def)
qed

section \<open>Properties\<close>

text \<open>C1: a packet one side writes completely is the packet the other side reads, however the
bytes are cut into pieces on the way: header fields and body come back, the stream stands at the
first byte after the packet, and the receiver's sequence number has moved by one. Both sides hold
the same key and the packet carries the number after the receiver's.\<close>

theorem packet_wire_roundtrip:
  assumes "write_packet md5 now evs h body p = Inr (True, wire, p')"
    and "sint (h_datalength h) = int (length body)" "length body \<le> 9988"
    and "h_version h AND 0xf0 = 0xc0" "tp_fid q \<noteq> -1" "tp_key q = tp_key p"
    and "tp_seq_no q + 1 = ucast (h_seq_no h)" "rd_stream revs = Some (wire @ rest)"
  shows "\<exists>h1 evs1 evs2 q'. read_packet_header (tp_fid q) revs = (Some h1, evs1) \<and>
     h1 = h \<lparr> h_encryption := h_encryption h1 \<rparr> \<and>
     read_packet md5 now2 h1 evs1 q = (RPkt (body @ replicate 15 0), evs2, q') \<and>
     rd_stream evs2 = Some rest \<and> tp_seq_no q' = tp_seq_no q + 1"
proof -
  have n: "nat (sint (h_datalength h)) = length body" using assms(2) by simp
  obtain h1 data1 p1 where x: "md5_xor md5 h body p = Inr (h1, data1, p1)"
    using assms(1) by (auto simp: write_packet_def)
  have len: "length data1 = length body" and h1: "h1 = h \<lparr> h_encryption := h_encryption h1 \<rparr>"
    using md5_xor_Inr[OF x] by auto
  then have f1: "h_version h1 = h_version h" "h_datalength h1 = h_datalength h" "h_seq_no h1 = h_seq_no h"
    by (metis HDR.select_convs HDR.surjective HDR.update_convs(4))+
  from assms(1) x n len obtain r where
    "sockwrite (tp_fid p1) evs (hdr_bytes h1 @ data1) = (int (length (hdr_bytes h1 @ data1)), wire)"
    by (auto simp: write_packet_def Let_def split: prod.splits if_splits)
  then have w: "wire = hdr_bytes h1 @ data1" by (rule sockwrite_total)
  then have st: "rd_stream revs = Some (hdr_bytes h1 @ data1 @ rest)" using assms(8) by simp
  obtain evs1 where r1: "read_packet_header (tp_fid q) revs = (Some h1, evs1)"
    "rd_stream evs1 = Some (data1 @ rest)"
    using sockread_loop_header[OF st assms(5)] assms(4) f1 by auto
  let ?q = "q \<lparr> tp_seq_no := tp_seq_no q + 1, tp_last_exch := now2 \<rparr>"
  obtain h2 where y: "md5_xor md5 h1 (data1 @ replicate 15 0) ?q =
      Inr (h2, body @ replicate 15 0, ?q \<lparr> tp_version := h_version h \<rparr>)"
    using md5_xor_md5_xor[OF x, of ?q "length body" "replicate 15 0"] assms(6) n len by auto
  obtain evs2 where "read_packet md5 now2 h1 evs1 q =
      (RPkt (body @ replicate 15 0), evs2, ?q \<lparr> tp_version := h_version h2 \<rparr>)" "rd_stream evs2 = Some rest"
    using read_packet_stream[OF r1(2) assms(5) _ _ _ y] assms(2,3,7) f1 len by auto
  with r1(1) h1 show ?thesis by fastforce
qed

lemma packet_wire_roundtrip_witness:
  "\<exists>h1 evs1 evs2 q'. read_packet_header 7
     [RBytes [0xc0, 1, 1, 0, 0], RBytes [0, 0, 9, 0, 0, 0, 2, 0x48], RBytes [0x45, 5]] = (Some h1, evs1) \<and>
   read_packet (\<lambda>s. [0x43, 0x44]) 0 h1 evs1 (new_TacacsPacket ''k'' ''p'' 7 9)
     = (RPkt ([11, 1] @ replicate 15 0), evs2, q') \<and> rd_stream evs2 = Some [5]"
proof -
  let ?h = "\<lparr> h_version = 0xc0, h_type = 1, h_seq_no = 1, h_encryption = 1, h_session_id = 9,
    h_datalength = 2 \<rparr>"
  have "write_packet (\<lambda>s. [0x43, 0x44]) 0 [WSent 14] ?h [11, 1] (new_TacacsPacket ''k'' ''p'' 7 9) =
    Inr (True, [0xc0, 1, 1, 0, 0, 0, 0, 9, 0, 0, 0, 2, 0x48, 0x45],
      (new_TacacsPacket ''k'' ''p'' 7 9) \<lparr> tp_version := 0xc0, tp_last_exch := 0 \<rparr>)"
    by code_simp
  from packet_wire_roundtrip[OF this, of "new_TacacsPacket ''k'' ''p'' 7 9"
      "[RBytes [0xc0, 1, 1, 0, 0], RBytes [0, 0, 9, 0, 0, 0, 2, 0x48], RBytes [0x45, 5]]" "[5]" 0]
  show ?thesis by (simp add: new_TacacsPacket_def) blast
qed

text \<open>C2: what acceptance of a packet body means: the announced length is between 0 and 9988 and is
the number of bytes read, the packet's sequence number is the one after the session's, which never
exceeds 255; and a packet accepted next carries the next number, so neither a replayed packet
nor one after number 255 is ever accepted.\<close>

theorem read_packet_accepts:
  assumes "read_packet md5 now h evs p = (RPkt data, evs', p')" "tp_fid p \<noteq> -1"
  shows "0 \<le> sint (h_datalength h) \<and> sint (h_datalength h) \<le> 9988 \<and>
    length data = nat (sint (h_datalength h)) + 15 \<and>
    tp_seq_no p + 1 = ucast (h_seq_no h) \<and> tp_seq_no p' = ucast (h_seq_no h) \<and> unat (tp_seq_no p') \<le> 255 \<and>
    (\<forall>now' h2 evs2 data2 evs3 p2. read_packet md5 now' h2 evs2 p' = (RPkt data2, evs3, p2) \<longrightarrow>
       h_seq_no h2 = h_seq_no h + 1 \<and> h_seq_no h \<noteq> 255)"
proof -
  have "unat (ucast (h_seq_no h) :: 32 word) \<le> 255"
    using unat_ucast_byte[of "h_seq_no h"] by simp
  then show ?thesis using read_packet_RPkt[OF assms] read_packet_next[OF assms] by auto
qed

lemma read_packet_accepts_witness:
  "let p' = (new_TacacsPacket ''none'' ''p'' 7 9) \<lparr> tp_seq_no := 1, tp_version := 0xc0 \<rparr>
   in unat (tp_seq_no p') \<le> 255 \<and>
      (\<nexists>data2 evs3 p2. read_packet (\<lambda>s. []) 0 \<lparr> h_version = 0xc0, h_type = 1, h_seq_no = 1,
        h_encryption = 1, h_session_id = 9, h_datalength = 2 \<rparr> [RBytes [7, 8]] p' = (RPkt data2, evs3, p2))"
proof -
  let ?h = "\<lparr> h_version = 0xc0, h_type = 1, h_seq_no = 1, h_encryption = 1, h_session_id = 9,
    h_datalength = 2 \<rparr>"
  have "read_packet (\<lambda>s. []) 0 ?h [RBytes [11, 1]] (new_TacacsPacket ''none'' ''p'' 7 9) =
    (RPkt ([11, 1] @ replicate 15 0), [],
     (new_TacacsPacket ''none'' ''p'' 7 9) \<lparr> tp_seq_no := 1, tp_version := 0xc0 \<rparr>)"
    by code_simp
  from read_packet_accepts[OF this] show ?thesis
    by (auto simp: new_TacacsPacket_def Let_def) fastforce
qed

lemma abort_lengths:
  fixes l :: "32 word"
  shows "sint (12 + l) < -3 \<longleftrightarrow> 2147483636 \<le> unat l \<and> unat l \<le> 4294967280"
proof -
  have l: "int (unat l) < 4294967296" using unsigned_less[of l] by simp
  define n where "n = int (unat l)"
  have n: "0 \<le> n" "n < 4294967296" using l by (simp_all add: n_def)
  have "uint (12 + l) = (12 + n) mod 4294967296"
    by (simp add: uint_word_ariths n_def)
  then have "sint (12 + l) = ((12 + n) mod 4294967296 + 2147483648) mod 4294967296 - 2147483648"
    by (simp only: sint_uint signed_take_bit_eq_take_bit_shift take_bit_eq_mod) (simp add: mod_simps)
  moreover have "2147483636 \<le> unat l \<longleftrightarrow> 2147483636 \<le> n" "unat l \<le> 4294967280 \<longleftrightarrow> n \<le> 4294967280"
    unfolding n_def by linarith+
  moreover have "((12 + n) mod 4294967296 + 2147483648) mod 4294967296 - 2147483648 < -3
      \<longleftrightarrow> 2147483636 \<le> n \<and> n \<le> 4294967280"
  proof (cases "n < 4294967284")
    case True
    with n have m: "(12 + n) mod 4294967296 = 12 + n" by (intro mod_pos_pos_trivial) auto
    show ?thesis
    proof (cases "n < 2147483636")
      case True
      with n have "(12 + n + 2147483648) mod 4294967296 = 12 + n + 2147483648" by (intro mod_pos_pos_trivial) auto
      with True n m show ?thesis by simp
    next
      case False
      with n True have "(12 + n + 2147483648) mod 4294967296 = n - 2147483636"
        by (subst mod_pos_geq) auto
      with False n True m show ?thesis by (simp, arith)
    qed
  next
    case False
    with n have "(12 + n) mod 4294967296 = n - 4294967284" by (subst mod_pos_geq) auto
    with False n show ?thesis by simp
  qed
  ultimately show ?thesis by simp
qed

lemma read_packet_abort:
  "fst (read_packet md5 now h evs p) = RAbort \<longleftrightarrow> sint (12 + h_datalength h) < -3"
proof (cases "10000 < sint (12 + h_datalength h) \<or> sint (12 + h_datalength h) < -3")
  case True
  then show ?thesis by (auto simp: read_packet_def Let_def)
next
  case False
  obtain r bs evs' where rd: "sockread (tp_fid p) evs (sint (h_datalength h)) = (r, bs, evs')"
    by (metis prod_cases3)
  then have "r = -1 \<or> r = int (length bs)"
    by (auto simp: sockread_def split: if_splits option.splits prod.splits)
  then have "r = sint (h_datalength h) \<Longrightarrow> nat (sint (h_datalength h)) \<le> length (bs @ replicate 15 (0::byte))"
    by auto
  then have ok: "r = sint (h_datalength h) \<Longrightarrow> \<exists>x. md5_xor md5 h (bs @ replicate 15 0) q = Inr x" for q
    by (rule md5_xor_ok)
  let ?q = "p \<lparr> tp_seq_no := tp_seq_no p + 1, tp_last_exch := now \<rparr>"
  have "fst (read_packet md5 now h evs p) \<noteq> RAbort"
    using False rd ok[of ?q] by (auto simp: read_packet_def Let_def)
  with False show ?thesis by simp
qed


end
