(* ===== verification/TacAuthen.thy ===== *)
theory TacAuthen
  imports TacPacket IpAddr
begin

text \<open>
  TACACS+ authentication packets (\<^verbatim>\<open>src/Tacacs.cc\<close>): START, REPLY and CONTINUE on the
  server side (class \<^verbatim>\<open>TacacsServerAuthentication\<close>) and on the client side (class
  \<^verbatim>\<open>TacacsClient\<close>). A packet body is the memory that \<^verbatim>\<open>read_packet\<close> returns: the bytes
  received and fifteen zero bytes. Locals and members of fixed size are arrays; a write past
  one is \<open>Inl OutOfBounds\<close>.
\<close>

section \<open>Constants\<close>

abbreviation (input) TACACS_ENABLE_REQUEST :: int where "TACACS_ENABLE_REQUEST \<equiv> 1"
abbreviation (input) TACACS_ASCII_LOGIN :: int where "TACACS_ASCII_LOGIN \<equiv> 2"
abbreviation (input) TACACS_PAP_LOGIN :: int where "TACACS_PAP_LOGIN \<equiv> 3"
abbreviation (input) TACACS_CHAP_LOGIN :: int where "TACACS_CHAP_LOGIN \<equiv> 4"
abbreviation (input) TACACS_ARAP_LOGIN :: int where "TACACS_ARAP_LOGIN \<equiv> 5"
abbreviation (input) TACACS_PAP_OUT :: int where "TACACS_PAP_OUT \<equiv> 6"
abbreviation (input) TACACS_CHAP_OUT :: int where "TACACS_CHAP_OUT \<equiv> 7"
abbreviation (input) TACACS_ASCII_CHPASS :: int where "TACACS_ASCII_CHPASS \<equiv> 9"
abbreviation (input) TACACS_MSCHAP_LOGIN :: int where "TACACS_MSCHAP_LOGIN \<equiv> 12"
abbreviation (input) TACACS_MSCHAP_OUT :: int where "TACACS_MSCHAP_OUT \<equiv> 13"
abbreviation (input) TACACS_CHAP_PASSWORD :: int where "TACACS_CHAP_PASSWORD \<equiv> 14"
abbreviation (input) TACACS_PAP_PASSWORD :: int where "TACACS_PAP_PASSWORD \<equiv> 15"

abbreviation (input) USERNAME_LEN :: nat where "USERNAME_LEN \<equiv> 32"
abbreviation (input) PASSWORD_LEN :: nat where "PASSWORD_LEN \<equiv> 50"
abbreviation (input) DB_PASSWORD_LEN :: nat where "DB_PASSWORD_LEN \<equiv> 50"
abbreviation (input) PORT_LEN :: nat where "PORT_LEN \<equiv> 32"
abbreviation (input) REM_ADDR_LEN :: nat where "REM_ADDR_LEN \<equiv> 32"
abbreviation (input) DATA_LEN :: nat where "DATA_LEN \<equiv> 254"

abbreviation (input) STATUS_PASS :: byte where "STATUS_PASS \<equiv> 1"
abbreviation (input) STATUS_FAIL :: byte where "STATUS_FAIL \<equiv> 2"
abbreviation (input) STATUS_GETUSER :: byte where "STATUS_GETUSER \<equiv> 4"
abbreviation (input) STATUS_GETPASS :: byte where "STATUS_GETPASS \<equiv> 5"

section \<open>Server side\<close>

text \<open>The members of \<^verbatim>\<open>TacacsServerAuthentication\<close>. \<open>au_data\<close>, \<open>au_password\<close> and
\<open>au_pwstring\<close> are the C strings in the arrays.\<close>

record authen =
  au_user :: string
  au_port :: string
  au_rem_addr :: string
  au_cisco :: ipaddr
  au_res :: int
  au_request :: int
  au_enable :: string
  au_data :: string
  au_password :: string
  au_pwstring :: string
  au_chap :: bool
  au_en_req :: int

definition new_authen :: "dns \<Rightarrow> authen" where
  "new_authen dns = \<lparr> au_user = [], au_port = [], au_rem_addr = [], au_cisco = ip_default dns,
     au_res = 0, au_request = 0, au_enable = [], au_data = [], au_password = [], au_pwstring = [],
     au_chap = False, au_en_req = 0 \<rparr>"

text \<open>The request type: the last condition of \<^verbatim>\<open>get_start\<close> that holds decides.\<close>

definition start_type :: "byte \<Rightarrow> byte \<Rightarrow> byte \<Rightarrow> byte \<Rightarrow> int" where
  "start_type ver action authen_type service =
     (let t = 0;
          t = (if action = 1 \<and> service = 2 then TACACS_ENABLE_REQUEST else t);
          t = (if action = 2 \<and> authen_type = 1 then TACACS_ASCII_CHPASS else t);
          t = (if action = 1 \<and> (service = 1 \<or> service = 10) \<and> authen_type = 1
               then TACACS_ASCII_LOGIN else t);
          t = (if action = 1 \<and> authen_type = 2 \<and> ver = TAC_PLUS_VER_1 then TACACS_PAP_LOGIN else t);
          t = (if action = 4 \<and> authen_type = 2 \<and> ver = TAC_PLUS_VER_1 then TACACS_PAP_OUT else t);
          t = (if action = 1 \<and> authen_type = 3 \<and> ver = TAC_PLUS_VER_1 then TACACS_CHAP_LOGIN else t);
          t = (if action = 4 \<and> authen_type = 3 \<and> ver = TAC_PLUS_VER_1 then TACACS_CHAP_OUT else t);
          t = (if action = 1 \<and> authen_type = 5 \<and> ver = TAC_PLUS_VER_1 then TACACS_MSCHAP_LOGIN else t);
          t = (if action = 4 \<and> authen_type = 5 \<and> ver = TAC_PLUS_VER_1 then TACACS_MSCHAP_OUT else t);
          t = (if action = 1 \<and> authen_type = 4 \<and> ver = TAC_PLUS_VER_1 then TACACS_ARAP_LOGIN else t);
          t = (if action = 3 \<and> authen_type = 3 \<and> ver = TAC_PLUS_VER_0 then TACACS_CHAP_PASSWORD else t);
          t = (if action = 3 \<and> authen_type = 2 \<and> ver = TAC_PLUS_VER_0 then TACACS_PAP_PASSWORD else t)
      in t)"

text \<open>\<^verbatim>\<open>get_start\<close>: the result, and the object and packet handler with the members it set before
it returned.\<close>

definition get_start :: "dns \<Rightarrow> HDR \<Rightarrow> byte list \<Rightarrow> tacpkt \<Rightarrow> authen \<Rightarrow> (int \<times> tacpkt \<times> authen) cres" where
  "get_start dns h pak t a =
     (let mem = of_bytes pak;
          user_len = unat (pak ! 4); port_len = unat (pak ! 5);
          rem_addr_len = unat (pak ! 6); data_len = unat (pak ! 7);
          u = 8; p = u + user_len; r = p + port_len; d = r + rem_addr_len;
          t = t \<lparr> tp_version := h_version h \<rparr>
      in if tp_version t \<noteq> TAC_PLUS_VER_0 \<and> tp_version t \<noteq> TAC_PLUS_VER_1 then Inr (0, t, a)
         else
         let a = a \<lparr> au_data := [], au_cisco := ip_fill dns (tp_peer t) \<rparr>
         in if h_seq_no h \<noteq> 1 then Inr (0, t, a)
         else
         let ty = start_type (tp_version t) (pak ! 0) (pak ! 2) (pak ! 3)
         in if USERNAME_LEN < user_len then Inr (0, t, a)
         else cbind (strncpy_z USERNAME_LEN mem u (int user_len)) (\<lambda>username.
         let a = a \<lparr> au_user := username \<rparr>
         in if PORT_LEN < port_len then Inr (0, t, a)
         else cbind (strncpy_z PORT_LEN mem p (int port_len)) (\<lambda>port.
         let a = a \<lparr> au_port := port \<rparr>
         in if REM_ADDR_LEN < rem_addr_len then Inr (0, t, a)
         else cbind (strncpy_z REM_ADDR_LEN mem r (int rem_addr_len)) (\<lambda>rem_addr.
         let a = a \<lparr> au_rem_addr := rem_addr \<rparr>
         in if DATA_LEN < data_len then Inr (0, t, a)
         else cbind (strncpy_z DATA_LEN mem d (int data_len)) (\<lambda>data.
         Inr (ty, t, a \<lparr> au_data := data \<rparr>))))))"

text \<open>The packet \<^verbatim>\<open>send_reply\<close> builds in \<^verbatim>\<open>buf[512]\<close>.\<close>

definition authen_reply_pak :: "tacpkt \<Rightarrow> byte \<Rightarrow> string \<Rightarrow> string \<Rightarrow> byte \<Rightarrow> byte \<Rightarrow>
    (HDR \<times> byte list \<times> tacpkt) cres" where
  "authen_reply_pak t status server_msg data flag ver =
     (let t = t \<lparr> tp_seq_no := tp_seq_no t + 1 \<rparr>;
          h = \<lparr> h_version = ver, h_type = TAC_PLUS_AUTHEN, h_seq_no = ucast (tp_seq_no t),
                h_encryption = TAC_PLUS_CLEAR, h_session_id = tp_session_id t,
                h_datalength = word_of_nat (6 + length server_msg + length data) \<rparr>;
          body = [status, flag] @ be16 (word_of_nat (length server_msg)) @
                 be16 (word_of_nat (length data)) @ to_bytes server_msg @ to_bytes data
      in if (server_msg \<noteq> [] \<or> data \<noteq> []) \<and> 512 < 12 + 6 + length server_msg + length data + 1
         then Inl OutOfBounds else Inr (h, body, t))"

definition send_reply :: "(byte list \<Rightarrow> byte list) \<Rightarrow> int \<Rightarrow> wr_ev list \<Rightarrow> tacpkt \<Rightarrow>
    byte \<Rightarrow> string \<Rightarrow> string \<Rightarrow> byte \<Rightarrow> byte \<Rightarrow> (bool \<times> byte list \<times> tacpkt) cres" where
  "send_reply md5 now evs t status server_msg data flag ver =
     cbind (authen_reply_pak t status server_msg data flag ver) (\<lambda>(h, body, t').
       write_packet md5 now evs h body t')"

text \<open>\<^verbatim>\<open>get_cont\<close>: the result (-1 error, else the flag byte) with the texts copied to
\<open>user_msg\<close> (an array of \<open>cap\<close> bytes) and to \<^verbatim>\<open>data\<close>. The copies are not terminated, so an
array filled to the brim has no end.\<close>

definition get_cont :: "HDR \<Rightarrow> byte list option \<Rightarrow> nat \<Rightarrow> int \<Rightarrow> (int \<times> string option \<times> string option) cres" where
  "get_cont h pa cap maxlen = (case pa of
      None \<Rightarrow> Inr (-1, None, None)
    | Some pak \<Rightarrow>
       let mem = of_bytes pak;
           user_msg_len = unat (of_be16 (take 2 pak)); user_data_len = unat (of_be16 (take 2 (drop 2 pak)));
           p = 5; d = p + user_msg_len
       in if h_datalength h \<noteq> word_of_nat (5 + user_msg_len + user_data_len) then Inr (-1, None, None)
          else if maxlen < int user_msg_len then Inr (-1, None, None)
          else cbind (strncpy_in cap mem p (int user_msg_len)) (\<lambda>user_msg.
               if DATA_LEN < user_data_len then Inr (-1, Some user_msg, None)
               else cbind (strncpy_in DATA_LEN mem d (int user_data_len)) (\<lambda>data.
                    Inr (int (unat (pak ! 4)), Some user_msg, Some data))))"

section \<open>Client side\<close>

text \<open>A write of bytes into an array.\<close>

definition mem_write :: "nat \<Rightarrow> byte list \<Rightarrow> byte list \<Rightarrow> byte list cres" where
  "mem_write off bs mem =
     (if off + length bs \<le> length mem then Inr (take off mem @ bs @ drop (off + length bs) mem)
      else Inl OutOfBounds)"

text \<open>\<^verbatim>\<open>strncpy\<close> writes exactly \<open>n\<close> bytes, \<^verbatim>\<open>strcpy\<close> the text and a terminator.\<close>

definition strncpy_w :: "nat \<Rightarrow> string \<Rightarrow> nat \<Rightarrow> byte list \<Rightarrow> byte list cres" where
  "strncpy_w off s n mem = mem_write off (to_bytes (take n s) @ replicate (n - length s) 0) mem"

definition strcpy_w :: "nat \<Rightarrow> string \<Rightarrow> byte list \<Rightarrow> byte list cres" where
  "strcpy_w off s mem = mem_write off (to_bytes s @ [0]) mem"

text \<open>Action, authentication type and service by request type; a byte the switch does not set
stays 0.\<close>

definition client_fields :: "int \<Rightarrow> byte \<times> byte \<times> byte" where
  "client_fields ty =
     (if ty = TACACS_ENABLE_REQUEST then (1, 0, 2)
      else if ty = TACACS_ASCII_LOGIN then (1, 1, 1)
      else if ty = TACACS_PAP_LOGIN then (1, 2, 0)
      else if ty = TACACS_PAP_OUT then (4, 2, 0)
      else if ty = TACACS_CHAP_LOGIN then (1, 3, 0)
      else if ty = TACACS_CHAP_OUT then (4, 3, 0)
      else if ty = TACACS_MSCHAP_LOGIN then (1, 5, 0)
      else if ty = TACACS_MSCHAP_OUT then (4, 5, 0)
      else if ty = TACACS_ARAP_LOGIN then (1, 4, 0)
      else if ty = TACACS_ASCII_CHPASS then (2, 1, 0) else (0, 0, 0))"

text \<open>\<^verbatim>\<open>authen_send_start\<close> up to the write: the header and the part of \<^verbatim>\<open>buf[256]\<close> after it.
\<open>addr\<close> is the host's own address. The lengths are cut to a byte before they are compared.\<close>

definition authen_start_pak :: "string \<Rightarrow> string \<Rightarrow> string \<Rightarrow> int \<Rightarrow> string \<Rightarrow> tacpkt \<Rightarrow>
    (HDR \<times> byte list) option cres \<times> tacpkt" where
  "authen_start_pak our_addr port username ty data t =
     (let addr = take 56 our_addr;
          lu = length username; lp = length port; la = length addr; ld = length data;
          u = 8; p = u + lu; a = p + lp; d = a + la;
          t = t \<lparr> tp_seq_no := tp_seq_no t + 1 \<rparr>;
          dl = (if ty = TACACS_CHAP_LOGIN \<or> ty = TACACS_MSCHAP_LOGIN then 8 + lu + lp + la + 1 + ld
                else if ty = TACACS_PAP_LOGIN \<or> ty = TACACS_ARAP_LOGIN then 8 + lu + lp + la + ld
                else 8 + lu + lp + la);
          h = \<lparr> h_version = (if ty = TACACS_ENABLE_REQUEST \<or> ty = TACACS_ASCII_LOGIN
                             then TAC_PLUS_VER_0 else TAC_PLUS_VER_1),
                h_type = TAC_PLUS_AUTHEN, h_seq_no = ucast (tp_seq_no t),
                h_encryption = TAC_PLUS_CLEAR, h_session_id = tp_session_id t,
                h_datalength = word_of_nat dl \<rparr>;
          (action, authen_type, service) = client_fields ty;
          fixedf = [action, 0, authen_type, service, of_nat lu, of_nat lp, of_nat la, of_nat ld]
      in if USERNAME_LEN < lu mod 256 \<or> PORT_LEN < lp mod 256 \<or> REM_ADDR_LEN < la mod 256
         then (Inr None, t)
         else (cbind (if username = [] then Inr (fixedf @ replicate 236 0)
                      else strncpy_w u username 31 (fixedf @ replicate 236 0)) (\<lambda>m.
               cbind (if port = [] then Inr m else strncpy_w p port 31 m) (\<lambda>m.
               cbind (if addr = [] then Inr m else strncpy_w a addr 31 m) (\<lambda>m.
               cbind (if ty = TACACS_CHAP_LOGIN
                      then cbind (mem_write d [1] m) (\<lambda>m. strcpy_w (d + 1) data m)
                      else if ty = TACACS_ARAP_LOGIN \<or> ty = TACACS_PAP_LOGIN then strcpy_w d data m
                      else Inr m) (\<lambda>m. Inr (Some (h, m)))))), t))"

definition authen_send_start :: "(byte list \<Rightarrow> byte list) \<Rightarrow> int \<Rightarrow> wr_ev list \<Rightarrow> string \<Rightarrow> string \<Rightarrow> string \<Rightarrow>
    int \<Rightarrow> string \<Rightarrow> tacpkt \<Rightarrow> (bool \<times> byte list \<times> tacpkt) cres" where
  "authen_send_start md5 now evs our_addr port username ty data t =
     (case authen_start_pak our_addr port username ty data t of (r, t') \<Rightarrow>
        cbind r (\<lambda>x. case x of None \<Rightarrow> Inr (False, [], t')
                 | Some (h, m) \<Rightarrow> write_packet md5 now evs h m t'))"

text \<open>\<^verbatim>\<open>authen_send_cont\<close> in \<^verbatim>\<open>buf[512]\<close>.\<close>

definition authen_cont_pak :: "string \<Rightarrow> string \<Rightarrow> tacpkt \<Rightarrow> (HDR \<times> byte list) cres \<times> tacpkt" where
  "authen_cont_pak user_msg data t =
     (let t = t \<lparr> tp_seq_no := tp_seq_no t + 1 \<rparr>;
          h = \<lparr> h_version = TAC_PLUS_VER_0, h_type = TAC_PLUS_AUTHEN, h_seq_no = ucast (tp_seq_no t),
                h_encryption = TAC_PLUS_CLEAR, h_session_id = tp_session_id t,
                h_datalength = word_of_nat (5 + length user_msg + length data) \<rparr>;
          body = be16 (word_of_nat (length user_msg)) @ be16 (word_of_nat (length data)) @ [0] @
                 to_bytes user_msg @ to_bytes data
      in (if (user_msg \<noteq> [] \<or> data \<noteq> []) \<and> 512 < 12 + 5 + length user_msg + length data + 1
          then Inl OutOfBounds else Inr (h, body), t))"

definition authen_send_cont :: "(byte list \<Rightarrow> byte list) \<Rightarrow> int \<Rightarrow> wr_ev list \<Rightarrow> string \<Rightarrow> string \<Rightarrow> tacpkt \<Rightarrow>
    (bool \<times> byte list \<times> tacpkt) cres" where
  "authen_send_cont md5 now evs user_msg data t =
     (case authen_cont_pak user_msg data t of (r, t') \<Rightarrow>
        cbind r (\<lambda>(h, m). write_packet md5 now evs h m t'))"

text \<open>
  \<^verbatim>\<open>authen_get_reply\<close> on a packet already read. It leaves by \<^verbatim>\<open>throw\<close>: \<^verbatim>\<open>throw 0\<close>
  is an \<^verbatim>\<open>int\<close> and is caught, \<^verbatim>\<open>throw rep->status\<close> is an \<^verbatim>\<open>unsigned char\<close>, which
  the handler \<^verbatim>\<open>catch(int)\<close> does not take. \<open>server\<close> and \<open>datas\<close> are the caller's arrays;
  \<^verbatim>\<open>bzero(server,sizeof(server))\<close> clears the eight bytes of a pointer.
\<close>

datatype 'a thrown = Returned 'a | Uncaught "byte"

definition bzero_ptr :: "byte list \<Rightarrow> byte list cres" where
  "bzero_ptr = mem_write 0 (replicate 8 0)"

definition strncpy_buf :: "string \<Rightarrow> nat \<Rightarrow> nat \<Rightarrow> byte list \<Rightarrow> byte list cres" where
  "strncpy_buf mem off n dst =
     cbind (strncpy_in (length dst) mem off (int n)) (\<lambda>s. strncpy_w 0 s n dst)"

definition authen_get_reply :: "HDR \<times> byte list \<Rightarrow> byte list \<Rightarrow> byte list \<Rightarrow>
    (int thrown \<times> byte list \<times> byte list) cres" where
  "authen_get_reply pk server datas =
     (let (h, pak) = pk; mem = of_bytes pak;
          mlen = unat (of_be16 (take 2 (drop 2 pak))); dlen = unat (of_be16 (take 2 (drop 4 pak)))
      in cbind (bzero_ptr server) (\<lambda>server. cbind (bzero_ptr datas) (\<lambda>datas.
         if h_datalength h \<noteq> word_of_nat (6 + mlen + dlen) then Inr (Returned 0, server, datas)
         else cbind (if 0 < mlen then strncpy_buf mem 6 mlen server else Inr server) (\<lambda>server.
              cbind (if 0 < dlen then strncpy_buf mem (6 + mlen) dlen datas else Inr datas) (\<lambda>datas.
              Inr (Uncaught (pak ! 0), server, datas))))))"

section \<open>Lemmas\<close>

lemma mem_write_zeros:
  "length bs \<le> k \<Longrightarrow> mem_write (length pre) bs (pre @ replicate k 0) =
     Inr (pre @ bs @ replicate (k - length bs) 0)"
  by (simp add: mem_write_def)

lemma strncpy_w_zeros:
  assumes "length s \<le> n" "n \<le> k"
  shows "strncpy_w (length pre) s n (pre @ replicate k 0) =
    Inr (pre @ to_bytes s @ replicate (k - length s) 0)"
proof -
  have "replicate (k - length s) (0 :: byte) = replicate (n - length s) 0 @ replicate (k - n) 0"
    using assms by (simp flip: replicate_add)
  moreover have "strncpy_w (length pre) s n (pre @ replicate k 0) =
      Inr (pre @ to_bytes s @ (replicate (n - length s) 0 @ replicate (k - n) 0))"
    using assms by (simp add: strncpy_w_def mem_write_zeros)
  ultimately show ?thesis by simp
qed

lemma strcpy_w_zeros:
  assumes "length s < k"
  shows "strcpy_w (length pre) s (pre @ replicate k 0) =
    Inr (pre @ to_bytes s @ replicate (k - length s) 0)"
proof -
  have "replicate (k - length s) (0 :: byte) = [0] @ replicate (k - Suc (length s)) 0"
    using assms by (simp add: Suc_diff_Suc flip: replicate_Suc)
  moreover have "strcpy_w (length pre) s (pre @ replicate k 0) =
      Inr (pre @ to_bytes s @ ([0] @ replicate (k - Suc (length s)) 0))"
    using assms by (simp add: strcpy_w_def mem_write_zeros)
  ultimately show ?thesis by simp
qed

text \<open>A START body taken apart by \<^verbatim>\<open>get_start\<close>.\<close>

definition start_body :: "byte \<Rightarrow> byte \<Rightarrow> byte \<Rightarrow> byte \<Rightarrow> string \<Rightarrow> string \<Rightarrow> string \<Rightarrow> nat \<Rightarrow> byte list" where
  "start_body action priv authen_type service us po ad ld =
     [action, priv, authen_type, service, of_nat (length us), of_nat (length po), of_nat (length ad), of_nat ld]
     @ to_bytes us @ to_bytes po @ to_bytes ad"

lemma of_bytes_start:
  "of_bytes (start_body x1 x2 x3 x4 us po ad ld @ rest) =
     of_bytes (take 8 (start_body x1 x2 x3 x4 us po ad ld)) @ us @ po @ ad @ of_bytes rest"
  by (simp add: start_body_def of_bytes_def to_bytes_def map_idI)

lemma unat_of_nat_byte: "n < 256 \<Longrightarrow> unat (word_of_nat n :: byte) = n"
  by (simp add: unsigned_of_nat take_bit_nat_eq_self)

lemma get_start_fields:
  assumes "h_version h \<in> {TAC_PLUS_VER_0, TAC_PLUS_VER_1}" "h_seq_no h = 1"
    and "nul_free us" "nul_free po" "nul_free ad"
    and "length us < 32" "length po < 32" "length ad < 32" "ld < 254"
  shows "get_start dns h (start_body x1 x2 x3 x4 us po ad ld @ rest) t a =
    cbind (strncpy_z DATA_LEN (of_bytes (start_body x1 x2 x3 x4 us po ad ld @ rest))
             (8 + length us + length po + length ad) (int ld))
      (\<lambda>data. Inr (start_type (h_version h) x1 x3 x4, t \<lparr> tp_version := h_version h \<rparr>,
         a \<lparr> au_cisco := ip_fill dns (tp_peer t), au_user := us, au_port := po, au_rem_addr := ad,
            au_data := data \<rparr>))"
proof -
  let ?b = "start_body x1 x2 x3 x4 us po ad ld @ rest"
  define pre where "pre = of_bytes (take 8 (start_body x1 x2 x3 x4 us po ad ld))"
  have m: "of_bytes ?b = pre @ us @ po @ ad @ of_bytes rest" unfolding pre_def by (rule of_bytes_start)
  have l8: "length pre = 8" by (simp add: pre_def start_body_def)
  have idx: "?b ! 0 = x1" "?b ! 2 = x3" "?b ! 3 = x4"
    "unat (?b ! 4) = length us" "unat (?b ! 5) = length po" "unat (?b ! 6) = length ad" "unat (?b ! 7) = ld"
    using assms(6-9) by (simp_all add: start_body_def unat_of_nat_byte)
  have f1: "strncpy_z 32 (of_bytes ?b) 8 (int (length us)) = Inr us"
    using strncpy_z_field[OF assms(3), of 32 pre "po @ ad @ of_bytes rest"] assms(6) unfolding m l8 by simp
  have f2: "strncpy_z 32 (of_bytes ?b) (8 + length us) (int (length po)) = Inr po"
    using strncpy_z_field[OF assms(4), of 32 "pre @ us" "ad @ of_bytes rest"] assms(7) unfolding m by (simp add: l8)
  have f3: "strncpy_z 32 (of_bytes ?b) (8 + length us + length po) (int (length ad)) = Inr ad"
    using strncpy_z_field[OF assms(5), of 32 "pre @ us @ po" "of_bytes rest"] assms(8) unfolding m
    by (simp add: l8 add.assoc)
  show ?thesis
    using assms(1,2,6-9) unfolding get_start_def Let_def idx
    by (auto simp: f1 f2 f3 simp del: bytes_simps)
qed

text \<open>The data field behind the three texts.\<close>

lemma start_data_field:
  assumes "nul_free ds" "length ds < 254" "off = 8 + length us + length po + length ad"
  shows "strncpy_z DATA_LEN (of_bytes (start_body x1 x2 x3 x4 us po ad ld @ to_bytes ds @ rest))
      off (int (length ds)) = Inr ds"
proof -
  let ?b = "start_body x1 x2 x3 x4 us po ad ld"
  have "off = length (of_bytes ?b)" by (simp add: start_body_def assms(3))
  then show ?thesis
    using strncpy_z_field[OF assms(1,2), of "of_bytes ?b" "of_bytes rest"] by (simp add: add.assoc)
qed

lemma strncpy_z_at_zero:
  assumes "0 \<le> n" "n < int cap" "off = length pre" "0 < z"
  shows "strncpy_z cap (pre @ of_bytes (replicate z 0)) off n = Inr []"
proof -
  have "code (char_of_byte 0) = code NUL" by (simp add: char_of_byte_def code_def)
  then have "char_of_byte 0 = NUL" by simp
  then have "of_bytes (replicate z 0) = NUL # of_bytes (replicate (z - 1) 0)"
    using assms(4) by (cases z) (simp_all add: of_bytes_def)
  then show ?thesis
    using assms by (cases "nat n") (auto simp: strncpy_z_def strncpy_in_def Let_def)
qed

text \<open>What \<^verbatim>\<open>authen_send_start\<close> leaves in its buffer when everything fits.\<close>

lemma start_pak_body:
  assumes "length us < 32" "length po < 32" "length ad < 32" "length data < 100"
    and "ty \<notin> {TACACS_CHAP_LOGIN, TACACS_PAP_LOGIN, TACACS_ARAP_LOGIN} \<Longrightarrow> extra = []"
    and "ty \<in> {TACACS_PAP_LOGIN, TACACS_ARAP_LOGIN} \<Longrightarrow> extra = to_bytes data"
    and "ty = TACACS_CHAP_LOGIN \<Longrightarrow> extra = [1] @ to_bytes data"
    and "client_fields ty = (ac, at, sv)"
  shows "\<exists>h z. authen_start_pak ad po us ty data t =
      (Inr (Some (h, start_body ac 0 at sv us po ad (length data) @ extra @ replicate z 0)),
       t \<lparr> tp_seq_no := tp_seq_no t + 1 \<rparr>) \<and>
     h_version h = (if ty = TACACS_ENABLE_REQUEST \<or> ty = TACACS_ASCII_LOGIN
                    then TAC_PLUS_VER_0 else TAC_PLUS_VER_1) \<and>
     h_seq_no h = ucast (tp_seq_no t + 1) \<and>
     (ty \<noteq> TACACS_MSCHAP_LOGIN \<longrightarrow> h_datalength h = word_of_nat (8 + length us + length po + length ad + length extra)) \<and>
     (ty = TACACS_MSCHAP_LOGIN \<longrightarrow> Suc (length data) \<le> z \<and>
        h_datalength h = word_of_nat (8 + length us + length po + length ad + 1 + length data))"
proof -
  define f where "f = [ac, 0, at, sv, of_nat (length us), of_nat (length po), of_nat (length ad), of_nat (length data) :: byte]"
  have lf: "length f = 8" by (simp add: f_def)
  have w1: "(if us = [] then Inr (f @ replicate 236 0) else strncpy_w 8 us 31 (f @ replicate 236 0))
      = Inr ((f @ to_bytes us) @ replicate (236 - length us) 0)"
    using strncpy_w_zeros[of us 31 236 f] assms(1) lf by auto
  have w2: "(if po = [] then Inr ((f @ to_bytes us) @ replicate (236 - length us) 0)
       else strncpy_w (8 + length us) po 31 ((f @ to_bytes us) @ replicate (236 - length us) 0))
      = Inr ((f @ to_bytes us @ to_bytes po) @ replicate (236 - length us - length po) 0)"
    using strncpy_w_zeros[of po 31 "236 - length us" "f @ to_bytes us"] assms(1,2) lf by auto
  have w3: "(if ad = [] then Inr ((f @ to_bytes us @ to_bytes po) @ replicate (236 - length us - length po) 0)
       else strncpy_w (8 + length us + length po) ad 31
         ((f @ to_bytes us @ to_bytes po) @ replicate (236 - length us - length po) 0))
      = Inr ((f @ to_bytes us @ to_bytes po @ to_bytes ad)
           @ replicate (236 - length us - length po - length ad) 0)"
    using strncpy_w_zeros[of ad 31 "236 - length us - length po" "f @ to_bytes us @ to_bytes po"] assms(1-3) lf
    by (auto simp: add.assoc)
  let ?k = "236 - length us - length po - length ad" and ?b = "f @ to_bytes us @ to_bytes po @ to_bytes ad"
  have lb: "8 + length us + length po + length ad = length ?b" using lf by simp
  have w4: "strcpy_w (8 + length us + length po + length ad) data (?b @ replicate ?k 0)
      = Inr (?b @ to_bytes data @ replicate (?k - length data) 0)"
    unfolding lb using assms(1-4) by (intro strcpy_w_zeros) simp
  have w5: "cbind (mem_write (8 + length us + length po + length ad) [1] (?b @ replicate ?k 0))
        (\<lambda>m. strcpy_w (8 + length us + length po + length ad + 1) data m)
      = Inr (?b @ [1] @ to_bytes data @ replicate (?k - 1 - length data) 0)"
  proof -
    have "mem_write (length ?b) [1] (?b @ replicate ?k 0) = Inr ((?b @ [1]) @ replicate (?k - 1) 0)"
      using assms(1-3) mem_write_zeros[of "[1]" ?k ?b] by simp
    moreover have "strcpy_w (length (?b @ [1])) data ((?b @ [1]) @ replicate (?k - 1) 0)
        = Inr ((?b @ [1]) @ to_bytes data @ replicate (?k - 1 - length data) 0)"
      using assms(1-4) by (intro strcpy_w_zeros) simp
    ultimately show ?thesis unfolding lb by simp
  qed
  have b: "start_body ac 0 at sv us po ad (length data) = ?b" by (simp add: start_body_def f_def)
  have tk: "take 56 ad = ad" using assms(3) by simp
  have c: "(USERNAME_LEN < length us mod 256 \<or> PORT_LEN < length po mod 256 \<or> REM_ADDR_LEN < length ad mod 256) = False"
    using assms(1-3) by simp
  show ?thesis
    unfolding authen_start_pak_def Let_def tk assms(8) prod.case f_def[symmetric] b c if_False
      w1 cbind_simps w2 w3 w4 w5
    using assms(1-7) by (auto split: if_splits)
qed

lemma start_type_client:
  assumes "ty \<in> {TACACS_ENABLE_REQUEST, TACACS_ASCII_LOGIN, TACACS_PAP_LOGIN, TACACS_CHAP_LOGIN,
      TACACS_ARAP_LOGIN, TACACS_PAP_OUT, TACACS_CHAP_OUT, TACACS_ASCII_CHPASS, TACACS_MSCHAP_OUT, TACACS_MSCHAP_LOGIN}"
    and "client_fields ty = (ac, at, sv)"
  shows "start_type (if ty = TACACS_ENABLE_REQUEST \<or> ty = TACACS_ASCII_LOGIN then TAC_PLUS_VER_0
      else TAC_PLUS_VER_1) ac at sv = ty"
proof -
  have "start_type (if k = TACACS_ENABLE_REQUEST \<or> k = TACACS_ASCII_LOGIN then TAC_PLUS_VER_0
      else TAC_PLUS_VER_1) (fst (client_fields k)) (fst (snd (client_fields k))) (snd (snd (client_fields k))) = k"
    if "k \<in> {1, 2, 3, 4, 5, 6, 7, 9, 13, 12}" for k
    using that by (elim insertE emptyE; hypsubst) (simp_all add: client_fields_def start_type_def Let_def)
  then show ?thesis using assms by fastforce
qed

definition client_data :: "int \<Rightarrow> string \<Rightarrow> string" where
  "client_data ty data = (if ty = TACACS_PAP_LOGIN \<or> ty = TACACS_ARAP_LOGIN then data
     else if ty = TACACS_CHAP_LOGIN then take (length data) (CHR 0x01 # data) else [])"

lemma client_server_start:
  assumes "ty \<in> {TACACS_ENABLE_REQUEST, TACACS_ASCII_LOGIN, TACACS_PAP_LOGIN, TACACS_CHAP_LOGIN,
      TACACS_ARAP_LOGIN, TACACS_PAP_OUT, TACACS_CHAP_OUT, TACACS_ASCII_CHPASS, TACACS_MSCHAP_OUT}"
    and "nul_free us" "nul_free po" "nul_free ad" "nul_free data"
    and "length us < 32" "length po < 32" "length ad < 32" "length data < 100" "tp_seq_no t = 0"
  shows "\<exists>h m t'. authen_start_pak ad po us ty data t = (Inr (Some (h, m)), t') \<and>
     get_start dns h (take (nat (sint (h_datalength h))) m @ replicate 15 0) s a =
       Inr (ty, s \<lparr> tp_version := h_version h \<rparr>,
         a \<lparr> au_cisco := ip_fill dns (tp_peer s), au_user := us, au_port := po, au_rem_addr := ad,
             au_data := client_data ty data \<rparr>)"
proof -
  define extra where "extra = (if ty = TACACS_CHAP_LOGIN then [1] @ to_bytes data
    else if ty = TACACS_PAP_LOGIN \<or> ty = TACACS_ARAP_LOGIN then to_bytes data else [])"
  obtain ac at sv where cf: "client_fields ty = (ac, at, sv)" by (metis prod_cases3)
  from assms(1) have ty10: "ty \<in> {TACACS_ENABLE_REQUEST, TACACS_ASCII_LOGIN, TACACS_PAP_LOGIN, TACACS_CHAP_LOGIN,
      TACACS_ARAP_LOGIN, TACACS_PAP_OUT, TACACS_CHAP_OUT, TACACS_ASCII_CHPASS, TACACS_MSCHAP_OUT,
      TACACS_MSCHAP_LOGIN}" by blast
  let ?b = "start_body ac 0 at sv us po ad (length data)"
  have e: "ty \<notin> {TACACS_CHAP_LOGIN, TACACS_PAP_LOGIN, TACACS_ARAP_LOGIN} \<Longrightarrow> extra = []"
    "ty \<in> {TACACS_PAP_LOGIN, TACACS_ARAP_LOGIN} \<Longrightarrow> extra = to_bytes data"
    "ty = TACACS_CHAP_LOGIN \<Longrightarrow> extra = [1] @ to_bytes data"
    by (auto simp: extra_def)
  obtain h z where pk: "authen_start_pak ad po us ty data t = (Inr (Some (h, ?b @ extra @ replicate z 0)),
      t \<lparr> tp_seq_no := tp_seq_no t + 1 \<rparr>)"
    and hv: "h_version h = (if ty = TACACS_ENABLE_REQUEST \<or> ty = TACACS_ASCII_LOGIN
                    then TAC_PLUS_VER_0 else TAC_PLUS_VER_1)"
    and hs: "h_seq_no h = ucast (tp_seq_no t + 1)"
    and hd: "ty \<noteq> TACACS_MSCHAP_LOGIN \<longrightarrow>
      h_datalength h = word_of_nat (8 + length us + length po + length ad + length extra)"
    using start_pak_body[OF assms(6-9) e(1) e(2) e(3) cf, of t] by blast
  have le: "length extra \<le> Suc (length data)" by (simp add: extra_def)
  have n: "nat (sint (h_datalength h)) = length (?b @ extra)"
  proof -
    have N: "8 + length us + length po + length ad + length extra = length (?b @ extra)"
      by (simp add: start_body_def)
    have "h_datalength h = word_of_nat (length (?b @ extra))"
      using hd assms(1) unfolding N by auto
    moreover have "length (?b @ extra) < 2147483648" using le assms(6-9) unfolding N[symmetric] by linarith
    ultimately show ?thesis by (simp only: sint_of_nat nat_int)
  qed
  have off: "8 + length us + length po + length ad = length (of_bytes ?b)" by (simp add: start_body_def)
  have data: "strncpy_z DATA_LEN (of_bytes (?b @ extra @ replicate 15 0))
      (8 + length us + length po + length ad) (int (length data)) = Inr (client_data ty data)"
  proof (cases "extra = []")
    case True
    then have "client_data ty data = []" by (auto simp: extra_def client_data_def split: if_splits)
    moreover have "strncpy_z DATA_LEN (of_bytes ?b @ of_bytes (replicate 15 0))
      (8 + length us + length po + length ad) (int (length data)) = Inr []"
      using assms(9) off by (intro strncpy_z_at_zero) auto
    ultimately show ?thesis using True by simp
  next
    case False
    let ?d = "client_data ty data"
    have d: "length ?d = length data" "nul_free ?d"
      using False assms(5) by (auto simp: extra_def client_data_def split: if_splits intro!: nul_free_take)
    have "char_of_byte 1 = CHR 0x01" by (rule code_inj[THEN iffD1]) (simp add: char_of_byte_def code_def)
    then have one: "byte_of_char CHR 0x01 = 1" by (metis byte_of_char_of_byte)
    have "to_bytes ?d = take (length data) extra"
      using False one
      by (auto simp: extra_def client_data_def to_bytes_take split: if_splits)
        (simp add: to_bytes_def)
    then have "extra = to_bytes ?d @ drop (length data) extra" by simp
    then have eq: "?b @ extra @ replicate 15 0 = ?b @ to_bytes ?d @ (drop (length data) extra @ replicate 15 0)"
      by (metis append.assoc)
    have "strncpy_z DATA_LEN (of_bytes (?b @ to_bytes ?d @ (drop (length data) extra @ replicate 15 0)))
        (8 + length us + length po + length ad) (int (length ?d)) = Inr ?d"
      using d assms(9) by (intro start_data_field) auto
    then show ?thesis unfolding eq d(1) .
  qed
  have "get_start dns h (?b @ extra @ replicate 15 0) s a = Inr (ty, s \<lparr> tp_version := h_version h \<rparr>,
         a \<lparr> au_cisco := ip_fill dns (tp_peer s), au_user := us, au_port := po, au_rem_addr := ad,
             au_data := client_data ty data \<rparr>)"
    using get_start_fields[of h us po ad "length data" dns ac 0 at sv "extra @ replicate 15 0" s a]
      start_type_client[OF ty10 cf] assms(2-4,6-10) hv hs data
    by (simp split: if_splits)
  moreover have "take (nat (sint (h_datalength h))) (?b @ extra @ replicate z 0) @ replicate 15 0
      = ?b @ extra @ replicate 15 0" using n by simp
  ultimately show ?thesis using pk by metis
qed

text \<open>For MSCHAP the length of the data is announced and the data is not copied: zeros are sent.\<close>

lemma client_server_mschap:
  assumes "nul_free us" "nul_free po" "nul_free ad"
    and "length us < 32" "length po < 32" "length ad < 32" "length data < 100" "tp_seq_no t = 0"
  shows "\<exists>h m t'. authen_start_pak ad po us TACACS_MSCHAP_LOGIN data t = (Inr (Some (h, m)), t') \<and>
     get_start dns h (take (nat (sint (h_datalength h))) m @ replicate 15 0) s a =
       Inr (TACACS_MSCHAP_LOGIN, s \<lparr> tp_version := h_version h \<rparr>,
         a \<lparr> au_cisco := ip_fill dns (tp_peer s), au_user := us, au_port := po, au_rem_addr := ad,
             au_data := [] \<rparr>)"
proof -
  obtain ac at sv where cf: "client_fields TACACS_MSCHAP_LOGIN = (ac, at, sv)" by (metis prod_cases3)
  let ?b = "start_body ac 0 at sv us po ad (length data)"
  obtain h z where pk: "authen_start_pak ad po us TACACS_MSCHAP_LOGIN data t =
      (Inr (Some (h, ?b @ [] @ replicate z 0)), t \<lparr> tp_seq_no := tp_seq_no t + 1 \<rparr>)"
    and hv: "h_version h = TAC_PLUS_VER_1" and hs: "h_seq_no h = ucast (tp_seq_no t + 1)"
    and z: "Suc (length data) \<le> z"
    and hd: "h_datalength h = word_of_nat (8 + length us + length po + length ad + 1 + length data)"
    using start_pak_body[OF assms(4-7) _ _ _ cf, of "[]" t] by auto
  have lb: "length ?b = 8 + length us + length po + length ad" by (simp add: start_body_def)
  have "h_datalength h = word_of_nat (length ?b + Suc (length data))" using hd lb by (simp add: add.assoc)
  moreover have "length ?b + Suc (length data) < 2147483648" using assms(4-7) lb by simp
  ultimately have n: "nat (sint (h_datalength h)) = length ?b + Suc (length data)"
    by (simp only: sint_of_nat nat_int)
  have m: "take (nat (sint (h_datalength h))) (?b @ [] @ replicate z 0) @ replicate 15 0 =
      ?b @ replicate (Suc (length data) + 15) (0::byte)"
    using z by (simp only: n) (simp add: min_def replicate_app_Cons_same[symmetric] flip: replicate_add replicate_Suc)
  have "strncpy_z DATA_LEN (of_bytes ?b @ of_bytes (replicate (Suc (length data) + 15) 0))
      (8 + length us + length po + length ad) (int (length data)) = Inr []"
    using assms(7) lb by (intro strncpy_z_at_zero) auto
  then have data: "strncpy_z DATA_LEN (of_bytes (?b @ replicate (Suc (length data) + 15) 0))
      (8 + length us + length po + length ad) (int (length data)) = Inr []" by simp
  have "get_start dns h (?b @ replicate (Suc (length data) + 15) 0) s a =
      Inr (TACACS_MSCHAP_LOGIN, s \<lparr> tp_version := h_version h \<rparr>,
         a \<lparr> au_cisco := ip_fill dns (tp_peer s), au_user := us, au_port := po, au_rem_addr := ad, au_data := [] \<rparr>)"
    using get_start_fields[of h us po ad "length data" dns ac 0 at sv "replicate (Suc (length data) + 15) 0" s a]
      start_type_client[OF _ cf] assms(1-8) hv hs data by simp
  with pk m show ?thesis by metis
qed

section \<open>Properties\<close>



text \<open>The length checks of \<^verbatim>\<open>get_start\<close> admit the size of the array itself: a START packet of a
known version with number 1 whose user name has exactly 32 bytes always writes its terminator
past \<^verbatim>\<open>username[32]\<close>, whatever the rest holds; one with 33 or more is refused.\<close>

lemma get_start_user_overflow:
  assumes "h_version h \<in> {TAC_PLUS_VER_0, TAC_PLUS_VER_1}" "h_seq_no h = 1"
  shows "(pak ! 4 = 32 \<longrightarrow> get_start dns h pak t a = Inl OutOfBounds) \<and>
         (32 < pak ! 4 \<longrightarrow> (\<exists>t' a'. get_start dns h pak t a = Inr (0, t', a')))"
proof
  show "pak ! 4 = 32 \<longrightarrow> get_start dns h pak t a = Inl OutOfBounds"
    using assms by (auto simp: get_start_def Let_def strncpy_z_def)
  show "32 < pak ! 4 \<longrightarrow> (\<exists>t' a'. get_start dns h pak t a = Inr (0, t', a'))"
  proof
    assume "32 < pak ! 4"
    then have "32 < unat (pak ! 4)" by (simp add: word_less_nat_alt)
    then show "\<exists>t' a'. get_start dns h pak t a = Inr (0, t', a')"
      using assms by (auto simp: get_start_def Let_def)
  qed
qed

lemma get_start_user_overflow_witness:
  "get_start (\<lambda>_. None) \<lparr> h_version = 0xc0, h_type = 1, h_seq_no = 1, h_encryption = 1,
      h_session_id = 9, h_datalength = 40 \<rparr>
     ([1, 0, 1, 1, 32, 0, 0, 0] @ replicate 32 65 @ replicate 15 0)
     (new_TacacsPacket ''k'' ''p'' 4 9) (new_authen (\<lambda>_. None)) = Inl OutOfBounds"
  by (rule get_start_user_overflow[THEN conjunct1, THEN mp]) simp_all

text \<open>The CONTINUE packet a client sends is the one the server reads: the message and the data
come back with the flag byte 0, when they are shorter than the arrays.\<close>

lemma authen_cont_roundtrip:
  assumes "nul_free msg" "nul_free data" "length msg \<le> cap" "int (length msg) \<le> maxlen"
    and "length data \<le> DATA_LEN" "length msg + length data \<le> 494"
  shows "\<exists>h m t'. authen_cont_pak msg data t = (Inr (h, m), t') \<and>
    get_cont h (Some (m @ replicate 15 0)) cap maxlen = Inr (0, Some msg, Some data)"
proof -
  let ?f = "be16 (word_of_nat (length msg)) @ be16 (word_of_nat (length data)) @ [0]"
  let ?m = "?f @ to_bytes msg @ to_bytes data"
  have len: "unat (word_of_nat (length msg) :: 16 word) = length msg"
    "unat (word_of_nat (length data) :: 16 word) = length data"
    using assms(6) by (simp_all add: unsigned_of_nat take_bit_nat_eq_self)
  have lf: "length (of_bytes ?f) = 5" by simp
  have mem: "of_bytes (?m @ replicate 15 0) = of_bytes ?f @ msg @ data @ of_bytes (replicate 15 0)"
    by (simp add: of_bytes_def to_bytes_def map_idI)
  have f1: "strncpy_in cap (of_bytes (?m @ replicate 15 0)) 5 (int (length msg)) = Inr msg"
    using strncpy_in_field[OF assms(1,3), of "of_bytes ?f" "data @ of_bytes (replicate 15 0)"]
    unfolding mem lf by simp
  have f2: "strncpy_in DATA_LEN (of_bytes (?m @ replicate 15 0)) (5 + length msg) (int (length data)) = Inr data"
    using strncpy_in_field[OF assms(2,5), of "of_bytes ?f @ msg" "of_bytes (replicate 15 0)"]
    unfolding mem unfolding length_append lf append_assoc .
  have g: "take 2 (?m @ replicate 15 0) = be16 (word_of_nat (length msg))"
    "take 2 (drop 2 (?m @ replicate 15 0)) = be16 (word_of_nat (length data))"
    "(?m @ replicate 15 0) ! 4 = 0"
    by (simp_all add: nth_append)
  obtain h t' where pk: "authen_cont_pak msg data t = (Inr (h, ?m), t')"
    and hd: "h_datalength h = word_of_nat (5 + length msg + length data)"
    using assms(6) by (simp add: authen_cont_pak_def Let_def)
  have "get_cont h (Some (?m @ replicate 15 0)) cap maxlen = Inr (0, Some msg, Some data)"
    unfolding get_cont_def option.case Let_def g of_be16_be16 len f1 f2
    using hd assms(4,5) by simp
  with pk show ?thesis by blast
qed

lemma authen_cont_roundtrip_witness:
  "\<exists>h m t'. authen_cont_pak ''secret'' [] (new_TacacsPacket ''k'' ''p'' 3 9) = (Inr (h, m), t') \<and>
    get_cont h (Some (m @ replicate 15 0)) PASSWORD_LEN 50 = Inr (0, Some ''secret'', Some [])"
  by (rule authen_cont_roundtrip) simp_all

text \<open>A client never gets a status back from a well-formed REPLY: the texts arrive in its
arrays, then the status leaves as an exception of a type no handler takes.\<close>

lemma authen_reply_uncaught:
  assumes "nul_free msg" "nul_free data" "0 < length msg" "length msg \<le> length sbuf"
    and "length data \<le> length dbuf" "8 \<le> length sbuf" "8 \<le> length dbuf" "length msg + length data \<le> 493"
  shows "\<exists>h m t' sbuf' dbuf'. authen_reply_pak t status msg data flag ver = Inr (h, m, t') \<and>
    authen_get_reply (h, m @ replicate 3 0) sbuf dbuf = Inr (Uncaught status, sbuf', dbuf') \<and>
    take (length msg) sbuf' = to_bytes msg \<and> take (length data) dbuf' = to_bytes data"
proof -
  let ?f = "[status, flag] @ be16 (word_of_nat (length msg)) @ be16 (word_of_nat (length data))"
  let ?m = "?f @ to_bytes msg @ to_bytes data"
  have len: "unat (word_of_nat (length msg) :: 16 word) = length msg"
    "unat (word_of_nat (length data) :: 16 word) = length data"
    using assms(8) by (simp_all add: unsigned_of_nat take_bit_nat_eq_self)
  have lf: "length (of_bytes ?f) = 6" by simp
  have mem: "of_bytes (?m @ replicate 3 0) = of_bytes ?f @ msg @ data @ of_bytes (replicate 3 0)"
    by (simp add: of_bytes_def to_bytes_def map_idI)
  define s1 d1 where "s1 = replicate 8 (0::byte) @ drop 8 sbuf" and "d1 = replicate 8 (0::byte) @ drop 8 dbuf"
  have ls: "length s1 = length sbuf" "length d1 = length dbuf" using assms(6,7) by (simp_all add: s1_def d1_def)
  have b: "bzero_ptr sbuf = Inr s1" "bzero_ptr dbuf = Inr d1"
    using assms(6,7) by (simp_all add: bzero_ptr_def mem_write_def s1_def d1_def)
  have c1: "strncpy_buf (of_bytes (?m @ replicate 3 0)) 6 (length msg) s1 = Inr (to_bytes msg @ drop (length msg) s1)"
    using strncpy_in_field[OF assms(1), of "length s1" "of_bytes ?f" "data @ of_bytes (replicate 3 0)"]
      assms(4) ls(1) unfolding mem lf by (simp add: strncpy_buf_def strncpy_w_def mem_write_def)
  have c2: "strncpy_buf (of_bytes (?m @ replicate 3 0)) (6 + length msg) (length data) d1 = Inr (to_bytes data @ drop (length data) d1)"
    using strncpy_in_field[OF assms(2), of "length d1" "of_bytes ?f @ msg" "of_bytes (replicate 3 0)"]
      assms(5) ls(2) unfolding mem unfolding length_append lf append_assoc strncpy_buf_def
    by (simp add: strncpy_w_def mem_write_def)
  have g: "take 2 (drop 2 (?m @ replicate 3 0)) = be16 (word_of_nat (length msg))"
    "take 2 (drop 4 (?m @ replicate 3 0)) = be16 (word_of_nat (length data))"
    "(?m @ replicate 3 0) ! 0 = status"
    by simp_all
  obtain h t' where pk: "authen_reply_pak t status msg data flag ver = Inr (h, ?m, t')"
    and hd: "h_datalength h = word_of_nat (6 + length msg + length data)"
    using assms(8) by (simp add: authen_reply_pak_def Let_def)
  have "\<exists>d2. authen_get_reply (h, ?m @ replicate 3 0) sbuf dbuf =
      Inr (Uncaught status, to_bytes msg @ drop (length msg) s1, d2) \<and> take (length data) d2 = to_bytes data"
    unfolding authen_get_reply_def prod.case Let_def g of_be16_be16 len b cbind_simps c1 c2
    using hd assms(3) by (cases "data = []") simp_all
  then obtain d2 where "authen_get_reply (h, ?m @ replicate 3 0) sbuf dbuf =
      Inr (Uncaught status, to_bytes msg @ drop (length msg) s1, d2)" "take (length data) d2 = to_bytes data"
    by blast
  with pk show ?thesis by fastforce
qed

lemma authen_reply_uncaught_witness:
  "\<exists>h m t' s d. authen_reply_pak (new_TacacsPacket ''k'' ''p'' 3 9) STATUS_GETPASS ''Password:'' [] 1 0xc0
      = Inr (h, m, t') \<and>
    authen_get_reply (h, m @ replicate 3 0) (replicate 64 0) (replicate 64 0) = Inr (Uncaught STATUS_GETPASS, s, d)"
  using authen_reply_uncaught[of "''Password:''" "[]" "replicate 64 0" "replicate 64 0"
      "new_TacacsPacket ''k'' ''p'' 3 9" STATUS_GETPASS 1 "0xc0"] by fastforce

end
