(* ===== verification/TacAuthor.thy ===== *)
theory TacAuthor
  imports TacAuthen
begin

text \<open>
  TACACS+ authorization packets (\<^verbatim>\<open>src/Tacacs.cc\<close>, class \<^verbatim>\<open>TacacsServerAuthorization\<close>
  and the authorization methods of \<^verbatim>\<open>TacacsClient\<close>): REQUEST and RESPONSE, and the functions
  on attribute-value pairs. The argument lengths are read through a \<^verbatim>\<open>char*\<close>, so they are
  signed.
\<close>

abbreviation (input) MAX_AVP :: nat where "MAX_AVP \<equiv> 100"
abbreviation (input) PASS_ADD :: byte where "PASS_ADD \<equiv> 1"
abbreviation (input) PASS_REPL :: byte where "PASS_REPL \<equiv> 2"
abbreviation (input) AUTHOR_FAIL :: byte where "AUTHOR_FAIL \<equiv> 16"
abbreviation (input) AUTHOR_ERROR :: byte where "AUTHOR_ERROR \<equiv> 17"

section \<open>Attribute-value pairs\<close>

definition optional :: "string \<Rightarrow> bool" where
  "optional s = (CHR ''*'' \<in> set s)"

definition mandatory :: "string \<Rightarrow> bool" where
  "mandatory s = (CHR ''='' \<in> set s)"

definition is_sep :: "char \<Rightarrow> bool" where
  "is_sep c = (c = CHR ''='' \<or> c = CHR ''*'')"

fun match_attr :: "string \<Rightarrow> string \<Rightarrow> bool" where
  "match_attr (a # s1) (b # s2) =
     (if is_sep a \<and> is_sep b then True else if a \<noteq> b then False else match_attr s1 s2)"
| "match_attr _ _ = False"

definition match_value :: "string \<Rightarrow> string \<Rightarrow> bool" where
  "match_value s1 s2 = (dropWhile (\<lambda>c. \<not> is_sep c) s1 = dropWhile (\<lambda>c. \<not> is_sep c) s2)"

definition get_value :: "string \<Rightarrow> string" where
  "get_value s = (case dropWhile (\<lambda>c. \<not> is_sep c) s of [] \<Rightarrow> [] | _ # v \<Rightarrow> v)"

definition attr_of :: "string \<Rightarrow> string" where
  "attr_of s = takeWhile (\<lambda>c. \<not> is_sep c) s"

definition has_sep :: "string \<Rightarrow> bool" where
  "has_sep s = (\<exists>c \<in> set s. is_sep c)"

text \<open>Two pairs match in their attribute exactly when both have a separator and the texts before it
agree.\<close>

lemma match_attr_iff:
  "match_attr s1 s2 = (has_sep s1 \<and> has_sep s2 \<and> attr_of s1 = attr_of s2)"
  by (induction s1 s2 rule: match_attr.induct) (auto simp: has_sep_def attr_of_def)

lemma match_attr_sym: "match_attr s1 s2 = match_attr s2 s1"
  by (auto simp: match_attr_iff)

lemma match_attr_trans: "match_attr s1 s2 \<Longrightarrow> match_attr s2 s3 \<Longrightarrow> match_attr s1 s3"
  by (auto simp: match_attr_iff)

section \<open>The request, server side\<close>

record author_req =
  rq_method :: int
  rq_priv_lvl :: int
  rq_authen_type :: int
  rq_authen_service :: int
  rq_user :: string
  rq_port :: string
  rq_rem_addr :: string
  rq_avpair :: "string list"

definition new_author_req :: author_req where
  "new_author_req = \<lparr> rq_method = 0, rq_priv_lvl = 0, rq_authen_type = 0, rq_authen_service = 0,
     rq_user = [], rq_port = [], rq_rem_addr = [], rq_avpair = [] \<rparr>"

text \<open>The copies of the arguments: each through \<^verbatim>\<open>ss[255]\<close>, then \<^verbatim>\<open>avpair[i+1] = 0\<close> in
an array of \<open>cap\<close> pointers.\<close>

fun get_args :: "nat \<Rightarrow> string \<Rightarrow> nat \<Rightarrow> nat \<Rightarrow> int list \<Rightarrow> string list cres" where
  "get_args cap mem off i [] = Inr []"
| "get_args cap mem off i (l # ls) =
     cbind (strncpy_z 255 mem off l) (\<lambda>s.
     if cap \<le> Suc i then Inl OutOfBounds
     else cbind (get_args cap mem (off + nat l) (Suc i) ls) (\<lambda>r. Inr (s # r)))"

definition arg_lens :: "nat \<Rightarrow> nat \<Rightarrow> byte list \<Rightarrow> int list" where
  "arg_lens off cnt pak = map sint (take cnt (drop off pak))"

definition author_get_request :: "HDR \<Rightarrow> byte list \<Rightarrow> author_req \<Rightarrow> (bool \<times> author_req) cres" where
  "author_get_request h p rq =
     (let mem = of_bytes p; user_len = unat (p ! 4); port_len = unat (p ! 5);
          rem_addr_len = unat (p ! 6); arg_cnt = unat (p ! 7);
          ls = arg_lens 8 arg_cnt p; u = 8 + arg_cnt; po = u + user_len; r = po + port_len;
          av = r + rem_addr_len
      in if h_type h \<noteq> TAC_PLUS_AUTHOR then Inr (False, rq)
         else if h_seq_no h \<noteq> 1 then Inr (False, rq)
         else if length p < u then Inl OutOfBounds
         else if h_datalength h \<noteq>
                word_of_int (8 + int arg_cnt + int user_len + int port_len + int rem_addr_len + sum_list ls)
         then Inr (False, rq)
         else cbind (strncpy_z USERNAME_LEN mem u (int user_len)) (\<lambda>user.
              cbind (strncpy_z PORT_LEN mem po (int port_len)) (\<lambda>port.
              cbind (strncpy_z REM_ADDR_LEN mem r (int rem_addr_len)) (\<lambda>rem_addr.
              cbind (get_args MAX_AVP mem av 0 ls) (\<lambda>avpair.
              Inr (True, \<lparr> rq_method = int (unat (p ! 0)), rq_priv_lvl = int (unat (p ! 1)),
                 rq_authen_type = int (unat (p ! 2)), rq_authen_service = int (unat (p ! 3)),
                 rq_user = user, rq_port = port, rq_rem_addr = rem_addr, rq_avpair = avpair \<rparr>))))))"

section \<open>The response, server side\<close>

text \<open>The first loop of \<^verbatim>\<open>send_response\<close> stops at an empty pair, the copying loop only at the
null pointer. The two length fields are stored in host order.\<close>

definition author_reply_pak :: "tacpkt \<Rightarrow> byte \<Rightarrow> string \<Rightarrow> string \<Rightarrow> string list \<Rightarrow>
    (HDR \<times> byte list \<times> tacpkt) cres" where
  "author_reply_pak t status server_msg data avpair =
     (let t = t \<lparr> tp_seq_no := tp_seq_no t + 1 \<rparr>;
          counted = takeWhile (\<lambda>s. s \<noteq> []) avpair; i = length counted;
          arglens = length (concat counted);
          h = \<lparr> h_version = TAC_PLUS_VER_0, h_type = TAC_PLUS_AUTHOR, h_seq_no = ucast (tp_seq_no t),
                h_encryption = TAC_PLUS_CLEAR, h_session_id = tp_session_id t,
                h_datalength = word_of_nat (6 + i + length server_msg + length data + arglens) \<rparr>;
          body = [status, of_nat i] @ le16 (word_of_nat (length server_msg)) @
                 le16 (word_of_nat (length data)) @ map (\<lambda>s. of_nat (length s)) counted @
                 to_bytes server_msg @ to_bytes data @ to_bytes (concat avpair)
      in if 512 < 12 + length body + 1 then Inl OutOfBounds else Inr (h, body, t))"

definition send_response :: "(byte list \<Rightarrow> byte list) \<Rightarrow> int \<Rightarrow> wr_ev list \<Rightarrow> tacpkt \<Rightarrow>
    byte \<Rightarrow> string \<Rightarrow> string \<Rightarrow> string list \<Rightarrow> (bool \<times> byte list \<times> tacpkt) cres" where
  "send_response md5 now evs t status server_msg data avpair =
     cbind (author_reply_pak t status server_msg data avpair) (\<lambda>(h, body, t').
       write_packet md5 now evs h body t')"

section \<open>Client side\<close>

definition author_req_pak :: "string \<Rightarrow> byte \<Rightarrow> byte \<Rightarrow> byte \<Rightarrow> byte \<Rightarrow> string \<Rightarrow> string \<Rightarrow> string list \<Rightarrow>
    tacpkt \<Rightarrow> (HDR \<times> byte list \<times> tacpkt) cres" where
  "author_req_pak our_addr method priv_lvl authen_type service user port avpair t =
     (let rem_addr = take 19 our_addr; av = map (take 255) avpair; i = length av;
          t = t \<lparr> tp_seq_no := tp_seq_no t + 1 \<rparr>;
          h = \<lparr> h_version = TAC_PLUS_VER_0, h_type = TAC_PLUS_AUTHOR, h_seq_no = ucast (tp_seq_no t),
                h_encryption = TAC_PLUS_CLEAR, h_session_id = tp_session_id t,
                h_datalength = word_of_nat (8 + i + length user + length port + length rem_addr +
                  length (concat av)) \<rparr>;
          body = [method, priv_lvl, authen_type, service, of_nat (length user), of_nat (length port),
                  of_nat (length rem_addr), of_nat i] @ map (\<lambda>s. of_nat (length s)) av @
                 to_bytes user @ to_bytes port @ to_bytes rem_addr @ to_bytes (concat av);
          term = (if user = [] \<and> port = [] \<and> rem_addr = [] \<and> av = [] then 0 else 1)
      in if 256 < 12 + length body + term then Inl OutOfBounds else Inr (h, body, t))"

definition author_send_request :: "(byte list \<Rightarrow> byte list) \<Rightarrow> int \<Rightarrow> wr_ev list \<Rightarrow> string \<Rightarrow> byte \<Rightarrow> byte \<Rightarrow>
    byte \<Rightarrow> byte \<Rightarrow> string \<Rightarrow> string \<Rightarrow> string list \<Rightarrow> tacpkt \<Rightarrow> (bool \<times> byte list \<times> tacpkt) cres" where
  "author_send_request md5 now evs our_addr method priv_lvl authen_type service user port avpair t =
     cbind (author_req_pak our_addr method priv_lvl authen_type service user port avpair t)
       (\<lambda>(h, body, t'). write_packet md5 now evs h body t')"

text \<open>\<^verbatim>\<open>author_get_response\<close> on a packet already read; the caller's arrays have \<open>cm\<close> and \<open>cd\<close>
bytes and \<open>ca\<close> pointers. Texts are set on success only.\<close>

definition author_get_response :: "nat \<Rightarrow> nat \<Rightarrow> nat \<Rightarrow> HDR \<times> byte list \<Rightarrow>
    (int \<times> (string \<times> string \<times> string list) option) cres" where
  "author_get_response cm cd ca pk =
     (let (h, pak) = pk; mem = of_bytes pak; status = int (unat (pak ! 0)); arg_cnt = unat (pak ! 1);
          msg_len = unat (of_le16 (take 2 (drop 2 pak))); data_len = unat (of_le16 (take 2 (drop 4 pak)));
          ls = arg_lens 6 arg_cnt pak; m = 6 + arg_cnt; d = m + msg_len; av = d + data_len
      in if h_type h \<noteq> TAC_PLUS_AUTHOR then Inr (0, None)
         else if h_seq_no h \<noteq> 2 then Inr (0, None)
         else if status = 17 then Inr (status, None)
         else if length pak < m then Inl OutOfBounds
         else if h_datalength h \<noteq> word_of_int (6 + int arg_cnt + int msg_len + int data_len + sum_list ls)
         then Inr (status, None)
         else cbind (strncpy_z cm mem m (int msg_len)) (\<lambda>server_msg.
              cbind (strncpy_z cd mem d (int data_len)) (\<lambda>data.
              cbind (get_args ca mem av 0 ls) (\<lambda>avpair.
              Inr (status, Some (server_msg, data, avpair))))))"

section \<open>Lemmas\<close>

lemma sint_byte: "n < 128 \<Longrightarrow> sint (word_of_nat n :: byte) = int n"
proof -
  assume "n < 128"
  then have "signed_take_bit 7 (int n) = int n" by (intro signed_take_bit_int_eq_self) auto
  then show ?thesis by (simp add: signed_of_nat)
qed

lemma sint_byte_neg: "128 \<le> n \<Longrightarrow> n < 256 \<Longrightarrow> sint (word_of_nat n :: byte) = int n - 256"
proof -
  assume n: "128 \<le> n" "n < 256"
  have "(int n + 128) mod 256 = ((int n - 128) + 256) mod 256" by (simp add: add.commute)
  also have "\<dots> = (int n - 128) mod 256" by (simp only: mod_add_self2)
  also have "\<dots> = int n - 128" using n by (intro mod_pos_pos_trivial) auto
  finally have "signed_take_bit 7 (int n) = int n - 256"
    by (simp add: signed_take_bit_eq_take_bit_shift take_bit_eq_mod)
  then show ?thesis by (simp add: signed_of_nat)
qed

lemma arg_lens_map:
  "off = length pre \<Longrightarrow> cnt = length av \<Longrightarrow> \<forall>s \<in> set av. length s < 128 \<Longrightarrow>
   arg_lens off cnt (pre @ map (\<lambda>s. word_of_nat (length s)) av @ post) = map (\<lambda>s. int (length s)) av"
  by (simp add: arg_lens_def sint_byte)

lemma sum_list_lens: "sum_list (map (\<lambda>s. int (length s)) av) = int (length (concat av))"
  by (induction av) auto

lemma get_args_all:
  "off = length pre \<Longrightarrow> \<forall>s \<in> set av. length s < 128 \<and> nul_free s \<Longrightarrow> i + length av < cap \<Longrightarrow>
   get_args cap (pre @ concat av @ post) off i (map (\<lambda>s. int (length s)) av) = Inr av"
proof (induction av arbitrary: i off pre)
  case (Cons s av)
  have "strncpy_z 255 (pre @ s @ (concat av @ post)) (length pre) (int (length s)) = Inr s"
    using Cons.prems by (intro strncpy_z_field) auto
  moreover have "get_args cap ((pre @ s) @ concat av @ post) (length (pre @ s)) (Suc i)
      (map (\<lambda>s. int (length s)) av) = Inr av"
    using Cons.prems by (intro Cons.IH) auto
  ultimately show ?case using Cons.prems by simp
qed simp

lemma unat_byte_len: "n < 256 \<Longrightarrow> unat (word_of_nat n :: byte) = n"
  by (simp add: unsigned_of_nat take_bit_nat_eq_self)

text \<open>The body a client builds, and what the server reads from it.\<close>

definition req_body :: "byte \<Rightarrow> byte \<Rightarrow> byte \<Rightarrow> byte \<Rightarrow> string \<Rightarrow> string \<Rightarrow> string \<Rightarrow> string list \<Rightarrow> byte list" where
  "req_body m pl at sv us po ad av =
     [m, pl, at, sv, of_nat (length us), of_nat (length po), of_nat (length ad), of_nat (length av)] @
     map (\<lambda>s. of_nat (length s)) av @ to_bytes us @ to_bytes po @ to_bytes ad @ to_bytes (concat av)"

lemma author_req_pak_body:
  assumes "length ad < 20" "\<forall>s \<in> set av. length s < 256"
    and "length us + length po + length ad + length av + length (concat av) \<le> 235"
  shows "\<exists>h t'. author_req_pak ad m pl at sv us po av t = Inr (h, req_body m pl at sv us po ad av, t') \<and>
    h_type h = TAC_PLUS_AUTHOR \<and> h_seq_no h = ucast (tp_seq_no t + 1) \<and>
    h_datalength h = word_of_nat (8 + length av + length us + length po + length ad + length (concat av))"
proof -
  have av: "map (take 255) av = av" using assms(2) by (intro map_idI) auto
  have ad: "take 19 ad = ad" using assms(1) by simp
  show ?thesis
    using assms(3) unfolding author_req_pak_def Let_def av ad
    by (simp add: req_body_def add.assoc)
qed

lemma author_get_request_body:
  assumes "nul_free us" "nul_free po" "nul_free ad" "length us < 32" "length po < 32" "length ad < 32"
    and "\<forall>s \<in> set av. length s < 128 \<and> nul_free s" "length av < 100"
    and "h_type h = TAC_PLUS_AUTHOR" "h_seq_no h = 1"
    and "h_datalength h = word_of_nat (8 + length av + length us + length po + length ad + length (concat av))"
  shows "author_get_request h (req_body m pl at sv us po ad av @ replicate 15 0) rq =
    Inr (True, \<lparr> rq_method = int (unat m), rq_priv_lvl = int (unat pl), rq_authen_type = int (unat at),
      rq_authen_service = int (unat sv), rq_user = us, rq_port = po, rq_rem_addr = ad, rq_avpair = av \<rparr>)"
proof -
  define f where "f = [m, pl, at, sv, of_nat (length us), of_nat (length po), of_nat (length ad), of_nat (length av) :: byte]"
  define L where "L = map (\<lambda>s. word_of_nat (length s) :: byte) av"
  let ?p = "req_body m pl at sv us po ad av @ replicate 15 0"
  have p: "?p = f @ L @ to_bytes us @ to_bytes po @ to_bytes ad @ to_bytes (concat av) @ replicate 15 0"
    by (simp add: req_body_def f_def L_def)
  have idx: "?p ! 0 = m" "?p ! 1 = pl" "?p ! 2 = at" "?p ! 3 = sv" "unat (?p ! 4) = length us"
    "unat (?p ! 5) = length po" "unat (?p ! 6) = length ad" "unat (?p ! 7) = length av"
    using assms(4-6,8) by (simp_all add: req_body_def unat_byte_len)
  have ls: "arg_lens 8 (length av) ?p = map (\<lambda>s. int (length s)) av"
    unfolding p L_def using assms(7) by (intro arg_lens_map) (auto simp: f_def)
  have pre: "length (of_bytes (f @ L)) = 8 + length av" by (simp add: f_def L_def)
  have mem: "of_bytes ?p = of_bytes (f @ L) @ us @ po @ ad @ concat av @ of_bytes (replicate 15 0)"
    unfolding p by simp
  let ?z = "of_bytes (replicate 15 0)"
  have f1: "strncpy_z 32 (of_bytes ?p) (8 + length av) (int (length us)) = Inr us"
    using strncpy_z_field[OF assms(1,4), of "of_bytes (f @ L)" "po @ ad @ concat av @ ?z"]
    unfolding mem pre .
  have f2: "strncpy_z 32 (of_bytes ?p) (8 + length av + length us) (int (length po)) = Inr po"
    using strncpy_z_field[OF assms(2,5), of "of_bytes (f @ L) @ us" "ad @ concat av @ ?z"]
    unfolding mem unfolding length_append[of "of_bytes (f @ L)"] pre append_assoc .
  have f3: "strncpy_z 32 (of_bytes ?p) (8 + length av + length us + length po) (int (length ad)) = Inr ad"
    using strncpy_z_field[OF assms(3,6), of "(of_bytes (f @ L) @ us) @ po" "concat av @ ?z"]
    unfolding mem unfolding append_assoc length_append[of "of_bytes (f @ L)"] pre
    unfolding length_append add.assoc .
  have f4: "get_args MAX_AVP (of_bytes ?p) (8 + length av + length us + length po + length ad) 0
      (map (\<lambda>s. int (length s)) av) = Inr av"
  proof -
    have "8 + length av + length us + length po + length ad = length (of_bytes (f @ L) @ us @ po @ ad)"
      by (simp add: f_def L_def)
    from get_args_all[OF this assms(7), of 0 100 ?z] show ?thesis
      using assms(8) unfolding mem by simp
  qed
  have dl: "h_datalength h = word_of_int (8 + int (length av) + int (length us) + int (length po) +
      int (length ad) + sum_list (map (\<lambda>s. int (length s)) av))"
    unfolding assms(11) sum_list_lens by simp
  have len: "\<not> length ?p < 8 + length av" unfolding p by (simp add: f_def L_def)
  show ?thesis
    unfolding author_get_request_def Let_def idx ls f1 f2 f3 f4 cbind_simps
    using assms(9,10) dl len by simp
qed

text \<open>With arguments of 128 bytes and more the signed sum misses 256 for each of them.\<close>

lemma sum_signed_lens:
  "\<forall>s \<in> set av. length s < 256 \<Longrightarrow>
   sum_list (map (\<lambda>s. sint (word_of_nat (length s) :: byte)) av) =
     int (length (concat av)) - 256 * int (length (filter (\<lambda>s. 128 \<le> length s) av))"
proof (induction av)
  case (Cons s av)
  then show ?case
    by (cases "128 \<le> length s") (auto simp: sint_byte sint_byte_neg)
qed simp

lemma word_of_int_differ:
  "0 < k \<Longrightarrow> k < 4294967296 \<Longrightarrow> (word_of_int (n - k) :: 32 word) \<noteq> word_of_int n"
proof
  assume k: "0 < k" "k < 4294967296" and eq: "(word_of_int (n - k) :: 32 word) = word_of_int n"
  then have "word_of_int k = (0 :: 32 word)" by simp
  then have "(4294967296 :: int) dvd k"
    by (simp add: word_of_int_eq_0_iff)
  with k show False by (auto dest: zdvd_imp_le)
qed

section \<open>Properties\<close>

text \<open>C33: the authorization request a client sends is the one the server reads: the server's object
gets the method, the privilege level, the type and the service of the authentication, the user, the
port, the address and every pair in its order. Under these bounds: every pair shorter than 128 bytes
(a pair of 128 to 255 bytes, which the protocol allows, makes the server refuse the request), at most 99
pairs, user and port shorter than 32 bytes, the address shorter than 20, all of them and the length bytes
of the pairs in 235 bytes, no zero byte in them, and a first packet of its session.\<close>

theorem author_request_roundtrip:
  assumes "nul_free us" "nul_free po" "nul_free ad" "length us < 32" "length po < 32" "length ad < 20"
    and "\<forall>s \<in> set av. length s < 128 \<and> nul_free s" "length av < 100" "tp_seq_no t = 0"
    and "length us + length po + length ad + length av + length (concat av) \<le> 235"
  shows "\<exists>h body t' rq'. author_req_pak ad m pl at sv us po av t = Inr (h, body, t') \<and>
    author_get_request h (body @ replicate 15 0) rq = Inr (True, rq') \<and>
    rq_user rq' = us \<and> rq_port rq' = po \<and> rq_rem_addr rq' = ad \<and> rq_avpair rq' = av \<and>
    rq_method rq' = int (unat m) \<and> rq_priv_lvl rq' = int (unat pl) \<and>
    rq_authen_type rq' = int (unat at) \<and> rq_authen_service rq' = int (unat sv)"
proof -
  obtain h t' where pk: "author_req_pak ad m pl at sv us po av t = Inr (h, req_body m pl at sv us po ad av, t')"
    and h: "h_type h = TAC_PLUS_AUTHOR" "h_seq_no h = ucast (tp_seq_no t + 1)"
      "h_datalength h = word_of_nat (8 + length av + length us + length po + length ad + length (concat av))"
    using author_req_pak_body[OF assms(6) _ assms(10), of m pl at sv t] assms(7) by fastforce
  have "length ad < 32" using assms(6) by simp
  moreover have "h_seq_no h = 1" using h(2) assms(9) by simp
  ultimately have "author_get_request h (req_body m pl at sv us po ad av @ replicate 15 0) rq =
    Inr (True, \<lparr> rq_method = int (unat m), rq_priv_lvl = int (unat pl), rq_authen_type = int (unat at),
      rq_authen_service = int (unat sv), rq_user = us, rq_port = po, rq_rem_addr = ad, rq_avpair = av \<rparr>)"
    using assms(1-5,7,8) h(1,3) by (intro author_get_request_body) auto
  with pk show ?thesis by fastforce
qed

lemma author_request_roundtrip_witness:
  "\<exists>h body t' rq'. author_req_pak ''127.0.0.1'' 6 15 1 3 ''bob'' ''tty1'' [''service=shell'', ''cmd=show'']
      (new_TacacsPacket ''k'' ''p'' 3 9) = Inr (h, body, t') \<and>
    author_get_request h (body @ replicate 15 0) new_author_req = Inr (True, rq') \<and>
    rq_user rq' = ''bob'' \<and> rq_avpair rq' = [''service=shell'', ''cmd=show''] \<and>
    rq_priv_lvl rq' = 15 \<and> rq_authen_type rq' = 1 \<and> rq_authen_service rq' = 3"
  using author_request_roundtrip[of "''bob''" "''tty1''" "''127.0.0.1''" "[''service=shell'', ''cmd=show'']"
      "new_TacacsPacket ''k'' ''p'' 3 9" 6 15 1 3 new_author_req]
  by (auto simp: new_TacacsPacket_def)

text \<open>A request with a pair of 128 to 255 bytes, as the protocol allows, is always refused by the
server as an error of keys: the length byte is read as a negative number.\<close>

lemma author_long_pair_refused:
  assumes "\<forall>s \<in> set av. length s < 256" "\<exists>s \<in> set av. 128 \<le> length s" "length av < 256"
    and "length us < 256" "length po < 256" "length ad < 20"
    and "length us + length po + length ad + length av + length (concat av) \<le> 235"
  shows "\<exists>h body t'. author_req_pak ad m pl at sv us po av t = Inr (h, body, t') \<and>
    author_get_request h (body @ replicate 15 0) rq = Inr (False, rq)"
proof -
  obtain h t' where pk: "author_req_pak ad m pl at sv us po av t = Inr (h, req_body m pl at sv us po ad av, t')"
    and h: "h_type h = TAC_PLUS_AUTHOR"
      "h_datalength h = word_of_nat (8 + length av + length us + length po + length ad + length (concat av))"
    using author_req_pak_body[OF assms(6,1,7)] by blast
  let ?p = "req_body m pl at sv us po ad av @ replicate 15 0"
  let ?k = "length (filter (\<lambda>s. 128 \<le> length s) av)"
  let ?n = "8 + int (length av) + int (length us) + int (length po) + int (length ad) + int (length (concat av))"
  have idx: "unat (?p ! 4) = length us" "unat (?p ! 5) = length po" "unat (?p ! 6) = length ad"
    "unat (?p ! 7) = length av"
    using assms(3-6) by (simp_all add: req_body_def unat_byte_len)
  have ls: "sum_list (arg_lens 8 (length av) ?p) = int (length (concat av)) - 256 * int ?k"
    using sum_signed_lens[OF assms(1)] by (simp add: arg_lens_def req_body_def comp_def)
  have "filter (\<lambda>s. 128 \<le> length s) av \<noteq> []" using assms(2) by (auto simp: filter_empty_conv)
  then have "0 < ?k" by simp
  moreover have "?k < 256" using assms(3) length_filter_le[of "\<lambda>s. 128 \<le> length s" av] by linarith
  ultimately have "(word_of_int (?n - 256 * int ?k) :: 32 word) \<noteq> word_of_int ?n"
    by (intro word_of_int_differ) auto
  moreover have "h_datalength h = word_of_int ?n" using h(2) by simp
  ultimately have "h_datalength h \<noteq> word_of_int (?n - 256 * int ?k)" by metis
  then have "h_datalength h \<noteq> word_of_int (8 + int (length av) + int (length us) + int (length po) +
      int (length ad) + sum_list (arg_lens 8 (length av) ?p))"
    unfolding ls by (simp only: diff_conv_add_uminus add.assoc not_False_eq_True)
  moreover have "\<not> length ?p < 8 + length av" by (simp add: req_body_def)
  ultimately have "author_get_request h ?p rq = Inr (False, rq)"
    using h(1) unfolding author_get_request_def Let_def idx by simp
  with pk show ?thesis by blast
qed

lemma author_long_pair_refused_witness:
  "\<exists>h body t'. author_req_pak ''127.0.0.1'' 6 1 1 1 ''bob'' ''tty1'' [''service='' @ replicate 120 CHR ''x'']
      (new_TacacsPacket ''k'' ''p'' 3 9) = Inr (h, body, t') \<and>
    author_get_request h (body @ replicate 15 0) new_author_req = Inr (False, new_author_req)"
  by (rule author_long_pair_refused) simp_all

end
