(* ===== verification/TacAcct.thy ===== *)
theory TacAcct
  imports TacAuthor
begin

text \<open>
  TACACS+ accounting packets (\<^verbatim>\<open>src/Tacacs.cc\<close>, class \<^verbatim>\<open>TacacsServerAccounting\<close> and
  the accounting methods of \<^verbatim>\<open>TacacsClient\<close>): REQUEST and REPLY.
\<close>

abbreviation (input) ACCT_START :: int where "ACCT_START \<equiv> 2"
abbreviation (input) ACCT_STOP :: int where "ACCT_STOP \<equiv> 4"
abbreviation (input) ACCT_SUCCESS :: byte where "ACCT_SUCCESS \<equiv> 1"
abbreviation (input) IP_LEN :: nat where "IP_LEN \<equiv> 16"

record acct_req =
  ac_method :: int
  ac_priv_lvl :: int
  ac_authen_type :: int
  ac_authen_service :: int
  ac_user :: string
  ac_port :: string
  ac_rem_addr :: string
  ac_nas :: string
  ac_avpair :: "string list"

definition new_acct_req :: acct_req where
  "new_acct_req = \<lparr> ac_method = 0, ac_priv_lvl = 0, ac_authen_type = 0, ac_authen_service = 0,
     ac_user = [], ac_port = [], ac_rem_addr = [], ac_nas = [], ac_avpair = [] \<rparr>"

text \<open>The pairs go through \<^verbatim>\<open>str[128]\<close> into the list member, behind what it holds.\<close>

fun acct_args :: "string \<Rightarrow> nat \<Rightarrow> int list \<Rightarrow> string list cres" where
  "acct_args mem off [] = Inr []"
| "acct_args mem off (l # ls) =
     cbind (strncpy_z 128 mem off l) (\<lambda>s.
     cbind (acct_args mem (off + nat l) ls) (\<lambda>r. Inr (s # r)))"

text \<open>\<^verbatim>\<open>get_request\<close> into the zeroed arrays of 32, 32, 32 and 16 bytes of its caller. The three
texts are copied with no check of their length.\<close>

definition acct_get_request :: "HDR \<Rightarrow> byte list \<Rightarrow> string \<Rightarrow> acct_req \<Rightarrow> (int \<times> acct_req) cres" where
  "acct_get_request h p peer rq =
     (let mem = of_bytes p; user_len = unat (p ! 5); port_len = unat (p ! 6);
          rem_addr_len = unat (p ! 7); arg_cnt = unat (p ! 8);
          ls = arg_lens 9 arg_cnt p; u = 9 + arg_cnt; po = u + user_len; r = po + port_len;
          av = r + rem_addr_len
      in if h_type h \<noteq> TAC_PLUS_ACCT then Inr (0, rq)
         else if h_seq_no h \<noteq> 1 then Inr (0, rq)
         else let rq = rq \<lparr> ac_nas := take IP_LEN peer \<rparr>
         in if length p < u then Inl OutOfBounds
         else if h_datalength h \<noteq>
                word_of_int (9 + int arg_cnt + int user_len + int port_len + int rem_addr_len + sum_list ls)
         then Inr (0, rq)
         else cbind (strncpy_in USERNAME_LEN mem u (int user_len)) (\<lambda>user.
              cbind (strncpy_in PORT_LEN mem po (int port_len)) (\<lambda>port.
              cbind (strncpy_in REM_ADDR_LEN mem r (int rem_addr_len)) (\<lambda>rem_addr.
              cbind (acct_args mem av ls) (\<lambda>avpair.
              Inr (int (unat (p ! 0)), rq \<lparr> ac_method := int (unat (p ! 1)), ac_priv_lvl := int (unat (p ! 2)),
                 ac_authen_type := int (unat (p ! 3)), ac_authen_service := int (unat (p ! 4)),
                 ac_user := user, ac_port := port, ac_rem_addr := rem_addr,
                 ac_avpair := ac_avpair rq @ avpair \<rparr>))))))"

text \<open>The lengths of the reply are stored in host order.\<close>

definition acct_reply_pak :: "tacpkt \<Rightarrow> string \<Rightarrow> string \<Rightarrow> byte \<Rightarrow> (HDR \<times> byte list \<times> tacpkt) cres" where
  "acct_reply_pak t server_msg data status =
     (let t = t \<lparr> tp_seq_no := tp_seq_no t + 1 \<rparr>;
          h = \<lparr> h_version = TAC_PLUS_VER_0, h_type = TAC_PLUS_ACCT, h_seq_no = ucast (tp_seq_no t),
                h_encryption = TAC_PLUS_CLEAR, h_session_id = tp_session_id t,
                h_datalength = word_of_nat (5 + length server_msg + length data) \<rparr>;
          body = le16 (word_of_nat (length server_msg)) @ le16 (word_of_nat (length data)) @ [status] @
                 to_bytes server_msg @ to_bytes data
      in if (server_msg \<noteq> [] \<or> data \<noteq> []) \<and> 512 < 12 + length body + 1
         then Inl OutOfBounds else Inr (h, body, t))"

definition acct_send_reply :: "(byte list \<Rightarrow> byte list) \<Rightarrow> int \<Rightarrow> wr_ev list \<Rightarrow> tacpkt \<Rightarrow>
    string \<Rightarrow> string \<Rightarrow> byte \<Rightarrow> (bool \<times> byte list \<times> tacpkt) cres" where
  "acct_send_reply md5 now evs t server_msg data status =
     cbind (acct_reply_pak t server_msg data status) (\<lambda>(h, body, t').
       write_packet md5 now evs h body t')"

section \<open>Client side\<close>

text \<open>\<^verbatim>\<open>account_send_request\<close> never stores its argument \<open>flag\<close>: the flags byte stays 0.\<close>

definition acct_req_pak :: "string \<Rightarrow> int \<Rightarrow> byte \<Rightarrow> byte \<Rightarrow> byte \<Rightarrow> byte \<Rightarrow> string \<Rightarrow> string \<Rightarrow> string list \<Rightarrow>
    tacpkt \<Rightarrow> (HDR \<times> byte list \<times> tacpkt) cres" where
  "acct_req_pak our_addr flag method priv_lvl authen_type service user port avpair t =
     (let rem_addr = take 19 our_addr; av = map (take 255) avpair; i = length av;
          t = t \<lparr> tp_seq_no := tp_seq_no t + 1 \<rparr>;
          h = \<lparr> h_version = TAC_PLUS_VER_0, h_type = TAC_PLUS_ACCT, h_seq_no = ucast (tp_seq_no t),
                h_encryption = TAC_PLUS_CLEAR, h_session_id = tp_session_id t,
                h_datalength = word_of_nat (9 + i + length user + length port + length rem_addr +
                  length (concat av)) \<rparr>;
          body = [0, method, priv_lvl, authen_type, service, of_nat (length user), of_nat (length port),
                  of_nat (length rem_addr), of_nat i] @ map (\<lambda>s. of_nat (length s)) av @
                 to_bytes user @ to_bytes port @ to_bytes rem_addr @ to_bytes (concat av);
          term = (if user = [] \<and> port = [] \<and> rem_addr = [] \<and> av = [] then 0 else 1)
      in if 512 < 12 + length body + term then Inl OutOfBounds else Inr (h, body, t))"

definition account_send_request :: "(byte list \<Rightarrow> byte list) \<Rightarrow> int \<Rightarrow> wr_ev list \<Rightarrow> string \<Rightarrow> int \<Rightarrow> byte \<Rightarrow> byte \<Rightarrow>
    byte \<Rightarrow> byte \<Rightarrow> string \<Rightarrow> string \<Rightarrow> string list \<Rightarrow> tacpkt \<Rightarrow> (bool \<times> byte list \<times> tacpkt) cres" where
  "account_send_request md5 now evs our_addr flag method priv_lvl authen_type service user port avpair t =
     cbind (acct_req_pak our_addr flag method priv_lvl authen_type service user port avpair t)
       (\<lambda>(h, body, t'). write_packet md5 now evs h body t')"

text \<open>\<^verbatim>\<open>account_get_reply\<close> on a packet already read. Its errors are thrown as string literals
(\<^verbatim>\<open>const char*\<close>), its handler takes \<^verbatim>\<open>char*\<close>.\<close>

datatype 'a throws_text = Status 'a | UncaughtText

definition account_get_reply :: "HDR \<times> byte list \<Rightarrow> byte list \<Rightarrow> byte list \<Rightarrow>
    (int throws_text \<times> byte list \<times> byte list) cres" where
  "account_get_reply pk server_msg data =
     (let (h, pak) = pk; mem = of_bytes pak; mlen = unat (of_le16 (take 2 pak));
          dlen = unat (of_le16 (take 2 (drop 2 pak)))
      in if h_type h \<noteq> TAC_PLUS_ACCT \<or> h_seq_no h \<noteq> 2 \<or> h_datalength h \<noteq> word_of_nat (5 + mlen + dlen)
         then Inr (UncaughtText, server_msg, data)
         else cbind (bzero_ptr server_msg) (\<lambda>server_msg.
              cbind (strncpy_buf mem 5 mlen server_msg) (\<lambda>server_msg.
              cbind (bzero_ptr data) (\<lambda>data.
              cbind (strncpy_buf mem (5 + mlen) dlen data) (\<lambda>data.
              Inr (Status (int (unat (pak ! 4))), server_msg, data))))))"

section \<open>Lemmas\<close>

lemma acct_args_all:
  "off = length pre \<Longrightarrow> \<forall>s \<in> set av. length s < 128 \<and> nul_free s \<Longrightarrow>
   acct_args (pre @ concat av @ post) off (map (\<lambda>s. int (length s)) av) = Inr av"
proof (induction av arbitrary: off pre)
  case (Cons s av)
  have "strncpy_z 128 (pre @ s @ (concat av @ post)) (length pre) (int (length s)) = Inr s"
    using Cons.prems by (intro strncpy_z_field) auto
  moreover have "acct_args ((pre @ s) @ concat av @ post) (length (pre @ s))
      (map (\<lambda>s. int (length s)) av) = Inr av"
    using Cons.prems by (intro Cons.IH) auto
  ultimately show ?case using Cons.prems by simp
qed simp

definition acct_body :: "byte \<Rightarrow> byte \<Rightarrow> byte \<Rightarrow> byte \<Rightarrow> byte \<Rightarrow> string \<Rightarrow> string \<Rightarrow> string \<Rightarrow> string list \<Rightarrow> byte list" where
  "acct_body fl m pl at sv us po ad av =
     [fl, m, pl, at, sv, of_nat (length us), of_nat (length po), of_nat (length ad), of_nat (length av)] @
     map (\<lambda>s. of_nat (length s)) av @ to_bytes us @ to_bytes po @ to_bytes ad @ to_bytes (concat av)"

lemma acct_get_request_body:
  assumes "nul_free us" "nul_free po" "nul_free ad" "length us \<le> 32" "length po \<le> 32" "length ad \<le> 32"
    and "\<forall>s \<in> set av. length s < 128 \<and> nul_free s" "length av < 256"
    and "h_type h = TAC_PLUS_ACCT" "h_seq_no h = 1"
    and "h_datalength h = word_of_nat (9 + length av + length us + length po + length ad + length (concat av))"
  shows "acct_get_request h (acct_body fl m pl at sv us po ad av @ replicate 15 0) peer rq =
    Inr (int (unat fl), rq \<lparr> ac_nas := take IP_LEN peer, ac_method := int (unat m), ac_priv_lvl := int (unat pl),
      ac_authen_type := int (unat at), ac_authen_service := int (unat sv), ac_user := us, ac_port := po,
      ac_rem_addr := ad, ac_avpair := ac_avpair rq @ av \<rparr>)"
proof -
  define f where "f = [fl, m, pl, at, sv, of_nat (length us), of_nat (length po), of_nat (length ad), of_nat (length av) :: byte]"
  define L where "L = map (\<lambda>s. word_of_nat (length s) :: byte) av"
  let ?p = "acct_body fl m pl at sv us po ad av @ replicate 15 0" and ?z = "of_bytes (replicate 15 0)"
  have p: "?p = f @ L @ to_bytes us @ to_bytes po @ to_bytes ad @ to_bytes (concat av) @ replicate 15 0"
    by (simp add: acct_body_def f_def L_def)
  have idx: "?p ! 0 = fl" "?p ! 1 = m" "?p ! 2 = pl" "?p ! 3 = at" "?p ! 4 = sv" "unat (?p ! 5) = length us"
    "unat (?p ! 6) = length po" "unat (?p ! 7) = length ad" "unat (?p ! 8) = length av"
    using assms(4-6,8) by (simp_all add: acct_body_def unat_byte_len)
  have ls: "arg_lens 9 (length av) ?p = map (\<lambda>s. int (length s)) av"
    unfolding p L_def using assms(7) by (intro arg_lens_map) (auto simp: f_def)
  have pre: "length (of_bytes (f @ L)) = 9 + length av" by (simp add: f_def L_def)
  have mem: "of_bytes ?p = of_bytes (f @ L) @ us @ po @ ad @ concat av @ ?z" unfolding p by simp
  have f1: "strncpy_in 32 (of_bytes ?p) (9 + length av) (int (length us)) = Inr us"
    using strncpy_in_field[OF assms(1,4), of "of_bytes (f @ L)" "po @ ad @ concat av @ ?z"]
    unfolding mem pre .
  have f2: "strncpy_in 32 (of_bytes ?p) (9 + length av + length us) (int (length po)) = Inr po"
    using strncpy_in_field[OF assms(2,5), of "of_bytes (f @ L) @ us" "ad @ concat av @ ?z"]
    unfolding mem unfolding length_append[of "of_bytes (f @ L)"] pre append_assoc .
  have f3: "strncpy_in 32 (of_bytes ?p) (9 + length av + length us + length po) (int (length ad)) = Inr ad"
    using strncpy_in_field[OF assms(3,6), of "(of_bytes (f @ L) @ us) @ po" "concat av @ ?z"]
    unfolding mem unfolding append_assoc length_append[of "of_bytes (f @ L)"] pre
    unfolding length_append add.assoc .
  have f4: "acct_args (of_bytes ?p) (9 + length av + length us + length po + length ad)
      (map (\<lambda>s. int (length s)) av) = Inr av"
  proof -
    have "9 + length av + length us + length po + length ad = length (of_bytes (f @ L) @ us @ po @ ad)"
      by (simp add: f_def L_def)
    from acct_args_all[OF this assms(7), of ?z] show ?thesis unfolding mem by simp
  qed
  have dl: "h_datalength h = word_of_int (9 + int (length av) + int (length us) + int (length po) +
      int (length ad) + sum_list (map (\<lambda>s. int (length s)) av))"
    unfolding assms(11) sum_list_lens by simp
  have len: "\<not> length ?p < 9 + length av" unfolding p by (simp add: f_def L_def)
  show ?thesis
    unfolding acct_get_request_def Let_def idx ls f1 f2 f3 f4 cbind_simps
    using assms(9,10) dl len by simp
qed

lemma acct_req_pak_body:
  assumes "length ad < 20" "\<forall>s \<in> set av. length s < 256"
    and "length us + length po + length ad + length av + length (concat av) \<le> 490"
  shows "\<exists>h t'. acct_req_pak ad flag m pl at sv us po av t = Inr (h, acct_body 0 m pl at sv us po ad av, t') \<and>
    h_type h = TAC_PLUS_ACCT \<and> h_seq_no h = ucast (tp_seq_no t + 1) \<and>
    h_datalength h = word_of_nat (9 + length av + length us + length po + length ad + length (concat av))"
proof -
  have av: "map (take 255) av = av" using assms(2) by (intro map_idI) auto
  have ad: "take 19 ad = ad" using assms(1) by simp
  show ?thesis
    using assms(3) unfolding acct_req_pak_def Let_def av ad
    by (simp add: acct_body_def add.assoc)
qed

section \<open>Properties\<close>

text \<open>An accounting request of the client reaches the server with every text and pair intact, but
the client never stores the flag it is given, so the server sees flag 0, which is its own value
for an error: no accounting request of this client is ever recorded.\<close>

lemma acct_client_flag_lost:
  assumes "nul_free us" "nul_free po" "nul_free ad" "length us \<le> 32" "length po \<le> 32" "length ad < 20"
    and "\<forall>s \<in> set av. length s < 128 \<and> nul_free s" "length av < 256" "tp_seq_no t = 0"
    and "length us + length po + length ad + length av + length (concat av) \<le> 490"
  shows "\<exists>h body t' rq'. acct_req_pak ad flag m pl at sv us po av t = Inr (h, body, t') \<and>
    acct_get_request h (body @ replicate 15 0) peer new_acct_req = Inr (0, rq') \<and>
    ac_user rq' = us \<and> ac_port rq' = po \<and> ac_rem_addr rq' = ad \<and> ac_avpair rq' = av"
proof -
  obtain h t' where pk: "acct_req_pak ad flag m pl at sv us po av t = Inr (h, acct_body 0 m pl at sv us po ad av, t')"
    and h: "h_type h = TAC_PLUS_ACCT" "h_seq_no h = ucast (tp_seq_no t + 1)"
      "h_datalength h = word_of_nat (9 + length av + length us + length po + length ad + length (concat av))"
    using acct_req_pak_body[OF assms(6) _ assms(10), of flag m pl at sv t] assms(7) by fastforce
  have "length ad \<le> 32" using assms(6) by simp
  moreover have "h_seq_no h = 1" using h(2) assms(9) by simp
  ultimately show ?thesis
    using pk acct_get_request_body[OF assms(1-5) _ assms(7,8) h(1) _ h(3), of 0 m pl at sv peer new_acct_req]
    by (auto simp: new_acct_req_def)
qed

lemma acct_client_flag_lost_witness:
  "\<exists>h body t' rq'. acct_req_pak ''127.0.0.1'' 2 6 1 1 1 ''bob'' ''tty1'' [''task_id=1'']
      (new_TacacsPacket ''k'' ''p'' 3 9) = Inr (h, body, t') \<and>
    acct_get_request h (body @ replicate 15 0) ''10.0.0.1'' new_acct_req = Inr (0, rq') \<and>
    ac_user rq' = ''bob'' \<and> ac_port rq' = ''tty1'' \<and> ac_rem_addr rq' = ''127.0.0.1'' \<and> ac_avpair rq' = [''task_id=1'']"
proof -
  let ?t = "new_TacacsPacket ''k'' ''p'' 3 9"
  have t: "tp_seq_no ?t = 0" by (simp add: new_TacacsPacket_def)
  have p: "nul_free ''bob''" "nul_free ''tty1''" "nul_free ''127.0.0.1''" "length ''bob'' \<le> 32"
    "length ''tty1'' \<le> 32" "length ''127.0.0.1'' < 20"
    "\<forall>s \<in> set [''task_id=1'']. length s < 128 \<and> nul_free s" "length [''task_id=1''] < 256"
    "length ''bob'' + length ''tty1'' + length ''127.0.0.1'' + length [''task_id=1''] + length (concat [''task_id=1'']) \<le> 490"
    by simp_all
  show ?thesis by (rule acct_client_flag_lost[OF p(1-8) t p(9)])
qed

text \<open>The accounting reply of the server is the one the client reads: the status comes back
and both texts stand at the start of its arrays.\<close>

lemma acct_reply_roundtrip:
  assumes "nul_free msg" "nul_free data" "length msg \<le> length sbuf" "length data \<le> length dbuf"
    and "8 \<le> length sbuf" "8 \<le> length dbuf" "length msg + length data \<le> 490" "tp_seq_no t = 1"
  shows "\<exists>h m t' sbuf' dbuf'. acct_reply_pak t msg data status = Inr (h, m, t') \<and>
    account_get_reply (h, m @ replicate 3 0) sbuf dbuf = Inr (Status (int (unat status)), sbuf', dbuf') \<and>
    take (length msg) sbuf' = to_bytes msg \<and> take (length data) dbuf' = to_bytes data"
proof -
  let ?f = "le16 (word_of_nat (length msg)) @ le16 (word_of_nat (length data)) @ [status]"
  let ?m = "?f @ to_bytes msg @ to_bytes data"
  have len: "unat (word_of_nat (length msg) :: 16 word) = length msg"
    "unat (word_of_nat (length data) :: 16 word) = length data"
    using assms(7) by (simp_all add: unsigned_of_nat take_bit_nat_eq_self)
  have lf: "length (of_bytes ?f) = 5" by simp
  have mem: "of_bytes (?m @ replicate 3 0) = of_bytes ?f @ msg @ data @ of_bytes (replicate 3 0)"
    by (simp add: of_bytes_def to_bytes_def map_idI)
  define s1 d1 where "s1 = replicate 8 (0::byte) @ drop 8 sbuf" and "d1 = replicate 8 (0::byte) @ drop 8 dbuf"
  have ls: "length s1 = length sbuf" "length d1 = length dbuf" using assms(5,6) by (simp_all add: s1_def d1_def)
  have b: "bzero_ptr sbuf = Inr s1" "bzero_ptr dbuf = Inr d1"
    using assms(5,6) by (simp_all add: bzero_ptr_def mem_write_def s1_def d1_def)
  have c1: "strncpy_buf (of_bytes (?m @ replicate 3 0)) 5 (length msg) s1 = Inr (to_bytes msg @ drop (length msg) s1)"
    using strncpy_in_field[OF assms(1), of "length s1" "of_bytes ?f" "data @ of_bytes (replicate 3 0)"]
      assms(3) ls(1) unfolding mem lf by (simp add: strncpy_buf_def strncpy_w_def mem_write_def)
  have c2: "strncpy_buf (of_bytes (?m @ replicate 3 0)) (5 + length msg) (length data) d1 = Inr (to_bytes data @ drop (length data) d1)"
    using strncpy_in_field[OF assms(2), of "length d1" "of_bytes ?f @ msg" "of_bytes (replicate 3 0)"]
      assms(4) ls(2) unfolding mem unfolding length_append lf append_assoc strncpy_buf_def
    by (simp add: strncpy_w_def mem_write_def)
  have g: "take 2 (?m @ replicate 3 0) = le16 (word_of_nat (length msg))"
    "take 2 (drop 2 (?m @ replicate 3 0)) = le16 (word_of_nat (length data))"
    "(?m @ replicate 3 0) ! 4 = status"
    by (simp_all add: nth_append)
  obtain h t' where pk: "acct_reply_pak t msg data status = Inr (h, ?m, t')"
    and h: "h_datalength h = word_of_nat (5 + length msg + length data)" "h_type h = TAC_PLUS_ACCT"
      "h_seq_no h = 2"
    using assms(7,8) by (simp add: acct_reply_pak_def Let_def)
  have "account_get_reply (h, ?m @ replicate 3 0) sbuf dbuf = Inr (Status (int (unat status)),
      to_bytes msg @ drop (length msg) s1, to_bytes data @ drop (length data) d1)"
    unfolding account_get_reply_def prod.case Let_def g of_le16_le16 len b cbind_simps c1 c2
    using h by simp
  with pk show ?thesis by fastforce
qed

lemma acct_reply_roundtrip_witness:
  "\<exists>h m t' s d. acct_reply_pak ((new_TacacsPacket ''k'' ''p'' 3 9) \<lparr> tp_seq_no := 1 \<rparr>) ''ok'' [] 1 = Inr (h, m, t') \<and>
    account_get_reply (h, m @ replicate 3 0) (replicate 64 0) (replicate 64 0) = Inr (Status (int (unat (1 :: byte))), s, d) \<and>
    take (length ''ok'') s = to_bytes ''ok'' \<and> take (length ([] :: string)) d = to_bytes []"
  by (rule acct_reply_roundtrip) simp_all

end
