(* ===== verification/UserDb.thy ===== *)
theory UserDb
  imports CString
begin

text \<open>
  What the database knows of a user (\<^verbatim>\<open>src/TacDb.cc\<close>, classes \<^verbatim>\<open>user_avp\<close>,
  \<^verbatim>\<open>cmd_avp\<close>, \<^verbatim>\<open>db_user_acc\<close>, \<^verbatim>\<open>db_bilres\<close> and \<^verbatim>\<open>db_user\<close>): the
  members, the comparisons and the lists with their operations by position. The getters and setters
  are the selectors and updates of the records; the mutexes are left out.
\<close>

record user_avp =
  service :: string
  protocol :: string
  avp :: string

definition no_avp :: user_avp where
  "no_avp = \<lparr> service = [], protocol = [], avp = [] \<rparr>"

definition compareService :: "user_avp \<Rightarrow> string \<Rightarrow> bool" where
  "compareService a s = (service a = s)"

definition compareProtocol :: "user_avp \<Rightarrow> string \<Rightarrow> bool" where
  "compareProtocol a s = (protocol a = s)"

record cmd_avp =
  cmdperm :: string
  cmddeny :: string
  argperm :: string
  argdeny :: string

record db_user_acc =
  acc_phone :: string
  acc_nas :: string
  acc_port :: string
  acc_time :: string

record db_bilres =
  attribute :: string
  bil_value :: string

record db_user =
  du_username :: string
  du_authsrc :: string
  du_password :: string
  du_enable :: string
  du_open :: int
  du_close :: int
  du_avpid :: string
  du_accid :: string
  du_addid :: string
  du_bilid :: string
  du_bilmodid :: int
  du_avp :: "user_avp list"
  du_cmd :: "cmd_avp list"
  du_acc :: "db_user_acc list"
  du_bilres :: "db_bilres list"
  du_result :: bool
  du_connect :: bool
  du_result_msg :: string
  du_maxsess :: int

definition new_db_user :: db_user where
  "new_db_user = \<lparr> du_username = [], du_authsrc = [], du_password = [], du_enable = [], du_open = 0,
     du_close = 0, du_avpid = [], du_accid = [], du_addid = [], du_bilid = [], du_bilmodid = 0,
     du_avp = [], du_cmd = [], du_acc = [], du_bilres = [], du_result = False, du_connect = False,
     du_result_msg = [], du_maxsess = 0 \<rparr>"

text \<open>Two users are equal when their names are.\<close>

definition db_user_eq :: "db_user \<Rightarrow> db_user \<Rightarrow> bool" where
  "db_user_eq a b = (du_username a = du_username b)"

definition avp_add :: "user_avp \<Rightarrow> db_user \<Rightarrow> db_user" where
  "avp_add a d = d \<lparr> du_avp := du_avp d @ [a] \<rparr>"

text \<open>A position outside the list yields an empty element.\<close>

definition avp_get :: "db_user \<Rightarrow> nat \<Rightarrow> user_avp" where
  "avp_get d s = (if s < length (du_avp d) then du_avp d ! s else no_avp)"

text \<open>\<^verbatim>\<open>avp_set\<close> erases the element at the position and appends the new one.\<close>

definition avp_set :: "nat \<Rightarrow> user_avp \<Rightarrow> db_user \<Rightarrow> db_user" where
  "avp_set s a d = d \<lparr> du_avp := take s (du_avp d) @ drop (Suc s) (du_avp d) @ [a] \<rparr>"

definition cmd_add :: "cmd_avp \<Rightarrow> db_user \<Rightarrow> db_user" where
  "cmd_add a d = d \<lparr> du_cmd := du_cmd d @ [a] \<rparr>"

definition acc_add :: "db_user_acc \<Rightarrow> db_user \<Rightarrow> db_user" where
  "acc_add a d = d \<lparr> du_acc := du_acc d @ [a] \<rparr>"

definition bilres_add :: "db_bilres \<Rightarrow> db_user \<Rightarrow> db_user" where
  "bilres_add a d = d \<lparr> du_bilres := du_bilres d @ [a] \<rparr>"

lemma length_avp_set: "s < length (du_avp d) \<Longrightarrow> length (du_avp (avp_set s a d)) = length (du_avp d)"
  by (simp add: avp_set_def)

lemma avp_get_set_last:
  "s < length (du_avp d) \<Longrightarrow> avp_get (avp_set s a d) (length (du_avp d) - 1) = a"
  by (simp add: avp_get_def avp_set_def nth_append)

end
