(* ===== verification/AuthorAlg.thy ===== *)
theory AuthorAlg
  imports TacAuthor UserDb
begin

text \<open>
  The authorization branch of \<^verbatim>\<open>TacacsSessionContainer::process\<close> (\<^verbatim>\<open>src/Tacacs.cc\<close>):
  from the request's pairs and the user's database entry to the reply. Regular expressions
  (\<^verbatim>\<open>regcomp\<close>, \<^verbatim>\<open>regexec\<close>) are the argument \<open>rx\<close>: \<open>None\<close> where the pattern does not
  compile, else whether it matches. The arrays of reply pairs have \<^verbatim>\<open>MAX_AVP\<close> entries, the null
  pointer included.
\<close>


section \<open>Commands\<close>

text \<open>One row of the command table: a permit pattern that matches sets the first flag, a deny
pattern that matches clears the second. Empty patterns are skipped.\<close>

definition cmd_row :: "regex \<Rightarrow> string \<Rightarrow> string \<Rightarrow> string \<Rightarrow> bool \<times> bool \<Rightarrow> bool \<times> bool" where
  "cmd_row rx v perm deny fl =
     (let (perm_fl, deny_fl) = fl;
          perm_fl = (if perm \<noteq> [] \<and> rx perm v = Some True then True else perm_fl);
          deny_fl = (if deny \<noteq> [] \<and> rx deny v = Some True then False else deny_fl)
      in (perm_fl, deny_fl))"

definition check_cmd :: "regex \<Rightarrow> db_user \<Rightarrow> string \<Rightarrow> bool" where
  "check_cmd rx d nas_avp =
     (let (flag1, flag2) = fold (\<lambda>c. cmd_row rx (get_value nas_avp) (cmdperm c) (cmddeny c)) (du_cmd d)
                              (False, True)
      in flag2 \<and> flag1)"

definition check_cmd_arg :: "regex \<Rightarrow> db_user \<Rightarrow> string \<Rightarrow> bool" where
  "check_cmd_arg rx d nas_avp =
     (if nas_avp = ''cmd-arg=<cr>'' then True
      else let (flag3, flag4) = fold (\<lambda>c. cmd_row rx (get_value nas_avp) (argperm c) (argdeny c)) (du_cmd d)
                                   (False, True)
           in flag4 \<and> flag3)"

section \<open>One pair from the device\<close>

record reply_st =
  bavpair :: "string list"
  added :: nat
  replaced :: nat

definition push :: "string \<Rightarrow> reply_st \<Rightarrow> reply_st cres" where
  "push s b = (if Suc (length (bavpair b)) < MAX_AVP then Inr (b \<lparr> bavpair := bavpair b @ [s] \<rparr>)
               else Inl OutOfBounds)"

definition push_repl :: "string \<Rightarrow> reply_st \<Rightarrow> reply_st cres" where
  "push_repl s b = cbind (push s b) (\<lambda>b. Inr (b \<lparr> replaced := Suc (replaced b) \<rparr>))"

text \<open>\<open>Inr None\<close> is \<^verbatim>\<open>throw 1\<close>, the answer FAIL. Cases a to j of the source.\<close>

definition nas_mandatory :: "bool \<Rightarrow> db_user \<Rightarrow> string \<Rightarrow> reply_st \<Rightarrow> reply_st option cres" where
  "nas_mandatory authoriz d s b =
     (if \<exists>a \<in> set (du_avp d). avp a = s \<or> match_attr (avp a) s \<and> optional (avp a)
      then cbind (push s b) (\<lambda>b. Inr (Some b))
      else if \<not> authoriz then Inr None
      else cbind (push s b) (\<lambda>b. Inr (Some b)))"

definition nas_optional :: "bool \<Rightarrow> db_user \<Rightarrow> string \<Rightarrow> reply_st \<Rightarrow> reply_st cres" where
  "nas_optional authoriz d s b =
     (if \<exists>a \<in> set (du_avp d). s = avp a then push s b
      else case find (\<lambda>a. mandatory (avp a) \<and> match_attr s (avp a)) (du_avp d) of
        Some a \<Rightarrow> push_repl (avp a) b
      | None \<Rightarrow>
        (case find (\<lambda>a. \<not> mandatory (avp a) \<and> match_attr s (avp a) \<and> match_value s (avp a)) (du_avp d) of
           Some a \<Rightarrow> push_repl (avp a) b
         | None \<Rightarrow>
           (case find (\<lambda>a. \<not> mandatory (avp a) \<and> match_attr s (avp a)) (du_avp d) of
              Some a \<Rightarrow> push_repl (avp a) b
            | None \<Rightarrow> if \<not> authoriz then Inr (b \<lparr> replaced := Suc (replaced b) \<rparr>)
                      else push_repl s b)))"

definition nas_pair :: "regex \<Rightarrow> bool \<Rightarrow> db_user \<Rightarrow> string \<Rightarrow> reply_st \<Rightarrow> reply_st option cres" where
  "nas_pair rx authoriz d s b =
     (if s = [] then Inr (Some b)
      else if match_attr s ''cmd='' then (if check_cmd rx d s then Inr (Some b) else Inr None)
      else if match_attr s ''cmd-arg='' then (if check_cmd_arg rx d s then Inr (Some b) else Inr None)
      else if mandatory s then nas_mandatory authoriz d s b
      else cbind (nas_optional authoriz d s b) (\<lambda>b. Inr (Some b)))"

fun nas_pairs :: "regex \<Rightarrow> bool \<Rightarrow> db_user \<Rightarrow> string list \<Rightarrow> reply_st \<Rightarrow> reply_st option cres" where
  "nas_pairs rx authoriz d [] b = Inr (Some b)"
| "nas_pairs rx authoriz d (s # ss) b =
     cbind (nas_pair rx authoriz d s b) (\<lambda>r. case r of None \<Rightarrow> Inr None
       | Some b' \<Rightarrow> nas_pairs rx authoriz d ss b')"

section \<open>Pairs the database adds\<close>

fun add_db :: "string \<Rightarrow> string \<Rightarrow> user_avp list \<Rightarrow> reply_st \<Rightarrow> reply_st cres" where
  "add_db sv pr [] b = Inr b"
| "add_db sv pr (a # as) b =
     (if \<not> compareService a sv \<or> \<not> compareProtocol a pr then add_db sv pr as b
      else if optional (avp a) then add_db sv pr as b
      else if \<exists>s \<in> set (bavpair b). match_attr (avp a) s then add_db sv pr as b
      else if avp a \<noteq> [] then
        cbind (push (avp a) b) (\<lambda>b. add_db sv pr as (b \<lparr> added := Suc (added b) \<rparr>))
      else add_db sv pr as b)"

text \<open>No service in the request: all pairs of the database that are not empty.\<close>

fun add_all :: "nat \<Rightarrow> user_avp list \<Rightarrow> string list \<Rightarrow> string list cres" where
  "add_all j [] acc = Inr acc"
| "add_all j (a # as) acc =
     (if MAX_AVP \<le> j then Inr acc
      else if avp a \<noteq> [] then (if Suc j < MAX_AVP then add_all (Suc j) as (acc @ [avp a]) else Inl OutOfBounds)
      else add_all j as acc)"

section \<open>The decision\<close>

datatype author_res = AFail | ARespond byte "string list"

definition search_service :: "string \<Rightarrow> db_user \<Rightarrow> bool" where
  "search_service sv d = (\<exists>a \<in> set (du_avp d). compareService a sv)"

definition finish :: "string list \<Rightarrow> reply_st \<Rightarrow> author_res" where
  "finish avpair b =
     (if 0 < replaced b then ARespond PASS_REPL (bavpair b)
      else if 0 < added b then ARespond PASS_ADD (filter (\<lambda>s. s \<noteq> []) (drop (length avpair) (bavpair b)))
      else ARespond PASS_ADD [])"

text \<open>Service, protocol, the pairs copied to the reply unseen and the pairs to review
(\<^verbatim>\<open>start_av\<close>).\<close>

definition request_parts :: "string \<Rightarrow> string list \<Rightarrow> string \<times> string \<times> string list \<times> string list" where
  "request_parts first rest =
     (case rest of
        p # ps \<Rightarrow> if scompn (Some p) (Some ''protocol='') 9 then (drop 8 first, drop 9 p, [first, p], ps)
                   else (drop 8 first, [], [first], rest)
      | [] \<Rightarrow> (drop 8 first, [], [first], []))"

definition author_decide :: "regex \<Rightarrow> bool \<Rightarrow> db_user \<Rightarrow> string list \<Rightarrow> author_res cres" where
  "author_decide rx authoriz d avpair =
     (if \<not> du_result d then Inr AFail
      else case avpair of
        [] \<Rightarrow> cbind (add_all 0 (du_avp d) []) (\<lambda>avps. Inr (ARespond PASS_ADD avps))
      | first # rest \<Rightarrow>
        if length first < 8 \<or> \<not> scompn (Some first) (Some ''service='') 8 then Inr AFail
        else case request_parts first rest of (sv, pr, head, args) \<Rightarrow>
          if \<not> search_service sv d then Inr AFail
          else cbind (nas_pairs rx authoriz d args \<lparr> bavpair = head, added = 0, replaced = 0 \<rparr>)
            (\<lambda>r. case r of None \<Rightarrow> Inr AFail
             | Some b1 \<Rightarrow> cbind (add_db sv pr (du_avp d) b1) (\<lambda>b2. Inr (finish avpair b2))))"

section \<open>The branch as a whole\<close>

text \<open>
  The object keeps its pointers after the handler has freed them. \<open>ao_dangling\<close>: one of
  \<^verbatim>\<open>curService\<close>, \<^verbatim>\<open>curProtocol\<close>, \<^verbatim>\<open>bavpair[0]\<close>, \<^verbatim>\<open>avpair[0]\<close>,
  \<^verbatim>\<open>avps[0]\<close> is not null and points to freed memory. The next run of the handler frees it
  again (or reads it before).
\<close>

record author_obj =
  ao_req :: author_req
  ao_dangling :: bool

definition new_author_obj :: author_obj where
  "new_author_obj = \<lparr> ao_req = new_author_req, ao_dangling = False \<rparr>"

definition author_process :: "regex \<Rightarrow> bool \<Rightarrow> (string \<Rightarrow> string \<Rightarrow> string \<Rightarrow> db_user) \<Rightarrow> HDR \<Rightarrow> byte list \<Rightarrow>
    author_obj \<Rightarrow> (author_res option \<times> author_obj) cres" where
  "author_process rx authoriz getdb h p ob =
     cbind (author_get_request h p (ao_req ob)) (\<lambda>(ok, rq).
     if ao_dangling ob then Inl DoubleFree
     else if \<not> ok then Inr (None, ob \<lparr> ao_req := rq \<rparr>)
     else
     let d = (if rq_user rq \<noteq> [] then getdb (rq_user rq) (rq_port rq) (rq_rem_addr rq)
              else getdb ''DEFAULT'' (rq_port rq) (rq_rem_addr rq))
     in cbind (author_decide rx authoriz d (rq_avpair rq)) (\<lambda>res.
        Inr (Some res, ob \<lparr> ao_req := rq,
          ao_dangling := (rq_avpair rq \<noteq> [] \<or> (case res of ARespond st avps \<Rightarrow> avps \<noteq> [] | AFail \<Rightarrow> False)) \<rparr>)))"

section \<open>Lemmas\<close>

lemma cmd_fold:
  "fold (\<lambda>c. cmd_row rx v (f c) (g c)) cs fl =
     (fst fl \<or> (\<exists>c \<in> set cs. f c \<noteq> [] \<and> rx (f c) v = Some True),
      snd fl \<and> \<not> (\<exists>c \<in> set cs. g c \<noteq> [] \<and> rx (g c) v = Some True))"
  by (induction cs arbitrary: fl) (auto simp: cmd_row_def split: if_splits)

lemma push_Inr [author_simps]:
  "(push s b = Inr b') = (Suc (length (bavpair b)) < 100 \<and> b' = b \<lparr> bavpair := bavpair b @ [s] \<rparr>)"
  by (auto simp: push_def)

lemma push_repl_Inr [author_simps]:
  "(push_repl s b = Inr b') = (Suc (length (bavpair b)) < 100 \<and>
     b' = b \<lparr> bavpair := bavpair b @ [s], replaced := Suc (replaced b) \<rparr>)"
  by (auto simp: push_repl_def push_Inr)

definition is_cmd :: "string \<Rightarrow> bool" where
  "is_cmd s = (match_attr s ''cmd='' \<or> match_attr s ''cmd-arg='')"

lemma nas_mandatory_Inr:
  "nas_mandatory authoriz d s b = Inr (Some b') \<Longrightarrow>
     (authoriz \<or> (\<exists>a \<in> set (du_avp d). avp a = s \<or> match_attr (avp a) s \<and> optional (avp a))) \<and>
     b' = b \<lparr> bavpair := bavpair b @ [s] \<rparr>"
  by (auto simp: nas_mandatory_def author_simps split: if_splits)

lemma nas_optional_Inr:
  "nas_optional authoriz d s b = Inr b' \<Longrightarrow> replaced b' = replaced b \<Longrightarrow> b' = b \<lparr> bavpair := bavpair b @ [s] \<rparr>"
  by (auto simp: nas_optional_def author_simps split: if_splits option.splits)

lemma nas_optional_mono:
  "nas_optional authoriz d s b = Inr b' \<Longrightarrow>
    (\<exists>r. bavpair b' = bavpair b @ r \<and> length r \<le> 1) \<and> replaced b \<le> replaced b' \<and> added b' = added b \<and>
    (length (bavpair b) < 100 \<longrightarrow> length (bavpair b') < 100)"
  by (auto simp: nas_optional_def author_simps split: if_splits option.splits)

text \<open>What one pair from the device must satisfy to get through.\<close>

definition pair_allowed :: "regex \<Rightarrow> bool \<Rightarrow> db_user \<Rightarrow> string \<Rightarrow> bool" where
  "pair_allowed rx authoriz d s =
     (s = [] \<or> match_attr s ''cmd='' \<and> check_cmd rx d s \<or>
      \<not> match_attr s ''cmd='' \<and> match_attr s ''cmd-arg='' \<and> check_cmd_arg rx d s \<or>
      \<not> is_cmd s \<and> (\<not> mandatory s \<or> authoriz \<or>
        (\<exists>a \<in> set (du_avp d). avp a = s \<or> match_attr (avp a) s \<and> optional (avp a))))"

lemma nas_pair_Inr:
  assumes "nas_pair rx authoriz d s b = Inr (Some b')"
  shows "pair_allowed rx authoriz d s \<and> (\<exists>r. bavpair b' = bavpair b @ r) \<and>
    replaced b \<le> replaced b' \<and> added b' = added b \<and> (length (bavpair b) < 100 \<longrightarrow> length (bavpair b') < 100) \<and>
    (replaced b' = replaced b \<longrightarrow> bavpair b' = bavpair b @ (if s = [] \<or> is_cmd s then [] else [s]))"
proof (cases "s = [] \<or> is_cmd s")
  case True
  with assms show ?thesis
    by (auto simp: nas_pair_def is_cmd_def pair_allowed_def split: if_splits)
next
  case False
  show ?thesis
  proof (cases "mandatory s")
    case True
    with assms False have m: "nas_mandatory authoriz d s b = Inr (Some b')"
      by (auto simp: nas_pair_def is_cmd_def)
    then have "Suc (length (bavpair b)) < 100"
      by (auto simp: nas_mandatory_def author_simps split: if_splits)
    with nas_mandatory_Inr[OF m] False show ?thesis by (auto simp: pair_allowed_def)
  next
    case opt: False
    with assms False have m: "nas_optional authoriz d s b = Inr b'"
      by (auto simp: nas_pair_def is_cmd_def)
    with nas_optional_mono[OF m] nas_optional_Inr[OF m] False opt show ?thesis
      by (auto simp: pair_allowed_def)
  qed
qed

lemma nas_pairs_Inr:
  assumes "nas_pairs rx authoriz d ss b = Inr (Some b')"
  shows "(\<forall>s \<in> set ss. pair_allowed rx authoriz d s) \<and> (\<exists>r. bavpair b' = bavpair b @ r) \<and>
    replaced b \<le> replaced b' \<and> added b' = added b \<and> (length (bavpair b) < 100 \<longrightarrow> length (bavpair b') < 100) \<and>
    (replaced b' = replaced b \<longrightarrow> bavpair b' = bavpair b @ filter (\<lambda>s. \<not> (s = [] \<or> is_cmd s)) ss)"
  using assms
proof (induction ss arbitrary: b)
  case (Cons s ss)
  then obtain b1 where b1: "nas_pair rx authoriz d s b = Inr (Some b1)"
    "nas_pairs rx authoriz d ss b1 = Inr (Some b')"
    by (auto split: option.splits)
  from nas_pair_Inr[OF b1(1)] Cons.IH[OF b1(2)] show ?case by auto
qed simp

lemma add_db_Inr:
  assumes "add_db sv pr as b = Inr b'"
  shows "(\<exists>r. bavpair b' = bavpair b @ r \<and> length r = added b' - added b \<and> set r \<subseteq> avp ` set as \<and> [] \<notin> set r) \<and>
    replaced b' = replaced b \<and> added b \<le> added b' \<and> (length (bavpair b) < 100 \<longrightarrow> length (bavpair b') < 100) \<and>
    (\<forall>a \<in> set as. service a = sv \<and> protocol a = pr \<and> \<not> optional (avp a) \<and> avp a \<noteq> [] \<longrightarrow>
       (\<exists>s \<in> set (bavpair b'). match_attr (avp a) s \<or> s = avp a))"
  using assms
proof (induction sv pr as b rule: add_db.induct)
  case (2 sv pr a as b)
  show ?case
  proof (cases "compareService a sv \<and> compareProtocol a pr \<and> \<not> optional (avp a) \<and>
      \<not> (\<exists>s \<in> set (bavpair b). match_attr (avp a) s) \<and> avp a \<noteq> []")
    case True
    let ?b1 = "b \<lparr> bavpair := bavpair b @ [avp a], added := Suc (added b) \<rparr>"
    from True "2.prems" have lt: "Suc (length (bavpair b)) < 100" and rec: "add_db sv pr as ?b1 = Inr b'"
      by (auto simp: push_def split: if_splits)
    from True rec lt have p: "push (avp a) b = Inr (b \<lparr> bavpair := bavpair b @ [avp a] \<rparr>)" by (simp add: push_Inr)
    have "add_db sv pr as ((b \<lparr> bavpair := bavpair b @ [avp a] \<rparr>) \<lparr> added := Suc (added (b \<lparr> bavpair := bavpair b @ [avp a] \<rparr>)) \<rparr>) = Inr b'"
      using rec by simp
    note ih = "2.IH"(4)[OF _ _ _ _ this]
    from ih True show ?thesis using lt by (auto simp: Suc_diff_le)
  next
    case False
    with "2.prems" have rec: "add_db sv pr as b = Inr b'" by (auto split: if_splits)
    have ih: "(\<exists>r. bavpair b' = bavpair b @ r \<and> length r = added b' - added b \<and> set r \<subseteq> avp ` set as \<and> [] \<notin> set r) \<and>
      replaced b' = replaced b \<and> added b \<le> added b' \<and> (length (bavpair b) < 100 \<longrightarrow> length (bavpair b') < 100) \<and>
      (\<forall>a \<in> set as. service a = sv \<and> protocol a = pr \<and> \<not> optional (avp a) \<and> avp a \<noteq> [] \<longrightarrow>
       (\<exists>s \<in> set (bavpair b'). match_attr (avp a) s \<or> s = avp a))"
      using "2.IH" rec False by blast
    then obtain r where "bavpair b' = bavpair b @ r" by blast
    with ih False show ?thesis by (fastforce simp: compareService_def compareProtocol_def)
  qed
qed simp

text \<open>A request that was answered with anything but FAIL, in parts.\<close>

lemma request_parts_join: "request_parts first rest = (sv, pr, head, args) \<Longrightarrow>
    first # rest = head @ args \<and> 1 \<le> length head \<and> length head \<le> 2"
  by (auto simp: request_parts_def split: list.splits if_splits)

lemma author_decide_respond:
  assumes "author_decide rx authoriz d (first # rest) = Inr (ARespond st avps)"
  obtains sv pr head args b1 b2 where "du_result d" "prefixed first ''service=''"
    "request_parts first rest = (sv, pr, head, args)" "search_service sv d"
    "nas_pairs rx authoriz d args \<lparr> bavpair = head, added = 0, replaced = 0 \<rparr> = Inr (Some b1)"
    "add_db sv pr (du_avp d) b1 = Inr b2" "finish (first # rest) b2 = ARespond st avps"
proof -
  obtain sv pr head args where p: "request_parts first rest = (sv, pr, head, args)"
    by (metis prod_cases4)
  with assms that show thesis
    by (auto simp: author_decide_def prefixed_def split: if_splits option.splits)
qed

text \<open>With a device that denies by default: the pairs a review appends to the reply come from the
database or were let through as mandatory pairs; a review that replaced nothing met no optional pair
the database does not hold.\<close>

definition db_lets :: "db_user \<Rightarrow> string \<Rightarrow> bool" where
  "db_lets d s = (\<exists>a \<in> set (du_avp d). avp a = s \<or> match_attr (avp a) s \<and> optional (avp a))"

lemma nas_optional_deny:
  "nas_optional False d s b = Inr b' \<Longrightarrow>
    (\<exists>r. bavpair b' = bavpair b @ r \<and> set r \<subseteq> avp ` set (du_avp d)) \<and>
    (replaced b' = replaced b \<longrightarrow> s \<in> avp ` set (du_avp d))"
  by (auto simp: nas_optional_def author_simps find_Some_iff dest: nth_mem split: if_splits option.splits)

lemma nas_pair_deny:
  assumes "nas_pair rx False d s b = Inr (Some b')"
  shows "(\<exists>r. bavpair b' = bavpair b @ r \<and>
      set r \<subseteq> avp ` set (du_avp d) \<union> (if mandatory s \<and> db_lets d s then {s} else {})) \<and>
    (replaced b' = replaced b \<longrightarrow> s \<noteq> [] \<and> \<not> is_cmd s \<and> \<not> mandatory s \<longrightarrow> s \<in> avp ` set (du_avp d))"
proof (cases "s = [] \<or> is_cmd s")
  case True
  with assms show ?thesis by (auto simp: nas_pair_def is_cmd_def split: if_splits)
next
  case False
  show ?thesis
  proof (cases "mandatory s")
    case True
    with assms False have "nas_mandatory False d s b = Inr (Some b')"
      by (auto simp: nas_pair_def is_cmd_def)
    with nas_mandatory_Inr[OF this] True show ?thesis by (auto simp: db_lets_def)
  next
    case opt: False
    with assms False have "nas_optional False d s b = Inr b'"
      by (auto simp: nas_pair_def is_cmd_def)
    from nas_optional_deny[OF this] opt show ?thesis by auto
  qed
qed

lemma nas_pairs_deny:
  assumes "nas_pairs rx False d ss b = Inr (Some b')"
  shows "(\<exists>r. bavpair b' = bavpair b @ r \<and>
      set r \<subseteq> avp ` set (du_avp d) \<union> {s \<in> set ss. mandatory s \<and> db_lets d s}) \<and>
    (replaced b' = replaced b \<longrightarrow>
      (\<forall>s \<in> set ss. s \<noteq> [] \<and> \<not> is_cmd s \<and> \<not> mandatory s \<longrightarrow> s \<in> avp ` set (du_avp d)))"
  using assms
proof (induction ss arbitrary: b)
  case (Cons s ss)
  then obtain b1 where b1: "nas_pair rx False d s b = Inr (Some b1)" "nas_pairs rx False d ss b1 = Inr (Some b')"
    by (auto split: option.splits)
  have mono: "replaced b \<le> replaced b1" "replaced b1 \<le> replaced b'"
    using nas_pair_Inr[OF b1(1)] nas_pairs_Inr[OF b1(2)] by blast+
  from nas_pair_deny[OF b1(1)] obtain r1 where r1: "bavpair b1 = bavpair b @ r1"
    "set r1 \<subseteq> avp ` set (du_avp d) \<union> (if mandatory s \<and> db_lets d s then {s} else {})" by blast
  from Cons.IH[OF b1(2)] obtain r2 where r2: "bavpair b' = bavpair b1 @ r2"
    "set r2 \<subseteq> avp ` set (du_avp d) \<union> {s \<in> set ss. mandatory s \<and> db_lets d s}" by blast
  have "bavpair b' = bavpair b @ (r1 @ r2)" using r1 r2 by simp
  moreover have "set (r1 @ r2) \<subseteq> avp ` set (du_avp d) \<union> {x \<in> set (s # ss). mandatory x \<and> db_lets d x}"
    using r1(2) r2(2) by (auto split: if_splits)
  moreover have "replaced b' = replaced b \<longrightarrow> replaced b1 = replaced b \<and> replaced b' = replaced b1"
    using mono by simp
  ultimately show ?case using nas_pair_deny[OF b1(1)] Cons.IH[OF b1(2)] by auto
qed simp

section \<open>Properties\<close>


definition demo_user :: db_user where
  "demo_user = new_db_user \<lparr> du_result := True,
     du_avp := [\<lparr> service = ''shell'', protocol = [], avp = ''priv-lvl=15'' \<rparr>],
     du_cmd := [\<lparr> cmdperm = ''show'', cmddeny = [], argperm = ''.*'', argdeny = [] \<rparr>] \<rparr>"


text \<open>C28: the command table denies first and permits only what it names: a command passes exactly
when some row's permit pattern matches it and no row's deny pattern does, whatever the order of
the rows; the same for arguments, where the carriage return always passes.\<close>

theorem cmd_table_deny_first:
  "check_cmd rx d s =
     ((\<exists>c \<in> set (du_cmd d). cmdperm c \<noteq> [] \<and> rx (cmdperm c) (get_value s) = Some True) \<and>
      \<not> (\<exists>c \<in> set (du_cmd d). cmddeny c \<noteq> [] \<and> rx (cmddeny c) (get_value s) = Some True)) \<and>
   check_cmd_arg rx d s =
     (s = ''cmd-arg=<cr>'' \<or>
      (\<exists>c \<in> set (du_cmd d). argperm c \<noteq> [] \<and> rx (argperm c) (get_value s) = Some True) \<and>
      \<not> (\<exists>c \<in> set (du_cmd d). argdeny c \<noteq> [] \<and> rx (argdeny c) (get_value s) = Some True))"
  by (auto simp: check_cmd_def check_cmd_arg_def cmd_fold)

text \<open>What the reply PASS_REPL carries: the request's own head unchanged, and for every mandatory
pair the database holds for the service and protocol either that pair or one with its attribute; it
never overflows the array of 100 pointers.\<close>

lemma author_replace_complete:
  assumes "author_decide rx authoriz d (first # rest) = Inr (ARespond PASS_REPL avps)"
    and "request_parts first rest = (sv, pr, head, args)"
  shows "length avps < MAX_AVP \<and> take (length head) avps = head \<and>
    (\<forall>a \<in> set (du_avp d). service a = sv \<and> protocol a = pr \<and> \<not> optional (avp a) \<and> avp a \<noteq> [] \<longrightarrow>
       (\<exists>s \<in> set avps. match_attr (avp a) s \<or> s = avp a))"
proof -
  from assms obtain b1 b2 where b: "nas_pairs rx authoriz d args \<lparr> bavpair = head, added = 0, replaced = 0 \<rparr> = Inr (Some b1)"
    "add_db sv pr (du_avp d) b1 = Inr b2" "finish (first # rest) b2 = ARespond PASS_REPL avps"
    by (elim author_decide_respond) auto
  have h: "length head < 100" using request_parts_join[OF assms(2)] by simp
  have avps: "avps = bavpair b2" using b(3) by (auto simp: finish_def split: if_splits)
  from nas_pairs_Inr[OF b(1)] obtain r1 where r1: "bavpair b1 = head @ r1" "length (bavpair b1) < 100"
    using h by auto
  from add_db_Inr[OF b(2)] obtain r2 where "bavpair b2 = bavpair b1 @ r2" by blast
  with r1 have "take (length head) (bavpair b2) = head" by simp
  with add_db_Inr[OF b(2)] r1(2) avps show ?thesis by auto
qed

lemma author_replace_complete_witness:
  "let d = demo_user \<lparr> du_avp := [\<lparr> service = ''ppp'', protocol = ''ip'', avp = ''addr=10.0.0.9'' \<rparr>] \<rparr>
   in author_decide (\<lambda>p s. None) False d [''service=ppp'', ''protocol=ip'', ''addr*''] =
       Inr (ARespond PASS_REPL [''service=ppp'', ''protocol=ip'', ''addr=10.0.0.9'']) \<and>
      take 2 [''service=ppp'', ''protocol=ip'', ''addr=10.0.0.9''] = [''service=ppp'', ''protocol=ip'']"
proof -
  let ?d = "demo_user \<lparr> du_avp := [\<lparr> service = ''ppp'', protocol = ''ip'', avp = ''addr=10.0.0.9'' \<rparr>] \<rparr>"
  have d: "author_decide (\<lambda>p s. None) False ?d [''service=ppp'', ''protocol=ip'', ''addr*''] =
       Inr (ARespond PASS_REPL [''service=ppp'', ''protocol=ip'', ''addr=10.0.0.9''])" by code_simp
  have p: "request_parts ''service=ppp'' [''protocol=ip'', ''addr*''] =
      (''ppp'', ''ip'', [''service=ppp'', ''protocol=ip''], [''addr*''])" by code_simp
  from author_replace_complete[OF d p] d show ?thesis by simp
qed

text \<open>PASS_ADD drops additions: the reply is what is left of the pairs the database adds after
one is dropped for each pair of the request that was not copied (commands, command arguments and
empty pairs). A command authorization therefore loses the first additions.\<close>

lemma author_add_drops:
  assumes "author_decide rx authoriz d (first # rest) = Inr (ARespond PASS_ADD avps)"
    and "request_parts first rest = (sv, pr, head, args)"
  shows "\<exists>adds. set adds \<subseteq> avp ` set (du_avp d) \<and> [] \<notin> set adds \<and>
    avps = drop (length (filter (\<lambda>s. s = [] \<or> is_cmd s) args)) adds"
proof -
  from assms obtain b1 b2 where b: "nas_pairs rx authoriz d args \<lparr> bavpair = head, added = 0, replaced = 0 \<rparr> = Inr (Some b1)"
    "add_db sv pr (du_avp d) b1 = Inr b2" "finish (first # rest) b2 = ARespond PASS_ADD avps"
    by (elim author_decide_respond) auto
  from add_db_Inr[OF b(2)] nas_pairs_Inr[OF b(1)] obtain r where
    r: "bavpair b2 = bavpair b1 @ r" "length r = added b2" "set r \<subseteq> avp ` set (du_avp d)" "[] \<notin> set r"
      "replaced b2 = replaced b1" by auto
  from b(3) have z: "replaced b2 = 0" and out: "avps = (if 0 < added b2 then filter (\<lambda>s. s \<noteq> []) (drop (length (first # rest)) (bavpair b2)) else [])"
    by (auto simp: finish_def split: if_splits)
  let ?kept = "filter (\<lambda>s. \<not> (s = [] \<or> is_cmd s)) args" and ?k = "length (filter (\<lambda>s. s = [] \<or> is_cmd s) args)"
  from nas_pairs_Inr[OF b(1)] z r(5) have b1: "bavpair b1 = head @ ?kept" by simp
  have "length args = ?k + length ?kept" using sum_length_filter_compl[of "\<lambda>s. s = [] \<or> is_cmd s" args] by simp
  moreover have "length (first # rest) = length head + length args"
    using request_parts_join[OF assms(2)] by (metis length_append)
  ultimately have n: "length (first # rest) = length (bavpair b1) + ?k"
    unfolding b1 length_append by linarith
  have "drop (length (first # rest)) (bavpair b2) = drop ?k r" unfolding n r(1) by simp
  moreover have "filter (\<lambda>s. s \<noteq> []) (drop ?k r) = drop ?k r"
    using r(4) by (auto simp: filter_id_conv dest: in_set_dropD)
  ultimately have "avps = drop ?k r" using out r(2) by (cases "r = []") auto
  with r(3,4) show ?thesis by blast
qed

lemma author_add_drops_witness:
  "author_decide (\<lambda>p s. Some (p = s)) False demo_user [''service=shell'', ''cmd=show''] = Inr (ARespond PASS_ADD []) \<and>
   (\<exists>adds. set adds \<subseteq> {''priv-lvl=15''} \<and> [] = drop 1 adds)"
proof -
  have d: "author_decide (\<lambda>p s. Some (p = s)) False demo_user [''service=shell'', ''cmd=show''] =
     Inr (ARespond PASS_ADD [])" by code_simp
  have p: "request_parts ''service=shell'' [''cmd=show''] = (''shell'', [], [''service=shell''], [''cmd=show''])"
    by code_simp
  have f: "length (filter (\<lambda>s. s = [] \<or> is_cmd s) [''cmd=show'']) = 1" by code_simp
  have u: "avp ` set (du_avp demo_user) = {''priv-lvl=15''}" by (simp add: demo_user_def)
  from author_add_drops[OF d p] d show ?thesis unfolding f u by blast
qed

text \<open>A second authorization packet in a session is memory given back twice: after a request with
at least one pair was handled, the next packet of the session has another sequence number, is no
request, and the handler frees what it freed before.\<close>

lemma author_second_packet:
  assumes "author_process rx authoriz getdb h p ob = Inr (Some res, ob')"
    and "rq_avpair (ao_req ob') \<noteq> []" "h_type h2 = TAC_PLUS_AUTHOR" "h_seq_no h2 \<noteq> 1"
  shows "author_process rx authoriz getdb h2 p2 ob' = Inl DoubleFree"
proof -
  from assms(1,2) have "ao_dangling ob'"
    by (auto simp: author_process_def Let_def split: if_splits prod.splits)
  with assms(3,4) show ?thesis by (simp add: author_process_def author_get_request_def Let_def)
qed

definition demo_hdr :: HDR where
  "demo_hdr = \<lparr> h_version = 0xc0, h_type = 2, h_seq_no = 1, h_encryption = 1, h_session_id = 9,
     h_datalength = 22 \<rparr>"

lemma author_second_packet_witness:
  "let p = req_body 6 1 1 1 [] [] [] [''service=shell''] @ replicate 15 0;
       f = author_process (\<lambda>p s. Some (p = s)) False (\<lambda>u po ra. demo_user)
   in \<exists>ob'. f demo_hdr p new_author_obj = Inr (Some (ARespond PASS_ADD [''priv-lvl=15'']), ob') \<and>
        f (demo_hdr \<lparr> h_seq_no := 3 \<rparr>) p ob' = Inl DoubleFree"
proof -
  let ?p = "req_body 6 1 1 1 [] [] [] [''service=shell''] @ replicate 15 0"
  let ?f = "author_process (\<lambda>p s. Some (p = s)) False (\<lambda>u po ra. demo_user)"
  let ?rq = "\<lparr> rq_method = 6, rq_priv_lvl = 1, rq_authen_type = 1, rq_authen_service = 1, rq_user = [],
     rq_port = [], rq_rem_addr = [], rq_avpair = [''service=shell''] \<rparr>"
  have g: "author_get_request demo_hdr ?p new_author_req = Inr (True, ?rq)"
    by (subst author_get_request_body) (simp_all add: demo_hdr_def)
  have d: "author_decide (\<lambda>p s. Some (p = s)) False demo_user [''service=shell''] =
      Inr (ARespond PASS_ADD [''priv-lvl=15''])" by code_simp
  have x: "?f demo_hdr ?p new_author_obj = Inr (Some (ARespond PASS_ADD [''priv-lvl=15'']),
      \<lparr> ao_req = ?rq, ao_dangling = True \<rparr>)"
    by (simp add: author_process_def new_author_obj_def g d)
  have "?f (demo_hdr \<lparr> h_seq_no := 3 \<rparr>) ?p \<lparr> ao_req = ?rq, ao_dangling = True \<rparr> = Inl DoubleFree"
    by (rule author_second_packet[OF x]) (simp_all add: demo_hdr_def)
  with x show ?thesis unfolding Let_def by blast
qed

end
