(* ===== verification/CorePool.thy ===== *)
theory CorePool
  imports IpAddr
begin

text \<open>
  The address pools (\<^verbatim>\<open>src/CorePool.cc\<close>): numbered pools of addresses with a tag that says
  whether the address is free, the notation for several addresses, handing out and taking back,
  the configuration text and commands. \<^verbatim>\<open>isIp\<close> is run with one readable byte after the
  string.
\<close>

section \<open>One pool\<close>

record addr_entry =
  ae_address :: ipaddr
  ae_tag :: bool

record addrpool =
  pool_no :: int
  pool_ae :: "addr_entry list"

definition new_addr_entry :: "ipaddr \<Rightarrow> addr_entry" where
  "new_addr_entry ip = \<lparr> ae_address = ip, ae_tag = True \<rparr>"

definition new_pool :: "int \<Rightarrow> addrpool" where
  "new_pool p = \<lparr> pool_no = p, pool_ae = [] \<rparr>"

definition pd_add :: "ipaddr \<Rightarrow> addrpool \<Rightarrow> addrpool" where
  "pd_add ip pd =
     (if \<exists>e \<in> set (pool_ae pd). ip_eq (ae_address e) ip then pd
      else pd \<lparr> pool_ae := pool_ae pd @ [new_addr_entry ip] \<rparr>)"

definition pd_del :: "ipaddr \<Rightarrow> addrpool \<Rightarrow> addrpool" where
  "pd_del ip pd = pd \<lparr> pool_ae := del_first (\<lambda>e. ip_eq (ae_address e) ip) (pool_ae pd) \<rparr>"

text \<open>The first free address is occupied; the empty string when there is none.\<close>

definition pd_get :: "addrpool \<Rightarrow> string \<times> addrpool" where
  "pd_get pd = (case find ae_tag (pool_ae pd) of
      None \<Rightarrow> ([], pd)
    | Some e \<Rightarrow> (ip_get (ae_address e),
        pd \<lparr> pool_ae := upd_first ae_tag (\<lambda>e. e \<lparr> ae_tag := False \<rparr>) (pool_ae pd) \<rparr>))"

definition pd_ret :: "ipaddr \<Rightarrow> addrpool \<Rightarrow> addrpool" where
  "pd_ret ip pd = pd \<lparr> pool_ae :=
     upd_first (\<lambda>e. ip_eq (ae_address e) ip) (\<lambda>e. e \<lparr> ae_tag := True \<rparr>) (pool_ae pd) \<rparr>"

definition pd_buildcfstr :: "addrpool \<Rightarrow> string" where
  "pd_buildcfstr pd = '' pool '' @ dec_int (pool_no pd) @ [CHR 0x0A] @
     concat (map (\<lambda>e. ''  addr '' @ ip_get (ae_address e) @ [CHR 0x0A]) (pool_ae pd)) @ ''  exit''"

section \<open>The text of a range\<close>

text \<open>\<^verbatim>\<open>Addrpool_data::group\<close>, whose only call is commented out. The inner loop goes on while the address before is in the network
of the first; it gives the last address read, whether that one still is, and what is left.\<close>

definition net3 :: "ipaddr \<Rightarrow> int \<times> int \<times> int" where
  "net3 a = (ip_get_n a 0, ip_get_n a 1, ip_get_n a 2)"

fun group_scan :: "int \<times> int \<times> int \<Rightarrow> ipaddr \<Rightarrow> ipaddr list \<Rightarrow> ipaddr \<times> bool \<times> ipaddr list" where
  "group_scan n t [] = (t, net3 t = n, [])"
| "group_scan n t (x # xs) = (if net3 t = n then group_scan n x xs else (t, False, x # xs))"

lemma group_scan_shorter: "length (snd (snd (group_scan n t xs))) \<le> length xs"
  by (induction xs arbitrary: t) (auto simp: le_SucI)

lemma group_scan_rest: "(u, same, rest) = group_scan n t xs \<Longrightarrow> length rest \<le> length xs"
  using group_scan_shorter[of n t xs] by (metis snd_conv)

text \<open>An address without a second one, and a range that reaches the end of the list, take the iterator past the end.\<close>

function group_loop :: "ipaddr list \<Rightarrow> string cres" where
  "group_loop [] = Inr []"
| "group_loop [x] = Inl OutOfBounds"
| "group_loop (x # y # ys) = (case group_scan (net3 x) y (y # ys) of (t, same, rest) \<Rightarrow>
     if rest = [] then Inl OutOfBounds
     else cbind (group_loop (tl rest)) (\<lambda>r. Inr ('','' @ ip_get x @ (if same then ''-'' else '','') @ ip_get t @ r)))"
  by pat_completeness auto
termination
  by (relation "measure length") (auto split: if_splits dest!: group_scan_rest)

definition pd_group :: "addrpool \<Rightarrow> string cres" where
  "pd_group pd = group_loop (map ae_address (pool_ae pd))"

text \<open>A pool of addresses of one network is never written.\<close>

lemma group_one_net: "xs \<noteq> [] \<Longrightarrow> \<forall>x \<in> set xs. net3 x = n \<Longrightarrow> group_loop xs = Inl OutOfBounds"
proof -
  have s: "\<forall>x \<in> set ys. net3 x = n \<Longrightarrow> net3 t = n \<Longrightarrow> snd (snd (group_scan n t ys)) = []" for ys t
    by (induction ys arbitrary: t) auto
  show "xs \<noteq> [] \<Longrightarrow> \<forall>x \<in> set xs. net3 x = n \<Longrightarrow> group_loop xs = Inl OutOfBounds"
    using s[of "tl xs" "hd (tl xs)"] by (cases xs rule: group_loop.cases) (auto split: prod.split)
qed

section \<open>Several addresses in one string\<close>

definition addr_sep :: "char \<Rightarrow> bool" where
  "addr_sep c = (c = CHR '','' \<or> c = CHR ''-'')"

definition checked_ip :: "string \<Rightarrow> string cres" where
  "checked_ip s = cbind (isIp (Some s) [NUL]) (\<lambda>b. Inr (if b then s else []))"

text \<open>The loop of \<^verbatim>\<open>getAddr\<close>: \<open>m\<close> is the number of addresses still to count, the wanted one
included. A comma is never stepped over.\<close>

function getAddr_loop :: "dns \<Rightarrow> nat \<Rightarrow> string \<Rightarrow> string cres" where
  "getAddr_loop dns m s =
     (if s = [] \<or> m = 0 then Inr []
      else let s1 = takeWhile (\<lambda>c. \<not> addr_sep c) s; rest = drop (length s1) s
           in if 100 \<le> length s1 then Inl OutOfBounds
              else if rest = [] \<or> hd rest = CHR '','' then
                (if m = 1 then Inr s1 else getAddr_loop dns (m - 1) rest)
              else
                let s2 = takeWhile (\<lambda>c. \<not> addr_sep c) (tl rest); r2 = drop (length s2) (tl rest)
                in if 100 \<le> length s2 then Inl OutOfBounds
                   else if s1 \<noteq> [] \<and> s2 \<noteq> [] then
                     let ip1 = ip_fill dns s1; ip2 = ip_fill dns s2;
                         left = ip_get_n ip1 3; right = ip_get_n ip2 3;
                         cnt = nat (right - left + 1)
                     in if m \<le> cnt then
                          checked_ip (dec_int (ip_get_n ip1 0) @ ''.'' @ dec_int (ip_get_n ip1 1) @ ''.'' @
                            dec_int (ip_get_n ip1 2) @ ''.'' @ dec_int (left + int m - 1))
                        else getAddr_loop dns (m - cnt) r2
                   else if m = 1 then checked_ip s1
                   else getAddr_loop dns (m - 1) r2)"
  by pat_completeness auto
termination
proof (relation "measure (\<lambda>(dns, m, s). m + length s)", goal_cases)
  case (3 dns m s s1 rest s2 r2)
  then have "rest \<noteq> []" by auto
  with 3 show ?case by (cases rest) (auto simp: length_takeWhile_le)
next
  case (4 dns m s s1 rest s2 r2)
  then have "rest \<noteq> []" by auto
  with 4 show ?case by (cases rest) auto
qed auto

declare getAddr_loop.simps [simp del]

definition getAddr :: "dns \<Rightarrow> string \<Rightarrow> nat \<Rightarrow> string cres" where
  "getAddr dns str n = getAddr_loop dns (Suc n) str"

section \<open>All pools\<close>

type_synonym pools = "addrpool list"

definition has_pool :: "int \<Rightarrow> pools \<Rightarrow> bool" where
  "has_pool p ap = (\<exists>x \<in> set ap. pool_no x = p)"

text \<open>The loops of \<^verbatim>\<open>add\<close> and \<^verbatim>\<open>del\<close> over the addresses of a string: the first one, then
numbers 0, 1, 2 until the empty string. \<open>None\<close> would be a loop that does not end.\<close>

partial_function (option) addr_loop ::
    "dns \<Rightarrow> (ipaddr \<Rightarrow> pools \<Rightarrow> pools) \<Rightarrow> string \<Rightarrow> nat \<Rightarrow> string \<Rightarrow> pools \<Rightarrow> pools cres option" where
  "addr_loop dns f a i r ap =
     (if r = [] then Some (Inr ap)
      else let ap = f (ip_fill dns r) ap
           in case getAddr dns a i of
                Inl e \<Rightarrow> Some (Inl e)
              | Inr r' \<Rightarrow> addr_loop dns f a (Suc i) (snprintf_s 16 r') ap)"

definition addr_start :: "dns \<Rightarrow> (ipaddr \<Rightarrow> pools \<Rightarrow> pools) \<Rightarrow> string \<Rightarrow> pools \<Rightarrow> pools cres option" where
  "addr_start dns f a ap = (case getAddr dns a 0 of
      Inl e \<Rightarrow> Some (Inl e) | Inr r \<Rightarrow> addr_loop dns f a 0 (snprintf_s 16 r) ap)"

definition pool_add :: "dns \<Rightarrow> int \<Rightarrow> string \<Rightarrow> pools \<Rightarrow> pools cres option" where
  "pool_add dns p a ap =
     (let ap = (if has_pool p ap then ap else ap @ [new_pool p])
      in addr_start dns (\<lambda>ip. upd_first (\<lambda>x. pool_no x = p) (pd_add ip)) a ap)"

definition pool_del :: "int \<Rightarrow> pools \<Rightarrow> pools" where
  "pool_del p ap = filter (\<lambda>x. pool_no x \<noteq> p) ap"

definition pool_del_addr :: "dns \<Rightarrow> int \<Rightarrow> string \<Rightarrow> pools \<Rightarrow> pools cres option" where
  "pool_del_addr dns p a ap =
     addr_start dns (\<lambda>ip. map (\<lambda>x. if pool_no x = p then pd_del ip x else x)) a ap"

fun pool_get :: "int \<Rightarrow> pools \<Rightarrow> string \<times> pools" where
  "pool_get p [] = ([], [])"
| "pool_get p (x # ap) =
     (if pool_no x = p then (case pd_get x of (a, x') \<Rightarrow> (a, x' # ap))
      else case pool_get p ap of (a, ap') \<Rightarrow> (a, x # ap'))"

definition pool_ret :: "ipaddr \<Rightarrow> pools \<Rightarrow> pools" where
  "pool_ret ip ap = map (pd_ret ip) ap"

definition pool_buildcfstr :: "nat \<Rightarrow> pools \<Rightarrow> string" where
  "pool_buildcfstr n ap = (if n < length ap then pd_buildcfstr (ap ! n) else [])"

text \<open>The commands: \<open>ps\<close> are the parameters of the command, \<open>us\<close> those of the mode it stands in.\<close>

definition pool_applycf :: "dns \<Rightarrow> string \<Rightarrow> string list \<Rightarrow> string list \<Rightarrow> pools \<Rightarrow> pools cres option" where
  "pool_applycf dns cmdname ps us ap =
     (if cmdname = ''confPoolNo'' then
        Some (cbind (first_param ps) (\<lambda>p. Inr (pool_del (atoi_c p) ap)))
      else if cmdname = ''confPoolAddr'' then
        (case (first_param ps, first_param us) of
           (Inr p, Inr u) \<Rightarrow> pool_add dns (atoi_c p) u ap
         | _ \<Rightarrow> Some (Inl NullDeref))
      else if cmdname = ''confPoolNoAddr'' then
        (case (first_param ps, first_param us) of
           (Inr p, Inr u) \<Rightarrow> pool_del_addr dns (atoi_c u) p ap
         | _ \<Rightarrow> Some (Inl NullDeref))
      else Some (Inr ap))"

section \<open>Lemmas\<close>

lemma ip_get_nonempty [simp]: "ip_get x \<noteq> []"
  by (simp add: ip_get_def inet_ntoa_def dotted_def)

lemma ip_get_eq_iff: "ip_get x = ip_get y \<longleftrightarrow> ip_eq x y"
  using inet_ntoa_inj by (auto simp: ip_get_def ip_eq_def)

lemma getAddr_comma: "getAddr_loop dns m (CHR '','' # s) = Inr []"
proof (induction m)
  case 0
  show ?case by (simp add: getAddr_loop.simps)
next
  case (Suc m)
  then show ?case by (subst getAddr_loop.simps) (simp add: addr_sep_def)
qed

lemma getAddr_loop_ends: "\<exists>B. \<forall>m > B. \<forall>r. getAddr_loop dns m s = Inr r \<longrightarrow> r = []"
proof (induction s rule: length_induct)
  case (1 s)
  define s1 rest where "s1 = takeWhile (\<lambda>c. \<not> addr_sep c) s" and "rest = drop (length s1) s"
  define s2 r2 where "s2 = takeWhile (\<lambda>c. \<not> addr_sep c) (tl rest)" and "r2 = drop (length s2) (tl rest)"
  show ?case
  proof (cases "s = [] \<or> rest = []")
    case True
    have "getAddr_loop dns m s = Inr r \<longrightarrow> r = []" if "m > 1" for m r
      using that True getAddr_loop.simps[of dns "m - 1" "[]"]
      by (subst getAddr_loop.simps) (auto simp: Let_def simp flip: s1_def rest_def)
    then show ?thesis by blast
  next
    case False
    show ?thesis
    proof (cases "hd rest = CHR '',''")
      case True
      then obtain t where t: "rest = CHR '','' # t" using False by (cases rest) auto
      have "getAddr_loop dns m s = Inr r \<longrightarrow> r = []" if "m > 1" for m r
        using that False t getAddr_comma
        by (subst getAddr_loop.simps) (auto simp: Let_def simp flip: s1_def rest_def)
      then show ?thesis by blast
    next
      case comma: False
      have "length r2 < length s"
      proof -
        have "length r2 \<le> length (tl rest)" by (simp add: r2_def)
        also have "length (tl rest) < length rest" using False by (cases rest) auto
        also have "length rest \<le> length s" by (simp add: rest_def)
        finally show ?thesis .
      qed
      with 1 obtain B where B: "\<And>m r. m > B \<Longrightarrow> getAddr_loop dns m r2 = Inr r \<Longrightarrow> r = []" by blast
      let ?c = "nat (ip_get_n (ip_fill dns s2) 3 - ip_get_n (ip_fill dns s1) 3 + 1)"
      have "getAddr_loop dns m s = Inr r \<longrightarrow> r = []" if "m > B + ?c + 1" for m r
        using that False comma B[of "m - 1"] B[of "m - ?c"]
        by (subst getAddr_loop.simps)
          (auto simp: Let_def simp flip: s1_def rest_def s2_def r2_def split: if_splits)
      then show ?thesis by blast
    qed
  qed
qed

text \<open>The loops over addresses end.\<close>

lemma addr_loop_ends: "\<exists>res. addr_loop dns f a i r ap = Some res"
proof -
  obtain B where B: "\<And>m r. m > B \<Longrightarrow> getAddr_loop dns m a = Inr r \<Longrightarrow> r = []"
    using getAddr_loop_ends by blast
  show ?thesis
  proof (induction "Suc B - i" arbitrary: i r ap)
    case 0
    show ?case
    proof (cases "getAddr dns a i")
      case (Inl e)
      then show ?thesis by (subst addr_loop.simps) simp
    next
      case (Inr r')
      then have "r' = []" using B[of "Suc i" r'] 0 by (simp add: getAddr_def)
      then have "\<exists>res. addr_loop dns f a (Suc i) (snprintf_s 16 r') ap' = Some res" for ap'
        by (subst addr_loop.simps) (simp add: snprintf_s_def c_str_def)
      with Inr show ?thesis by (subst addr_loop.simps) simp
    qed
  next
    case (Suc n)
    then have "n = Suc B - Suc i" by simp
    from Suc(1)[OF this] show ?case
      by (subst addr_loop.simps) (auto split: sum.splits)
  qed
qed

lemma addr_start_ends: "\<exists>res. addr_start dns f a ap = Some res"
  using addr_loop_ends by (auto simp: addr_start_def split: sum.splits)

lemma addr_start_empty: "addr_start dns f [] ap = Some (Inr ap)"
  by (simp add: addr_start_def getAddr_def getAddr_loop.simps snprintf_s_def c_str_def addr_loop.simps)

text \<open>The pools as a registry: a pool is made by adding no address to it.\<close>

definition pool_keys :: "pools \<Rightarrow> int list" where
  "pool_keys ap = map pool_no ap"

definition pool_new :: "dns \<Rightarrow> int \<Rightarrow> pools \<Rightarrow> pools" where
  "pool_new dns p ap = (case pool_add dns p [] ap of Some (Inr ap') \<Rightarrow> ap' | _ \<Rightarrow> ap)"

lemma pool_new_eq: "pool_new dns p ap = (if has_pool p ap then ap else ap @ [new_pool p])"
  by (simp add: pool_new_def pool_add_def addr_start_empty)

lemma pool_keys_simps [reg_simps]:
  "pool_keys (pool_new dns p ap) = (if p \<in> set (pool_keys ap) then pool_keys ap else pool_keys ap @ [p])"
  "pool_keys (pool_del p ap) = filter (\<lambda>x. x \<noteq> p) (pool_keys ap)"
  by (auto simp: pool_keys_def pool_new_eq has_pool_def new_pool_def pool_del_def map_filter_key)

interpretation pool_reg: registry pool_keys "pool_new dns" pool_del for dns
  by unfold_locales (simp_all add: reg_simps)

text \<open>Handing out: an address in use is not handed out before it is given back.\<close>

datatype pd_op = PGet | PRet ipaddr

fun pd_step :: "pd_op \<Rightarrow> addrpool \<Rightarrow> string \<times> addrpool" where
  "pd_step PGet pd = pd_get pd"
| "pd_step (PRet ip) pd = ([], pd_ret ip pd)"

fun pd_run :: "pd_op list \<Rightarrow> addrpool \<Rightarrow> string list" where
  "pd_run [] pd = []"
| "pd_run (oper # ops) pd = (case pd_step oper pd of (a, pd') \<Rightarrow> a # pd_run ops pd')"

definition pool_distinct :: "addrpool \<Rightarrow> bool" where
  "pool_distinct pd = distinct (map (\<lambda>e. ipa (ae_address e)) (pool_ae pd))"

definition in_use :: "string \<Rightarrow> addrpool \<Rightarrow> bool" where
  "in_use a pd = (\<forall>e \<in> set (pool_ae pd). ip_get (ae_address e) = a \<longrightarrow> \<not> ae_tag e)"

lemma pool_distinct_add: "pool_distinct pd \<Longrightarrow> pool_distinct (pd_add ip pd)"
  by (auto simp: pool_distinct_def pd_add_def new_addr_entry_def ip_eq_def)

lemma pool_distinct_step: "pool_distinct pd \<Longrightarrow> pool_distinct (snd (pd_step oper pd))"
proof (cases oper)
  case PGet
  assume "pool_distinct pd"
  moreover have "map (\<lambda>e. ipa (ae_address e)) (upd_first ae_tag (\<lambda>e. e\<lparr>ae_tag := False\<rparr>) (pool_ae pd))
      = map (\<lambda>e. ipa (ae_address e)) (pool_ae pd)" by (rule map_upd_first) simp
  ultimately show ?thesis using PGet by (auto simp: pool_distinct_def pd_get_def split: option.splits)
next
  case (PRet ip)
  assume "pool_distinct pd"
  moreover have "map (\<lambda>e. ipa (ae_address e)) (upd_first (\<lambda>e. ip_eq (ae_address e) ip) (\<lambda>e. e\<lparr>ae_tag := True\<rparr>) (pool_ae pd))
      = map (\<lambda>e. ipa (ae_address e)) (pool_ae pd)" by (rule map_upd_first) simp
  ultimately show ?thesis using PRet by (simp add: pool_distinct_def pd_ret_def)
qed

lemma in_use_get_upd:
  "distinct (map (\<lambda>e. ipa (ae_address e)) es) \<Longrightarrow> find ae_tag es = Some e \<Longrightarrow>
   e' \<in> set (upd_first ae_tag (\<lambda>e. e\<lparr>ae_tag := False\<rparr>) es) \<Longrightarrow> ip_eq (ae_address e') (ae_address e) \<Longrightarrow> \<not> ae_tag e'"
proof (induction es)
  case (Cons x xs)
  show ?case
  proof (cases "ae_tag x")
    case True
    with Cons.prems have "e = x" "e' = x\<lparr>ae_tag := False\<rparr> \<or> e' \<in> set xs" by auto
    moreover have "\<forall>y \<in> set xs. ipa (ae_address y) \<noteq> ipa (ae_address x)"
      using Cons.prems(1) by (auto simp: image_iff)
    ultimately show ?thesis using Cons.prems(4) by (auto simp: ip_eq_def)
  next
    case False
    with Cons show ?thesis by auto
  qed
qed simp

lemma pd_get_in_use:
  assumes "pool_distinct pd" "pd_get pd = (a, pd')" "a \<noteq> []"
  shows "in_use a pd'"
proof -
  from assms(2,3) obtain e where e: "find ae_tag (pool_ae pd) = Some e" "a = ip_get (ae_address e)"
    "pool_ae pd' = upd_first ae_tag (\<lambda>e. e\<lparr>ae_tag := False\<rparr>) (pool_ae pd)"
    by (auto simp: pd_get_def split: option.splits)
  show ?thesis
    using in_use_get_upd[OF _ e(1)] assms(1) e(2,3) ip_get_eq_iff
    by (auto simp: in_use_def pool_distinct_def)
qed

lemma in_use_step:
  assumes "in_use a pd" "\<And>ip. oper = PRet ip \<Longrightarrow> ip_get ip \<noteq> a" "a \<noteq> []"
  shows "fst (pd_step oper pd) \<noteq> a \<and> in_use a (snd (pd_step oper pd))"
proof (cases oper)
  case PGet
  have "in_use a (pd \<lparr> pool_ae := upd_first ae_tag (\<lambda>e. e\<lparr>ae_tag := False\<rparr>) (pool_ae pd) \<rparr>)"
    using assms(1) set_upd_first_subset[of ae_tag "\<lambda>e. e\<lparr>ae_tag := False\<rparr>" "pool_ae pd"]
    by (fastforce simp: in_use_def)
  moreover have "find ae_tag (pool_ae pd) = Some e \<Longrightarrow> ip_get (ae_address e) \<noteq> a" for e
    using assms(1) by (auto simp: in_use_def find_Some_iff)
  ultimately show ?thesis using PGet assms(1,3) by (auto simp: pd_get_def split: option.splits)
next
  case (PRet ip)
  have "e' \<in> set (upd_first (\<lambda>e. ip_eq (ae_address e) ip) (\<lambda>e. e\<lparr>ae_tag := True\<rparr>) es) \<Longrightarrow>
      ip_get (ae_address e') = a \<Longrightarrow> e' \<in> set es" for e' es
  proof (induction es)
    case (Cons x xs)
    have "ip_get (ae_address x) \<noteq> a" if "ip_eq (ae_address x) ip"
      using assms(2)[OF PRet] that by (simp flip: ip_get_eq_iff)
    with Cons show ?case by (auto split: if_splits)
  qed simp
  then show ?thesis using PRet assms(1,3) by (auto simp: in_use_def pd_ret_def)
qed

lemma in_use_run:
  "in_use a pd \<Longrightarrow> a \<noteq> [] \<Longrightarrow> \<forall>k \<le> j. \<forall>ip. ops ! k = PRet ip \<longrightarrow> ip_get ip \<noteq> a \<Longrightarrow> j < length ops \<Longrightarrow>
   pd_run ops pd ! j \<noteq> a"
proof (induction ops arbitrary: pd j)
  case (Cons oper ops)
  obtain x pd' where s: "pd_step oper pd = (x, pd')" by (cases "pd_step oper pd")
  have st: "x \<noteq> a \<and> in_use a pd'"
    using in_use_step[OF Cons.prems(1) _ Cons.prems(2), of oper] Cons.prems(3) s by force
  show ?case
  proof (cases j)
    case 0
    with st s show ?thesis by simp
  next
    case (Suc i)
    have "pd_run ops pd' ! i \<noteq> a" using Cons.IH[of pd' i] st Cons.prems(2-4) Suc by force
    with s Suc show ?thesis by simp
  qed
qed simp

lemma pd_run_ret_between:
  "pool_distinct pd \<Longrightarrow> i < j \<Longrightarrow> j < length ops \<Longrightarrow> pd_run ops pd ! i = a \<Longrightarrow> pd_run ops pd ! j = a \<Longrightarrow> a \<noteq> [] \<Longrightarrow>
   \<exists>k ip. i < k \<and> k \<le> j \<and> ops ! k = PRet ip \<and> ip_get ip = a"
proof (induction ops arbitrary: pd i j)
  case (Cons oper ops)
  obtain x pd' where s: "pd_step oper pd = (x, pd')" by (cases "pd_step oper pd")
  obtain j' where j: "j = Suc j'" using Cons.prems(2) by (cases j) auto
  show ?case
  proof (cases i)
    case 0
    with Cons.prems(4,6) s have "oper = PGet" "x = a" by (cases oper; auto)+
    then have "in_use a pd'" using pd_get_in_use[OF Cons.prems(1)] s Cons.prems(6) by simp
    with in_use_run[of a pd' j' ops] Cons.prems(3,5,6) s j
    obtain k ip where "k \<le> j'" "ops ! k = PRet ip" "ip_get ip = a" by auto
    with j 0 show ?thesis by (intro exI[of _ "Suc k"] exI[of _ ip]) auto
  next
    case (Suc i')
    have "pool_distinct pd'" using pool_distinct_step[OF Cons.prems(1), of oper] s by simp
    from Cons.IH[OF this, of i' j'] Cons.prems(2-6) s j Suc
    obtain k ip where "i' < k" "k \<le> j'" "ops ! k = PRet ip" "ip_get ip = a" by auto
    with j Suc show ?thesis by (intro exI[of _ "Suc k"] exI[of _ ip]) auto
  qed
qed simp

section \<open>Properties\<close>

lemma dec_nat_no_sep: "x \<in> set (dec_nat n) \<Longrightarrow> \<not> addr_sep x"
proof -
  assume "x \<in> set (dec_nat n)"
  with dec_nat_digits have "isdigit_c x" by blast
  then show ?thesis by (auto simp: addr_sep_def isdigit_c_def code_def)
qed

lemma inet_ntoa_no_sep: "x \<in> set (inet_ntoa a) \<Longrightarrow> \<not> addr_sep x"
  using dec_nat_no_sep by (auto simp: inet_ntoa_def dotted_def) (auto simp: addr_sep_def)

lemma takeWhile_addr: "takeWhile (\<lambda>c. \<not> addr_sep c) (inet_ntoa a @ t) = inet_ntoa a @ takeWhile (\<lambda>c. \<not> addr_sep c) t"
  using inet_ntoa_no_sep by (simp add: takeWhile_append2)

lemma checked_ip_dotted:
  assumes "a < 256" "b < 256" "c < 256" "d < 256"
  shows "checked_ip (dotted a b c d) = Inr (if 0 < a \<and> 0 < d \<and> d < 255 then dotted a b c d else [])"
  using isIp_dotted_eq[OF assms] by (simp add: checked_ip_def)

lemma getAddr_stop: "t = [] \<or> hd t = CHR '','' \<Longrightarrow> getAddr_loop dns m t = Inr []"
  using getAddr_comma by (cases t) (auto simp: getAddr_loop.simps)

lemma getAddr_loop_dash:
  assumes "\<forall>x \<in> set s1. \<not> addr_sep x" "\<forall>x \<in> set s2. \<not> addr_sep x" "s1 \<noteq> []" "s2 \<noteq> []"
    "length s1 < 100" "length s2 < 100" "t = [] \<or> hd t = CHR '',''"
  shows "getAddr_loop dns (Suc n) (s1 @ CHR ''-'' # s2 @ t) =
    (let ip1 = ip_fill dns s1; left = ip_get_n ip1 3; right = ip_get_n (ip_fill dns s2) 3
     in if Suc n \<le> nat (right - left + 1)
        then checked_ip (dec_int (ip_get_n ip1 0) @ ''.'' @ dec_int (ip_get_n ip1 1) @ ''.'' @
               dec_int (ip_get_n ip1 2) @ ''.'' @ dec_int (left + int (Suc n) - 1))
        else Inr [])"
proof -
  have t: "takeWhile (\<lambda>c. \<not> addr_sep c) t = []" using assms(7) by (cases t) (auto simp: addr_sep_def)
  have s: "takeWhile (\<lambda>c. \<not> addr_sep c) (s1 @ CHR ''-'' # s2 @ t) = s1"
    "takeWhile (\<lambda>c. \<not> addr_sep c) (s2 @ t) = s2"
    using assms(1,2) by (simp_all add: takeWhile_append2 t) (simp add: addr_sep_def)
  show ?thesis
    by (subst getAddr_loop.simps)
      (simp add: s assms(3,4) assms(5,6)[folded linorder_not_le] getAddr_stop[OF assms(7)] Let_def
        del: nat_le_iff of_nat_Suc)
qed

text \<open>Address \<open>n\<close> of the range \<open>a-b\<close> is the address with the first three octets of \<open>a\<close>
and the last octet of \<open>a\<close> plus \<open>n\<close>, up to the last octet of \<open>b\<close>, except that the octets 0 and 255
are never given. The other octets of \<open>b\<close> are ignored, and whatever follows the range after a comma
is never reached.\<close>

lemma getAddr_range:
  assumes "dns (inet_ntoa a) = Some a" "dns (inet_ntoa b) = Some b" "t = [] \<or> hd t = CHR '',''"
  shows "getAddr dns (inet_ntoa a @ ''-'' @ inet_ntoa b @ t) n =
    Inr (if octet 3 a + n \<le> octet 3 b \<and> 0 < octet 0 a \<and> 0 < octet 3 a + n \<and> octet 3 a + n < 255
         then dotted (octet 0 a) (octet 1 a) (octet 2 a) (octet 3 a + n) else [])"
proof -
  have len: "length (inet_ntoa x) < 100" "inet_ntoa x \<noteq> []" for x
    using length_inet_ntoa[of x] by (auto simp: inet_ntoa_def dotted_def)
  have n3: "ip_get_n (ip_fill dns (inet_ntoa a)) 0 = int (octet 0 a)"
    "ip_get_n (ip_fill dns (inet_ntoa a)) 1 = int (octet 1 a)"
    "ip_get_n (ip_fill dns (inet_ntoa a)) 2 = int (octet 2 a)"
    "ip_get_n (ip_fill dns (inet_ntoa a)) 3 = int (octet 3 a)"
    "ip_get_n (ip_fill dns (inet_ntoa b)) 3 = int (octet 3 b)"
    using ip_get_n_octet[of 0] ip_get_n_octet[of 1] ip_get_n_octet[of 2] ip_get_n_octet[of 3]
    by (simp_all add: ip_fill_ntoa assms(1,2))
  have cnt: "Suc n \<le> nat (int (octet 3 b) - int (octet 3 a) + 1) \<longleftrightarrow> octet 3 a + n \<le> octet 3 b"
    by linarith
  have d: "dec_int (int (octet 0 a)) @ ''.'' @ dec_int (int (octet 1 a)) @ ''.'' @ dec_int (int (octet 2 a))
      @ ''.'' @ dec_int (int (octet 3 a) + int (Suc n) - 1) = dotted (octet 0 a) (octet 1 a) (octet 2 a) (octet 3 a + n)"
    by (simp add: dotted_def dec_int_def nat_add_distrib)
  have c: "checked_ip (dotted (octet 0 a) (octet 1 a) (octet 2 a) (octet 3 a + n)) =
      Inr (if 0 < octet 0 a \<and> 0 < octet 3 a + n \<and> octet 3 a + n < 255
        then dotted (octet 0 a) (octet 1 a) (octet 2 a) (octet 3 a + n) else [])"
    if "octet 3 a + n \<le> octet 3 b"
    using le_less_trans[OF that octet_less[of 3 b]] by (intro checked_ip_dotted) simp_all
  have "getAddr dns (inet_ntoa a @ ''-'' @ inet_ntoa b @ t) n =
      (if octet 3 a + n \<le> octet 3 b
       then checked_ip (dotted (octet 0 a) (octet 1 a) (octet 2 a) (octet 3 a + n)) else Inr [])"
    unfolding getAddr_def append_Cons append_Nil
    using getAddr_loop_dash[of "inet_ntoa a" "inet_ntoa b" t dns n] inet_ntoa_no_sep len assms(3)
    by (simp only: n3 Let_def cnt d) blast
  then show ?thesis using c by simp
qed

lemma getAddr_range_witness:
  "getAddr (\<lambda>s. Some (if s = inet_ntoa 0x0A000005 then 0x0A000005 else 0x0A000007))
     (inet_ntoa 0x0A000005 @ ''-'' @ inet_ntoa 0x0A000007 @ '',10.1.1.1'') 2 = Inr (dotted 10 0 0 7)"
proof -
  have o: "octet 0 0x0A000005 = 10" "octet 1 0x0A000005 = 0" "octet 2 0x0A000005 = 0" "octet 3 0x0A000005 = 5"
    "octet 3 0x0A000007 = 7" by (simp_all add: octet_def)
  have "inet_ntoa 0x0A000007 \<noteq> inet_ntoa 0x0A000005"
    using inet_ntoa_inj[of "0x0A000007" "0x0A000005"] by auto
  then show ?thesis
    by (subst getAddr_range[where a = "0x0A000005" and b = "0x0A000007"]) (simp_all add: o o(2)[simplified])
qed

lemma pool_distinct_built: "pool_distinct (foldr pd_add ips (new_pool p))"
  by (induction ips) (auto simp: pool_distinct_add, simp add: pool_distinct_def new_pool_def)

text \<open>C24: in a pool whose addresses were added by \<^verbatim>\<open>add\<close>, an address handed out twice
was given back in between, for every sequence of handing out and giving back.\<close>

theorem pool_exclusive:
  assumes "i < j" "j < length ops"
    and "pd_run ops (foldr pd_add ips (new_pool p)) ! i = a"
    and "pd_run ops (foldr pd_add ips (new_pool p)) ! j = a" and "a \<noteq> []"
  shows "\<exists>k ip. i < k \<and> k \<le> j \<and> ops ! k = PRet ip \<and> ip_get ip = a"
  using pd_run_ret_between[OF pool_distinct_built assms] .

lemma pool_exclusive_witness:
  "\<exists>k ip. 0 < k \<and> k \<le> 2 \<and> [PGet, PRet \<lparr> hname = [], ipa = 9 \<rparr>, PGet] ! k = PRet ip \<and>
    ip_get ip = ip_get \<lparr> hname = [], ipa = 9 \<rparr>"
  by (rule pool_exclusive[of 0 2 _ "[\<lparr> hname = [], ipa = 9 \<rparr>]" 1])
    (simp_all add: new_pool_def pd_add_def new_addr_entry_def pd_get_def pd_ret_def ip_eq_def)

text \<open>The command \<^verbatim>\<open>addr\<close> of a pool swaps its two arguments: the dotted address
\<open>a.b.c.d\<close> in the mode of pool \<open>n\<close> makes (or extends) the pool numbered \<open>a\<close> and puts
there the address that the text of \<open>n\<close> reads as.\<close>

lemma pool_addr_swapped:
  assumes "n < 1000" and "\<not> has_pool (int (octet 0 a)) ap"
  shows "pool_applycf dns ''confPoolAddr'' [inet_ntoa a] [dec_nat n] ap =
    Some (Inr (ap @ [\<lparr> pool_no = int (octet 0 a), pool_ae = [new_addr_entry (ip_fill dns (dec_nat n))] \<rparr>]))"
proof -
  have "octet 0 a < 2 ^ 31" by (rule order.strict_trans[OF octet_less]) simp
  then have atoi: "atoi_c (inet_ntoa a) = int (octet 0 a)"
    using atoi_digits[of "dec_nat (octet 0 a)"] dec_nat_digits
    by (simp add: inet_ntoa_def dotted_def digits_val_dec_nat isdigit_c_def[of "CHR ''.''"] code_def)
  have sep: "takeWhile (\<lambda>c. \<not> addr_sep c) (dec_nat n) = dec_nat n"
    using dec_nat_no_sep by (auto simp: takeWhile_eq_all_conv)
  have len: "length (dec_nat n) \<le> 3" using length_dec_nat[of n 3] assms(1) by simp
  have g: "getAddr dns (dec_nat n) 0 = Inr (dec_nat n)" "getAddr dns (dec_nat n) (Suc k) = Inr []" for k
    unfolding getAddr_def using len
    by (subst getAddr_loop.simps, simp add: Let_def sep getAddr_loop.simps[of _ _ "[]"])+
  have sn: "snprintf_s 16 (dec_nat n) = dec_nat n" using len by (intro snprintf_s_short) auto
  have e: "snprintf_s 16 [] = []" by (simp add: snprintf_s_def c_str_def)
  let ?f = "\<lambda>ip. upd_first (\<lambda>x. pool_no x = int (octet 0 a)) (pd_add ip)"
  have loop: "addr_start dns ?f (dec_nat n) q = Some (Inr (?f (ip_fill dns (dec_nat n)) (?f (ip_fill dns (dec_nat n)) q)))" for q
    unfolding addr_start_def g sn
    by (simp add: sn, subst addr_loop.simps, simp add: g sn, subst addr_loop.simps, simp add: g(2)[of 0, simplified] e,
        subst addr_loop.simps, simp)
  have twice: "?f ip (?f ip (ap @ [new_pool (int (octet 0 a))])) =
      ap @ [\<lparr> pool_no = int (octet 0 a), pool_ae = [new_addr_entry ip] \<rparr>]" for ip
    using assms(2) by (induction ap)
      (auto simp: has_pool_def new_pool_def pd_add_def new_addr_entry_def ip_eq_def)
  show ?thesis
    using assms(2)
    by (simp add: pool_applycf_def first_param_def pool_add_def atoi loop twice)
qed

lemma pool_addr_swapped_witness:
  "pool_applycf (\<lambda>s. None) ''confPoolAddr'' [inet_ntoa 0x0A000005] [dec_nat 7] [] =
    Some (Inr [\<lparr> pool_no = 10, pool_ae = [new_addr_entry (ip_fill (\<lambda>s. None) (dec_nat 7))] \<rparr>])"
proof -
  have "octet 0 0x0A000005 = 10" by (simp add: octet_def)
  then show ?thesis
    using pool_addr_swapped[of 7 "0x0A000005" "[]" "\<lambda>s. None"] by (simp add: has_pool_def)
qed

end
