(* ===== verification/CoreAccess.thy ===== *)
theory CoreAccess
  imports CString
begin

text \<open>
  Access lists (\<^verbatim>\<open>src/CoreAccess.cc\<close>): numbered lists of rules, each a regular expression that
  permits or denies, the decision for a string, configuration text and commands. The regular
  expression library is the parameter \<open>rx\<close>: \<open>rx pattern text\<close> is \<open>None\<close> when the pattern does not
  compile.
\<close>


section \<open>Entries and lists\<close>

record acl_entry =
  permit :: string
  deny :: string

record acl_data =
  acl_number :: int
  acl_rules :: "acl_entry list"

definition rx_hit :: "regex \<Rightarrow> string \<Rightarrow> string \<Rightarrow> bool" where
  "rx_hit rx pat st = (let s = snprintf_s 299 st; r = snprintf_s 299 pat
     in 0 < length r \<and> rx r s = Some True)"

definition checkPermit :: "regex \<Rightarrow> acl_entry \<Rightarrow> string \<Rightarrow> bool" where
  "checkPermit rx e st = (if rx_hit rx (permit e) st then True else False)"

text \<open>\<^verbatim>\<open>checkDeny\<close> is true when the entry does not deny.\<close>

definition checkDeny :: "regex \<Rightarrow> acl_entry \<Rightarrow> string \<Rightarrow> bool" where
  "checkDeny rx e st = (if rx_hit rx (deny e) st then False else True)"

fun data_check :: "regex \<Rightarrow> acl_entry list \<Rightarrow> string \<Rightarrow> bool" where
  "data_check rx [] s = False"
| "data_check rx (e # es) s =
     (if \<not> checkDeny rx e s then False else if checkPermit rx e s then True else data_check rx es s)"

definition data_add_permit :: "string option \<Rightarrow> acl_data \<Rightarrow> acl_data" where
  "data_add_permit p d = (case p of
      None \<Rightarrow> d
    | Some r \<Rightarrow> if r = [] then d else d \<lparr> acl_rules := acl_rules d @ [\<lparr> permit = r, deny = [] \<rparr>] \<rparr>)"

definition data_add_deny :: "string option \<Rightarrow> acl_data \<Rightarrow> acl_data" where
  "data_add_deny p d = (case p of
      None \<Rightarrow> d
    | Some r \<Rightarrow> if r = [] then d else d \<lparr> acl_rules := acl_rules d @ [\<lparr> permit = [], deny = r \<rparr>] \<rparr>)"

definition data_del_permit :: "string option \<Rightarrow> acl_data \<Rightarrow> acl_data" where
  "data_del_permit p d = (case p of
      None \<Rightarrow> d
    | Some r \<Rightarrow> if r = [] then d else d \<lparr> acl_rules := del_first (\<lambda>e. permit e = r) (acl_rules d) \<rparr>)"

definition data_del_deny :: "string option \<Rightarrow> acl_data \<Rightarrow> acl_data" where
  "data_del_deny p d = (case p of
      None \<Rightarrow> d
    | Some r \<Rightarrow> if r = [] then d else d \<lparr> acl_rules := del_first (\<lambda>e. deny e = r) (acl_rules d) \<rparr>)"

definition data_buildcfstr :: "acl_data \<Rightarrow> string" where
  "data_buildcfstr d = '' access '' @ dec_int (acl_number d) @ [CHR 0x0A] @
     concat (map (\<lambda>e.
       (if 0 < length (permit e) then ''  permit '' @ permit e @ [CHR 0x0A] else []) @
       (if 0 < length (deny e) then ''  deny '' @ deny e @ [CHR 0x0A] else [])) (acl_rules d)) @ ''  exit''"

section \<open>All access lists\<close>

type_synonym acls = "acl_data list"

definition new_acl :: "int \<Rightarrow> acl_data" where
  "new_acl n = \<lparr> acl_number = n, acl_rules = [] \<rparr>"

definition has_acl :: "int \<Rightarrow> acls \<Rightarrow> bool" where
  "has_acl n as = (\<exists>d \<in> set as. acl_number d = n)"

definition acl_add :: "int \<Rightarrow> acls \<Rightarrow> acls" where
  "acl_add n as = (if has_acl n as then as else as @ [new_acl n])"

text \<open>Both additions create the list when there is none and always report success.\<close>

definition acl_add_permit :: "int \<Rightarrow> string option \<Rightarrow> acls \<Rightarrow> bool \<times> acls" where
  "acl_add_permit p r as =
     (if has_acl p as then (True, upd_first (\<lambda>d. acl_number d = p) (data_add_permit r) as)
      else (True, as @ [data_add_permit r (new_acl p)]))"

definition acl_add_deny :: "int \<Rightarrow> string option \<Rightarrow> acls \<Rightarrow> bool \<times> acls" where
  "acl_add_deny p r as =
     (if has_acl p as then (True, upd_first (\<lambda>d. acl_number d = p) (data_add_deny r) as)
      else (True, as @ [data_add_deny r (new_acl p)]))"

definition acl_del :: "int \<Rightarrow> acls \<Rightarrow> bool \<times> acls" where
  "acl_del p as = (has_acl p as, filter (\<lambda>d. acl_number d \<noteq> p) as)"

text \<open>Success of a deletion only says that the list exists.\<close>

definition acl_del_permit :: "int \<Rightarrow> string option \<Rightarrow> acls \<Rightarrow> bool \<times> acls" where
  "acl_del_permit p r as = (has_acl p as, upd_first (\<lambda>d. acl_number d = p) (data_del_permit r) as)"

definition acl_del_deny :: "int \<Rightarrow> string option \<Rightarrow> acls \<Rightarrow> bool \<times> acls" where
  "acl_del_deny p r as = (has_acl p as, upd_first (\<lambda>d. acl_number d = p) (data_del_deny r) as)"

fun acl_check :: "regex \<Rightarrow> int \<Rightarrow> string \<Rightarrow> acls \<Rightarrow> bool" where
  "acl_check rx p r [] = False"
| "acl_check rx p r (d # as) =
     (if acl_number d = p \<and> data_check rx (acl_rules d) r then True else acl_check rx p r as)"

definition acl_buildcfstr :: "nat \<Rightarrow> acls \<Rightarrow> string" where
  "acl_buildcfstr n as = (if n < length as then data_buildcfstr (as ! n) else [])"

text \<open>\<open>ps\<close>, \<open>us\<close> and \<open>cs\<close> are the parameters handed in, those of the mode and those of the command
node. The result is the message and the new lists.\<close>

definition acl_msg :: "string \<Rightarrow> string list \<Rightarrow> string list \<Rightarrow> string cres" where
  "acl_msg t us cs = cbind (first_param us) (\<lambda>u. cbind (first_param cs) (\<lambda>c.
     Inr (t @ u @ ''in acl # '' @ c)))"

definition acl_rule_cmd ::
    "(int \<Rightarrow> string option \<Rightarrow> acls \<Rightarrow> bool \<times> acls) \<Rightarrow> string \<Rightarrow> string list \<Rightarrow> string list \<Rightarrow> string list \<Rightarrow>
     acls \<Rightarrow> (string \<times> acls) cres" where
  "acl_rule_cmd f t ps us cs as =
     cbind (first_param us) (\<lambda>u. cbind (first_param ps) (\<lambda>p.
       case f (atoi_c u) (Some p) as of (ok, as') \<Rightarrow>
         if ok then Inr ([], as') else cbind (acl_msg t us cs) (\<lambda>m. Inr (m, as'))))"

definition acl_applycf ::
    "string \<Rightarrow> string list \<Rightarrow> string list \<Rightarrow> string list \<Rightarrow> acls \<Rightarrow> (string \<times> acls) cres" where
  "acl_applycf cmdname ps us cs as =
     (if cmdname = ''confAccessNo'' then
        cbind (first_param ps) (\<lambda>p. case acl_del (atoi_c p) as of (ok, as') \<Rightarrow>
          Inr (if ok then [] else ''% can not delete acl # '' @ p, as'))
      else if cmdname = ''confAccessNode'' then
        cbind (first_param ps) (\<lambda>p. Inr ([], acl_add (atoi_c p) as))
      else if cmdname = ''confAccessIntNoDeny'' then
        acl_rule_cmd acl_del_deny ''% can not delete deny rule '' ps us cs as
      else if cmdname = ''confAccessIntNoPermit'' then
        acl_rule_cmd acl_del_permit ''% can not delete permit rule '' ps us cs as
      else if cmdname = ''confAccessDeny'' then
        acl_rule_cmd acl_add_deny ''% can not add deny rule '' ps us cs as
      else if cmdname = ''confAccessPermit'' then
        acl_rule_cmd acl_add_permit ''% can not add permit rule '' ps us cs as
      else Inr ([], as))"

section \<open>The registry of lists\<close>

definition acl_keys :: "acls \<Rightarrow> int list" where
  "acl_keys as = map acl_number as"

lemma has_acl_iff: "has_acl n as = (n \<in> set (acl_keys as))"
  by (auto simp: has_acl_def acl_keys_def)

lemma acl_keys_simps [reg_simps]:
  "acl_keys (acl_add n as) = (if n \<in> set (acl_keys as) then acl_keys as else acl_keys as @ [n])"
  "acl_keys (snd (acl_del n as)) = filter (\<lambda>x. x \<noteq> n) (acl_keys as)"
  by (auto simp: acl_add_def has_acl_iff acl_del_def) (simp_all add: acl_keys_def new_acl_def map_filter_key)

interpretation acl_reg: registry acl_keys acl_add "\<lambda>p as. snd (acl_del p as)"
  by unfold_locales (simp_all add: reg_simps)

section \<open>The reference: the first rule that matches decides\<close>

datatype rule = Permit string | Deny string

fun rule_text :: "rule \<Rightarrow> string" where
  "rule_text (Permit r) = r"
| "rule_text (Deny r) = r"

definition first_match :: "regex \<Rightarrow> rule list \<Rightarrow> string \<Rightarrow> bool" where
  "first_match rx rs s = (case find (\<lambda>r. rx_hit rx (rule_text r) s) rs of
      Some (Permit r) \<Rightarrow> True | _ \<Rightarrow> False)"

datatype rule_op = AddRule rule | DelRule rule

fun spec_op :: "rule_op \<Rightarrow> rule list \<Rightarrow> rule list" where
  "spec_op (AddRule r) rs = (if rule_text r = [] then rs else rs @ [r])"
| "spec_op (DelRule r) rs = remove1 r rs"

fun acl_op :: "int \<Rightarrow> rule_op \<Rightarrow> acls \<Rightarrow> acls" where
  "acl_op p (AddRule (Permit r)) as = snd (acl_add_permit p (Some r) as)"
| "acl_op p (AddRule (Deny r)) as = snd (acl_add_deny p (Some r) as)"
| "acl_op p (DelRule (Permit r)) as = snd (acl_del_permit p (Some r) as)"
| "acl_op p (DelRule (Deny r)) as = snd (acl_del_deny p (Some r) as)"

fun entry_of :: "rule \<Rightarrow> acl_entry" where
  "entry_of (Permit r) = \<lparr> permit = r, deny = [] \<rparr>"
| "entry_of (Deny r) = \<lparr> permit = [], deny = r \<rparr>"

lemma rx_hit_empty [simp]: "\<not> rx_hit rx [] s"
  by (simp add: rx_hit_def Let_def snprintf_s_def c_str_def)

lemma data_check_first_match: "data_check rx (map entry_of rs) s = first_match rx rs s"
proof (induction rs)
  case (Cons r rs)
  then show ?case
    by (cases r) (simp_all add: checkPermit_def checkDeny_def first_match_def)
qed (simp add: first_match_def)

definition good_rules :: "rule list \<Rightarrow> bool" where
  "good_rules rs = (\<forall>r \<in> set rs. rule_text r \<noteq> [])"

lemma del_first_entry:
  "good_rules rs \<Longrightarrow> r \<noteq> [] \<Longrightarrow>
   del_first (\<lambda>e. permit e = r) (map entry_of rs) = map entry_of (remove1 (Permit r) rs) \<and>
   del_first (\<lambda>e. deny e = r) (map entry_of rs) = map entry_of (remove1 (Deny r) rs)"
proof (induction rs)
  case (Cons x rs)
  then show ?case by (cases x) (auto simp: good_rules_def)
qed simp

lemma remove1_empty_rule: "good_rules rs \<Longrightarrow> rule_text r = [] \<Longrightarrow> remove1 r rs = rs"
  by (auto simp: good_rules_def intro: remove1_idem)

text \<open>The lists of the state whose number is \<open>p\<close> stand for the rules \<open>rs\<close>.\<close>

definition acl_rep :: "int \<Rightarrow> rule list \<Rightarrow> acls \<Rightarrow> bool" where
  "acl_rep p rs as = (good_rules rs \<and>
     (\<exists>xs d ys. as = xs @ d # ys \<and> acl_number d = p \<and> acl_rules d = map entry_of rs \<and>
        (\<forall>x \<in> set xs. acl_number x \<noteq> p) \<and> (\<forall>x \<in> set ys. acl_number x \<noteq> p)))"

lemma acl_repI:
  "good_rules rs \<Longrightarrow> acl_number d = p \<Longrightarrow> acl_rules d = map entry_of rs \<Longrightarrow>
   \<forall>x \<in> set xs. acl_number x \<noteq> p \<Longrightarrow> \<forall>x \<in> set ys. acl_number x \<noteq> p \<Longrightarrow> acl_rep p rs (xs @ d # ys)"
  unfolding acl_rep_def by blast

lemma upd_first_split:
  "\<forall>x \<in> set xs. \<not> P x \<Longrightarrow> P d \<Longrightarrow> upd_first P f (xs @ d # ys) = xs @ f d # ys"
  by (induction xs) auto

lemma acl_rep_upd:
  assumes "acl_rep p rs as" "good_rules rs'"
    and "\<And>d. acl_number (f d) = acl_number d"
    and "\<And>d. acl_rules d = map entry_of rs \<Longrightarrow> acl_rules (f d) = map entry_of rs'"
  shows "acl_rep p rs' (upd_first (\<lambda>d. acl_number d = p) f as)"
proof -
  from assms(1) obtain xs d ys where d: "as = xs @ d # ys" "acl_number d = p"
    "acl_rules d = map entry_of rs" "\<forall>x \<in> set xs. acl_number x \<noteq> p" "\<forall>x \<in> set ys. acl_number x \<noteq> p"
    unfolding acl_rep_def by blast
  then have "upd_first (\<lambda>d. acl_number d = p) f as = xs @ f d # ys"
    by (simp add: upd_first_split)
  with d assms(2-4) show ?thesis by (simp add: acl_repI)
qed

lemma acl_rep_has: "acl_rep p rs as \<Longrightarrow> has_acl p as"
  by (auto simp: acl_rep_def has_acl_def)

lemma acl_rep_good: "acl_rep p rs as \<Longrightarrow> good_rules rs"
  by (simp add: acl_rep_def)

lemma data_numbers [simp]:
  "acl_number (data_add_permit r d) = acl_number d" "acl_number (data_add_deny r d) = acl_number d"
  "acl_number (data_del_permit r d) = acl_number d" "acl_number (data_del_deny r d) = acl_number d"
  by (auto simp: data_add_permit_def data_add_deny_def data_del_permit_def data_del_deny_def split: option.splits)

lemma good_spec_op: "good_rules rs \<Longrightarrow> good_rules (spec_op oper rs)"
  by (cases oper) (auto simp: good_rules_def dest: notin_set_remove1)

lemma acl_op_simulates: "acl_rep p rs as \<Longrightarrow> acl_rep p (spec_op oper rs) (acl_op p oper as)"
proof (induction p oper as rule: acl_op.induct)
  case (1 p r as)
  have "acl_rep p (spec_op (AddRule (Permit r)) rs) (upd_first (\<lambda>d. acl_number d = p) (data_add_permit (Some r)) as)"
    by (rule acl_rep_upd[OF 1 good_spec_op[OF acl_rep_good[OF 1]]]) (simp_all add: data_add_permit_def)
  then show ?case using acl_rep_has[OF 1] by (simp add: acl_add_permit_def)
next
  case (2 p r as)
  have "acl_rep p (spec_op (AddRule (Deny r)) rs) (upd_first (\<lambda>d. acl_number d = p) (data_add_deny (Some r)) as)"
    by (rule acl_rep_upd[OF 2 good_spec_op[OF acl_rep_good[OF 2]]]) (simp_all add: data_add_deny_def)
  then show ?case using acl_rep_has[OF 2] by (simp add: acl_add_deny_def)
next
  case (3 p r as)
  note g = acl_rep_good[OF 3]
  have "acl_rep p (spec_op (DelRule (Permit r)) rs) (upd_first (\<lambda>d. acl_number d = p) (data_del_permit (Some r)) as)"
    by (rule acl_rep_upd[OF 3 good_spec_op[OF g]])
      (use del_first_entry[OF g] remove1_empty_rule[OF g, of "Permit r"] in \<open>simp_all add: data_del_permit_def\<close>)
  then show ?case by (simp add: acl_del_permit_def)
next
  case (4 p r as)
  note g = acl_rep_good[OF 4]
  have "acl_rep p (spec_op (DelRule (Deny r)) rs) (upd_first (\<lambda>d. acl_number d = p) (data_del_deny (Some r)) as)"
    by (rule acl_rep_upd[OF 4 good_spec_op[OF g]])
      (use del_first_entry[OF g] remove1_empty_rule[OF g, of "Deny r"] in \<open>simp_all add: data_del_deny_def\<close>)
  then show ?case by (simp add: acl_del_deny_def)
qed

lemma acl_ops_simulate: "acl_rep p rs as \<Longrightarrow> acl_rep p (fold spec_op ops rs) (fold (acl_op p) ops as)"
  by (induction ops arbitrary: rs as) (auto intro: acl_op_simulates)

lemma acl_check_other: "\<forall>x \<in> set as. acl_number x \<noteq> p \<Longrightarrow> \<not> acl_check rx p s as"
  by (induction as) auto

lemma acl_check_append: "acl_check rx p s (as @ bs) = (acl_check rx p s as \<or> acl_check rx p s bs)"
  by (induction as) auto

lemma acl_check_rep: "acl_rep p rs as \<Longrightarrow> acl_check rx p s as = first_match rx rs s"
  by (auto simp: acl_rep_def acl_check_append acl_check_other data_check_first_match split: if_splits)

lemma acl_rep_new: "\<not> has_acl p as \<Longrightarrow> acl_rep p [] (acl_add p as)"
  using acl_repI[of "[]" "new_acl p" p as "[]"]
  by (simp add: acl_add_def has_acl_def new_acl_def good_rules_def)

section \<open>Properties\<close>

text \<open>C18: after any sequence of additions and deletions of rules of a new list, the decision
for a string is that of the first remaining rule that matches (in order of addition), and a refusal when
none does; deleting a rule takes away its first occurrence.\<close>

theorem acl_first_match:
  assumes "\<not> has_acl p as"
  shows "acl_check rx p s (fold (acl_op p) ops (acl_add p as)) = first_match rx (fold spec_op ops []) s"
  using acl_check_rep[OF acl_ops_simulate[OF acl_rep_new[OF assms]]] .

lemma acl_first_match_witness:
  "acl_check (\<lambda>p t. Some (p = t)) 7 ''ls''
     (fold (acl_op 7) [AddRule (Deny ''rm''), AddRule (Permit ''ls''), AddRule (Deny ''ls'')] (acl_add 7 []))"
  by (subst acl_first_match)
    (simp_all add: has_acl_def first_match_def rx_hit_def Let_def snprintf_s_short)

end
