(* ===== verification/CoreBilling.thy ===== *)
theory CoreBilling
  imports UserDb
begin

text \<open>
  Billing (\<^verbatim>\<open>src/CoreBilling.cc\<close>): the numbered billing modules with their configuration, and
  the table of user data shared by the sessions of a user, with its count of users. Loading a shared object is
  the parameter \<open>bilload\<close>, the text of an error or the empty string.
\<close>

section \<open>User data with a reference count\<close>

record user_data =
  ud_data :: db_user
  ud_numptr :: nat

definition new_user_data :: "db_user \<Rightarrow> user_data" where
  "new_user_data d = \<lparr> ud_data = d, ud_numptr = 0 \<rparr>"

definition ud_named :: "string \<Rightarrow> user_data \<Rightarrow> bool" where
  "ud_named u x = (du_username (ud_data x) = u)"

definition incNumPtr :: "user_data \<Rightarrow> user_data" where
  "incNumPtr x = x \<lparr> ud_numptr := Suc (ud_numptr x) \<rparr>"

definition decNumPtr :: "user_data \<Rightarrow> user_data" where
  "decNumPtr x = (if 0 < ud_numptr x then x \<lparr> ud_numptr := ud_numptr x - 1 \<rparr> else x)"

definition getUd :: "string \<Rightarrow> user_data list \<Rightarrow> db_user" where
  "getUd u ud = (case find (ud_named u) ud of Some x \<Rightarrow> ud_data x | None \<Rightarrow> new_db_user)"

definition addUd :: "db_user \<Rightarrow> user_data list \<Rightarrow> user_data list" where
  "addUd d ud =
     (if \<exists>x \<in> set ud. ud_named (du_username d) x then upd_first (ud_named (du_username d)) incNumPtr ud
      else ud @ [new_user_data d])"

text \<open>An entry counted once or less is erased; the loop goes over all entries of the name.\<close>

fun delUd :: "string \<Rightarrow> user_data list \<Rightarrow> user_data list" where
  "delUd u [] = []"
| "delUd u (x # ud) =
     (if ud_named u x then (if ud_numptr x \<le> 1 then delUd u ud else decNumPtr x # delUd u ud)
      else x # delUd u ud)"

section \<open>Modules\<close>

record billing_data =
  bl_number :: int
  bl_descr :: string
  bl_module :: string
  bl_shutdown :: bool
  bl_dl :: "string option"

definition new_billing :: "int \<Rightarrow> billing_data" where
  "new_billing n = \<lparr> bl_number = n, bl_descr = ''none'', bl_module = ''none.so'', bl_shutdown = False, bl_dl = None \<rparr>"

text \<open>\<open>bl_dl\<close>: the file name handed to the loader last; the object is there even when loading failed.\<close>

definition billing_load :: "(string \<Rightarrow> string) \<Rightarrow> billing_data \<Rightarrow> string \<times> billing_data" where
  "billing_load bilload b = (bilload (bl_module b), b \<lparr> bl_dl := Some (bl_module b) \<rparr>)"

definition billing_cfstr :: "billing_data \<Rightarrow> string" where
  "billing_cfstr b = '' billing '' @ dec_int (bl_number b) @ [CHR 0x0A] @
     ''  description '' @ [CHR 0x27] @ bl_descr b @ [CHR 0x27, CHR 0x0A] @
     ''  module '' @ bl_module b @ [CHR 0x0A] @ ''  exit''"

type_synonym billings = "billing_data list"

definition bil_add :: "int \<Rightarrow> billings \<Rightarrow> billings" where
  "bil_add n bd = (if \<exists>b \<in> set bd. bl_number b = n then bd else bd @ [new_billing n])"

definition bil_del :: "int \<Rightarrow> billings \<Rightarrow> billings" where
  "bil_del n bd = del_first (\<lambda>b. bl_number b = n) bd"

definition bil_modify_shut :: "int \<Rightarrow> bool \<Rightarrow> billings \<Rightarrow> billings" where
  "bil_modify_shut n s bd = upd_first (\<lambda>b. bl_number b = n) (\<lambda>b. b \<lparr> bl_shutdown := s \<rparr>) bd"

definition bil_modify_des :: "int \<Rightarrow> string \<Rightarrow> billings \<Rightarrow> billings" where
  "bil_modify_des n s bd = upd_first (\<lambda>b. bl_number b = n) (\<lambda>b. b \<lparr> bl_descr := s \<rparr>) bd"

definition bil_modify_mod :: "int \<Rightarrow> string \<Rightarrow> billings \<Rightarrow> billings" where
  "bil_modify_mod n m bd = upd_first (\<lambda>b. bl_number b = n) (\<lambda>b. b \<lparr> bl_module := m \<rparr>) bd"

definition bil_load :: "(string \<Rightarrow> string) \<Rightarrow> int \<Rightarrow> billings \<Rightarrow> string \<times> billings" where
  "bil_load bilload n bd = (case find (\<lambda>b. bl_number b = n) bd of
      None \<Rightarrow> ([], bd)
    | Some b \<Rightarrow> (fst (billing_load bilload b),
        upd_first (\<lambda>b. bl_number b = n) (\<lambda>b. snd (billing_load bilload b)) bd))"

definition bil_getmodulename :: "int \<Rightarrow> billings \<Rightarrow> string" where
  "bil_getmodulename n bd = (case find (\<lambda>b. bl_number b = n) bd of
      None \<Rightarrow> ''none.so'' | Some b \<Rightarrow> bl_module b)"

definition bil_buildcfstr :: "nat \<Rightarrow> billings \<Rightarrow> string" where
  "bil_buildcfstr n bd = (if n < length bd then billing_cfstr (bd ! n) else [])"

text \<open>A module that does not load is put back to the one before, which is loaded again.\<close>

definition bil_set_module :: "(string \<Rightarrow> string) \<Rightarrow> int \<Rightarrow> string \<Rightarrow> billings \<Rightarrow> billings" where
  "bil_set_module bilload n m bd =
     (let old = bil_getmodulename n bd; bd1 = bil_modify_mod n m bd
      in case bil_load bilload n bd1 of (str, bd2) \<Rightarrow>
           if 0 < length str then snd (bil_load bilload n (bil_modify_mod n old bd2)) else bd2)"

definition bil_applycf ::
    "(string \<Rightarrow> string) \<Rightarrow> string \<Rightarrow> string list \<Rightarrow> string list \<Rightarrow> billings \<Rightarrow> billings cres" where
  "bil_applycf bilload cmdname ps us bd =
     (if cmdname = ''confBillingNo'' then cbind (first_param ps) (\<lambda>p. Inr (bil_del (atoi_c p) bd))
      else if cmdname = ''confBillingNode'' then cbind (first_param ps) (\<lambda>p. Inr (bil_add (atoi_c p) bd))
      else if cmdname = ''confBillingDescr'' then
        cbind (first_param us) (\<lambda>u. cbind (first_param ps) (\<lambda>p. Inr (bil_modify_des (atoi_c u) p bd)))
      else if cmdname = ''confBillingModule'' then
        cbind (first_param us) (\<lambda>u. cbind (first_param ps) (\<lambda>p. Inr (bil_set_module bilload (atoi_c u) p bd)))
      else Inr bd)"

section \<open>The registry of modules\<close>

definition bil_keys :: "billings \<Rightarrow> int list" where
  "bil_keys bd = map bl_number bd"

lemma bil_keys_add [reg_simps]:
  "bil_keys (bil_add n bd) = (if n \<in> set (bil_keys bd) then bil_keys bd else bil_keys bd @ [n])"
  by (auto simp: bil_keys_def bil_add_def new_billing_def)

lemma bil_keys_del [reg_simps]:
  "distinct (bil_keys bd) \<Longrightarrow> bil_keys (bil_del n bd) = filter (\<lambda>x. x \<noteq> n) (bil_keys bd)"
  unfolding bil_keys_def bil_del_def by (rule map_del_first_key)

interpretation bil_reg: registry bil_keys bil_add bil_del
  by unfold_locales (simp_all add: reg_simps)

section \<open>Lemmas\<close>

lemma incNumPtr_data [simp]: "ud_data (incNumPtr x) = ud_data x" "ud_numptr (incNumPtr x) = Suc (ud_numptr x)"
  by (simp_all add: incNumPtr_def)

lemma decNumPtr_data [simp]: "ud_data (decNumPtr x) = ud_data x" "ud_numptr (decNumPtr x) = ud_numptr x - 1"
  by (simp_all add: decNumPtr_def)

lemma ud_named_simps [simp]:
  "ud_named u (incNumPtr x) = ud_named u x" "ud_named u (decNumPtr x) = ud_named u x"
  "ud_named u (new_user_data d) = (du_username d = u)"
  by (simp_all add: ud_named_def new_user_data_def)

definition ud_keys :: "user_data list \<Rightarrow> string list" where
  "ud_keys ud = map (\<lambda>x. du_username (ud_data x)) ud"

lemma ud_keys_add:
  "ud_keys (addUd d ud) = (if du_username d \<in> set (ud_keys ud) then ud_keys ud else ud_keys ud @ [du_username d])"
  by (auto simp: ud_keys_def addUd_def ud_named_def new_user_data_def map_upd_first intro: rev_image_eqI)

lemma set_ud_keys_del: "set (ud_keys (delUd u ud)) \<subseteq> set (ud_keys ud)"
  by (induction u ud rule: delUd.induct) (auto simp: ud_keys_def)

lemma distinct_ud_del: "distinct (ud_keys ud) \<Longrightarrow> distinct (ud_keys (delUd u ud))"
proof (induction u ud rule: delUd.induct)
  case (2 u x ud)
  then show ?case using set_ud_keys_del[of u ud] by (auto simp: ud_keys_def)
qed simp

lemma distinct_ud_add: "distinct (ud_keys ud) \<Longrightarrow> distinct (ud_keys (addUd d ud))"
  by (simp add: ud_keys_add)

text \<open>The count of a name: the count of its entry, and whether there is one.\<close>

definition ud_count :: "string \<Rightarrow> user_data list \<Rightarrow> nat option" where
  "ud_count u ud = map_option ud_numptr (find (ud_named u) ud)"

lemma find_ud_none: "u \<notin> set (ud_keys ud) \<Longrightarrow> find (ud_named u) ud = None"
  by (auto simp: find_None_iff ud_keys_def ud_named_def)

lemma ud_count_add:
  "ud_count u (addUd d ud) =
     (if du_username d = u then (case ud_count u ud of None \<Rightarrow> Some 0 | Some k \<Rightarrow> Some (Suc k)) else ud_count u ud)"
proof (cases "\<exists>x \<in> set ud. ud_named (du_username d) x")
  case True
  then obtain y where y: "find (ud_named (du_username d)) ud = Some y"
    by (cases "find (ud_named (du_username d)) ud") (auto simp: find_None_iff)
  show ?thesis
  proof (cases "du_username d = u")
    case True
    with y \<open>\<exists>x \<in> set ud. _\<close> show ?thesis
      by (simp add: addUd_def ud_count_def find_upd_first_same)
  next
    case False
    then have "find (ud_named u) (upd_first (ud_named (du_username d)) incNumPtr ud) = find (ud_named u) ud"
      by (intro find_upd_first_other) (auto simp: ud_named_def)
    with False True show ?thesis by (simp add: addUd_def ud_count_def)
  qed
next
  case False
  then have "find (ud_named (du_username d)) ud = None" by (auto simp: find_None_iff)
  with False show ?thesis
    by (auto simp: addUd_def ud_count_def find_append new_user_data_def split: option.splits)
      (auto simp: ud_named_def)
qed

lemma ud_count_del:
  "distinct (ud_keys ud) \<Longrightarrow> ud_count v (delUd u ud) =
     (if v = u then (case ud_count u ud of None \<Rightarrow> None | Some k \<Rightarrow> if k \<le> 1 then None else Some (k - 1))
      else ud_count v ud)"
proof (induction u ud rule: delUd.induct)
  case (2 u x ud)
  have d: "distinct (ud_keys ud)" "du_username (ud_data x) \<notin> set (ud_keys ud)" using "2.prems" by (auto simp: ud_keys_def)
  show ?case
  proof (cases "ud_named u x")
    case True
    then have n: "find (ud_named u) ud = None" using d(2) find_ud_none by (simp add: ud_named_def)
    have "u \<notin> set (ud_keys (delUd u ud))" using True d(2) set_ud_keys_del[of u ud] by (auto simp: ud_named_def)
    then have n': "find (ud_named u) (delUd u ud) = None" by (rule find_ud_none)
    show ?thesis
      using True n n' d(1) "2.IH" by (auto simp: ud_count_def ud_named_def)
  next
    case False
    with "2.IH"(3)[OF False d(1)] show ?thesis by (auto simp: ud_count_def ud_named_def)
  qed
qed (simp add: ud_count_def)

section \<open>Properties\<close>

datatype ud_op = AddUd db_user | DelUd string

fun ud_step :: "ud_op \<Rightarrow> user_data list \<Rightarrow> user_data list" where
  "ud_step (AddUd d) ud = addUd d ud"
| "ud_step (DelUd u) ud = delUd u ud"

lemma distinct_ud_step: "distinct (ud_keys ud) \<Longrightarrow> distinct (ud_keys (ud_step oper ud))"
  by (cases oper) (auto intro: distinct_ud_add distinct_ud_del)

lemma ud_adds: "ud_count u (fold addUd ds ud) =
    (case (ud_count u ud, length (filter (\<lambda>d. du_username d = u) ds)) of
       (None, 0) \<Rightarrow> None | (None, Suc n) \<Rightarrow> Some n | (Some k, n) \<Rightarrow> Some (k + n))"
  by (induction ds arbitrary: ud) (auto simp: ud_count_add split: option.splits nat.splits)

lemma distinct_ud_adds: "distinct (ud_keys ud) \<Longrightarrow> distinct (ud_keys (fold addUd ds ud))"
  by (induction ds arbitrary: ud) (auto intro: distinct_ud_add)

lemma ud_dels: "distinct (ud_keys ud) \<Longrightarrow> ud_count u ((delUd u ^^ k) ud) =
    (case ud_count u ud of None \<Rightarrow> None | Some n \<Rightarrow> if k = 0 \<or> k < n then Some (n - k) else None)"
proof (induction k arbitrary: ud)
  case (Suc k)
  have "ud_count u ((delUd u ^^ Suc k) ud) = ud_count u ((delUd u ^^ k) (delUd u ud))"
    by (simp add: funpow_swap1)
  also have "\<dots> = (case ud_count u ud of None \<Rightarrow> None | Some n \<Rightarrow> if Suc k < n then Some (n - Suc k) else None)"
    using Suc.IH[OF distinct_ud_del[OF Suc.prems]] Suc.prems
    by (auto simp: ud_count_del split: option.splits)
  finally show ?case by (auto split: option.splits)
qed (auto split: option.splits)

text \<open>The count of a user's data is one too low. After \<open>n > 1\<close> sessions of a new user the data
survives exactly \<open>n - 2\<close> ends of a session: with the last but one it is erased, while one session still
uses it.\<close>

lemma billing_refcount:
  assumes "\<forall>d \<in> set ds. du_username d = u" "1 < length ds" "k \<le> length ds" "0 < k"
  shows "(ud_count u ((delUd u ^^ k) (fold addUd ds [])) \<noteq> None) = (k + 1 < length ds)"
proof -
  obtain n where n: "length ds = Suc n" using assms(2) by (cases "length ds") auto
  have f: "filter (\<lambda>d. du_username d = u) ds = ds" using assms(1) by (simp add: filter_id_conv)
  have "ud_count u (fold addUd ds []) = Some n"
    using ud_adds[of u ds "[]"] n by (simp add: f ud_count_def)
  moreover have "distinct (ud_keys (fold addUd ds []))" by (rule distinct_ud_adds) (simp add: ud_keys_def)
  ultimately show ?thesis using ud_dels[of "fold addUd ds []" u k] n assms(3,4) by auto
qed

lemma billing_refcount_witness:
  "ud_count [] ((delUd [] ^^ 1) (fold addUd [new_db_user, new_db_user] [])) = None"
  using billing_refcount[of "[new_db_user, new_db_user]" "[]" 1] by (simp add: new_db_user_def)

end
