(* ===== verification/CoreDevice.thy ===== *)
theory CoreDevice
  imports IpAddr CoreBilling UtilsTime UtilsMatch
begin

text \<open>
  Network devices and the sessions of their users (\<^verbatim>\<open>src/CoreDevice.cc\<close>). The data of a
  user is shared through the table of \<^verbatim>\<open>CoreBilling\<close>: making a session counts it there, the destructor of every
  \<^verbatim>\<open>DeviceUser_data\<close> object uncounts it, copies that are only returned to a caller included. Loading a
  module is a parameter; the requests to drop a port are results (\<open>Snmp\<close>), the polling is in \<open>Polling\<close>.
\<close>

section \<open>Sessions\<close>

record session =
  ses_present :: bool
  ses_username :: string
  ses_port :: string
  ses_phone :: string
  ses_active :: bool
  ses_last :: int
  ses_nas :: ipaddr
  ses_addr :: ipaddr

definition new_session :: "int \<Rightarrow> string \<Rightarrow> string \<Rightarrow> string \<Rightarrow> ipaddr \<Rightarrow> ipaddr \<Rightarrow> session" where
  "new_session now u p t n ua = \<lparr> ses_present = True, ses_username = u, ses_port = p, ses_phone = t,
     ses_active = False, ses_last = now, ses_nas = n, ses_addr = ua \<rparr>"

definition absent_session :: "dns \<Rightarrow> int \<Rightarrow> session" where
  "absent_session dns now = \<lparr> ses_present = False, ses_username = [], ses_port = [], ses_phone = [],
     ses_active = False, ses_last = now, ses_nas = ip_default dns, ses_addr = ip_default dns \<rparr>"

definition ses_update :: "dns \<Rightarrow> int \<Rightarrow> string \<Rightarrow> string \<Rightarrow> ipaddr \<Rightarrow> session \<Rightarrow> session" where
  "ses_update dns now p t ua s = s \<lparr> ses_port := p,
     ses_phone := (if length (ses_phone s) < length t then t else ses_phone s),
     ses_addr := (if \<not> ip_eq_str dns ua UNKNOWN_IP \<and> \<not> ip_eq_str dns ua ''0.0.0.0'' then ua else ses_addr s),
     ses_last := now \<rparr>"

definition ses_expired :: "int \<Rightarrow> session \<Rightarrow> bool" where
  "ses_expired now s = (if ses_active s then False else 61 < now - ses_last s)"

text \<open>Assigning a session passes it by value: the data is counted once more, then the parameter is
destroyed.\<close>

definition ses_assign :: "session \<Rightarrow> user_data list \<Rightarrow> user_data list" where
  "ses_assign a ud = delUd (ses_username a) (addUd (getUd (ses_username a) ud) ud)"

definition ses_destroy :: "session \<Rightarrow> user_data list \<Rightarrow> user_data list" where
  "ses_destroy s ud = delUd (ses_username s) ud"

text \<open>May the session go on at time \<open>t\<close>? Without rows of access times it may not.\<close>

fun acc_time_ok :: "tm \<Rightarrow> db_user_acc list \<Rightarrow> bool cres option" where
  "acc_time_ok tt [] = Some (Inr False)"
| "acc_time_ok tt (a # as) = (case check_time tt (Some (acc_time a)) of
      None \<Rightarrow> None
    | Some (Inl e) \<Rightarrow> Some (Inl e)
    | Some (Inr b) \<Rightarrow> if b then Some (Inr True) else acc_time_ok tt as)"

definition match_time :: "tm \<Rightarrow> int \<Rightarrow> user_data list \<Rightarrow> session \<Rightarrow> bool cres option" where
  "match_time tt t ud s = (let d = getUd (ses_username s) ud
     in if \<not> du_result d then Some (Inr True)
        else if t < du_open d \<or> du_close d < t \<and> 100 < du_close d then Some (Inr False)
        else acc_time_ok tt (du_acc d))"

section \<open>The sessions of one device\<close>

type_synonym sessions = "session list \<times> user_data list"

definition dus_push :: "session \<Rightarrow> sessions \<Rightarrow> bool \<times> sessions" where
  "dus_push s st = (case st of (cusr, ud) \<Rightarrow>
     if \<exists>x \<in> set cusr. ip_eq (ses_nas x) (ses_nas s) \<and> ses_username x = ses_username s \<and> ses_port x = ses_port s
     then (False, cusr, ud) else (True, cusr @ [s], ud))"

fun dus_expire :: "int \<Rightarrow> session list \<Rightarrow> user_data list \<Rightarrow> sessions" where
  "dus_expire now [] ud = ([], ud)"
| "dus_expire now (s # cusr) ud =
     (if \<not> ses_active s \<and> ses_expired now s then dus_expire now cusr (ses_destroy s ud)
      else case dus_expire now cusr ud of (c, ud') \<Rightarrow> (s # c, ud'))"

fun dus_del :: "string \<Rightarrow> session list \<Rightarrow> user_data list \<Rightarrow> bool \<times> sessions" where
  "dus_del p [] ud = (False, [], ud)"
| "dus_del p (s # cusr) ud =
     (if ses_port s = p then (True, cusr, ses_destroy s ud)
      else case dus_del p cusr ud of (r, c, ud') \<Rightarrow> (r, s # c, ud'))"

definition dus_del_all :: "session list \<Rightarrow> user_data list \<Rightarrow> sessions" where
  "dus_del_all cusr ud = ([], fold ses_destroy cusr ud)"

text \<open>The first session of the port decides: of the same user it is renewed and made active, of another it is
erased.\<close>

fun dus_activate ::
    "dns \<Rightarrow> int \<Rightarrow> string \<Rightarrow> string \<Rightarrow> string \<Rightarrow> ipaddr \<Rightarrow> session list \<Rightarrow> user_data list \<Rightarrow> bool \<times> sessions" where
  "dus_activate dns now u p t ua [] ud = (False, [], ud)"
| "dus_activate dns now u p t ua (s # cusr) ud =
     (if ses_port s = p then
        (if ses_username s = u then (True, (ses_update dns now p t ua s) \<lparr> ses_active := True \<rparr> # cusr, ud)
         else (False, cusr, ses_destroy s ud))
      else case dus_activate dns now u p t ua cusr ud of (r, c, ud') \<Rightarrow> (r, s # c, ud'))"

definition dus_add ::
    "int \<Rightarrow> ipaddr \<Rightarrow> string \<Rightarrow> string \<Rightarrow> string \<Rightarrow> ipaddr \<Rightarrow> db_user \<Rightarrow> session list \<Rightarrow> user_data list \<Rightarrow>
     bool \<times> sessions" where
  "dus_add now n u p t a d cusr ud =
     (if \<exists>s \<in> set cusr. ses_port s = p \<and> ses_username s = u then (False, cusr, ud)
      else (True, cusr @ [new_session now u p t n a], addUd d ud))"

fun dus_periodic :: "tm \<Rightarrow> int \<Rightarrow> session list \<Rightarrow> user_data list \<Rightarrow> (string \<times> string) list cres option" where
  "dus_periodic tt t [] ud = Some (Inr [])"
| "dus_periodic tt t (s # cusr) ud = (case match_time tt t ud s of
      None \<Rightarrow> None
    | Some (Inl e) \<Rightarrow> Some (Inl e)
    | Some (Inr b) \<Rightarrow>
        (case dus_periodic tt t cusr ud of
           None \<Rightarrow> None
         | Some (Inl e) \<Rightarrow> Some (Inl e)
         | Some (Inr ds) \<Rightarrow>
             Some (Inr (if b then ds
               else (snprintf_s 19 (ip_get (ses_nas s)), snprintf_s 39 (ses_port s)) # ds))))"

definition dus_numsess :: "string \<Rightarrow> session list \<Rightarrow> nat" where
  "dus_numsess u cusr = length (filter (\<lambda>s. ses_username s = u \<and> ses_active s \<and>
     (scompn (Some (ses_port s)) (Some ''As'') 2 \<or> scompn (Some (ses_port s)) (Some ''Se'') 2)) cusr)"

section \<open>Devices\<close>

record device =
  hostaddr :: ipaddr
  community :: string
  dev_descr :: string
  dev_module :: string
  tac_key :: string
  loginstring :: string
  pwdstring :: string
  dev_counter :: bool
  dev_delay :: int
  dev_shutdown :: bool
  snmppolling :: bool
  icmppolling :: bool
  def_author :: bool
  dev_rest :: int
  dev_status :: bool
  dev_dl :: "string option"
  cusr :: "session list"

definition new_device :: "ipaddr \<Rightarrow> device" where
  "new_device h = \<lparr> hostaddr = h, community = ''public'', dev_descr = ''unknown'', dev_module = ''none.so'',
     tac_key = ''tacacs'', loginstring = ''login:'', pwdstring = ''password:'', dev_counter = False,
     dev_delay = 60, dev_shutdown = True, snmppolling = False, icmppolling = False, def_author = False,
     dev_rest = 0, dev_status = False, dev_dl = None, cusr = [] \<rparr>"

definition yesno :: "bool \<Rightarrow> string" where
  "yesno b = (if b then ''yes'' else ''no'')"

definition quoted :: "string \<Rightarrow> string" where
  "quoted s = [CHR 0x27] @ s @ [CHR 0x27, CHR 0x0A]"

definition dev_cfstr :: "device \<Rightarrow> string" where
  "dev_cfstr d = '' device '' @ hname (hostaddr d) @ [CHR 0x0A] @
     ''  description '' @ quoted (dev_descr d) @ ''  tacacskey '' @ quoted (tac_key d) @
     ''  snmpcommunity '' @ quoted (community d) @ ''  loginstring '' @ quoted (loginstring d) @
     ''  pwdstring '' @ quoted (pwdstring d) @
     ''  defauthorization '' @ yesno (def_author d) @ [CHR 0x0A] @ ''  module '' @ dev_module d @ [CHR 0x0A] @
     ''  polldelay '' @ dec_int (dev_delay d) @ [CHR 0x0A] @ ''  inttrfcount '' @ yesno (dev_counter d) @ [CHR 0x0A] @
     ''  snmppolling '' @ yesno (snmppolling d) @ [CHR 0x0A] @ ''  icmppolling '' @ yesno (icmppolling d) @ [CHR 0x0A] @
     ''  shutdown '' @ yesno (dev_shutdown d) @ [CHR 0x0A] @ ''  exit''"

text \<open>\<open>snmpload\<close> is the text of a loading error, \<open>has_funcs\<close> whether a loaded module has the two functions the
source looks up.\<close>

definition dev_load :: "(string \<Rightarrow> string) \<Rightarrow> (string \<Rightarrow> bool) \<Rightarrow> device \<Rightarrow> string \<times> device" where
  "dev_load snmpload has_funcs d =
     (let str = snmpload (dev_module d); d' = d \<lparr> dev_dl := Some (dev_module d) \<rparr>
      in if 0 < length str then (str, d')
         else (if has_funcs (dev_module d) then [] else ''Unknown snmp module '' @ dev_module d @ '' format'', d'))"

record net =
  nas :: "device list"
  ud :: "user_data list"

definition at_ip :: "ipaddr \<Rightarrow> device \<Rightarrow> bool" where
  "at_ip ip d = ip_eq (hostaddr d) ip"

definition get_dev :: "ipaddr \<Rightarrow> net \<Rightarrow> device option" where
  "get_dev ip st = find (at_ip ip) (nas st)"

definition dev_add :: "ipaddr \<Rightarrow> net \<Rightarrow> net" where
  "dev_add ip st = (if get_dev ip st \<noteq> None then st else st \<lparr> nas := nas st @ [new_device ip] \<rparr>)"

definition dev_del :: "ipaddr \<Rightarrow> net \<Rightarrow> net" where
  "dev_del ip st = st \<lparr> nas := filter (\<lambda>d. \<not> at_ip ip d) (nas st),
     ud := fold (\<lambda>d. fold ses_destroy (cusr d)) (filter (at_ip ip) (nas st)) (ud st) \<rparr>"

definition dev_modify :: "ipaddr \<Rightarrow> (device \<Rightarrow> device) \<Rightarrow> net \<Rightarrow> net" where
  "dev_modify ip f st = st \<lparr> nas := upd_first (at_ip ip) f (nas st) \<rparr>"

definition modifyCommunity :: "ipaddr \<Rightarrow> string \<Rightarrow> net \<Rightarrow> net" where
  "modifyCommunity ip c = dev_modify ip (\<lambda>d. d \<lparr> community := c \<rparr>)"

definition modifyCounter :: "ipaddr \<Rightarrow> bool \<Rightarrow> net \<Rightarrow> net" where
  "modifyCounter ip c = dev_modify ip (\<lambda>d. d \<lparr> dev_counter := c \<rparr>)"

definition modifyDelay :: "ipaddr \<Rightarrow> int \<Rightarrow> net \<Rightarrow> net" where
  "modifyDelay ip n = dev_modify ip (\<lambda>d. d \<lparr> dev_delay := n \<rparr>)"

definition modifyDescr :: "ipaddr \<Rightarrow> string \<Rightarrow> net \<Rightarrow> net" where
  "modifyDescr ip s = dev_modify ip (\<lambda>d. d \<lparr> dev_descr := s \<rparr>)"

definition modifyModule :: "ipaddr \<Rightarrow> string \<Rightarrow> net \<Rightarrow> net" where
  "modifyModule ip m = dev_modify ip (\<lambda>d. d \<lparr> dev_module := m \<rparr>)"

definition modifyKey :: "ipaddr \<Rightarrow> string \<Rightarrow> net \<Rightarrow> net" where
  "modifyKey ip k = dev_modify ip (\<lambda>d. d \<lparr> tac_key := k \<rparr>)"

definition modifyLogin :: "ipaddr \<Rightarrow> string \<Rightarrow> net \<Rightarrow> net" where
  "modifyLogin ip s = dev_modify ip (\<lambda>d. d \<lparr> loginstring := s \<rparr>)"

definition modifyPwd :: "ipaddr \<Rightarrow> string \<Rightarrow> net \<Rightarrow> net" where
  "modifyPwd ip s = dev_modify ip (\<lambda>d. d \<lparr> pwdstring := s \<rparr>)"

definition modifyDef :: "ipaddr \<Rightarrow> bool \<Rightarrow> net \<Rightarrow> net" where
  "modifyDef ip b = dev_modify ip (\<lambda>d. d \<lparr> def_author := b \<rparr>)"

definition modifyShut :: "ipaddr \<Rightarrow> bool \<Rightarrow> net \<Rightarrow> net" where
  "modifyShut ip b = dev_modify ip (\<lambda>d. d \<lparr> dev_shutdown := b \<rparr>)"

definition modifySnmp :: "ipaddr \<Rightarrow> bool \<Rightarrow> net \<Rightarrow> net" where
  "modifySnmp ip b = dev_modify ip (\<lambda>d. d \<lparr> snmppolling := b \<rparr>)"

definition modifyIcmp :: "ipaddr \<Rightarrow> bool \<Rightarrow> net \<Rightarrow> net" where
  "modifyIcmp ip b = dev_modify ip (\<lambda>d. d \<lparr> icmppolling := b \<rparr>)"

definition setDeviceStatus :: "ipaddr \<Rightarrow> bool \<Rightarrow> net \<Rightarrow> net" where
  "setDeviceStatus ip b = dev_modify ip (\<lambda>d. d \<lparr> dev_status := b \<rparr>)"

definition get_device_status :: "ipaddr \<Rightarrow> net \<Rightarrow> bool" where
  "get_device_status ip st = (case get_dev ip st of Some d \<Rightarrow> dev_status d | None \<Rightarrow> False)"

definition getCommunity :: "ipaddr \<Rightarrow> net \<Rightarrow> string" where
  "getCommunity ip st = (case get_dev ip st of Some d \<Rightarrow> community d | None \<Rightarrow> [])"

definition dev_getmodulename :: "ipaddr \<Rightarrow> net \<Rightarrow> string" where
  "dev_getmodulename ip st = (case get_dev ip st of Some d \<Rightarrow> dev_module d | None \<Rightarrow> ''none.so'')"

definition dev_load_at :: "(string \<Rightarrow> string) \<Rightarrow> (string \<Rightarrow> bool) \<Rightarrow> ipaddr \<Rightarrow> net \<Rightarrow> string \<times> net" where
  "dev_load_at ld hf ip st = (case get_dev ip st of
      None \<Rightarrow> ([], st) | Some d \<Rightarrow> (fst (dev_load ld hf d), dev_modify ip (\<lambda>d. snd (dev_load ld hf d)) st))"

definition dev_getip :: "dns \<Rightarrow> nat \<Rightarrow> net \<Rightarrow> ipaddr" where
  "dev_getip dns n st = (if n < length (nas st) then hostaddr (nas st ! n) else ip_fill dns UNKNOWN_IP)"

definition dev_buildcfstr :: "nat \<Rightarrow> net \<Rightarrow> string" where
  "dev_buildcfstr n st = (if n < length (nas st) then dev_cfstr (nas st ! n) else [])"

section \<open>Sessions over all devices\<close>

definition net_expire :: "int \<Rightarrow> net \<Rightarrow> net" where
  "net_expire now st =
     (case fold (\<lambda>d (ds, u). case dus_expire now (cusr d) u of (c, u') \<Rightarrow> (ds @ [d \<lparr> cusr := c \<rparr>], u')) (nas st) ([], ud st)
      of (ds, u) \<Rightarrow> st \<lparr> nas := ds, ud := u \<rparr>)"

fun try_devs :: "(device \<Rightarrow> bool) \<Rightarrow> (session list \<Rightarrow> user_data list \<Rightarrow> bool \<times> sessions) \<Rightarrow>
    device list \<Rightarrow> user_data list \<Rightarrow> bool \<times> device list \<times> user_data list" where
  "try_devs P f [] u = (False, [], u)"
| "try_devs P f (d # ds) u =
     (if P d then (case f (cusr d) u of (r, c, u') \<Rightarrow>
        if r then (True, d \<lparr> cusr := c \<rparr> # ds, u')
        else case try_devs P f ds u' of (r', ds', u'') \<Rightarrow> (r', d \<lparr> cusr := c \<rparr> # ds', u''))
      else case try_devs P f ds u of (r', ds', u') \<Rightarrow> (r', d # ds', u'))"

definition net_usr_del :: "ipaddr \<Rightarrow> string \<Rightarrow> net \<Rightarrow> bool \<times> net" where
  "net_usr_del n p st = (case try_devs (at_ip n) (dus_del p) (nas st) (ud st) of
      (r, ds, u) \<Rightarrow> (r, st \<lparr> nas := ds, ud := u \<rparr>))"

definition net_usr_del_all :: "ipaddr \<Rightarrow> net \<Rightarrow> net" where
  "net_usr_del_all n st = (case get_dev n st of
      None \<Rightarrow> st
    | Some d \<Rightarrow> st \<lparr> nas := upd_first (at_ip n) (\<lambda>d. d \<lparr> cusr := [] \<rparr>) (nas st), ud := snd (dus_del_all (cusr d) (ud st)) \<rparr>)"

definition net_usr_activate :: "dns \<Rightarrow> int \<Rightarrow> ipaddr \<Rightarrow> string \<Rightarrow> string \<Rightarrow> string \<Rightarrow> ipaddr \<Rightarrow> net \<Rightarrow> bool \<times> net" where
  "net_usr_activate dns now n u p t a st = (case try_devs (at_ip n) (dus_activate dns now u p t a) (nas st) (ud st) of
      (r, ds, u') \<Rightarrow> (r, st \<lparr> nas := ds, ud := u' \<rparr>))"

definition net_usr_add :: "int \<Rightarrow> ipaddr \<Rightarrow> string \<Rightarrow> string \<Rightarrow> string \<Rightarrow> ipaddr \<Rightarrow> db_user \<Rightarrow> net \<Rightarrow> bool \<times> net" where
  "net_usr_add now n u p t a d st = (case get_dev n st of
      None \<Rightarrow> (False, st)
    | Some dv \<Rightarrow> (case dus_add now n u p t a d (cusr dv) (ud st) of (r, c, u') \<Rightarrow>
        (r, st \<lparr> nas := upd_first (at_ip n) (\<lambda>x. x \<lparr> cusr := c \<rparr>) (nas st), ud := u' \<rparr>)))"

definition net_numsess :: "string \<Rightarrow> net \<Rightarrow> nat" where
  "net_numsess u st = sum_list (map (\<lambda>d. dus_numsess u (cusr d)) (nas st))"

fun net_periodic :: "tm \<Rightarrow> int \<Rightarrow> device list \<Rightarrow> user_data list \<Rightarrow> (string \<times> string) list cres option" where
  "net_periodic tt t [] u = Some (Inr [])"
| "net_periodic tt t (d # ds) u = (case dus_periodic tt t (cusr d) u of
      None \<Rightarrow> None
    | Some (Inl e) \<Rightarrow> Some (Inl e)
    | Some (Inr xs) \<Rightarrow> (case net_periodic tt t ds u of
        None \<Rightarrow> None | Some (Inl e) \<Rightarrow> Some (Inl e) | Some (Inr ys) \<Rightarrow> Some (Inr (xs @ ys))))"

text \<open>Only the active server of a bundle drops sessions.\<close>

definition usr_periodic :: "bool \<Rightarrow> tm \<Rightarrow> int \<Rightarrow> net \<Rightarrow> (string \<times> string) list cres option" where
  "usr_periodic active tt t st = (if \<not> active then Some (Inr []) else net_periodic tt t (nas st) (ud st))"

text \<open>
  Reading the n-th session. \<^verbatim>\<open>gets\<close> assigns the session to a local that becomes the result in place;
  \<^verbatim>\<open>getuser\<close> assigns each result to a local, copies it out and destroys its two locals.
\<close>

definition dus_gets :: "dns \<Rightarrow> int \<Rightarrow> nat \<Rightarrow> session list \<Rightarrow> user_data list \<Rightarrow> session \<times> user_data list" where
  "dus_gets dns now n c u = (if n < length c then (c ! n, ses_assign (c ! n) u) else (absent_session dns now, u))"

fun walk_sessions :: "session \<Rightarrow> session list \<Rightarrow> nat \<Rightarrow> user_data list \<Rightarrow> session option \<times> nat \<times> user_data list" where
  "walk_sessions none [] n u = (None, n, ses_assign none u)"
| "walk_sessions none (s # c) n u =
     (let u' = ses_assign s (ses_assign s u) in if n = 0 then (Some s, 0, u') else walk_sessions none c (n - 1) u')"

fun walk_devices :: "session \<Rightarrow> device list \<Rightarrow> nat \<Rightarrow> user_data list \<Rightarrow> session option \<times> user_data list" where
  "walk_devices none [] n u = (None, u)"
| "walk_devices none (d # ds) n u = (case walk_sessions none (cusr d) n u of
      (Some s, k, u') \<Rightarrow> (Some s, u')
    | (None, k, u') \<Rightarrow> walk_devices none ds k u')"

definition getuser :: "dns \<Rightarrow> int \<Rightarrow> nat \<Rightarrow> net \<Rightarrow> session \<times> net" where
  "getuser dns now n st = (let none = absent_session dns now in
     case walk_devices none (nas st) n (ud st) of
       (Some s, u) \<Rightarrow> (s, st \<lparr> ud := ses_destroy s (ses_destroy none u) \<rparr>)
     | (None, u) \<Rightarrow> (none, st \<lparr> ud := ses_destroy none (ses_destroy none u) \<rparr>))"

section \<open>Commands\<close>

definition yes_param :: "(string \<Rightarrow> bool) \<Rightarrow> string \<Rightarrow> bool cres" where
  "yes_param rc p = cbind (vmatch rc (Some p) (Some ''Yes'')) (\<lambda>v. Inr (0 < length v))"

definition set_module :: "(string \<Rightarrow> string) \<Rightarrow> (string \<Rightarrow> bool) \<Rightarrow> ipaddr \<Rightarrow> string \<Rightarrow> net \<Rightarrow> string \<times> net" where
  "set_module ld hf ip m st =
     (let old = dev_getmodulename ip st
      in case dev_load_at ld hf ip (modifyModule ip m st) of (str, st2) \<Rightarrow>
           if 0 < length str then (str, snd (dev_load_at ld hf ip (modifyModule ip old st2))) else (str, st2))"

text \<open>The commands inside a device: \<open>u\<close> is the device, \<open>p\<close> the value.\<close>

definition dev_cmd :: "dns \<Rightarrow> (string \<Rightarrow> bool) \<Rightarrow> (string \<Rightarrow> string) \<Rightarrow> (string \<Rightarrow> bool) \<Rightarrow> string \<Rightarrow> string \<Rightarrow> string \<Rightarrow>
    net \<Rightarrow> (string \<times> net) cres" where
  "dev_cmd dns rc ld hf cmdname u p st =
     (let ip = ip_fill dns u;
          flag = (\<lambda>f. cbind (yes_param rc p) (\<lambda>b. Inr ([], f ip b st)))
      in if cmdname = ''confDeviceDescr'' then Inr ([], modifyDescr ip p st)
         else if cmdname = ''confDeviceTKey'' then Inr ([], modifyKey ip p st)
         else if cmdname = ''confDeviceSnmpComm'' then Inr ([], modifyCommunity ip p st)
         else if cmdname = ''confDeviceLogin'' then Inr ([], modifyLogin ip p st)
         else if cmdname = ''confDevicePwd'' then Inr ([], modifyPwd ip p st)
         else if cmdname = ''confDeviceDauth'' then flag modifyDef
         else if cmdname = ''confDeviceModule'' then Inr (set_module ld hf ip p st)
         else if cmdname = ''confDevicePollDelay'' then Inr ([], modifyDelay ip (atoi_c p) st)
         else if cmdname = ''confDeviceIntrfCount'' then flag modifyCounter
         else if cmdname = ''confDeviceSnmpPolling'' then flag modifySnmp
         else if cmdname = ''confDeviceIcmpPolling'' then flag modifyIcmp
         else if cmdname = ''confDeviceShut'' then flag modifyShut
         else Inr ([], st))"

definition dev_cmds :: "string list" where
  "dev_cmds = [''confDeviceDescr'', ''confDeviceTKey'', ''confDeviceSnmpComm'', ''confDeviceLogin'', ''confDevicePwd'',
     ''confDeviceDauth'', ''confDeviceModule'', ''confDevicePollDelay'', ''confDeviceIntrfCount'',
     ''confDeviceSnmpPolling'', ''confDeviceIcmpPolling'', ''confDeviceShut'']"

definition dev_applycf :: "dns \<Rightarrow> (string \<Rightarrow> bool) \<Rightarrow> (string \<Rightarrow> string) \<Rightarrow> (string \<Rightarrow> bool) \<Rightarrow> string \<Rightarrow> string list \<Rightarrow>
    string list \<Rightarrow> net \<Rightarrow> (string \<times> net) cres" where
  "dev_applycf dns rc ld hf cmdname ps us st =
     (if cmdname = ''confDeviceNo'' then cbind (first_param ps) (\<lambda>p. Inr ([], dev_del (ip_fill dns p) st))
      else if cmdname = ''confDeviceNode'' then cbind (first_param ps) (\<lambda>p. Inr ([], dev_add (ip_fill dns p) st))
      else if cmdname \<in> set dev_cmds then
        cbind (first_param us) (\<lambda>u. cbind (first_param ps) (\<lambda>p. dev_cmd dns rc ld hf cmdname u p st))
      else Inr ([], st))"

section \<open>The registry of devices\<close>

definition dev_keys :: "net \<Rightarrow> ipv4 list" where
  "dev_keys st = map (\<lambda>d. ipa (hostaddr d)) (nas st)"

lemma dev_keys_simps [reg_simps]:
  "dev_keys (dev_add ip st) = (if ipa ip \<in> set (dev_keys st) then dev_keys st else dev_keys st @ [ipa ip])"
  "dev_keys (dev_del ip st) = filter (\<lambda>x. x \<noteq> ipa ip) (dev_keys st)"
proof -
  show "dev_keys (dev_add ip st) = (if ipa ip \<in> set (dev_keys st) then dev_keys st else dev_keys st @ [ipa ip])"
    by (auto simp: dev_keys_def dev_add_def get_dev_def at_ip_def ip_eq_def find_None_iff new_device_def intro: rev_image_eqI)
  show "dev_keys (dev_del ip st) = filter (\<lambda>x. x \<noteq> ipa ip) (dev_keys st)"
    using map_filter_key[of "\<lambda>d. ipa (hostaddr d)" "ipa ip" "nas st"]
    by (simp add: dev_keys_def dev_del_def at_ip_def ip_eq_def)
qed

interpretation dev_reg: registry dev_keys "\<lambda>k. dev_add \<lparr> hname = h k, ipa = k \<rparr>" "\<lambda>k. dev_del \<lparr> hname = h k, ipa = k \<rparr>" for h
  by unfold_locales (simp_all add: reg_simps)

section \<open>One session per port and user\<close>

definition ses_key :: "session \<Rightarrow> string \<times> string" where
  "ses_key s = (ses_port s, ses_username s)"

definition ses_unique :: "session list \<Rightarrow> bool" where
  "ses_unique c = distinct (map ses_key c)"

definition net_unique :: "net \<Rightarrow> bool" where
  "net_unique st = (\<forall>d \<in> set (nas st). ses_unique (cusr d))"

lemma dus_expire_sub: "dus_expire now c u = (c', u') \<Longrightarrow> set c' \<subseteq> set c \<and> (ses_unique c \<longrightarrow> ses_unique c')"
proof (induction now c u arbitrary: c' u' rule: dus_expire.induct)
  case (2 now s c u)
  then show ?case
    by (fastforce simp: ses_unique_def split: if_splits prod.splits)
qed (simp add: ses_unique_def)

lemma dus_del_sub: "dus_del p c u = (r, c', u') \<Longrightarrow> set c' \<subseteq> set c \<and> (ses_unique c \<longrightarrow> ses_unique c')"
proof (induction p c u arbitrary: r c' u' rule: dus_del.induct)
  case (2 p s c u)
  then show ?case by (fastforce simp: ses_unique_def split: if_splits prod.splits)
qed (simp add: ses_unique_def)

lemma dus_activate_sub:
  "dus_activate dns now us p t ua c u = (r, c', u') \<Longrightarrow>
    ses_key ` set c' \<subseteq> ses_key ` set c \<and> (ses_unique c \<longrightarrow> ses_unique c')"
proof (induction dns now us p t ua c u arbitrary: r c' u' rule: dus_activate.induct)
  case (2 dns now us p t ua s c u)
  show ?case
  proof (cases "ses_port s = p")
    case True
    with "2.prems" show ?thesis
      by (auto simp: ses_unique_def ses_key_def ses_update_def split: if_splits)
  next
    case False
    with "2.prems" obtain c1 where c1: "dus_activate dns now us p t ua c u = (r, c1, u')" "c' = s # c1"
      by (auto split: prod.splits)
    from "2.IH"[OF False c1(1)] c1(2) show ?thesis by (auto simp: ses_unique_def)
  qed
qed (simp add: ses_unique_def)

lemma dus_add_unique: "dus_add now n us p t a d c u = (r, c', u') \<Longrightarrow> ses_unique c \<Longrightarrow> ses_unique c'"
  by (auto simp: dus_add_def ses_unique_def ses_key_def new_session_def split: if_splits)

lemma try_devs_unique:
  assumes "\<And>c u r c' u'. f c u = (r, c', u') \<Longrightarrow> ses_unique c \<Longrightarrow> ses_unique c'"
  shows "try_devs P f ds u = (r, ds', u') \<Longrightarrow> \<forall>d \<in> set ds. ses_unique (cusr d) \<Longrightarrow> \<forall>d \<in> set ds'. ses_unique (cusr d)"
proof (induction ds arbitrary: u r ds' u')
  case (Cons d ds)
  obtain r1 c1 u1 where f: "f (cusr d) u = (r1, c1, u1)" by (cases "f (cusr d) u")
  have c1: "ses_unique c1" using assms[OF f] Cons.prems(2) by simp
  show ?case
  proof (cases "P d \<and> r1")
    case True
    with Cons.prems f c1 show ?thesis by auto
  next
    case False
    with Cons.prems f c1 Cons.IH show ?thesis by (fastforce split: prod.splits if_splits)
  qed
qed simp

lemma upd_first_ball: "\<forall>x \<in> set xs. Q x \<Longrightarrow> (\<And>x. Q x \<Longrightarrow> Q (f x)) \<Longrightarrow> \<forall>x \<in> set (upd_first P f xs). Q x"
  by (induction xs) auto

lemma dev_modify_unique: "(\<And>d. cusr (f d) = cusr d) \<Longrightarrow> net_unique st \<Longrightarrow> net_unique (dev_modify ip f st)"
  using upd_first_ball[of "nas st" "\<lambda>d. ses_unique (cusr d)" f "at_ip ip"]
  by (simp add: net_unique_def dev_modify_def)

lemma expire_fold_unique:
  "\<forall>d \<in> set ds. ses_unique (cusr d) \<Longrightarrow> \<forall>d \<in> set acc. ses_unique (cusr d) \<Longrightarrow>
    fold (\<lambda>d (ds, u). case dus_expire now (cusr d) u of (c, u') \<Rightarrow> (ds @ [d \<lparr> cusr := c \<rparr>], u')) ds (acc, u) = (ds', u') \<Longrightarrow>
    \<forall>d \<in> set ds'. ses_unique (cusr d)"
proof (induction ds arbitrary: acc u)
  case (Cons d ds)
  obtain c1 u1 where e: "dus_expire now (cusr d) u = (c1, u1)" by (cases "dus_expire now (cusr d) u")
  have "\<forall>x \<in> set (acc @ [d \<lparr> cusr := c1 \<rparr>]). ses_unique (cusr x)"
    using dus_expire_sub[OF e] Cons.prems(1,2) by auto
  with Cons.IH[of "acc @ [d \<lparr> cusr := c1 \<rparr>]" u1] Cons.prems e show ?case by simp
qed simp

lemma net_expire_unique:
  assumes "net_unique st"
  shows "net_unique (net_expire now st)"
proof -
  obtain ds u where f: "fold (\<lambda>d (ds, u). case dus_expire now (cusr d) u of (c, u') \<Rightarrow> (ds @ [d \<lparr> cusr := c \<rparr>], u'))
    (nas st) ([], ud st) = (ds, u)" by (meson surj_pair)
  have "\<forall>d \<in> set ds. ses_unique (cusr d)"
    by (rule expire_fold_unique[OF _ _ f]) (use assms in \<open>simp_all add: net_unique_def\<close>)
  then show ?thesis by (simp add: net_unique_def net_expire_def f)
qed

datatype net_op = NAdd ipaddr | NDel ipaddr | NKey ipaddr string | NShut ipaddr bool
  | NExpire int | NUsrDel ipaddr string | NUsrDelAll ipaddr
  | NUsrAdd int ipaddr string string string ipaddr db_user
  | NActivate int ipaddr string string string ipaddr | NGetUser int nat

fun net_step :: "dns \<Rightarrow> net_op \<Rightarrow> net \<Rightarrow> net" where
  "net_step dns (NAdd ip) st = dev_add ip st"
| "net_step dns (NDel ip) st = dev_del ip st"
| "net_step dns (NKey ip k) st = modifyKey ip k st"
| "net_step dns (NShut ip b) st = modifyShut ip b st"
| "net_step dns (NExpire now) st = net_expire now st"
| "net_step dns (NUsrDel n p) st = snd (net_usr_del n p st)"
| "net_step dns (NUsrDelAll n) st = net_usr_del_all n st"
| "net_step dns (NUsrAdd now n u p t a d) st = snd (net_usr_add now n u p t a d st)"
| "net_step dns (NActivate now n u p t a) st = snd (net_usr_activate dns now n u p t a st)"
| "net_step dns (NGetUser now n) st = snd (getuser dns now n st)"

lemma net_step_unique: "net_unique st \<Longrightarrow> net_unique (net_step dns oper st)"
proof (cases oper)
  case (NUsrAdd now n u p t a d)
  assume un: "net_unique st"
  show ?thesis
  proof (cases "get_dev n st")
    case (Some dv)
    then have dv: "ses_unique (cusr dv)" using un by (auto simp: get_dev_def net_unique_def find_Some_iff)
    obtain r c u' where a: "dus_add now n u p t a d (cusr dv) (ud st) = (r, c, u')" by (cases "dus_add now n u p t a d (cusr dv) (ud st)")
    from dus_add_unique[OF a dv] un show ?thesis
      using upd_first_ball[of "nas st" "\<lambda>d. ses_unique (cusr d)" "\<lambda>x. x\<lparr>cusr := c\<rparr>" "at_ip n"]
      by (simp add: NUsrAdd net_usr_add_def Some a net_unique_def)
  qed (use un in \<open>simp add: NUsrAdd net_usr_add_def\<close>)
next
  case (NUsrDel n p)
  assume un: "net_unique st"
  then show ?thesis
    using try_devs_unique[of "dus_del p" "at_ip n" "nas st" "ud st"] dus_del_sub
    by (fastforce simp: NUsrDel net_usr_del_def net_unique_def split: prod.splits)
next
  case (NActivate now n u p t a)
  assume un: "net_unique st"
  then show ?thesis
    using try_devs_unique[of "dus_activate dns now u p t a" "at_ip n" "nas st" "ud st"] dus_activate_sub
    by (fastforce simp: NActivate net_usr_activate_def net_unique_def split: prod.splits)
next
  case (NUsrDelAll n)
  assume un: "net_unique st"
  have "\<And>d. ses_unique (cusr (d\<lparr>cusr := []\<rparr>))" by (simp add: ses_unique_def)
  with un show ?thesis
    using upd_first_ball[of "nas st" "\<lambda>d. ses_unique (cusr d)" "\<lambda>d. d\<lparr>cusr := []\<rparr>" "at_ip n"]
    by (simp add: NUsrDelAll net_usr_del_all_def net_unique_def split: option.splits)
next
  case (NKey ip k)
  assume "net_unique st"
  then show ?thesis unfolding NKey net_step.simps modifyKey_def by (rule dev_modify_unique[rotated]) simp
next
  case (NShut ip b)
  assume "net_unique st"
  then show ?thesis unfolding NShut net_step.simps modifyShut_def by (rule dev_modify_unique[rotated]) simp
next
  case (NExpire now)
  assume "net_unique st"
  then show ?thesis unfolding NExpire net_step.simps by (rule net_expire_unique)
qed (auto simp: dev_add_def dev_del_def new_device_def net_unique_def ses_unique_def getuser_def Let_def
    split: prod.splits option.splits)

text \<open>Only adding and deleting devices changes the list of addresses.\<close>

definition hosts :: "device list \<Rightarrow> ipaddr list" where
  "hosts ds = map hostaddr ds"

lemma dev_keys_hosts: "dev_keys st = map ipa (hosts (nas st))"
  by (simp add: dev_keys_def hosts_def)

lemma hosts_upd_first: "(\<And>d. hostaddr (f d) = hostaddr d) \<Longrightarrow> hosts (upd_first P f ds) = hosts ds"
  unfolding hosts_def by (rule map_upd_first)

lemma hosts_try_devs: "try_devs P f ds u = (r, ds', u') \<Longrightarrow> hosts ds' = hosts ds"
proof (induction ds arbitrary: u r ds' u')
  case (Cons d ds)
  then show ?case by (fastforce simp: hosts_def split: prod.splits if_splits)
qed (simp add: hosts_def)

lemma hosts_expire:
  "fold (\<lambda>d (ds, u). case dus_expire now (cusr d) u of (c, u') \<Rightarrow> (ds @ [d \<lparr> cusr := c \<rparr>], u')) ds (acc, u) = (ds', u') \<Longrightarrow>
    hosts ds' = hosts acc @ hosts ds"
proof (induction ds arbitrary: acc u)
  case (Cons d ds)
  obtain c1 u1 where e: "dus_expire now (cusr d) u = (c1, u1)" by (cases "dus_expire now (cusr d) u")
  with Cons.IH[of "acc @ [d \<lparr> cusr := c1 \<rparr>]" u1] Cons.prems show ?case by (simp add: hosts_def)
qed (simp add: hosts_def)

lemma distinct_hosts_step:
  assumes "distinct (dev_keys st)"
  shows "distinct (dev_keys (net_step dns oper st))"
proof -
  have same: "hosts (nas (net_step dns oper st)) = hosts (nas st)" if "\<nexists>ip. oper = NAdd ip \<or> oper = NDel ip"
  proof (cases oper)
    case (NExpire now)
    show ?thesis using hosts_expire[of now "nas st" "[]" "ud st"]
      by (auto simp: NExpire net_expire_def hosts_def split: prod.splits)
  next
    case (NUsrDel n p)
    show ?thesis using hosts_try_devs by (fastforce simp: NUsrDel net_usr_del_def split: prod.splits)
  next
    case (NActivate now n u p t a)
    show ?thesis using hosts_try_devs by (fastforce simp: NActivate net_usr_activate_def split: prod.splits)
  qed (use that in \<open>auto simp: modifyKey_def modifyShut_def dev_modify_def hosts_upd_first net_usr_del_all_def
      net_usr_add_def getuser_def Let_def split: option.splits prod.splits\<close>)
  show ?thesis
  proof (cases "\<exists>ip. oper = NAdd ip \<or> oper = NDel ip")
    case True
    then show ?thesis using assms by (auto simp: reg_simps)
  next
    case False
    with same assms show ?thesis by (simp add: dev_keys_hosts)
  qed
qed

text \<open>What reading a session does to the data of its user.\<close>

lemma ses_assign_count:
  assumes "distinct (ud_keys u)" "ud_count (ses_username s) u = Some k"
  shows "ud_count (ses_username s) (ses_assign s u) = (if k = 0 then None else Some k)"
proof -
  obtain x where x: "find (ud_named (ses_username s)) u = Some x" using assms(2) by (auto simp: ud_count_def)
  then have "ud_named (ses_username s) x" by (auto simp: find_Some_iff)
  then have "du_username (getUd (ses_username s) u) = ses_username s" using x by (simp add: getUd_def ud_named_def)
  then show ?thesis
    using assms by (simp add: ses_assign_def ud_count_del[OF distinct_ud_add] ud_count_add)
qed

lemma distinct_ses_assign: "distinct (ud_keys u) \<Longrightarrow> distinct (ud_keys (ses_assign s u))"
  by (simp add: ses_assign_def distinct_ud_del distinct_ud_add)

lemma ses_assign_none:
  assumes "distinct (ud_keys u)" "ud_count n u = None" "n \<noteq> []"
  shows "ud_count n (ses_assign s u) = None"
proof (cases "ses_username s = n")
  case True
  then have "getUd n u = new_db_user" using assms(2) by (simp add: ud_count_def getUd_def)
  then show ?thesis using assms True
    by (simp add: ses_assign_def ud_count_del[OF distinct_ud_add] ud_count_add new_db_user_def)
next
  case False
  have "du_username (getUd (ses_username s) u) \<noteq> n"
    using False assms(3) by (auto simp: getUd_def new_db_user_def find_Some_iff ud_named_def split: option.splits)
  then show ?thesis using assms False
    by (simp add: ses_assign_def ud_count_del[OF distinct_ud_add] ud_count_add)
qed

lemma ses_destroy_count:
  "distinct (ud_keys u) \<Longrightarrow> ud_count n (ses_destroy s u) =
     (if n = ses_username s then (case ud_count n u of None \<Rightarrow> None | Some k \<Rightarrow> if k \<le> 1 then None else Some (k - 1))
      else ud_count n u)"
  by (simp add: ses_destroy_def ud_count_del)

section \<open>Properties\<close>

definition no_net :: net where
  "no_net = \<lparr> nas = [], ud = [] \<rparr>"

text \<open>Starting with no device, after any sequence of operations no device has two sessions of one user on one
port and no two devices have one address.\<close>

lemma session_unique:
  "net_unique (fold (net_step dns) ops no_net) \<and> distinct (dev_keys (fold (net_step dns) ops no_net))"
proof -
  have "net_unique st \<and> distinct (dev_keys st) \<Longrightarrow>
    net_unique (fold (net_step dns) ops st) \<and> distinct (dev_keys (fold (net_step dns) ops st))" for st
    by (induction ops arbitrary: st) (auto intro: net_step_unique distinct_hosts_step)
  moreover have "net_unique no_net \<and> distinct (dev_keys no_net)" by (simp add: no_net_def net_unique_def dev_keys_def)
  ultimately show ?thesis by blast
qed

text \<open>Reading a session (as every listing and every authorization does) uncounts the data of its user: with one or
two sessions of the user the data is erased, with more the count drops by one.\<close>

lemma listing_uncounts:
  assumes "nas st = d # ds" "cusr d = s # c" "ses_username s \<noteq> []" "distinct (ud_keys (ud st))"
    and "ud_count (ses_username s) (ud st) = Some k"
  shows "fst (getuser dns now 0 st) = s \<and>
    ud_count (ses_username s) (ud (snd (getuser dns now 0 st))) = (if k \<le> 1 then None else Some (k - 1))"
proof -
  let ?u = "ses_assign s (ses_assign s (ud st))"
  note dd = distinct_ses_assign[OF distinct_ses_assign[OF assms(4)], of s s]
  have c: "ud_count (ses_username s) ?u = (if k = 0 then None else Some k)"
    using ses_assign_count[OF assms(4,5)] ses_assign_count[OF distinct_ses_assign[OF assms(4)], where s = s and k = k]
      ses_assign_none[OF distinct_ses_assign[OF assms(4)] _ assms(3), of s s] by (cases "k = 0") auto
  have g: "getuser dns now 0 st = (s, st \<lparr> ud := ses_destroy s (ses_destroy (absent_session dns now) ?u) \<rparr>)"
    by (simp add: getuser_def assms(1,2) Let_def)
  have n: "ses_username (absent_session dns now) = []" by (simp add: absent_session_def)
  have "distinct (ud_keys (ses_destroy (absent_session dns now) ?u))" using dd by (simp add: ses_destroy_def distinct_ud_del)
  then show ?thesis
    using c dd assms(3) by (simp add: g ses_destroy_count n)
qed

lemma listing_uncounts_witness:
  "ud_count ''ann'' (ud (snd (getuser (\<lambda>s. None) 5 0
     (snd (net_usr_add 0 (ip_default (\<lambda>s. None)) ''ann'' ''Async1'' [] (ip_default (\<lambda>s. None))
       (new_db_user \<lparr> du_username := ''ann'' \<rparr>) (dev_add (ip_default (\<lambda>s. None)) no_net)))))) = None"
proof -
  let ?ip = "ip_default (\<lambda>s. None)"
  let ?s = "new_session 0 ''ann'' ''Async1'' [] ?ip ?ip"
  let ?st = "snd (net_usr_add 0 ?ip ''ann'' ''Async1'' [] ?ip (new_db_user \<lparr> du_username := ''ann'' \<rparr>) (dev_add ?ip no_net))"
  have st: "?st = \<lparr> nas = [(new_device ?ip) \<lparr> cusr := [?s] \<rparr>], ud = [new_user_data (new_db_user \<lparr> du_username := ''ann'' \<rparr>)] \<rparr>"
    by (simp add: net_usr_add_def dev_add_def get_dev_def no_net_def at_ip_def ip_eq_def dus_add_def addUd_def new_device_def)
  have u: "ses_username ?s = ''ann''" by (simp add: new_session_def)
  have "ud_count ''ann'' [new_user_data (new_db_user \<lparr> du_username := ''ann'' \<rparr>)] = Some 0"
    by (simp add: ud_count_def new_user_data_def ud_named_def)
  then show ?thesis
    using listing_uncounts[of ?st "(new_device ?ip) \<lparr> cusr := [?s] \<rparr>" "[]" ?s "[]" 0 "\<lambda>s. None" 5]
    by (simp add: st u ud_keys_def)
qed

text \<open>A user whose data has no rows of access times, whom authentication lets in, is asked to be dropped at every
round of the active server, even within the dates of the account.\<close>

lemma no_rules_dropped:
  assumes "du_acc (getUd (ses_username s) u) = []" "du_result (getUd (ses_username s) u)"
  shows "dus_periodic tt t [s] u = Some (Inr [(snprintf_s 19 (ip_get (ses_nas s)), snprintf_s 39 (ses_port s))])"
  using assms by (simp add: match_time_def Let_def)

lemma no_rules_dropped_witness:
  "dus_periodic zero_tm 0 [new_session 0 ''ann'' ''Async1'' [] (ip_default (\<lambda>s. None)) (ip_default (\<lambda>s. None))]
     [new_user_data (new_db_user \<lparr> du_username := ''ann'', du_result := True \<rparr>)] =
   Some (Inr [(snprintf_s 19 (ip_get (ip_default (\<lambda>s. None))), snprintf_s 39 ''Async1'')])"
  by (subst no_rules_dropped) (simp_all add: new_session_def getUd_def new_user_data_def ud_named_def new_db_user_def)

end
