(* ===== verification/UserTrack.thy ===== *)
theory UserTrack
  imports CoreDevice
begin

text \<open>
  The tracker of active users (\<^verbatim>\<open>src/UserTrack.cc\<close>): a cache of database answers of 31 seconds and the
  calls that make, activate and end sessions. The database is the parameter \<open>dbget\<close>; \<open>now\<close> is the time of the
  operation.
\<close>

section \<open>The cache\<close>

record dbc_entry =
  ce_user :: db_user
  ce_date :: int

text \<open>Expired entries in front of the one found are erased on the way.\<close>

fun dbc_present :: "int \<Rightarrow> string \<Rightarrow> dbc_entry list \<Rightarrow> bool \<times> dbc_entry list" where
  "dbc_present now u [] = (False, [])"
| "dbc_present now u (e # es) =
     (if 31 < now - ce_date e then dbc_present now u es
      else if du_username (ce_user e) = u then (True, e # es)
      else case dbc_present now u es of (r, es') \<Rightarrow> (r, e # es'))"

definition dbc_get :: "string \<Rightarrow> dbc_entry list \<Rightarrow> db_user" where
  "dbc_get u es = (case find (\<lambda>e. du_username (ce_user e) = u) es of Some e \<Rightarrow> ce_user e | None \<Rightarrow> new_db_user)"

definition dbc_add :: "int \<Rightarrow> db_user \<Rightarrow> dbc_entry list \<Rightarrow> dbc_entry list" where
  "dbc_add now d es = es @ [\<lparr> ce_user = d, ce_date = now \<rparr>]"

section \<open>Tracking\<close>

record tracker =
  tk_cache :: "dbc_entry list"
  tk_net :: net

definition get2add :: "dns \<Rightarrow> (string \<Rightarrow> db_user) \<Rightarrow> int \<Rightarrow> string \<Rightarrow> ipaddr \<Rightarrow> string \<Rightarrow> string \<Rightarrow> tracker \<Rightarrow>
    db_user \<times> tracker" where
  "get2add dns dbget now u n p t st =
     (let r = getUd u (ud (tk_net st))
      in if du_result r then
           (r, st \<lparr> tk_net := snd (net_usr_add now n u p t (ip_fill dns UNKNOWN_IP) r (tk_net st)) \<rparr>)
         else case dbc_present now u (tk_cache st) of (present, es) \<Rightarrow>
           let r = (if present then dbc_get u es else dbget u);
               es' = (if present then es else dbc_add now (dbget u) es);
               st1 = st \<lparr> tk_cache := es' \<rparr>
           in if \<not> du_result r then (r, st1)
              else let net1 = snd (net_usr_del n p (tk_net st1));
                       net2 = snd (net_usr_add now n u p t (ip_fill dns UNKNOWN_IP) r net1)
                   in (r, st1 \<lparr> tk_net := net2 \<rparr>))"

definition ut_add :: "dns \<Rightarrow> (string \<Rightarrow> db_user) \<Rightarrow> int \<Rightarrow> string \<Rightarrow> ipaddr \<Rightarrow> string \<Rightarrow> string \<Rightarrow> ipaddr \<Rightarrow> tracker \<Rightarrow>
    bool \<times> tracker" where
  "ut_add dns dbget now u c p t ua st =
     (case net_usr_activate dns now c u p t ua (tk_net st) of (r, net1) \<Rightarrow>
        let st1 = st \<lparr> tk_net := net1 \<rparr>
        in if r then (True, st1)
           else case get2add dns dbget now u c p t st1 of (d, st2) \<Rightarrow>
             if du_result d \<and> du_open d \<noteq> 0 then
               (True, st2 \<lparr> tk_net := snd (net_usr_activate dns now c u p t ua (tk_net st2)) \<rparr>)
             else (False, st2))"

definition ut_del :: "string \<Rightarrow> ipaddr \<Rightarrow> string \<Rightarrow> tracker \<Rightarrow> bool \<times> tracker" where
  "ut_del u c p st = (case net_usr_del c p (tk_net st) of (r, n) \<Rightarrow> (r, st \<lparr> tk_net := n \<rparr>))"

definition ut_periodic :: "bool \<Rightarrow> tm \<Rightarrow> int \<Rightarrow> tracker \<Rightarrow> tracker \<times> (string \<times> string) list cres option" where
  "ut_periodic active tt now st =
     (let n = net_expire now (tk_net st) in (st \<lparr> tk_net := n \<rparr>, usr_periodic active tt now n))"

section \<open>Lemmas\<close>

lemma dbc_present_fresh:
  "dbc_present now u es = (True, es') \<Longrightarrow> \<exists>e \<in> set es. du_username (ce_user e) = u \<and> now - ce_date e \<le> 31 \<and>
     dbc_get u es' = ce_user e"
proof (induction now u es arbitrary: es' rule: dbc_present.induct)
  case (2 now u e es)
  then show ?case by (auto simp: dbc_get_def split: if_splits prod.splits)
qed simp

text \<open>A tracker is reached from an empty one by the operations on devices and users.\<close>

inductive tracked :: "dns \<Rightarrow> (string \<Rightarrow> db_user) \<Rightarrow> tracker \<Rightarrow> bool" for dns dbget where
  tr_init: "tracked dns dbget \<lparr> tk_cache = [], tk_net = no_net \<rparr>"
| tr_net: "tracked dns dbget st \<Longrightarrow> tracked dns dbget (st \<lparr> tk_net := net_step dns oper (tk_net st) \<rparr>)"
| tr_get: "tracked dns dbget st \<Longrightarrow> tracked dns dbget (snd (get2add dns dbget now u n p t st))"
| tr_add: "tracked dns dbget st \<Longrightarrow> tracked dns dbget (snd (ut_add dns dbget now u n p t ua st))"
| tr_del: "tracked dns dbget st \<Longrightarrow> tracked dns dbget (snd (ut_del u n p st))"
| tr_periodic: "tracked dns dbget st \<Longrightarrow> tracked dns dbget (fst (ut_periodic active tt now st))"

lemma net_usr_add_unique: "net_unique st \<Longrightarrow> net_unique (snd (net_usr_add now n u p t a d st))"
  using net_step_unique[of st dns "NUsrAdd now n u p t a d"] by simp

lemma net_usr_del_unique: "net_unique st \<Longrightarrow> net_unique (snd (net_usr_del n p st))"
  using net_step_unique[of st dns "NUsrDel n p"] by simp

lemma net_usr_activate_unique: "net_unique st \<Longrightarrow> net_unique (snd (net_usr_activate dns now n u p t a st))"
  using net_step_unique[of st dns "NActivate now n u p t a"] by simp

lemmas track_unique = net_usr_add_unique net_usr_del_unique net_usr_activate_unique net_expire_unique net_step_unique

lemma get2add_unique: "net_unique (tk_net st) \<Longrightarrow> net_unique (tk_net (snd (get2add dns dbget now u n p t st)))"
  by (auto simp: get2add_def Let_def intro!: track_unique split: prod.splits)

lemma ut_add_unique:
  assumes "net_unique (tk_net st)"
  shows "net_unique (tk_net (snd (ut_add dns dbget now u n p t ua st)))"
proof -
  obtain r net1 where a: "net_usr_activate dns now n u p t ua (tk_net st) = (r, net1)" by (cases "net_usr_activate dns now n u p t ua (tk_net st)")
  have n1: "net_unique net1" using net_usr_activate_unique[OF assms, of dns now n u p t ua] a by simp
  obtain d st2 where g: "get2add dns dbget now u n p t (st \<lparr> tk_net := net1 \<rparr>) = (d, st2)" by (cases "get2add dns dbget now u n p t (st \<lparr> tk_net := net1 \<rparr>)")
  have "net_unique (tk_net st2)" using get2add_unique[of "st \<lparr> tk_net := net1 \<rparr>" dns dbget now u n p t] n1 g by simp
  then show ?thesis using n1 net_usr_activate_unique by (simp add: ut_add_def a g Let_def)
qed

section \<open>The session of a port\<close>

text \<open>What the operations do to the session of one port, on a device whose ports differ.\<close>

definition port_ses :: "string \<Rightarrow> session list \<Rightarrow> session option" where
  "port_ses p c = find (\<lambda>s. ses_port s = p) c"

definition ports_ok :: "session list \<Rightarrow> bool" where
  "ports_ok c = distinct (map ses_port c)"

definition others_same :: "string \<Rightarrow> session list \<Rightarrow> session list \<Rightarrow> bool" where
  "others_same p c c' = (ports_ok c' \<and> (\<forall>q. q \<noteq> p \<longrightarrow> port_ses q c' = port_ses q c))"

definition data_sub :: "user_data list \<Rightarrow> user_data list \<Rightarrow> bool" where
  "data_sub u' u = (ud_data ` set u' \<subseteq> ud_data ` set u)"

lemma data_sub_trans: "data_sub u2 u1 \<Longrightarrow> data_sub u1 u \<Longrightarrow> data_sub u2 u"
  by (auto simp: data_sub_def)

lemma data_sub_destroy [simp]: "data_sub (ses_destroy s u) u"
proof -
  have "data_sub (delUd v u) u" for v
    by (induction v u rule: delUd.induct) (auto simp: data_sub_def decNumPtr_def)
  then show ?thesis by (simp add: ses_destroy_def)
qed

lemma data_sub_refl [simp]: "data_sub u u" by (simp add: data_sub_def)

lemma addUd_data: "ud_data ` set (addUd d u) \<subseteq> insert d (ud_data ` set u)"
proof -
  have "ud_data ` set (upd_first P incNumPtr u) \<subseteq> ud_data ` set u" for P
    by (induction u) (auto simp: incNumPtr_def)
  then show ?thesis by (auto simp: addUd_def new_user_data_def)
qed

lemma port_ses_None: "(port_ses p c = None) = (p \<notin> ses_port ` set c)"
  by (auto simp: port_ses_def find_None_iff)

lemma port_ses_Cons: "port_ses p (s # c) = (if ses_port s = p then Some s else port_ses p c)"
  by (simp add: port_ses_def)

lemma dus_del_port:
  "dus_del p c u = (r, c', u') \<Longrightarrow> ports_ok c \<Longrightarrow>
    others_same p c c' \<and> port_ses p c' = None \<and> ses_port ` set c' \<subseteq> ses_port ` set c \<and> data_sub u' u"
proof (induction p c u arbitrary: r c' u' rule: dus_del.induct)
  case (1 p u)
  then show ?case by (simp add: others_same_def port_ses_def)
next
  case (2 p s c u)
  show ?case
  proof (cases "ses_port s = p")
    case True
    then have "c' = c" "u' = ses_destroy s u" using "2.prems"(1) by simp_all
    with True "2.prems"(2) show ?thesis
      by (auto simp: others_same_def ports_ok_def port_ses_Cons port_ses_None)
  next
    case False
    with "2.prems" obtain c1 where c1: "dus_del p c u = (r, c1, u')" "c' = s # c1" by (auto split: prod.splits)
    have "ports_ok c" using "2.prems"(2) by (simp add: ports_ok_def)
    note IH = "2.IH"[OF False c1(1) this]
    have "ses_port s \<notin> ses_port ` set c" using "2.prems"(2) by (simp add: ports_ok_def)
    with IH False c1(2) show ?thesis by (auto simp: others_same_def ports_ok_def port_ses_Cons)
  qed
qed

lemma dus_activate_port:
  "dus_activate dns now v p t ua c u = (r, c', u') \<Longrightarrow> ports_ok c \<Longrightarrow>
    others_same p c c' \<and> ses_port ` set c' \<subseteq> ses_port ` set c \<and> data_sub u' u \<and>
    (case port_ses p c of None \<Rightarrow> \<not> r \<and> port_ses p c' = None
     | Some s \<Rightarrow> if ses_username s = v
         then r \<and> port_ses p c' = Some ((ses_update dns now p t ua s) \<lparr> ses_active := True \<rparr>)
         else \<not> r \<and> port_ses p c' = None)"
proof (induction dns now v p t ua c u arbitrary: r c' u' rule: dus_activate.induct)
  case (1 dns now v p t ua u)
  then show ?case by (simp add: others_same_def port_ses_def ports_ok_def)
next
  case (2 dns now v p t ua s c u)
  have ns: "ses_port s \<notin> ses_port ` set c" and ok: "ports_ok c" using "2.prems"(2) by (simp_all add: ports_ok_def)
  show ?case
  proof (cases "ses_port s = p")
    case True
    show ?thesis
    proof (cases "ses_username s = v")
      case u: True
      then have "c' = (ses_update dns now p t ua s) \<lparr> ses_active := True \<rparr> # c" "r" "u' = u"
        using "2.prems"(1) True by simp_all
      with True u ok ns show ?thesis
        by (auto simp: others_same_def ports_ok_def port_ses_Cons ses_update_def)
    next
      case False
      then have "c' = c" "\<not> r" "u' = ses_destroy s u" using "2.prems"(1) True by simp_all
      with True False ok ns show ?thesis
        by (auto simp: others_same_def port_ses_Cons port_ses_None)
    qed
  next
    case False
    with "2.prems" obtain c1 where c1: "dus_activate dns now v p t ua c u = (r, c1, u')" "c' = s # c1"
      by (auto split: prod.splits)
    note IH = "2.IH"[OF False c1(1) ok]
    from IH False c1(2) ns show ?thesis by (auto simp: others_same_def ports_ok_def port_ses_Cons split: option.splits)
  qed
qed

lemma dus_add_port:
  assumes "dus_add now n v p t a d c u = (r, c', u')" "ports_ok c" "port_ses p c = None"
  shows "others_same p c c' \<and> port_ses p c' = Some (new_session now v p t n a) \<and>
    ud_data ` set u' \<subseteq> insert d (ud_data ` set u)"
proof -
  have none: "\<forall>s \<in> set c. ses_port s \<noteq> p" using assms(3) by (auto simp: port_ses_None)
  then have e: "c' = c @ [new_session now v p t n a]" "u' = addUd d u"
    using assms(1) by (auto simp: dus_add_def)
  have f: "find P (xs @ [y]) = (case find P xs of None \<Rightarrow> if P y then Some y else None | Some x \<Rightarrow> Some x)" for P xs and y :: session
    by (induction xs) auto
  have "ports_ok c'" using assms(2) none by (auto simp: e ports_ok_def new_session_def)
  moreover have "port_ses q c' = (if q = p then Some (new_session now v p t n a) else port_ses q c)" for q
    using assms(3) by (auto simp: e port_ses_def f new_session_def split: option.splits)
  ultimately show ?thesis using addUd_data[of d u] by (simp add: others_same_def e)
qed

text \<open>The device of an address, and the operations on its sessions when the addresses differ.\<close>

definition dev_at :: "net \<Rightarrow> ipv4 \<Rightarrow> device option" where
  "dev_at N a = find (\<lambda>d. ipa (hostaddr d) = a) (nas N)"

definition ses_at :: "net \<Rightarrow> ipv4 \<Rightarrow> string \<Rightarrow> session option" where
  "ses_at N a p = (case dev_at N a of None \<Rightarrow> None | Some d \<Rightarrow> port_ses p (cusr d))"

definition net_ok :: "net \<Rightarrow> bool" where
  "net_ok N = (distinct (dev_keys N) \<and> (\<forall>a d. dev_at N a = Some d \<longrightarrow> ports_ok (cusr d)))"

lemma get_dev_at: "get_dev ip N = dev_at N (ipa ip)"
  by (simp add: get_dev_def dev_at_def at_ip_def[abs_def] ip_eq_def)

definition op_at :: "ipaddr \<Rightarrow> (session list \<Rightarrow> user_data list \<Rightarrow> bool \<times> sessions) \<Rightarrow> net \<Rightarrow> bool \<times> net" where
  "op_at n f N = (case dev_at N (ipa n) of None \<Rightarrow> (False, N)
     | Some d \<Rightarrow> (case f (cusr d) (ud N) of (r, c, u) \<Rightarrow>
         (r, N \<lparr> nas := upd_first (at_ip n) (\<lambda>x. x \<lparr> cusr := c \<rparr>) (nas N), ud := u \<rparr>)))"

lemma try_devs_none: "\<forall>d \<in> set ds. \<not> P d \<Longrightarrow> try_devs P f ds u = (False, ds, u)"
  by (induction ds) auto

lemma try_devs_one:
  "distinct (map (\<lambda>d. ipa (hostaddr d)) ds) \<Longrightarrow> try_devs (at_ip n) f ds u =
    (case find (at_ip n) ds of None \<Rightarrow> (False, ds, u)
     | Some d \<Rightarrow> (case f (cusr d) u of (r, c, u') \<Rightarrow> (r, upd_first (at_ip n) (\<lambda>x. x \<lparr> cusr := c \<rparr>) ds, u')))"
proof (induction ds arbitrary: u)
  case (Cons d ds)
  show ?case
  proof (cases "at_ip n d")
    case True
    then have "\<forall>x \<in> set ds. \<not> at_ip n x" using Cons.prems by (simp add: at_ip_def ip_eq_def image_iff) metis
    with True show ?thesis by (auto simp: try_devs_none split: prod.splits)
  next
    case False
    with Cons show ?thesis by (auto split: option.splits prod.splits)
  qed
qed simp

lemma net_ops_at:
  assumes "net_ok N"
  shows "net_usr_del n p N = op_at n (dus_del p) N"
    "net_usr_activate dns now n v p t a N = op_at n (dus_activate dns now v p t a) N"
proof -
  have d: "distinct (map (\<lambda>d. ipa (hostaddr d)) (nas N))" using assms by (simp add: net_ok_def dev_keys_def)
  have f: "find (at_ip n) (nas N) = dev_at N (ipa n)" using get_dev_at[of n N] by (simp add: get_dev_def)
  show "net_usr_del n p N = op_at n (dus_del p) N"
    "net_usr_activate dns now n v p t a N = op_at n (dus_activate dns now v p t a) N"
    by (auto simp: net_usr_del_def net_usr_activate_def op_at_def try_devs_one[OF d] f split: option.splits prod.splits)
qed

lemma net_add_at: "net_usr_add now n v p t a d N = op_at n (dus_add now n v p t a d) N"
  by (auto simp: net_usr_add_def op_at_def get_dev_at split: option.splits prod.splits)

text \<open>Only the session of port \<open>p\<close> of the device with address \<open>a\<close> may differ.\<close>

definition wipe :: "device option \<Rightarrow> device option" where
  "wipe = map_option (\<lambda>d. d \<lparr> cusr := [] \<rparr>)"

definition only_at :: "ipv4 \<Rightarrow> string \<Rightarrow> net \<Rightarrow> net \<Rightarrow> bool" where
  "only_at a p N N' = (net_ok N' \<and> (\<forall>b. wipe (dev_at N' b) = wipe (dev_at N b)) \<and>
     (\<forall>b q. b \<noteq> a \<or> q \<noteq> p \<longrightarrow> ses_at N' b q = ses_at N b q))"

lemma only_at_refl: "net_ok N \<Longrightarrow> only_at a p N N"
  by (simp add: only_at_def)

lemma only_at_trans: "only_at a p N N1 \<Longrightarrow> only_at a p N1 N2 \<Longrightarrow> only_at a p N N2"
  by (simp add: only_at_def)

lemma dev_at_upd:
  "dev_at (N \<lparr> nas := upd_first (at_ip n) (\<lambda>x. x \<lparr> cusr := c \<rparr>) (nas N), ud := u \<rparr>) b =
    (if b = ipa n then map_option (\<lambda>x. x \<lparr> cusr := c \<rparr>) (dev_at N b) else dev_at N b)"
proof -
  have "find (\<lambda>d. ipa (hostaddr d) = b) (upd_first (at_ip n) (\<lambda>x. x \<lparr> cusr := c \<rparr>) ds) =
    (if b = ipa n then map_option (\<lambda>x. x \<lparr> cusr := c \<rparr>) (find (\<lambda>d. ipa (hostaddr d) = b) ds)
     else find (\<lambda>d. ipa (hostaddr d) = b) ds)" for ds
    by (induction ds) (auto simp: at_ip_def ip_eq_def)
  then show ?thesis by (simp add: dev_at_def)
qed

lemma op_at_dev:
  assumes "net_ok N" "dev_at N (ipa n) = Some d" "f (cusr d) (ud N) = (r, c, u)" "others_same p (cusr d) c"
  shows "\<exists>N'. op_at n f N = (r, N') \<and> only_at (ipa n) p N N' \<and> dev_at N' (ipa n) = Some (d \<lparr> cusr := c \<rparr>) \<and> ud N' = u"
proof -
  let ?N = "N \<lparr> nas := upd_first (at_ip n) (\<lambda>x. x \<lparr> cusr := c \<rparr>) (nas N), ud := u \<rparr>"
  have keys: "dev_keys ?N = dev_keys N" by (simp add: dev_keys_def map_upd_first)
  have "net_ok ?N" unfolding net_ok_def keys
    using assms(1,2,4) by (auto simp: net_ok_def dev_at_upd others_same_def split: if_splits)
  then have "only_at (ipa n) p N ?N"
    using assms(2,4) by (auto simp: only_at_def dev_at_upd wipe_def ses_at_def others_same_def split: option.splits if_splits)
  then show ?thesis using assms(2,3) by (auto simp: op_at_def dev_at_upd)
qed

lemma op_at_none: "dev_at N (ipa n) = None \<Longrightarrow> op_at n f N = (False, N)"
  by (simp add: op_at_def)

section \<open>The session of a port after the calls\<close>

text \<open>What the tracker may know of the user \<open>v\<close>: every answer under this name permits it.\<close>

definition permits :: "string \<Rightarrow> db_user \<Rightarrow> bool" where
  "permits v d = (du_username d = v \<longrightarrow> du_result d \<and> du_open d \<noteq> 0)"

definition knows :: "(string \<Rightarrow> db_user) \<Rightarrow> string \<Rightarrow> tracker \<Rightarrow> bool" where
  "knows dbget v st = (du_username (dbget v) = v \<and> (\<forall>w. permits v (dbget w)) \<and>
     (\<forall>e \<in> set (tk_cache st). permits v (ce_user e)) \<and> (\<forall>x \<in> set (ud (tk_net st)). permits v (ud_data x)))"

lemma knows_sub: "knows dbget v st \<Longrightarrow> data_sub (ud N) (ud (tk_net st)) \<Longrightarrow> knows dbget v (st \<lparr> tk_net := N \<rparr>)"
  unfolding knows_def data_sub_def by force

lemma ut_del_port:
  assumes "net_ok (tk_net st)" "ut_del v n p st = (r, st')"
  shows "only_at (ipa n) p (tk_net st) (tk_net st') \<and> ses_at (tk_net st') (ipa n) p = None \<and>
    (knows dbget w st \<longrightarrow> knows dbget w st')"
proof (cases "dev_at (tk_net st) (ipa n)")
  case None
  with assms show ?thesis
    by (auto simp: ut_del_def net_ops_at op_at_none only_at_refl ses_at_def)
next
  case (Some d)
  obtain q c u where f: "dus_del p (cusr d) (ud (tk_net st)) = (q, c, u)" by (cases "dus_del p (cusr d) (ud (tk_net st))")
  have "ports_ok (cusr d)" using assms(1) Some by (auto simp: net_ok_def)
  note P = dus_del_port[OF f this]
  from op_at_dev[where f = "dus_del p", OF assms(1) Some f, of p] P obtain N' where N': "op_at n (dus_del p) (tk_net st) = (q, N')"
    "only_at (ipa n) p (tk_net st) N'" "dev_at N' (ipa n) = Some (d \<lparr> cusr := c \<rparr>)" "ud N' = u" by blast
  have "st' = st \<lparr> tk_net := N' \<rparr>" using assms(2) N'(1) by (simp add: ut_del_def net_ops_at[OF assms(1)])
  with N' P show ?thesis using knows_sub[of dbget w st N'] by (simp add: ses_at_def)
qed

lemma activate_port:
  assumes "net_ok N" "net_usr_activate dns now n v p t ua N = (r, N')"
  shows "only_at (ipa n) p N N' \<and> data_sub (ud N') (ud N) \<and>
    (if \<exists>s. ses_at N (ipa n) p = Some s \<and> ses_username s = v
     then r \<and> ses_at N' (ipa n) p =
       Some ((ses_update dns now p t ua (the (ses_at N (ipa n) p))) \<lparr> ses_active := True \<rparr>)
     else \<not> r \<and> ses_at N' (ipa n) p = None)"
proof (cases "dev_at N (ipa n)")
  case None
  with assms show ?thesis by (auto simp: net_ops_at op_at_none only_at_refl ses_at_def)
next
  case (Some d)
  obtain q c u where f: "dus_activate dns now v p t ua (cusr d) (ud N) = (q, c, u)"
    by (cases "dus_activate dns now v p t ua (cusr d) (ud N)")
  have "ports_ok (cusr d)" using assms(1) Some by (auto simp: net_ok_def)
  note P = dus_activate_port[OF f this]
  from op_at_dev[where f = "dus_activate dns now v p t ua", OF assms(1) Some f, of p] P obtain M where M: "op_at n (dus_activate dns now v p t ua) N = (q, M)"
    "only_at (ipa n) p N M" "dev_at M (ipa n) = Some (d \<lparr> cusr := c \<rparr>)" "ud M = u" by blast
  have "N' = M" "r = q" using assms(2) M(1) by (simp_all add: net_ops_at[OF assms(1)])
  with M P Some show ?thesis by (auto simp: ses_at_def split: option.splits if_splits)
qed

lemma usr_add_port:
  assumes "net_ok N" "ses_at N (ipa n) p = None"
  shows "only_at (ipa n) p N (snd (net_usr_add now n v p t a d N)) \<and>
    ud_data ` set (ud (snd (net_usr_add now n v p t a d N))) \<subseteq> insert d (ud_data ` set (ud N)) \<and>
    ses_at (snd (net_usr_add now n v p t a d N)) (ipa n) p =
      (if dev_at N (ipa n) = None then None else Some (new_session now v p t n a))"
proof (cases "dev_at N (ipa n)")
  case None
  with assms show ?thesis by (auto simp: net_add_at op_at_none only_at_refl ses_at_def)
next
  case (Some e)
  obtain q c u where f: "dus_add now n v p t a d (cusr e) (ud N) = (q, c, u)" by (cases "dus_add now n v p t a d (cusr e) (ud N)")
  have "ports_ok (cusr e)" "port_ses p (cusr e) = None" using assms Some by (auto simp: net_ok_def ses_at_def)
  note P = dus_add_port[OF f this]
  from op_at_dev[where f = "dus_add now n v p t a d", OF assms(1) Some f, of p] P obtain M where M: "op_at n (dus_add now n v p t a d) N = (q, M)"
    "only_at (ipa n) p N M" "dev_at M (ipa n) = Some (e \<lparr> cusr := c \<rparr>)" "ud M = u" by blast
  with P Some show ?thesis by (simp add: net_add_at ses_at_def)
qed

text \<open>After a login was added: the port has a session of this user or none, an active one when the user is known.\<close>

definition login_result :: "dns \<Rightarrow> int \<Rightarrow> string \<Rightarrow> ipaddr \<Rightarrow> session \<Rightarrow> bool" where
  "login_result dns now v ua s = (ses_username s = v \<and> ses_active s \<and> ses_last s = now \<and> (ipa ua \<noteq> 0 \<longrightarrow> ses_addr s = ua))"

lemma update_login: "ses_username s = v \<Longrightarrow> login_result dns now v ua ((ses_update dns now p t ua s) \<lparr> ses_active := True \<rparr>)"
proof -
  have "ip_eq_str dns ua ''0.0.0.0'' = (ipa ua = 0)" using ip_eq_unknown[of dns ua] by (simp add: UNKNOWN_IP_def)
  then show "ses_username s = v \<Longrightarrow> ?thesis" by (simp add: login_result_def ses_update_def)
qed

lemma getUd_found: "du_result (getUd v u) \<Longrightarrow> getUd v u \<in> ud_data ` set u \<and> du_username (getUd v u) = v"
proof (cases "find (ud_named v) u")
  case (Some x)
  then have "x \<in> set u" "ud_named v x" by (auto simp: find_Some_iff)
  with Some show ?thesis by (simp add: getUd_def ud_named_def)
qed (simp add: getUd_def new_db_user_def)

lemma dbc_get_found:
  "find (\<lambda>e. du_username (ce_user e) = v) es \<noteq> None \<Longrightarrow> dbc_get v es \<in> ce_user ` set es \<and> du_username (dbc_get v es) = v"
proof (cases "find (\<lambda>e. du_username (ce_user e) = v) es")
  case (Some x)
  then have "x \<in> set es" "du_username (ce_user x) = v" by (auto simp: find_Some_iff)
  with Some show ?thesis by (simp add: dbc_get_def)
qed simp

lemma dbc_present_in: "dbc_present now v xs = (b, ys) \<Longrightarrow> set ys \<subseteq> set xs \<and>
    (b \<longrightarrow> find (\<lambda>e. du_username (ce_user e) = v) ys \<noteq> None)"
  by (induction now v xs arbitrary: b ys rule: dbc_present.induct) (auto split: if_splits prod.splits)

lemma get2add_port:
  assumes "net_ok (tk_net st)" "ses_at (tk_net st) (ipa n) p = None" "get2add dns dbget now v n p t st = (d, st')"
  shows "only_at (ipa n) p (tk_net st) (tk_net st') \<and>
    (\<forall>s. ses_at (tk_net st') (ipa n) p = Some s \<longrightarrow> ses_username s = v) \<and>
    (knows dbget w st \<longrightarrow> knows dbget w st') \<and>
    (knows dbget v st \<longrightarrow> du_result d \<and> du_open d \<noteq> 0 \<and>
       (dev_at (tk_net st) (ipa n) \<noteq> None \<longrightarrow> (\<exists>s. ses_at (tk_net st') (ipa n) p = Some s)))"
proof -
  let ?N = "tk_net st" and ?u = "ip_fill dns UNKNOWN_IP"
  define r where "r = getUd v (ud ?N)"
  have rk: "du_result r \<Longrightarrow> permits x r" if "knows dbget x st" for x
    using that getUd_found[of v "ud ?N"] by (auto simp: r_def knows_def)
  have rn: "du_result r \<Longrightarrow> du_username r = v" using getUd_found[of v "ud ?N"] by (simp add: r_def)
  show ?thesis
  proof (cases "du_result r")
    case True
    let ?M = "snd (net_usr_add now n v p t ?u r ?N)"
    have e: "d = r" "st' = st \<lparr> tk_net := ?M \<rparr>" using assms(3) True by (auto simp: get2add_def r_def Let_def)
    note A = usr_add_port[OF assms(1,2), of now v t ?u r]
    have "knows dbget x st \<longrightarrow> knows dbget x st'" for x
      using A rk[of x] True unfolding knows_def e by force
    moreover have "knows dbget v st \<longrightarrow> du_open r \<noteq> 0" using rk[of v] rn True by (auto simp: permits_def)
    ultimately show ?thesis using A True by (auto simp: e new_session_def)
  next
    case False
    obtain present es where c: "dbc_present now v (tk_cache st) = (present, es)" by (cases "dbc_present now v (tk_cache st)")
    have sub: "set es \<subseteq> set (tk_cache st)" using dbc_present_in[OF c] by blast
    define q where "q = (if present then dbc_get v es else dbget v)"
    define es' where "es' = (if present then es else dbc_add now (dbget v) es)"
    let ?s1 = "st \<lparr> tk_cache := es' \<rparr>"
    have q: "present \<Longrightarrow> q \<in> ce_user ` set es \<and> du_username q = v"
      using dbc_present_in[OF c] dbc_get_found[of v es] by (simp add: q_def)
    have qp: "knows dbget x st \<Longrightarrow> permits x q" for x
      using q sub unfolding knows_def by (cases present) (force, simp add: q_def)
    have qn: "knows dbget v st \<Longrightarrow> du_username q = v" using q by (cases present) (auto simp: q_def knows_def)
    have k1: "knows dbget x st \<Longrightarrow> knows dbget x ?s1" for x
      using sub unfolding knows_def by (auto simp: es'_def dbc_add_def)
    have g: "get2add dns dbget now v n p t st = (if \<not> du_result q then (q, ?s1)
        else (q, ?s1 \<lparr> tk_net := snd (net_usr_add now n v p t ?u q (snd (net_usr_del n p ?N))) \<rparr>))"
      using False by (simp add: get2add_def c Let_def q_def es'_def flip: r_def)
    show ?thesis
    proof (cases "du_result q")
      case True
      obtain b s2 where dl: "ut_del v n p st = (b, s2)" by (cases "ut_del v n p st")
      have N2: "snd (net_usr_del n p ?N) = tk_net s2" using dl by (simp add: ut_del_def split: prod.splits) (metis select_convs(2) snd_conv surjective update_convs(2))
      note D = ut_del_port[OF assms(1) dl]
      have ok2: "net_ok (tk_net s2)" and none2: "ses_at (tk_net s2) (ipa n) p = None" using D[of dbget v] by (auto simp: only_at_def)
      note A = usr_add_port[OF ok2 none2, of now v t ?u q]
      let ?M = "snd (net_usr_add now n v p t ?u q (tk_net s2))"
      have e: "d = q" "st' = ?s1 \<lparr> tk_net := ?M \<rparr>" using assms(3) True by (auto simp: g N2)
      have dv: "(dev_at (tk_net s2) (ipa n) = None) = (dev_at ?N (ipa n) = None)"
        using D[of dbget v] unfolding only_at_def wipe_def by (metis map_option_is_None)
      have "knows dbget x st \<longrightarrow> knows dbget x st'" for x
      proof
        assume k: "knows dbget x st"
        then have "\<forall>y \<in> set (ud (tk_net s2)). permits x (ud_data y)" using D[of dbget x] by (auto simp: knows_def)
        then have "\<forall>y \<in> set (ud ?M). permits x (ud_data y)" using A qp[OF k] by force
        with k1[OF k] show "knows dbget x st'" by (simp add: knows_def e)
      qed
      moreover have "knows dbget v st \<longrightarrow> du_open q \<noteq> 0" using qp[of v] qn by (auto simp: permits_def)
      moreover have "only_at (ipa n) p ?N ?M" using only_at_trans[of "ipa n" p ?N "tk_net s2" ?M] D[of dbget v] A by blast
      ultimately show ?thesis using A True dv by (auto simp: e new_session_def)
    next
      case nq: False
      then have e: "d = q" "st' = ?s1" using assms(3) by (simp_all add: g)
      have "\<not> knows dbget v st" using qp[of v] qn nq by (auto simp: permits_def)
      with assms(1,2) k1 show ?thesis by (auto simp: e only_at_refl)
    qed
  qed
qed

lemma ut_add_port:
  assumes "net_ok (tk_net st)" "ut_add dns dbget now v n p t ua st = (r, st')"
  shows "only_at (ipa n) p (tk_net st) (tk_net st') \<and>
    (\<forall>s. ses_at (tk_net st') (ipa n) p = Some s \<longrightarrow> ses_username s = v) \<and>
    (knows dbget w st \<longrightarrow> knows dbget w st') \<and>
    (knows dbget v st \<and> dev_at (tk_net st) (ipa n) \<noteq> None \<longrightarrow>
       (\<exists>s. ses_at (tk_net st') (ipa n) p = Some s \<and> login_result dns now v ua s))"
proof -
  obtain b N1 where a: "net_usr_activate dns now n v p t ua (tk_net st) = (b, N1)"
    by (cases "net_usr_activate dns now n v p t ua (tk_net st)")
  note A = activate_port[OF assms(1) a]
  let ?s1 = "st \<lparr> tk_net := N1 \<rparr>"
  have k1: "knows dbget x st \<Longrightarrow> knows dbget x ?s1" for x using A knows_sub[of dbget x st N1] by blast
  show ?thesis
  proof (cases b)
    case True
    then have "st' = ?s1" using assms(2) by (simp add: ut_add_def a Let_def)
    with True A k1 show ?thesis by (auto simp: update_login split: if_splits) (auto simp: ses_update_def)
  next
    case False
    obtain d s2 where g: "get2add dns dbget now v n p t ?s1 = (d, s2)" by (cases "get2add dns dbget now v n p t ?s1")
    have ok1: "net_ok (tk_net ?s1)" and n1: "ses_at (tk_net ?s1) (ipa n) p = None"
      using A False by (auto simp: only_at_def split: if_splits)
    note G = get2add_port[OF ok1 n1 g]
    have o2: "only_at (ipa n) p (tk_net st) (tk_net s2)" using A G[of w] only_at_trans by fastforce
    have dv: "(dev_at N1 (ipa n) = None) = (dev_at (tk_net st) (ipa n) = None)"
      using A unfolding only_at_def wipe_def by (metis map_option_is_None)
    show ?thesis
    proof (cases "du_result d \<and> du_open d \<noteq> 0")
      case True
      obtain b3 N3 where a3: "net_usr_activate dns now n v p t ua (tk_net s2) = (b3, N3)"
        by (cases "net_usr_activate dns now n v p t ua (tk_net s2)")
      have e: "st' = s2 \<lparr> tk_net := N3 \<rparr>" using assms(2) False True by (simp add: ut_add_def a g a3 Let_def)
      have ok2: "net_ok (tk_net s2)" using o2 by (simp add: only_at_def)
      note B = activate_port[OF ok2 a3]
      have k3: "knows dbget x s2 \<Longrightarrow> knows dbget x st'" for x unfolding e using B knows_sub[of dbget x s2 N3] by blast
      have "only_at (ipa n) p (tk_net st) N3" using o2 B only_at_trans by blast
      moreover have "\<forall>s. ses_at N3 (ipa n) p = Some s \<longrightarrow> ses_username s = v"
        using B by (auto simp: ses_update_def split: if_splits)
      moreover have "knows dbget v st \<and> dev_at (tk_net st) (ipa n) \<noteq> None \<longrightarrow>
          (\<exists>s. ses_at N3 (ipa n) p = Some s \<and> login_result dns now v ua s)"
      proof
        assume k: "knows dbget v st \<and> dev_at (tk_net st) (ipa n) \<noteq> None"
        with G[of v] k1[of v] dv obtain s where s: "ses_at (tk_net s2) (ipa n) p = Some s" "ses_username s = v" by auto
        with B have "ses_at N3 (ipa n) p = Some ((ses_update dns now p t ua s) \<lparr> ses_active := True \<rparr>)" by auto
        with s(2) show "\<exists>s. ses_at N3 (ipa n) p = Some s \<and> login_result dns now v ua s" by (simp add: update_login)
      qed
      ultimately show ?thesis using k1 k3 G[of w] by (simp add: e)
    next
      case nd: False
      then have e: "st' = s2" using assms(2) False by (auto simp: ut_add_def a g Let_def)
      have "\<not> knows dbget v st" using G[of v] k1[of v] nd by blast
      then show ?thesis using G[of w] k1 o2 by (auto simp: e)
    qed
  qed
qed

section \<open>Properties\<close>

text \<open>C22: whatever sequence of tracker and device operations ran, no device has two sessions of one user on one
port.\<close>

theorem tracker_sessions_unique:
  assumes "tracked dns dbget st"
  shows "net_unique (tk_net st)"
  using assms
proof induction
  case tr_init
  show ?case by (simp add: no_net_def net_unique_def)
next
  case (tr_del st u n p)
  then show ?case using net_usr_del_unique[of "tk_net st" n p]
    by (cases "net_usr_del n p (tk_net st)") (simp add: ut_del_def)
qed (auto simp: ut_periodic_def Let_def intro: get2add_unique ut_add_unique track_unique)

lemma tracker_sessions_unique_witness:
  "net_unique (tk_net (snd (get2add (\<lambda>s. None) (\<lambda>u. new_db_user \<lparr> du_username := u, du_result := True \<rparr>) 0 ''ann''
     \<lparr> hname = [], ipa = 1 \<rparr> ''Async1'' []
     (\<lparr> tk_cache = [], tk_net = no_net \<rparr> \<lparr> tk_net := net_step (\<lambda>s. None) (NAdd \<lparr> hname = [], ipa = 1 \<rparr>) no_net \<rparr>))))"
  using tracker_sessions_unique[OF tr_get[OF tr_net[OF tr_init, of "\<lambda>s. None" _ "NAdd \<lparr> hname = [], ipa = 1 \<rparr>"]],
      of "\<lambda>u. new_db_user \<lparr> du_username := u, du_result := True \<rparr>" 0 "''ann''" "\<lparr> hname = [], ipa = 1 \<rparr>" "''Async1''" "[]"]
  by simp

end
