(* ===== verification/AModify.thy ===== *)
theory AModify
  imports CorePool UserDb
begin

text \<open>
  The modifier of authorization pairs (\<^verbatim>\<open>src/AModify.cc\<close>): values \<^verbatim>\<open>INT:\<close>, \<^verbatim>\<open>SQL:\<close> and
  \<^verbatim>\<open>EXT:\<close> are commands whose variables are replaced and whose result becomes the value. The database query
  (\<open>w_sqlq\<close>) is a parameter, and so is whether the system has a pipe left (\<open>w_pipe\<close>). \<open>None\<close>: the daemon is no more, or
  waits for ever; the loop over the pairs can go on for ever, too.
\<close>

record amodify =
  am_name :: string
  am_nas :: ipaddr
  am_port :: string
  am_phone :: string

record world =
  w_dns :: dns
  w_sqlq :: "string \<Rightarrow> string"
  w_pipe :: bool
  w_maindir :: string

section \<open>Variables\<close>

text \<open>One of the four tests: a name found is skipped and its value written.\<close>

definition put_var :: "string \<Rightarrow> string \<Rightarrow> string \<times> string \<Rightarrow> string \<times> string" where
  "put_var v val st = (case st of (s, out) \<Rightarrow> if prefixed s v then (drop (length v) s, out @ c_str val) else (s, out))"

definition put_vars :: "amodify \<Rightarrow> string \<times> string \<Rightarrow> string \<times> string" where
  "put_vars am st = put_var ''$phone'' (am_phone am) (put_var ''$port'' (am_port am)
     (put_var ''$nas'' (ip_get (am_nas am)) (put_var ''$name'' (am_name am) st)))"

lemma put_var_le: "length (fst (put_var v val st)) \<le> length (fst st)"
  by (auto simp: put_var_def split: prod.splits)

lemma put_vars_le: "length (fst (put_vars am st)) \<le> length (fst st)"
  unfolding put_vars_def by (meson order.trans put_var_le)

text \<open>\<^verbatim>\<open>str[250]\<close> is filled without a check inside a value; after a variable the next character is copied even if
it is the terminator, and the scan goes on in unwritten memory.\<close>

function setvars_loop :: "amodify \<Rightarrow> string \<Rightarrow> string \<Rightarrow> string cres" where
  "setvars_loop am s out =
     (if s = [] \<or> 250 \<le> length out then buf_str 250 out
      else let (s', out') = (if hd s = CHR ''$'' then put_vars am (s, out) else (s, out))
           in if 250 \<le> length out' then Inl OutOfBounds
              else if s' = [] then Inl Indeterminate
              else setvars_loop am (tl s') (out' @ [hd s']))"
  by pat_completeness auto
termination
proof (relation "measure (\<lambda>(am, s, out). length s)", goal_cases)
  case (2 am s out p s' out')
  have "length s' \<le> length s"
    using 2(2,3) put_vars_le[of am "(s, out)"] by (cases "hd s = CHR ''$''") (metis fst_conv, simp)
  with 2 show ?case by (cases s') auto
qed simp

declare setvars_loop.simps [simp del]

definition setvars :: "amodify \<Rightarrow> string \<Rightarrow> string cres" where
  "setvars am sc = setvars_loop am (snprintf_s 299 sc) []"

section \<open>Commands\<close>

definition mod_int :: "string \<Rightarrow> pools \<Rightarrow> (string \<times> pools) cres" where
  "mod_int s ap =
     (if scompn (Some s) (Some ''addrpool='') 9 then
        cbind (getAvpValue (Some s)) (\<lambda>v. Inr (if 0 < atoi_c v then pool_get (atoi_c v) ap else (''0.0.0.0'', ap)))
      else Inr ([], ap))"

text \<open>The command of a value, if it has one; the tests are made one after the other.\<close>

datatype amod = ModInt | ModSql | ModExt

definition am_select :: "world \<Rightarrow> string \<Rightarrow> (amod \<times> string) option cres" where
  "am_select w v =
     (if scompn (Some v) (Some ''INT:'') 4 then cbind (getAvpMod (Some v)) (\<lambda>c. Inr (Some (ModInt, c)))
      else if scompn (Some v) (Some ''SQL:'') 4 then cbind (getAvpMod (Some v)) (\<lambda>c. Inr (Some (ModSql, c)))
      else if scompn (Some v) (Some ''EXT:'') 4 then
        cbind (getAvpMod (Some v)) (\<lambda>c. Inr (Some (ModExt, w_maindir w @ ''/ext/'' @ c)))
      else Inr None)"

text \<open>The request for an external program: a thread (\<^verbatim>\<open>extRunner\<close>) calls \<^verbatim>\<open>execl\<close>, which does not start the program beside the
daemon but in its place. Where no shell can be run the thread ends, but its copy \<^verbatim>\<open>n\<close> of the writing end stays open, so
the read from the pipe waits for ever.\<close>

definition mod_ext :: "world \<Rightarrow> string \<Rightarrow> string option" where
  "mod_ext w cmd = (if w_pipe w then None else Some [])"

definition am_run :: "world \<Rightarrow> amod \<Rightarrow> string \<Rightarrow> pools \<Rightarrow> (string \<times> pools) cres option" where
  "am_run w m c ap = (case m of ModInt \<Rightarrow> Some (mod_int c ap) | ModSql \<Rightarrow> Some (Inr (w_sqlq w c, ap))
     | ModExt \<Rightarrow> (case mod_ext w c of None \<Rightarrow> None | Some x \<Rightarrow> Some (Inr (x, ap))))"

text \<open>One round of the loop for one pair: no pair when it has no command.\<close>

definition am_pair :: "world \<Rightarrow> amodify \<Rightarrow> user_avp \<Rightarrow> pools \<Rightarrow> (user_avp \<times> pools) option cres option" where
  "am_pair w am a ap =
     obind (Some (getAvpName (Some (avp a)))) (\<lambda>attr. obind (Some (getAvpValue (Some (avp a)))) (\<lambda>v.
     obind (Some (am_select w v)) (\<lambda>r. case r of
       None \<Rightarrow> Some (Inr None)
     | Some (m, c) \<Rightarrow> obind (Some (setvars am c)) (\<lambda>c'. obind (am_run w m (snprintf_s 250 c') ap) (\<lambda>(x, ap').
         Some (Inr (Some (a \<lparr> avp := attr @ ''='' @ x \<rparr>, ap'))))))))"

text \<open>After a change the index is set to 0 and then counted up.\<close>

partial_function (option) modifyer ::
    "world \<Rightarrow> amodify \<Rightarrow> nat \<Rightarrow> db_user \<Rightarrow> pools \<Rightarrow> (db_user \<times> pools) cres option" where
  "modifyer w am i d ap =
     (if length (du_avp d) \<le> i then Some (Inr (d, ap))
      else obind (am_pair w am (avp_get d i) ap) (\<lambda>r. case r of
           None \<Rightarrow> modifyer w am (Suc i) d ap
         | Some x \<Rightarrow> modifyer w am 1 (avp_set i (fst x) d) (snd x)))"

section \<open>Properties\<close>

lemma modifyer_skip:
  "i \<le> length (du_avp d) \<Longrightarrow> \<forall>a \<in> set (drop i (du_avp d)). am_pair w am a ap = Some (Inr None) \<Longrightarrow>
   modifyer w am i d ap = Some (Inr (d, ap))"
proof (induction "length (du_avp d) - i" arbitrary: i)
  case 0
  then show ?case by (subst modifyer.simps) simp
next
  case (Suc n)
  then have lt: "i < length (du_avp d)" by simp
  then have "drop i (du_avp d) = du_avp d ! i # drop (Suc i) (du_avp d)" by (simp add: Cons_nth_drop_Suc)
  with Suc.prems lt have "am_pair w am (avp_get d i) ap = Some (Inr None)"
    "\<forall>a \<in> set (drop (Suc i) (du_avp d)). am_pair w am a ap = Some (Inr None)" by (simp_all add: avp_get_def)
  with Suc(1)[of "Suc i"] Suc(2) lt show ?case by (subst modifyer.simps) simp
qed

text \<open>When the first pair has a command, its result goes to the end of the list and the second pair is never
looked at: whatever command it has stays in the answer.\<close>

lemma modifyer_skips_second:
  assumes "du_avp d = a # b # rest" "am_pair w am a ap = Some (Inr (Some (a', ap')))"
    and "\<forall>x \<in> set rest \<union> {a'}. am_pair w am x ap' = Some (Inr None)"
  shows "modifyer w am 0 d ap = Some (Inr (d \<lparr> du_avp := b # rest @ [a'] \<rparr>, ap'))"
proof -
  have s: "avp_set 0 a' d = d \<lparr> du_avp := b # rest @ [a'] \<rparr>" using assms(1) by (simp add: avp_set_def)
  have "modifyer w am 1 (avp_set 0 a' d) ap' = Some (Inr (avp_set 0 a' d, ap'))"
    by (rule modifyer_skip) (use assms(3) in \<open>simp_all add: s\<close>)
  then show ?thesis
    using assms(1,2) by (subst modifyer.simps) (simp add: avp_get_def s)
qed

definition no_world :: world where
  "no_world = \<lparr> w_dns = (\<lambda>_. None), w_sqlq = (\<lambda>q. ''60''), w_pipe = True, w_maindir = [] \<rparr>"

definition two_cmds :: db_user where
  "two_cmds = new_db_user \<lparr> du_avp :=
     [no_avp \<lparr> avp := ''timeout=SQL:q'' \<rparr>, no_avp \<lparr> avp := ''idletime=SQL:q'' \<rparr>] \<rparr>"

definition some_line :: amodify where
  "some_line = \<lparr> am_name = ''ann'', am_nas = \<lparr> hname = [], ipa = 1 \<rparr>, am_port = ''Async1'', am_phone = [] \<rparr>"

lemma two_cmds_pairs:
  "am_pair no_world some_line (no_avp \<lparr> avp := ''timeout=SQL:q'' \<rparr>) [] = Some (Inr (Some (no_avp \<lparr> avp := ''timeout=60'' \<rparr>, [])))"
  "am_pair no_world some_line (no_avp \<lparr> avp := ''timeout=60'' \<rparr>) [] = Some (Inr None)"
  by code_simp+

lemma modifyer_skips_second_witness:
  "modifyer no_world some_line 0 two_cmds [] =
     Some (Inr (two_cmds \<lparr> du_avp := [no_avp \<lparr> avp := ''idletime=SQL:q'' \<rparr>, no_avp \<lparr> avp := ''timeout=60'' \<rparr>] \<rparr>, []))"
  by (subst modifyer_skips_second[where rest = "[]", OF _ two_cmds_pairs(1)]) (simp_all add: two_cmds_def two_cmds_pairs(2))

text \<open>A pair that asks for an external program ends the daemon: the authorization is never answered.\<close>

lemma modifyer_external:
  assumes "w_pipe w" "i < length (du_avp d)" "getAvpName (Some (avp (avp_get d i))) = Inr attr" "getAvpValue (Some (avp (avp_get d i))) = Inr v"
    "am_select w v = Inr (Some (ModExt, c))" "setvars am c = Inr c'"
  shows "modifyer w am i d ap = None"
  using assms by (subst modifyer.simps) (simp add: am_pair_def am_run_def mod_ext_def)

definition ext_cmd :: db_user where
  "ext_cmd = new_db_user \<lparr> du_avp := [no_avp \<lparr> avp := ''timeout=EXT:get.pl'' \<rparr>] \<rparr>"

lemma modifyer_external_witness: "modifyer no_world some_line 0 ext_cmd [] = None"
proof (rule modifyer_external)
  show "getAvpName (Some (avp (avp_get ext_cmd 0))) = Inr ''timeout''" "getAvpValue (Some (avp (avp_get ext_cmd 0))) = Inr ''EXT:get.pl''"
    "am_select no_world ''EXT:get.pl'' = Inr (Some (ModExt, ''/ext/get.pl''))" "setvars some_line ''/ext/get.pl'' = Inr ''/ext/get.pl''"
    by code_simp+
qed (simp_all add: no_world_def ext_cmd_def)

end
