(* ===== verification/AAA.thy ===== *)
theory AAA
  imports UserTrack AModify TacPacket
begin

text \<open>
  Authentication, authorization and accounting against the database (\<^verbatim>\<open>src/AAA.cc\<close>). Parameters: MD5
  (\<open>md5\<close>), regular expressions (\<open>rx\<close>), name resolution (\<open>dns\<close>), the database (\<open>dbget\<close>), \<^verbatim>\<open>mktime\<close> and the
  clock (\<open>now\<close> in seconds, \<open>tt\<close> broken down), read once for an operation. \<open>None\<close> is an operation that does not
  return.
\<close>

section \<open>Passwords\<close>

definition cpass :: "(byte list \<Rightarrow> byte list) \<Rightarrow> string \<Rightarrow> string \<Rightarrow> bool" where
  "cpass md5 pwdu pwdn =
     (if length pwdu = 0 \<or> length pwdn = 0 then False
      else if pwdu = pwdn then True
      else let pwduser = snprintf_s 50 pwdu; pwdnas = snprintf_s 50 pwdn;
               chal_len = int (length pwdnas) - 1 - 16
           in if chal_len < 0 then False
              else let n = nat chal_len
                   in md5_final md5 (to_bytes (hd pwdnas # pwduser @ take n (drop 1 pwdnas))) =
                      to_bytes (take 16 (drop (1 + n) pwdnas)))"

text \<open>The part of \<^verbatim>\<open>db_authentication\<close> that looks at the passwords, by the source of the user's data.\<close>

definition password_ok :: "(byte list \<Rightarrow> byte list) \<Rightarrow> db_user \<Rightarrow> string \<Rightarrow> string \<Rightarrow> bool" where
  "password_ok md5 d pw en =
     (let src = du_authsrc d
      in if prefixed src ''db'' then
           pw \<noteq> ''(null)'' \<and> \<not> (\<not> cpass md5 (du_password d) pw \<and> \<not> cpass md5 (du_enable d) en)
         else if prefixed src ''cpwd'' then \<not> (du_password d \<noteq> pw \<and> du_enable d \<noteq> en)
         else if prefixed src ''ccf'' then True
         else if prefixed src ''ccd'' then True
         else prefixed src ''nopwd'')"

section \<open>Access rules\<close>

text \<open>The four flags are set by a row and never cleared by a later one.\<close>

record acc_flags =
  by_phone :: bool
  by_nas :: bool
  by_port :: bool
  by_time :: bool

definition no_flags :: acc_flags where
  "no_flags = \<lparr> by_phone = False, by_nas = False, by_port = False, by_time = False \<rparr>"

definition time_flag :: "tm \<Rightarrow> db_user_acc \<Rightarrow> bool \<Rightarrow> bool cres option" where
  "time_flag tt a old =
     (if 0 < length (acc_time a) then
        (case check_time tt (Some (acc_time a)) of
           None \<Rightarrow> None
         | Some (Inl e) \<Rightarrow> Some (Inl e)
         | Some (Inr b) \<Rightarrow> Some (Inr (if b then True else old)))
      else Some (Inr True))"

fun acc_rules :: "regex \<Rightarrow> tm \<Rightarrow> string \<Rightarrow> ipaddr \<Rightarrow> string \<Rightarrow> bool \<Rightarrow> acc_flags \<Rightarrow> db_user_acc list \<Rightarrow> bool cres option" where
  "acc_rules rx tt rem n port flag fl [] = Some (Inr flag)"
| "acc_rules rx tt rem n port flag fl (a # as) =
     (let f1 = (if rx (acc_phone a) rem = Some True then True else by_phone fl);
          f2 = (if rx (acc_nas a) (ip_get n) = Some True then True else by_nas fl);
          f3 = (if 0 < length port then (if rx (acc_port a) port = Some True then True else by_port fl) else True)
      in case time_flag tt a (by_time fl) of
           None \<Rightarrow> None
         | Some (Inl e) \<Rightarrow> Some (Inl e)
         | Some (Inr f4) \<Rightarrow>
             if f1 \<and> f2 \<and> f3 \<and> f4 then Some (Inr True)
             else acc_rules rx tt rem n port False \<lparr> by_phone = f1, by_nas = f2, by_port = f3, by_time = f4 \<rparr> as)"

section \<open>Authentication\<close>

record site =
  st_md5 :: "byte list \<Rightarrow> byte list"
  st_rx :: regex
  st_world :: world
  st_dbget :: "string \<Rightarrow> db_user"
  st_mktime :: "tm \<Rightarrow> int"

abbreviation st_dns :: "site \<Rightarrow> dns" where
  "st_dns s \<equiv> w_dns (st_world s)"

definition db_authentication :: "site \<Rightarrow> tm \<Rightarrow> int \<Rightarrow> string \<Rightarrow> string \<Rightarrow> string \<Rightarrow> ipaddr \<Rightarrow> string \<Rightarrow> string \<Rightarrow>
    tracker \<Rightarrow> (bool \<times> tracker) cres option" where
  "db_authentication s tt now user pw rem n port en st =
     (case get2add (st_dns s) (st_dbget s) now user n port rem st of (d, st') \<Rightarrow>
        if \<not> du_result d then Some (Inr (False, st'))
        else if du_maxsess d \<noteq> 0 \<and> du_maxsess d \<le> int (net_numsess user (tk_net st')) then Some (Inr (False, st'))
        else if now < du_open d \<or> du_close d < now \<and> 100 < du_close d then Some (Inr (False, st'))
        else if \<not> password_ok (st_md5 s) d pw en then Some (Inr (False, st'))
        else case acc_rules (st_rx s) tt rem n port True no_flags (du_acc d) of
               None \<Rightarrow> None
             | Some (Inl e) \<Rightarrow> Some (Inl e)
             | Some (Inr b) \<Rightarrow> Some (Inr (b, st')))"

section \<open>Authorization\<close>

text \<open>The sessions are read one by one until one of the port is found or none is left.\<close>

fun sessions_below :: "device list \<Rightarrow> nat" where
  "sessions_below [] = 0"
| "sessions_below (d # ds) = length (cusr d) + sessions_below ds"

lemma walk_sessions_found:
  "walk_sessions e c n u = (r, k, u') \<Longrightarrow> if n < length c then r = Some (c ! n) else r = None \<and> k = n - length c"
  by (induction e c n u rule: walk_sessions.induct) (auto simp: Let_def nth_Cons' split: if_splits)

lemma walk_devices_found: "walk_devices e ds n u = (Some x, u') \<Longrightarrow> n < sessions_below ds"
proof (induction e ds n u rule: walk_devices.induct)
  case (2 e d ds n u)
  obtain r k u1 where w: "walk_sessions e (cusr d) n u = (r, k, u1)" by (cases "walk_sessions e (cusr d) n u")
  show ?case
  proof (cases r)
    case None
    with walk_sessions_found[OF w] have "k = n - length (cusr d)" by (auto split: if_splits)
    then show ?thesis using 2 w None by (cases "n < length (cusr d)") (auto simp: less_diff_conv2 add.commute)
  next
    case (Some y)
    with walk_sessions_found[OF w] show ?thesis by (auto split: if_splits)
  qed
qed simp

lemma getuser_found: "ses_present (fst (getuser dns now i st)) \<Longrightarrow> i < sessions_below (nas st)"
  by (auto simp: getuser_def Let_def absent_session_def dest: walk_devices_found split: prod.splits option.splits)

lemma getuser_nas [simp]: "nas (snd (getuser dns now i st)) = nas st"
  by (auto simp: getuser_def Let_def split: prod.splits option.splits)

function find_phone :: "dns \<Rightarrow> int \<Rightarrow> ipaddr \<Rightarrow> string \<Rightarrow> nat \<Rightarrow> net \<Rightarrow> string \<times> net" where
  "find_phone dns now peer port i st =
     (let s = fst (getuser dns now i st); st1 = snd (getuser dns now i st); st2 = st1 \<lparr> ud := ses_assign s (ud st1) \<rparr>;
          st3 = st2 \<lparr> ud := ses_destroy s (ud st2) \<rparr>
      in if \<not> ses_present s then ([], st3)
         else if ip_eq (ses_nas s) peer \<and> ses_port s = port then (ses_phone s, st3)
         else find_phone dns now peer port (Suc i) st2)"
  by pat_completeness auto
termination
proof (relation "measure (\<lambda>(dns, now, peer, port, i, st). sessions_below (nas st) - i)", goal_cases)
  case (2 dns now peer port i st s st1 st2)
  then show ?case using getuser_found[of dns now i st] by auto
qed simp

declare find_phone.simps [simp del]

definition db_authorization :: "site \<Rightarrow> int \<Rightarrow> string \<Rightarrow> ipaddr \<Rightarrow> string \<Rightarrow> string \<Rightarrow> tracker \<Rightarrow> pools \<Rightarrow>
    (db_user \<times> tracker \<times> pools) cres option" where
  "db_authorization s now user peer port rem st ap =
     (case get2add (st_dns s) (st_dbget s) now user peer port rem st of (d, st') \<Rightarrow>
        if \<not> du_result d then Some (Inr (d, st', ap))
        else case find_phone (st_dns s) now peer port 0 (tk_net st') of (ra, n) \<Rightarrow>
          (case modifyer (st_world s) \<lparr> am_name = user, am_nas = peer, am_port = port, am_phone = ra \<rparr> 0 d ap of
             None \<Rightarrow> None
           | Some (Inl e) \<Rightarrow> Some (Inl e)
           | Some (Inr (d', ap')) \<Rightarrow> Some (Inr (d', st' \<lparr> tk_net := n \<rparr>, ap'))))"

section \<open>Accounting\<close>

record log_user =
  lu_action :: int
  lu_server :: ipaddr
  lu_task_id :: int
  lu_servtime :: int
  lu_start_time :: int
  lu_username :: string
  lu_from :: string
  lu_port :: string
  lu_elapsed :: "32 word"
  lu_ip :: ipaddr
  lu_nas :: ipaddr
  lu_service :: string
  lu_protocol :: string
  lu_disc_cause :: int
  lu_disc_cause_ext :: int
  lu_bytes_in :: "32 word"
  lu_bytes_out :: "32 word"
  lu_rx_speed :: "32 word"
  lu_tx_speed :: "32 word"
  lu_h323_call_origin :: string
  lu_h323_call_type :: string
  lu_h323_disconnect_cause :: int
  lu_h323_voice_quality :: int
  lu_h323_remote_address :: ipaddr
  lu_h323_connect_time :: int
  lu_h323_disconnect_time :: int

definition new_log_user :: "dns \<Rightarrow> log_user" where
  "new_log_user dns = \<lparr> lu_action = 0, lu_server = ip_fill dns UNKNOWN_IP, lu_task_id = 0, lu_servtime = 0,
     lu_start_time = 0, lu_username = [], lu_from = [], lu_port = [], lu_elapsed = 0, lu_ip = ip_fill dns UNKNOWN_IP,
     lu_nas = ip_fill dns UNKNOWN_IP, lu_service = [], lu_protocol = [], lu_disc_cause = 0, lu_disc_cause_ext = 0,
     lu_bytes_in = 0, lu_bytes_out = 0, lu_rx_speed = 0, lu_tx_speed = 0, lu_h323_call_origin = [],
     lu_h323_call_type = [], lu_h323_disconnect_cause = 0, lu_h323_voice_quality = 0,
     lu_h323_remote_address = ip_default dns, lu_h323_connect_time = 0, lu_h323_disconnect_time = 0 \<rparr>"

definition action_code :: "string \<Rightarrow> int \<Rightarrow> int" where
  "action_code v old =
     (let a = old;
          a = (if scomp (Some v) (Some ''START'') then 1 else a);
          a = (if scomp (Some v) (Some ''UPDATE'') then 2 else a);
          a = (if scomp (Some v) (Some ''STOP'') then 3 else a)
      in a)"

text \<open>The text after a name, when the pair has the name.\<close>

definition named :: "string \<Rightarrow> string \<Rightarrow> bool" where
  "named str n = prefixed (c_str str) n"

definition val :: "string \<Rightarrow> string \<Rightarrow> string" where
  "val str n = drop (length n) (c_str str)"

definition log_field :: "dns \<Rightarrow> (tm \<Rightarrow> int) \<Rightarrow> string \<Rightarrow> log_user \<Rightarrow> log_user cres" where
  "log_field dns mkt str l =
     (let is = named str; v = val str; n = (\<lambda>nm. atoi_c (val str nm)); u = (\<lambda>nm. word_of_int (atoi_c (val str nm)))
      in if is ''action='' then Inr (l \<lparr> lu_action := action_code (v ''action='') (lu_action l) \<rparr>)
      else if is ''user='' then Inr (l \<lparr> lu_username := v ''user='' \<rparr>)
      else if is ''port='' then Inr (l \<lparr> lu_port := v ''port='' \<rparr>)
      else if is ''from='' then Inr (l \<lparr> lu_from := v ''from='' \<rparr>)
      else if is ''nas='' then Inr (l \<lparr> lu_nas := ip_fill dns (v ''nas='') \<rparr>)
      else if is ''service='' then Inr (l \<lparr> lu_service := v ''service='' \<rparr>)
      else if is ''protocol='' then Inr (l \<lparr> lu_protocol := v ''protocol='' \<rparr>)
      else if is ''address='' then Inr (l \<lparr> lu_ip := ip_fill dns (v ''address='') \<rparr>)
      else if is ''addr='' then Inr (l \<lparr> lu_ip := ip_fill dns (v ''addr='') \<rparr>)
      else if is ''bytes_in='' then Inr (l \<lparr> lu_bytes_in := u ''bytes_in='' \<rparr>)
      else if is ''bytes_out='' then Inr (l \<lparr> lu_bytes_out := u ''bytes_out='' \<rparr>)
      else if is ''elapsed_time='' then Inr (l \<lparr> lu_elapsed := u ''elapsed_time='' \<rparr>)
      else if is ''disc-cause='' then Inr (l \<lparr> lu_disc_cause := n ''disc-cause='' \<rparr>)
      else if is ''disc-cause-ext='' then Inr (l \<lparr> lu_disc_cause_ext := n ''disc-cause-ext='' \<rparr>)
      else if is ''nas-rx-speed='' then Inr (l \<lparr> lu_rx_speed := u ''nas-rx-speed='' \<rparr>)
      else if is ''nas-tx-speed='' then Inr (l \<lparr> lu_tx_speed := u ''nas-tx-speed='' \<rparr>)
      else if is ''start_time='' then Inr (l \<lparr> lu_start_time := atol_c (v ''start_time='') \<rparr>)
      else if is ''task_id='' then Inr (l \<lparr> lu_task_id := n ''task_id='' \<rparr>)
      else if is ''h323-call-origin='' then Inr (l \<lparr> lu_h323_call_origin := v ''h323-call-origin='' \<rparr>)
      else if is ''h323-call-type='' then Inr (l \<lparr> lu_h323_call_type := v ''h323-call-type='' \<rparr>)
      else if is ''h323-disconnect-cause='' then Inr (l \<lparr> lu_h323_disconnect_cause := n ''h323-disconnect-cause='' \<rparr>)
      else if is ''h323-voice-quality='' then Inr (l \<lparr> lu_h323_voice_quality := n ''h323-voice-quality='' \<rparr>)
      else if is ''h323-remote-address='' then
        Inr (l \<lparr> lu_h323_remote_address := ip_fill dns (v ''h323-remote-address='') \<rparr>)
      else if is ''h323-connect-time='' then
        cbind (h323time2time mkt (Some (v ''h323-connect-time=''))) (\<lambda>t. Inr (l \<lparr> lu_h323_connect_time := t \<rparr>))
      else if is ''h323-disconnect-time='' then
        cbind (h323time2time mkt (Some (v ''h323-disconnect-time=''))) (\<lambda>t. Inr (l \<lparr> lu_h323_disconnect_time := t \<rparr>))
      else Inr l)"

fun log_fields :: "dns \<Rightarrow> (tm \<Rightarrow> int) \<Rightarrow> string list \<Rightarrow> log_user \<Rightarrow> log_user cres" where
  "log_fields dns mkt [] l = Inr l"
| "log_fields dns mkt (s # ss) l = cbind (log_field dns mkt s l) (log_fields dns mkt ss)"

definition log_line :: "string list \<Rightarrow> string" where
  "log_line ss = concat (map (\<lambda>s. if 0 < length s then s @ [CHR 0x09] else []) ss)"

text \<open>What leaves the component: the line of the log file, the entry for the database and the entry for the
bundle (user, device, address, port, caller, start or stop).\<close>

record acct_out =
  ao_line :: string
  ao_db :: "log_user option"
  ao_tip :: "(string \<times> ipaddr \<times> ipaddr \<times> string \<times> string \<times> bool) option"

definition db_accounting :: "site \<Rightarrow> int \<Rightarrow> string list \<Rightarrow> tracker \<Rightarrow> pools \<Rightarrow> (acct_out \<times> tracker \<times> pools) cres" where
  "db_accounting s now logavp st ap =
     cbind (log_fields (st_dns s) (st_mktime s) logavp (new_log_user (st_dns s))) (\<lambda>l.
     let line = log_line logavp
     in if length (lu_username l) = 0 \<or> lu_action l = 0 then Inr (\<lparr> ao_line = line, ao_db = None, ao_tip = None \<rparr>, st, ap)
        else let prt = portConvert (portConvert (lu_port l));
                 tip = (\<lambda>b. (lu_username l, lu_nas l, lu_ip l, prt, lu_from l, b))
             in if lu_action l = 3 then
                  (let ap' = (if \<not> ip_eq_str (st_dns s) (lu_ip l) UNKNOWN_IP then pool_ret (lu_ip l) ap else ap);
                       (r, st') = ut_del (lu_username l) (lu_nas l) prt st
                   in Inr (\<lparr> ao_line = line, ao_db = Some (l \<lparr> lu_servtime := now \<rparr>),
                        ao_tip = (if r then Some (tip False) else None) \<rparr>, st', ap'))
                else
                  (let (r, st') = ut_add (st_dns s) (st_dbget s) now (lu_username l) (lu_nas l) prt (lu_from l) (lu_ip l) st
                   in Inr (\<lparr> ao_line = line, ao_db = None, ao_tip = (if r then Some (tip True) else None) \<rparr>, st', ap)))"

section \<open>Lemmas\<close>

text \<open>What the rows say together: each of the four conditions has some row, not necessarily the same.\<close>

definition time_holds :: "tm \<Rightarrow> db_user_acc \<Rightarrow> bool" where
  "time_holds tt a = (acc_time a = [] \<or> check_time tt (Some (acc_time a)) = Some (Inr True))"

definition rules_checkable :: "tm \<Rightarrow> db_user_acc list \<Rightarrow> bool" where
  "rules_checkable tt as = (\<forall>a \<in> set as. acc_time a = [] \<or> (\<exists>b. check_time tt (Some (acc_time a)) = Some (Inr b)))"

definition rules_hold :: "regex \<Rightarrow> tm \<Rightarrow> string \<Rightarrow> ipaddr \<Rightarrow> string \<Rightarrow> db_user_acc list \<Rightarrow> bool" where
  "rules_hold rx tt rem n port as =
     ((\<exists>a \<in> set as. rx (acc_phone a) rem = Some True) \<and> (\<exists>a \<in> set as. rx (acc_nas a) (ip_get n) = Some True) \<and>
      (port = [] \<or> (\<exists>a \<in> set as. rx (acc_port a) port = Some True)) \<and> (\<exists>a \<in> set as. time_holds tt a))"

lemma time_flag_eq:
  "rules_checkable tt (a # as) \<Longrightarrow> time_flag tt a old = Some (Inr (old \<or> time_holds tt a))"
  by (auto simp: rules_checkable_def time_flag_def time_holds_def)

lemma acc_rules_eq:
  "rules_checkable tt as \<Longrightarrow> acc_rules rx tt rem n port flag fl as =
     Some (Inr (if as = [] then flag else
       (by_phone fl \<or> (\<exists>a \<in> set as. rx (acc_phone a) rem = Some True)) \<and>
       (by_nas fl \<or> (\<exists>a \<in> set as. rx (acc_nas a) (ip_get n) = Some True)) \<and>
       (port = [] \<or> by_port fl \<or> (\<exists>a \<in> set as. rx (acc_port a) port = Some True)) \<and>
       (by_time fl \<or> (\<exists>a \<in> set as. time_holds tt a))))"
proof (induction as arbitrary: flag fl)
  case (Cons a as)
  have c: "rules_checkable tt as" using Cons.prems by (simp add: rules_checkable_def)
  show ?case
    unfolding acc_rules.simps Let_def time_flag_eq[OF Cons.prems] option.case sum.case Cons.IH[OF c]
    by (cases "as = []") auto
qed simp

lemma acc_rules_hold:
  "rules_checkable tt as \<Longrightarrow> acc_rules rx tt rem n port True no_flags as =
     Some (Inr (as = [] \<or> rules_hold rx tt rem n port as))"
  by (simp add: acc_rules_eq rules_hold_def no_flags_def)

lemma try_devs_first:
  "find P ds = Some d \<Longrightarrow> f (cusr d) u = (True, c, u') \<Longrightarrow>
   try_devs P f ds u = (True, upd_first P (\<lambda>x. x \<lparr> cusr := c \<rparr>) ds, u')"
  by (induction ds) (auto split: if_splits)

text \<open>A user without password and two rows: one allows a caller but no device, the other any device but another
caller.\<close>

definition demo_user :: db_user where
  "demo_user = new_db_user \<lparr> du_username := ''ann'', du_result := True, du_authsrc := ''nopwd'',
     du_acc := [\<lparr> acc_phone = ''111'', acc_nas = ''none'', acc_port = [], acc_time = [] \<rparr>,
       \<lparr> acc_phone = ''222'', acc_nas = [], acc_port = [], acc_time = [] \<rparr>] \<rparr>"

definition demo_site :: site where
  "demo_site = \<lparr> st_md5 = (\<lambda>_. replicate 16 65), st_rx = (\<lambda>p t. Some (p = [] \<or> p = t)), st_world = no_world,
     st_dbget = (\<lambda>u. demo_user), st_mktime = (\<lambda>_. 0) \<rparr>"

section \<open>Properties\<close>

text \<open>C19: a user is let in exactly when the database knows him, he has sessions left, the date is within those of
the account, the password is accepted and the access rows hold. The rows hold when there are none or when each of the
four conditions (caller, device, port, time) holds in some row: rows that allow different things add up to combinations
none of them allows.\<close>

theorem authentication_iff:
  assumes "get2add (st_dns s) (st_dbget s) now user n port rem st = (d, st')" "rules_checkable tt (du_acc d)"
  shows "db_authentication s tt now user pw rem n port en st = Some (Inr
    (du_result d \<and> (du_maxsess d = 0 \<or> int (net_numsess user (tk_net st')) < du_maxsess d) \<and>
     du_open d \<le> now \<and> (now \<le> du_close d \<or> du_close d \<le> 100) \<and> password_ok (st_md5 s) d pw en \<and>
     (du_acc d = [] \<or> rules_hold (st_rx s) tt rem n port (du_acc d)), st'))"
  using assms by (auto simp: db_authentication_def acc_rules_hold not_less not_le)

lemma authentication_iff_witness:
  "\<exists>st'. db_authentication demo_site zero_tm 0 ''ann'' ''x'' ''111'' \<lparr> hname = [], ipa = 1 \<rparr> ''Async1'' []
     \<lparr> tk_cache = [], tk_net = no_net \<rparr> = Some (Inr (True, st'))"
proof -
  have u: "getUd u [] = new_db_user" for u by (simp add: getUd_def)
  define t where "t = get2add (st_dns demo_site) (st_dbget demo_site) 0 ''ann'' \<lparr> hname = [], ipa = 1 \<rparr> ''Async1'' ''111''
      \<lparr> tk_cache = [], tk_net = no_net \<rparr>"
  have "fst t = demo_user"
    by (simp add: t_def get2add_def no_net_def u Let_def demo_site_def) (simp add: new_db_user_def demo_user_def Let_def)
  then have g: "get2add (st_dns demo_site) (st_dbget demo_site) 0 ''ann'' \<lparr> hname = [], ipa = 1 \<rparr> ''Async1'' ''111''
      \<lparr> tk_cache = [], tk_net = no_net \<rparr> = (demo_user, snd t)" by (metis prod.collapse t_def)
  have "prefixed ''nopwd'' ''nopwd''" "\<not> prefixed ''nopwd'' ''db''" "\<not> prefixed ''nopwd'' ''cpwd''"
    "\<not> prefixed ''nopwd'' ''ccf''" "\<not> prefixed ''nopwd'' ''ccd''" by (simp_all add: prefixed_iff)
  then show ?thesis
    by (subst authentication_iff[OF g])
       (auto simp: demo_user_def demo_site_def new_db_user_def rules_checkable_def rules_hold_def time_holds_def
         password_ok_def Let_def)
qed

text \<open>A CHAP answer of at most 49 bytes without a zero byte is accepted exactly when its last 16 bytes are the
MD5 of identifier, password and challenge (or when the answer is literally the stored password).\<close>

lemma cpass_chap:
  assumes "nul_free pw" "pw \<noteq> []" "length pw < 50" "nul_free (c # chal @ resp)" "length resp = 16" "length chal \<le> 32"
  shows "cpass md5 pw (c # chal @ resp) =
    (pw = c # chal @ resp \<or> md5_final md5 (to_bytes (c # pw @ chal)) = to_bytes resp)"
proof -
  have "snprintf_s 50 pw = pw" "snprintf_s 50 (c # chal @ resp) = c # chal @ resp"
    using assms by (simp_all add: snprintf_s_short)
  then show ?thesis
    using assms(2,5) by (simp add: cpass_def Let_def)
qed

lemma cpass_chap_witness:
  "cpass (\<lambda>_. replicate 16 65) ''secret'' (CHR ''x'' # ''chal'' @ replicate 16 CHR ''A'')"
  by (subst cpass_chap) (simp_all, simp add: md5_final_def to_bytes_def byte_of_char_def code_def)

text \<open>An accounting STOP for a port ends the first session there, whoever's it is: the user named in the record
is only logged. The address of the record goes back to the pools.\<close>

lemma stop_ends_port:
  assumes "nul_free u" "nul_free p" "nul_free f" "nul_free n" "nul_free a" "u \<noteq> []"
    and "get_dev (ip_fill (st_dns s) n) (tk_net st) = Some d" "cusr d = x # c" "ses_port x = portConvert (portConvert p)"
    and "\<not> ip_eq_str (st_dns s) (ip_fill (st_dns s) a) UNKNOWN_IP"
  shows "\<exists>out. db_accounting s now [''action=STOP'', ''user='' @ u, ''port='' @ p, ''from='' @ f, ''nas='' @ n, ''addr='' @ a] st ap =
    Inr (out, st \<lparr> tk_net := tk_net st \<lparr> nas := upd_first (at_ip (ip_fill (st_dns s) n)) (\<lambda>y. y \<lparr> cusr := c \<rparr>) (nas (tk_net st)),
      ud := delUd (ses_username x) (ud (tk_net st)) \<rparr> \<rparr>, pool_ret (ip_fill (st_dns s) a) ap)"
proof -
  let ?ss = "[''action=STOP'', ''user='' @ u, ''port='' @ p, ''from='' @ f, ''nas='' @ n, ''addr='' @ a]"
  let ?l = "new_log_user (st_dns s) \<lparr> lu_action := 3, lu_username := u, lu_port := p, lu_from := f,
    lu_nas := ip_fill (st_dns s) n, lu_ip := ip_fill (st_dns s) a \<rparr>"
  have l: "log_fields (st_dns s) (st_mktime s) ?ss (new_log_user (st_dns s)) = Inr ?l"
    using assms(1-5) by (simp add: log_field_def named_def val_def prefixed_iff action_code_def)
  have "try_devs (at_ip (ip_fill (st_dns s) n)) (dus_del (portConvert (portConvert p))) (nas (tk_net st)) (ud (tk_net st)) =
      (True, upd_first (at_ip (ip_fill (st_dns s) n)) (\<lambda>y. y \<lparr> cusr := c \<rparr>) (nas (tk_net st)), delUd (ses_username x) (ud (tk_net st)))"
    using assms(7-9) by (intro try_devs_first[where d = d]) (simp_all add: get_dev_def ses_destroy_def)
  then show ?thesis
    unfolding db_accounting_def l cbind_simps using assms(6,10) by (simp add: Let_def ut_del_def net_usr_del_def)
qed

definition busy_port :: tracker where
  "busy_port = \<lparr> tk_cache = [], tk_net = \<lparr> nas = [(new_device \<lparr> hname = inet_ntoa 1, ipa = 1 \<rparr>)
     \<lparr> cusr := [new_session 0 ''ann'' ''Async1'' [] \<lparr> hname = [], ipa = 1 \<rparr> \<lparr> hname = [], ipa = 5 \<rparr>] \<rparr>],
     ud = [] \<rparr> \<rparr>"

lemma stop_ends_port_witness:
  "\<exists>out st'. db_accounting demo_site 7 [''action=STOP'', ''user='' @ ''bob'', ''port='' @ ''Async1'', ''from='' @ [],
       ''nas='' @ inet_ntoa 1, ''addr='' @ inet_ntoa 9] busy_port [] = Inr (out, st', []) \<and> map cusr (nas (tk_net st')) = [[]]"
proof -
  have f: "ip_fill (st_dns demo_site) (inet_ntoa a) = \<lparr> hname = inet_ntoa a, ipa = a \<rparr>" for a
    by (rule ip_fill_ntoa) (simp add: demo_site_def no_world_def)
  have p: "portConvert (portConvert ''Async1'') = ''Async1''" by code_simp
  show ?thesis
    using stop_ends_port[of "''bob''" "''Async1''" "[]" "inet_ntoa 1" "inet_ntoa 9" demo_site busy_port
        "hd (nas (tk_net busy_port))" "hd (cusr (hd (nas (tk_net busy_port))))" "[]" 7 "[]"]
    by (auto simp: f p busy_port_def get_dev_def at_ip_def ip_eq_def new_device_def new_session_def pool_ret_def)
qed

end
