(* ===== verification/TacSession.thy ===== *)
theory TacSession
  imports AAA TacAcct AuthorAlg TacAuthen
begin

text \<open>
  A TACACS+ session and the reader of a connection (\<^verbatim>\<open>TacacsSessionContainer::process\<close> and
  \<^verbatim>\<open>TacacsPacketReader\<close> in \<^verbatim>\<open>src/Tacacs.cc\<close>). A step gets the header and the body of one packet, the clock
  (\<open>tt\<close>, \<open>now\<close>) and what the socket does with the answer (\<open>evs\<close>). The members other sessions see are in
  \<open>daemon\<close>: the tracker, the pools and what accounting handed on.
\<close>

section \<open>State\<close>

record tsession =
  ts_tac :: tacpkt
  ts_peer :: ipaddr
  ts_login :: string
  ts_pwd :: string
  ts_authoriz :: bool
  ts_authen :: "authen option"
  ts_author :: "author_obj option"
  ts_acct :: "string list"

definition new_tsession :: "ipaddr \<Rightarrow> int \<Rightarrow> 32 word \<Rightarrow> string \<Rightarrow> string \<Rightarrow> string \<Rightarrow> bool \<Rightarrow> tsession" where
  "new_tsession i f s k l p a = \<lparr> ts_tac = new_TacacsPacket k (ip_get i) f s, ts_peer = i, ts_login = l, ts_pwd = p,
     ts_authoriz = a, ts_authen = None, ts_author = None, ts_acct = [] \<rparr>"

record daemon =
  dm_track :: tracker
  dm_pools :: pools
  dm_acct :: "acct_out list"

section \<open>Authentication\<close>

text \<open>Every path of the branch ends with at most one answer.\<close>

datatype authen_act = Quiet | Answer byte string byte byte

abbreviation (input) ECHO :: byte where "ECHO \<equiv> 0"
abbreviation (input) NOECHO :: byte where "NOECHO \<equiv> 1"

abbreviation (input) fail_act :: authen_act where
  "fail_act \<equiv> Answer STATUS_FAIL [] NOECHO TAC_PLUS_VER_0"

abbreviation (input) pass_act :: "byte \<Rightarrow> authen_act" where
  "pass_act v \<equiv> Answer STATUS_PASS [] NOECHO v"

definition login :: "site \<Rightarrow> tm \<Rightarrow> int \<Rightarrow> authen \<Rightarrow> string \<Rightarrow> daemon \<Rightarrow> (bool \<times> daemon) cres option" where
  "login s tt now a pw dm =
     obind (db_authentication s tt now (au_user a) pw (au_rem_addr a) (au_cisco a) (au_port a) (au_enable a) (dm_track dm))
       (\<lambda>(b, st). Some (Inr (b, dm \<lparr> dm_track := st \<rparr>)))"

definition cleared :: "dns \<Rightarrow> authen \<Rightarrow> authen" where
  "cleared dns a = a \<lparr> au_res := 0, au_request := 0, au_en_req := 0, au_user := [], au_port := [],
     au_cisco := ip_fill dns [], au_rem_addr := [], au_pwstring := [], au_password := [], au_data := [], au_enable := [] \<rparr>"

text \<open>The step yields the answer, the object and the rest of the state.\<close>

type_synonym authen_out = "(authen_act \<times> authen \<times> daemon) cres option"

definition ask_login :: "site \<Rightarrow> tm \<Rightarrow> int \<Rightarrow> authen \<Rightarrow> string \<Rightarrow> daemon \<Rightarrow> authen_out" where
  "ask_login s tt now a prompt dm =
     obind (login s tt now a ''(null)'' dm) (\<lambda>(b, dm').
       Some (Inr (if b then pass_act TAC_PLUS_VER_0 else Answer STATUS_GETPASS prompt NOECHO TAC_PLUS_VER_0, a, dm')))"

definition check_login :: "site \<Rightarrow> tm \<Rightarrow> int \<Rightarrow> authen \<Rightarrow> daemon \<Rightarrow> authen_out" where
  "check_login s tt now a dm =
     obind (login s tt now a (au_pwstring a) dm) (\<lambda>(b, dm').
       Some (Inr (if \<not> b then fail_act else pass_act (if au_chap a then TAC_PLUS_VER_1 else TAC_PLUS_VER_0), a, dm')))"

text \<open>Sequence 1, after \<^verbatim>\<open>get_start\<close> gave the result \<open>res\<close>.\<close>

definition authen_seq1 :: "site \<Rightarrow> tm \<Rightarrow> int \<Rightarrow> tsession \<Rightarrow> int \<Rightarrow> authen \<Rightarrow> daemon \<Rightarrow> authen_out" where
  "authen_seq1 s tt now ts res a dm =
     (let a = a \<lparr> au_res := res \<rparr>
      in if res = 0 then Some (Inr (fail_act, a, dm))
      else let a = a \<lparr> au_request := res \<rparr>
      in if res = TACACS_ASCII_LOGIN \<or> res = TACACS_ENABLE_REQUEST then
           (let a = (if res = TACACS_ASCII_LOGIN then a else a \<lparr> au_en_req := res \<rparr>)
            in if length (au_user a) = 0 then Some (Inr (Answer STATUS_GETUSER (ts_login ts) ECHO TAC_PLUS_VER_0, a, dm))
               else ask_login s tt now a (ts_pwd ts) dm)
         else if (res = TACACS_PAP_LOGIN \<or> res = TACACS_CHAP_LOGIN) \<and> 0 < length (au_data a) then
           (let a = a \<lparr> au_pwstring := take 253 (au_data a), au_chap := True \<rparr>
            in if 0 < length (au_pwstring a) then check_login s tt now a dm else Some (Inr (Quiet, a, dm)))
         else if res = TACACS_CHAP_PASSWORD \<or> res = TACACS_PAP_PASSWORD then
           Some (Inr (pass_act TAC_PLUS_VER_0, a, dm))
         else Some (Inr (fail_act, a, dm)))"

definition interactive :: "authen \<Rightarrow> bool" where
  "interactive a = (au_request a = TACACS_ASCII_LOGIN \<or> au_request a = TACACS_ENABLE_REQUEST)"

text \<open>The array a text was not copied to keeps its zeros.\<close>

definition got :: "string option \<Rightarrow> string" where
  "got t = (case t of None \<Rightarrow> [] | Some s \<Rightarrow> s)"

text \<open>Sequences 2, 3, 4 without a user name.\<close>

definition authen_user :: "site \<Rightarrow> tm \<Rightarrow> int \<Rightarrow> tsession \<Rightarrow> HDR \<Rightarrow> byte list \<Rightarrow> authen \<Rightarrow> daemon \<Rightarrow> authen_out" where
  "authen_user s tt now ts h p a dm =
     obind (Some (get_cont h (Some p) USERNAME_LEN (int USERNAME_LEN))) (\<lambda>(res, msg, data).
       let a = a \<lparr> au_data := got data, au_res := res \<rparr>
       in if res = -1 then Some (Inr (fail_act, a, dm))
          else let a = a \<lparr> au_user := got msg \<rparr>
          in if res = 1 then Some (Inr (fail_act, a, dm))
             else ask_login s tt now a (if au_en_req a = TACACS_ENABLE_REQUEST then ''ENABLE PASSWORD:'' else ts_pwd ts) dm)"

text \<open>Sequences 5, 6, 7, and 2, 3, 4 with a user name.\<close>

definition authen_pwd :: "site \<Rightarrow> tm \<Rightarrow> int \<Rightarrow> HDR \<Rightarrow> byte list \<Rightarrow> authen \<Rightarrow> daemon \<Rightarrow> authen_out" where
  "authen_pwd s tt now h p a dm =
     (if \<not> interactive a then Some (Inr (Quiet, a, dm))
      else obind (Some (get_cont h (Some p) DB_PASSWORD_LEN (int PASSWORD_LEN))) (\<lambda>(res, msg, data).
        let a = a \<lparr> au_password := got msg, au_data := got data, au_res := res \<rparr>
        in if res = -1 then Some (Inr (fail_act, a, dm))
           else if res = 1 then Some (Inr (Quiet, a, dm))
           else let a = (if au_en_req a = TACACS_ENABLE_REQUEST then a \<lparr> au_enable := au_password a \<rparr>
                         else a \<lparr> au_pwstring := snprintf_s 253 (au_password a) \<rparr>)
           in check_login s tt now a dm))"

text \<open>The sequence number selects the case; the packet handler is only changed by \<^verbatim>\<open>get_start\<close>.\<close>

definition authen_step :: "site \<Rightarrow> tm \<Rightarrow> int \<Rightarrow> tsession \<Rightarrow> HDR \<Rightarrow> byte list \<Rightarrow> authen \<Rightarrow> daemon \<Rightarrow>
    (tacpkt \<times> authen_act \<times> authen \<times> daemon) cres option" where
  "authen_step s tt now ts h p a dm =
     (let seq = tp_seq_no (ts_tac ts); keep = (\<lambda>r. Some (Inr (ts_tac ts, r)))
      in if seq = 1 then
           obind (Some (get_start (st_dns s) h p (ts_tac ts) (cleared (st_dns s) a))) (\<lambda>(res, t, a).
           obind (authen_seq1 s tt now ts res a dm) (\<lambda>r. Some (Inr (t, r))))
         else if seq = 2 \<or> seq = 3 \<or> seq = 4 then
           (if \<not> interactive a then keep (Quiet, a, dm)
            else if length (au_user a) = 0 then obind (authen_user s tt now ts h p a dm) keep
            else obind (authen_pwd s tt now h p a dm) keep)
         else if seq = 5 \<or> seq = 6 \<or> seq = 7 then obind (authen_pwd s tt now h p a dm) keep
         else keep (Quiet, a, dm))"

type_synonym proc_out = "(byte list \<times> tsession \<times> daemon) cres option"

definition process_authen :: "site \<Rightarrow> tm \<Rightarrow> int \<Rightarrow> wr_ev list \<Rightarrow> HDR \<Rightarrow> byte list \<Rightarrow> tsession \<Rightarrow> daemon \<Rightarrow> proc_out" where
  "process_authen s tt now evs h p ts dm =
     (let a = (case ts_authen ts of None \<Rightarrow> new_authen (st_dns s) | Some a \<Rightarrow> a)
      in obind (authen_step s tt now ts h p a dm) (\<lambda>(t, act, a, dm).
         case act of
           Quiet \<Rightarrow> Some (Inr ([], ts \<lparr> ts_tac := t, ts_authen := Some a \<rparr>, dm))
         | Answer st msg fl ver \<Rightarrow>
             obind (Some (send_reply (st_md5 s) now evs t st msg [] fl ver)) (\<lambda>(ok, wire, t).
               Some (Inr (wire, ts \<lparr> ts_tac := t, ts_authen := Some a \<rparr>, dm)))))"

section \<open>Authorization\<close>

text \<open>The database is asked when the request could be read.\<close>

definition author_db :: "site \<Rightarrow> int \<Rightarrow> tsession \<Rightarrow> author_req \<Rightarrow> daemon \<Rightarrow> (db_user \<times> daemon) cres option" where
  "author_db s now ts rq dm =
     obind (db_authorization s now (if rq_user rq \<noteq> [] then rq_user rq else ''DEFAULT'')
        (ip_fill (st_dns s) (ip_get (ts_peer ts))) (rq_port rq) (rq_rem_addr rq) (dm_track dm) (dm_pools dm))
       (\<lambda>(d, st, ap). Some (Inr (d, dm \<lparr> dm_track := st, dm_pools := ap \<rparr>)))"

definition process_author :: "site \<Rightarrow> int \<Rightarrow> wr_ev list \<Rightarrow> HDR \<Rightarrow> byte list \<Rightarrow> tsession \<Rightarrow> daemon \<Rightarrow> proc_out" where
  "process_author s now evs h p ts dm =
     (let ob = (case ts_author ts of None \<Rightarrow> new_author_obj | Some x \<Rightarrow> x);
          send = (\<lambda>st avps ob dm. obind (Some (send_response (st_md5 s) now evs (ts_tac ts) st [] [] avps))
            (\<lambda>(ok, wire, t). Some (Inr (wire, ts \<lparr> ts_tac := t, ts_author := Some ob \<rparr>, dm))))
      in obind (Some (author_get_request h p (ao_req ob))) (\<lambda>(ok, rq).
         if ao_dangling ob then Some (Inl DoubleFree)
         else if \<not> ok then Some (Inr ([], ts \<lparr> ts_author := Some (ob \<lparr> ao_req := rq \<rparr>) \<rparr>, dm))
         else obind (author_db s now ts rq dm) (\<lambda>(d, dm).
              obind (Some (author_process (st_rx s) (ts_authoriz ts) (\<lambda>_ _ _. d) h p ob)) (\<lambda>(res, ob).
              case res of
                None \<Rightarrow> Some (Inr ([], ts \<lparr> ts_author := Some ob \<rparr>, dm))
              | Some AFail \<Rightarrow> send 16 [] ob dm
              | Some (ARespond st avps) \<Rightarrow> send st avps ob dm))))"

section \<open>Accounting\<close>

definition acct_type :: "int \<Rightarrow> string" where
  "acct_type flag = (if flag = ACCT_START then ''START'' else if flag = ACCT_STOP then ''STOP'' else ''UPDATE'')"

definition acct_log :: "int \<Rightarrow> acct_req \<Rightarrow> string list" where
  "acct_log flag rq =
     [snprintf_s 128 (''action='' @ acct_type flag), snprintf_s 128 (''user='' @ ac_user rq),
      snprintf_s 128 (''port='' @ ac_port rq), snprintf_s 128 (''from='' @ ac_rem_addr rq),
      snprintf_s 128 (''nas='' @ ac_nas rq)] @
     filter (\<lambda>a. 0 < length a \<and> \<not> prefixed a ''faxrelay-start-time='') (ac_avpair rq)"

definition process_acct :: "site \<Rightarrow> int \<Rightarrow> wr_ev list \<Rightarrow> HDR \<Rightarrow> byte list \<Rightarrow> tsession \<Rightarrow> daemon \<Rightarrow> proc_out" where
  "process_acct s now evs h p ts dm =
     (if tp_seq_no (ts_tac ts) \<noteq> 1 then Some (Inr ([], ts, dm))
      else obind (Some (acct_get_request h p (tp_peer (ts_tac ts)) (new_acct_req \<lparr> ac_avpair := ts_acct ts \<rparr>))) (\<lambda>(flag, rq).
           if flag = 0 then Some (Inr ([], ts \<lparr> ts_acct := ac_avpair rq \<rparr>, dm))
           else obind (Some (acct_send_reply (st_md5 s) now evs (ts_tac ts) [] [] ACCT_SUCCESS)) (\<lambda>(ok, wire, t).
                obind (Some (db_accounting s now (acct_log flag rq) (dm_track dm) (dm_pools dm))) (\<lambda>(out, st, ap).
                Some (Inr (wire, ts \<lparr> ts_tac := t, ts_acct := [] \<rparr>,
                  dm \<lparr> dm_track := st, dm_pools := ap, dm_acct := dm_acct dm @ [out] \<rparr>))))))"

definition process :: "site \<Rightarrow> tm \<Rightarrow> int \<Rightarrow> wr_ev list \<Rightarrow> HDR \<Rightarrow> byte list \<Rightarrow> tsession \<Rightarrow> daemon \<Rightarrow> proc_out" where
  "process s tt now evs h p ts dm =
     (let type = selector (Some h)
      in if type = 1 then process_authen s tt now evs h p ts dm
         else if type = 2 then process_author s now evs h p ts dm
         else if type = 3 then process_acct s now evs h p ts dm
         else Some (Inr ([], ts, dm)))"

section \<open>The reader of a connection\<close>

text \<open>\<open>io k\<close> is the clock and the socket at the k-th packet.\<close>

record conn =
  cn_peer :: ipaddr
  cn_fd :: int
  cn_login :: string
  cn_pwd :: string
  cn_key :: string
  cn_da :: bool

definition conn_of :: "ipaddr \<Rightarrow> int \<Rightarrow> device \<Rightarrow> conn" where
  "conn_of ip f d = \<lparr> cn_peer = ip, cn_fd = f, cn_login = snprintf_s 100 (loginstring d),
     cn_pwd = snprintf_s 100 (pwdstring d), cn_key = snprintf_s 100 (tac_key d), cn_da = def_author d \<rparr>"

definition find_session :: "conn \<Rightarrow> 32 word \<Rightarrow> tsession list \<Rightarrow> tsession list \<times> tsession \<times> tsession list" where
  "find_session c k q =
     (let other = (\<lambda>t. tp_session_id (ts_tac t) \<noteq> k)
      in case dropWhile other q of
           [] \<Rightarrow> (q, new_tsession (cn_peer c) (cn_fd c) k (cn_key c) (cn_login c) (cn_pwd c) (cn_da c), [])
         | t # r \<Rightarrow> (takeWhile other q, t, r))"

text \<open>One round of the loop: \<open>Inl\<close> is what was sent when the loop ends, \<open>Inr\<close> the state of the next round.\<close>

definition serve_step :: "site \<Rightarrow> (nat \<Rightarrow> tm \<times> int \<times> wr_ev list) \<Rightarrow> conn \<Rightarrow> nat \<Rightarrow> rd_ev list \<Rightarrow>
    tsession list \<Rightarrow> byte list \<Rightarrow> daemon \<Rightarrow>
    ((byte list \<times> daemon) + (rd_ev list \<times> tsession list \<times> byte list \<times> daemon)) cres option" where
  "serve_step s io c k evs q out dm =
     (case read_packet_header (cn_fd c) evs of
        (None, _) \<Rightarrow> Some (Inr (Inl (out, dm)))
      | (Some h, evs1) \<Rightarrow>
         (case find_session c (h_session_id h) q of (pre, ts, post) \<Rightarrow>
          case io k of (tt, now, wevs) \<Rightarrow>
          case read_packet (st_md5 s) now h evs1 (ts_tac ts) of
            (RNull, _, _) \<Rightarrow> Some (Inr (Inl (out, dm)))
          | (RAbort, _, _) \<Rightarrow> Some (Inl Abort)
          | (RPkt p, evs2, t) \<Rightarrow>
              obind (process s tt now wevs h p (ts \<lparr> ts_tac := t \<rparr>) dm) (\<lambda>(wire, ts', dm').
                Some (Inr (Inr (evs2, pre @ ts' # post, out @ wire, dm'))))))"

partial_function (option) serve :: "site \<Rightarrow> (nat \<Rightarrow> tm \<times> int \<times> wr_ev list) \<Rightarrow> conn \<Rightarrow> nat \<Rightarrow> rd_ev list \<Rightarrow>
    tsession list \<Rightarrow> byte list \<Rightarrow> daemon \<Rightarrow> (byte list \<times> daemon) cres option" where
  "serve s io c k evs q out dm =
     (case serve_step s io c k evs q out dm of
        None \<Rightarrow> None
      | Some r \<Rightarrow> (case r of
          Inl e \<Rightarrow> Some (Inl e)
        | Inr x \<Rightarrow> (case x of
            Inl res \<Rightarrow> Some (Inr res)
          | Inr y \<Rightarrow> serve s io c (Suc k) (fst y) (fst (snd y)) (fst (snd (snd y))) (snd (snd (snd y))))))"

text \<open>A connection from an address that is no device is not read.\<close>

definition reader :: "site \<Rightarrow> (nat \<Rightarrow> tm \<times> int \<times> wr_ev list) \<Rightarrow> string \<Rightarrow> int \<Rightarrow> rd_ev list \<Rightarrow> daemon \<Rightarrow>
    (byte list \<times> daemon) cres option" where
  "reader s io peer f evs dm =
     (let ip = ip_fill (st_dns s) peer
      in case get_dev ip (tk_net (dm_track dm)) of
           None \<Rightarrow> Some (Inr ([], dm))
         | Some d \<Rightarrow> serve s io (conn_of ip f d) 0 evs [] [] dm)"

section \<open>Lemmas\<close>

lemma ask_login_pass:
  "ask_login s tt now a pr dm = Some (Inr (act, a', dm')) \<Longrightarrow>
   a' = a \<and> (\<exists>b. login s tt now a ''(null)'' dm = Some (Inr (b, dm')) \<and> (act = pass_act TAC_PLUS_VER_0 \<longleftrightarrow> b))"
  by (auto simp: ask_login_def split: if_splits)

lemma check_login_pass:
  "check_login s tt now a dm = Some (Inr (act, a', dm')) \<Longrightarrow>
   a' = a \<and> (\<exists>b. login s tt now a (au_pwstring a) dm = Some (Inr (b, dm')) \<and> (b \<longleftrightarrow> act \<noteq> fail_act))"
  by (auto simp: check_login_def split: if_splits)

definition may_pass :: "site \<Rightarrow> tm \<Rightarrow> int \<Rightarrow> authen \<Rightarrow> daemon \<Rightarrow> daemon \<Rightarrow> bool" where
  "may_pass s tt now a dm dm' = (\<exists>pw. login s tt now a pw dm = Some (Inr (True, dm')))"

lemma ask_login_may:
  "ask_login s tt now a pr dm = Some (Inr (Answer STATUS_PASS m f v, a', dm')) \<Longrightarrow> may_pass s tt now a' dm dm'"
  by (auto simp: ask_login_def may_pass_def split: if_splits)

lemma check_login_may:
  "check_login s tt now a dm = Some (Inr (Answer STATUS_PASS m f v, a', dm')) \<Longrightarrow> may_pass s tt now a' dm dm'"
  by (auto simp: check_login_def may_pass_def split: if_splits)

lemmas login_may = ask_login_may check_login_may

lemma authen_seq1_may:
  "authen_seq1 s tt now ts res a dm = Some (Inr (Answer STATUS_PASS m f v, a', dm')) \<Longrightarrow>
   may_pass s tt now a' dm dm' \<or> au_request a' \<in> {TACACS_CHAP_PASSWORD, TACACS_PAP_PASSWORD} \<and> dm' = dm"
  by (auto simp: authen_seq1_def Let_def dest: login_may split: if_splits)

lemma authen_user_may:
  "authen_user s tt now ts h p a dm = Some (Inr (Answer STATUS_PASS m f v, a', dm')) \<Longrightarrow> may_pass s tt now a' dm dm'"
  by (auto simp: authen_user_def Let_def dest: login_may split: if_splits)

lemma authen_pwd_may:
  "authen_pwd s tt now h p a dm = Some (Inr (Answer STATUS_PASS m f v, a', dm')) \<Longrightarrow> may_pass s tt now a' dm dm'"
  by (auto simp: authen_pwd_def Let_def dest: login_may split: if_splits)

text \<open>The users whose sources need no password.\<close>

definition open_door :: "db_user \<Rightarrow> bool" where
  "open_door d = (prefixed (du_authsrc d) ''nopwd'' \<or> prefixed (du_authsrc d) ''ccf'' \<or> prefixed (du_authsrc d) ''ccd'' \<or>
     prefixed (du_authsrc d) ''cpwd'' \<and> (du_password d = ''(null)'' \<or> du_enable d = []))"

lemma password_ok_null: "password_ok md5 d ''(null)'' [] = open_door d"
  by (auto simp: password_ok_def open_door_def prefixed_iff Let_def)

lemma obind_map: "obind (Some (Inr x)) f = f x"
  by simp

definition no_daemon :: daemon where
  "no_daemon = \<lparr> dm_track = \<lparr> tk_cache = [], tk_net = no_net \<rparr>, dm_pools = [], dm_acct = [] \<rparr>"

text \<open>The packet of a SENDPASS request and the session it starts.\<close>

definition sendpass_hdr :: HDR where
  "sendpass_hdr = \<lparr> h_version = TAC_PLUS_VER_0, h_type = TAC_PLUS_AUTHEN, h_seq_no = 1, h_encryption = 0,
     h_session_id = 7, h_datalength = 8 \<rparr>"

definition sendpass_body :: "byte list" where
  "sendpass_body = [3, 0, 2, 1, 0, 0, 0, 0] @ replicate 15 0"

definition demo_session :: tsession where
  "demo_session = (new_tsession \<lparr> hname = [], ipa = 1 \<rparr> 3 7 ''none'' ''login:'' ''password:'' False)
     \<lparr> ts_tac := (new_TacacsPacket ''none'' ''gw'' 3 7) \<lparr> tp_seq_no := 1 \<rparr> \<rparr>"

section \<open>Properties\<close>

text \<open>C21: PASS is only answered when the database authenticated the user of the session with some password, or,
on the first packet, to a request for a password (SENDPASS), which is let through with no check at all.\<close>

theorem authen_pass_checked:
  assumes "authen_step s tt now ts h p a dm = Some (Inr (t, Answer STATUS_PASS m f v, a', dm'))"
  shows "(\<exists>pw. login s tt now a' pw dm = Some (Inr (True, dm'))) \<or>
    tp_seq_no (ts_tac ts) = 1 \<and> au_request a' \<in> {TACACS_CHAP_PASSWORD, TACACS_PAP_PASSWORD} \<and> dm' = dm"
  using assms
  by (auto simp: authen_step_def Let_def may_pass_def
      dest: authen_seq1_may authen_user_may authen_pwd_may split: if_splits)

lemma authen_pass_checked_witness:
  "\<exists>t a. authen_step demo_site zero_tm 0 demo_session sendpass_hdr sendpass_body (new_authen (\<lambda>_. None)) no_daemon =
       Some (Inr (t, pass_act TAC_PLUS_VER_0, a, no_daemon)) \<and>
     ((\<exists>pw. login demo_site zero_tm 0 a pw no_daemon = Some (Inr (True, no_daemon))) \<or> au_request a \<in> {14, 15})"
proof -
  define r where "r = authen_step demo_site zero_tm 0 demo_session sendpass_hdr sendpass_body (new_authen (\<lambda>_. None)) no_daemon"
  have "\<exists>t a. r = Some (Inr (t, pass_act TAC_PLUS_VER_0, a, no_daemon))"
    by (simp add: r_def authen_step_def demo_session_def sendpass_hdr_def sendpass_body_def new_TacacsPacket_def
        get_start_def start_type_def strncpy_z_def Let_def authen_seq1_def)
  then obtain t a where r: "r = Some (Inr (t, pass_act TAC_PLUS_VER_0, a, no_daemon))" by blast
  with authen_pass_checked[OF r[unfolded r_def]] show ?thesis unfolding r_def by blast
qed

text \<open>Who logs in by name without being asked a password: users of the sources nopwd, ccf and ccd, and those of
the source cpwd with an empty enable password, whatever their password is. All others are asked for it.\<close>

lemma no_password_login:
  assumes "au_user a \<noteq> []" "au_enable a = []"
    and "get2add (st_dns s) (st_dbget s) now (au_user a) (au_cisco a) (au_port a) (au_rem_addr a) (dm_track dm) = (d, st')"
    and "du_result d" "du_maxsess d = 0" "du_open d \<le> now" "du_close d \<le> 100" "du_acc d = []"
  shows "\<exists>a'. authen_seq1 s tt now ts TACACS_ASCII_LOGIN a dm = Some (Inr
    (if open_door d then pass_act TAC_PLUS_VER_0 else Answer STATUS_GETPASS (ts_pwd ts) NOECHO TAC_PLUS_VER_0,
     a', dm \<lparr> dm_track := st' \<rparr>))"
proof -
  let ?a = "a \<lparr> au_res := 2, au_request := 2 \<rparr>"
  have "login s tt now ?a ''(null)'' dm = Some (Inr (open_door d, dm \<lparr> dm_track := st' \<rparr>))"
    using assms(2-8) by (simp add: login_def db_authentication_def password_ok_null)
  then show ?thesis using assms(1) by (simp add: authen_seq1_def ask_login_def Let_def)
qed

definition open_cpwd :: db_user where
  "open_cpwd = new_db_user \<lparr> du_username := ''ann'', du_result := True, du_authsrc := ''cpwd'', du_password := ''secret'' \<rparr>"

lemma no_password_login_witness:
  "\<exists>a' dm'. authen_seq1 (demo_site \<lparr> st_dbget := (\<lambda>u. open_cpwd) \<rparr>) zero_tm 0 demo_session TACACS_ASCII_LOGIN
     (new_authen (\<lambda>_. None) \<lparr> au_user := ''ann'' \<rparr>) no_daemon = Some (Inr (pass_act TAC_PLUS_VER_0, a', dm'))"
proof -
  let ?s = "demo_site \<lparr> st_dbget := (\<lambda>u. open_cpwd) \<rparr>" and ?a = "new_authen (\<lambda>_. None) \<lparr> au_user := ''ann'' \<rparr>"
  define t where "t = get2add (st_dns ?s) (st_dbget ?s) 0 (au_user ?a) (au_cisco ?a) (au_port ?a) (au_rem_addr ?a) (dm_track no_daemon)"
  have u: "getUd u [] = new_db_user" for u by (simp add: getUd_def)
  have "fst t = open_cpwd"
    by (simp add: t_def get2add_def no_daemon_def no_net_def u Let_def demo_site_def) (simp add: new_db_user_def open_cpwd_def Let_def)
  then have g: "get2add (st_dns ?s) (st_dbget ?s) 0 (au_user ?a) (au_cisco ?a) (au_port ?a) (au_rem_addr ?a)
      (dm_track no_daemon) = (open_cpwd, snd t)" by (metis prod.collapse t_def)
  have o: "open_door open_cpwd" by (simp add: open_door_def open_cpwd_def prefixed_iff new_db_user_def)
  show ?thesis
    using no_password_login[OF _ _ g, of zero_tm demo_session] o
    by (auto simp: new_authen_def open_cpwd_def new_db_user_def)
qed

end
