(* ===== verification/DbTable.thy ===== *)
theory DbTable
  imports IpAddr
begin

text \<open>
  The tables the server and the database modules exchange (\<^verbatim>\<open>src/include/db_module.h\<close>, classes \<^verbatim>\<open>DbField\<close> and
  \<^verbatim>\<open>DbTable\<close>; \<^verbatim>\<open>DbList\<close> in \<^verbatim>\<open>src/src/TacDb.cc\<close>). No table of the program has a field of type float (lemma
  \<open>no_float\<close>), the float member is left out.
\<close>

section \<open>Fields\<close>

record dbfield =
  fd_name :: string
  fd_descr :: string
  fd_defv :: string
  fd_type :: nat
  fd_update :: bool
  fd_request :: bool
  fd_bool :: bool
  fd_int :: "64 word"
  fd_str :: string
  fd_slen :: nat
  fd_date :: int
  fd_ip :: ipaddr
  fd_idx :: nat

datatype dbval = VBool bool | VInt "64 word" | VStr string | VDate int | VIp ipaddr

abbreviation (input) T_BOOL :: nat where "T_BOOL \<equiv> 1"
abbreviation (input) T_INT :: nat where "T_INT \<equiv> 2"
abbreviation (input) T_STR :: nat where "T_STR \<equiv> 4"
abbreviation (input) T_DATE :: nat where "T_DATE \<equiv> 5"
abbreviation (input) T_IP :: nat where "T_IP \<equiv> 6"

definition unknown_addr :: ipaddr where
  "unknown_addr = ip_fill (\<lambda>_. None) UNKNOWN_IP"

lemma ip_fill_unknown: "ip_fill dns UNKNOWN_IP = unknown_addr"
  by (simp add: unknown_addr_def ip_fill_def getipfromname_def UNKNOWN_IP_def)

definition store :: "dbval \<Rightarrow> dbfield \<Rightarrow> dbfield" where
  "store v f = (case v of VBool b \<Rightarrow> f \<lparr> fd_bool := b \<rparr> | VInt i \<Rightarrow> f \<lparr> fd_int := i \<rparr> | VStr s \<Rightarrow> f \<lparr> fd_str := s \<rparr>
     | VDate t \<Rightarrow> f \<lparr> fd_date := t \<rparr> | VIp a \<Rightarrow> f \<lparr> fd_ip := a \<rparr>)"

definition val_type :: "dbval \<Rightarrow> nat" where
  "val_type v = (case v of VBool b \<Rightarrow> T_BOOL | VInt i \<Rightarrow> T_INT | VStr s \<Rightarrow> T_STR | VDate t \<Rightarrow> T_DATE | VIp a \<Rightarrow> T_IP)"

definition blank_field :: "string \<Rightarrow> string \<Rightarrow> string \<Rightarrow> nat \<Rightarrow> nat \<Rightarrow> nat \<Rightarrow> dbfield" where
  "blank_field n d df t l ix = \<lparr> fd_name = n, fd_descr = d, fd_defv = df, fd_type = t, fd_update = False,
     fd_request = False, fd_bool = False, fd_int = 0, fd_str = [], fd_slen = l, fd_date = 0, fd_ip = unknown_addr,
     fd_idx = ix \<rparr>"

definition new_field :: "string \<Rightarrow> string \<Rightarrow> string \<Rightarrow> dbval \<Rightarrow> nat \<Rightarrow> nat \<Rightarrow> dbfield" where
  "new_field n d df v l ix = store v (blank_field n d df (val_type v) (if val_type v = T_STR then l else 0) ix)"

section \<open>Tables\<close>

record dbtable =
  tb_name :: string
  tb_mask :: string
  tb_descr :: string
  tb_fields :: "dbfield list"

definition new_table :: "string \<Rightarrow> string \<Rightarrow> string \<Rightarrow> dbtable" where
  "new_table n m d = \<lparr> tb_name = n, tb_mask = m, tb_descr = d, tb_fields = [] \<rparr>"

definition cleared_field :: "dbfield \<Rightarrow> dbfield" where
  "cleared_field f = f \<lparr> fd_request := False, fd_update := False, fd_bool := False, fd_int := 0, fd_str := [],
     fd_slen := 0, fd_date := 0, fd_ip := unknown_addr \<rparr>"

definition tb_clear :: "dbtable \<Rightarrow> dbtable" where
  "tb_clear t = t \<lparr> tb_fields := map cleared_field (tb_fields t) \<rparr>"

definition set_request :: "string \<Rightarrow> dbtable \<Rightarrow> dbtable" where
  "set_request n t = t \<lparr> tb_fields := map (\<lambda>f. if fd_name f = n then f \<lparr> fd_request := True \<rparr> else f) (tb_fields t) \<rparr>"

definition set_update :: "string \<Rightarrow> dbtable \<Rightarrow> dbtable" where
  "set_update n t = t \<lparr> tb_fields := map (\<lambda>f. if fd_name f = n then f \<lparr> fd_update := True \<rparr> else f) (tb_fields t) \<rparr>"

text \<open>\<^verbatim>\<open>add\<close>: the first field of the name gets the value, whatever its type; without one a field is appended.\<close>

definition tb_add :: "string \<Rightarrow> string \<Rightarrow> string \<Rightarrow> dbval \<Rightarrow> nat \<Rightarrow> nat \<Rightarrow> dbtable \<Rightarrow> dbtable" where
  "tb_add n d df v l ix t = t \<lparr> tb_fields :=
     (if \<exists>f \<in> set (tb_fields t). fd_name f = n then upd_first (\<lambda>f. fd_name f = n) (store v) (tb_fields t)
      else tb_fields t @ [new_field n d df v l ix]) \<rparr>"

definition tb_put :: "string \<Rightarrow> dbval \<Rightarrow> dbtable \<Rightarrow> dbtable" where
  "tb_put n v t = tb_add n [] [] v 0 0 t"

text \<open>\<^verbatim>\<open>set\<close> of the modules: only when the first field of the name has the type of the value.\<close>

definition tb_set :: "string \<Rightarrow> dbval \<Rightarrow> dbtable \<Rightarrow> dbtable" where
  "tb_set n v t = t \<lparr> tb_fields :=
     upd_first (\<lambda>f. fd_name f = n) (\<lambda>f. if fd_type f = val_type v then store v f else f) (tb_fields t) \<rparr>"

definition tb_at :: "dbtable \<Rightarrow> nat \<Rightarrow> dbfield" where
  "tb_at t j = (if j < length (tb_fields t) then tb_fields t ! j else blank_field [] [] [] 0 0 0)"

definition get_name :: "dbtable \<Rightarrow> nat \<Rightarrow> string" where "get_name t j = fd_name (tb_at t j)"
definition get_descr :: "dbtable \<Rightarrow> nat \<Rightarrow> string" where "get_descr t j = fd_descr (tb_at t j)"
definition get_defv :: "dbtable \<Rightarrow> nat \<Rightarrow> string" where "get_defv t j = fd_defv (tb_at t j)"
definition get_type :: "dbtable \<Rightarrow> nat \<Rightarrow> nat" where "get_type t j = fd_type (tb_at t j)"
definition get_idx :: "dbtable \<Rightarrow> nat \<Rightarrow> nat" where "get_idx t j = fd_idx (tb_at t j)"
definition get_request :: "dbtable \<Rightarrow> nat \<Rightarrow> bool" where "get_request t j = fd_request (tb_at t j)"
definition get_update :: "dbtable \<Rightarrow> nat \<Rightarrow> bool" where "get_update t j = fd_update (tb_at t j)"

definition tb_find :: "string \<Rightarrow> nat \<Rightarrow> dbtable \<Rightarrow> dbfield option" where
  "tb_find n ty t = (case find (\<lambda>f. fd_name f = n) (tb_fields t) of
      None \<Rightarrow> None | Some f \<Rightarrow> if fd_type f = ty then Some f else None)"

text \<open>The readers: the variable keeps its old value \<open>old\<close> when there is no such field of the type. Numbers go
through \<^verbatim>\<open>int\<close>; text goes into an array of at least 300 bytes, or into a string.\<close>

definition get_bool :: "string \<Rightarrow> bool \<Rightarrow> dbtable \<Rightarrow> bool" where
  "get_bool n old t = (case tb_find n T_BOOL t of None \<Rightarrow> old | Some f \<Rightarrow> fd_bool f)"

definition get_int :: "string \<Rightarrow> int \<Rightarrow> dbtable \<Rightarrow> int" where
  "get_int n old t = (case tb_find n T_INT t of None \<Rightarrow> old | Some f \<Rightarrow> sint (ucast (fd_int f) :: 32 word))"

definition get_chars :: "string \<Rightarrow> string \<Rightarrow> dbtable \<Rightarrow> string" where
  "get_chars n old t = (case tb_find n T_STR t of None \<Rightarrow> old | Some f \<Rightarrow> take 300 (c_str (fd_str f)))"

definition get_string :: "string \<Rightarrow> string \<Rightarrow> dbtable \<Rightarrow> string" where
  "get_string n old t = (case tb_find n T_STR t of None \<Rightarrow> old | Some f \<Rightarrow> fd_str f)"

definition get_date :: "string \<Rightarrow> int \<Rightarrow> dbtable \<Rightarrow> int" where
  "get_date n old t = (case tb_find n T_DATE t of None \<Rightarrow> old | Some f \<Rightarrow> fd_date f)"

definition get_ip :: "string \<Rightarrow> ipaddr \<Rightarrow> dbtable \<Rightarrow> ipaddr" where
  "get_ip n old t = (case tb_find n T_IP t of None \<Rightarrow> old | Some f \<Rightarrow> fd_ip f)"

definition getslen :: "string \<Rightarrow> dbtable \<Rightarrow> nat" where
  "getslen n t = (case find (\<lambda>f. fd_name f = n) (tb_fields t) of None \<Rightarrow> 0 | Some f \<Rightarrow> fd_slen f)"

section \<open>The list of tables\<close>

definition dl_add :: "string \<Rightarrow> string \<Rightarrow> string \<Rightarrow> dbtable list \<Rightarrow> dbtable list" where
  "dl_add n m d dt = (if \<exists>t \<in> set dt. tb_name t = n then dt else dt @ [new_table n m d])"

definition dl_get :: "string \<Rightarrow> dbtable list \<Rightarrow> dbtable option" where
  "dl_get n dt = find (\<lambda>t. tb_name t = n) dt"

definition dl_nth :: "nat \<Rightarrow> dbtable list \<Rightarrow> dbtable option" where
  "dl_nth n dt = (if n < length dt then Some (dt ! n) else None)"

definition str_col :: "string \<Rightarrow> string \<Rightarrow> string \<Rightarrow> nat \<Rightarrow> nat \<Rightarrow> dbtable \<Rightarrow> dbtable" where
  "str_col n d df l ix t = tb_add n d df (VStr []) l ix t"

definition int_col :: "string \<Rightarrow> string \<Rightarrow> string \<Rightarrow> nat \<Rightarrow> dbtable \<Rightarrow> dbtable" where
  "int_col n d df ix t = tb_add n d df (VInt 0) 0 ix t"

definition date_col :: "string \<Rightarrow> string \<Rightarrow> string \<Rightarrow> nat \<Rightarrow> dbtable \<Rightarrow> dbtable" where
  "date_col n d df ix t = tb_add n d df (VDate 0) 0 ix t"

definition ip_col :: "string \<Rightarrow> string \<Rightarrow> string \<Rightarrow> nat \<Rightarrow> dbtable \<Rightarrow> dbtable" where
  "ip_col n d df ix t = tb_add n d df (VIp (ip_default (\<lambda>_. None))) 0 ix t"

definition T_USR :: string where "T_USR = ''tacppd_v1_usr''"
definition T_ACC :: string where "T_ACC = ''tacppd_v1_acc''"
definition T_AVP :: string where "T_AVP = ''tacppd_v1_avp''"
definition T_CMD :: string where "T_CMD = ''tacppd_v1_cmd''"
definition T_ADD :: string where "T_ADD = ''tacppd_v1_add''"
definition T_LOG :: string where "T_LOG = ''tacppd_v1_log''"
definition T_TRF :: string where "T_TRF = ''tacppd_v1_trf''"
definition T_NF :: string where "T_NF = ''tacppd_v1_nf''"
definition T_BIL :: string where "T_BIL = ''tacppd_v1_res''"
definition T_BILRES :: string where "T_BILRES = ''tacppd_v1_resdata''"
definition T_NFUSR :: string where "T_NFUSR = ''tacppd_v1_nfuser''"

definition usr_table :: dbtable where
  "usr_table = fold id
     [date_col ''dupdate'' ''last update time'' [] 0, str_col ''username'' ''user name'' [] 32 2,
      str_col ''password'' ''password'' [] 50 0, date_col ''dopen'' ''open date'' ''0'' 0,
      date_col ''dclose'' ''close date'' ''0'' 0, str_col ''avpid'' ''authorization group'' [] 16 0,
      str_col ''accid'' ''access group'' [] 16 0, str_col ''bilid'' ''resource group'' [] 16 0,
      str_col ''addid'' ''additional data group'' [] 16 0, int_col ''maxsess'' ''max sessions'' ''1'' 0]
     (new_table T_USR ''USer'' ''user information'')"

definition add_table :: dbtable where
  "add_table = fold id
     [str_col ''addid'' ''additional data group'' [] 16 2, str_col ''authsrc'' ''authentication source'' ''db'' 5 0,
      str_col ''enable'' ''enable access password'' [] 50 0]
     (new_table T_ADD ''ADd'' ''additional user data'')"

definition acc_table :: dbtable where
  "acc_table = fold id
     [int_col ''unid'' ''unique id'' [] 2, str_col ''accid'' ''access group name'' [] 16 0,
      str_col ''phone'' ''access by phone'' [] 64 0, str_col ''nas'' ''from specifyed NAS'' [] 64 0,
      str_col ''port'' ''from specifyed port'' [] 64 0, str_col ''time'' ''restricted access time'' [] 64 0]
     (new_table T_ACC ''ACcess'' ''user access rights'')"

definition avp_table :: dbtable where
  "avp_table = fold id
     [int_col ''unid'' ''unique id'' [] 2, str_col ''avpid'' ''author group id'' [] 16 0,
      str_col ''service'' ''service'' [] 15 0, str_col ''protocol'' ''protocol'' [] 15 0,
      str_col ''avp'' ''attribute=value pair'' [] 128 0]
     (new_table T_AVP ''AVp'' ''authorization'')"

definition cmd_table :: dbtable where
  "cmd_table = fold id
     [int_col ''unid'' ''unique id'' [] 2, str_col ''avpid'' ''author group id'' [] 16 0,
      str_col ''cmdperm'' ''permitted commands'' [] 50 0, str_col ''cmddeny'' ''denied commands'' [] 50 0,
      str_col ''argperm'' ''permitted arguments'' [] 50 0, str_col ''argdeny'' ''denied arguments'' [] 50 0]
     (new_table T_CMD ''COmmand'' ''per-command authorization'')"

definition bil_table :: dbtable where
  "bil_table = fold id
     [str_col ''bilid'' ''resource group id'' [] 16 2, int_col ''bilmodid'' ''resource module number'' [] 0]
     (new_table T_BIL ''BILLIng'' ''resource group'')"

definition bilres_table :: dbtable where
  "bilres_table = fold id
     [str_col ''bilid'' ''resource group id'' [] 16 1, str_col ''attribute'' ''attribute name'' [] 32 0,
      str_col ''value'' ''attribute value'' [] 32 0]
     (new_table T_BILRES ''BILLRes'' ''resource system resources'')"

definition nfusr_table :: dbtable where
  "nfusr_table = fold id
     [ip_col ''usernetip'' ''user net ip'' [] 1, str_col ''username'' ''user name or id'' [] 32 0,
      str_col ''comment'' ''comment'' [] 48 0]
     (new_table T_NFUSR ''NFUser'' ''users ip'')"

text \<open>The constructor of \<^verbatim>\<open>DbList\<close>.\<close>

definition db_list :: "dbtable list" where
  "db_list = [usr_table, add_table, acc_table, avp_table, cmd_table, bil_table, bilres_table, nfusr_table]"

section \<open>Stores with typed readers\<close>

text \<open>What the server relies on: a value put under a name is read back, other names keep theirs.\<close>

locale typed_store =
  fixes "get" :: "'n \<Rightarrow> 's \<Rightarrow> 'v" and "put" :: "'n \<Rightarrow> 'v \<Rightarrow> 's \<Rightarrow> 's" and ok :: "'n \<Rightarrow> 's \<Rightarrow> bool"
  assumes get_put_same: "ok n s \<Longrightarrow> get n (put n v s) = v"
    and get_put_other: "m \<noteq> n \<Longrightarrow> get m (put n v s) = get m s"
    and ok_put: "ok m s \<Longrightarrow> ok m (put n v s)"
begin

definition put_all :: "('n \<times> 'v) list \<Rightarrow> 's \<Rightarrow> 's" where
  "put_all nvs s = fold (\<lambda>(n, v). put n v) nvs s"

lemma put_all_other: "n \<notin> fst ` set nvs \<Longrightarrow> get n (put_all nvs s) = get n s"
  by (induction nvs arbitrary: s) (auto simp: put_all_def get_put_other)

lemma put_all_same:
  "distinct (map fst nvs) \<Longrightarrow> (n, v) \<in> set nvs \<Longrightarrow> ok n s \<Longrightarrow> get n (put_all nvs s) = v"
proof (induction nvs arbitrary: s)
  case (Cons p nvs)
  obtain m w where p: "p = (m, w)" by (cases p)
  show ?case
  proof (cases "m = n")
    case True
    with Cons.prems p have "n \<notin> fst ` set nvs" "w = v" by (auto simp: rev_image_eqI)
    then show ?thesis using Cons.prems(3) put_all_other[of n nvs "put n v s"] True p
      by (simp add: put_all_def get_put_same)
  next
    case False
    then show ?thesis using Cons p by (simp add: put_all_def ok_put)
  qed
qed simp

end

section \<open>Lemmas\<close>

lemma store_simps [simp]: "fd_name (store v f) = fd_name f" "fd_type (store v f) = fd_type f"
  "fd_request (store v f) = fd_request f" "fd_update (store v f) = fd_update f"
  by (simp_all add: store_def split: dbval.split)

lemma new_field_simps [simp]: "fd_name (new_field n d df v l ix) = n" "fd_type (new_field n d df v l ix) = val_type v"
  by (simp_all add: new_field_def blank_field_def)

lemma find_put_other: "m \<noteq> n \<Longrightarrow> find (\<lambda>f. fd_name f = m) (tb_fields (tb_put n v t)) = find (\<lambda>f. fd_name f = m) (tb_fields t)"
proof -
  assume "m \<noteq> n"
  then have "find (\<lambda>f. fd_name f = m) (upd_first (\<lambda>f. fd_name f = n) (store v) (tb_fields t)) = find (\<lambda>f. fd_name f = m) (tb_fields t)"
    by (intro find_upd_first_other) auto
  then show ?thesis using \<open>m \<noteq> n\<close> by (simp add: tb_put_def tb_add_def find_append split: option.split)
qed

lemma find_put_same:
  "find (\<lambda>f. fd_name f = n) (tb_fields (tb_put n v t)) =
     (case find (\<lambda>f. fd_name f = n) (tb_fields t) of Some f \<Rightarrow> Some (store v f) | None \<Rightarrow> Some (new_field n [] [] v 0 0))"
proof (cases "find (\<lambda>f. fd_name f = n) (tb_fields t)")
  case None
  then have "\<not> (\<exists>f \<in> set (tb_fields t). fd_name f = n)" by (simp add: find_None_iff)
  then show ?thesis using None by (simp add: tb_put_def tb_add_def find_append)
next
  case (Some f)
  then have "\<exists>f \<in> set (tb_fields t). fd_name f = n" by (auto simp: find_Some_iff)
  then show ?thesis using Some by (simp add: tb_put_def tb_add_def find_upd_first_same)
qed

text \<open>The first field of the name has the type.\<close>

definition has_field :: "nat \<Rightarrow> string \<Rightarrow> dbtable \<Rightarrow> bool" where
  "has_field ty n t = (tb_find n ty t \<noteq> None)"

lemma tb_find_put:
  "tb_find m ty (tb_put n v t) = (if m \<noteq> n then tb_find m ty t
     else case find (\<lambda>f. fd_name f = n) (tb_fields t) of
       None \<Rightarrow> if val_type v = ty then Some (new_field n [] [] v 0 0) else None
     | Some f \<Rightarrow> if fd_type f = ty then Some (store v f) else None)"
  by (auto simp: tb_find_def find_put_other find_put_same split: option.splits)

lemma has_field_put: "has_field ty m t \<Longrightarrow> has_field ty m (tb_put n v t)"
  by (auto simp: has_field_def tb_find_put) (auto simp: tb_find_def split: option.splits if_splits)

lemma has_field_find: "has_field ty n t \<Longrightarrow> \<exists>f. find (\<lambda>f. fd_name f = n) (tb_fields t) = Some f \<and> fd_type f = ty"
  by (auto simp: has_field_def tb_find_def split: option.splits if_splits)

lemmas readers = get_string_def get_date_def get_int_def get_ip_def tb_find_put

interpretation strs: typed_store "\<lambda>n. get_string n []" "\<lambda>n s. tb_put n (VStr s)" "has_field T_STR"
  by unfold_locales (auto simp: readers has_field_put store_def dest!: has_field_find)

interpretation dates: typed_store "\<lambda>n. get_date n 0" "\<lambda>n s. tb_put n (VDate s)" "has_field T_DATE"
  by unfold_locales (auto simp: readers has_field_put store_def dest!: has_field_find)

interpretation ips: typed_store "\<lambda>n. get_ip n unknown_addr" "\<lambda>n s. tb_put n (VIp s)" "has_field T_IP"
  by unfold_locales (auto simp: readers has_field_put store_def dest!: has_field_find)

definition typed :: "dbtable \<Rightarrow> bool" where
  "typed t = (\<forall>f \<in> set (tb_fields t). fd_type f \<in> {T_BOOL, T_INT, T_STR, T_DATE, T_IP})"

lemma typed_add: "typed t \<Longrightarrow> typed (tb_add n d df v l ix t)"
  unfolding typed_def tb_add_def by (auto simp: val_type_def split: dbval.split dest!: set_upd_first_subset[THEN subsetD])

lemma typed_cols: "typed t \<Longrightarrow> typed (str_col n d df l ix t)" "typed t \<Longrightarrow> typed (int_col n d df ix t)"
  "typed t \<Longrightarrow> typed (date_col n d df ix t)" "typed t \<Longrightarrow> typed (ip_col n d df ix t)" "typed (new_table n d df)"
  by (simp_all add: typed_add str_col_def int_col_def date_col_def ip_col_def) (simp add: typed_def new_table_def)

lemma no_float: "\<forall>t \<in> set db_list. typed t"
  by (simp add: db_list_def typed_cols usr_table_def add_table_def acc_table_def avp_table_def cmd_table_def
      bil_table_def bilres_table_def nfusr_table_def)

abbreviation field_named :: "string \<Rightarrow> dbtable \<Rightarrow> dbfield option" where
  "field_named n t \<equiv> List.find (\<lambda>f. fd_name f = n) (tb_fields t)"

text \<open>The names and types of the columns.\<close>

definition col_types :: "dbtable \<Rightarrow> (string \<times> nat) list" where
  "col_types t = map (\<lambda>f. (fd_name f, fd_type f)) (tb_fields t)"

lemma field_type: "map_option fd_type (field_named n t) = map_of (col_types t) n"
proof -
  have "map_option fd_type (List.find (\<lambda>f. fd_name f = n) fs) = map_of (map (\<lambda>f. (fd_name f, fd_type f)) fs) n" for fs
    by (induction fs) auto
  then show ?thesis by (simp add: col_types_def)
qed

definition add_col :: "string \<Rightarrow> nat \<Rightarrow> (string \<times> nat) list \<Rightarrow> (string \<times> nat) list" where
  "add_col n ty cs = (if n \<in> fst ` set cs then cs else cs @ [(n, ty)])"

lemma col_types_add: "col_types (tb_add n d df v l ix t) = add_col n (val_type v) (col_types t)"
proof -
  have "map (\<lambda>f. (fd_name f, fd_type f)) (upd_first (\<lambda>f. fd_name f = n) (store v) fs) = map (\<lambda>f. (fd_name f, fd_type f)) fs" for fs
    by (rule map_upd_first) simp
  then show ?thesis by (auto simp: col_types_def tb_add_def image_iff add_col_def)
qed

lemma col_types_cols:
  "col_types (str_col n d df k ix t) = add_col n T_STR (col_types t)" "col_types (int_col n d df ix t) = add_col n T_INT (col_types t)"
  "col_types (date_col n d df ix t) = add_col n T_DATE (col_types t)" "col_types (ip_col n d df ix t) = add_col n T_IP (col_types t)"
  "col_types (new_table n d df) = []"
  by (simp_all add: str_col_def int_col_def date_col_def ip_col_def col_types_add val_type_def) (simp add: col_types_def new_table_def)

section \<open>The tables are typed stores\<close>

text \<open>What a program does to a table between its creation and its deletion.\<close>

datatype tb_op = ClearRow | RequestCol string | UpdateCol string | PutValue string dbval | SetValue string dbval

fun tb_step :: "tb_op \<Rightarrow> dbtable \<Rightarrow> dbtable" where
  "tb_step ClearRow t = tb_clear t"
| "tb_step (RequestCol n) t = set_request n t"
| "tb_step (UpdateCol n) t = set_update n t"
| "tb_step (PutValue n v) t = tb_put n v t"
| "tb_step (SetValue n v) t = tb_set n v t"

lemma col_types_keep:
  "col_types (tb_clear t) = col_types t" "col_types (set_request n t) = col_types t" "col_types (set_update n t) = col_types t"
  "col_types (tb_set n v t) = col_types t"
proof -
  have "map (\<lambda>f. (fd_name f, fd_type f)) (upd_first (\<lambda>f. fd_name f = n) (\<lambda>f. if fd_type f = val_type v then store v f else f) fs)
      = map (\<lambda>f. (fd_name f, fd_type f)) fs" for fs
    by (rule map_upd_first) simp
  then show "col_types (tb_set n v t) = col_types t" by (simp add: col_types_def tb_set_def)
qed (auto simp: col_types_def tb_clear_def set_request_def set_update_def cleared_field_def)

lemma typed_iff: "typed t = (\<forall>c \<in> set (col_types t). snd c \<in> {T_BOOL, T_INT, T_STR, T_DATE, T_IP})"
  by (simp add: typed_def col_types_def)

lemma has_field_iff: "has_field ty n t = (map_of (col_types t) n = Some ty)"
  by (auto simp: has_field_def tb_find_def field_type[symmetric] split: option.splits)

lemma col_types_tb_put: "col_types (tb_put n v t) = add_col n (val_type v) (col_types t)"
  by (simp add: col_types_add tb_put_def)

text \<open>A list of columns whose names differ and whose types are those of the program.\<close>

definition good_cols :: "(string \<times> nat) list \<Rightarrow> bool" where
  "good_cols cs = (distinct (map fst cs) \<and> (\<forall>c \<in> set cs. snd c \<in> {T_BOOL, T_INT, T_STR, T_DATE, T_IP}))"

lemma good_add_col: "good_cols cs \<Longrightarrow> good_cols (add_col n (val_type v) cs)"
  by (auto simp: good_cols_def add_col_def val_type_def split: dbval.split)

lemma run_cols: "good_cols (col_types t) \<Longrightarrow>
  \<exists>cs. col_types (fold tb_step ops t) = col_types t @ cs \<and> good_cols (col_types t @ cs)"
proof (induction ops arbitrary: t)
  case (Cons p ops)
  have "\<exists>c. col_types (tb_step p t) = col_types t @ c \<and> good_cols (col_types t @ c)"
  proof (cases p)
    case (PutValue n v)
    then show ?thesis using Cons.prems good_add_col[OF Cons.prems, of n v]
      by (cases "n \<in> fst ` set (col_types t)") (simp_all add: col_types_tb_put add_col_def)
  qed (use Cons.prems in \<open>simp_all add: col_types_keep\<close>)
  then obtain c where c: "col_types (tb_step p t) = col_types t @ c" "good_cols (col_types t @ c)" by blast
  then obtain d where "col_types (fold tb_step ops (tb_step p t)) = col_types t @ c @ d" "good_cols (col_types t @ c @ d)"
    using Cons.IH[of "tb_step p t"] by auto
  then show ?case by (auto intro: exI[of _ "c @ d"])
qed simp

lemma db_list_cols: "\<forall>t \<in> set db_list. good_cols (col_types t)"
  by (simp add: db_list_def good_cols_def col_types_cols add_col_def usr_table_def add_table_def acc_table_def avp_table_def
      cmd_table_def bil_table_def bilres_table_def nfusr_table_def)

text \<open>C31: The tables are typed stores. Whatever is done to a table of the server (cleared, columns marked as condition or as
change, values put or set, of any type and under any name, in any order) no column of it changes its name, its place
or its type; columns a value was put under come behind the others; names stay distinct, types are those of the
program; and a reader of the type of a column always finds it.\<close>

theorem tables_keep_types:
  assumes "t \<in> set db_list"
  shows "\<exists>cs. col_types (fold tb_step ops t) = col_types t @ cs \<and> good_cols (col_types t @ cs)
    \<and> (\<forall>n ty. (n, ty) \<in> set (col_types t) \<longrightarrow> has_field ty n (fold tb_step ops t))"
proof -
  have g: "good_cols (col_types t)" using assms db_list_cols by blast
  then obtain cs where cs: "col_types (fold tb_step ops t) = col_types t @ cs" "good_cols (col_types t @ cs)"
    using run_cols by blast
  have "has_field ty n (fold tb_step ops t)" if "(n, ty) \<in> set (col_types t)" for n ty
    using that g by (simp add: has_field_iff cs map_add_def good_cols_def map_of_is_SomeI)
  with cs show ?thesis by blast
qed

lemma tables_keep_types_witness:
  "\<exists>cs. col_types (fold tb_step [ClearRow, PutValue ''maxsess'' (VStr ''x''), RequestCol ''username'', PutValue ''extra'' (VInt 1)] usr_table)
      = col_types usr_table @ cs \<and> good_cols (col_types usr_table @ cs)
    \<and> (\<forall>n ty. (n, ty) \<in> set (col_types usr_table) \<longrightarrow>
        has_field ty n (fold tb_step [ClearRow, PutValue ''maxsess'' (VStr ''x''), RequestCol ''username'', PutValue ''extra'' (VInt 1)] usr_table))"
  by (rule tables_keep_types) (simp add: db_list_def)

end
