(* ===== verification/Base64.thy ===== *)
theory Base64
  imports Utils
begin

text \<open>
  Base 64 (\<^verbatim>\<open>base64Encode\<close> and \<^verbatim>\<open>base64Decode\<close> in \<^verbatim>\<open>src/Utils.cc\<close>). Both work on arrays of 64 bytes: the input is
  cut to 62 bytes and the output to 63.
\<close>

section \<open>Encoding\<close>

definition b64_char :: "nat \<Rightarrow> char" where
  "b64_char i = (if i < 26 then char_of (65 + i) else if i < 52 then char_of (71 + i)
     else if i < 62 then char_of (i - 4) else if i = 62 then CHR ''+'' else CHR ''/'')"

text \<open>A group of three bytes as four sextets.\<close>

definition sextets :: "nat \<Rightarrow> nat \<Rightarrow> nat \<Rightarrow> nat \<times> nat \<times> nat \<times> nat" where
  "sextets a b c = (a div 4, a mod 4 * 16 + b div 16, b mod 16 * 4 + c div 64, c mod 64)"

fun b64_groups :: "string \<Rightarrow> string" where
  "b64_groups [] = []"
| "b64_groups [x] = (case sextets (code x) 0 0 of (p, q, r, t) \<Rightarrow> [b64_char p, b64_char q, CHR ''='', CHR ''=''])"
| "b64_groups [x, y] = (case sextets (code x) (code y) 0 of (p, q, r, t) \<Rightarrow>
     [b64_char p, b64_char q, b64_char r, CHR ''=''])"
| "b64_groups (x # y # z # s) = (case sextets (code x) (code y) (code z) of (p, q, r, t) \<Rightarrow>
     [b64_char p, b64_char q, b64_char r, b64_char t] @ b64_groups s)"

definition base64Encode :: "string option \<Rightarrow> string" where
  "base64Encode inp = (case inp of None \<Rightarrow> [] | Some s \<Rightarrow>
     if s = [] then [] else take 63 (b64_groups (snprintf_s 63 s)))"

section \<open>Decoding\<close>

definition b64_val :: "char \<Rightarrow> nat option" where
  "b64_val c = (let n = code c in
     if 65 \<le> n \<and> n \<le> 90 then Some (n - 65) else if 97 \<le> n \<and> n \<le> 122 then Some (n - 71)
     else if 48 \<le> n \<and> n \<le> 57 then Some (n + 4) else if n = 43 then Some 62 else if n = 47 then Some 63
     else if n = 61 then Some 0 else None)"

text \<open>The next \<open>n\<close> characters of the alphabet, others are skipped; \<open>None\<close> at the terminator. A byte above 127 is a
negative index into the table.\<close>

fun b64_next :: "nat \<Rightarrow> string \<Rightarrow> (string \<times> string) option cres" where
  "b64_next 0 s = Inr (Some ([], s))"
| "b64_next (Suc n) [] = Inr None"
| "b64_next (Suc n) (c # s) =
     (if 128 \<le> code c then Inl OutOfBounds
      else if b64_val c = None then b64_next (Suc n) s
      else cbind (b64_next n s) (\<lambda>r. Inr (map_option (\<lambda>(g, t). (c # g, t)) r)))"

lemma b64_next_shorter: "b64_next n s = Inr (Some (g, t)) \<Longrightarrow> length g = n \<and> length t + n \<le> length s"
  by (induction n s arbitrary: g t rule: b64_next.induct) (fastforce split: if_splits)+

definition b64_bytes :: "string \<Rightarrow> string" where
  "b64_bytes g =
     (let b = map (\<lambda>c. the (b64_val c)) g;
          o0 = b ! 0 * 4 + b ! 1 div 16; o1 = b ! 1 * 16 + b ! 2 div 4; o2 = b ! 2 * 64 + b ! 3;
          i = (if g ! 2 = CHR ''='' then 1 else if g ! 3 = CHR ''='' then 2 else 3)
      in take i (map char_of [o0 :: nat, o1, o2]))"

function b64_loop :: "string \<Rightarrow> string cres" where
  "b64_loop s = (case b64_next 4 s of
      Inl e \<Rightarrow> Inl e
    | Inr None \<Rightarrow> Inr []
    | Inr (Some (g, t)) \<Rightarrow>
        if length (b64_bytes g) < 3 then Inr (b64_bytes g)
        else cbind (b64_loop t) (\<lambda>r. Inr (b64_bytes g @ r)))"
  by pat_completeness auto
termination
  by (relation "measure length") (auto dest!: b64_next_shorter)

declare b64_loop.simps [simp del]

definition base64Decode :: "string option \<Rightarrow> string cres" where
  "base64Decode inp = (case inp of None \<Rightarrow> Inr [] | Some s \<Rightarrow>
     if s = [] then Inr [] else cbind (b64_loop (snprintf_s 63 s)) (\<lambda>d. Inr (c_str d)))"

section \<open>Lemmas\<close>

lemma code_b64_char: "i < 64 \<Longrightarrow> code (b64_char i) = (if i < 26 then 65 + i else if i < 52 then 71 + i
     else if i < 62 then i - 4 else if i = 62 then 43 else 47)"
  by (auto simp: b64_char_def code_def)

lemma b64_val_char [simp]: "i < 64 \<Longrightarrow> b64_val (b64_char i) = Some i"
  unfolding b64_val_def Let_def code_b64_char by auto

lemma b64_char_low [simp]: "i < 64 \<Longrightarrow> \<not> 128 \<le> code (b64_char i)"
  by (auto simp: code_b64_char)

lemma b64_char_not_pad [simp]: "i < 64 \<Longrightarrow> b64_char i \<noteq> CHR ''=''"
  using code_b64_char[of i] by (auto simp: code_def split: if_splits)

lemma b64_char_not_nul [simp]: "i < 64 \<Longrightarrow> b64_char i \<noteq> NUL"
  using code_b64_char[of i] by (auto simp: code_def split: if_splits)

lemma pad_char [simp]: "b64_val CHR ''='' = Some 0" "\<not> 128 \<le> code CHR ''=''"
  by (simp_all add: b64_val_def code_def)

lemma sextets_less:
  "a < 256 \<Longrightarrow> b < 256 \<Longrightarrow> c < 256 \<Longrightarrow> sextets a b c = (p, q, r, t) \<Longrightarrow> p < 64 \<and> q < 64 \<and> r < 64 \<and> t < 64"
  by (auto simp: sextets_def less_mult_imp_div_less)

lemma sextets_back:
  fixes a b c :: nat
  assumes "b < 256" "c < 256"
  shows "a div 4 * 4 + (a mod 4 * 16 + b div 16) div 16 = a"
    and "((a mod 4 * 16 + b div 16) * 16 + (b mod 16 * 4 + c div 64) div 4) mod 256 = b"
    and "((b mod 16 * 4 + c div 64) * 64 + c mod 64) mod 256 = c"
proof -
  have z: "b div 16 div 16 = 0" "c div 64 div 4 = 0" using assms by (simp_all flip: div_mult2_eq)
  have "(a mod 4 * 16 + b div 16) div 16 = a mod 4" by (simp add: z)
  then show "a div 4 * 4 + (a mod 4 * 16 + b div 16) div 16 = a" by simp
  have "(b mod 16 * 4 + c div 64) div 4 = b mod 16" by (simp add: z)
  then have "(a mod 4 * 16 + b div 16) * 16 + (b mod 16 * 4 + c div 64) div 4 = b + a mod 4 * 256"
    using div_mult_mod_eq[of b 16] by simp
  then show "((a mod 4 * 16 + b div 16) * 16 + (b mod 16 * 4 + c div 64) div 4) mod 256 = b" using assms(1) by simp
  have "(b mod 16 * 4 + c div 64) * 64 + c mod 64 = c + b mod 16 * 256" using div_mult_mod_eq[of c 64] by simp
  then show "((b mod 16 * 4 + c div 64) * 64 + c mod 64) mod 256 = c" using assms(2) by simp
qed

lemma b64_next_keep:
  "\<not> 128 \<le> code c \<and> b64_val c \<noteq> None \<Longrightarrow> b64_next n s = Inr (Some (g, t)) \<Longrightarrow>
   b64_next (Suc n) (c # s) = Inr (Some (c # g, t))"
  by auto

lemma b64_next_group:
  assumes "\<forall>c \<in> set [p, q, r, t]. \<not> 128 \<le> code c \<and> b64_val c \<noteq> None"
  shows "b64_next 4 (p # q # r # t # s) = Inr (Some ([p, q, r, t], s))"
proof -
  have n: "(4 :: nat) = Suc (Suc (Suc (Suc 0)))" by simp
  show ?thesis
    unfolding n by (intro b64_next_keep b64_next.simps(1)) (use assms in simp_all)
qed

lemma char_of_eqI: "n mod 256 = code c \<Longrightarrow> char_of n = c"
  using code_inj[of "char_of n" c] by simp

lemma nth_4: "[p, q, r, t] ! 2 = r" "[p, q, r, t] ! 3 = t"
  by (simp_all add: eval_nat_numeral)

lemma b64_bytes_3:
  "sextets (code x) (code y) (code z) = (p, q, r, t) \<Longrightarrow>
   b64_bytes [b64_char p, b64_char q, b64_char r, b64_char t] = [x, y, z]"
  using sextets_less[of "code x" "code y" "code z" p q r t] sextets_back(1)[of "code y" "code z" "code x"] sextets_back(2)[of "code y" "code z" "code x"] sextets_back(3)[of "code y" "code z"]
  by (auto simp: b64_bytes_def Let_def sextets_def nth_4 intro!: char_of_eqI)

lemma b64_bytes_2:
  "sextets (code x) (code y) 0 = (p, q, r, t) \<Longrightarrow> b64_bytes [b64_char p, b64_char q, b64_char r, CHR ''=''] = [x, y]"
  using sextets_less[of "code x" "code y" 0 p q r t] sextets_back(1)[of "code y" 0 "code x"] sextets_back(2)[of "code y" 0 "code x"] sextets_back(3)[of "code y" 0]
  by (auto simp: b64_bytes_def Let_def sextets_def nth_4 intro!: char_of_eqI)

lemma b64_bytes_1:
  "sextets (code x) 0 0 = (p, q, r, t) \<Longrightarrow> b64_bytes [b64_char p, b64_char q, CHR ''='', CHR ''=''] = [x]"
  using sextets_less[of "code x" 0 0 p q r t] sextets_back(1)[of 0 0 "code x"]
  by (auto simp: b64_bytes_def Let_def sextets_def nth_4 intro!: char_of_eqI)

lemma b64_loop_group:
  assumes "\<forall>c \<in> set [p, q, r, t]. \<not> 128 \<le> code c \<and> b64_val c \<noteq> None" "b64_bytes [p, q, r, t] = o3"
  shows "b64_loop (p # q # r # t # s) =
    (if length o3 < 3 then Inr o3 else cbind (b64_loop s) (\<lambda>d. Inr (o3 @ d)))"
  unfolding b64_loop.simps[of "p # q # r # t # s"] b64_next_group[OF assms(1)] by (simp add: assms(2))

lemma b64_loop_Nil: "b64_loop [] = Inr []"
  by (simp add: b64_loop.simps numeral_eq_Suc)

lemma b64_loop_groups: "b64_loop (b64_groups s) = Inr s"
proof (induction s rule: b64_groups.induct)
  case 1
  then show ?case by (simp add: b64_loop_Nil)
next
  case (2 x)
  obtain p q r t where e: "sextets (code x) 0 0 = (p, q, r, t)" by (metis prod_cases4)
  show ?case using sextets_less[OF _ _ _ e] b64_bytes_1[OF e] by (simp add: e b64_loop_group)
next
  case (3 x y)
  obtain p q r t where e: "sextets (code x) (code y) 0 = (p, q, r, t)" by (metis prod_cases4)
  show ?case using sextets_less[OF _ _ _ e] b64_bytes_2[OF e] by (simp add: e b64_loop_group)
next
  case (4 x y z s)
  obtain p q r t where e: "sextets (code x) (code y) (code z) = (p, q, r, t)" by (metis prod_cases4)
  show ?case using sextets_less[OF _ _ _ e] b64_bytes_3[OF e] 4 by (simp add: e b64_loop_group)
qed

lemma length_b64_groups: "3 * length (b64_groups s) \<le> 4 * (length s + 2)"
  by (induction s rule: b64_groups.induct) (auto split: prod.splits)

lemma nul_free_b64_groups [simp]: "nul_free (b64_groups s)"
proof (induction s rule: b64_groups.induct)
  case (2 x)
  show ?case using sextets_less[of "code x" 0 0] by (auto split: prod.splits)
next
  case (3 x y)
  show ?case using sextets_less[of "code x" "code y" 0] by (auto split: prod.splits)
next
  case (4 x y z s)
  then show ?case using sextets_less[of "code x" "code y" "code z"] by (auto split: prod.splits)
qed simp

lemma base64_encode_short:
  assumes "nul_free s" "length s \<le> 45"
  shows "base64Encode (Some s) = b64_groups s" "snprintf_s 63 (b64_groups s) = b64_groups s"
proof -
  have "length (b64_groups s) \<le> 62" using length_b64_groups[of s] assms(2) by simp
  moreover have "snprintf_s 63 s = s" using assms by (simp add: snprintf_s_short)
  ultimately show "base64Encode (Some s) = b64_groups s" "snprintf_s 63 (b64_groups s) = b64_groups s"
    by (auto simp: base64Encode_def snprintf_s_short)
qed

lemma b64_groups_Nil [simp]: "(b64_groups s = []) = (s = [])"
  by (cases s rule: b64_groups.cases) (auto split: prod.splits)

lemma base64_decode_encode:
  "nul_free s \<Longrightarrow> length s \<le> 45 \<Longrightarrow> base64Decode (Some (base64Encode (Some s))) = Inr s"
  by (simp add: base64_encode_short base64Decode_def b64_loop_groups)

lemma b64_groups_length: "length (b64_groups s) = 4 * ((length s + 2) div 3)"
proof (induction s rule: b64_groups.induct)
  case (4 x y z s)
  have "(length (x # y # z # s) + 2) div 3 = Suc ((length s + 2) div 3)" by simp
  then show ?case using 4 by (simp add: sextets_def)
qed (simp_all add: sextets_def)

lemma b64_char_inj: "i < 64 \<Longrightarrow> j < 64 \<Longrightarrow> (b64_char i = b64_char j) = (i = j)"
  using b64_val_char by (metis option.inject)

lemma sextets_chars:
  assumes "sextets a b c = (p, q, r, t)" "sextets a' b' c' = (p', q', r', t')" "a < 256" "b < 256" "c < 256" "a' < 256" "b' < 256" "c' < 256"
  shows "(b64_char p = b64_char p') = (p = p')" "(b64_char q = b64_char q') = (q = q')"
    "(b64_char r = b64_char r') = (r = r')" "(b64_char t = b64_char t') = (t = t')"
  using sextets_less[OF assms(3-5,1)] sextets_less[OF assms(6-8,2)] by (simp_all add: b64_char_inj)

lemma sextets_of:
  assumes "sextets a b c = (p, q, r, t)" "b < 256" "c < 256"
  shows "a = p * 4 + q div 16" "b = (q * 16 + r div 4) mod 256" "c = (r * 64 + t) mod 256"
proof -
  have e: "p = a div 4" "q = a mod 4 * 16 + b div 16" "r = b mod 16 * 4 + c div 64" "t = c mod 64"
    using assms(1) by (simp_all add: sextets_def)
  show "a = p * 4 + q div 16" unfolding e by (rule sextets_back(1)[OF assms(2,3), symmetric])
  show "b = (q * 16 + r div 4) mod 256" unfolding e by (rule sextets_back(2)[OF assms(2,3), symmetric])
  show "c = (r * 64 + t) mod 256" unfolding e by (rule sextets_back(3)[OF assms(2,3), symmetric])
qed

text \<open>What the first characters of an encoding tell of the text.\<close>

lemma b64_group_eq:
  "take (Suc (Suc (Suc (Suc k)))) (b64_groups (x # y # z # s)) = take (Suc (Suc (Suc (Suc k)))) (b64_groups (x' # y' # z' # s')) \<Longrightarrow>
     x = x' \<and> y = y' \<and> z = z' \<and> take k (b64_groups s) = take k (b64_groups s')"
proof -
  obtain p q r t where 1: "sextets (code x) (code y) (code z) = (p, q, r, t)" by (cases "sextets (code x) (code y) (code z)")
  obtain p' q' r' t' where 2: "sextets (code x') (code y') (code z') = (p', q', r', t')" by (cases "sextets (code x') (code y') (code z')")
  assume "take (Suc (Suc (Suc (Suc k)))) (b64_groups (x # y # z # s)) = take (Suc (Suc (Suc (Suc k)))) (b64_groups (x' # y' # z' # s'))"
  then have e: "p = p'" "q = q'" "r = r'" "t = t'" "take k (b64_groups s) = take k (b64_groups s')"
    using sextets_chars[OF 1 2] by (simp_all add: 1 2)
  have "code x = code x'" "code y = code y'" "code z = code z'"
    using sextets_of[OF 1 code_less code_less] sextets_of[OF 2 code_less code_less] e(1-4) by metis+
  then show ?thesis using e(5) by simp
qed

lemma b64_two:
  assumes "s \<noteq> []" "s' \<noteq> []" "take 3 (b64_groups s) = take 3 (b64_groups s')"
  shows "take 2 s = take 2 s'"
proof -
  have one: "\<exists>p q. p < 64 \<and> q < 64 \<and> p = code x div 4 \<and> q div 16 = code x mod 4 \<and>
      take 3 (b64_groups [x]) = [b64_char p, b64_char q, CHR ''='']" for x
  proof -
    have "code x div 4 < 64" "code x mod 4 * 16 < 64" using code_less[of x] by (simp_all add: less_mult_imp_div_less)
    then show ?thesis by (intro exI[of _ "code x div 4"] exI[of _ "code x mod 4 * 16"]) (simp add: sextets_def)
  qed
  have two: "\<exists>p q r. p < 64 \<and> q < 64 \<and> r < 64 \<and> p = code x div 4 \<and> q div 16 = code x mod 4 \<and> q mod 16 = code y div 16 \<and>
      r div 4 = code y mod 16 \<and> take 3 (b64_groups (x # y # w)) = [b64_char p, b64_char q, b64_char r]" for x y w
  proof -
    define c where "c = (case w of [] \<Rightarrow> 0 | z # _ \<Rightarrow> code z div 64)"
    have c: "c < 4" using code_less by (auto simp: c_def less_mult_imp_div_less split: list.splits)
    have l: "code y div 16 < 16" "code x mod 4 < 4" "code y mod 16 < 16" "code x div 4 < 64"
      using code_less[of y] code_less[of x] by (simp_all add: less_mult_imp_div_less)
    have d: "(m * 16 + d) div 16 = m" "(m * 16 + d) mod 16 = d" if "d < 16" for m d :: nat using that by simp_all
    have d4: "(m * 4 + d) div 4 = m" if "d < 4" for m d :: nat using that by simp
    have q: "code x mod 4 * 16 + code y div 16 < 64" "(code x mod 4 * 16 + code y div 16) div 16 = code x mod 4"
      "(code x mod 4 * 16 + code y div 16) mod 16 = code y div 16"
      using l(1,2) by linarith (rule d[OF l(1)])+
    have r: "code y mod 16 * 4 + c < 64" "(code y mod 16 * 4 + c) div 4 = code y mod 16"
      using l(3) c by linarith (rule d4[OF c])
    have t: "take 3 (b64_groups (x # y # w)) =
        [b64_char (code x div 4), b64_char (code x mod 4 * 16 + code y div 16), b64_char (code y mod 16 * 4 + c)]"
      by (cases w) (simp_all add: sextets_def c_def)
    show ?thesis
      by (intro exI[of _ "code x div 4"] exI[of _ "code x mod 4 * 16 + code y div 16"] exI[of _ "code y mod 16 * 4 + c"] conjI l q r t refl)
  qed
  have same: "x = x'" if "code x div 4 = code x' div 4" "code x mod 4 = code x' mod 4" for x x'
    using that by (metis code_inj div_mult_mod_eq)
  have same': "y = y'" if "code y div 16 = code y' div 16" "code y mod 16 = code y' mod 16" for y y'
    using that by (metis code_inj div_mult_mod_eq)
  from assms(1,2) consider (a) x x' where "s = [x]" "s' = [x']" | (b) x x' y w where "s = [x]" "s' = x' # y # w"
    | (c) x x' y w where "s = x' # y # w" "s' = [x]" | (d) x y w x' y' w' where "s = x # y # w" "s' = x' # y' # w'"
    by (metis list.exhaust)
  then show ?thesis
  proof cases
    case a
    obtain p q where 1: "p < 64" "q < 64" "p = code x div 4" "q div 16 = code x mod 4"
      "take 3 (b64_groups [x]) = [b64_char p, b64_char q, CHR ''='']" using one[of x] by blast
    obtain p' q' where 2: "p' < 64" "q' < 64" "p' = code x' div 4" "q' div 16 = code x' mod 4"
      "take 3 (b64_groups [x']) = [b64_char p', b64_char q', CHR ''='']" using one[of x'] by blast
    have "p = p'" "q = q'" using assms(3) 1 2 unfolding a by (simp_all only: list.inject b64_char_inj)
    then have "x = x'" using 1(3,4) 2(3,4) by (metis same)
    then show ?thesis by (simp add: a)
  next
    case b
    obtain r where "r < 64" "CHR ''='' = b64_char r" using one[of x] two[of x' y w] assms(3) unfolding b by (metis list.inject)
    then show ?thesis using b64_char_not_pad by metis
  next
    case c
    obtain r where "r < 64" "CHR ''='' = b64_char r" using one[of x] two[of x' y w] assms(3) unfolding c by (metis list.inject)
    then show ?thesis using b64_char_not_pad by metis
  next
    case d
    from d obtain p q r where pq: "p < 64" "q < 64" "r < 64" "p = code x div 4" "q div 16 = code x mod 4" "q mod 16 = code y div 16"
      "r div 4 = code y mod 16" "take 3 (b64_groups s) = [b64_char p, b64_char q, b64_char r]" using two[of x y w] by blast
    from d obtain p' q' r' where pq': "p' < 64" "q' < 64" "r' < 64" "p' = code x' div 4" "q' div 16 = code x' mod 4"
      "q' mod 16 = code y' div 16" "r' div 4 = code y' mod 16" "take 3 (b64_groups s') = [b64_char p', b64_char q', b64_char r']"
      using two[of x' y' w'] by blast
    have e: "p = p'" "q = q'" "r = r'"
      using assms(3) pq(1-3) pq'(1-3) unfolding pq(8) pq'(8) by (simp_all only: list.inject b64_char_inj)
    have "x = x'" by (rule same) (metis e pq(4) pq'(4), metis e pq(5) pq'(5))
    moreover have "y = y'" by (rule same') (metis e pq(6) pq'(6), metis e pq(7) pq'(7))
    ultimately show ?thesis by (simp add: d)
  qed
qed

lemma b64_eleven:
  assumes "10 \<le> length s" "10 \<le> length s'" "take 15 (b64_groups s) = take 15 (b64_groups s')"
  shows "take 11 s = take 11 s'"
proof -
  have split: "\<exists>x y z r. s = x # y # z # r" if "3 \<le> length s" for s :: string
    using that by (auto simp: eval_nat_numeral Suc_le_length_iff)
  obtain a b c r1 where s1: "s = a # b # c # r1" using split[of s] assms(1) by auto
  obtain a' b' c' r1' where t1: "s' = a' # b' # c' # r1'" using split[of s'] assms(2) by auto
  obtain d e f r2 where s2: "r1 = d # e # f # r2" using split[of r1] assms(1) by (auto simp: s1)
  obtain d' e' f' r2' where t2: "r1' = d' # e' # f' # r2'" using split[of r1'] assms(2) by (auto simp: t1)
  obtain g h i r3 where s3: "r2 = g # h # i # r3" using split[of r2] assms(1) by (auto simp: s1 s2)
  obtain g' h' i' r3' where t3: "r2' = g' # h' # i' # r3'" using split[of r2'] assms(2) by (auto simp: t1 t2)
  have A: "a = a' \<and> b = b' \<and> c = c' \<and> take 11 (b64_groups r1) = take 11 (b64_groups r1')"
    using b64_group_eq[of 11 a b c r1 a' b' c' r1'] assms(3) by (simp add: s1 t1 del: b64_groups.simps)
  then have B: "d = d' \<and> e = e' \<and> f = f' \<and> take 7 (b64_groups r2) = take 7 (b64_groups r2')"
    using b64_group_eq[of 7 d e f r2 d' e' f' r2'] by (simp add: s2 t2 del: b64_groups.simps)
  then have C: "g = g' \<and> h = h' \<and> i = i' \<and> take 3 (b64_groups r3) = take 3 (b64_groups r3')"
    using b64_group_eq[of 3 g h i r3 g' h' i' r3'] by (simp add: s3 t3 del: b64_groups.simps)
  then have "take 2 r3 = take 2 r3'" using assms(1,2) by (intro b64_two) (auto simp: s1 s2 s3 t1 t2 t3)
  with A B C show ?thesis by (simp add: s1 s2 s3 t1 t2 t3)
qed

end
