(* ===== verification/TacDb.thy ===== *)
theory TacDb
  imports DbTable Base64 AAA
begin

text \<open>
  The database of the server (\<^verbatim>\<open>src/TacDb.cc\<close>, classes \<^verbatim>\<open>DbModule\<close> and \<^verbatim>\<open>TacDb\<close>): the functions of a
  loaded module as a record over the state of that module, the encryption of stored passwords and the reading of a
  user. Log lines and mutexes are left out, but for the one \<^verbatim>\<open>load\<close> may leave held. Parameters: MD5 and the
  module.
\<close>

section \<open>The module\<close>

record 's engine =
  en_open :: "string \<Rightarrow> nat \<Rightarrow> string \<Rightarrow> string \<Rightarrow> string \<Rightarrow> 's \<Rightarrow> (int \<times> string) \<times> 's"
  en_close :: "int \<Rightarrow> 's \<Rightarrow> bool \<times> 's"
  en_query :: "int \<Rightarrow> dbtable \<Rightarrow> 's \<Rightarrow> bool \<times> 's"
  en_function :: "int \<Rightarrow> string \<Rightarrow> 's \<Rightarrow> string option \<times> 's"
  en_get :: "int \<Rightarrow> dbtable \<Rightarrow> nat \<Rightarrow> 's \<Rightarrow> bool \<times> dbtable \<times> 's"
  en_create :: "int \<Rightarrow> dbtable \<Rightarrow> 's \<Rightarrow> (bool \<times> string) \<times> 's"
  en_create_idx :: "int \<Rightarrow> dbtable \<Rightarrow> 's \<Rightarrow> (bool \<times> string) \<times> 's"
  en_add :: "int \<Rightarrow> dbtable \<Rightarrow> 's \<Rightarrow> bool \<times> 's"
  en_update :: "int \<Rightarrow> dbtable \<Rightarrow> 's \<Rightarrow> bool \<times> 's"
  en_del :: "int \<Rightarrow> dbtable \<Rightarrow> 's \<Rightarrow> bool \<times> 's"

record dbmod =
  db_name :: string
  db_location :: ipaddr
  db_port :: nat
  db_key :: string
  db_username :: string
  db_password :: string
  db_module :: string
  db_shutdown :: bool

definition new_dbmod :: "dns \<Rightarrow> string \<Rightarrow> string \<Rightarrow> string \<Rightarrow> nat \<Rightarrow> string \<Rightarrow> string \<Rightarrow> string \<Rightarrow> dbmod" where
  "new_dbmod dns m key loc p uname pwd db = \<lparr> db_name = db, db_location = ip_fill dns loc, db_port = p, db_key = key,
     db_username = uname, db_password = pwd, db_module = m, db_shutdown = True \<rparr>"

definition setdbid :: "dns \<Rightarrow> string \<Rightarrow> string \<Rightarrow> nat \<Rightarrow> dbmod \<Rightarrow> dbmod" where
  "setdbid dns d l p m = m \<lparr> db_name := d, db_location := ip_fill dns l, db_port := p \<rparr>"

definition getdbid :: "dbmod \<Rightarrow> string" where
  "getdbid m = db_name m @ ''@'' @ hname (db_location m) @ '':'' @ toString_uint (of_nat (db_port m))"

definition db_open :: "dbmod \<Rightarrow> 's engine \<Rightarrow> 's \<Rightarrow> bool \<times> int \<times> 's" where
  "db_open m e s = (case en_open e (ip_get (db_location m)) (db_port m) (db_name m) (db_username m) (db_password m) s of
      ((cid, errmsg), s') \<Rightarrow> (\<not> (cid = 0 \<or> 0 < length errmsg), cid, s'))"

definition db_close :: "'s engine \<Rightarrow> int \<Rightarrow> 's \<Rightarrow> 's" where
  "db_close e cid s = snd (en_close e cid s)"

definition db_function :: "'s engine \<Rightarrow> int \<Rightarrow> string \<Rightarrow> 's \<Rightarrow> string \<times> 's" where
  "db_function e cid f s = (case en_function e cid f s of (r, s') \<Rightarrow> (case r of None \<Rightarrow> [] | Some t \<Rightarrow> t, s'))"

text \<open>\<^verbatim>\<open>load\<close>: the text is what the loader says, \<open>fns\<close> tells whether all functions are there, \<open>held\<close> whether
\<^verbatim>\<open>Mutex_\<close> is held. \<open>None\<close> waits for ever.\<close>

definition db_load :: "(string \<Rightarrow> string) \<Rightarrow> (string \<Rightarrow> bool) \<Rightarrow> dbmod \<Rightarrow> bool \<Rightarrow> (string \<times> bool) option" where
  "db_load dbload fns m held =
     (if held then None
      else let r = dbload (db_module m); str = (if r = ''(null)'' then [] else r)
           in if 0 < length str then Some (str, True)
              else if \<not> fns (db_module m) then Some (''Error in detecting functions in module'', False)
              else Some (str, False))"

section \<open>Stored passwords\<close>

fun escape_loop :: "string \<Rightarrow> string" where
  "escape_loop [] = []"
| "escape_loop (c # s) = (if sql_special c then CHR 0x5C # c # escape_loop s else c # escape_loop s)"

definition db_md5_hash :: "(byte list \<Rightarrow> byte list) \<Rightarrow> string \<Rightarrow> string \<Rightarrow> byte list" where
  "db_md5_hash md5 key varkey = md5_final md5 (to_bytes (snprintf_s 127 key @ varkey))"

text \<open>The same 16 bytes for every block.\<close>

fun xor_repeat :: "byte list \<Rightarrow> byte list \<Rightarrow> byte list" where
  "xor_repeat h d = (if length d \<le> 16 then map2 (XOR) d h else map2 (XOR) (take 16 d) h @ xor_repeat h (drop 16 d))"

declare xor_repeat.simps [simp del]

definition db_md5_xor :: "(byte list \<Rightarrow> byte list) \<Rightarrow> string \<Rightarrow> string \<Rightarrow> string \<Rightarrow> string" where
  "db_md5_xor md5 key varkey d =
     (if scomp (Some (snprintf_s 31 key)) (Some ''none'') then d
      else of_bytes (xor_repeat (db_md5_hash md5 key varkey) (to_bytes d)))"

definition encrypt :: "(byte list \<Rightarrow> byte list) \<Rightarrow> string \<Rightarrow> string \<Rightarrow> string \<Rightarrow> string cres" where
  "encrypt md5 key str varkey =
     (if key = ''none'' then buf_str 64 (escape_loop (take 32 str))
      else cbind (buf_str 32 (take 32 str)) (\<lambda>s. Inr (base64Encode (Some (c_str (db_md5_xor md5 key varkey s))))))"

definition decrypt :: "(byte list \<Rightarrow> byte list) \<Rightarrow> string \<Rightarrow> string \<Rightarrow> string \<Rightarrow> string cres" where
  "decrypt md5 key str varkey =
     (if key = ''none'' then Inr str
      else cbind (buf_str 128 (take 128 str)) (\<lambda>s.
           cbind (base64Decode (Some s)) (\<lambda>d.
           buf_str 32 (take 32 (c_str (db_md5_xor md5 key varkey (snprintf_s 63 d)))))))"

section \<open>Reading a user\<close>

text \<open>The loop over the rows of an answer: the module fills the table, the body takes its values. \<open>None\<close> when the rows
never end.\<close>

partial_function (option) rows ::
    "(dbtable \<Rightarrow> nat \<Rightarrow> 's \<Rightarrow> bool \<times> dbtable \<times> 's) \<Rightarrow> (dbtable \<Rightarrow> 'a \<Rightarrow> 'a cres) \<Rightarrow> nat \<Rightarrow> dbtable \<Rightarrow> 'a \<Rightarrow> 's \<Rightarrow>
     ('a \<times> dbtable \<times> 's) cres option" where
  "rows g f k t a s =
     (let r = g t k s; t' = fst (snd r); s' = snd (snd r)
      in if \<not> fst r then Some (Inr (a, t', s'))
         else case f t' a of Inl x \<Rightarrow> Some (Inl x) | Inr a' \<Rightarrow> rows g f (Suc k) t' a' s')"

definition ask :: "string \<Rightarrow> string \<Rightarrow> string \<Rightarrow> dbtable" where
  "ask table col v = set_request col (tb_put col (VStr v) (tb_clear (the (dl_get table db_list))))"

text \<open>A group: select, and when there is a first row, the rows again from the first.\<close>

definition group_rows :: "'s engine \<Rightarrow> int \<Rightarrow> dbtable \<Rightarrow> (dbtable \<Rightarrow> string \<times> db_user \<Rightarrow> string \<times> db_user) \<Rightarrow>
    (string \<times> db_user) \<times> 's \<Rightarrow> ((string \<times> db_user) \<times> 's) cres option" where
  "group_rows e cid t f = (\<lambda>(a, s). case en_query e cid t s of (q, s1) \<Rightarrow>
     if \<not> q then Some (Inr (a, s1))
     else case en_get e cid t 0 s1 of (g, t1, s2) \<Rightarrow>
       if \<not> g then Some (Inr (a, s2))
       else obind (rows (en_get e cid) (\<lambda>t a. Inr (f t a)) 0 t1 a s2) (\<lambda>(a', _, s'). Some (Inr (a', s'))))"

text \<open>\<open>strn\<close> keeps what it held when a table lacks the field.\<close>

definition acc_read :: "dbtable \<Rightarrow> string \<times> db_user \<Rightarrow> string \<times> db_user" where
  "acc_read t = (\<lambda>(strn, d).
     let ph = get_string ''phone'' strn t; na = get_string ''nas'' ph t; po = get_string ''port'' na t;
         ti = get_string ''time'' po t
     in (ti, acc_add \<lparr> acc_phone = ph, acc_nas = na, acc_port = po, acc_time = ti \<rparr> d))"

definition avp_read :: "dbtable \<Rightarrow> string \<times> db_user \<Rightarrow> string \<times> db_user" where
  "avp_read t = (\<lambda>(strn, d).
     let sv = get_string ''service'' strn t
     in if length sv = 0 then (sv, d)
        else let pr = get_string ''protocol'' sv t; av = get_string ''avp'' pr t
             in (av, avp_add \<lparr> service = sv, protocol = pr, avp = av \<rparr> d))"

definition cmd_read :: "dbtable \<Rightarrow> string \<times> db_user \<Rightarrow> string \<times> db_user" where
  "cmd_read t = (\<lambda>(strn, d).
     let cp = get_string ''cmdperm'' strn t; cd = get_string ''cmddeny'' cp t; ap = get_string ''argperm'' cd t;
         ad = get_string ''argdeny'' ap t
     in (ad, cmd_add \<lparr> cmdperm = cp, cmddeny = cd, argperm = ap, argdeny = ad \<rparr> d))"

definition bilres_read :: "dbtable \<Rightarrow> string \<times> db_user \<Rightarrow> string \<times> db_user" where
  "bilres_read t = (\<lambda>(strn, d).
     let at = get_string ''attribute'' strn t; va = get_string ''value'' at t
     in (va, bilres_add \<lparr> attribute = at, bil_value = va \<rparr> d))"

text \<open>The row of the user table.\<close>

definition usr_read :: "(byte list \<Rightarrow> byte list) \<Rightarrow> dbmod \<Rightarrow> string \<Rightarrow> dbtable \<Rightarrow> db_user \<Rightarrow> (string \<times> db_user) cres" where
  "usr_read md5 m user t d =
     cbind (decrypt md5 (db_key m) (get_chars ''password'' [] t) (c_str user)) (\<lambda>pw.
     let av = get_string ''avpid'' [] t; ac = get_string ''accid'' av t; bi = get_string ''bilid'' ac t;
         ad = get_string ''addid'' bi t
     in Inr (ad, d \<lparr> du_result := True, du_open := get_date ''dopen'' 0 t, du_close := get_date ''dclose'' 0 t,
          du_username := user, du_authsrc := ''db'', du_password := pw, du_avpid := av, du_accid := ac, du_bilid := bi,
          du_maxsess := get_int ''maxsess'' 0 t, du_addid := ad \<rparr>))"

text \<open>The additional group. The buffer of the password is used again for the enable password.\<close>

definition add_read :: "(byte list \<Rightarrow> byte list) \<Rightarrow> dbmod \<Rightarrow> 's engine \<Rightarrow> int \<Rightarrow> string \<Rightarrow> (string \<times> db_user) \<times> 's \<Rightarrow>
    ((string \<times> db_user) \<times> 's) cres" where
  "add_read md5 m e cid str = (\<lambda>((strn, d), s).
     if length (du_addid d) = 0 then Inr ((strn, d), s)
     else let t = ask T_ADD ''addid'' (du_addid d)
          in case en_query e cid t s of (q, s1) \<Rightarrow>
            if \<not> q then Inr ((strn, d), s1)
            else case en_get e cid t 0 s1 of (g, t1, s2) \<Rightarrow>
              if \<not> g then Inr ((strn, d), s2)
              else let src = get_string ''authsrc'' strn t1
                   in cbind (decrypt md5 (db_key m) (get_chars ''enable'' str t1) (c_str (du_addid d))) (\<lambda>en.
                        Inr ((src, d \<lparr> du_authsrc := src, du_enable := en \<rparr>), s2)))"

definition bil_read :: "'s engine \<Rightarrow> int \<Rightarrow> int \<Rightarrow> (string \<times> db_user) \<times> 's \<Rightarrow> (string \<times> db_user) \<times> 's" where
  "bil_read e cid x = (\<lambda>((strn, d), s).
     if length (du_bilid d) = 0 then ((strn, d), s)
     else let t = ask T_BIL ''bilid'' (du_bilid d)
          in case en_query e cid t s of (q, s1) \<Rightarrow>
            if \<not> q then ((strn, d), s1)
            else case en_get e cid t 0 s1 of (g, t1, s2) \<Rightarrow>
              if \<not> g then ((strn, d), s2) else ((strn, d \<lparr> du_bilmodid := get_int ''bilmodid'' x t1 \<rparr>), s2))"

definition group_of :: "'s engine \<Rightarrow> int \<Rightarrow> string \<Rightarrow> string \<Rightarrow> (db_user \<Rightarrow> string) \<Rightarrow>
    (dbtable \<Rightarrow> string \<times> db_user \<Rightarrow> string \<times> db_user) \<Rightarrow> (string \<times> db_user) \<times> 's \<Rightarrow> ((string \<times> db_user) \<times> 's) cres option" where
  "group_of e cid table col key f st =
     (let d = snd (fst st)
      in if length (key d) = 0 then Some (Inr st) else group_rows e cid (ask table col (key d)) f st)"

definition failed :: "bool \<Rightarrow> string \<Rightarrow> db_user" where
  "failed con msg = new_db_user \<lparr> du_connect := con, du_result := False, du_result_msg := msg \<rparr>"

text \<open>\<^verbatim>\<open>TacDb::get\<close>.\<close>

definition db_get_user :: "(byte list \<Rightarrow> byte list) \<Rightarrow> dbmod \<Rightarrow> 's engine \<Rightarrow> string \<Rightarrow> 's \<Rightarrow> (db_user \<times> 's) cres option" where
  "db_get_user md5 m e user s =
     (if length user = 0 then Some (Inr (failed False ''no username'', s))
      else if db_shutdown m then Some (Inr (failed False ''database shutdowned'', s))
      else let t = ask T_USR ''username'' user
           in case db_open m e s of (ok, cid, s1) \<Rightarrow>
             if \<not> ok then Some (Inr (failed False ''can not connect to database'', db_close e cid s1))
             else case en_query e cid t s1 of (q, s2) \<Rightarrow>
               if \<not> q then Some (Inr (failed True (''can't do request for username '' @ user), db_close e cid s2))
               else case en_get e cid t 0 s2 of (g, t1, s3) \<Rightarrow>
                 if \<not> g then Some (Inr (failed True (''no username '' @ user), db_close e cid s3))
                 else obind (Some (usr_read md5 m user t1 (new_db_user \<lparr> du_connect := True \<rparr>))) (\<lambda>r.
                      obind (Some (add_read md5 m e cid (get_chars ''password'' [] t1) (r, s3))) (\<lambda>r1.
                      obind (group_of e cid T_ACC ''accid'' du_accid acc_read r1) (\<lambda>r2.
                      obind (group_of e cid T_AVP ''avpid'' du_avpid avp_read r2) (\<lambda>r3.
                      obind (group_of e cid T_CMD ''avpid'' du_avpid cmd_read r3) (\<lambda>r4.
                      obind (group_of e cid T_BILRES ''bilid'' du_bilid bilres_read
                               (bil_read e cid (get_int ''maxsess'' 0 t1) r4)) (\<lambda>r5.
                      Some (Inr ((snd (fst r5)) \<lparr> du_result := True \<rparr>, db_close e cid (snd r5))))))))))"

definition direct_function_query :: "dbmod \<Rightarrow> 's engine \<Rightarrow> string \<Rightarrow> 's \<Rightarrow> string \<times> 's" where
  "direct_function_query m e f s = (case db_open m e s of (ok, cid, s1) \<Rightarrow>
     if \<not> ok then ([], db_close e cid s1)
     else case db_function e cid f s1 of (r, s2) \<Rightarrow> (r, db_close e cid s2))"

section \<open>Creating the tables\<close>

definition create_one :: "dbmod \<Rightarrow> 's engine \<Rightarrow> int \<Rightarrow> dbtable \<Rightarrow> string \<times> 's \<Rightarrow> string \<times> 's" where
  "create_one m e cid t = (\<lambda>(out, s).
     case en_create e cid t s of ((c, emsg), s1) \<Rightarrow> case en_create_idx e cid t s1 of ((i, emsg'), s2) \<Rightarrow>
       (out
        @ (if c then ''% table '' @ tb_name t @ '' in database '' @ getdbid m @ '' created'' @ [CHR 0x0A]
           else ''% can't create table '' @ tb_name t @ '' in database '' @ getdbid m @ '', message: '' @ emsg @ [CHR 0x0A])
        @ (if i then ''% index '' @ tb_name t @ ''_idx in database '' @ getdbid m @ '' created'' @ [CHR 0x0A]
           else ''% can't create index '' @ tb_name t @ ''_idx in database '' @ getdbid m @ '', message: '' @ emsg' @ [CHR 0x0A]),
        s2))"

definition db_create_all :: "dbmod \<Rightarrow> 's engine \<Rightarrow> 's \<Rightarrow> string \<times> 's" where
  "db_create_all m e s =
     (if db_shutdown m then ([], s)
      else case db_open m e s of (ok, cid, s1) \<Rightarrow>
        if \<not> ok then (''% can't connect to '' @ getdbid m @ '', see error log for details'' @ [CHR 0x0A], db_close e cid s1)
        else case fold (create_one m e cid) db_list ([], s1) of (out, s2) \<Rightarrow> (out, db_close e cid s2))"

section \<open>The descriptions of the tables\<close>

definition get_table_name :: "nat \<Rightarrow> string" where
  "get_table_name n = (case dl_nth n db_list of None \<Rightarrow> [] | Some t \<Rightarrow> tb_name t)"

definition get_table_mask :: "nat \<Rightarrow> string" where
  "get_table_mask n = (case dl_nth n db_list of None \<Rightarrow> [] | Some t \<Rightarrow> tb_mask t)"

definition get_table_descr :: "nat \<Rightarrow> string" where
  "get_table_descr n = (case dl_nth n db_list of None \<Rightarrow> [] | Some t \<Rightarrow> tb_descr t)"

definition get_field_name :: "nat \<Rightarrow> nat \<Rightarrow> string" where
  "get_field_name t n = (case dl_nth t db_list of None \<Rightarrow> [] | Some u \<Rightarrow> get_name u n)"

definition get_field_descr :: "nat \<Rightarrow> nat \<Rightarrow> string" where
  "get_field_descr t n = (case dl_nth t db_list of None \<Rightarrow> [] | Some u \<Rightarrow> get_descr u n)"

definition get_field_defv :: "nat \<Rightarrow> nat \<Rightarrow> string" where
  "get_field_defv t n = (case dl_nth t db_list of None \<Rightarrow> [] | Some u \<Rightarrow> get_defv u n)"

definition get_field_type :: "nat \<Rightarrow> nat \<Rightarrow> nat" where
  "get_field_type t n = (case dl_nth t db_list of None \<Rightarrow> 0 | Some u \<Rightarrow> get_type u n)"

definition get_field_num :: "nat \<Rightarrow> nat" where
  "get_field_num t = (case dl_nth t db_list of None \<Rightarrow> 0 | Some u \<Rightarrow> length (tb_fields u))"

section \<open>Lemmas\<close>

fun hash_pad :: "byte list \<Rightarrow> nat \<Rightarrow> byte list" where
  "hash_pad h n = (if n \<le> 16 then take n h else h @ hash_pad h (n - 16))"

declare hash_pad.simps [simp del]

lemma length_hash_pad: "length h = 16 \<Longrightarrow> length (hash_pad h n) = n"
  by (induction h n rule: hash_pad.induct) (subst hash_pad.simps, auto)

lemma zip_short: "zip xs (take (length xs) ys) = zip xs ys"
  by (simp add: list_eq_iff_nth_eq)

lemma xor_repeat_pad: "length h = 16 \<Longrightarrow> xor_repeat h d = map2 (XOR) d (hash_pad h (length d))"
proof (induction h d rule: xor_repeat.induct)
  case (1 h d)
  show ?case
  proof (cases "length d \<le> 16")
    case True
    then show ?thesis by (simp add: xor_repeat.simps[of h d] hash_pad.simps[of h "length d"] zip_short)
  next
    case False
    then have "map2 (XOR) d (h @ hash_pad h (length d - 16)) =
        map2 (XOR) (take 16 d @ drop 16 d) (h @ hash_pad h (length d - 16))" by simp
    also have "\<dots> = map2 (XOR) (take 16 d) h @ map2 (XOR) (drop 16 d) (hash_pad h (length d - 16))"
      using False 1(2) by (subst zip_append) simp_all
    finally show ?thesis
      using False 1 by (simp add: xor_repeat.simps[of h d] hash_pad.simps[of h "length d"])
  qed
qed

lemma length_db_md5_hash [simp]: "length (db_md5_hash md5 key vk) = 16"
  by (simp add: db_md5_hash_def)

text \<open>The cipher of the stored passwords, another instance of the contract the packets use.\<close>

interpretation pwd: xor_cipher "\<lambda>k d. xor_repeat (db_md5_hash md5 key k) d" "\<lambda>k n. hash_pad (db_md5_hash md5 key k) n"
  for md5 key
  by unfold_locales (simp_all add: xor_repeat_pad length_hash_pad)

lemma hash_pad_take: "length h = 16 \<Longrightarrow> m \<le> n \<Longrightarrow> hash_pad h m = take m (hash_pad h n)"
proof (induction h m arbitrary: n rule: hash_pad.induct)
  case (1 h m)
  show ?case
  proof (cases "m \<le> 16")
    case True
    then show ?thesis using 1 by (cases "n \<le> 16") (auto simp: hash_pad.simps[of h m] hash_pad.simps[of h n] min_def)
  next
    case False
    then show ?thesis using 1(1)[of "n - 16"] 1(2,3)
      by (simp add: hash_pad.simps[of h m] hash_pad.simps[of h n])
  qed
qed

lemma xor_repeat_take:
  assumes "length h = 16"
  shows "xor_repeat h (take m d) = take m (xor_repeat h d)"
proof (cases "m \<le> length d")
  case True
  then have "hash_pad h m = take m (hash_pad h (length d))" by (intro hash_pad_take assms)
  then show ?thesis using True by (simp add: xor_repeat_pad assms min_absorb2 take_map take_zip)
next
  case False
  then show ?thesis by (simp add: xor_repeat_pad assms length_hash_pad)
qed

definition kept_chars :: "byte list \<Rightarrow> string \<Rightarrow> nat" where
  "kept_chars h pw = length (takeWhile (\<lambda>x. fst x \<noteq> snd x) (zip (to_bytes pw) (hash_pad h (length pw))))"

lemma kept_chars_le: "length h = 16 \<Longrightarrow> kept_chars h pw \<le> length pw"
  using length_takeWhile_le[of "\<lambda>x. fst x \<noteq> snd x" "zip (to_bytes pw) (hash_pad h (length pw))"]
  by (simp add: kept_chars_def length_hash_pad)

lemma xor_zero_iff: "(a XOR b = 0) = (a = b)" for a b :: byte
  by (metis bit.xor_cancel_right xor.commute bit.xor_self xor.right_neutral xor.assoc)

lemma cipher_cut:
  assumes "length h = 16"
  shows "takeWhile (\<lambda>b. b \<noteq> 0) (xor_repeat h (to_bytes pw)) = take (kept_chars h pw) (xor_repeat h (to_bytes pw))"
proof -
  have "length (takeWhile (\<lambda>b. b \<noteq> 0) (xor_repeat h (to_bytes pw))) = kept_chars h pw"
    by (simp add: xor_repeat_pad assms takeWhile_map kept_chars_def comp_def case_prod_beta xor_zero_iff)
  then show ?thesis by (metis takeWhile_eq_take)
qed

lemma db_md5_xor_bytes:
  assumes "nul_free key" "key \<noteq> ''none''"
  shows "db_md5_xor md5 key vk d = of_bytes (xor_repeat (db_md5_hash md5 key vk) (to_bytes d))"
proof -
  have "snprintf_s 31 key \<noteq> ''none''"
  proof
    assume e: "snprintf_s 31 key = ''none''"
    then have "length (take 30 key) = 4" using assms by (simp add: snprintf_s_def)
    then have "take 30 key = key" by (simp add: min_def split: if_splits)
    with e assms show False by (simp add: snprintf_s_def)
  qed
  then show ?thesis by (simp add: db_md5_xor_def)
qed

text \<open>C36: a password the server stores and reads back is cut at the first byte that equals the byte of the key stream at
its place: there the cipher text holds a zero. Every byte before it comes back.\<close>

theorem password_readback:
  assumes pw: "nul_free pw" "length pw < 32" and key: "nul_free key" "key \<noteq> ''none''"
  shows "cbind (encrypt md5 key pw vk) (\<lambda>e. decrypt md5 key e vk) = Inr (take (kept_chars (db_md5_hash md5 key vk) pw) pw)"
proof -
  define h where "h = db_md5_hash md5 key vk"
  define n where "n = kept_chars h pw"
  define s where "s = of_bytes (take n (xor_repeat h (to_bytes pw)))"
  have h: "length h = 16" by (simp add: h_def)
  have cut: "c_str (db_md5_xor md5 key vk pw) = s"
    by (simp add: db_md5_xor_bytes key c_str_of_bytes cipher_cut s_def n_def flip: h_def) (simp add: h_def cipher_cut)
  then have s: "nul_free s" "length s < 32"
    using pw(2) nul_free_c_str[of "db_md5_xor md5 key vk pw"] by (auto simp: s_def xor_repeat_pad h length_hash_pad)
  then have enc: "encrypt md5 key pw vk = Inr (base64Encode (Some s))"
    using pw key cut by (simp add: encrypt_def buf_str_def)
  have e: "nul_free (base64Encode (Some s))" "length (base64Encode (Some s)) < 128"
    by (auto simp: base64Encode_def)
  have "db_md5_xor md5 key vk s = of_bytes (xor_repeat h (take n (xor_repeat h (to_bytes pw))))"
    by (simp add: db_md5_xor_bytes key s_def h_def del: of_bytes_take_drop)
  also have "\<dots> = take n pw"
    using pwd.crypt_crypt[of md5 key vk "to_bytes pw"] by (simp add: xor_repeat_take h flip: h_def)
  finally have bak: "db_md5_xor md5 key vk s = take n pw" .
  show ?thesis
    using s e pw key enc bak base64_decode_encode[OF s(1)] kept_chars_le[OF h, of pw]
    by (simp add: decrypt_def buf_str_def snprintf_s_short n_def h_def nul_free_take)
qed

lemma password_readback_witness:
  "cbind (encrypt (\<lambda>_. replicate 16 114) ''key'' ''secret'' ''bob'') (\<lambda>e. decrypt (\<lambda>_. replicate 16 114) ''key'' e ''bob'') =
     Inr ''sec''"
proof -
  have "kept_chars (db_md5_hash (\<lambda>_. replicate 16 114) ''key'' ''bob'') ''secret'' = 3" by code_simp
  then show ?thesis by (subst password_readback) simp_all
qed

section \<open>A database that answers\<close>

text \<open>A module without a state whose answer to a request is the list of rows of the table asked.\<close>

definition serves :: "'s engine \<Rightarrow> (string \<Rightarrow> dbtable list) \<Rightarrow> bool" where
  "serves e db = ((\<forall>n. \<forall>t \<in> set (db n). tb_name t = n) \<and>
     (\<forall>cid t s. en_query e cid t s = (True, s) \<and>
       (\<forall>k. en_get e cid t k s = (if k < length (db (tb_name t)) then (True, db (tb_name t) ! k, s) else (False, t, s)))))"

lemma serves_simps:
  assumes "serves e db"
  shows "en_query e cid t s = (True, s)" "t \<in> set (db n) \<Longrightarrow> tb_name t = n"
    "en_get e cid t k s = (if k < length (db (tb_name t)) then (True, db (tb_name t) ! k, s) else (False, t, s))"
  using assms by (auto simp: serves_def)

lemma rows_serve:
  assumes "serves e db"
  shows "tb_name t = n \<Longrightarrow>
    \<exists>t'. rows (en_get e cid) (\<lambda>t a. Inr (f t a)) k t a s = Some (Inr (fold f (drop k (db n)) a, t', s))"
proof (induction "length (db n) - k" arbitrary: k t a)
  case 0
  then show ?case by (subst rows.simps) (simp add: serves_simps[OF assms])
next
  case (Suc x)
  then have k: "k < length (db n)" "x = length (db n) - Suc k" by simp_all
  then have "tb_name (db n ! k) = n" by (intro serves_simps(2)[OF assms]) simp
  from Suc.hyps(1)[OF k(2) this] show ?case using k(1) Suc.prems
    by (subst rows.simps) (simp add: serves_simps(3)[OF assms] Cons_nth_drop_Suc[symmetric] Let_def)
qed

lemma tb_name_simps [simp]: "tb_name (tb_add n d df v l ix t) = tb_name t" "tb_name (tb_put n v t) = tb_name t"
  "tb_name (set_request c t) = tb_name t" "tb_name (set_update c t) = tb_name t" "tb_name (tb_clear t) = tb_name t"
  "tb_name (str_col n d df l ix t) = tb_name t" "tb_name (int_col n d df ix t) = tb_name t"
  "tb_name (date_col n d df ix t) = tb_name t" "tb_name (ip_col n d df ix t) = tb_name t" "tb_name (new_table n d df) = n"
  by (simp_all add: tb_add_def tb_put_def set_request_def set_update_def tb_clear_def str_col_def int_col_def
      date_col_def ip_col_def new_table_def)

lemma table_names: "map tb_name db_list = [T_USR, T_ADD, T_ACC, T_AVP, T_CMD, T_BIL, T_BILRES, T_NFUSR]"
  by (simp add: db_list_def usr_table_def add_table_def acc_table_def avp_table_def cmd_table_def bil_table_def
      bilres_table_def nfusr_table_def)

lemma ask_name: "n \<in> set (map tb_name db_list) \<Longrightarrow> tb_name (ask n c v) = n"
proof -
  assume "n \<in> set (map tb_name db_list)"
  then obtain t where t: "dl_get n db_list = Some t" by (cases "dl_get n db_list") (auto simp: dl_get_def find_None_iff)
  then have "tb_name t = n" by (auto simp: dl_get_def find_Some_iff)
  then show ?thesis using t by (simp add: ask_def)
qed

lemma ask_names [simp]: "tb_name (ask T_USR c v) = T_USR" "tb_name (ask T_ADD c v) = T_ADD"
  "tb_name (ask T_ACC c v) = T_ACC" "tb_name (ask T_AVP c v) = T_AVP" "tb_name (ask T_CMD c v) = T_CMD"
  "tb_name (ask T_BIL c v) = T_BIL" "tb_name (ask T_BILRES c v) = T_BILRES"
  by (simp_all add: ask_name table_names del: list.map)

lemma group_serve:
  assumes "serves e db" "tb_name (ask tn col (key (snd (fst st)))) = tn"
  shows "group_of e cid tn col key f st =
    Some (Inr (if key (snd (fst st)) = [] then st else (fold f (db tn) (fst st), snd st)))"
proof (cases "db tn")
  case Nil
  then show ?thesis using assms(2)
    by (auto simp: group_of_def group_rows_def Let_def serves_simps[OF assms(1)] split: prod.split)
next
  case (Cons r rs)
  define t where "t = ask tn col (key (snd (fst st)))"
  have "tb_name r = tn" using serves_simps(2)[OF assms(1), of r tn] Cons by simp
  from rows_serve[OF assms(1) this, of cid f 0 "fst st" "snd st"] obtain t'
    where "rows (en_get e cid) (\<lambda>t a. Inr (f t a)) 0 r (fst st) (snd st) =
      Some (Inr (fold f (db tn) (fst st), t', snd st))" by auto
  then show ?thesis using Cons assms(2)
    by (cases st) (simp add: group_of_def group_rows_def Let_def serves_simps[OF assms(1)])
qed

definition acc_row :: "dbtable \<Rightarrow> db_user_acc" where
  "acc_row t = \<lparr> acc_phone = get_string ''phone'' [] t, acc_nas = get_string ''nas'' [] t,
     acc_port = get_string ''port'' [] t, acc_time = get_string ''time'' [] t \<rparr>"

definition avp_row :: "dbtable \<Rightarrow> user_avp" where
  "avp_row t = \<lparr> service = get_string ''service'' [] t, protocol = get_string ''protocol'' [] t, avp = get_string ''avp'' [] t \<rparr>"

definition cmd_row_of :: "dbtable \<Rightarrow> cmd_avp" where
  "cmd_row_of t = \<lparr> cmdperm = get_string ''cmdperm'' [] t, cmddeny = get_string ''cmddeny'' [] t,
     argperm = get_string ''argperm'' [] t, argdeny = get_string ''argdeny'' [] t \<rparr>"

definition bil_row :: "dbtable \<Rightarrow> db_bilres" where
  "bil_row t = \<lparr> attribute = get_string ''attribute'' [] t, bil_value = get_string ''value'' [] t \<rparr>"

definition texts :: "string list \<Rightarrow> dbtable \<Rightarrow> bool" where
  "texts ns t = (\<forall>n \<in> set ns. has_field T_STR n t)"

lemma get_string_old: "has_field T_STR n t \<Longrightarrow> get_string n old t = fd_str (the (tb_find n T_STR t))"
  by (auto simp: has_field_def get_string_def)

text \<open>What a row does to the user.\<close>

lemma acc_step: "texts [''phone'', ''nas'', ''port'', ''time''] t \<Longrightarrow> snd (acc_read t a) = acc_add (acc_row t) (snd a)"
  by (cases a) (simp add: acc_read_def texts_def acc_row_def Let_def get_string_old)

lemma avp_step: "texts [''service'', ''protocol'', ''avp''] t \<Longrightarrow>
    snd (avp_read t a) = (if service (avp_row t) = [] then snd a else avp_add (avp_row t) (snd a))"
  by (cases a) (simp add: avp_read_def texts_def avp_row_def Let_def get_string_old)

lemma cmd_step: "texts [''cmdperm'', ''cmddeny'', ''argperm'', ''argdeny''] t \<Longrightarrow>
    snd (cmd_read t a) = cmd_add (cmd_row_of t) (snd a)"
  by (cases a) (simp add: cmd_read_def texts_def cmd_row_of_def Let_def get_string_old)

lemma bilres_step: "texts [''attribute'', ''value''] t \<Longrightarrow> snd (bilres_read t a) = bilres_add (bil_row t) (snd a)"
  by (cases a) (simp add: bilres_read_def texts_def bil_row_def Let_def get_string_old)

lemma fold_snd:
  assumes "\<And>t a. P t \<Longrightarrow> snd (f t a) = g t (snd a)" "\<forall>t \<in> set ts. P t"
  shows "snd (fold f ts a) = fold g ts (snd a)"
  using assms(2) by (induction ts arbitrary: a) (simp_all add: assms(1))

lemma fold_adds:
  "fold (\<lambda>t. acc_add (f t)) ts d = d \<lparr> du_acc := du_acc d @ map f ts \<rparr>"
  "fold (\<lambda>t. cmd_add (g t)) ts d = d \<lparr> du_cmd := du_cmd d @ map g ts \<rparr>"
  "fold (\<lambda>t. bilres_add (h t)) ts d = d \<lparr> du_bilres := du_bilres d @ map h ts \<rparr>"
  "fold (\<lambda>t d. if service (i t) = [] then d else avp_add (i t) d) ts d =
     d \<lparr> du_avp := du_avp d @ filter (\<lambda>x. service x \<noteq> []) (map i ts) \<rparr>"
  by (induction ts arbitrary: d) (simp_all add: acc_add_def cmd_add_def bilres_add_def avp_add_def)

lemmas read_groups =
  fold_snd[of _ acc_read, OF acc_step, unfolded fold_adds] fold_snd[of _ avp_read, OF avp_step, unfolded fold_adds]
  fold_snd[of _ cmd_read, OF cmd_step, unfolded fold_adds] fold_snd[of _ bilres_read, OF bilres_step, unfolded fold_adds]

lemma add_serve:
  assumes "serves e db" "\<And>u. u \<in> set (db T_ADD) \<Longrightarrow>
      \<exists>p. decrypt md5 (db_key m) (get_chars ''enable'' str u) (c_str (du_addid d)) = Inr p"
  shows "\<exists>n src en. add_read md5 m e cid str ((strn, d), s) = Inr ((n, d \<lparr> du_authsrc := src, du_enable := en \<rparr>), s)"
proof (cases "du_addid d = [] \<or> db T_ADD = []")
  case True
  then have "add_read md5 m e cid str ((strn, d), s) = Inr ((strn, d), s)"
    by (auto simp: add_read_def serves_simps[OF assms(1)] Let_def)
  then show ?thesis by (intro exI[of _ strn] exI[of _ "du_authsrc d"] exI[of _ "du_enable d"]) simp
next
  case False
  then obtain u us where u: "db T_ADD = u # us" by (cases "db T_ADD") auto
  then obtain p where "decrypt md5 (db_key m) (get_chars ''enable'' str u) (c_str (du_addid d)) = Inr p"
    using assms(2)[of u] by auto
  then show ?thesis using False u by (auto simp: add_read_def serves_simps[OF assms(1)] Let_def)
qed

lemma bil_serve:
  assumes "serves e db"
  shows "\<exists>b. bil_read e cid x st = ((fst (fst st), (snd (fst st)) \<lparr> du_bilmodid := b \<rparr>), snd st)"
proof -
  have "\<exists>b. d = d \<lparr> du_bilmodid := b \<rparr>" for d :: db_user by (metis db_user.surjective db_user.update_convs(11))
  then show ?thesis by (cases st) (auto simp: bil_read_def serves_simps[OF assms] Let_def)
qed

lemmas group_accs = group_serve[where key = du_accid and tn = T_ACC] group_serve[where key = du_avpid and tn = T_AVP]
  group_serve[where key = du_avpid and tn = T_CMD] group_serve[where key = du_bilid and tn = T_BILRES]

text \<open>With a module that answers its requests with the rows of a database, a user who is found, whose password and
enable password decrypt, is returned with all rows of his groups in their order, rows of pairs without a service left out;
the loops over the rows end.\<close>

lemma user_groups:
  assumes db: "serves e db" and up: "user \<noteq> []" "\<not> db_shutdown m" "db_open m e s = (True, cid, s1)"
    and row: "db T_USR = t # ts" "usr_read md5 m user t (new_db_user \<lparr> du_connect := True \<rparr>) = Inr (strn, d)"
    and add: "\<And>u. u \<in> set (db T_ADD) \<Longrightarrow>
      \<exists>p. decrypt md5 (db_key m) (get_chars ''enable'' (get_chars ''password'' [] t) u) (c_str (du_addid d)) = Inr p"
    and cols: "\<forall>u \<in> set (db T_ACC). texts [''phone'', ''nas'', ''port'', ''time''] u"
      "\<forall>u \<in> set (db T_AVP). texts [''service'', ''protocol'', ''avp''] u"
      "\<forall>u \<in> set (db T_CMD). texts [''cmdperm'', ''cmddeny'', ''argperm'', ''argdeny''] u"
      "\<forall>u \<in> set (db T_BILRES). texts [''attribute'', ''value''] u"
  shows "\<exists>u. db_get_user md5 m e user s = Some (Inr (u, db_close e cid s1)) \<and> du_result u \<and> du_username u = user \<and>
    du_password u = du_password d \<and> du_avpid u = du_avpid d \<and>
    du_acc u = (if du_accid d = [] then [] else map acc_row (db T_ACC)) \<and>
    du_avp u = (if du_avpid d = [] then [] else filter (\<lambda>x. service x \<noteq> []) (map avp_row (db T_AVP))) \<and>
    du_cmd u = (if du_avpid d = [] then [] else map cmd_row_of (db T_CMD)) \<and>
    du_bilres u = (if du_bilid d = [] then [] else map bil_row (db T_BILRES))"
proof -
  have d: "du_acc d = []" "du_avp d = []" "du_cmd d = []" "du_bilres d = []" "du_username d = user"
    using row(2) by (auto simp: usr_read_def Let_def new_db_user_def)
  obtain n src en where a: "add_read md5 m e cid (get_chars ''password'' [] t) ((strn, d), s1) =
      Inr ((n, d \<lparr> du_authsrc := src, du_enable := en \<rparr>), s1)" using add_serve[OF db add] by blast
  let ?u = "d \<lparr> du_authsrc := src, du_enable := en \<rparr>"
  obtain x where x: "x = get_int ''maxsess'' 0 t" by simp
  note grp = group_accs[OF db]
  define u2 where "u2 = (if du_accid d = [] then (n, ?u) else fold acc_read (db T_ACC) (n, ?u))"
  have u2: "snd u2 = ?u \<lparr> du_acc := (if du_accid d = [] then [] else map acc_row (db T_ACC)) \<rparr>"
    using read_groups(1)[OF _ cols(1), of "(n, ?u)"] d by (simp add: u2_def)
  define u3 where "u3 = (if du_avpid d = [] then u2 else fold avp_read (db T_AVP) u2)"
  have u3: "snd u3 = (snd u2) \<lparr> du_avp := (if du_avpid d = [] then [] else filter (\<lambda>x. service x \<noteq> []) (map avp_row (db T_AVP))) \<rparr>"
    using read_groups(2)[OF _ cols(2), of u2] d by (simp add: u3_def u2)
  define u4 where "u4 = (if du_avpid d = [] then u3 else fold cmd_read (db T_CMD) u3)"
  have u4: "snd u4 = (snd u3) \<lparr> du_cmd := (if du_avpid d = [] then [] else map cmd_row_of (db T_CMD)) \<rparr>"
    using read_groups(3)[OF _ cols(3), of u3] d by (simp add: u4_def u3 u2)
  obtain b where b: "bil_read e cid x (u4, s1) = ((fst u4, (snd u4) \<lparr> du_bilmodid := b \<rparr>), s1)"
    using bil_serve[OF db, of cid x "(u4, s1)"] by auto
  define u5 where "u5 = (if du_bilid d = [] then (fst u4, (snd u4) \<lparr> du_bilmodid := b \<rparr>)
      else fold bilres_read (db T_BILRES) (fst u4, (snd u4) \<lparr> du_bilmodid := b \<rparr>))"
  have u5: "snd u5 = (snd u4) \<lparr> du_bilmodid := b, du_bilres := (if du_bilid d = [] then [] else map bil_row (db T_BILRES)) \<rparr>"
    using read_groups(4)[OF _ cols(4), of "(fst u4, (snd u4) \<lparr> du_bilmodid := b \<rparr>)"] d by (simp add: u5_def u4 u3 u2)
  have k: "du_avpid (snd u2) = du_avpid d" "du_avpid (snd u3) = du_avpid d" "du_bilid (snd u4) = du_bilid d"
    by (simp_all add: u2 u3 u4)
  have g: "group_of e cid T_ACC ''accid'' du_accid acc_read ((n, ?u), s1) = Some (Inr (u2, s1))"
      "group_of e cid T_AVP ''avpid'' du_avpid avp_read (u2, s1) = Some (Inr (u3, s1))"
      "group_of e cid T_CMD ''avpid'' du_avpid cmd_read (u3, s1) = Some (Inr (u4, s1))"
      "group_of e cid T_BILRES ''bilid'' du_bilid bilres_read ((fst u4, (snd u4) \<lparr> du_bilmodid := b \<rparr>), s1) = Some (Inr (u5, s1))"
    by (simp add: grp u2_def, simp add: grp k u3_def, simp add: grp k u4_def, simp add: grp k u5_def)
  have "db_get_user md5 m e user s = Some (Inr ((snd u5) \<lparr> du_result := True \<rparr>, db_close e cid s1))"
    using up row(1) by (simp add: db_get_user_def serves_simps[OF db] row(2) a g b x[symmetric])
  then show ?thesis using d by (simp add: u5 u4 u3 u2)
qed

definition plain_db :: dbmod where
  "plain_db = \<lparr> db_name = ''tac'', db_location = unknown_addr, db_port = 5432, db_key = ''none'', db_username = [],
     db_password = [], db_module = ''none.so'', db_shutdown = False \<rparr>"

definition str_row :: "string \<Rightarrow> (string \<times> string) list \<Rightarrow> dbtable" where
  "str_row n vs = fold (\<lambda>(c, v). tb_put c (VStr v)) vs (new_table n [] [])"

definition demo_db :: "string \<Rightarrow> dbtable list" where
  "demo_db n = (if n = T_USR then [str_row n [(''username'', ''bob''), (''password'', ''x''), (''avpid'', ''a''), (''accid'', ''g''), (''bilid'', []), (''addid'', [])]]
     else if n = T_AVP then [str_row n [(''service'', []), (''protocol'', ''ip''), (''avp'', ''a=b'')],
                             str_row n [(''service'', ''ppp''), (''protocol'', ''ip''), (''avp'', ''timeout=5'')]]
     else if n = T_ACC then [str_row n [(''phone'', ''.*''), (''nas'', ''.*''), (''port'', ''.*''), (''time'', [])]] else [])"

definition demo_engine :: "unit engine" where
  "demo_engine = \<lparr> en_open = (\<lambda>l p d u w s. ((1, []), s)), en_close = (\<lambda>c s. (True, s)), en_query = (\<lambda>c t s. (True, s)),
     en_function = (\<lambda>c f s. (None, s)),
     en_get = (\<lambda>c t k s. if k < length (demo_db (tb_name t)) then (True, demo_db (tb_name t) ! k, s) else (False, t, s)),
     en_create = (\<lambda>c t s. ((True, []), s)), en_create_idx = (\<lambda>c t s. ((True, []), s)), en_add = (\<lambda>c t s. (True, s)),
     en_update = (\<lambda>c t s. (True, s)), en_del = (\<lambda>c t s. (True, s)) \<rparr>"

lemma str_row_name [simp]: "tb_name (str_row n vs) = n"
proof -
  have "tb_name (fold (\<lambda>(c, v). tb_put c (VStr v)) vs t) = tb_name t" for t
    by (induction vs arbitrary: t) auto
  then show ?thesis by (simp add: str_row_def)
qed

lemma demo_serves: "serves demo_engine demo_db"
  by (simp add: serves_def demo_engine_def) (simp add: demo_db_def)

lemmas cells = tb_find_def find_put_other find_put_same new_table_def store_def new_field_def val_type_def blank_field_def

lemma user_groups_witness:
  "\<exists>u. db_get_user (\<lambda>_. []) plain_db demo_engine ''bob'' () = Some (Inr (u, ())) \<and> du_result u \<and>
     du_avp u = [\<lparr> service = ''ppp'', protocol = ''ip'', avp = ''timeout=5'' \<rparr>]"
proof -
  define t where "t = hd (demo_db T_USR)"
  have t: "t = str_row T_USR [(''username'', ''bob''), (''password'', ''x''), (''avpid'', ''a''), (''accid'', ''g''), (''bilid'', []), (''addid'', [])]"
    by (simp add: t_def demo_db_def)
  have find: "tb_find ''avpid'' T_STR t \<noteq> None" "get_string ''avpid'' [] t = ''a''"
    unfolding t str_row_def by (simp_all add: get_string_def cells)
  obtain strn d where d: "usr_read (\<lambda>_. []) plain_db ''bob'' t (new_db_user \<lparr> du_connect := True \<rparr>) = Inr (strn, d)" "du_avpid d = ''a''"
    using find by (simp add: usr_read_def decrypt_def plain_db_def Let_def)
  have rows: "demo_db T_ADD = []" "demo_db T_CMD = []" "demo_db T_BILRES = []" "demo_db T_USR = [t]"
    by (simp_all add: demo_db_def t_def T_ADD_def T_CMD_def T_BILRES_def T_USR_def T_AVP_def T_ACC_def)
  have cols: "\<forall>u \<in> set (demo_db T_ACC). texts [''phone'', ''nas'', ''port'', ''time''] u"
      "\<forall>u \<in> set (demo_db T_AVP). texts [''service'', ''protocol'', ''avp''] u"
    by (simp_all add: demo_db_def T_USR_def T_AVP_def T_ACC_def texts_def has_field_def str_row_def cells)
  have avps: "map avp_row (demo_db T_AVP) = [\<lparr> service = [], protocol = ''ip'', avp = ''a=b'' \<rparr>, \<lparr> service = ''ppp'', protocol = ''ip'', avp = ''timeout=5'' \<rparr>]"
    by (simp add: demo_db_def T_USR_def T_AVP_def avp_row_def get_string_def str_row_def cells)
  have up: "''bob'' \<noteq> ([] :: string)" "\<not> db_shutdown plain_db" "db_open plain_db demo_engine () = (True, 1, ())"
    by (simp_all add: plain_db_def db_open_def demo_engine_def)
  show ?thesis using user_groups[OF demo_serves up rows(4) d(1) _ cols] d(2) by (auto simp: rows avps)
qed

end
