(* ===== verification/TacDbEdit.thy ===== *)
theory TacDbEdit
  imports TacDb UtilsMatch
begin

text \<open>
  The commands that change and show the tables (\<^verbatim>\<open>src/TacDb.cc\<close>: \<^verbatim>\<open>add\<close>, \<^verbatim>\<open>modify\<close>, \<^verbatim>\<open>del\<close>,
  \<^verbatim>\<open>sshow\<close>, \<^verbatim>\<open>show\<close>). The switch over the types of the fields is the same in all of them but for what
  they do to passwords and to texts. Parameters: MD5, name resolution, \<^verbatim>\<open>mktime\<close> and \<^verbatim>\<open>localtime\<close>, what an
  uninitialised \<^verbatim>\<open>struct tm\<close> holds, and the module.
\<close>

section \<open>The fields of a command\<close>

record env =
  ev_md5 :: "byte list \<Rightarrow> byte list"
  ev_dns :: dns
  ev_mktime :: "tm \<Rightarrow> int"
  ev_local :: "int \<Rightarrow> tm"
  ev_junk :: tm

text \<open>\<^verbatim>\<open>for(j=0; !match(arg,name(j)) && name(j).size()>0; j++)\<close>\<close>

definition fieldno :: "string \<Rightarrow> dbtable \<Rightarrow> nat" where
  "fieldno a t = length (takeWhile (\<lambda>f. \<not> match (Some a) (Some (fd_name f)) \<and> 0 < length (fd_name f)) (tb_fields t))"

text \<open>The loop of \<^verbatim>\<open>sshow\<close> goes to the end of the table.\<close>

definition fieldno_all :: "string \<Rightarrow> dbtable \<Rightarrow> nat" where
  "fieldno_all a t = length (takeWhile (\<lambda>f. \<not> match (Some a) (Some (fd_name f))) (tb_fields t))"

definition is_pwd :: "string \<Rightarrow> bool" where
  "is_pwd a = (a = ''password'' \<or> a = ''enable'')"

definition showkey :: "string list \<Rightarrow> string" where
  "showkey vs = (case vs of [] \<Rightarrow> [] | v # _ \<Rightarrow> snprintf_s 50 v)"

definition put_value :: "(string \<Rightarrow> string cres) \<Rightarrow> (string \<Rightarrow> string) \<Rightarrow> env \<Rightarrow> nat \<Rightarrow> string \<Rightarrow> string \<Rightarrow> dbtable \<Rightarrow> dbtable cres" where
  "put_value pwd txt ev ty a v t =
     (if ty = T_BOOL then Inr (tb_put a (VBool (match (Some v) (Some ''OPen'') \<or> match (Some v) (Some ''TRue''))) t)
      else if ty = T_INT then Inr (tb_put a (VInt (of_int (atoi_c v))) t)
      else if ty = T_STR then
        (if is_pwd a then cbind (pwd (snprintf_s 100 v)) (\<lambda>p. Inr (tb_put a (VStr p) t))
         else Inr (tb_put a (VStr (txt v)) t))
      else if ty = T_DATE then cbind (iso2time (ev_mktime ev) (ev_junk ev) (Some v)) (\<lambda>d. Inr (tb_put a (VDate d) t))
      else if ty = T_IP then Inr (tb_put a (VIp (ip_fill (ev_dns ev) v)) t)
      else Inr t)"

text \<open>The pairs of a command, one after the other, with \<open>mark\<close> after each.\<close>

fun put_args :: "(string \<Rightarrow> string \<Rightarrow> dbtable \<Rightarrow> dbtable cres) \<Rightarrow> string list \<Rightarrow> string list \<Rightarrow> dbtable \<Rightarrow> dbtable cres" where
  "put_args p (a # as) (v # vs) t = cbind (p a v t) (put_args p as vs)"
| "put_args p as vs t = Inr t"

text \<open>A table that is not there is a null pointer.\<close>

definition open_table :: "string \<Rightarrow> dbtable cres" where
  "open_table n = (case dl_get n db_list of None \<Rightarrow> Inl NullDeref | Some t \<Rightarrow> Inr (tb_clear t))"

definition enc :: "env \<Rightarrow> dbmod \<Rightarrow> string list \<Rightarrow> string \<Rightarrow> string cres" where
  "enc ev m vs p = encrypt (ev_md5 ev) (db_key m) p (showkey vs)"

definition enc100 :: "env \<Rightarrow> dbmod \<Rightarrow> string list \<Rightarrow> string \<Rightarrow> string cres" where
  "enc100 ev m vs p = cbind (enc ev m vs p) (\<lambda>e. Inr (snprintf_s 100 e))"

definition add_arg :: "env \<Rightarrow> dbmod \<Rightarrow> string list \<Rightarrow> string \<Rightarrow> string \<Rightarrow> dbtable \<Rightarrow> dbtable cres" where
  "add_arg ev m vs a v t = put_value (enc100 ev m vs) toSQL ev (get_type t (fieldno a t)) a v t"

definition set_arg :: "env \<Rightarrow> dbmod \<Rightarrow> string list \<Rightarrow> string \<Rightarrow> string \<Rightarrow> dbtable \<Rightarrow> dbtable cres" where
  "set_arg ev m vs a v t = cbind (put_value (enc ev m vs) (\<lambda>x. x) ev (get_type t (fieldno a t)) a v t) (\<lambda>u. Inr (set_update a u))"

definition where_arg :: "env \<Rightarrow> dbmod \<Rightarrow> string list \<Rightarrow> string \<Rightarrow> string \<Rightarrow> dbtable \<Rightarrow> dbtable cres" where
  "where_arg ev m vs a v t =
     cbind (put_value (\<lambda>p. decrypt (ev_md5 ev) (db_key m) p (showkey vs)) (\<lambda>x. x) ev (get_type t (fieldno a t)) a v t)
       (\<lambda>u. Inr (set_request a u))"

definition del_arg :: "env \<Rightarrow> dbmod \<Rightarrow> string list \<Rightarrow> string \<Rightarrow> string \<Rightarrow> dbtable \<Rightarrow> dbtable cres" where
  "del_arg ev m vs a v t = cbind (put_value (enc100 ev m vs) (\<lambda>x. x) ev (get_type t (fieldno a t)) a v t)
     (\<lambda>u. Inr (set_request a u))"

definition sshow_arg :: "env \<Rightarrow> dbmod \<Rightarrow> string list \<Rightarrow> string \<Rightarrow> string \<Rightarrow> dbtable \<Rightarrow> dbtable cres" where
  "sshow_arg ev m vs a v t = cbind (put_value (enc100 ev m vs) (\<lambda>x. x) ev (get_type t (fieldno_all a t)) a v t)
     (\<lambda>u. Inr (set_request a u))"

definition show_arg :: "env \<Rightarrow> dbmod \<Rightarrow> string list \<Rightarrow> string \<Rightarrow> string \<Rightarrow> dbtable \<Rightarrow> dbtable cres" where
  "show_arg ev m vs a v t =
     (if \<not> match (Some a) (Some (get_name t (fieldno a t))) then Inr t
      else cbind (put_value (enc100 ev m vs) (\<lambda>x. x) ev (get_type t (fieldno a t)) a v t) (\<lambda>u. Inr (set_request a u)))"

section \<open>Changing the tables\<close>

definition said :: "string \<Rightarrow> dbmod \<Rightarrow> string \<Rightarrow> string" where
  "said msg m rest = ''% '' @ msg @ getdbid m @ rest @ [CHR 0x0A]"

definition db_add :: "env \<Rightarrow> dbmod \<Rightarrow> 's engine \<Rightarrow> string \<Rightarrow> string list \<Rightarrow> string list \<Rightarrow> 's \<Rightarrow> (string \<times> 's) cres" where
  "db_add ev m e table as vs s =
     cbind (open_table table) (\<lambda>t0. cbind (put_args (add_arg ev m vs) as vs t0) (\<lambda>t.
     case db_open m e s of (ok, cid, s1) \<Rightarrow>
       if \<not> ok then Inr (said ''Can't connect to '' m [], db_close e cid s1)
       else case en_add e cid t s1 of (r, s2) \<Rightarrow>
         Inr (said (if r then ''Entry added to '' else ''Can't add entry to '') m [], db_close e cid s2)))"

text \<open>\<^verbatim>\<open>modify\<close> sends its request even when the connection failed.\<close>

definition db_modify :: "env \<Rightarrow> dbmod \<Rightarrow> 's engine \<Rightarrow> string \<Rightarrow> string list \<Rightarrow> string list \<Rightarrow> string list \<Rightarrow> string list \<Rightarrow> 's \<Rightarrow>
    (string \<times> 's) cres" where
  "db_modify ev m e table as vs as2 vs2 s =
     cbind (open_table table) (\<lambda>t0. cbind (put_args (set_arg ev m vs) as2 vs2 t0) (\<lambda>t1.
     cbind (put_args (where_arg ev m vs) as vs t1) (\<lambda>t.
     case db_open m e s of (ok, cid, s1) \<Rightarrow> case en_update e cid t s1 of (r, s2) \<Rightarrow>
       Inr ((if \<not> ok then said ''Can't connect to '' m [] else [])
            @ (if \<not> r then said ''Can't process update request for '' m []
               else said ''Update request for '' m '' completed''), db_close e cid s2))))"

definition db_del :: "env \<Rightarrow> dbmod \<Rightarrow> 's engine \<Rightarrow> string \<Rightarrow> string list \<Rightarrow> string list \<Rightarrow> 's \<Rightarrow> (string \<times> 's) cres" where
  "db_del ev m e table as vs s =
     cbind (open_table table) (\<lambda>t0. cbind (put_args (del_arg ev m vs) as vs t0) (\<lambda>t.
     case db_open m e s of (ok, cid, s1) \<Rightarrow>
       if \<not> ok then Inr (said ''Can't connect to '' m [], db_close e cid s1)
       else case en_del e cid t s1 of (r, s2) \<Rightarrow>
         Inr (said (if r then ''Entry deleted from '' else ''Can't delete entry from '') m [], db_close e cid s2)))"

section \<open>Showing the tables\<close>

text \<open>The variables of the loop over the fields; \<open>None\<close> is an array that was not written yet.\<close>

record cell =
  cl_text :: "string option"
  cl_bool :: bool
  cl_int :: int
  cl_date :: int
  cl_ip :: ipaddr
  cl_str :: string
  cl_key :: string

definition new_cell :: "dns \<Rightarrow> cell" where
  "new_cell dns = \<lparr> cl_text = None, cl_bool = False, cl_int = 0, cl_date = 0, cl_ip = ip_default dns, cl_str = [], cl_key = [] \<rparr>"

definition fill_cell :: "env \<Rightarrow> dbmod \<Rightarrow> (string \<Rightarrow> string) \<Rightarrow> dbtable \<Rightarrow> nat \<Rightarrow> cell \<Rightarrow> cell cres" where
  "fill_cell ev m shorten t i c =
     (let n = get_name t i; ty = get_type t i
      in if ty = T_BOOL then (let b = get_bool n (cl_bool c) t
           in Inr (c \<lparr> cl_bool := b, cl_text := Some (if b then ''open'' else ''close'') \<rparr>))
         else if ty = T_INT then (let x = get_int n (cl_int c) t in Inr (c \<lparr> cl_int := x, cl_text := Some (dec_int x) \<rparr>))
         else if ty = T_STR then
           (let v = get_string n (cl_str c) t; key = (if i = 0 then v else cl_key c); c' = c \<lparr> cl_str := v, cl_key := key \<rparr>
            in if is_pwd n then cbind (decrypt (ev_md5 ev) (db_key m) (shorten (c_str v)) (shorten (c_str key)))
                 (\<lambda>p. Inr (c' \<lparr> cl_text := Some (snprintf_s 100 p) \<rparr>))
               else Inr (c' \<lparr> cl_text := Some (snprintf_s 100 v) \<rparr>))
         else if ty = T_DATE then (let d = get_date n (cl_date c) t
           in Inr (c \<lparr> cl_date := d, cl_text := Some (snprintf_s 100 (time2iso (ev_local ev) d)) \<rparr>))
         else if ty = T_IP then (let a = get_ip n (cl_ip c) t
           in Inr (c \<lparr> cl_ip := a, cl_text := Some (snprintf_s 100 (ip_get a)) \<rparr>))
         else Inr c)"

fun sshow_cells :: "env \<Rightarrow> dbmod \<Rightarrow> dbtable \<Rightarrow> nat list \<Rightarrow> cell \<Rightarrow> string list cres" where
  "sshow_cells ev m t [] c = Inr []"
| "sshow_cells ev m t (i # is) c = cbind (fill_cell ev m (\<lambda>x. x) t i c) (\<lambda>c'.
     case cl_text c' of None \<Rightarrow> Inl Indeterminate | Some x \<Rightarrow>
       cbind (sshow_cells ev m t is c') (\<lambda>r. Inr (x # r)))"

definition db_sshow :: "env \<Rightarrow> dbmod \<Rightarrow> 's engine \<Rightarrow> string \<Rightarrow> string list \<Rightarrow> string list \<Rightarrow> 's \<Rightarrow> (string list \<times> 's) cres" where
  "db_sshow ev m e table as vs s =
     cbind (open_table table) (\<lambda>t0. cbind (put_args (sshow_arg ev m vs) as vs t0) (\<lambda>t.
     case db_open m e s of (ok, cid, s1) \<Rightarrow>
       if \<not> ok then Inr ([''% cant connect to '' @ getdbid m], db_close e cid s1)
       else case en_query e cid t s1 of (q, s2) \<Rightarrow>
         if \<not> q then Inr ([''% cant send request to '' @ getdbid m], db_close e cid s2)
         else case en_get e cid t 0 s2 of (g, t1, s3) \<Rightarrow>
           if \<not> g then Inr ([''% cant get data from '' @ getdbid m], db_close e cid s3)
           else cbind (sshow_cells ev m t1 [0..<length (tb_fields t1)] (new_cell (ev_dns ev))) (\<lambda>r.
                  Inr (r, db_close e cid s3))))"

fun show_cells :: "env \<Rightarrow> dbmod \<Rightarrow> dbtable \<Rightarrow> nat list \<Rightarrow> string \<times> cell \<Rightarrow> (string \<times> cell) cres" where
  "show_cells ev m t [] x = Inr (fst x @ [CHR 0x0A], snd x)"
| "show_cells ev m t (i # is) x = cbind (fill_cell ev m (snprintf_s 99) t i ((snd x) \<lparr> cl_text := Some [] \<rparr>)) (\<lambda>c.
     show_cells ev m t is (fst x @ the (cl_text c) @ '' | '', c))"

definition show_head :: "dbtable \<Rightarrow> string" where
  "show_head t = concat (map (\<lambda>f. '' '' @ lower (fd_name f) @ '' |'') (tb_fields t)) @ [CHR 0x0A]
     @ concat (map (\<lambda>f. replicate (length (fd_name f) + 2) CHR ''-'' @ ''+'') (tb_fields t)) @ [CHR 0x0A]"

definition db_show :: "env \<Rightarrow> dbmod \<Rightarrow> 's engine \<Rightarrow> string \<Rightarrow> string list \<Rightarrow> string list \<Rightarrow> 's \<Rightarrow> (string \<times> 's) cres option" where
  "db_show ev m e table as vs s = (case dl_get table db_list of
     None \<Rightarrow> Some (Inr ([], s))
   | Some t0 \<Rightarrow> obind (Some (put_args (show_arg ev m vs) as vs (tb_clear t0))) (\<lambda>t.
     case db_open m e s of (ok, cid, s1) \<Rightarrow>
       if \<not> ok then Some (Inr (said ''Can't connect to '' m [], db_close e cid s1))
       else case en_query e cid t s1 of (q, s2) \<Rightarrow>
         if \<not> q then Some (Inr (said ''Can't send request to '' m [], db_close e cid s2))
         else case en_get e cid t 0 s2 of (g, t1, s3) \<Rightarrow>
           if \<not> g then Some (Inr (said ''Can't get data from '' m [], db_close e cid s3))
           else obind (rows (en_get e cid) (\<lambda>u. show_cells ev m u [0..<length (tb_fields u)]) 0 t1
                         (show_head t1, new_cell (ev_dns ev)) s3) (\<lambda>(x, _, s4). Some (Inr (fst x, db_close e cid s4)))))"

section \<open>Lemmas\<close>

text \<open>The name of a column may be abbreviated, the type is taken from the column it abbreviates. But the value
goes under the name as typed: unless that is a column's full name the table sent to the module has one more column of that
name, the column meant stays empty, and a password goes there unencrypted.\<close>

lemma add_abbreviated:
  assumes "\<forall>f \<in> set (tb_fields t). fd_name f \<noteq> a" "get_type t (fieldno a t) = T_STR" "a \<noteq> ''password''" "a \<noteq> ''enable''"
  shows "add_arg ev m vs a v t = Inr (t \<lparr> tb_fields := tb_fields t @ [new_field a [] [] (VStr (toSQL v)) 0 0] \<rparr>)"
  using assms by (auto simp: add_arg_def put_value_def is_pwd_def tb_put_def tb_add_def)

lemma add_abbreviated_witness:
  "\<forall>ev m vs. add_arg ev m vs ''pass'' ''secret'' usr_table =
     Inr (usr_table \<lparr> tb_fields := tb_fields usr_table @ [new_field ''pass'' [] [] (VStr (toSQL ''secret'')) 0 0] \<rparr>)"
  by (intro allI, rule add_abbreviated)
    (simp_all add: usr_table_def new_table_def str_col_def int_col_def date_col_def tb_add_def get_type_def tb_at_def fieldno_def
      match_def tolower_c_def isupper_c_def code_def new_field_def blank_field_def store_def val_type_def)

lemma type_at: "get_type t (fieldno a t) =
   (case dropWhile (\<lambda>c. \<not> match (Some a) (Some (fst c)) \<and> 0 < length (fst c)) (col_types t) of [] \<Rightarrow> 0 | c # _ \<Rightarrow> snd c)"
proof -
  have "(if k < length fs then fd_type (fs ! k) else 0) =
      (case dropWhile (\<lambda>c. \<not> match (Some a) (Some (fst c)) \<and> 0 < length (fst c)) (map (\<lambda>f. (fd_name f, fd_type f)) fs) of
         [] \<Rightarrow> 0 | c # _ \<Rightarrow> snd c)"
    if "k = length (takeWhile (\<lambda>f. \<not> match (Some a) (Some (fd_name f)) \<and> 0 < length (fd_name f)) fs)" for k fs
    using that by (induction fs arbitrary: k) auto
  from this[OF refl, of "tb_fields t"] show ?thesis
    by (simp add: get_type_def tb_at_def fieldno_def col_types_def blank_field_def if_distrib[of fd_type] cong: if_cong)
qed

lemma col_types_flags: "col_types (set_update n t) = col_types t" "col_types (set_request n t) = col_types t"
  by (auto simp: col_types_def set_update_def set_request_def)

lemma col_types_put: "field_named n t \<noteq> None \<Longrightarrow> col_types (tb_put n v t) = col_types t"
  using field_type[of n t] by (auto simp: tb_put_def col_types_add add_col_def intro!: rev_image_eqI dest!: map_of_SomeD[OF sym])

lemma field_flags:
  "field_named n (set_update m t) = map_option (\<lambda>f. if fd_name f = m then f \<lparr> fd_update := True \<rparr> else f) (field_named n t)"
  "field_named n (set_request m t) = map_option (\<lambda>f. if fd_name f = m then f \<lparr> fd_request := True \<rparr> else f) (field_named n t)"
proof -
  have "List.find (\<lambda>f. fd_name f = n) (map g fs) = map_option g (List.find (\<lambda>f. fd_name f = n) fs)"
    if "\<And>f. fd_name (g f) = fd_name f" for g :: "dbfield \<Rightarrow> dbfield" and fs
    using that by (induction fs) auto
  then show "field_named n (set_update m t) = map_option (\<lambda>f. if fd_name f = m then f \<lparr> fd_update := True \<rparr> else f) (field_named n t)"
    "field_named n (set_request m t) = map_option (\<lambda>f. if fd_name f = m then f \<lparr> fd_request := True \<rparr> else f) (field_named n t)"
    by (simp_all add: set_update_def set_request_def)
qed

text \<open>A change of the column the rows are chosen by is lost: the value to look for is stored over the new one,
and the request writes the old value back into the rows it finds.\<close>

lemma modify_key_lost:
  assumes "field_named a t = Some f" "get_type t (fieldno a t) = T_STR" "\<not> is_pwd a"
  shows "\<exists>t'. cbind (set_arg ev m vs a new t) (where_arg ev m vs a old) = Inr t' \<and>
    field_named a t' = Some (f \<lparr> fd_str := old, fd_update := True, fd_request := True \<rparr>)"
proof -
  define t1 where "t1 = set_update a (tb_put a (VStr new) t)"
  have "set_arg ev m vs a new t = Inr t1" using assms(2,3) by (simp add: set_arg_def put_value_def t1_def)
  moreover have "get_type t1 (fieldno a t1) = T_STR"
    using assms(1,2) by (simp add: type_at t1_def col_types_flags col_types_put)
  moreover have fa: "fd_name f = a" using assms(1) by (auto simp: find_Some_iff)
  moreover have "field_named a t1 = Some (f \<lparr> fd_str := new, fd_update := True \<rparr>)"
    using assms(1) fa by (simp add: t1_def field_flags find_put_same store_def)
  ultimately show ?thesis using assms(3)
    by (simp add: where_arg_def put_value_def field_flags find_put_same store_def)
qed

lemma modify_key_lost_witness:
  "\<forall>ev m. \<exists>t'. cbind (set_arg ev m [''bob''] ''username'' ''alice'' usr_table) (where_arg ev m [''bob''] ''username'' ''bob'') = Inr t' \<and>
    map_option fd_str (field_named ''username'' t') = Some ''bob''"
proof (intro allI)
  fix ev m
  obtain f where f: "field_named ''username'' usr_table = Some f"
    by (simp add: usr_table_def new_table_def str_col_def int_col_def date_col_def tb_add_def)
  have "get_type usr_table (fieldno ''username'' usr_table) = T_STR"
    by (simp add: usr_table_def new_table_def str_col_def int_col_def date_col_def tb_add_def get_type_def tb_at_def fieldno_def
        match_def tolower_c_def isupper_c_def code_def new_field_def blank_field_def store_def val_type_def)
  from modify_key_lost[OF f this, of ev m "[''bob'']" "''alice''" "''bob''"] show
    "\<exists>t'. cbind (set_arg ev m [''bob''] ''username'' ''alice'' usr_table) (where_arg ev m [''bob''] ''username'' ''bob'') = Inr t' \<and>
      map_option fd_str (field_named ''username'' t') = Some ''bob''" by (auto simp: is_pwd_def)
qed

end
