(* ===== verification/TacDbLog.thy ===== *)
theory TacDbLog
  imports TacDb
begin

text \<open>
  What the server writes to its database as it runs (\<^verbatim>\<open>src/TacDb.cc\<close>: \<^verbatim>\<open>add_log\<close>, \<^verbatim>\<open>add_trf\<close>,
  \<^verbatim>\<open>open_nf\<close>, \<^verbatim>\<open>close_nf\<close>, \<^verbatim>\<open>add_nf\<close>): when an insert fails the table of the month (or hour) is created and the
  insert tried again. Parameters: the clock, the host name, name resolution and the module.
\<close>

section \<open>Accounting records\<close>

definition month_name :: "(int \<Rightarrow> tm) \<Rightarrow> string \<Rightarrow> int \<Rightarrow> string" where
  "month_name local base t = base @ ''_'' @ snprintf_s 99 (zpad 4 (1900 + tm_year (local t)) @ zpad 2 (tm_mon (local t) + 1))"

definition stop_time :: "log_user \<Rightarrow> int" where
  "stop_time l = lu_start_time l + uint (lu_elapsed l)"

definition log_columns :: "dbtable \<Rightarrow> dbtable" where
  "log_columns t = fold id
     [date_col ''dcheck'' ''id'' [] 0, str_col ''username'' ''user name'' [] 32 0, ip_col ''server'' ''server ip'' [] 0,
      date_col ''start_time'' ''session start time'' [] 2, date_col ''stop_time'' ''session stop time'' [] 0,
      ip_col ''nas'' ''network device'' [] 2, str_col ''port'' ''port'' [] 16 2, str_col ''service'' ''service'' [] 10 0,
      str_col ''cfrom'' ''phone'' [] 64 0, ip_col ''ip'' ''ip addr'' [] 0, str_col ''protocol'' ''protocol'' [] 10 0,
      int_col ''elapsed'' ''elapsed time'' [] 0, int_col ''bytes_in'' ''bytes in'' [] 0,
      int_col ''bytes_out'' ''bytes out'' [] 0, int_col ''disc_cause'' ''disconnect reason'' [] 0,
      int_col ''disc_cause_ext'' ''ext disconnect reason'' [] 0, int_col ''rx_speed'' ''rx speed'' [] 0,
      int_col ''tx_speed'' ''tx speed'' [] 0, int_col ''task_id'' ''task id'' [] 0,
      str_col ''h323_call_origin'' [] [] 10 0, str_col ''h323_call_type'' [] [] 15 0,
      int_col ''h323_disconnect_cause'' [] [] 0, int_col ''h323_voice_quality'' [] [] 0,
      ip_col ''h323_remote_address'' [] [] 0, date_col ''h323_connect_time'' [] [] 0,
      date_col ''h323_disconnect_time'' [] [] 0] t"

definition log_values :: "ipaddr \<Rightarrow> log_user \<Rightarrow> (string \<times> dbval) list" where
  "log_values our l =
     [(''server'', VIp our), (''start_time'', VDate (lu_start_time l)), (''stop_time'', VDate (stop_time l)),
      (''username'', VStr (lu_username l)), (''nas'', VIp (lu_nas l)), (''port'', VStr (lu_port l)),
      (''service'', VStr (lu_service l)), (''cfrom'', VStr (lu_from l)), (''ip'', VIp (lu_ip l)),
      (''protocol'', VStr (lu_protocol l)), (''elapsed'', VInt (ucast (lu_elapsed l))),
      (''bytes_in'', VInt (ucast (lu_bytes_in l))), (''bytes_out'', VInt (ucast (lu_bytes_out l))),
      (''disc_cause'', VInt (of_int (lu_disc_cause l))), (''disc_cause_ext'', VInt (of_int (lu_disc_cause_ext l))),
      (''rx_speed'', VInt (ucast (lu_rx_speed l))), (''tx_speed'', VInt (ucast (lu_tx_speed l))),
      (''task_id'', VInt (of_int (lu_task_id l))), (''h323_call_origin'', VStr (lu_h323_call_origin l)),
      (''h323_call_type'', VStr (lu_h323_call_type l)),
      (''h323_disconnect_cause'', VInt (of_int (lu_h323_disconnect_cause l))),
      (''h323_voice_quality'', VInt (of_int (lu_h323_voice_quality l))),
      (''h323_remote_address'', VIp (lu_h323_remote_address l)), (''h323_connect_time'', VDate (lu_h323_connect_time l)),
      (''h323_disconnect_time'', VDate (lu_h323_disconnect_time l))]"

definition put_values :: "(string \<times> dbval) list \<Rightarrow> dbtable \<Rightarrow> dbtable" where
  "put_values vs t = fold (\<lambda>(n, v). tb_put n v) vs t"

text \<open>Create the table and its index; the answers are not looked at.\<close>

definition make_table :: "'s engine \<Rightarrow> int \<Rightarrow> dbtable \<Rightarrow> 's \<Rightarrow> 's" where
  "make_table e cid t s = (case en_create e cid t s of ((c, msg), s1) \<Rightarrow>
     if c then snd (en_create_idx e cid t s1) else s1)"

text \<open>One pass of \<^verbatim>\<open>add_log_Again\<close>: \<open>None\<close> is the jump back.\<close>

definition log_pass :: "dbmod \<Rightarrow> 's engine \<Rightarrow> dbtable \<Rightarrow> ipaddr \<Rightarrow> log_user \<Rightarrow> bool \<Rightarrow> 's \<Rightarrow> string option \<times> 's" where
  "log_pass m e t0 our l create s =
     (let t1 = (if create then log_columns t0 else t0);
          pre = (if create then
                   (case db_open m e s of (ok, cid, s1) \<Rightarrow>
                      if \<not> ok then (False, db_close e cid s1) else (True, db_close e cid (make_table e cid t1 s1)))
                 else (True, s))
      in if \<not> fst pre then (Some ''error during LOG connect'', snd pre)
         else case db_open m e (snd pre) of (ok, cid, s2) \<Rightarrow>
           if \<not> ok then (Some ''error during LOG connect'', db_close e cid s2)
           else case en_add e cid (put_values (log_values our l) t1) s2 of (r, s3) \<Rightarrow>
             if r then (Some [], db_close e cid s3)
             else if \<not> create then (None, db_close e cid s3)
             else (Some ''error during insert LOG query'', db_close e cid s3))"

definition add_log :: "(int \<Rightarrow> tm) \<Rightarrow> dbmod \<Rightarrow> 's engine \<Rightarrow> ipaddr \<Rightarrow> log_user \<Rightarrow> 's \<Rightarrow> string \<times> 's" where
  "add_log local m e our l s =
     (if length (lu_username l) = 0 then ([], s)
      else let t = new_table (month_name local T_LOG (stop_time l)) ''LOg'' ''user logs''
           in case log_pass m e t our l False s of
                (Some r, s1) \<Rightarrow> (r, s1)
              | (None, s1) \<Rightarrow> (case log_pass m e t our l True s1 of
                    (Some r, s2) \<Rightarrow> (r, s2) | (None, s2) \<Rightarrow> ([], s2)))"

section \<open>Interface counters\<close>

definition trf_columns :: "dbtable \<Rightarrow> dbtable" where
  "trf_columns t = fold id
     [date_col ''dcheck'' ''id'' [] 0, ip_col ''device'' ''network device'' [] 1, ip_col ''server'' ''server'' [] 0,
      date_col ''servtime'' ''current server time'' [] 0, str_col ''port'' ''port'' [] 16 1,
      int_col ''bytein'' ''bytes in'' [] 0, int_col ''byteout'' ''bytes out'' [] 0] t"

text \<open>The column \<open>server\<close> gets a local variable nothing was assigned to, not the address of the host.\<close>

definition trf_values :: "dns \<Rightarrow> int \<Rightarrow> string \<Rightarrow> string \<Rightarrow> 64 word \<Rightarrow> 64 word \<Rightarrow> (string \<times> dbval) list" where
  "trf_values dns now name port bin bout =
     [(''server'', VIp (ip_default dns)), (''servtime'', VDate now), (''port'', VStr port),
      (''device'', VIp (ip_fill dns name)), (''bytein'', VInt bin), (''byteout'', VInt bout)]"

text \<open>The second pass creates the table over the connection of the first.\<close>

definition trf_pass :: "dbmod \<Rightarrow> 's engine \<Rightarrow> dbtable \<Rightarrow> (string \<times> dbval) list \<Rightarrow> bool \<Rightarrow> int \<times> 's \<Rightarrow> string option \<times> int \<times> 's" where
  "trf_pass m e t0 vs create = (\<lambda>(cid0, s).
     let t1 = (if create then trf_columns t0 else t0);
         s0 = (if create then db_close e cid0 (make_table e cid0 t1 s) else s)
     in case db_open m e s0 of (ok, cid, s1) \<Rightarrow>
       if \<not> ok then (Some ''error during TRAFFIC LOG connect'', cid, db_close e cid s1)
       else case en_add e cid (put_values vs t1) s1 of (r, s2) \<Rightarrow>
         if r then (Some [], cid, db_close e cid s2)
         else if \<not> create then (None, cid, s2)
         else (Some ''error during insert TRF query, create table and try write log again'', cid, db_close e cid s2))"

definition add_trf :: "dns \<Rightarrow> (int \<Rightarrow> tm) \<Rightarrow> dbmod \<Rightarrow> 's engine \<Rightarrow> int \<Rightarrow> string \<Rightarrow> string \<Rightarrow> 64 word \<Rightarrow> 64 word \<Rightarrow> 's \<Rightarrow>
    string \<times> 's" where
  "add_trf dns local m e now name port bin bout s =
     (let t = new_table (month_name local T_TRF now) ''TRFInt'' ''per interface traffic counters'';
          vs = trf_values dns now name port bin bout
      in case trf_pass m e t vs False (0, s) of
           (Some r, _, s1) \<Rightarrow> (r, s1)
         | (None, x) \<Rightarrow> (case trf_pass m e t vs True x of (Some r, _, s2) \<Rightarrow> (r, s2) | (None, _, s2) \<Rightarrow> ([], s2)))"

section \<open>Flows\<close>

definition hour_name :: "(int \<Rightarrow> tm) \<Rightarrow> int \<Rightarrow> string" where
  "hour_name local t = T_NF @ ''_'' @ snprintf_s 99 (zpad 4 (1900 + tm_year (local t)) @ zpad 2 (tm_mon (local t) + 1)
     @ zpad 2 (tm_mday (local t)) @ zpad 2 (tm_hour (local t)))"

definition open_nf :: "dbmod \<Rightarrow> 's engine \<Rightarrow> 's \<Rightarrow> int \<times> 's" where
  "open_nf m e s = (case db_open m e s of (ok, cid, s1) \<Rightarrow> if \<not> ok then (0, db_close e cid s1) else (cid, s1))"

definition close_nf :: "'s engine \<Rightarrow> int \<Rightarrow> 's \<Rightarrow> 's" where
  "close_nf e cid s = db_close e cid s"

definition nf_columns :: "dbtable \<Rightarrow> dbtable" where
  "nf_columns t = fold id
     [ip_col ''server'' ''server'' [] 0, ip_col ''device'' ''network device'' [] 0,
      int_col ''ifin'' ''input interface'' [] 0, ip_col ''source'' ''source address'' [] 0,
      ip_col ''destination'' ''destination address'' [] 0, date_col ''starttime'' ''flow start time'' [] 0,
      date_col ''stoptime'' ''flow stop time'' [] 0, int_col ''octets'' ''bytes'' [] 0, int_col ''packets'' ''paks'' [] 0,
      str_col ''srcuser'' ''source username'' [] 32 0, str_col ''dstuser'' ''destination username'' [] 32 0] t"

text \<open>\<^verbatim>\<open>getuser4ip\<close>: the user of the first session at the address.\<close>

definition user4ip :: "ipaddr \<Rightarrow> device list \<Rightarrow> string" where
  "user4ip a ds = (case List.find ses_present (map (\<lambda>d. case List.find (\<lambda>x. ip_eq (ses_addr x) a) (cusr d) of
       Some x \<Rightarrow> x | None \<Rightarrow> absent_session (\<lambda>_. None) 0) ds) of Some x \<Rightarrow> ses_username x | None \<Rightarrow> [])"

record flow =
  fl_device :: ipv4
  fl_source :: ipv4
  fl_dest :: ipv4
  fl_start :: int
  fl_stop :: int
  fl_octets :: "64 word"
  fl_packets :: "64 word"
  fl_ifin :: int

definition nf_values :: "dns \<Rightarrow> ipaddr \<Rightarrow> device list \<Rightarrow> flow \<Rightarrow> (string \<times> dbval) list" where
  "nf_values dns our ds f =
     (let ip = (\<lambda>a. ip_fill dns (inet_ntoa a))
      in [(''server'', VIp our), (''device'', VIp (ip (fl_device f))), (''ifin'', VInt (of_int (fl_ifin f))),
          (''source'', VIp (ip (fl_source f))), (''destination'', VIp (ip (fl_dest f))), (''starttime'', VDate (fl_start f)),
          (''stoptime'', VDate (fl_stop f)), (''octets'', VInt (fl_octets f)), (''packets'', VInt (fl_packets f)),
          (''srcuser'', VStr (user4ip (ip (fl_source f)) ds)), (''dstuser'', VStr (user4ip (ip (fl_dest f)) ds))])"

text \<open>\<^verbatim>\<open>add_nf_Again\<close>: \<open>create\<close> is a static variable and false again whenever the insert is tried, so a failed insert
always leads to another. \<open>None\<close> does not return.\<close>

partial_function (option) nf_again :: "'s engine \<Rightarrow> int \<Rightarrow> dbtable \<Rightarrow> (string \<times> dbval) list \<Rightarrow> bool \<Rightarrow> 's \<Rightarrow> (string \<times> 's) option" where
  "nf_again e cid t0 vs create s =
     (if create then nf_again e cid t0 vs False (make_table e cid (nf_columns t0) s)
      else if fst (en_add e cid (put_values vs t0) s) then Some ([], snd (en_add e cid (put_values vs t0) s))
      else nf_again e cid t0 vs True (snd (en_add e cid (put_values vs t0) s)))"

definition add_nf :: "dns \<Rightarrow> (int \<Rightarrow> tm) \<Rightarrow> 's engine \<Rightarrow> ipaddr \<Rightarrow> device list \<Rightarrow> int \<Rightarrow> flow \<Rightarrow> 's \<Rightarrow> (string \<times> 's) option" where
  "add_nf dns local e our ds cid f s =
     nf_again e cid (new_table (hour_name local (fl_stop f)) ''TRFInt'' ''netflow traffic counter'') (nf_values dns our ds f) False s"

section \<open>Lemmas\<close>

text \<open>The state after an insert that failed and the creation of the table that follows it.\<close>

definition nf_retry :: "'s engine \<Rightarrow> int \<Rightarrow> dbtable \<Rightarrow> (string \<times> dbval) list \<Rightarrow> 's \<Rightarrow> 's" where
  "nf_retry e cid t vs s = make_table e cid (nf_columns t) (snd (en_add e cid (put_values vs t) s))"

definition nf_inserts :: "'s engine \<Rightarrow> int \<Rightarrow> dbtable \<Rightarrow> (string \<times> dbval) list \<Rightarrow> nat \<Rightarrow> 's \<Rightarrow> bool" where
  "nf_inserts e cid t vs k s = fst (en_add e cid (put_values vs t) ((nf_retry e cid t vs ^^ k) s))"

lemma nf_again_step:
  "nf_again e cid t vs False s =
     (if fst (en_add e cid (put_values vs t) s) then Some ([], snd (en_add e cid (put_values vs t) s))
      else nf_again e cid t vs False (nf_retry e cid t vs s))"
  by (subst nf_again.simps) (simp add: nf_again.simps[of e cid t vs True] nf_retry_def)

lemma nf_again_returns:
  "nf_inserts e cid t vs k s \<Longrightarrow> (\<forall>j<k. \<not> nf_inserts e cid t vs j s) \<Longrightarrow>
   nf_again e cid t vs False s = Some ([], snd (en_add e cid (put_values vs t) ((nf_retry e cid t vs ^^ k) s)))"
proof (induction k arbitrary: s)
  case 0
  then show ?case by (subst nf_again_step) (simp add: nf_inserts_def)
next
  case (Suc k)
  have "\<not> nf_inserts e cid t vs 0 s" using Suc.prems(2) by simp
  moreover have "\<forall>j<k. \<not> nf_inserts e cid t vs j (nf_retry e cid t vs s)"
    using Suc.prems(2) by (auto simp: nf_inserts_def funpow_swap1)
  moreover have "nf_inserts e cid t vs k (nf_retry e cid t vs s)"
    using Suc.prems(1) by (simp add: nf_inserts_def funpow_swap1)
  ultimately show ?case using Suc.IH[of "nf_retry e cid t vs s"]
    by (subst nf_again_step) (simp add: nf_inserts_def funpow_swap1)
qed

lemma nf_again_inserts:
  "nf_again e cid t vs c s = Some r \<Longrightarrow>
   \<exists>k. nf_inserts e cid t vs k (if c then make_table e cid (nf_columns t) s else s)"
proof (erule nf_again.raw_induct[where P = "\<lambda>e cid t vs c s r.
    \<exists>k. nf_inserts e cid t vs k (if c then make_table e cid (nf_columns t) s else s)", rotated], goal_cases)
  case step: (1 rec e cid t vs c s r)
  note ih = step(1)
  show ?case
  proof (cases "c \<or> fst (en_add e cid (put_values vs t) s)")
    case True
    have "nf_inserts e cid t vs 0 s" if "\<not> c" using True that by (simp add: nf_inserts_def)
    then show ?thesis using ih[of e cid t vs False] step(2) by (cases c) fastforce+
  next
    case False
    then have "rec e cid t vs True (snd (en_add e cid (put_values vs t) s)) = Some r" using step(2) by simp
    from ih[OF this] obtain k where "nf_inserts e cid t vs k (nf_retry e cid t vs s)" by (auto simp: nf_retry_def)
    then have "nf_inserts e cid t vs (Suc k) s" by (simp add: nf_inserts_def funpow_swap1)
    then show ?thesis using False by auto
  qed
qed

text \<open>Recording a flow returns exactly when the insert succeeds in the end, with the empty text: the insert is
repeated, the table created before each try. A database that refuses the insert for another reason keeps the
caller for ever, the error text of the last lines is never returned.\<close>

lemma flow_insert_ends:
  "add_nf dns local e our ds cid f s =
     (let t = new_table (hour_name local (fl_stop f)) ''TRFInt'' ''netflow traffic counter''; vs = nf_values dns our ds f
      in if \<exists>k. nf_inserts e cid t vs k s
         then Some ([], snd (en_add e cid (put_values vs t) ((nf_retry e cid t vs ^^ (LEAST k. nf_inserts e cid t vs k s)) s)))
         else None)"
proof -
  define t where "t = new_table (hour_name local (fl_stop f)) ''TRFInt'' ''netflow traffic counter''"
  define vs where "vs = nf_values dns our ds f"
  have "nf_again e cid t vs False s = Some ([], snd (en_add e cid (put_values vs t)
      ((nf_retry e cid t vs ^^ (LEAST k. nf_inserts e cid t vs k s)) s)))" if "\<exists>k. nf_inserts e cid t vs k s"
    using that by (intro nf_again_returns) (auto intro: LeastI dest: not_less_Least)
  moreover have "nf_again e cid t vs False s = None" if "\<nexists>k. nf_inserts e cid t vs k s"
    using that nf_again_inserts[of e cid t vs False s] by (cases "nf_again e cid t vs False s") auto
  ultimately show ?thesis by (simp add: add_nf_def Let_def flip: t_def vs_def)
qed

text \<open>A field that holds a value.\<close>

definition holds :: "dbval \<Rightarrow> dbfield \<Rightarrow> bool" where
  "holds v f = (fd_type f = val_type v \<and> store v f = f)"

lemma holds_store: "fd_type f = val_type v \<Longrightarrow> holds v (store v f)"
  by (cases v) (simp_all add: holds_def store_def)

lemma holds_new: "holds v (new_field n d df v l ix)"
  by (cases v) (simp_all add: holds_def store_def new_field_def val_type_def blank_field_def)

lemma put_values_other: "n \<notin> fst ` set vs \<Longrightarrow> field_named n (put_values vs t) = field_named n t"
proof (induction vs arbitrary: t)
  case (Cons p vs)
  then show ?case by (cases p) (simp add: put_values_def find_put_other)
qed (simp add: put_values_def)

lemma put_values_holds:
  "distinct (map fst vs) \<Longrightarrow> (n, v) \<in> set vs \<Longrightarrow> (\<forall>f. field_named n t = Some f \<longrightarrow> fd_type f = val_type v) \<Longrightarrow>
   \<exists>f. field_named n (put_values vs t) = Some f \<and> holds v f"
proof (induction vs arbitrary: t)
  case (Cons p vs)
  obtain m w where p: "p = (m, w)" by (cases p)
  show ?case
  proof (cases "m = n")
    case True
    then have "n \<notin> fst ` set vs" "w = v" using Cons.prems p by (auto simp: rev_image_eqI)
    then have "field_named n (put_values (p # vs) t) = field_named n (tb_put n v t)"
      using put_values_other[of n vs "tb_put n v t"] True p by (simp add: put_values_def)
    then show ?thesis using Cons.prems(3) by (auto simp: find_put_same holds_store holds_new split: option.split)
  next
    case False
    then have "field_named n (tb_put m w t) = field_named n t" by (simp add: find_put_other)
    then show ?thesis using Cons False p by (simp add: put_values_def)
  qed
qed simp

definition log_types :: "(string \<times> nat) list" where
  "log_types = [(''server'', T_IP), (''start_time'', T_DATE), (''stop_time'', T_DATE), (''username'', T_STR),
      (''nas'', T_IP), (''port'', T_STR), (''service'', T_STR), (''cfrom'', T_STR), (''ip'', T_IP), (''protocol'', T_STR),
      (''elapsed'', T_INT), (''bytes_in'', T_INT), (''bytes_out'', T_INT), (''disc_cause'', T_INT),
      (''disc_cause_ext'', T_INT), (''rx_speed'', T_INT), (''tx_speed'', T_INT), (''task_id'', T_INT),
      (''h323_call_origin'', T_STR), (''h323_call_type'', T_STR), (''h323_disconnect_cause'', T_INT),
      (''h323_voice_quality'', T_INT), (''h323_remote_address'', T_IP), (''h323_connect_time'', T_DATE),
      (''h323_disconnect_time'', T_DATE)]"

lemma log_types: "map (\<lambda>(n, v). (n, val_type v)) (log_values our l) = log_types"
  by (simp add: log_values_def log_types_def val_type_def)

lemma log_names: "distinct (map fst (log_values our l))"
proof -
  have "map fst (log_values our l) = map fst log_types" by (simp add: log_values_def log_types_def)
  moreover have "distinct (map fst log_types)" by code_simp
  ultimately show ?thesis by simp
qed

lemma log_column_types:
  assumes "(n, v) \<in> set (log_values our l)"
  shows "map_of (col_types (log_columns (new_table nm msk descr))) n = Some (val_type v)"
proof -
  define L where "L = col_types (log_columns (new_table nm msk descr))"
  have "list_all (\<lambda>(n, ty). map_of L n = Some ty) log_types"
    unfolding L_def log_columns_def fold_simps id_apply col_types_cols by code_simp
  moreover have "(n, val_type v) \<in> set log_types" unfolding log_types[of our l, symmetric] using assms by force
  ultimately show ?thesis by (auto simp: list_all_iff L_def)
qed

text \<open>The row of an accounting record holds every value of the record under its own column, in the first insert and in
the one after the table was created, where every value has the type of its column.\<close>

lemma log_row_complete:
  assumes "(n, v) \<in> set (log_values our l)" "t = new_table nm msk descr \<or> t = log_columns (new_table nm msk descr)"
  shows "\<exists>f. field_named n (put_values (log_values our l) t) = Some f \<and> holds v f"
proof (rule put_values_holds)
  show "distinct (map fst (log_values our l))" by (rule log_names)
  show "(n, v) \<in> set (log_values our l)" by (rule assms(1))
  show "\<forall>f. field_named n t = Some f \<longrightarrow> fd_type f = val_type v"
    using assms field_type[of n t] log_column_types[of n v our l nm msk descr] by (auto simp: new_table_def)
qed

lemma log_row_complete_witness:
  "\<exists>f. field_named ''username'' (put_values (log_values unknown_addr (new_log_user (\<lambda>_. None) \<lparr> lu_username := ''bob'' \<rparr>)) (log_columns (new_table [] [] []))) = Some f \<and>
     holds (VStr ''bob'') f"
  by (rule log_row_complete[of _ _ _ _ _ "[]" "[]" "[]"]) (simp_all add: log_values_def)

end
