(* ===== verification/Pgsql.thy ===== *)
theory Pgsql
  imports DbTable UtilsTime
begin

text \<open>
  The PostgreSQL module (\<^verbatim>\<open>src/db/pgsql.cc\<close>): the list of connections and the SQL texts made of a table. The
  server is a parameter: it connects or refuses, and answers a text with rows of cells or with an error. Error texts and
  the release of results are left out; so are fields of type float, no table has one. An \<^verbatim>\<open>erase\<close> at the end
  of an empty string throws, which no caller handles: \<open>Abort\<close>.
\<close>

section \<open>Times\<close>

definition pg_time2iso :: "(int \<Rightarrow> tm) \<Rightarrow> int \<Rightarrow> string" where
  "pg_time2iso local t = (let tt = local t in
     snprintf_s 63 (zpad 4 (1900 + tm_year tt) @ ''-'' @ zpad 2 (tm_mon tt + 1) @ ''-'' @ zpad 2 (tm_mday tt) @
       '' '' @ zpad 2 (tm_hour tt) @ '':'' @ zpad 2 (tm_min tt) @ '':'' @ zpad 2 (tm_sec tt)))"

definition num_at :: "nat \<Rightarrow> nat \<Rightarrow> string \<Rightarrow> int" where
  "num_at lo hi txt = atoi_c (take (hi - lo) (drop lo txt))"

definition pg_iso2time :: "(tm \<Rightarrow> int) \<Rightarrow> string \<Rightarrow> int" where
  "pg_iso2time mktime inp =
     (let txt = snprintf_s 99 inp
      in if txt = ''NULL'' then 0
         else mktime (zero_tm \<lparr> tm_year := num_at 0 4 txt - 1900, tm_mon := num_at 5 7 txt - 1, tm_mday := num_at 8 10 txt,
                tm_hour := num_at 11 13 txt, tm_min := num_at 14 16 txt, tm_sec := num_at 17 19 txt \<rparr>))"

section \<open>Connections\<close>

definition quote :: "char" where "quote = CHR 0x27"

type_synonym answer = "string list list"

record 's server =
  sv_connect :: "string \<Rightarrow> int \<Rightarrow> string \<Rightarrow> string \<Rightarrow> string \<Rightarrow> 's \<Rightarrow> bool \<times> 's"
  sv_exec :: "string \<Rightarrow> 's \<Rightarrow> answer option \<times> 's"

record conn =
  cn_num :: nat
  cn_res :: "answer option"

record 's pg =
  pg_con :: "conn list"
  pg_srv :: 's

text \<open>The search for a free number: after a hit the iterator is set to the first connection and then moved on, so the
search goes on with the second.\<close>

function pick_num :: "nat list \<Rightarrow> nat \<Rightarrow> nat \<Rightarrow> nat" where
  "pick_num ids i n =
     (if length ids \<le> i then n else if ids ! i = n then pick_num ids 1 (Suc n) else pick_num ids (Suc i) n)"
  by pat_completeness auto
termination
proof (relation "measures [\<lambda>(ids, i, n). card {x \<in> set ids. n \<le> x}, \<lambda>(ids, i, n). length ids - i]", goal_cases)
  case (2 ids i n)
  then have "n \<in> {x \<in> set ids. n \<le> x}" by auto
  moreover have "{x \<in> set ids. Suc n \<le> x} = {x \<in> set ids. n \<le> x} - {n}" by auto
  ultimately have "card {x \<in> set ids. Suc n \<le> x} < card {x \<in> set ids. n \<le> x}" by (intro psubset_card_mono) auto
  then show ?case by simp
qed auto

declare pick_num.simps [simp del]

definition nums :: "'s pg \<Rightarrow> nat list" where
  "nums g = map cn_num (pg_con g)"

definition pg_open :: "'s server \<Rightarrow> string \<Rightarrow> int \<Rightarrow> string \<Rightarrow> string \<Rightarrow> string \<Rightarrow> 's pg \<Rightarrow> nat \<times> 's pg" where
  "pg_open sv host port dbase login pwd g =
     (let p = (if port \<le> 0 then 5432 else port); n = pick_num (nums g) 0 1
      in case sv_connect sv host p dbase login pwd (pg_srv g) of (ok, s1) \<Rightarrow>
           if \<not> ok then (0, g \<lparr> pg_srv := s1 \<rparr>)
           else case sv_exec sv (''SET DateStyle TO '' @ [quote] @ ''ISO'' @ [quote]) s1 of (r, s2) \<Rightarrow>
             if r = None then (0, g \<lparr> pg_srv := s2 \<rparr>)
             else (n, g \<lparr> pg_con := pg_con g @ [\<lparr> cn_num = n, cn_res = None \<rparr>], pg_srv := s2 \<rparr>))"

definition pg_close :: "nat \<Rightarrow> 's pg \<Rightarrow> bool \<times> 's pg" where
  "pg_close n g = (n \<in> set (nums g), g \<lparr> pg_con := del_first (\<lambda>c. cn_num c = n) (pg_con g) \<rparr>)"

definition the_conn :: "nat \<Rightarrow> 's pg \<Rightarrow> conn option" where
  "the_conn n g = List.find (\<lambda>c. cn_num c = n) (pg_con g)"

definition set_res :: "nat \<Rightarrow> answer option \<Rightarrow> 's pg \<Rightarrow> 's pg" where
  "set_res n r g = g \<lparr> pg_con := upd_first (\<lambda>c. cn_num c = n) (cn_res_update (\<lambda>_. r)) (pg_con g) \<rparr>"

text \<open>Send a text; the result is kept or cleared.\<close>

definition pg_send :: "'s server \<Rightarrow> bool \<Rightarrow> nat \<Rightarrow> string \<Rightarrow> 's pg \<Rightarrow> bool \<times> 's pg" where
  "pg_send sv keep n req g = (case sv_exec sv req (pg_srv g) of (r, s1) \<Rightarrow>
     (r \<noteq> None, set_res n (if keep then r else None) (g \<lparr> pg_srv := s1 \<rparr>)))"

section \<open>Values\<close>

text \<open>The variables the values go through keep what they held when a field is not found.\<close>

record pgvars =
  pv_bool :: bool
  pv_int :: int
  pv_date :: int
  pv_ip :: ipaddr

definition new_vars :: "dns \<Rightarrow> pgvars" where
  "new_vars dns = \<lparr> pv_bool = False, pv_int = 0, pv_date = 0, pv_ip = ip_default dns \<rparr>"

definition col_name :: "dbtable \<Rightarrow> nat \<Rightarrow> string" where
  "col_name d i = snprintf_s 99 (get_name d i)"

text \<open>Text in quotes through an array of \<open>cap\<close> bytes: the text is cut to \<open>cap - 3\<close> bytes, all of it to \<open>cap - 2\<close>.\<close>

definition in_quotes :: "nat \<Rightarrow> string \<Rightarrow> string \<Rightarrow> string" where
  "in_quotes cap s tail = snprintf_s (cap - 1) ([quote] @ take (cap - 3) s @ [quote] @ tail)"

definition int_text :: "bool \<Rightarrow> int \<Rightarrow> string" where
  "int_text uns x = (if uns then dec_nat (unat (of_int x :: 32 word)) else dec_int x)"

text \<open>A value of a \<^verbatim>\<open>WHERE\<close> or \<^verbatim>\<open>SET\<close> list.\<close>

definition cond_value :: "(int \<Rightarrow> tm) \<Rightarrow> nat \<Rightarrow> bool \<Rightarrow> dbtable \<Rightarrow> nat \<Rightarrow> pgvars \<Rightarrow> string \<times> pgvars" where
  "cond_value local cap uns d i v =
     (let n = col_name d i; ty = get_type d i
      in if ty = T_BOOL then (let b = get_bool n (pv_bool v) d in (if b then ''true'' else ''false'', v \<lparr> pv_bool := b \<rparr>))
         else if ty = T_INT then (let x = get_int n (pv_int v) d in (int_text uns x, v \<lparr> pv_int := x \<rparr>))
         else if ty = T_STR then (in_quotes cap (get_chars n [] d) [], v)
         else if ty = T_DATE then (let t = get_date n (pv_date v) d
           in (snprintf_s (cap - 1) ([quote] @ pg_time2iso local t @ [quote]), v \<lparr> pv_date := t \<rparr>))
         else if ty = T_IP then (let a = get_ip n (pv_ip v) d
           in (snprintf_s (cap - 1) ([quote] @ ip_get a @ [quote]), v \<lparr> pv_ip := a \<rparr>))
         else ([], v))"

text \<open>The conditions of the chosen fields, each with \<open>sep\<close> behind it.\<close>

fun conds :: "(int \<Rightarrow> tm) \<Rightarrow> nat \<Rightarrow> bool \<Rightarrow> (dbtable \<Rightarrow> nat \<Rightarrow> bool) \<Rightarrow> string \<Rightarrow> dbtable \<Rightarrow> nat list \<Rightarrow> pgvars \<Rightarrow> string \<times> pgvars" where
  "conds local cap uns P sep d [] v = ([], v)"
| "conds local cap uns P sep d (i # is) v =
     (if \<not> P d i then conds local cap uns P sep d is v
      else case cond_value local cap uns d i v of (x, v') \<Rightarrow> case conds local cap uns P sep d is v' of (r, v'') \<Rightarrow>
        (col_name d i @ ''='' @ x @ sep @ r, v''))"

definition where_text :: "(int \<Rightarrow> tm) \<Rightarrow> nat \<Rightarrow> bool \<Rightarrow> dbtable \<Rightarrow> pgvars \<Rightarrow> string" where
  "where_text local cap uns d v =
     (let p = fst (conds local cap uns get_request '' AND '' d [0..<length (tb_fields d)] v)
      in if 5 < length p then take (length p - 5) p else p)"

definition drop_comma :: "string \<Rightarrow> string cres" where
  "drop_comma s = (if s = [] then Inl Abort else Inr (butlast s))"

section \<open>Texts\<close>

definition select_text :: "dns \<Rightarrow> (int \<Rightarrow> tm) \<Rightarrow> dbtable \<Rightarrow> string cres" where
  "select_text dns local d =
     cbind (drop_comma (concat (map (\<lambda>i. if get_request d i then [] else get_name d i @ '','') [0..<length (tb_fields d)])))
       (\<lambda>f. let p = where_text local 100 True d (new_vars dns)
            in Inr (''SELECT '' @ f @ '' FROM '' @ tb_name d @ (if 0 < length p then '' WHERE '' @ p else [])))"

definition create_col :: "dbtable \<Rightarrow> nat \<Rightarrow> string" where
  "create_col d i =
     (let ty = get_type d i; df = get_defv d i
      in col_name d i @
         (if ty = T_BOOL then '' bool'' @ (if 0 < length df then '' DEFAULT '' @ (if hd df = CHR ''t'' then ''true'' else ''false'') else []) @ '',''
          else if ty = T_INT then '' int'' @ (if 0 < length df then '' DEFAULT '' @ df else []) @ '',''
          else if ty = T_STR then '' varchar('' @ dec_nat (getslen (col_name d i) d) @ '')''
            @ (if 0 < length df then '' DEFAULT '' @ [quote] @ df @ [quote] else []) @ '',''
          else if ty = T_DATE then '' timestamp,''
          else if ty = T_IP then '' inet,''
          else []))"

definition create_text :: "dbtable \<Rightarrow> string cres" where
  "create_text d = cbind (drop_comma (concat (map (create_col d) [0..<length (tb_fields d)])))
     (\<lambda>f. Inr (''CREATE TABLE '' @ tb_name d @ ''('' @ f @ '')''))"

definition idx_cols :: "nat \<Rightarrow> dbtable \<Rightarrow> string" where
  "idx_cols k d = concat (map (\<lambda>i. if get_idx d i = k then get_name d i @ '','' else []) [0..<length (tb_fields d)])"

definition idx_text :: "string \<Rightarrow> dbtable \<Rightarrow> string \<Rightarrow> string" where
  "idx_text kind d cols = kind @ tb_name d @ ''_idx ON '' @ tb_name d @ ''('' @ butlast cols @ '')''"

text \<open>A value of an \<^verbatim>\<open>INSERT\<close> with its comma, through an array of 80 bytes.\<close>

definition insert_value :: "dns \<Rightarrow> (int \<Rightarrow> tm) \<Rightarrow> dbtable \<Rightarrow> nat \<Rightarrow> pgvars \<Rightarrow> string \<times> pgvars" where
  "insert_value dns local d i v =
     (let n = col_name d i; ty = get_type d i
      in if ty = T_BOOL then (let b = get_bool n (pv_bool v) d in (if b then ''true,'' else ''false,'', v \<lparr> pv_bool := b \<rparr>))
         else if ty = T_INT then (let x = get_int n (pv_int v) d in (dec_int x @ '','', v \<lparr> pv_int := x \<rparr>))
         else if ty = T_STR then (in_quotes 80 (get_chars n [] d) '','', v)
         else if ty = T_DATE then (let t = get_date n (pv_date v) d
           in (if t < 100 then ''NULL,'' else snprintf_s 79 ([quote] @ pg_time2iso local t @ [quote] @ '',''), v \<lparr> pv_date := t \<rparr>))
         else if ty = T_IP then (let a = get_ip n (pv_ip v) d
           in (if ip_eq_str dns a UNKNOWN_IP then ''NULL,'' else snprintf_s 79 ([quote] @ ip_get a @ [quote] @ '',''), v \<lparr> pv_ip := a \<rparr>))
         else ([], v))"

fun insert_values :: "dns \<Rightarrow> (int \<Rightarrow> tm) \<Rightarrow> dbtable \<Rightarrow> nat list \<Rightarrow> pgvars \<Rightarrow> string" where
  "insert_values dns local d [] v = []"
| "insert_values dns local d (i # is) v =
     fst (insert_value dns local d i v) @ insert_values dns local d is (snd (insert_value dns local d i v))"

definition insert_text :: "dns \<Rightarrow> (int \<Rightarrow> tm) \<Rightarrow> dbtable \<Rightarrow> string cres" where
  "insert_text dns local d =
     (let is = [0..<length (tb_fields d)]
      in cbind (drop_comma (concat (map (\<lambda>i. snprintf_s 79 (col_name d i @ '','')) is))) (\<lambda>f.
         cbind (drop_comma (insert_values dns local d is (new_vars dns))) (\<lambda>v.
         Inr (''INSERT INTO '' @ tb_name d @ ''('' @ f @ '') VALUES ('' @ v @ '')''))))"

definition update_text :: "dns \<Rightarrow> (int \<Rightarrow> tm) \<Rightarrow> dbtable \<Rightarrow> string cres" where
  "update_text dns local d = (case conds local 90 False get_update '','' d [0..<length (tb_fields d)] (new_vars dns) of
     (sets, v) \<Rightarrow> cbind (drop_comma sets) (\<lambda>s.
       Inr (''UPDATE '' @ tb_name d @ '' SET '' @ s @ '' WHERE '' @ where_text local 90 False d v)))"

definition delete_text :: "dns \<Rightarrow> (int \<Rightarrow> tm) \<Rightarrow> dbtable \<Rightarrow> string" where
  "delete_text dns local d = ''DELETE FROM '' @ tb_name d @ '' WHERE '' @ where_text local 90 False d (new_vars dns)"

section \<open>Operations\<close>

definition with_text :: "'s server \<Rightarrow> bool \<Rightarrow> nat \<Rightarrow> string cres \<Rightarrow> 's pg \<Rightarrow> (bool \<times> 's pg) cres" where
  "with_text sv keep n req g =
     (if the_conn n g = None then Inr (False, g) else cbind req (\<lambda>r. Inr (pg_send sv keep n r g)))"

definition pg_query :: "'s server \<Rightarrow> dns \<Rightarrow> (int \<Rightarrow> tm) \<Rightarrow> nat \<Rightarrow> dbtable \<Rightarrow> 's pg \<Rightarrow> (bool \<times> 's pg) cres" where
  "pg_query sv dns local n d g = with_text sv True n (select_text dns local d) g"

definition pg_create :: "'s server \<Rightarrow> nat \<Rightarrow> dbtable \<Rightarrow> 's pg \<Rightarrow> (bool \<times> 's pg) cres" where
  "pg_create sv n d g = with_text sv False n (create_text d) g"

definition pg_create_idx :: "'s server \<Rightarrow> nat \<Rightarrow> dbtable \<Rightarrow> 's pg \<Rightarrow> bool \<times> 's pg" where
  "pg_create_idx sv n d g =
     (if the_conn n g = None then (False, g)
      else let u = idx_cols 2 d; i = idx_cols 1 d;
               r1 = (if 0 < length u then pg_send sv False n (idx_text ''CREATE UNIQUE INDEX '' d u) g else (True, g))
           in if \<not> fst r1 then r1
              else if 0 < length i then pg_send sv False n (idx_text ''CREATE INDEX '' d i) (snd r1) else (True, snd r1))"

definition pg_add :: "'s server \<Rightarrow> dns \<Rightarrow> (int \<Rightarrow> tm) \<Rightarrow> nat \<Rightarrow> dbtable \<Rightarrow> 's pg \<Rightarrow> (bool \<times> 's pg) cres" where
  "pg_add sv dns local n d g = with_text sv False n (insert_text dns local d) g"

definition pg_update :: "'s server \<Rightarrow> dns \<Rightarrow> (int \<Rightarrow> tm) \<Rightarrow> nat \<Rightarrow> dbtable \<Rightarrow> 's pg \<Rightarrow> (bool \<times> 's pg) cres" where
  "pg_update sv dns local n d g = with_text sv False n (update_text dns local d) g"

definition pg_del :: "'s server \<Rightarrow> dns \<Rightarrow> (int \<Rightarrow> tm) \<Rightarrow> nat \<Rightarrow> dbtable \<Rightarrow> 's pg \<Rightarrow> (bool \<times> 's pg) cres" where
  "pg_del sv dns local n d g = with_text sv False n (Inr (delete_text dns local d)) g"

text \<open>\<^verbatim>\<open>sdb_get\<close>: blanks at the end go, but for a blank at the very start.\<close>

definition trim_end :: "string \<Rightarrow> string" where
  "trim_end s = (case s of [] \<Rightarrow> [] | c # r \<Rightarrow> c # rev (dropWhile (\<lambda>x. x = CHR '' '') (rev r)))"

definition sdb_get :: "answer option \<Rightarrow> nat \<Rightarrow> nat \<Rightarrow> string" where
  "sdb_get res i j = (case res of None \<Rightarrow> [] | Some a \<Rightarrow>
     trim_end (snprintf_s 299 (if i < length a \<and> j < length (a ! i) then a ! i ! j else ''(null)'')))"

definition sdb_rows :: "answer option \<Rightarrow> nat" where
  "sdb_rows res = (case res of None \<Rightarrow> 0 | Some a \<Rightarrow> length a)"

definition pg_function :: "'s server \<Rightarrow> nat \<Rightarrow> string \<Rightarrow> 's pg \<Rightarrow> string option \<times> 's pg" where
  "pg_function sv n func g =
     (if the_conn n g = None then (None, g)
      else case pg_send sv True n (snprintf_s 399 (''SELECT '' @ func)) g of (ok, g1) \<Rightarrow>
        (let res = (case the_conn n g1 of None \<Rightarrow> None | Some c \<Rightarrow> cn_res c)
         in if \<not> ok \<or> sdb_rows res = 0 then (None, g1) else (Some (snprintf_s 199 (sdb_get res 0 0)), g1)))"

definition cell_value :: "dns \<Rightarrow> (tm \<Rightarrow> int) \<Rightarrow> nat \<Rightarrow> string \<Rightarrow> dbval option" where
  "cell_value dns mktime ty s =
     (if ty = T_BOOL then Some (VBool (s \<noteq> [] \<and> hd s = CHR ''t''))
      else if ty = T_INT then Some (VInt (of_int (atoi_c s)))
      else if ty = T_STR then Some (VStr s)
      else if ty = T_DATE then Some (VDate (pg_iso2time mktime s))
      else if ty = T_IP then Some (VIp (ip_fill dns s))
      else None)"

fun get_cells :: "dns \<Rightarrow> (tm \<Rightarrow> int) \<Rightarrow> answer option \<Rightarrow> nat \<Rightarrow> nat \<Rightarrow> nat list \<Rightarrow> dbtable \<Rightarrow> dbtable" where
  "get_cells dns mktime res row k [] d = d"
| "get_cells dns mktime res row k (i # is) d =
     (if get_request d i then get_cells dns mktime res row k is d
      else get_cells dns mktime res row (Suc k) is
        (case cell_value dns mktime (get_type d i) (sdb_get res row k) of None \<Rightarrow> d | Some v \<Rightarrow> tb_set (col_name d i) v d))"

definition pg_get :: "dns \<Rightarrow> (tm \<Rightarrow> int) \<Rightarrow> nat \<Rightarrow> dbtable \<Rightarrow> nat \<Rightarrow> 's pg \<Rightarrow> bool \<times> dbtable" where
  "pg_get dns mktime n d row g = (case the_conn n g of
     None \<Rightarrow> (False, d)
   | Some c \<Rightarrow> if sdb_rows (cn_res c) \<le> row then (False, d)
       else (True, get_cells dns mktime (cn_res c) row 0 [0..<length (tb_fields d)] d))"

section \<open>Lemmas\<close>

lemma pick_num_fresh:
  "(\<forall>j. 0 < j \<longrightarrow> j < i \<longrightarrow> j < length ids \<longrightarrow> ids ! j \<noteq> n) \<Longrightarrow> j < length ids \<Longrightarrow> 0 < j \<Longrightarrow> ids ! j \<noteq> pick_num ids i n"
proof (induction ids i n rule: pick_num.induct)
  case (1 ids i n)
  show ?case
  proof (cases "length ids \<le> i")
    case True
    then show ?thesis using 1(3,4,5) by (subst pick_num.simps) auto
  next
    case False
    show ?thesis
    proof (cases "ids ! i = n")
      case True
      then show ?thesis using 1(1)[OF False True] 1(4,5) False by (subst pick_num.simps) auto
    next
      case ne: False
      have "\<forall>j. 0 < j \<longrightarrow> j < Suc i \<longrightarrow> j < length ids \<longrightarrow> ids ! j \<noteq> n" using 1(3) ne by (auto simp: less_Suc_eq)
      then show ?thesis using 1(2)[OF False ne] 1(4,5) False ne by (subst pick_num.simps) auto
    qed
  qed
qed

definition open_server :: "unit server" where
  "open_server = \<lparr> sv_connect = (\<lambda>h p d l w s. (True, s)), sv_exec = (\<lambda>q s. (Some [], s)) \<rparr>"

definition op :: "unit pg \<Rightarrow> unit pg" where
  "op g = snd (pg_open open_server [] 0 [] [] [] g)"

text \<open>The number of a new connection is not that of any other connection but for the first in the list, whose number it
can have: open two, close the first, open two, and two connections are number 2. Requests of the last one are
then sent over, and its close closes, the other.\<close>

lemma connection_numbers:
  "pick_num (nums g) 0 1 \<notin> set (tl (nums g)) \<and>
   nums (op (op (snd (pg_close 1 (op (op \<lparr> pg_con = [], pg_srv = () \<rparr>)))))) = [2, 1, 2]"
proof
  show "pick_num (nums g) 0 1 \<notin> set (tl (nums g))"
    using pick_num_fresh[of 0 "nums g" 1] by (auto simp: in_set_conv_nth nth_tl)
  show "nums (op (op (snd (pg_close 1 (op (op \<lparr> pg_con = [], pg_srv = () \<rparr>)))))) = [2, 1, 2]"
    by (simp add: op_def pg_open_def nums_def open_server_def pg_close_def pick_num.simps)
qed

lemma cleared_simps [simp]: "fd_name (cleared_field f) = fd_name f" "fd_type (cleared_field f) = fd_type f"
  "fd_request (cleared_field f) = False" "fd_update (cleared_field f) = False"
  by (simp_all add: cleared_field_def)

text \<open>C37: the request for a user's row holds the name as it was given, whatever quotes it has, up to 96 bytes: a name
from a login packet is part of the SQL text. A name of 97 bytes or more is cut and its closing quote is lost.\<close>

theorem login_select:
  assumes "nul_free user"
  shows "select_text dns local (set_request ''username'' (tb_put ''username'' (VStr user) (tb_clear usr_table))) =
    Inr (''SELECT dupdate,password,dopen,dclose,avpid,accid,bilid,addid,maxsess FROM tacppd_v1_usr WHERE username='' @ [quote] @
      take 97 user @ (if length user < 97 then [quote] else []))"
proof -
  define t where "t = set_request ''username'' (tb_put ''username'' (VStr user) (tb_clear usr_table))"
  have f: "map (\<lambda>f. (fd_name f, fd_type f, fd_request f)) (tb_fields t) =
     [(''dupdate'', T_DATE, False), (''username'', T_STR, True), (''password'', T_STR, False), (''dopen'', T_DATE, False),
      (''dclose'', T_DATE, False), (''avpid'', T_STR, False), (''accid'', T_STR, False), (''bilid'', T_STR, False),
      (''addid'', T_STR, False), (''maxsess'', T_INT, False)]"
    by (simp add: t_def set_request_def tb_put_def tb_add_def tb_clear_def usr_table_def str_col_def int_col_def date_col_def
        new_table_def val_type_def)
  define L where "L = [(''dupdate'', T_DATE, False), (''username'', T_STR, True), (''password'', T_STR, False), (''dopen'', T_DATE, False),
      (''dclose'', T_DATE, False), (''avpid'', T_STR, False), (''accid'', T_STR, False), (''bilid'', T_STR, False),
      (''addid'', T_STR, False), (''maxsess'', T_INT, False)]"
  have len: "length (tb_fields t) = 10" using arg_cong[OF f, of length] by simp
  have at: "get_name t i = fst (L ! i)" "get_type t i = fst (snd (L ! i))" "get_request t i = snd (snd (L ! i))" if "i < 10" for i
  proof -
    have "L ! i = (fd_name (tb_fields t ! i), fd_type (tb_fields t ! i), fd_request (tb_fields t ! i))"
      using that arg_cong[OF f, of "\<lambda>l. l ! i"] by (simp add: len flip: L_def)
    then show "get_name t i = fst (L ! i)" "get_type t i = fst (snd (L ! i))" "get_request t i = snd (snd (L ! i))"
      using that by (simp_all add: get_name_def get_type_def get_request_def tb_at_def len)
  qed
  have ix: "[0..<10] = [0, 1, 2, 3, 4, 5, 6, 7, 8, 9 :: nat]" by (simp add: upt_rec)
  have u: "get_chars ''username'' [] t = take 300 user"
    using assms by (simp add: t_def get_chars_def tb_find_def set_request_def tb_put_def tb_add_def tb_clear_def usr_table_def
        str_col_def int_col_def date_col_def new_table_def val_type_def store_def)
  have q: "in_quotes 100 (take 300 user) [] = [quote] @ take 97 user @ (if length user < 97 then [quote] else [])"
    using assms by (simp add: in_quotes_def snprintf_s_def quote_def nul_free_take)
  have n: "tb_name t = ''tacppd_v1_usr''"
    by (simp add: t_def set_request_def tb_put_def tb_add_def tb_clear_def usr_table_def str_col_def int_col_def date_col_def new_table_def T_USR_def)
  have w: "fst (conds local 100 True get_request '' AND '' t [0..<10] v) = ''username='' @ in_quotes 100 (take 300 user) [] @ '' AND ''" for v
    unfolding ix by (simp add: at L_def u cond_value_def col_name_def snprintf_s_def)
  have wt: "where_text local 100 True t (new_vars dns) = ''username='' @ in_quotes 100 (take 300 user) []"
    unfolding where_text_def len w by (simp add: q)
  have fields: "concat (map (\<lambda>i. if get_request t i then [] else get_name t i @ '','') [0..<10]) =
      ''dupdate,password,dopen,dclose,avpid,accid,bilid,addid,maxsess,''"
    unfolding ix by (simp add: at L_def)
  show ?thesis
    unfolding t_def[symmetric] select_text_def len fields wt by (simp add: n q drop_comma_def)
qed

lemma login_select_witness:
  "select_text (\<lambda>_. None) (\<lambda>_. zero_tm) (set_request ''username'' (tb_put ''username''
      (VStr ([quote] @ '' OR '' @ [quote, quote] @ ''='' @ [quote])) (tb_clear usr_table))) =
    Inr (''SELECT dupdate,password,dopen,dclose,avpid,accid,bilid,addid,maxsess FROM tacppd_v1_usr WHERE username='' @
      [quote, quote] @ '' OR '' @ [quote, quote] @ ''='' @ [quote, quote])"
  by (subst login_select) (simp_all add: quote_def nul_free_def)

text \<open>The reference for an insert: names and values separated by commas.\<close>

fun comma_list :: "string list \<Rightarrow> string" where
  "comma_list [] = []"
| "comma_list [x] = x"
| "comma_list (x # y # xs) = x @ '','' @ comma_list (y # xs)"

definition short_text :: "dbfield \<Rightarrow> bool" where
  "short_text f = (nul_free (fd_str f) \<and> length (fd_str f) \<le> 75)"

definition plain_value :: "dns \<Rightarrow> (int \<Rightarrow> tm) \<Rightarrow> dbfield \<Rightarrow> string" where
  "plain_value dns local f =
     (if fd_type f = T_BOOL then (if fd_bool f then ''true'' else ''false'')
      else if fd_type f = T_INT then dec_int (sint (ucast (fd_int f) :: 32 word))
      else if fd_type f = T_STR then [quote] @ fd_str f @ [quote]
      else if fd_type f = T_DATE then (if fd_date f < 100 then ''NULL'' else [quote] @ pg_time2iso local (fd_date f) @ [quote])
      else if ip_eq_str dns (fd_ip f) UNKNOWN_IP then ''NULL'' else [quote] @ ip_get (fd_ip f) @ [quote])"

definition good_table :: "dbtable \<Rightarrow> bool" where
  "good_table d = (tb_fields d \<noteq> [] \<and> distinct (map fd_name (tb_fields d)) \<and> typed d \<and>
     (\<forall>f \<in> set (tb_fields d). short_text f \<and> nul_free (fd_name f) \<and> length (fd_name f) \<le> 76))"

lemma concat_commas: "xs \<noteq> [] \<Longrightarrow> concat (map (\<lambda>x. x @ '','') xs) = comma_list xs @ '',''"
  by (induction xs rule: comma_list.induct) auto

lemma find_nth: "distinct (map fd_name fs) \<Longrightarrow> i < length fs \<Longrightarrow> List.find (\<lambda>f. fd_name f = fd_name (fs ! i)) fs = Some (fs ! i)"
proof (induction fs arbitrary: i)
  case (Cons g fs)
  show ?case
  proof (cases i)
    case (Suc k)
    then have "fs ! k \<in> set fs" using Cons.prems by simp
    then have "fd_name g \<noteq> fd_name (fs ! k)" using Cons.prems by auto
    then show ?thesis using Cons Suc by simp
  qed simp
qed simp

lemma comma_short: "nul_free n \<Longrightarrow> length n \<le> 76 \<Longrightarrow> snprintf_s 79 (n @ '','') = n @ '',''"
  by (simp add: snprintf_s_def)

lemma good_find:
  assumes "good_table d" "i < length (tb_fields d)"
  shows "col_name d i = fd_name (tb_fields d ! i)" "get_type d i = fd_type (tb_fields d ! i)"
    "tb_find (fd_name (tb_fields d ! i)) ty d = (if fd_type (tb_fields d ! i) = ty then Some (tb_fields d ! i) else None)"
proof -
  have f: "tb_fields d ! i \<in> set (tb_fields d)" using assms(2) by simp
  then have "nul_free (fd_name (tb_fields d ! i))" "length (fd_name (tb_fields d ! i)) \<le> 76"
    using assms by (auto simp: good_table_def)
  then show "col_name d i = fd_name (tb_fields d ! i)" using assms(2)
    by (simp add: col_name_def get_name_def tb_at_def snprintf_s_def)
  show "get_type d i = fd_type (tb_fields d ! i)" using assms(2) by (simp add: get_type_def tb_at_def)
  show "tb_find (fd_name (tb_fields d ! i)) ty d = (if fd_type (tb_fields d ! i) = ty then Some (tb_fields d ! i) else None)"
    using find_nth[of "tb_fields d" i] assms by (simp add: tb_find_def good_table_def)
qed

lemma in_quotes_short: "nul_free s \<Longrightarrow> length s \<le> 75 \<Longrightarrow> in_quotes 80 s '','' = [quote] @ s @ [quote] @ '',''"
  by (simp add: in_quotes_def snprintf_s_def quote_def)

lemma pg_time2iso_text: "nul_free (pg_time2iso local t)" "length (pg_time2iso local t) \<le> 62"
  by (simp_all add: pg_time2iso_def Let_def del: nul_free_simps) (simp add: snprintf_s_def)

lemma ip_get_text: "nul_free (ip_get a)" "length (ip_get a) \<le> 15"
  by (simp_all add: ip_get_def length_inet_ntoa)

lemma insert_value_plain:
  assumes "good_table d" "i < length (tb_fields d)"
  shows "fst (insert_value dns local d i v) = plain_value dns local (tb_fields d ! i) @ '',''"
proof -
  define f where "f = tb_fields d ! i"
  have f: "f \<in> set (tb_fields d)" using assms(2) by (simp add: f_def)
  have ty: "fd_type f \<in> {T_BOOL, T_INT, T_STR, T_DATE, T_IP}" "nul_free (fd_str f)" "length (fd_str f) \<le> 75"
    using assms(1) f by (auto simp: good_table_def typed_def short_text_def)
  show ?thesis
    unfolding insert_value_def Let_def good_find(1,2)[OF assms] f_def[symmetric] get_bool_def get_int_def get_chars_def
      get_date_def get_ip_def good_find(3)[OF assms, folded f_def]
    using ty pg_time2iso_text[of local "fd_date f"] ip_get_text[of "fd_ip f"]
    by (auto simp: plain_value_def in_quotes_short snprintf_s_def quote_def)
qed

text \<open>When every text of a table has at most 75 bytes, the insert lists the names and the values of the columns in
order, separated by commas. From 76 bytes on the comma, from 77 on the closing quote is cut off: pairs of up to
128 bytes are allowed by the table of pairs.\<close>

lemma insert_equals_list:
  assumes "good_table d"
  shows "insert_text dns local d = Inr (''INSERT INTO '' @ tb_name d @ ''('' @ comma_list (map fd_name (tb_fields d)) @ '') VALUES ('' @
    comma_list (map (plain_value dns local) (tb_fields d)) @ '')'')"
proof -
  let ?n = "length (tb_fields d)"
  have names: "map (\<lambda>i. snprintf_s 79 (col_name d i @ '','')) [0..<?n] = map (\<lambda>f. fd_name f @ '','') (tb_fields d)"
  proof (rule nth_equalityI)
    fix i assume "i < length (map (\<lambda>i. snprintf_s 79 (col_name d i @ '','')) [0..<?n])"
    then have i: "i < ?n" by simp
    then have "nul_free (fd_name (tb_fields d ! i))" "length (fd_name (tb_fields d ! i)) \<le> 76"
      using assms by (auto simp: good_table_def)
    then show "map (\<lambda>i. snprintf_s 79 (col_name d i @ '','')) [0..<?n] ! i = map (\<lambda>f. fd_name f @ '','') (tb_fields d) ! i"
      using i by (simp add: good_find(1)[OF assms i] comma_short)
  qed simp
  have "insert_values dns local d is v = concat (map (\<lambda>i. plain_value dns local (tb_fields d ! i) @ '','') is)"
    if "\<forall>i \<in> set is. i < ?n" for "is" v
    using that by (induction "is" arbitrary: v) (auto simp: insert_value_plain[OF assms])
  then have vals: "insert_values dns local d [0..<?n] v = concat (map (\<lambda>i. plain_value dns local (tb_fields d ! i) @ '','') [0..<?n])" for v
    by simp
  have list: "map (\<lambda>i. plain_value dns local (tb_fields d ! i) @ '','') [0..<?n] =
      map (\<lambda>x. x @ '','') (map (plain_value dns local) (tb_fields d))"
    by (rule nth_equalityI) auto
  have ne: "tb_fields d \<noteq> []" using assms by (simp add: good_table_def)
  have c: "concat (map (\<lambda>f. fd_name f @ '','') (tb_fields d)) = comma_list (map fd_name (tb_fields d)) @ '',''"
      "concat (map (\<lambda>x. x @ '','') (map (plain_value dns local) (tb_fields d))) =
        comma_list (map (plain_value dns local) (tb_fields d)) @ '',''"
    using ne concat_commas[of "map fd_name (tb_fields d)"] concat_commas[of "map (plain_value dns local) (tb_fields d)"]
    by (simp_all add: comp_def)
  show ?thesis unfolding insert_text_def Let_def names vals list c by (simp add: drop_comma_def)
qed

lemma insert_equals_list_witness:
  "insert_text (\<lambda>_. None) (\<lambda>_. zero_tm) (new_table ''t'' [] [] \<lparr> tb_fields := [new_field ''a'' [] [] (VStr ''x'') 5 0, new_field ''n'' [] [] (VInt 3) 0 0] \<rparr>) =
    Inr (''INSERT INTO t(a,n) VALUES ('' @ [quote] @ ''x'' @ [quote] @ '',3)'')"
proof -
  have "dec_int 3 = ''3''" by code_simp
  then show ?thesis
    by (subst insert_equals_list)
      (simp_all add: good_table_def typed_def short_text_def new_field_def blank_field_def store_def val_type_def new_table_def plain_value_def)
qed

end
