(* ===== verification/Tiep.thy ===== *)
theory Tiep
  imports TacDb
begin

text \<open>
  The packets tacppd servers of a bundle exchange (\<^verbatim>\<open>src/Tiep.h\<close>, \<^verbatim>\<open>src/Tiep.cc\<close>) on a little-endian host: the
  header is four 16 bit numbers in network order, each in four bytes; entries are copied as they are in memory.
  Parameters: MD5, the random keys of the packets, and what memory held before texts were written into it.
  Sockets are left out: sending yields the packets.
\<close>

section \<open>Headers\<close>

definition TIP_DT_PACKET :: nat where "TIP_DT_PACKET = 1"
definition TIP_UT_PACKET :: nat where "TIP_UT_PACKET = 2"
definition TIP_KA_PACKET :: nat where "TIP_KA_PACKET = 3"
definition TIP_START_PACKET :: nat where "TIP_START_PACKET = 4"
definition TIP_MAX_ENT :: nat where "TIP_MAX_ENT = 7"

definition net16 :: "int \<Rightarrow> byte list" where
  "net16 x = [word_of_int (x div 256), word_of_int x, 0, 0]"

definition createhdr :: "int \<Rightarrow> int \<Rightarrow> int \<Rightarrow> int \<Rightarrow> byte list" where
  "createhdr ty num pri vk = net16 ty @ net16 vk @ net16 num @ net16 pri"

definition hdr_at :: "nat \<Rightarrow> byte list \<Rightarrow> nat" where
  "hdr_at k buf = unat (buf ! (4 * k)) * 256 + unat (buf ! (4 * k + 1))"

definition packet_type :: "byte list \<Rightarrow> nat" where "packet_type buf = hdr_at 0 buf"
definition packet_varkey :: "byte list \<Rightarrow> nat" where "packet_varkey buf = hdr_at 1 buf"
definition packet_num :: "byte list \<Rightarrow> nat" where "packet_num buf = hdr_at 2 buf"
definition packet_pri :: "byte list \<Rightarrow> nat" where "packet_pri buf = hdr_at 3 buf"

section \<open>Encryption\<close>

definition tip_hash :: "(byte list \<Rightarrow> byte list) \<Rightarrow> string \<Rightarrow> nat \<Rightarrow> byte list" where
  "tip_hash md5 key vk = md5_final md5 (to_bytes (key @ snprintf_s 15 (dec_nat vk)))"

definition tip_crypt :: "(byte list \<Rightarrow> byte list) \<Rightarrow> nat \<Rightarrow> string \<Rightarrow> byte list \<Rightarrow> byte list" where
  "tip_crypt md5 vk key b = (if scomp (Some key) (Some ''none'') then b else xor_repeat (tip_hash md5 key vk) b)"

section \<open>Entries\<close>

definition le32 :: "32 word \<Rightarrow> byte list" where
  "le32 w = rev (be32 w)"

definition of_le32 :: "byte list \<Rightarrow> 32 word" where
  "of_le32 bs = of_be32 (rev bs)"

record dt_entry =
  dt_device :: ipv4
  dt_status :: "32 word"
  dt_check :: "32 word"

definition dt_bytes :: "dt_entry \<Rightarrow> byte list" where
  "dt_bytes e = be32 (dt_device e) @ le32 (dt_status e) @ le32 (dt_check e)"

definition dt_of :: "byte list \<Rightarrow> dt_entry" where
  "dt_of b = \<lparr> dt_device = of_be32 (take 4 b), dt_status = of_le32 (take 4 (drop 4 b)), dt_check = of_le32 (take 4 (drop 8 b)) \<rparr>"

text \<open>The texts are arrays of 32 bytes.\<close>

record ut_entry =
  ut_username :: "byte list"
  ut_device :: ipv4
  ut_userip :: ipv4
  ut_check :: "32 word"
  ut_port :: "byte list"
  ut_phone :: "byte list"
  ut_status :: "32 word"

definition ut_bytes :: "ut_entry \<Rightarrow> byte list" where
  "ut_bytes e = ut_username e @ be32 (ut_device e) @ be32 (ut_userip e) @ le32 (ut_check e) @ ut_port e @ ut_phone e @ le32 (ut_status e)"

definition ut_of :: "byte list \<Rightarrow> ut_entry" where
  "ut_of b = \<lparr> ut_username = take 32 b, ut_device = of_be32 (take 4 (drop 32 b)), ut_userip = of_be32 (take 4 (drop 36 b)),
     ut_check = of_le32 (take 4 (drop 40 b)), ut_port = take 32 (drop 44 b), ut_phone = take 32 (drop 76 b),
     ut_status = of_le32 (take 4 (drop 108 b)) \<rparr>"

definition packetlen_dt :: "nat \<Rightarrow> nat" where "packetlen_dt n = 16 + n * 12"
definition packetlen_ut :: "nat \<Rightarrow> nat" where "packetlen_ut n = 16 + n * 112"

text \<open>Entry \<open>n\<close>, or the one after the last when \<open>n\<close> is larger. The buffer is not asked for its size.\<close>

definition read_dt :: "(byte list \<Rightarrow> byte list) \<Rightarrow> byte list \<Rightarrow> nat \<Rightarrow> string \<Rightarrow> dt_entry option cres" where
  "read_dt md5 buf n key =
     (let num = packet_num buf; vk = packet_varkey buf; p = packetlen_dt (min n num)
      in if num = 0 then Inr None
         else if length buf < p + 12 then Inl OutOfBounds
         else let e = dt_of (tip_crypt md5 vk key (take 12 (drop p buf)))
              in Inr (if sint (dt_check e) \<noteq> int vk then None else Some e))"

definition read_ut :: "(byte list \<Rightarrow> byte list) \<Rightarrow> byte list \<Rightarrow> nat \<Rightarrow> string \<Rightarrow> ut_entry option cres" where
  "read_ut md5 buf n key =
     (let num = packet_num buf; vk = packet_varkey buf; p = packetlen_ut (min n num)
      in if num < n then Inr None
         else if num = 0 then Inr None
         else if length buf < p + 112 then Inl OutOfBounds
         else let e = ut_of (tip_crypt md5 vk key (take 112 (drop p buf)))
              in Inr (if sint (ut_check e) \<noteq> int vk then None else Some e))"

section \<open>Sending\<close>

definition add_dt :: "ipaddr \<Rightarrow> bool \<Rightarrow> dt_entry list \<Rightarrow> dt_entry list" where
  "add_dt ip s dts = dts @ [\<lparr> dt_device = inet_addr (ip_get ip), dt_status = (if s then 1 else 0), dt_check = 0 \<rparr>]"

text \<open>A text of at most 30 bytes written into an array; behind its terminator is what was there before. A new entry
is made in memory that holds \<open>m\<close>.\<close>

definition arr32 :: "byte list \<Rightarrow> string \<Rightarrow> byte list" where
  "arr32 old s = (let t = to_bytes (snprintf_s 31 s) in t @ [0] @ drop (Suc (length t)) old)"

definition add_ut :: "ut_entry \<Rightarrow> string \<Rightarrow> ipaddr \<Rightarrow> ipaddr \<Rightarrow> string \<Rightarrow> string \<Rightarrow> bool \<Rightarrow> ut_entry list \<Rightarrow> ut_entry list" where
  "add_ut m u di ui p t s uts = uts @ [\<lparr> ut_username = arr32 (ut_username m) u, ut_device = inet_addr (ip_get di),
     ut_userip = inet_addr (ip_get ui), ut_check = 0, ut_port = arr32 (ut_port m) p, ut_phone = arr32 (ut_phone m) t,
     ut_status = (if s then 1 else 0) \<rparr>]"

text \<open>Users are copied through one local entry: behind the terminators stay the texts of the users before.\<close>

definition ut_copy :: "ut_entry \<Rightarrow> ut_entry \<Rightarrow> ut_entry" where
  "ut_copy old e = e \<lparr> ut_username := arr32 (ut_username old) (of_bytes (ut_username e)),
     ut_port := arr32 (ut_port old) (of_bytes (ut_port e)), ut_phone := arr32 (ut_phone old) (of_bytes (ut_phone e)) \<rparr>"

fun ut_copies :: "ut_entry \<Rightarrow> ut_entry list \<Rightarrow> ut_entry list" where
  "ut_copies old [] = []"
| "ut_copies old (e # es) = ut_copy old e # ut_copies (ut_copy old e) es"

text \<open>The packets: at most seven entries in each, packet \<open>i\<close> under the random key \<open>vks i\<close>.\<close>

function dt_packets :: "(byte list \<Rightarrow> byte list) \<Rightarrow> string \<Rightarrow> int \<Rightarrow> (nat \<Rightarrow> nat) \<Rightarrow> dt_entry list \<Rightarrow> byte list list" where
  "dt_packets md5 key pri vks es =
     (if es = [] then []
      else let vk = vks 0; k = min TIP_MAX_ENT (length es)
           in (createhdr (int TIP_DT_PACKET) (int k) pri (int vk)
               @ concat (map (\<lambda>e. tip_crypt md5 vk key (dt_bytes (e \<lparr> dt_check := of_nat vk \<rparr>))) (take k es)))
              # dt_packets md5 key pri (\<lambda>i. vks (Suc i)) (drop k es))"
  by pat_completeness auto
termination by (relation "measure (\<lambda>(md5, key, pri, vks, es). length es)") (auto simp: TIP_MAX_ENT_def)

declare dt_packets.simps [simp del]

function ut_packets :: "(byte list \<Rightarrow> byte list) \<Rightarrow> string \<Rightarrow> int \<Rightarrow> (nat \<Rightarrow> nat) \<Rightarrow> ut_entry list \<Rightarrow> byte list list" where
  "ut_packets md5 key pri vks es =
     (if es = [] then []
      else let vk = vks 0; k = min TIP_MAX_ENT (length es)
           in (createhdr (int TIP_UT_PACKET) (int k) pri (int vk)
               @ concat (map (\<lambda>e. tip_crypt md5 vk key (ut_bytes (e \<lparr> ut_check := of_nat vk \<rparr>))) (take k es)))
              # ut_packets md5 key pri (\<lambda>i. vks (Suc i)) (drop k es))"
  by pat_completeness auto
termination by (relation "measure (\<lambda>(md5, key, pri, vks, es). length es)") (auto simp: TIP_MAX_ENT_def)

declare ut_packets.simps [simp del]

definition send_dt :: "(byte list \<Rightarrow> byte list) \<Rightarrow> bool \<Rightarrow> string \<Rightarrow> int \<Rightarrow> (nat \<Rightarrow> nat) \<Rightarrow> dt_entry list \<Rightarrow> byte list list" where
  "send_dt md5 bundle key pri vks es = (if bundle then dt_packets md5 (snprintf_s 31 key) pri vks es else [])"

definition send_ut :: "(byte list \<Rightarrow> byte list) \<Rightarrow> ut_entry \<Rightarrow> bool \<Rightarrow> string \<Rightarrow> int \<Rightarrow> (nat \<Rightarrow> nat) \<Rightarrow> ut_entry list \<Rightarrow> byte list list" where
  "send_ut md5 m bundle key pri vks es =
     (if bundle then ut_packets md5 (snprintf_s 31 key) pri vks (ut_copies m es) else [])"

definition send_ka :: "int \<Rightarrow> nat \<Rightarrow> byte list" where
  "send_ka pri vk = createhdr (int TIP_KA_PACKET) 0 pri (int vk)"

definition send_start :: "int \<Rightarrow> nat \<Rightarrow> byte list" where
  "send_start pri vk = createhdr (int TIP_START_PACKET) 0 pri (int vk)"

section \<open>Lemmas\<close>

lemma length_tip_hash [simp]: "length (tip_hash md5 key vk) = 16"
  by (simp add: tip_hash_def)

definition tip_pad :: "(byte list \<Rightarrow> byte list) \<Rightarrow> string \<Rightarrow> nat \<Rightarrow> nat \<Rightarrow> byte list" where
  "tip_pad md5 key vk n = (if scomp (Some key) (Some ''none'') then replicate n 0 else hash_pad (tip_hash md5 key vk) n)"

lemma map2_xor_zero: "map2 (XOR) d (replicate (length d) 0) = d" for d :: "byte list"
  by (induction d) auto

text \<open>The cipher of the bundle is a third instance of the contract.\<close>

interpretation tip: xor_cipher "\<lambda>vk. tip_crypt md5 vk key" "tip_pad md5 key" for md5 key
  by unfold_locales (simp_all add: tip_crypt_def tip_pad_def xor_repeat_pad length_hash_pad map2_xor_zero)

lemma length_le32 [simp]: "length (le32 w) = 4"
  by (simp add: le32_def)

lemma of_le32_le32 [simp]: "of_le32 (le32 w) = w"
  by (simp add: of_le32_def le32_def)

lemma length_dt_bytes [simp]: "length (dt_bytes e) = 12"
  by (simp add: dt_bytes_def)

lemma dt_of_bytes [simp]: "dt_of (dt_bytes e) = e"
  by (simp add: dt_of_def dt_bytes_def)

definition ut_wf :: "ut_entry \<Rightarrow> bool" where
  "ut_wf e = (length (ut_username e) = 32 \<and> length (ut_port e) = 32 \<and> length (ut_phone e) = 32)"

lemma length_ut_bytes: "ut_wf e \<Longrightarrow> length (ut_bytes e) = 112"
  by (simp add: ut_bytes_def ut_wf_def)

lemma ut_of_bytes: "ut_wf e \<Longrightarrow> ut_of (ut_bytes e) = e"
  by (simp add: ut_of_def ut_bytes_def ut_wf_def)

lemma length_arr32: "length old = 32 \<Longrightarrow> length (arr32 old s) = 32"
  using snprintf_s_length[of 31 s] by (simp add: arr32_def Let_def)

lemma ut_copy_wf: "ut_wf old \<Longrightarrow> ut_wf (ut_copy old e)"
  by (simp add: ut_wf_def ut_copy_def length_arr32)

lemma ut_copies_wf: "ut_wf old \<Longrightarrow> \<forall>e \<in> set (ut_copies old es). ut_wf e"
proof (induction old es rule: ut_copies.induct)
  case (2 old e es)
  then show ?case using ut_copy_wf[OF 2(2), of e] by simp
qed simp

lemma createhdr_fields:
  assumes "vk < 65536" "num < 65536"
  shows "packet_varkey (createhdr ty (int num) pri (int vk) @ rest) = vk"
    and "packet_num (createhdr ty (int num) pri (int vk) @ rest) = num"
proof -
  have w: "unat (word_of_int (int n div 256) :: byte) * 256 + unat (word_of_int (int n) :: byte) = n" if "n < 65536" for n
  proof -
    have a: "unat (word_of_int (int n) :: byte) = n mod 256"
      by (simp add: unsigned_of_nat take_bit_eq_mod)
    have b: "unat (word_of_int (int n div 256) :: byte) = n div 256"
    proof -
      have "int n div 256 = int (n div 256)" by (simp add: zdiv_int)
      then show ?thesis using that by (simp add: unsigned_of_nat take_bit_eq_mod)
    qed
    show ?thesis unfolding a b by simp
  qed
  show "packet_varkey (createhdr ty (int num) pri (int vk) @ rest) = vk"
    using w[OF assms(1)] by (simp add: packet_varkey_def hdr_at_def createhdr_def net16_def eval_nat_numeral)
  show "packet_num (createhdr ty (int num) pri (int vk) @ rest) = num"
    using w[OF assms(2)] by (simp add: packet_num_def hdr_at_def createhdr_def net16_def eval_nat_numeral)
qed

lemma length_createhdr [simp]: "length (createhdr ty num pri vk) = 16"
  by (simp add: createhdr_def net16_def)

lemma sint_of_nat_small: "n < 65536 \<Longrightarrow> sint (of_nat n :: 32 word) = int n"
  by (simp add: signed_of_nat signed_take_bit_int_eq_self_iff)
text \<open>The four bytes of the hash that decide whether an entry is taken: both kinds of entries have their check number
eight bytes into a block.\<close>

definition check_pad :: "(byte list \<Rightarrow> byte list) \<Rightarrow> string \<Rightarrow> nat \<Rightarrow> byte list" where
  "check_pad md5 key vk =
     (if scomp (Some key) (Some ''none'') then [0, 0, 0, 0] else take 4 (drop 8 (tip_hash md5 key vk)))"

lemma length_check_pad [simp]: "length (check_pad md5 key vk) = 4"
  by (simp add: check_pad_def)

lemma check_pad_16: "check_pad md5 key vk = take 4 (drop 8 (tip_pad md5 key vk 16))"
  by (simp add: check_pad_def tip_pad_def hash_pad.simps eval_nat_numeral)

lemma be32_of_be32: "length bs = 4 \<Longrightarrow> be32 (of_be32 bs) = bs"
proof -
  assume "length bs = 4"
  then have "\<exists>a b c d. bs = [a, b, c, d]" by (auto simp: eval_nat_numeral length_Suc_conv)
  then obtain a b c d where bs: "bs = [a, b, c, d]" by blast
  show ?thesis unfolding bs
    by (auto simp: be32_def of_be32_def bit_eq_iff bit_simps dest: bit_imp_le_length)
qed

lemma le32_of_le32: "length bs = 4 \<Longrightarrow> le32 (of_le32 bs) = bs"
  by (simp add: le32_def of_le32_def be32_of_be32)

lemma of_le32_inj: "length bs = 4 \<Longrightarrow> (of_le32 bs = w) = (bs = le32 w)"
  by (metis le32_of_le32 of_le32_le32)

lemma map2_xor_twice:
  assumes "length d = n" "length p = n" "length q = n"
  shows "(map2 (XOR) (map2 (XOR) d p) q = d) = (p = (q :: byte list))"
proof -
  have "(x XOR y) XOR z = x \<longleftrightarrow> y = z" for x y z :: byte
    by (auto simp: bit_eq_iff bit_simps)
  then show ?thesis using assms by (auto simp: list_eq_iff_nth_eq)
qed

lemma tip_pad_take: "m \<le> n \<Longrightarrow> take m (tip_pad md5 key vk n) = tip_pad md5 key vk m"
  by (simp add: tip_pad_def min_def hash_pad_take[symmetric])

lemma tip_pad_check_dt: "take 4 (drop 8 (tip_pad md5 key vk 12)) = check_pad md5 key vk"
proof -
  have "tip_pad md5 key vk 12 = take 12 (tip_pad md5 key vk 16)" by (simp add: tip_pad_take)
  then show ?thesis by (simp only: check_pad_16 drop_take take_take) simp
qed

lemma tip_pad_check_ut: "take 4 (drop 40 (tip_pad md5 key vk 112)) = check_pad md5 key vk"
proof (cases "scomp (Some key) (Some ''none'')")
  case True
  then show ?thesis by (simp add: check_pad_16 tip_pad_def)
next
  case False
  have "hash_pad (tip_hash md5 key vk) 112 = tip_hash md5 key vk @ tip_hash md5 key vk @ hash_pad (tip_hash md5 key vk) 80"
    by (subst hash_pad.simps, simp, subst hash_pad.simps, simp)
  moreover have "hash_pad (tip_hash md5 key vk) 80 = tip_hash md5 key vk @ hash_pad (tip_hash md5 key vk) 64"
    by (subst hash_pad.simps, simp)
  moreover have "hash_pad (tip_hash md5 key vk) 16 = tip_hash md5 key vk"
    by (simp add: hash_pad.simps)
  ultimately show ?thesis using False by (simp add: check_pad_16 tip_pad_def)
qed

lemma crypt_check:
  assumes d: "length d = n" "take 4 (drop k d) = le32 w" and k: "k + 4 \<le> n"
    and p: "\<And>key. take 4 (drop k (tip_pad md5 key vk n)) = check_pad md5 key vk"
  shows "(of_le32 (take 4 (drop k (tip_crypt md5 vk key' (tip_crypt md5 vk key d)))) = w) =
    (check_pad md5 key vk = check_pad md5 key' vk)"
proof -
  have "take 4 (drop k (tip_crypt md5 vk key' (tip_crypt md5 vk key d))) =
      map2 (XOR) (map2 (XOR) (le32 w) (check_pad md5 key vk)) (check_pad md5 key' vk)"
    using d by (simp add: tip.crypt_pad tip.length_pad drop_map take_map drop_zip take_zip p)
  then show ?thesis using map2_xor_twice[of "le32 w" 4] by (simp add: of_le32_inj)
qed

lemma concat_entry:
  assumes "\<forall>e \<in> set es. length (f e) = m" "i < length es"
  shows "take m (drop (i * m) (concat (map f es))) = f (es ! i)"
  using assms
proof (induction es arbitrary: i)
  case (Cons e es)
  then show ?case by (cases i) simp_all
qed simp

lemma length_concat_entries: "\<forall>e \<in> set es. length (f e) = m \<Longrightarrow> length (concat (map f es)) = length es * m"
  by (induction es) auto

definition dt_sent :: "(byte list \<Rightarrow> byte list) \<Rightarrow> string \<Rightarrow> int \<Rightarrow> nat \<Rightarrow> dt_entry list \<Rightarrow> byte list" where
  "dt_sent md5 key pri vk es = createhdr (int TIP_DT_PACKET) (int (length es)) pri (int vk)
     @ concat (map (\<lambda>e. tip_crypt md5 vk key (dt_bytes (e \<lparr> dt_check := of_nat vk \<rparr>))) es)"

definition ut_sent :: "(byte list \<Rightarrow> byte list) \<Rightarrow> string \<Rightarrow> int \<Rightarrow> nat \<Rightarrow> ut_entry list \<Rightarrow> byte list" where
  "ut_sent md5 key pri vk es = createhdr (int TIP_UT_PACKET) (int (length es)) pri (int vk)
     @ concat (map (\<lambda>e. tip_crypt md5 vk key (ut_bytes (e \<lparr> ut_check := of_nat vk \<rparr>))) es)"

lemma sint_check: "vk < 65536 \<Longrightarrow> (sint w = int vk) = (w = (of_nat vk :: 32 word))"
  by (metis sint_of_nat_small signed_word_eqI)

lemma read_dt_sent:
  assumes "vk < 65536" "length es < 65536" "i < length es"
  shows "read_dt md5 (dt_sent md5 key pri vk es) i key' =
    Inr (if check_pad md5 key vk = check_pad md5 key' vk
         then Some (dt_of (tip_crypt md5 vk key' (tip_crypt md5 vk key (dt_bytes ((es ! i) \<lparr> dt_check := of_nat vk \<rparr>)))))
         else None)"
proof -
  let ?f = "\<lambda>e. tip_crypt md5 vk key (dt_bytes (e \<lparr> dt_check := of_nat vk \<rparr>))"
  let ?d = "dt_bytes ((es ! i) \<lparr> dt_check := of_nat vk \<rparr>)"
  have e: "take 12 (drop (packetlen_dt i) (dt_sent md5 key pri vk es)) = ?f (es ! i)"
    using concat_entry[of es ?f 12 i] assms(3) by (simp add: dt_sent_def packetlen_dt_def)
  have l: "length (dt_sent md5 key pri vk es) = 16 + length es * 12"
    using length_concat_entries[of es ?f 12] by (simp add: dt_sent_def)
  have c: "(dt_check (dt_of (tip_crypt md5 vk key' (tip_crypt md5 vk key ?d))) = of_nat vk) =
      (check_pad md5 key vk = check_pad md5 key' vk)"
    using crypt_check[of ?d 12 8 "of_nat vk" md5 vk key' key] by (simp add: dt_of_def tip_pad_check_dt) (simp add: dt_bytes_def)
  have n: "packet_num (dt_sent md5 key pri vk es) = length es" "packet_varkey (dt_sent md5 key pri vk es) = vk"
    using createhdr_fields assms by (simp_all add: dt_sent_def)
  show ?thesis using assms l
    by (simp add: read_dt_def Let_def n e min_absorb1 sint_check c) (auto simp: packetlen_dt_def)
qed

lemma read_ut_sent:
  assumes "vk < 65536" "length es < 65536" "i < length es" "\<forall>e \<in> set es. ut_wf e"
  shows "read_ut md5 (ut_sent md5 key pri vk es) i key' =
    Inr (if check_pad md5 key vk = check_pad md5 key' vk
         then Some (ut_of (tip_crypt md5 vk key' (tip_crypt md5 vk key (ut_bytes ((es ! i) \<lparr> ut_check := of_nat vk \<rparr>)))))
         else None)"
proof -
  let ?f = "\<lambda>e. tip_crypt md5 vk key (ut_bytes (e \<lparr> ut_check := of_nat vk \<rparr>))"
  let ?e = "(es ! i) \<lparr> ut_check := of_nat vk \<rparr>"
  have wf: "ut_wf (e \<lparr> ut_check := of_nat vk \<rparr>) = ut_wf e" for e by (simp add: ut_wf_def)
  have ls: "\<forall>e \<in> set es. length (?f e) = 112" using assms(4) by (simp add: length_ut_bytes wf)
  have we: "ut_wf ?e" using assms(3,4) by (simp add: wf)
  have e: "take 112 (drop (packetlen_ut i) (ut_sent md5 key pri vk es)) = ?f (es ! i)"
    using concat_entry[OF ls assms(3)] by (simp add: ut_sent_def packetlen_ut_def)
  have l: "length (ut_sent md5 key pri vk es) = 16 + length es * 112"
    using length_concat_entries[OF ls] by (simp add: ut_sent_def)
  have ck: "take 4 (drop 40 (ut_bytes ?e)) = le32 (of_nat vk)" using we by (simp add: ut_bytes_def ut_wf_def)
  have c: "(ut_check (ut_of (tip_crypt md5 vk key' (tip_crypt md5 vk key (ut_bytes ?e)))) = of_nat vk) =
      (check_pad md5 key vk = check_pad md5 key' vk)"
    using crypt_check[of "ut_bytes ?e" 112 40 "of_nat vk" md5 vk key' key] ck length_ut_bytes[OF we]
    by (simp add: ut_of_def tip_pad_check_ut)
  have n: "packet_num (ut_sent md5 key pri vk es) = length es" "packet_varkey (ut_sent md5 key pri vk es) = vk"
    using createhdr_fields assms by (simp_all add: ut_sent_def)
  show ?thesis using assms l
    by (simp add: read_ut_def Let_def n e min_absorb1 sint_check c) (auto simp: packetlen_ut_def)
qed

text \<open>What is sent is a list of packets of at most seven entries.\<close>

lemma dt_packets_eq:
  "dt_packets md5 key pri vks es = (if es = [] then []
     else dt_sent md5 key pri (vks 0) (take 7 es) # dt_packets md5 key pri (\<lambda>i. vks (Suc i)) (drop 7 es))"
proof -
  have "take (min 7 (length es)) es = take 7 es" "drop (min 7 (length es)) es = drop 7 es"
    by (auto simp: min_def)
  then show ?thesis
    by (subst dt_packets.simps) (simp add: dt_sent_def TIP_MAX_ENT_def Let_def min.commute)
qed

lemma ut_packets_eq:
  "ut_packets md5 key pri vks es = (if es = [] then []
     else ut_sent md5 key pri (vks 0) (take 7 es) # ut_packets md5 key pri (\<lambda>i. vks (Suc i)) (drop 7 es))"
proof -
  have "take (min 7 (length es)) es = take 7 es" "drop (min 7 (length es)) es = drop 7 es"
    by (auto simp: min_def)
  then show ?thesis
    by (subst ut_packets.simps) (simp add: ut_sent_def TIP_MAX_ENT_def Let_def min.commute)
qed

lemma dt_packets_sent:
  "b \<in> set (dt_packets md5 key pri vks es) \<Longrightarrow> \<forall>i. vks i < 65536 \<Longrightarrow>
   \<exists>n ks. ks \<noteq> [] \<and> length ks \<le> 7 \<and> set ks \<subseteq> set es \<and> b = dt_sent md5 key pri (vks n) ks"
proof (induction "length es" arbitrary: es vks rule: less_induct)
  case less
  from less.prems(1) have es: "es \<noteq> []" by (subst (asm) dt_packets_eq) (auto split: if_splits)
  from less.prems(1) es consider "b = dt_sent md5 key pri (vks 0) (take 7 es)"
    | "b \<in> set (dt_packets md5 key pri (\<lambda>i. vks (Suc i)) (drop 7 es))"
    by (subst (asm) dt_packets_eq) auto
  then show ?case
  proof cases
    case 1
    with es show ?thesis by (intro exI[of _ 0] exI[of _ "take 7 es"]) (auto dest: in_set_takeD)
  next
    case 2
    have "length (drop 7 es) < length es" using es by simp
    from less.hyps[OF this 2] less.prems(2) obtain n ks where
      "ks \<noteq> []" "length ks \<le> 7" "set ks \<subseteq> set (drop 7 es)" "b = dt_sent md5 key pri (vks (Suc n)) ks" by auto
    then show ?thesis using set_drop_subset[of 7 es] by (intro exI[of _ "Suc n"] exI[of _ ks]) auto
  qed
qed

lemma ut_packets_sent:
  "b \<in> set (ut_packets md5 key pri vks es) \<Longrightarrow> \<forall>i. vks i < 65536 \<Longrightarrow>
   \<exists>n ks. ks \<noteq> [] \<and> length ks \<le> 7 \<and> set ks \<subseteq> set es \<and> b = ut_sent md5 key pri (vks n) ks"
proof (induction "length es" arbitrary: es vks rule: less_induct)
  case less
  from less.prems(1) have es: "es \<noteq> []" by (subst (asm) ut_packets_eq) (auto split: if_splits)
  from less.prems(1) es consider "b = ut_sent md5 key pri (vks 0) (take 7 es)"
    | "b \<in> set (ut_packets md5 key pri (\<lambda>i. vks (Suc i)) (drop 7 es))"
    by (subst (asm) ut_packets_eq) auto
  then show ?case
  proof cases
    case 1
    with es show ?thesis by (intro exI[of _ 0] exI[of _ "take 7 es"]) (auto dest: in_set_takeD)
  next
    case 2
    have "length (drop 7 es) < length es" using es by simp
    from less.hyps[OF this 2] less.prems(2) obtain n ks where
      "ks \<noteq> []" "length ks \<le> 7" "set ks \<subseteq> set (drop 7 es)" "b = ut_sent md5 key pri (vks (Suc n)) ks" by auto
    then show ?thesis using set_drop_subset[of 7 es] by (intro exI[of _ "Suc n"] exI[of _ ks]) auto
  qed
qed

section \<open>Properties\<close>

text \<open>C26: a server of the bundle with another key takes an entry exactly when four bytes of the two hashes agree: the
check number is all that tells a wrong key, the rest of such an entry is whatever the two hashes make of it.\<close>

theorem bundle_key_check:
  assumes vks: "\<forall>i. vks i < 65536" and m: "ut_wf m"
  shows "(\<forall>b \<in> set (send_dt md5 True key pri vks ds). \<forall>i < packet_num b. (read_dt md5 b i key' \<noteq> Inr None) =
        (check_pad md5 (snprintf_s 31 key) (packet_varkey b) = check_pad md5 key' (packet_varkey b))) \<and>
    (\<forall>b \<in> set (send_ut md5 m True key pri vks us). \<forall>i < packet_num b. (read_ut md5 b i key' \<noteq> Inr None) =
        (check_pad md5 (snprintf_s 31 key) (packet_varkey b) = check_pad md5 key' (packet_varkey b)))"
proof (intro conjI ballI allI impI)
  fix b i assume b: "b \<in> set (send_dt md5 True key pri vks ds)" "i < packet_num b"
  then obtain n ks where k: "length ks \<le> 7" "b = dt_sent md5 (snprintf_s 31 key) pri (vks n) ks"
    using dt_packets_sent[of b md5 "snprintf_s 31 key" pri vks ds] vks by (auto simp: send_dt_def)
  then have "packet_num b = length ks" "packet_varkey b = vks n"
    using createhdr_fields[of "vks n" "length ks"] vks by (auto simp: dt_sent_def)
  then show "(read_dt md5 b i key' \<noteq> Inr None) = (check_pad md5 (snprintf_s 31 key) (packet_varkey b) = check_pad md5 key' (packet_varkey b))"
    using b k vks by (simp add: read_dt_sent)
next
  fix b i assume b: "b \<in> set (send_ut md5 m True key pri vks us)" "i < packet_num b"
  then obtain n ks where k: "length ks \<le> 7" "set ks \<subseteq> set (ut_copies m us)" "b = ut_sent md5 (snprintf_s 31 key) pri (vks n) ks"
    using ut_packets_sent[of b md5 "snprintf_s 31 key" pri vks "ut_copies m us"] vks by (auto simp: send_ut_def)
  then have "packet_num b = length ks" "packet_varkey b = vks n" "\<forall>e \<in> set ks. ut_wf e"
    using createhdr_fields[of "vks n" "length ks"] vks ut_copies_wf[OF m, of us] by (auto simp: ut_sent_def)
  then show "(read_ut md5 b i key' \<noteq> Inr None) = (check_pad md5 (snprintf_s 31 key) (packet_varkey b) = check_pad md5 key' (packet_varkey b))"
    using b k vks by (simp add: read_ut_sent)
qed

lemma bundle_key_check_witness:
  "\<exists>(md5 :: byte list \<Rightarrow> byte list) b. check_pad md5 ''ka'' 5 = check_pad md5 ''kb'' 5 \<and> md5 (to_bytes ''ka5'') \<noteq> md5 (to_bytes ''kb5'') \<and>
     read_dt md5 b 0 ''kb'' \<noteq> Inr None \<and> b \<in> set (send_dt md5 True ''ka'' 1 (\<lambda>_. 5) [\<lparr> dt_device = 9, dt_status = 1, dt_check = 0 \<rparr>])"
proof -
  let ?md5 = "\<lambda>bs :: byte list. if bs = to_bytes ''ka5'' then replicate 16 (1 :: byte) else replicate 8 2 @ replicate 8 1"
  let ?es = "[\<lparr> dt_device = 9, dt_status = 1, dt_check = 0 \<rparr>]"
  let ?b = "dt_sent ?md5 ''ka'' 1 5 ?es"
  have b: "?b \<in> set (send_dt ?md5 True ''ka'' 1 (\<lambda>_. 5) ?es)"
    by (subst send_dt_def, subst dt_packets_eq) (simp add: snprintf_s_short)
  have f: "packet_num ?b = 1" "packet_varkey ?b = 5"
    using createhdr_fields[of 5 1] by (simp_all add: dt_sent_def)
  have c: "check_pad ?md5 ''ka'' 5 = check_pad ?md5 ''kb'' 5" by code_simp
  have d: "?md5 (to_bytes ''ka5'') \<noteq> ?md5 (to_bytes ''kb5'')" by code_simp
  have w: "ut_wf \<lparr> ut_username = replicate 32 0, ut_device = 0, ut_userip = 0, ut_check = 0, ut_port = replicate 32 0,
      ut_phone = replicate 32 0, ut_status = 0 \<rparr>" by (simp add: ut_wf_def)
  have "\<forall>b \<in> set (send_dt ?md5 True ''ka'' 1 (\<lambda>_. 5) ?es). \<forall>i < packet_num b. (read_dt ?md5 b i ''kb'' \<noteq> Inr None) =
      (check_pad ?md5 (snprintf_s 31 ''ka'') (packet_varkey b) = check_pad ?md5 ''kb'' (packet_varkey b))"
    by (rule conjunct1[OF bundle_key_check[OF _ w]]) simp
  from bspec[OF this b] have "read_dt ?md5 ?b 0 ''kb'' \<noteq> Inr None" using c f by (simp add: snprintf_s_short)
  with b c d show ?thesis by blast
qed

end
