(* ===== verification/Bundle.thy ===== *)
theory Bundle
  imports Tiep UserTrack
begin

text \<open>
  A bundle of servers that share what they know of devices and users: the servers seen
  (\<^verbatim>\<open>src/ServerTrack.cc\<close>), the configuration of the bundle and the processing of a packet of a neighbour
  (\<^verbatim>\<open>src/CoreBundle.cc\<close>). Packets to send are results; \<open>vks\<close> are their random keys, \<open>m\<close> is what memory held before.
\<close>

section \<open>Servers\<close>

record server =
  sv_ip :: ipaddr
  sv_pri :: int
  sv_time :: int

definition sv_update :: "int \<Rightarrow> int \<Rightarrow> server \<Rightarrow> server" where
  "sv_update now p s = s \<lparr> sv_time := now, sv_pri := p \<rparr>"

definition sendStart :: "dns \<Rightarrow> int \<Rightarrow> bool \<Rightarrow> int \<Rightarrow> nat \<Rightarrow> server list \<Rightarrow> server list \<times> byte list list" where
  "sendStart dns now bundle pri vk csrv =
     (csrv @ [\<lparr> sv_ip = ip_fill dns UNKNOWN_IP, sv_pri = pri, sv_time = now \<rparr>],
      if bundle then [send_start pri vk] else [])"

definition checkTtl :: "dns \<Rightarrow> int \<Rightarrow> server list \<Rightarrow> server list" where
  "checkTtl dns now csrv = filter (\<lambda>s. ip_eq (sv_ip s) (ip_default dns) \<or> ip_eq_str dns (sv_ip s) UNKNOWN_IP \<or>
     \<not> 31 < now - sv_time s) csrv"

definition track_update :: "dns \<Rightarrow> int \<Rightarrow> ipaddr \<Rightarrow> int \<Rightarrow> server list \<Rightarrow> server list" where
  "track_update dns now a p csrv =
     (if \<exists>s \<in> set csrv. ip_eq (sv_ip s) a \<or> ip_eq_str dns (sv_ip s) UNKNOWN_IP
      then upd_first (\<lambda>s. ip_eq (sv_ip s) a \<or> ip_eq_str dns (sv_ip s) UNKNOWN_IP) (sv_update now p) csrv
      else csrv @ [\<lparr> sv_ip = a, sv_pri = p, sv_time = now \<rparr>])"

text \<open>The server of the highest priority above 0; without one the address is that of this host.\<close>

definition isActive :: "dns \<Rightarrow> server list \<Rightarrow> bool" where
  "isActive dns csrv =
     (let best = foldl (\<lambda>(ip, pri) s. if pri < sv_pri s then (sv_ip s, sv_pri s) else (ip, pri)) (ip_default dns, 0) csrv
      in ip_eq (fst best) (ip_default dns) \<or> ip_eq_str dns (fst best) UNKNOWN_IP)"

section \<open>The bundle\<close>

record core_bundle =
  bd_mgroup :: ipaddr
  bd_port :: "32 word"
  bd_ttl :: int
  bd_pri :: int
  bd_key :: string
  bd_keepalive :: int

definition isBundle :: "dns \<Rightarrow> core_bundle \<Rightarrow> bool" where
  "isBundle dns b = (\<not> ip_eq_str dns (bd_mgroup b) UNKNOWN_IP)"

definition bundle_del :: "dns \<Rightarrow> core_bundle \<Rightarrow> core_bundle" where
  "bundle_del dns b = b \<lparr> bd_mgroup := ip_fill dns UNKNOWN_IP \<rparr>"

definition modifyMgroup :: "ipaddr \<Rightarrow> core_bundle \<Rightarrow> core_bundle" where "modifyMgroup a b = b \<lparr> bd_mgroup := a \<rparr>"
definition modifyPort :: "32 word \<Rightarrow> core_bundle \<Rightarrow> core_bundle" where "modifyPort p b = b \<lparr> bd_port := p \<rparr>"
definition bundle_modifyKey :: "string \<Rightarrow> core_bundle \<Rightarrow> core_bundle" where "bundle_modifyKey k b = b \<lparr> bd_key := k \<rparr>"
definition modifyTtl :: "int \<Rightarrow> core_bundle \<Rightarrow> core_bundle" where "modifyTtl t b = b \<lparr> bd_ttl := t \<rparr>"
definition modifyPri :: "int \<Rightarrow> core_bundle \<Rightarrow> core_bundle" where "modifyPri p b = b \<lparr> bd_pri := p \<rparr>"

definition bundle_buildcfstr :: "dns \<Rightarrow> int \<Rightarrow> core_bundle \<Rightarrow> string" where
  "bundle_buildcfstr dns i b =
     (if 0 < i then [] else if \<not> isBundle dns b then []
      else '' bundle '' @ ip_get (bd_mgroup b) @ '':'' @ toString_uint (bd_port b) @ [CHR 0x0A] @
        ''  cryptokey '' @ bd_key b @ [CHR 0x0A] @ ''  priority '' @ toString_int (word_of_int (bd_pri b)) @ [CHR 0x0A] @
        ''  ttl '' @ toString_int (word_of_int (bd_ttl b)) @ [CHR 0x0A] @ ''  exit'')"

definition bundle_applycf :: "dns \<Rightarrow> string \<Rightarrow> string list \<Rightarrow> core_bundle \<Rightarrow> core_bundle cres" where
  "bundle_applycf dns cmdname ps b =
     (if cmdname = ''confBundleNo'' then Inr (bundle_del dns b)
      else if cmdname = ''confBundleNode'' then cbind (first_param ps) (\<lambda>p.
        cbind (splitId (Some p) 1) (\<lambda>g. cbind (splitId (Some p) 2) (\<lambda>n.
          Inr (modifyPort (word_of_int (atoi_c n)) (modifyMgroup (ip_fill dns g) b)))))
      else if cmdname = ''confBundleCrypto'' then cbind (first_param ps) (\<lambda>p. Inr (bundle_modifyKey p b))
      else if cmdname = ''confBundleTTl'' then cbind (first_param ps) (\<lambda>p. Inr (modifyTtl (atoi_c p) b))
      else if cmdname = ''confBundlePrio'' then cbind (first_param ps) (\<lambda>p. Inr (modifyPri (atoi_c p) b))
      else Inr b)"

text \<open>Every ten seconds a keepalive packet.\<close>

definition bundle_periodic :: "dns \<Rightarrow> int \<Rightarrow> nat \<Rightarrow> core_bundle \<times> server list \<Rightarrow> (core_bundle \<times> server list) \<times> byte list list" where
  "bundle_periodic dns now vk st =
     (case st of (b, csrv) \<Rightarrow> let csrv' = checkTtl dns now csrv
      in if isBundle dns b \<and> 10 \<le> now - bd_keepalive b
         then ((b \<lparr> bd_keepalive := now \<rparr>, csrv'), [send_ka (bd_pri b) vk]) else ((b, csrv'), []))"

section \<open>A packet of a neighbour\<close>

record node =
  nd_bundle :: core_bundle
  nd_track :: tracker
  nd_servers :: "server list"

text \<open>The address an entry names, copied into an array of 16 bytes of which 15 are used.\<close>

definition tip_ip :: "dns \<Rightarrow> ipv4 \<Rightarrow> ipaddr" where
  "tip_ip dns a = ip_fill dns (snprintf_s 15 (inet_ntoa a))"

definition set_status :: "dns \<Rightarrow> ipv4 \<times> bool \<Rightarrow> net \<Rightarrow> net" where
  "set_status dns x n = (let ip = tip_ip dns (fst x); n1 = setDeviceStatus ip (snd x) n
     in if snd x then n1 else net_usr_del_all ip n1)"

fun process_dt :: "dns \<Rightarrow> (byte list \<Rightarrow> byte list) \<Rightarrow> byte list \<Rightarrow> string \<Rightarrow> nat list \<Rightarrow> net \<Rightarrow> net cres" where
  "process_dt dns md5 buf key [] n = Inr n"
| "process_dt dns md5 buf key (i # ks) n = cbind (read_dt md5 buf i key) (\<lambda>r. case r of
      None \<Rightarrow> Inr n
    | Some e \<Rightarrow> process_dt dns md5 buf key ks (set_status dns (dt_device e, dt_status e = 1) n))"

text \<open>A text is read up to a terminator, past the end of its array when there is none in it.\<close>

definition text_at :: "nat \<Rightarrow> byte list \<Rightarrow> string cres" where
  "text_at k b = (if 0 \<in> set (drop k b) then Inr (of_bytes (takeWhile (\<lambda>x. x \<noteq> 0) (drop k b))) else Inl OutOfBounds)"

fun process_ut :: "dns \<Rightarrow> (byte list \<Rightarrow> byte list) \<Rightarrow> (string \<Rightarrow> db_user) \<Rightarrow> int \<Rightarrow> byte list \<Rightarrow> string \<Rightarrow> nat list \<Rightarrow> tracker \<Rightarrow>
    tracker cres" where
  "process_ut dns md5 dbget now buf key [] t = Inr t"
| "process_ut dns md5 dbget now buf key (i # ks) t = cbind (read_ut md5 buf i key) (\<lambda>r. case r of
      None \<Rightarrow> Inr t
    | Some e \<Rightarrow>
        cbind (text_at 0 (ut_bytes e)) (\<lambda>us. cbind (text_at 44 (ut_bytes e)) (\<lambda>pr. cbind (text_at 76 (ut_bytes e)) (\<lambda>ph.
          process_ut dns md5 dbget now buf key ks
            (snd (if ut_status e = 1
                  then ut_add dns dbget now us (tip_ip dns (ut_device e)) pr ph (tip_ip dns (ut_userip e)) t
                  else ut_del us (tip_ip dns (ut_device e)) pr t))))))"

text \<open>Reading the n-th session of one device: two locals are made, one is assigned, both are destroyed.\<close>

definition getuser_at :: "dns \<Rightarrow> int \<Rightarrow> ipaddr \<Rightarrow> nat \<Rightarrow> net \<Rightarrow> session \<times> net" where
  "getuser_at dns now ip n st = (let none = absent_session dns now in case get_dev ip st of
      None \<Rightarrow> (none, st \<lparr> ud := ses_destroy none (ses_destroy none (ud st)) \<rparr>)
    | Some d \<Rightarrow> (case dus_gets dns now n (cusr d) (ud st) of (s, u) \<Rightarrow>
        (s, st \<lparr> ud := ses_destroy s (ses_destroy none (ses_assign s u)) \<rparr>)))"

text \<open>A server that starts is told every device and its users: one packet for each device, then those of its users.
The last index of each list has no element: it is the round that ends the loop.\<close>

fun resend_users :: "dns \<Rightarrow> int \<Rightarrow> ut_entry \<Rightarrow> ipaddr \<Rightarrow> nat list \<Rightarrow> net \<Rightarrow> ut_entry list \<Rightarrow> ut_entry list \<times> net" where
  "resend_users dns now m ip [] n uts = (uts, n)"
| "resend_users dns now m ip (j # js) n uts = (case getuser_at dns now ip j n of (s, n1) \<Rightarrow>
     let n2 = n1 \<lparr> ud := ses_assign s (ud n1) \<rparr>
     in if \<not> ses_present s then (uts, n2)
        else resend_users dns now m ip js n2 (add_ut m (ses_username s) ip (ses_addr s) (ses_port s) (ses_phone s) True uts))"

definition users_of :: "ipaddr \<Rightarrow> net \<Rightarrow> nat" where
  "users_of ip n = (case get_dev ip n of None \<Rightarrow> 0 | Some d \<Rightarrow> length (cusr d))"

fun resend_devices :: "dns \<Rightarrow> (byte list \<Rightarrow> byte list) \<Rightarrow> int \<Rightarrow> ut_entry \<Rightarrow> (nat \<Rightarrow> nat \<Rightarrow> nat) \<Rightarrow> core_bundle \<Rightarrow> nat list \<Rightarrow> net \<Rightarrow>
    byte list list \<times> net" where
  "resend_devices dns md5 now m vks b [] n = ([], n)"
| "resend_devices dns md5 now m vks b (i # ks) n =
     (let ip = dev_getip dns i n
      in if ip_eq_str dns ip UNKNOWN_IP then ([], n)
         else let p1 = send_dt md5 (isBundle dns b) (bd_key b) (bd_pri b) (vks (2 * i)) (add_dt ip (get_device_status ip n) [])
              in case resend_users dns now m ip [0..<Suc (users_of ip n)] n [] of (uts, n1) \<Rightarrow>
                let p2 = send_ut md5 m (isBundle dns b) (bd_key b) (bd_pri b) (vks (2 * i + 1)) uts
                in case resend_devices dns md5 now m vks b ks n1 of (ps, n2) \<Rightarrow> (p1 @ p2 @ ps, n2))"

definition resend_all :: "dns \<Rightarrow> (byte list \<Rightarrow> byte list) \<Rightarrow> int \<Rightarrow> ut_entry \<Rightarrow> (nat \<Rightarrow> nat \<Rightarrow> nat) \<Rightarrow> core_bundle \<Rightarrow> net \<Rightarrow>
    byte list list \<times> net" where
  "resend_all dns md5 now m vks b n =
     (case resend_devices dns md5 now m vks b [0..<Suc (length (nas n))] n of (ps, n1) \<Rightarrow>
        (ps, n1 \<lparr> ud := ses_destroy (absent_session dns now) (ud n1) \<rparr>))"

definition bundle_process :: "dns \<Rightarrow> (byte list \<Rightarrow> byte list) \<Rightarrow> (string \<Rightarrow> db_user) \<Rightarrow> int \<Rightarrow> ut_entry \<Rightarrow> (nat \<Rightarrow> nat \<Rightarrow> nat) \<Rightarrow>
    ipaddr \<Rightarrow> 32 word \<Rightarrow> byte list \<Rightarrow> node \<Rightarrow> (byte list list \<times> node) cres" where
  "bundle_process dns md5 dbget now m vks ip port buf nd =
     (let b = nd_bundle nd; key = snprintf_s 127 (bd_key b); t = nd_track nd;
          seen = nd \<lparr> nd_servers := track_update dns now ip (int (packet_pri buf)) (nd_servers nd) \<rparr>
      in if \<not> isBundle dns b \<or> port \<noteq> bd_port b then Inr ([], nd)
         else if length buf < 16 then Inl OutOfBounds
         else if packet_type buf = TIP_DT_PACKET then
           cbind (process_dt dns md5 buf key [0..<packet_num buf] (tk_net t)) (\<lambda>n.
             Inr ([], seen \<lparr> nd_track := t \<lparr> tk_net := n \<rparr> \<rparr>))
         else if packet_type buf = TIP_UT_PACKET then
           cbind (process_ut dns md5 dbget now buf key [0..<packet_num buf] t) (\<lambda>t'.
             Inr ([], seen \<lparr> nd_track := t' \<rparr>))
         else if packet_type buf = TIP_KA_PACKET then Inr ([], seen)
         else if packet_type buf = TIP_START_PACKET then
           (if \<not> isActive dns (nd_servers seen) then Inr ([], seen)
            else case resend_all dns md5 now m vks b (tk_net t) of (ps, n) \<Rightarrow>
              Inr (ps, seen \<lparr> nd_track := t \<lparr> tk_net := n \<rparr> \<rparr>))
         else Inr ([], nd))"

text \<open>The handler of the listener: the sender as an address.\<close>

definition bundle_server :: "dns \<Rightarrow> (byte list \<Rightarrow> byte list) \<Rightarrow> (string \<Rightarrow> db_user) \<Rightarrow> int \<Rightarrow> ut_entry \<Rightarrow> (nat \<Rightarrow> nat \<Rightarrow> nat) \<Rightarrow>
    ipv4 \<Rightarrow> int \<Rightarrow> byte list \<Rightarrow> node \<Rightarrow> (byte list list \<times> node) cres" where
  "bundle_server dns md5 dbget now m vks addr port buf nd =
     bundle_process dns md5 dbget now m vks (ip_fill dns (snprintf_s 30 (inet_ntoa addr))) (word_of_int port) buf nd"

section \<open>Lemmas\<close>

text \<open>What can happen to the list of servers.\<close>

datatype srv_op = Seen int ipaddr int | Ttl int

fun srv_step :: "dns \<Rightarrow> srv_op \<Rightarrow> server list \<Rightarrow> server list" where
  "srv_step dns (Seen now a p) csrv = track_update dns now a p csrv"
| "srv_step dns (Ttl now) csrv = checkTtl dns now csrv"

lemma srv_step_local:
  "csrv = [s] \<Longrightarrow> ipa (sv_ip s) = 0 \<Longrightarrow> \<exists>s'. srv_step dns oper csrv = [s'] \<and> ipa (sv_ip s') = 0"
  by (cases oper) (auto simp: track_update_def checkTtl_def sv_update_def)

lemma srv_run_local:
  "ipa (sv_ip s) = 0 \<Longrightarrow> \<exists>s'. fold (srv_step dns) ops [s] = [s'] \<and> ipa (sv_ip s') = 0"
proof (induction ops arbitrary: s)
  case (Cons x ops)
  then show ?case using srv_step_local[of "[s]" s dns x] by fastforce
qed simp

lemma isActive_local: "ipa (sv_ip s) = 0 \<Longrightarrow> isActive dns [s]"
  by (simp add: isActive_def ip_eq_def)

lemma octet_1000: "octet i a < 1000"
  by (rule less_trans[OF octet_less]) simp

lemma length_dec_octet: "n < 1000 \<Longrightarrow> length (dec_nat n) = (if n < 10 then 1 else if n < 100 then 2 else 3)"
  by (subst dec_nat.simps, subst dec_nat.simps, subst dec_nat.simps) auto

lemma length_ntoa:
  "length (inet_ntoa a) = length (dec_nat (octet 0 a)) + length (dec_nat (octet 1 a)) + length (dec_nat (octet 2 a)) +
     length (dec_nat (octet 3 a)) + 3"
  by (simp add: inet_ntoa_def dotted_def)

lemma ntoa_15: "(length (inet_ntoa a) = 15) = (\<forall>i < 4. 100 \<le> octet i a)"
proof -
  have "(\<forall>i < 4. 100 \<le> octet i a) = (100 \<le> octet 0 a \<and> 100 \<le> octet 1 a \<and> 100 \<le> octet 2 a \<and> 100 \<le> octet 3 a)"
    by (auto simp: less_Suc_eq eval_nat_numeral)
  then show ?thesis by (simp add: length_ntoa length_dec_octet octet_1000)
qed

lemma octet_horner:
  assumes n: "unat b = ((w * 256 + x) * 256 + y) * 256 + z" and lt: "w < 256" "x < 256" "y < 256" "z < 256"
  shows "octet 0 b = w" "octet 1 b = x" "octet 2 b = y" "octet 3 b = z"
proof -
  define h1 where "h1 = w * 256 + x"
  define h2 where "h2 = h1 * 256 + y"
  have n2: "unat b = h2 * 256 + z" by (simp only: n h2_def h1_def)
  have d: "unat b div 256 = h2" "h2 div 256 = h1" "h1 div 256 = w" using lt by (simp_all add: n2 h2_def h1_def)
  have m1: "unat b mod 256 = z" unfolding n2 using lt by simp
  have m2: "h2 mod 256 = y" unfolding h2_def using lt by simp
  have m3: "h1 mod 256 = x" "w mod 256 = w" unfolding h1_def using lt by simp_all
  have "unat b div 65536 = unat b div 256 div 256" "unat b div 16777216 = unat b div 256 div 256 div 256"
    by (simp_all flip: div_mult2_eq)
  with d m1 m2 m3 show "octet 0 b = w" "octet 1 b = x" "octet 2 b = y" "octet 3 b = z" by (simp_all add: octet_def)
qed

lemma tip_text_short: "length (inet_ntoa a) < 15 \<Longrightarrow> snprintf_s 15 (inet_ntoa a) = inet_ntoa a"
  by (simp add: snprintf_s_def)

lemma tip_text_long:
  assumes "length (inet_ntoa a) = 15"
  shows "snprintf_s 15 (inet_ntoa a) = inet_ntoa (word_of_nat (unat a - octet 3 a + octet 3 a div 10))"
proof -
  define m where "m = unat a - octet 3 a + octet 3 a div 10"
  define b where "b = (word_of_nat m :: ipv4)"
  have o: "100 \<le> octet 0 a" "100 \<le> octet 1 a" "100 \<le> octet 2 a" "100 \<le> octet 3 a" using assms by (auto simp: ntoa_15)
  have l: "length (dec_nat (octet i a)) = 3" if "100 \<le> octet i a" for i
    using that by (simp add: length_dec_octet octet_1000)
  have d: "dec_nat (octet 3 a) = dec_nat (octet 3 a div 10) @ [digit (octet 3 a mod 10)]"
    using o by (subst dec_nat.simps) simp
  then have ld: "length (dec_nat (octet 3 a div 10)) = 2" using l[OF o(4)] by simp
  have t: "snprintf_s 15 (inet_ntoa a) = dotted (octet 0 a) (octet 1 a) (octet 2 a) (octet 3 a div 10)"
    unfolding snprintf_s_def c_str_nul_free[OF nul_free_inet_ntoa] unfolding inet_ntoa_def dotted_def d
    using l[OF o(1)] l[OF o(2)] l[OF o(3)] ld by simp
  have s: "octet 0 a * 16777216 + octet 1 a * 65536 + octet 2 a * 256 + octet 3 a = unat a" by (rule octets_sum)
  let ?q = "octet 3 a div 10"
  have q: "?q < 256" using octet_less[of 3 a] by linarith
  have "unat a < 4294967296" using unsigned_less[of a, where ?'a = nat] by simp
  then have "m < 4294967296" using s div_le_dividend[of "octet 3 a" 10] by (simp add: m_def)
  then have "unat b = m" by (simp add: b_def unsigned_of_nat take_bit_eq_mod)
  then have n: "unat b = ((octet 0 a * 256 + octet 1 a) * 256 + octet 2 a) * 256 + ?q" using s by (simp add: m_def)
  note octet_horner[OF n octet_less octet_less octet_less q]
  then have "inet_ntoa b = dotted (octet 0 a) (octet 1 a) (octet 2 a) ?q" by (simp add: inet_ntoa_def)
  then show ?thesis unfolding t b_def m_def by simp
qed

lemma key_short: "length k \<le> 30 \<Longrightarrow> snprintf_s 31 k = snprintf_s 127 k"
  using length_c_str[of k] by (simp add: snprintf_s_def)

lemma packet_type_sent: "packet_type (dt_sent md5 key pri vk es) = TIP_DT_PACKET" "packet_type (ut_sent md5 key pri vk us) = TIP_UT_PACKET"
  by (simp_all add: packet_type_def hdr_at_def dt_sent_def ut_sent_def createhdr_def net16_def TIP_DT_PACKET_def TIP_UT_PACKET_def)

lemma length_sent: "16 \<le> length (dt_sent md5 key pri vk es)" "16 \<le> length (ut_sent md5 key pri vk us)"
  by (simp_all add: dt_sent_def ut_sent_def)

lemma packet_num_sent:
  assumes "vk < 65536"
  shows "length es \<le> 7 \<Longrightarrow> packet_num (dt_sent md5 key pri vk es) = length es"
    and "length us \<le> 7 \<Longrightarrow> packet_num (ut_sent md5 key pri vk us) = length us"
  using createhdr_fields(2)[of vk "length es"] createhdr_fields(2)[of vk "length us"] assms
  by (simp_all add: dt_sent_def ut_sent_def)

lemma process_dt_sent:
  assumes "vk < 65536" "length es \<le> 7" "i \<le> length es"
  shows "process_dt dns md5 (dt_sent md5 key pri vk es) key [i..<length es] n =
    Inr (fold (\<lambda>e. set_status dns (dt_device e, dt_status e = 1)) (drop i es) n)"
  using assms(3)
proof (induction "length es - i" arbitrary: i n)
  case (Suc k)
  then have i: "i < length es" by simp
  have r: "read_dt md5 (dt_sent md5 key pri vk es) i key = Inr (Some ((es ! i) \<lparr> dt_check := of_nat vk \<rparr>))"
    using assms i by (simp add: read_dt_sent)
  have d: "drop i es = es ! i # drop (Suc i) es" using i by (simp add: Cons_nth_drop_Suc)
  show ?case using Suc.hyps(1)[of "Suc i"] Suc.hyps(2) i by (simp add: upt_conv_Cons[OF i] r d)
qed simp

section \<open>Packets received\<close>

fun bundle_receive :: "dns \<Rightarrow> (byte list \<Rightarrow> byte list) \<Rightarrow> (string \<Rightarrow> db_user) \<Rightarrow> int \<Rightarrow> ut_entry \<Rightarrow> (nat \<Rightarrow> nat \<Rightarrow> nat) \<Rightarrow>
    ipaddr \<Rightarrow> 32 word \<Rightarrow> byte list list \<Rightarrow> node \<Rightarrow> node cres" where
  "bundle_receive dns md5 dbget now m vks ip port [] nd = Inr nd"
| "bundle_receive dns md5 dbget now m vks ip port (b # bs) nd =
     cbind (bundle_process dns md5 dbget now m vks ip port b nd) (\<lambda>x.
       bundle_receive dns md5 dbget now m vks ip port bs (snd x))"

definition listens :: "dns \<Rightarrow> 32 word \<Rightarrow> string \<Rightarrow> node \<Rightarrow> bool" where
  "listens dns port key nd = (isBundle dns (nd_bundle nd) \<and> port = bd_port (nd_bundle nd) \<and>
     bd_key (nd_bundle nd) = key \<and> length key \<le> 30)"

lemma receive_dt:
  assumes "listens dns port key nd" "\<forall>i. ks i < 65536"
  shows "\<exists>nd'. bundle_receive dns md5 dbget now m vks ip port (dt_packets md5 (snprintf_s 31 key) pri ks es) nd = Inr nd' \<and>
    listens dns port key nd' \<and> nd_track nd' = (nd_track nd) \<lparr> tk_net :=
      fold (\<lambda>e. set_status dns (dt_device e, dt_status e = 1)) es (tk_net (nd_track nd)) \<rparr>"
  using assms
proof (induction "length es" arbitrary: es ks nd rule: less_induct)
  case less
  show ?case
  proof (cases "es = []")
    case True
    with less.prems show ?thesis by (subst dt_packets_eq) simp
  next
    case False
    let ?b = "dt_sent md5 (snprintf_s 31 key) pri (ks 0) (take 7 es)"
    let ?n = "fold (\<lambda>e. set_status dns (dt_device e, dt_status e = 1)) (take 7 es) (tk_net (nd_track nd))"
    have num: "packet_num ?b = length (take 7 es)" using less.prems(2) by (intro packet_num_sent(1)) simp_all
    have "process_dt dns md5 ?b (snprintf_s 31 key) [0..<length (take 7 es)] (tk_net (nd_track nd)) = Inr ?n"
      using less.prems(2) by (subst process_dt_sent) simp_all
    then have "\<exists>nd1. bundle_process dns md5 dbget now m vks ip port ?b nd = Inr ([], nd1) \<and> listens dns port key nd1 \<and>
        nd_track nd1 = (nd_track nd) \<lparr> tk_net := ?n \<rparr>"
      using less.prems(1) length_sent(1)[of md5 "snprintf_s 31 key" pri "ks 0" "take 7 es"] num
      by (simp add: bundle_process_def listens_def packet_type_sent key_short not_less Let_def)
    then obtain nd1 where nd1: "bundle_process dns md5 dbget now m vks ip port ?b nd = Inr ([], nd1)"
      "listens dns port key nd1" "nd_track nd1 = (nd_track nd) \<lparr> tk_net := ?n \<rparr>" by blast
    have "length (drop 7 es) < length es" using False by simp
    from less.hyps[OF this nd1(2), of "\<lambda>i. ks (Suc i)"] less.prems(2) obtain nd2 where nd2:
      "bundle_receive dns md5 dbget now m vks ip port (dt_packets md5 (snprintf_s 31 key) pri (\<lambda>i. ks (Suc i)) (drop 7 es)) nd1 = Inr nd2"
      "listens dns port key nd2" "nd_track nd2 = (nd_track nd1) \<lparr> tk_net :=
        fold (\<lambda>e. set_status dns (dt_device e, dt_status e = 1)) (drop 7 es) (tk_net (nd_track nd1)) \<rparr>" by auto
    have f: "fold h es x = fold h (drop 7 es) (fold h (take 7 es) x)" for h :: "dt_entry \<Rightarrow> net \<Rightarrow> net" and x
      by (metis append_take_drop_id fold_append comp_apply)
    show ?thesis using False nd1 nd2 by (subst dt_packets_eq) (simp add: f[symmetric])
  qed
qed

text \<open>A user as it is announced, and what becomes of it at the receiver.\<close>

type_synonym announced = "string \<times> ipaddr \<times> ipaddr \<times> string \<times> string \<times> bool"

definition announce :: "ut_entry \<Rightarrow> announced list \<Rightarrow> ut_entry list" where
  "announce m xs = fold (\<lambda>(u, di, ui, p, t, s). add_ut m u di ui p t s) xs []"

definition track_user :: "dns \<Rightarrow> (string \<Rightarrow> db_user) \<Rightarrow> int \<Rightarrow> announced \<Rightarrow> tracker \<Rightarrow> tracker" where
  "track_user dns dbget now = (\<lambda>(u, di, ui, p, t, s) tr. snd (if s
     then ut_add dns dbget now (snprintf_s 31 u) (tip_ip dns (ipa di)) (snprintf_s 31 p) (snprintf_s 31 t) (tip_ip dns (ipa ui)) tr
     else ut_del (snprintf_s 31 u) (tip_ip dns (ipa di)) (snprintf_s 31 p) tr))"

definition announces :: "ut_entry \<Rightarrow> announced \<Rightarrow> bool" where
  "announces e = (\<lambda>(u, di, ui, p, t, s). ut_wf e \<and> text_at 0 (ut_bytes e) = Inr (snprintf_s 31 u) \<and>
     text_at 44 (ut_bytes e) = Inr (snprintf_s 31 p) \<and> text_at 76 (ut_bytes e) = Inr (snprintf_s 31 t) \<and>
     ut_device e = ipa di \<and> ut_userip e = ipa ui \<and> ut_status e = (if s then 1 else 0))"

lemma byte_of_char_NUL: "(byte_of_char c = 0) = (c = NUL)"
  using char_of_byte_NUL[of "byte_of_char c"] by simp

lemma takeWhile_text:
  assumes "nul_free s"
  shows "takeWhile (\<lambda>x. x \<noteq> 0) (to_bytes s @ 0 # rest) = to_bytes s"
proof -
  have "\<forall>x \<in> set (to_bytes s). x \<noteq> 0" using assms by (auto simp: to_bytes_def byte_of_char_NUL nul_free_def)
  then show ?thesis by (simp add: takeWhile_append2)
qed

lemma arr32_text: "c_str (of_bytes (arr32 old s)) = snprintf_s 31 s"
  by (subst c_str_of_bytes) (simp add: arr32_def Let_def takeWhile_text)

lemma arr32_copy: "arr32 old (of_bytes (arr32 m s)) = arr32 old s"
  using arr32_text[of m s] by (simp add: arr32_def[of old] snprintf_s_def)

lemma text_at_arr: "drop k b = arr32 old s @ rest \<Longrightarrow> text_at k b = Inr (snprintf_s 31 s)"
  by (simp add: text_at_def arr32_def Let_def takeWhile_text)

lemma announce_snoc: "announce m (xs @ [x]) = announce m xs @ announce m [x]"
  by (simp add: announce_def add_ut_def split: prod.splits)

lemma announce_Cons: "announce m (x # xs) = announce m [x] @ announce m xs"
proof (induction xs rule: rev_induct)
  case (snoc y xs)
  then show ?case using announce_snoc[of m "x # xs" y] announce_snoc[of m xs y] by simp
qed (simp add: announce_def)

lemma copies_announce:
  assumes "ut_wf old"
  shows "list_all2 (\<lambda>e x. announces (e \<lparr> ut_check := c \<rparr>) x) (ut_copies old (announce m xs)) xs"
  using assms
proof (induction xs arbitrary: old)
  case (Cons x xs)
  obtain u di ui p t s where x: "x = (u, di, ui, p, t, s)" by (cases x) auto
  obtain e where e: "announce m [x] = [e]" "ut_username e = arr32 (ut_username m) u" "ut_port e = arr32 (ut_port m) p"
      "ut_phone e = arr32 (ut_phone m) t" "ut_device e = ipa di" "ut_userip e = ipa ui" "ut_status e = (if s then 1 else 0)"
    by (simp add: announce_def x add_ut_def ip_get_def)
  have c: "ut_username (ut_copy old e) = arr32 (ut_username old) u" "ut_port (ut_copy old e) = arr32 (ut_port old) p"
    "ut_phone (ut_copy old e) = arr32 (ut_phone old) t" by (simp_all add: ut_copy_def e arr32_copy)
  have wf: "ut_wf (ut_copy old e)" using Cons.prems by (rule ut_copy_wf)
  then have "announces ((ut_copy old e) \<lparr> ut_check := c \<rparr>) x"
    using e(5-7) by (auto simp: announces_def x c e ut_wf_def ut_bytes_def ut_copy_def arr32_copy intro!: text_at_arr)
  with Cons.IH[OF wf] show ?case by (simp add: announce_Cons[of m x xs] e)
qed (simp add: announce_def)

lemma process_ut_sent:
  assumes "vk < 65536" "length es \<le> 7" "i \<le> length es" "\<forall>e \<in> set es. ut_wf e"
    and "list_all2 (\<lambda>e x. announces (e \<lparr> ut_check := of_nat vk \<rparr>) x) es xs"
  shows "process_ut dns md5 dbget now (ut_sent md5 key pri vk es) key [i..<length es] t =
    Inr (fold (track_user dns dbget now) (drop i xs) t)"
  using assms(3)
proof (induction "length es - i" arbitrary: i t)
  case 0
  then show ?case using list_all2_lengthD[OF assms(5)] by simp
next
  case (Suc k)
  then have i: "i < length es" by simp
  then have ix: "i < length xs" using list_all2_lengthD[OF assms(5)] by simp
  let ?e = "(es ! i) \<lparr> ut_check := of_nat vk \<rparr>"
  have wf: "ut_wf ?e" using assms(4) i by (simp add: ut_wf_def)
  have r: "read_ut md5 (ut_sent md5 key pri vk es) i key = Inr (Some ?e)"
    using assms i wf by (simp add: read_ut_sent ut_of_bytes)
  have a: "announces ?e (xs ! i)" using assms(5) i by (simp add: list_all2_conv_all_nth)
  have d: "drop i xs = xs ! i # drop (Suc i) xs" using ix by (simp add: Cons_nth_drop_Suc)
  obtain u di ui p t' s where x: "xs ! i = (u, di, ui, p, t', s)" by (cases "xs ! i") auto
  show ?case using Suc.hyps(1)[of "Suc i"] Suc.hyps(2) i a
    by (simp add: upt_conv_Cons[OF i] r d x announces_def track_user_def)
qed

lemma receive_ut:
  assumes "listens dns port key nd" "\<forall>i. ks i < 65536"
    and "\<forall>e \<in> set es. ut_wf e" "\<forall>c. list_all2 (\<lambda>e x. announces (e \<lparr> ut_check := c \<rparr>) x) es xs"
  shows "\<exists>nd'. bundle_receive dns md5 dbget now m vks ip port (ut_packets md5 (snprintf_s 31 key) pri ks es) nd = Inr nd' \<and>
    listens dns port key nd' \<and> nd_track nd' = fold (track_user dns dbget now) xs (nd_track nd)"
  using assms
proof (induction "length es" arbitrary: es xs ks nd rule: less_induct)
  case less
  show ?case
  proof (cases "es = []")
    case True
    with less.prems show ?thesis by (subst ut_packets_eq) simp
  next
    case False
    let ?b = "ut_sent md5 (snprintf_s 31 key) pri (ks 0) (take 7 es)"
    let ?t = "fold (track_user dns dbget now) (take 7 xs) (nd_track nd)"
    have num: "packet_num ?b = length (take 7 es)" using less.prems(2) by (intro packet_num_sent(2)) simp_all
    have "process_ut dns md5 dbget now ?b (snprintf_s 31 key) [0..<length (take 7 es)] (nd_track nd) = Inr ?t"
      using less.prems by (subst process_ut_sent[where xs = "take 7 xs"]) (auto dest: in_set_takeD intro: list_all2_takeI)
    then have "\<exists>nd1. bundle_process dns md5 dbget now m vks ip port ?b nd = Inr ([], nd1) \<and> listens dns port key nd1 \<and>
        nd_track nd1 = ?t"
      using less.prems(1) length_sent(2)[of md5 "snprintf_s 31 key" pri "ks 0" "take 7 es"] num
      by (simp add: bundle_process_def listens_def packet_type_sent key_short not_less Let_def TIP_UT_PACKET_def TIP_DT_PACKET_def)
    then obtain nd1 where nd1: "bundle_process dns md5 dbget now m vks ip port ?b nd = Inr ([], nd1)"
      "listens dns port key nd1" "nd_track nd1 = ?t" by blast
    have "length (drop 7 es) < length es" using False by simp
    from less.hyps[OF this nd1(2), of "\<lambda>i. ks (Suc i)" "drop 7 xs"] less.prems(2-) obtain nd2 where nd2:
      "bundle_receive dns md5 dbget now m vks ip port (ut_packets md5 (snprintf_s 31 key) pri (\<lambda>i. ks (Suc i)) (drop 7 es)) nd1 = Inr nd2"
      "listens dns port key nd2" "nd_track nd2 = fold (track_user dns dbget now) (drop 7 xs) (nd_track nd1)"
      by (auto dest: in_set_dropD intro: list_all2_dropI)
    have f: "fold h xs x = fold h (drop 7 xs) (fold h (take 7 xs) x)" for h :: "announced \<Rightarrow> tracker \<Rightarrow> tracker" and x
      by (metis append_take_drop_id fold_append comp_apply)
    show ?thesis using False nd1 nd2 by (subst ut_packets_eq) (simp add: f[symmetric])
  qed
qed

section \<open>Properties\<close>

text \<open>A server that entered itself in its list never has another one in it, however many neighbours it hears of, and
always takes itself for the active one: a bundle has as many active servers as members.\<close>

lemma bundle_always_active:
  "\<exists>s. fold (srv_step dns) ops (fst (sendStart dns now bundle pri vk [])) = [s] \<and> ipa (sv_ip s) = 0 \<and>
     isActive dns (fold (srv_step dns) ops (fst (sendStart dns now bundle pri vk [])))"
proof -
  obtain s where "fold (srv_step dns) ops (fst (sendStart dns now bundle pri vk [])) = [s]" "ipa (sv_ip s) = 0"
    using srv_run_local[of "\<lparr> sv_ip = ip_fill dns UNKNOWN_IP, sv_pri = pri, sv_time = now \<rparr>" dns ops]
    by (auto simp: sendStart_def)
  then show ?thesis by (simp add: isActive_local)
qed

text \<open>The address an entry names is taken as it is unless each of its four octets is 100 or more: then the last digit
is lost, 192.168.100.123 becomes 192.168.100.12.\<close>

lemma bundle_address_cut:
  assumes "\<forall>b. dns (inet_ntoa b) = Some b"
  shows "ipa (tip_ip dns a) =
    (if \<forall>i < 4. 100 \<le> octet i a then word_of_nat (unat a - octet 3 a + octet 3 a div 10) else a)"
proof (cases "length (inet_ntoa a) = 15")
  case True
  then show ?thesis using assms by (simp add: tip_ip_def tip_text_long ip_fill_ntoa ntoa_15)
next
  case False
  then have "length (inet_ntoa a) < 15" using length_inet_ntoa[of a] by linarith
  then have e: "ipa (tip_ip dns a) = a" using assms by (simp add: tip_ip_def tip_text_short ip_fill_ntoa)
  from False have n: "\<not> (\<forall>i < 4. 100 \<le> octet i a)" by (simp only: ntoa_15 not_False_eq_True)
  show ?thesis unfolding if_not_P[OF n] by (rule e)
qed

lemma bundle_address_cut_witness:
  "ipa (tip_ip (\<lambda>s. Some (inet_addr s)) 0xC0A8647B) = 0xC0A8640C \<and> inet_ntoa 0xC0A8640C = ''192.168.100.12''"
proof -
  have o: "octet 0 0xC0A8647B = 192" "octet 1 0xC0A8647B = 168" "octet 2 0xC0A8647B = 100" "octet 3 0xC0A8647B = 123"
    by (simp_all add: octet_def)
  have four: "i = 0 \<or> i = 1 \<or> i = 2 \<or> i = 3" if "i < 4" for i :: nat using that by linarith
  have "\<forall>i < 4. 100 \<le> octet i 0xC0A8647B"
  proof (intro allI impI)
    have p: "100 \<le> octet 0 0xC0A8647B" "100 \<le> octet 1 0xC0A8647B" "100 \<le> octet 2 0xC0A8647B" "100 \<le> octet 3 0xC0A8647B"
      unfolding o by simp_all
    fix i :: nat assume "i < 4"
    from four[OF this] p show "100 \<le> octet i 0xC0A8647B" by metis
  qed
  with o(4) have "ipa (tip_ip (\<lambda>s. Some (inet_addr s)) 0xC0A8647B) = 0xC0A8640C"
    by (subst bundle_address_cut) simp_all
  moreover have "inet_ntoa 0xC0A8640C = ''192.168.100.12''"
  proof -
    have "octet 0 0xC0A8640C = 192" "octet 1 0xC0A8640C = 168" "octet 2 0xC0A8640C = 100" "octet 3 0xC0A8640C = 12"
      by (simp_all add: octet_def)
    moreover have "dotted 192 168 100 12 = ''192.168.100.12''" by code_simp
    ultimately show ?thesis by (simp add: inet_ntoa_def)
  qed
  ultimately show ?thesis by simp
qed

text \<open>The address a receiver reads, and what it notes of a list of announcements.\<close>

definition heard :: "ipv4 \<Rightarrow> ipv4" where
  "heard a = (if \<forall>i < 4. 100 \<le> octet i a then word_of_nat (unat a - octet 3 a + octet 3 a div 10) else a)"

definition resolves :: "dns \<Rightarrow> bool" where
  "resolves dns = (\<forall>b. dns (inet_ntoa b) = None \<or> dns (inet_ntoa b) = Some b)"

lemma tip_ip_heard: "resolves dns \<Longrightarrow> tip_ip dns a = \<lparr> hname = inet_ntoa (heard a), ipa = heard a \<rparr>"
proof -
  assume r: "resolves dns"
  have f: "ip_fill dns (inet_ntoa b) = \<lparr> hname = inet_ntoa b, ipa = b \<rparr>" for b
    using r by (intro ip_fill_ntoa) (simp add: resolves_def)
  show ?thesis
  proof (cases "length (inet_ntoa a) = 15")
    case True
    then show ?thesis by (simp add: tip_ip_def tip_text_long f heard_def ntoa_15)
  next
    case False
    then have "length (inet_ntoa a) < 15" using length_inet_ntoa[of a] by linarith
    then have t: "tip_ip dns a = \<lparr> hname = inet_ntoa a, ipa = a \<rparr>" by (simp add: tip_ip_def tip_text_short f)
    have "heard a = a" unfolding heard_def using False by (simp only: ntoa_15[symmetric] if_False)
    with t show ?thesis by simp
  qed
qed

lemma set_status_facts:
  assumes "net_ok N" "resolves dns"
  shows "net_ok (set_status dns (a, s) N) \<and> data_sub (ud (set_status dns (a, s) N)) (ud N) \<and>
    dev_at (set_status dns (a, s) N) b = (if b = heard a
      then map_option (\<lambda>d. d \<lparr> dev_status := s, cusr := (if s then cusr d else []) \<rparr>) (dev_at N b) else dev_at N b)"
proof -
  let ?ip = "\<lparr> hname = inet_ntoa (heard a), ipa = heard a \<rparr>"
  have t: "tip_ip dns a = ?ip" using tip_ip_heard[OF assms(2)] .
  have dev: "dev_at (M \<lparr> nas := upd_first (at_ip ?ip) f (nas M), ud := u \<rparr>) b =
      (if b = heard a then map_option f (dev_at M b) else dev_at M b)" if "\<And>d. hostaddr (f d) = hostaddr d" for M f u b
  proof -
    have "find (\<lambda>d. ipa (hostaddr d) = b) (upd_first (at_ip ?ip) f ds) =
      (if b = heard a then map_option f (find (\<lambda>d. ipa (hostaddr d) = b) ds) else find (\<lambda>d. ipa (hostaddr d) = b) ds)" for ds
      using that by (induction ds) (auto simp: at_ip_def ip_eq_def)
    then show ?thesis by (simp add: dev_at_def)
  qed
  define N1 where "N1 = setDeviceStatus ?ip s N"
  have N1: "N1 = N \<lparr> nas := upd_first (at_ip ?ip) (\<lambda>d. d \<lparr> dev_status := s \<rparr>) (nas N), ud := ud N \<rparr>"
    by (simp add: N1_def setDeviceStatus_def dev_modify_def)
  define N2 where "N2 = net_usr_del_all ?ip N1"
  have sub: "data_sub (fold ses_destroy c u) u" for c u
  proof (induction c arbitrary: u)
    case (Cons x c)
    then show ?case using data_sub_trans[OF Cons data_sub_destroy] by simp
  qed simp
  have d1: "dev_at N1 b = (if b = heard a then map_option (\<lambda>d. d \<lparr> dev_status := s \<rparr>) (dev_at N b) else dev_at N b)" for b
    unfolding N1 by (rule dev) simp
  have d2: "dev_at N2 b = (if b = heard a then map_option (\<lambda>d. d \<lparr> cusr := [] \<rparr>) (dev_at N1 b) else dev_at N1 b) \<and>
      dev_keys N2 = dev_keys N1 \<and> data_sub (ud N2) (ud N1)" for b
  proof (cases "dev_at N1 (heard a)")
    case None
    then show ?thesis by (simp add: N2_def net_usr_del_all_def get_dev_at)
  next
    case (Some d)
    then have e: "N2 = N1 \<lparr> nas := upd_first (at_ip ?ip) (\<lambda>d. d \<lparr> cusr := [] \<rparr>) (nas N1),
        ud := fold ses_destroy (cusr d) (ud N1) \<rparr>"
      by (simp add: N2_def net_usr_del_all_def get_dev_at dus_del_all_def)
    show ?thesis unfolding e using sub by (auto simp: dev dev_keys_def map_upd_first)
  qed
  have keys: "dev_keys N1 = dev_keys N" by (simp add: N1 dev_keys_def map_upd_first)
  have e: "set_status dns (a, s) N = (if s then N1 else N2)"
    by (simp add: set_status_def Let_def t N1_def N2_def)
  have u1: "ud N1 = ud N" by (simp add: N1)
  have dd: "dev_at (set_status dns (a, s) N) b = (if b = heard a
      then map_option (\<lambda>d. d \<lparr> dev_status := s, cusr := (if s then cusr d else []) \<rparr>) (dev_at N b) else dev_at N b)" for b
  proof (cases "b = heard a \<and> dev_at N b \<noteq> None")
    case True
    then obtain x where x: "dev_at N (heard a) = Some x" "b = heard a" by auto
    have "x \<lparr> dev_status := True, cusr := cusr x \<rparr> = x \<lparr> dev_status := True \<rparr>" by (cases x) simp
    with d1[of b] d2[of b] x show ?thesis unfolding e by (cases s) simp_all
  next
    case False
    with d1[of b] d2[of b] show ?thesis unfolding e by (cases s) auto
  qed
  have "ports_ok (cusr d)" if "dev_at (set_status dns (a, s) N) b = Some d" for b d
    using that assms(1) unfolding dd by (auto simp: net_ok_def ports_ok_def split: if_splits)
  moreover have "distinct (dev_keys (set_status dns (a, s) N))" using assms(1) d2 keys by (simp add: e net_ok_def)
  ultimately have "net_ok (set_status dns (a, s) N)" by (simp add: net_ok_def)
  with dd d2 u1 show ?thesis by (simp add: e)
qed

definition last_status :: "ipv4 \<Rightarrow> (ipaddr \<times> bool) list \<Rightarrow> bool option" where
  "last_status a ds = map_option snd (find (\<lambda>x. heard (ipa (fst x)) = a) (rev ds))"

lemma noted_twice:
  fixes d :: device
  shows "d \<lparr> dev_status := b, cusr := c, dev_status := s, cusr := c' \<rparr> = d \<lparr> dev_status := s, cusr := c' \<rparr>"
    "d \<lparr> dev_status := b, cusr := c, dev_status := s \<rparr> = d \<lparr> dev_status := s, cusr := c \<rparr>"
    "d \<lparr> dev_status := s, cusr := cusr d \<rparr> = d \<lparr> dev_status := s \<rparr>"
  by (cases d, simp)+

lemma statuses_noted:
  assumes "net_ok N" "resolves dns"
  shows "net_ok (fold (\<lambda>(d, s). set_status dns (ipa d, s)) ds N) \<and>
    data_sub (ud (fold (\<lambda>(d, s). set_status dns (ipa d, s)) ds N)) (ud N) \<and>
    (\<forall>a. dev_at (fold (\<lambda>(d, s). set_status dns (ipa d, s)) ds N) a = map_option (\<lambda>d. d
      \<lparr> dev_status := (case last_status a ds of None \<Rightarrow> dev_status d | Some s \<Rightarrow> s),
        cusr := (if \<exists>x \<in> set ds. heard (ipa (fst x)) = a \<and> \<not> snd x then [] else cusr d) \<rparr>) (dev_at N a))"
proof (induction ds rule: rev_induct)
  case Nil
  then show ?case using assms by (simp add: last_status_def option.map_ident)
next
  case (snoc x ds)
  obtain d s where x: "x = (d, s)" by (cases x)
  let ?N = "fold (\<lambda>(d, s). set_status dns (ipa d, s)) ds N"
  have ok: "net_ok ?N" and sub: "data_sub (ud ?N) (ud N)" using snoc by blast+
  note F = set_status_facts[OF ok assms(2), of "ipa d" s]
  have "dev_at (set_status dns (ipa d, s) ?N) a = map_option (\<lambda>e. e
      \<lparr> dev_status := (case last_status a (ds @ [x]) of None \<Rightarrow> dev_status e | Some s \<Rightarrow> s),
        cusr := (if \<exists>x \<in> set (ds @ [x]). heard (ipa (fst x)) = a \<and> \<not> snd x then [] else cusr e) \<rparr>) (dev_at N a)" for a
  proof -
    define M where "M = set_status dns (ipa d, s) ?N"
    have m: "dev_at M a = (if a = heard (ipa d)
        then map_option (\<lambda>d. d \<lparr> dev_status := s, cusr := (if s then cusr d else []) \<rparr>) (dev_at ?N a) else dev_at ?N a)"
      unfolding M_def using F[of a] by blast
    have n: "dev_at ?N a = map_option (\<lambda>d. d
      \<lparr> dev_status := (case last_status a ds of None \<Rightarrow> dev_status d | Some s \<Rightarrow> s),
        cusr := (if \<exists>x \<in> set ds. heard (ipa (fst x)) = a \<and> \<not> snd x then [] else cusr d) \<rparr>) (dev_at N a)"
      using snoc by blast
    have l: "last_status a (ds @ [x]) = (if a = heard (ipa d) then Some s else last_status a ds)"
      by (simp add: last_status_def x)
    have c: "(\<exists>x \<in> set (ds @ [x]). heard (ipa (fst x)) = a \<and> \<not> snd x) =
        ((\<exists>x \<in> set ds. heard (ipa (fst x)) = a \<and> \<not> snd x) \<or> a = heard (ipa d) \<and> \<not> s)"
      by (auto simp: x)
    show ?thesis
    proof (cases "a = heard (ipa d)")
      case True
      have "map_option (\<lambda>d. d \<lparr> dev_status := s, cusr := (if s then cusr d else []) \<rparr>) (dev_at ?N a) =
          map_option (\<lambda>e. e \<lparr> dev_status := s,
            cusr := (if (\<exists>x \<in> set ds. heard (ipa (fst x)) = a \<and> \<not> snd x) \<or> \<not> s then [] else cusr e) \<rparr>) (dev_at N a)"
        unfolding n by (cases "dev_at N a"; cases s) (auto simp: noted_twice)
      then show ?thesis unfolding M_def[symmetric] m l c using True by simp
    next
      case False
      then show ?thesis unfolding M_def[symmetric] m l c using n by simp
    qed
  qed
  then show ?case using F data_sub_trans[OF _ sub] by (simp add: x)
qed

definition last_user :: "ipv4 \<Rightarrow> string \<Rightarrow> announced list \<Rightarrow> announced option" where
  "last_user a p us = find (\<lambda>(u, di, ui, q, t, s). heard (ipa di) = a \<and> snprintf_s 31 q = p) (rev us)"

lemma users_noted:
  assumes "net_ok (tk_net st)" "resolves dns"
  shows "let st' = fold (track_user dns dbget now) us st in
    net_ok (tk_net st') \<and> (\<forall>a. wipe (dev_at (tk_net st') a) = wipe (dev_at (tk_net st) a)) \<and>
    (\<forall>v. knows dbget v st \<longrightarrow> knows dbget v st') \<and>
    (\<forall>a p. case last_user a p us of
      None \<Rightarrow> ses_at (tk_net st') a p = ses_at (tk_net st) a p
    | Some (u, di, ui, q, t, s) \<Rightarrow>
        if s then (\<forall>x. ses_at (tk_net st') a p = Some x \<longrightarrow> ses_username x = snprintf_s 31 u) \<and>
          (knows dbget (snprintf_s 31 u) st \<and> dev_at (tk_net st) a \<noteq> None \<longrightarrow>
            (\<exists>x. ses_at (tk_net st') a p = Some x \<and>
              login_result dns now (snprintf_s 31 u) \<lparr> hname = inet_ntoa (heard (ipa ui)), ipa = heard (ipa ui) \<rparr> x))
        else ses_at (tk_net st') a p = None)"
proof (induction us rule: rev_induct)
  case Nil
  then show ?case using assms by (simp add: last_user_def)
next
  case (snoc x us)
  obtain u di ui q t s where x: "x = (u, di, ui, q, t, s)" by (cases x) auto
  let ?s1 = "fold (track_user dns dbget now) us st"
  define s2 where "s2 = track_user dns dbget now x ?s1"
  let ?n = "\<lparr> hname = inet_ntoa (heard (ipa di)), ipa = heard (ipa di) \<rparr>"
  let ?ua = "\<lparr> hname = inet_ntoa (heard (ipa ui)), ipa = heard (ipa ui) \<rparr>"
  let ?v = "snprintf_s 31 u" and ?p = "snprintf_s 31 q"
  have ok: "net_ok (tk_net ?s1)" and w: "\<And>a. wipe (dev_at (tk_net ?s1) a) = wipe (dev_at (tk_net st) a)"
    and k: "\<And>v. knows dbget v st \<Longrightarrow> knows dbget v ?s1"
    using snoc by (auto simp: Let_def)
  have dv: "(dev_at (tk_net ?s1) a = None) = (dev_at (tk_net st) a = None)" for a
    using w[of a] unfolding wipe_def by (metis map_option_is_None)
  have step: "only_at (heard (ipa di)) ?p (tk_net ?s1) (tk_net s2) \<and> (\<forall>v. knows dbget v ?s1 \<longrightarrow> knows dbget v s2) \<and>
    (if s then (\<forall>y. ses_at (tk_net s2) (heard (ipa di)) ?p = Some y \<longrightarrow> ses_username y = ?v) \<and>
        (knows dbget ?v ?s1 \<and> dev_at (tk_net ?s1) (heard (ipa di)) \<noteq> None \<longrightarrow>
          (\<exists>y. ses_at (tk_net s2) (heard (ipa di)) ?p = Some y \<and> login_result dns now ?v ?ua y))
     else ses_at (tk_net s2) (heard (ipa di)) ?p = None)"
  proof (cases s)
    case True
    obtain b where "ut_add dns dbget now ?v ?n ?p (snprintf_s 31 t) ?ua ?s1 = (b, s2)"
      using True by (cases "ut_add dns dbget now ?v ?n ?p (snprintf_s 31 t) ?ua ?s1")
        (simp add: s2_def track_user_def x tip_ip_heard[OF assms(2)])
    from ut_add_port[OF ok this] True show ?thesis by simp
  next
    case False
    obtain b where "ut_del ?v ?n ?p ?s1 = (b, s2)"
      using False by (cases "ut_del ?v ?n ?p ?s1") (simp add: s2_def track_user_def x tip_ip_heard[OF assms(2)])
    from ut_del_port[OF ok this] False show ?thesis by simp
  qed
  have fold: "fold (track_user dns dbget now) (us @ [x]) st = s2" by (simp add: s2_def)
  have last: "last_user a p (us @ [x]) = (if heard (ipa di) = a \<and> ?p = p then Some x else last_user a p us)" for a p
    by (simp add: last_user_def x)
  have sa: "ses_at (tk_net s2) a p = ses_at (tk_net ?s1) a p" if "\<not> (heard (ipa di) = a \<and> ?p = p)" for a p
    using step that by (auto simp: only_at_def)
  have "case last_user a p (us @ [x]) of
      None \<Rightarrow> ses_at (tk_net s2) a p = ses_at (tk_net st) a p
    | Some (u, di, ui, q, t, s) \<Rightarrow>
        if s then (\<forall>x. ses_at (tk_net s2) a p = Some x \<longrightarrow> ses_username x = snprintf_s 31 u) \<and>
          (knows dbget (snprintf_s 31 u) st \<and> dev_at (tk_net st) a \<noteq> None \<longrightarrow>
            (\<exists>x. ses_at (tk_net s2) a p = Some x \<and>
              login_result dns now (snprintf_s 31 u) \<lparr> hname = inet_ntoa (heard (ipa ui)), ipa = heard (ipa ui) \<rparr> x))
        else ses_at (tk_net s2) a p = None" for a p
  proof (cases "heard (ipa di) = a \<and> ?p = p")
    case True
    then have l: "last_user a p (us @ [x]) = Some x" by (simp only: last if_True simp_thms)
    show ?thesis unfolding l using True step k dv[of a] by (auto simp: x)
  next
    case False
    have l: "last_user a p (us @ [x]) = last_user a p us" using False by (simp only: last if_False)
    show ?thesis using snoc unfolding l sa[OF False] by (simp add: Let_def)
  qed
  moreover have "net_ok (tk_net s2) \<and> (\<forall>a. wipe (dev_at (tk_net s2) a) = wipe (dev_at (tk_net st) a)) \<and>
    (\<forall>v. knows dbget v st \<longrightarrow> knows dbget v s2)"
    using step w k by (simp add: only_at_def)
  ultimately show ?case by (simp only: fold Let_def) blast
qed



end
