(* ===== verification/CoreManager.thy ===== *)
theory CoreManager
  imports Base64 CoreAccess TacPacket
begin

text \<open>
  The administrators of the server (\<^verbatim>\<open>src/CoreManager.cc\<close>): names, hashed passwords, access lists and the kind of
  connection each may use. MD5 is a parameter.
\<close>

section \<open>One manager\<close>

record manager =
  mg_username :: string
  mg_password :: string
  mg_type :: string
  mg_acl :: int

definition manager_hash :: "(byte list \<Rightarrow> byte list) \<Rightarrow> string \<Rightarrow> string \<Rightarrow> byte list" where
  "manager_hash md5 u p = md5_final md5 (to_bytes (snprintf_s 31 u @ p))"

text \<open>The hash is encoded as a C string: up to its first zero byte.\<close>

definition hash_text :: "(byte list \<Rightarrow> byte list) \<Rightarrow> string \<Rightarrow> string \<Rightarrow> string" where
  "hash_text md5 u p = base64Encode (Some (c_str (of_bytes (manager_hash md5 u p))))"

definition manager_check :: "(byte list \<Rightarrow> byte list) \<Rightarrow> string \<Rightarrow> manager \<Rightarrow> bool" where
  "manager_check md5 p m =
     scompn (Some (snprintf_s 63 (mg_password m))) (Some (snprintf_s 63 (hash_text md5 (mg_username m) p))) 15"

section \<open>All managers\<close>

definition new_manager :: "string \<Rightarrow> manager" where
  "new_manager u = \<lparr> mg_username = u, mg_password = ''nopassword'', mg_type = ''terminal'', mg_acl = 0 \<rparr>"

definition mgr_add :: "string \<Rightarrow> manager list \<Rightarrow> manager list" where
  "mgr_add u us = (if \<exists>m \<in> set us. mg_username m = u then us else us @ [new_manager u])"

definition mgr_del :: "string \<Rightarrow> manager list \<Rightarrow> manager list" where
  "mgr_del u us = filter (\<lambda>m. mg_username m \<noteq> u) us"

text \<open>A manager that is not there is added and looked for again.\<close>

definition mgr_change :: "string \<Rightarrow> (manager \<Rightarrow> manager) \<Rightarrow> manager list \<Rightarrow> manager list" where
  "mgr_change u f us =
     (if \<exists>m \<in> set us. mg_username m = u then upd_first (\<lambda>m. mg_username m = u) f us
      else upd_first (\<lambda>m. mg_username m = u) f (mgr_add u us))"

definition mgr_modify :: "(byte list \<Rightarrow> byte list) \<Rightarrow> string \<Rightarrow> string \<Rightarrow> manager list \<Rightarrow> manager list" where
  "mgr_modify md5 u p = mgr_change u (\<lambda>m. m \<lparr> mg_password := hash_text md5 (mg_username m) p \<rparr>)"

definition mgr_cmodify :: "string \<Rightarrow> string \<Rightarrow> manager list \<Rightarrow> manager list" where
  "mgr_cmodify u p = mgr_change u (\<lambda>m. m \<lparr> mg_password := p \<rparr>)"

definition mgr_modify_acl :: "string \<Rightarrow> int \<Rightarrow> manager list \<Rightarrow> manager list" where
  "mgr_modify_acl u a = mgr_change u (\<lambda>m. m \<lparr> mg_acl := a \<rparr>)"

definition mgr_modify2 :: "string \<Rightarrow> string \<Rightarrow> manager list \<Rightarrow> manager list" where
  "mgr_modify2 u t us = upd_first (\<lambda>m. mg_username m = u) (\<lambda>m. m \<lparr> mg_type := t \<rparr>) us"

text \<open>\<open>a\<close> is the address of the connection, \<open>t\<close> its kind.\<close>

definition mgr_check :: "regex \<Rightarrow> (byte list \<Rightarrow> byte list) \<Rightarrow> acls \<Rightarrow> string \<Rightarrow> string \<Rightarrow> string \<Rightarrow> string \<Rightarrow> manager list \<Rightarrow> bool" where
  "mgr_check rx md5 as u p a t us = (case find (\<lambda>m. mg_username m = u) us of
      None \<Rightarrow> False
    | Some m \<Rightarrow> manager_check md5 p m \<and> acl_check rx (mg_acl m) a as \<and> lower (mg_type m) = t)"

definition mgr_cfstr :: "manager \<Rightarrow> string" where
  "mgr_cfstr m = '' manager '' @ mg_username m @ [CHR 0x0A] @ ''  cpassword '' @ [CHR 0x27] @ mg_password m @ [CHR 0x27, CHR 0x0A] @
     ''  type '' @ mg_type m @ [CHR 0x0A] @ ''  acl '' @ toString_int (word_of_int (mg_acl m)) @ [CHR 0x0A] @ ''  exit''"

definition mgr_buildcfstr :: "nat \<Rightarrow> manager list \<Rightarrow> string" where
  "mgr_buildcfstr n us = (if n < length us then mgr_cfstr (us ! n) else [])"

text \<open>\<open>us\<close> are the parameters of the mode, \<open>ps\<close> those of the command, \<open>wds\<close> the words of the command.\<close>

definition mgr_applycf :: "(byte list \<Rightarrow> byte list) \<Rightarrow> string list \<Rightarrow> string \<Rightarrow> string list \<Rightarrow> string list \<Rightarrow> manager list \<Rightarrow>
    manager list cres" where
  "mgr_applycf md5 wds cmdname ps us ms =
     (if cmdname = ''confManagerNo'' then cbind (first_param ps) (\<lambda>p. Inr (mgr_del p ms))
      else if cmdname = ''confManagerNode'' then cbind (first_param ps) (\<lambda>p. Inr (mgr_add p ms))
      else if cmdname = ''confManagerPwd'' then
        cbind (first_param us) (\<lambda>u. cbind (first_param ps) (\<lambda>p. Inr (mgr_modify md5 u p ms)))
      else if cmdname = ''confManagerCPwd'' then
        cbind (first_param us) (\<lambda>u. cbind (first_param ps) (\<lambda>p. Inr (mgr_cmodify u p ms)))
      else if cmdname = ''confManagerAcl'' then
        cbind (first_param us) (\<lambda>u. cbind (first_param ps) (\<lambda>p. Inr (mgr_modify_acl u (atoi_c p) ms)))
      else if cmdname \<in> {''confManagerHttp'', ''confManagerTerm'', ''confManagerTci''} then
        cbind (first_param us) (\<lambda>u. if length wds < 2 then Inl OutOfBounds else Inr (mgr_modify2 u (lower (wds ! 1)) ms))
      else Inr ms)"

section \<open>The registry of managers\<close>

definition mgr_keys :: "manager list \<Rightarrow> string list" where
  "mgr_keys us = map mg_username us"

lemma mgr_keys_simps [reg_simps]:
  "mgr_keys (mgr_add u us) = (if u \<in> set (mgr_keys us) then mgr_keys us else mgr_keys us @ [u])"
  "mgr_keys (mgr_del u us) = filter (\<lambda>x. x \<noteq> u) (mgr_keys us)"
  by (auto simp: mgr_add_def mgr_del_def) (auto simp: mgr_keys_def new_manager_def map_filter_key)

interpretation mgr_reg: registry mgr_keys mgr_add mgr_del
  by unfold_locales (simp_all add: reg_simps)

lemma mgr_keys_change:
  assumes "\<And>m. mg_username (f m) = mg_username m"
  shows "mgr_keys (mgr_change u f us) = mgr_keys (mgr_add u us)"
proof -
  have "mgr_keys (upd_first P f ms) = mgr_keys ms" for P ms
    unfolding mgr_keys_def by (rule map_upd_first) (rule assms)
  then show ?thesis by (auto simp: mgr_change_def mgr_add_def)
qed

lemma find_change:
  assumes "\<And>m. mg_username (f m) = mg_username m"
  shows "find (\<lambda>m. mg_username m = u) (mgr_change u f us) = map_option f (find (\<lambda>m. mg_username m = u) (mgr_add u us))"
proof -
  have "find (\<lambda>m. mg_username m = u) (upd_first (\<lambda>m. mg_username m = u) f ms) = map_option f (find (\<lambda>m. mg_username m = u) ms)" for ms
    by (rule find_upd_first_same) (simp add: assms)
  then show ?thesis by (auto simp: mgr_change_def mgr_add_def)
qed

section \<open>Passwords\<close>

lemma length_manager_hash [simp]: "length (manager_hash md5 u p) = 16"
  by (simp add: manager_hash_def)

lemma hash_text_eq:
  "hash_text md5 u p = b64_groups (of_bytes (takeWhile (\<lambda>b. b \<noteq> 0) (manager_hash md5 u p)))"
proof -
  let ?s = "of_bytes (takeWhile (\<lambda>b. b \<noteq> 0) (manager_hash md5 u p))"
  have c: "c_str (of_bytes (manager_hash md5 u p)) = ?s" by (rule c_str_of_bytes)
  then have n: "nul_free ?s" using nul_free_c_str[of "of_bytes (manager_hash md5 u p)"] by simp
  have l: "length ?s \<le> 16" using length_takeWhile_le[of "\<lambda>b. b \<noteq> 0" "manager_hash md5 u p"] by simp
  then have "length (b64_groups ?s) \<le> 24" by (simp add: b64_groups_length)
  then show ?thesis using l n by (simp add: hash_text_def base64Encode_def c snprintf_s_short)
qed

lemma zero_first: "n \<le> length bs \<Longrightarrow> (n \<le> length (takeWhile (\<lambda>b. b \<noteq> 0) bs)) = (0 \<notin> set (take n bs))"
proof (induction bs arbitrary: n)
  case (Cons b bs)
  then show ?case by (cases n) auto
qed simp

lemma take_takeWhile: "n \<le> length (takeWhile P xs) \<Longrightarrow> take n (takeWhile P xs) = take n xs"
  by (metis takeWhile_eq_take take_take min.absorb1)

text \<open>A stored password and one typed in match: fifteen characters of the encodings decide.\<close>

lemma hash_match:
  "scompn (Some (snprintf_s 63 (hash_text md5 u p))) (Some (snprintf_s 63 (hash_text md5 u q))) 15 =
    (0 \<notin> set (take 10 (manager_hash md5 u p)) \<and> 0 \<notin> set (take 10 (manager_hash md5 u q)) \<and>
     take 15 (hash_text md5 u p) = take 15 (hash_text md5 u q))"
proof -
  have l: "(15 \<le> length (hash_text md5 u p)) = (0 \<notin> set (take 10 (manager_hash md5 u p)))" for p
  proof -
    have "(15 \<le> 4 * ((n + 2) div 3)) = (10 \<le> n)" for n :: nat by presburger
    then show ?thesis using zero_first[of 10 "manager_hash md5 u p"] by (simp add: hash_text_eq b64_groups_length)
  qed
  have s: "snprintf_s 63 (hash_text md5 u p) = hash_text md5 u p" for p
  proof -
    have "nul_free (hash_text md5 u p)" by (auto simp: hash_text_def base64Encode_def)
    moreover have "length (hash_text md5 u p) \<le> 62"
      using length_takeWhile_le[of "\<lambda>b. b \<noteq> 0" "manager_hash md5 u p"] by (simp add: hash_text_eq b64_groups_length)
    ultimately show ?thesis by (simp add: snprintf_s_short)
  qed
  show ?thesis using l[of p] l[of q] by (auto simp: s not_less)
qed

section \<open>Properties\<close>

text \<open>C20: after a password is set, a manager logs in with that password exactly when none of the first ten bytes of its hash is
zero and the access list and the kind of connection agree; with another password only when the first eleven bytes of
the two hashes agree. A manager whose hash has an early zero byte is locked out.\<close>

theorem manager_login:
  "mgr_check rx md5 as u p a t (mgr_modify md5 u p us) =
     (0 \<notin> set (take 10 (manager_hash md5 u p)) \<and>
      (\<exists>m. find (\<lambda>m. mg_username m = u) (mgr_add u us) = Some m \<and> acl_check rx (mg_acl m) a as \<and> lower (mg_type m) = t)) \<and>
   (mgr_check rx md5 as u q a t (mgr_modify md5 u p us) \<longrightarrow>
      take 11 (manager_hash md5 u q) = take 11 (manager_hash md5 u p))"
proof -
  have f: "find (\<lambda>m. mg_username m = u) (mgr_modify md5 u p us) =
      map_option (\<lambda>m. m \<lparr> mg_password := hash_text md5 (mg_username m) p \<rparr>) (find (\<lambda>m. mg_username m = u) (mgr_add u us))"
    unfolding mgr_modify_def by (rule find_change) simp
  have "u \<in> set (mgr_keys (mgr_add u us))" by (rule mgr_reg.member_add)
  then obtain m where m: "find (\<lambda>m. mg_username m = u) (mgr_add u us) = Some m"
    using find_key_iff[of mg_username u "mgr_add u us"] by (auto simp: mgr_keys_def)
  then have u: "mg_username m = u" by (auto simp: find_Some_iff)
  have c: "mgr_check rx md5 as u r a t (mgr_modify md5 u p us) =
      (0 \<notin> set (take 10 (manager_hash md5 u p)) \<and> 0 \<notin> set (take 10 (manager_hash md5 u r)) \<and>
       take 15 (hash_text md5 u p) = take 15 (hash_text md5 u r) \<and> acl_check rx (mg_acl m) a as \<and> lower (mg_type m) = t)" for r
    by (simp add: mgr_check_def f m u manager_check_def hash_match del: scompn.simps)
  have "take 11 (manager_hash md5 u q) = take 11 (manager_hash md5 u p)"
    if z: "0 \<notin> set (take 10 (manager_hash md5 u p))" "0 \<notin> set (take 10 (manager_hash md5 u q))"
      and e: "take 15 (hash_text md5 u p) = take 15 (hash_text md5 u q)"
  proof -
    let ?w = "\<lambda>r. takeWhile (\<lambda>b. b \<noteq> 0) (manager_hash md5 u r)"
    have l: "10 \<le> length (?w p)" "10 \<le> length (?w q)" using z by (simp_all add: zero_first)
    have "take 11 (of_bytes (?w p)) = take 11 (of_bytes (?w q))"
      by (rule b64_eleven) (use l e in \<open>simp_all add: hash_text_eq\<close>)
    then have w: "take 11 (?w p) = take 11 (?w q)" by (metis bytes_simps(2) of_bytes_take_drop(1))
    show ?thesis
    proof (cases "11 \<le> length (?w p)")
      case True
      then have "11 \<le> length (?w q)" using arg_cong[OF w, of length] by simp
      with True w show ?thesis by (metis take_takeWhile)
    next
      case False
      then have n: "length (?w p) = 10" "length (?w q) = 10" using arg_cong[OF w, of length] l by simp_all
      have z10: "manager_hash md5 u r ! 10 = 0" if "length (?w r) = 10" for r
        using nth_length_takeWhile[of "\<lambda>b. b \<noteq> 0" "manager_hash md5 u r"] that by simp
      have t10: "take 11 (manager_hash md5 u r) = ?w r @ [0]" if "length (?w r) = 10" for r
        using take_Suc_conv_app_nth[of 10 "manager_hash md5 u r"] z10[OF that] take_takeWhile[of 10 "\<lambda>b. b \<noteq> 0" "manager_hash md5 u r"] that
        by simp
      show ?thesis using w n by (simp add: t10)
    qed
  qed
  then show ?thesis using c[of p] c[of q] m by auto
qed

lemma manager_login_witness:
  "mgr_check (\<lambda>_ _. Some True) (\<lambda>_. replicate 16 7) [\<lparr> acl_number = 0, acl_rules = [\<lparr> permit = ''.'', deny = [] \<rparr>] \<rparr>] ''adm'' ''pw''
     ''10.0.0.1'' ''terminal'' (mgr_modify (\<lambda>_. replicate 16 7) ''adm'' ''pw'' []) \<and>
   \<not> mgr_check (\<lambda>_ _. Some True) (\<lambda>bs. if bs = to_bytes ''admpw'' then replicate 16 7 else replicate 16 8)
     [\<lparr> acl_number = 0, acl_rules = [\<lparr> permit = ''.'', deny = [] \<rparr>] \<rparr>] ''adm'' ''px''
     ''10.0.0.1'' ''terminal'' (mgr_modify (\<lambda>bs. if bs = to_bytes ''admpw'' then replicate 16 7 else replicate 16 8) ''adm'' ''pw'' [])"
    (is "mgr_check ?rx ?md5 ?as ?u ?p ?a ?t ?us \<and> \<not> mgr_check _ ?md5' _ _ ?q _ _ ?us'")
proof -
  have h: "manager_hash ?md5 ?u ?p = replicate 16 7" by (simp add: manager_hash_def md5_final_def)
  have a: "acl_check ?rx 0 ?a ?as" by (simp add: checkDeny_def checkPermit_def rx_hit_def snprintf_s_short)
  have t: "lower ''terminal'' = ''terminal''" by code_simp
  have "mgr_check ?rx ?md5 ?as ?u ?p ?a ?t ?us"
    using conjunct1[OF manager_login[of ?rx ?md5 ?as ?u ?p ?a ?t "[]"]] h a t by (simp add: mgr_add_def new_manager_def del: acl_check.simps data_check.simps)
  moreover have "manager_hash ?md5' ?u ?p = replicate 16 7" "manager_hash ?md5' ?u ?q = replicate 16 8" by code_simp+
  then have "\<not> mgr_check ?rx ?md5' ?as ?u ?q ?a ?t ?us'"
    using conjunct2[OF manager_login[of ?rx ?md5' ?as ?u ?p ?a ?t "[]" ?q]] by auto
  ultimately show ?thesis by simp
qed

end
