(* ===== verification/CorePeer.thy ===== *)
theory CorePeer
  imports IpAddr
begin

text \<open>
  Peers for roaming (\<^verbatim>\<open>src/CorePeer.cc\<close>): servers by address and port, each with the patterns of the logins it
  keeps. The regular expression library is a parameter.
\<close>

section \<open>One peer\<close>

record peer =
  pe_masks :: "string list"
  pe_descr :: string
  pe_key :: string
  pe_host :: ipaddr
  pe_port :: "32 word"

definition mask_check :: "regex \<Rightarrow> string \<Rightarrow> string \<Rightarrow> bool" where
  "mask_check rx s m = (0 < length m \<and> rx m s = Some True)"

definition new_peer :: "ipaddr \<Rightarrow> 32 word \<Rightarrow> peer" where
  "new_peer a p = \<lparr> pe_masks = [], pe_descr = ''none'', pe_key = ''none'', pe_host = a, pe_port = p \<rparr>"

definition check_by_mask :: "regex \<Rightarrow> string \<Rightarrow> peer \<Rightarrow> bool" where
  "check_by_mask rx s d = (\<exists>m \<in> set (pe_masks d). mask_check rx s m)"

definition data_add_mask :: "string \<Rightarrow> peer \<Rightarrow> peer" where
  "data_add_mask s d = (if s \<in> set (pe_masks d) then d else d \<lparr> pe_masks := pe_masks d @ [s] \<rparr>)"

definition data_del_mask :: "string \<Rightarrow> peer \<Rightarrow> peer" where
  "data_del_mask s d = d \<lparr> pe_masks := del_first (\<lambda>m. m = s) (pe_masks d) \<rparr>"

definition peer_cfstr :: "peer \<Rightarrow> string" where
  "peer_cfstr d = '' peer '' @ hname (pe_host d) @ '':'' @ toString_uint (pe_port d) @ [CHR 0x0A] @
     ''  description '' @ [CHR 0x27] @ pe_descr d @ [CHR 0x27, CHR 0x0A] @ ''  cryptokey '' @ pe_key d @ [CHR 0x0A] @
     concat (map (\<lambda>m. ''  mask '' @ m @ [CHR 0x0A]) (pe_masks d)) @ ''  exit''"

section \<open>All peers\<close>

definition at_peer :: "ipaddr \<Rightarrow> 32 word \<Rightarrow> peer \<Rightarrow> bool" where
  "at_peer a p d = (ip_eq (pe_host d) a \<and> pe_port d = p)"

definition peer_add :: "ipaddr \<Rightarrow> 32 word \<Rightarrow> peer list \<Rightarrow> peer list" where
  "peer_add a p pd = (if \<exists>d \<in> set pd. at_peer a p d then pd else pd @ [new_peer a p])"

definition peer_del :: "ipaddr \<Rightarrow> 32 word \<Rightarrow> peer list \<Rightarrow> peer list" where
  "peer_del a p pd = del_first (at_peer a p) pd"

definition add_mask :: "ipaddr \<Rightarrow> 32 word \<Rightarrow> string \<Rightarrow> peer list \<Rightarrow> peer list" where
  "add_mask a p s = upd_first (at_peer a p) (data_add_mask s)"

definition del_mask :: "ipaddr \<Rightarrow> 32 word \<Rightarrow> string \<Rightarrow> peer list \<Rightarrow> peer list" where
  "del_mask a p s = upd_first (at_peer a p) (data_del_mask s)"

definition modify_des :: "ipaddr \<Rightarrow> 32 word \<Rightarrow> string \<Rightarrow> peer list \<Rightarrow> peer list" where
  "modify_des a p s = upd_first (at_peer a p) (\<lambda>d. d \<lparr> pe_descr := s \<rparr>)"

definition modify_key :: "ipaddr \<Rightarrow> 32 word \<Rightarrow> string \<Rightarrow> peer list \<Rightarrow> peer list" where
  "modify_key a p s = upd_first (at_peer a p) (\<lambda>d. d \<lparr> pe_key := s \<rparr>)"

definition peer_buildcfstr :: "nat \<Rightarrow> peer list \<Rightarrow> string" where
  "peer_buildcfstr n pd = (if n < length pd then peer_cfstr (pd ! n) else [])"

text \<open>A peer is named by \<open>address:port\<close>; \<open>us\<close> are the parameters of the mode.\<close>

definition peer_named :: "dns \<Rightarrow> string list \<Rightarrow> (ipaddr \<times> 32 word) cres" where
  "peer_named dns ps = cbind (first_param ps) (\<lambda>p. cbind (splitId (Some p) 1) (\<lambda>h. cbind (splitId (Some p) 2) (\<lambda>n.
     Inr (ip_fill dns h, word_of_int (atoi_c n)))))"

definition peer_applycf :: "dns \<Rightarrow> string \<Rightarrow> string list \<Rightarrow> string list \<Rightarrow> peer list \<Rightarrow> peer list cres" where
  "peer_applycf dns cmdname ps us pd =
     (if cmdname = ''confPeerNo'' then cbind (peer_named dns ps) (\<lambda>(a, p). Inr (peer_del a p pd))
      else if cmdname = ''confPeerNode'' then cbind (peer_named dns ps) (\<lambda>(a, p). Inr (peer_add a p pd))
      else cbind (peer_named dns us) (\<lambda>(a, p).
        if cmdname = ''confPeerDescr'' then cbind (first_param ps) (\<lambda>s. Inr (modify_des a p s pd))
        else if cmdname = ''confPeerCrypto'' then cbind (first_param ps) (\<lambda>s. Inr (modify_key a p s pd))
        else if cmdname = ''confPeerMask'' then cbind (first_param ps) (\<lambda>s. Inr (add_mask a p s pd))
        else if cmdname = ''confPeerNoMask'' then cbind (first_param ps) (\<lambda>s. Inr (del_mask a p s pd))
        else Inr pd))"

section \<open>The registry of peers\<close>

definition peer_keys :: "peer list \<Rightarrow> (ipv4 \<times> 32 word) list" where
  "peer_keys pd = map (\<lambda>d. (ipa (pe_host d), pe_port d)) pd"

lemma at_peer_key: "at_peer a p d = ((ipa (pe_host d), pe_port d) = (ipa a, p))"
  by (simp add: at_peer_def ip_eq_def)

lemma peer_keys_simps [reg_simps]:
  "peer_keys (peer_add a p pd) = (if (ipa a, p) \<in> set (peer_keys pd) then peer_keys pd else peer_keys pd @ [(ipa a, p)])"
  "distinct (peer_keys pd) \<Longrightarrow> peer_keys (peer_del a p pd) = filter (\<lambda>x. x \<noteq> (ipa a, p)) (peer_keys pd)"
proof -
  have e: "at_peer a p = (\<lambda>d. (ipa (pe_host d), pe_port d) = (ipa a, p))" using at_peer_key by blast
  show "peer_keys (peer_add a p pd) = (if (ipa a, p) \<in> set (peer_keys pd) then peer_keys pd else peer_keys pd @ [(ipa a, p)])"
    by (auto simp: peer_add_def at_peer_key peer_keys_def new_peer_def intro: rev_image_eqI)
  show "distinct (peer_keys pd) \<Longrightarrow> peer_keys (peer_del a p pd) = filter (\<lambda>x. x \<noteq> (ipa a, p)) (peer_keys pd)"
    unfolding peer_keys_def peer_del_def e by (rule map_del_first_key)
qed

interpretation peer_reg: registry peer_keys "\<lambda>(k, p). peer_add \<lparr> hname = h k, ipa = k \<rparr> p" "\<lambda>(k, p). peer_del \<lparr> hname = h k, ipa = k \<rparr> p" for h
  by unfold_locales (auto simp: reg_simps)

text \<open>A peer keeps a login exactly when one of the patterns added and not deleted since is found in it.\<close>

lemma masks_after:
  "distinct (pe_masks d) \<Longrightarrow> check_by_mask rx s (data_add_mask m d) = (mask_check rx s m \<or> check_by_mask rx s d)"
  "distinct (pe_masks d) \<Longrightarrow> check_by_mask rx s (data_del_mask m d) = (\<exists>k \<in> set (pe_masks d) - {m}. mask_check rx s k)"
proof -
  show "check_by_mask rx s (data_add_mask m d) = (mask_check rx s m \<or> check_by_mask rx s d)"
    by (auto simp: check_by_mask_def data_add_mask_def)
  assume "distinct (pe_masks d)"
  then have "del_first (\<lambda>k. k = m) (pe_masks d) = filter (\<lambda>k. k \<noteq> m) (pe_masks d)"
    using map_del_first_key[of "\<lambda>x. x" "pe_masks d" m] by simp
  then show "check_by_mask rx s (data_del_mask m d) = (\<exists>k \<in> set (pe_masks d) - {m}. mask_check rx s k)"
    by (auto simp: check_by_mask_def data_del_mask_def)
qed

end
