(* ===== verification/NetFlow.thy ===== *)
theory NetFlow
  imports IpAddr "HOL-Library.AList"
begin

text \<open>
  The aggregator of NetFlow records (\<^verbatim>\<open>src/NetFlow.cc\<close>): export packets are read into flows by device, source and
  destination, a thread writes those that expired to the database or to a file. \<open>L\<close> is the size of an
  \<^verbatim>\<open>unsigned long\<close> in bytes (the header and the records are declared with it), on a little-endian host. Results of
  opening the database and the log file are parameters.
\<close>

unbundle bit_operations_syntax

section \<open>Flows\<close>

record nfdata =
  nf_octets :: nat
  nf_packets :: nat
  nf_ifin :: nat
  nf_start :: int
  nf_stop :: int

type_synonym nf_src = "(nat \<times> nfdata) list"
type_synonym nf_dev = "(nat \<times> nf_src) list"
type_synonym nf_map = "(nat \<times> nf_dev) list"

definition data_add :: "nat \<Rightarrow> nat \<Rightarrow> nat \<Rightarrow> int \<Rightarrow> nfdata \<Rightarrow> nfdata" where
  "data_add L r p t x = x \<lparr> nf_octets := (nf_octets x + r) mod 256 ^ L, nf_stop := t, nf_packets := (nf_packets x + p) mod 256 ^ L \<rparr>"

definition isExpired :: "int \<Rightarrow> int \<Rightarrow> nfdata \<Rightarrow> bool" where
  "isExpired now expire x =
     (if expire < nf_stop x - nf_start x then True
      else if expire < now - nf_stop x then True
      else if expire * 2 < now - nf_start x then True else False)"

text \<open>Insertion of a new key: maps are kept by increasing keys.\<close>

fun map_insert :: "nat \<Rightarrow> 'v \<Rightarrow> (nat \<times> 'v) list \<Rightarrow> (nat \<times> 'v) list" where
  "map_insert k v [] = [(k, v)]"
| "map_insert k v ((k', v') # m) = (if k < k' then (k, v) # (k', v') # m else (k', v') # map_insert k v m)"

record nf_flow =
  fl_src :: nat
  fl_dst :: nat
  fl_octets :: nat
  fl_packets :: nat
  fl_ifin :: nat
  fl_start :: int
  fl_stop :: int

definition new_data :: "nf_flow \<Rightarrow> nfdata" where
  "new_data f = \<lparr> nf_octets = fl_octets f, nf_packets = fl_packets f, nf_ifin = fl_ifin f, nf_start = fl_start f, nf_stop = fl_stop f \<rparr>"

record aggregator =
  nfb :: nf_map
  buf_size :: int

definition nf_add :: "nat \<Rightarrow> nat \<Rightarrow> nf_flow \<Rightarrow> aggregator \<Rightarrow> aggregator" where
  "nf_add L d f a = (case map_of (nfb a) d of
      None \<Rightarrow> a \<lparr> nfb := map_insert d [(fl_src f, [(fl_dst f, new_data f)])] (nfb a), buf_size := buf_size a + 1 \<rparr>
    | Some m \<Rightarrow> (case map_of m (fl_src f) of
        None \<Rightarrow> a \<lparr> nfb := AList.update d (map_insert (fl_src f) [(fl_dst f, new_data f)] m) (nfb a), buf_size := buf_size a + 1 \<rparr>
      | Some s \<Rightarrow> (case map_of s (fl_dst f) of
          None \<Rightarrow> a \<lparr> nfb := AList.update d (AList.update (fl_src f) (map_insert (fl_dst f) (new_data f) s) m) (nfb a),
            buf_size := buf_size a + 1 \<rparr>
        | Some x \<Rightarrow> a \<lparr> nfb := AList.update d (AList.update (fl_src f)
            (AList.update (fl_dst f) (data_add L (fl_octets f) (fl_packets f) (fl_stop f) x) s) m) (nfb a) \<rparr>)))"

definition nf_nodes :: "aggregator \<Rightarrow> nat" where
  "nf_nodes a = length (nfb a)"

definition nf_sources :: "aggregator \<Rightarrow> nat" where
  "nf_sources a = sum_list (map (\<lambda>(d, m). length m) (nfb a))"

section \<open>Export packets\<close>

text \<open>A number in the order of the network, and as the host has it in memory.\<close>

definition be_at :: "nat \<Rightarrow> nat \<Rightarrow> byte list \<Rightarrow> nat" where
  "be_at n k buf = foldl (\<lambda>a b. a * 256 + unat b) 0 (take n (drop k buf))"

definition le_at :: "nat \<Rightarrow> nat \<Rightarrow> byte list \<Rightarrow> nat" where
  "le_at n k buf = foldr (\<lambda>b a. unat b + 256 * a) (take n (drop k buf)) 0"

definition nf_time :: "nat \<Rightarrow> int \<Rightarrow> int" where
  "nf_time L x = signed_take_bit (8 * L - 1) x"

definition nf_version :: "byte list \<Rightarrow> int" where
  "nf_version buf = (sint (buf ! 0) * 256) OR sint (buf ! 1)"

text \<open>Lengths of the header and of a record.\<close>

definition nf_sizes :: "nat \<Rightarrow> int \<Rightarrow> (nat \<times> nat) option" where
  "nf_sizes L v = (if v = 1 then Some (3 * L + 4, 8 * L + 16) else if v = 5 then Some (4 * L + 8, 7 * L + 20)
     else if v = 7 then Some (5 * L + 4, 10 * L + 16) else None)"

definition nf_record :: "nat \<Rightarrow> byte list \<Rightarrow> nat \<Rightarrow> nf_flow" where
  "nf_record L buf k =
     (let sut = nf_time L ((int (be_at 4 (4 + L) buf) - int (be_at 4 4 buf div 1000)) mod 2 ^ 32)
      in \<lparr> fl_src = le_at L k buf, fl_dst = le_at L (k + L) buf, fl_octets = be_at 4 (k + 4 * L + 4) buf,
           fl_packets = be_at 4 (k + 3 * L + 4) buf, fl_ifin = be_at 2 (k + 3 * L) buf,
           fl_start = nf_time L (sut + int (be_at 4 (k + 5 * L + 4) buf div 1000)),
           fl_stop = nf_time L (sut + int (be_at 4 (k + 6 * L + 4) buf div 1000)) \<rparr>)"

definition nf_records :: "nat \<Rightarrow> byte list \<Rightarrow> nf_flow list cres" where
  "nf_records L buf =
     (if length buf < 2 then Inl OutOfBounds
      else case nf_sizes L (nf_version buf) of
        None \<Rightarrow> Inr []
      | Some (h, r) \<Rightarrow>
          if length buf < 4 then Inl OutOfBounds
          else let n = be_at 2 2 buf
               in if n \<noteq> 0 \<and> length buf < h + r * (n - 1) + 7 * L + 4 then Inl OutOfBounds
                  else Inr (map (\<lambda>i. nf_record L buf (h + r * i)) [0..<n]))"

definition nf_process :: "nat \<Rightarrow> nat \<Rightarrow> byte list \<Rightarrow> aggregator \<Rightarrow> aggregator cres" where
  "nf_process L ip buf a = cbind (nf_records L buf) (\<lambda>fs. Inr (fold (nf_add L ip) fs a))"

section \<open>Writing\<close>

record nf_row =
  row_dev :: nat
  row_src :: nat
  row_dst :: nat
  row_data :: nfdata

datatype nf_out = ToDb int nf_row | ToFile string nf_row | Lost nf_row | CloseDb int

record sink =
  sk_cid :: int
  sk_open :: bool
  sk_closer :: nat
  sk_name :: string
  sk_fd :: "string option"
  sk_tries :: nat

definition no_sink :: sink where
  "no_sink = \<lparr> sk_cid = 0, sk_open = False, sk_closer = 0, sk_name = [], sk_fd = None, sk_tries = 0 \<rparr>"

text \<open>The file of the day \<open>day\<close> (\<open>can\<close>: it can be opened); \<open>sk_fd\<close> is the name of the file that is open. The last name is
compared through an array of 100 bytes, so that a name of more than 98 characters is never the last one: its file is
opened again for each row.\<close>

definition nf_log :: "string \<Rightarrow> bool \<Rightarrow> sink \<Rightarrow> sink" where
  "nf_log day can s =
     (let s' = (if take 98 (sk_name s) \<noteq> day then s \<lparr> sk_name := day, sk_fd := None, sk_closer := 0 \<rparr>
                else s \<lparr> sk_name := day \<rparr>)
      in if sk_fd s' \<noteq> None then s' else s' \<lparr> sk_fd := (if can then Some day else None) \<rparr>)"

text \<open>One row: the database is opened when it is not; when that fails the row goes to the file. After 2000 rows everything
is closed.\<close>

definition nf_write :: "(nat \<Rightarrow> int) \<Rightarrow> string \<Rightarrow> bool \<Rightarrow> nf_row \<Rightarrow> sink \<Rightarrow> sink \<times> nf_out list" where
  "nf_write opens day can r s =
     (let s1 = (if sk_open s then s else s \<lparr> sk_cid := opens (sk_tries s), sk_open := (opens (sk_tries s) \<noteq> 0), sk_tries := Suc (sk_tries s) \<rparr>);
          s2 = (if sk_open s1 then s1 else nf_log day can s1);
          out = (if sk_open s2 then [ToDb (sk_cid s2) r]
                 else case sk_fd s2 of Some f \<Rightarrow> [ToFile f r] | None \<Rightarrow> [Lost r])
      in if 2000 < Suc (sk_closer s2)
         then (s2 \<lparr> sk_cid := 0, sk_open := False, sk_fd := None, sk_closer := 0 \<rparr>, out @ (if sk_open s2 then [CloseDb (sk_cid s2)] else []))
         else (s2 \<lparr> sk_closer := Suc (sk_closer s2) \<rparr>, out))"

section \<open>A round of the thread\<close>

text \<open>The thread goes over the maps for ever; one round is from the first device to the last. Rows taken out are collected;
erasing an element continues behind the first one, and past the end when nothing is left: there the behaviour is undefined.\<close>

definition nf_take :: "int \<Rightarrow> int \<Rightarrow> nat \<Rightarrow> nat \<Rightarrow> nf_src \<Rightarrow> nf_row list \<times> nf_src" where
  "nf_take now expire d s m =
     (map (\<lambda>(k, x). \<lparr> row_dev = d, row_src = s, row_dst = k, row_data = x \<rparr>) (filter (\<lambda>(k, x). isExpired now expire x) m),
      filter (\<lambda>(k, x). \<not> isExpired now expire x) m)"

function nf_sources_loop :: "int \<Rightarrow> int \<Rightarrow> nat \<Rightarrow> nat \<Rightarrow> nf_dev \<Rightarrow> (nf_row list \<times> nf_dev) cres" where
  "nf_sources_loop now expire d j m =
     (if length m \<le> j then Inr ([], m)
      else if snd (m ! j) = [] then
        (let m' = take j m @ drop (Suc j) m
         in if m' = [] then Inl OutOfBounds else nf_sources_loop now expire d 1 m')
      else case nf_take now expire d (fst (m ! j)) (snd (m ! j)) of (rs, s') \<Rightarrow>
        cbind (nf_sources_loop now expire d (Suc j) (m[j := (fst (m ! j), s')])) (\<lambda>(rs', m'). Inr (rs @ rs', m')))"
  by pat_completeness auto
termination by (relation "measures [\<lambda>(now, expire, d, j, m). length m, \<lambda>(now, expire, d, j, m). length m - j]") auto

declare nf_sources_loop.simps [simp del]

function nf_devices_loop :: "int \<Rightarrow> int \<Rightarrow> nat \<Rightarrow> nf_map \<Rightarrow> (nf_row list \<times> nf_map) cres" where
  "nf_devices_loop now expire i m =
     (if length m \<le> i then Inr ([], m)
      else if snd (m ! i) = [] then
        (let m' = take i m @ drop (Suc i) m
         in if m' = [] then Inl OutOfBounds else nf_devices_loop now expire 1 m')
      else cbind (nf_sources_loop now expire (fst (m ! i)) 0 (snd (m ! i))) (\<lambda>(rs, s').
        cbind (nf_devices_loop now expire (Suc i) (m[i := (fst (m ! i), s')])) (\<lambda>(rs', m'). Inr (rs @ rs', m'))))"
  by pat_completeness auto
termination by (relation "measures [\<lambda>(now, expire, i, m). length m, \<lambda>(now, expire, i, m). length m - i]") auto

declare nf_devices_loop.simps [simp del]

definition nf_round :: "(nat \<Rightarrow> int) \<Rightarrow> string \<Rightarrow> bool \<Rightarrow> int \<Rightarrow> int \<Rightarrow> aggregator \<times> sink \<Rightarrow>
    ((aggregator \<times> sink) \<times> nf_out list) cres" where
  "nf_round opens day can now expire st = (case st of (a, s) \<Rightarrow>
     cbind (nf_devices_loop now expire 0 (nfb a)) (\<lambda>(rs, m).
       case fold (\<lambda>r (s, out). case nf_write opens day can r s of (s', o') \<Rightarrow> (s', out @ o')) rs (s, []) of (s', out) \<Rightarrow>
         Inr ((a \<lparr> nfb := m, buf_size := buf_size a - int (length rs) \<rparr>, s'), out)))"

definition addExpireTime :: "int \<Rightarrow> int" where "addExpireTime t = (if t < 900 then t + 1 else t)"
definition delExpireTime :: "int \<Rightarrow> int" where "delExpireTime t = (if 180 < t then t - 1 else t)"

section \<open>Lemmas\<close>

lemma set_map_insert: "set (map_insert k v m) = insert (k, v) (set m)"
  by (induction k v m rule: map_insert.induct) auto

lemma map_of_insert: "map_of m k = None \<Longrightarrow> map_of (map_insert k v m) = (map_of m)(k \<mapsto> v)"
  by (induction k v m rule: map_insert.induct) (auto split: if_splits)

lemma distinct_insert: "distinct (map fst m) \<Longrightarrow> map_of m k = None \<Longrightarrow> distinct (map fst (map_insert k v m))"
proof (induction k v m rule: map_insert.induct)
  case (2 k v k' v' m)
  have "fst ` set (map_insert k v m) = insert k (fst ` set m)" by (auto simp: set_map_insert)
  with 2 show ?case by (auto simp: map_of_eq_None_iff split: if_splits)
qed simp

lemma map_of_list_update:
  "distinct (map fst m) \<Longrightarrow> j < length m \<Longrightarrow> map_of (m[j := (fst (m ! j), v)]) = (map_of m)(fst (m ! j) \<mapsto> v)"
proof (induction m arbitrary: j)
  case (Cons x m)
  show ?case
  proof (cases j)
    case (Suc i)
    then have i: "i < length m" using Cons.prems(2) by simp
    then have "fst (m ! i) \<in> fst ` set m" by simp
    moreover have "fst x \<notin> fst ` set m" using Cons.prems(1) by simp
    ultimately have ne: "fst (m ! i) \<noteq> fst x" by metis
    with Cons.IH[OF _ i] Cons.prems(1) Suc show ?thesis by (cases x) (auto simp: fun_eq_iff)
  qed (cases x, auto simp: fun_eq_iff)
qed simp

lemma map_of_list_delete:
  "distinct (map fst m) \<Longrightarrow> j < length m \<Longrightarrow> map_of (take j m @ drop (Suc j) m) = (map_of m)(fst (m ! j) := None)"
proof (induction m arbitrary: j)
  case (Cons x m)
  show ?case
  proof (cases j)
    case 0
    then have "fst x \<notin> fst ` set m" using Cons.prems by simp
    with 0 show ?thesis by (cases x) (auto simp: fun_eq_iff map_of_eq_None_iff)
  next
    case (Suc i)
    then have i: "i < length m" using Cons.prems(2) by simp
    then have "fst (m ! i) \<in> fst ` set m" by simp
    moreover have "fst x \<notin> fst ` set m" using Cons.prems(1) by simp
    ultimately have ne: "fst (m ! i) \<noteq> fst x" by metis
    with Cons.IH[OF _ i] Cons.prems(1) Suc show ?thesis by (cases x) (auto simp: fun_eq_iff)
  qed
qed simp

lemma distinct_list_update: "j < length m \<Longrightarrow> map fst (m[j := (fst (m ! j), v)]) = map fst m"
  by (simp add: map_update list_update_same_conv)

lemma distinct_list_delete: "distinct (map fst m) \<Longrightarrow> distinct (map fst (take j m @ drop (Suc j) m))"
proof -
  assume d: "distinct (map fst m)"
  have "map fst (take j m @ drop (Suc j) m) = take j (map fst m) @ drop (Suc j) (map fst m)" by (simp add: take_map drop_map)
  moreover have "distinct (take j (map fst m) @ drop (Suc j) (map fst m))"
    using d set_take_disj_set_drop_if_distinct[of "map fst m" j "Suc j"] by (simp add: distinct_take distinct_drop)
  ultimately show ?thesis by simp
qed

text \<open>The octets kept for a destination, a source, a device; and those in rows.\<close>

definition src_octets :: "nf_src \<Rightarrow> nat \<Rightarrow> nat" where
  "src_octets m t = (case map_of m t of None \<Rightarrow> 0 | Some x \<Rightarrow> nf_octets x)"

definition dev_octets :: "nf_dev \<Rightarrow> nat \<Rightarrow> nat \<Rightarrow> nat" where
  "dev_octets m s t = (case map_of m s of None \<Rightarrow> 0 | Some x \<Rightarrow> src_octets x t)"

definition octets_in :: "nf_map \<Rightarrow> nat \<Rightarrow> nat \<Rightarrow> nat \<Rightarrow> nat" where
  "octets_in m d s t = (case map_of m d of None \<Rightarrow> 0 | Some x \<Rightarrow> dev_octets x s t)"

definition octets_out :: "nf_row list \<Rightarrow> nat \<Rightarrow> nat \<Rightarrow> nat \<Rightarrow> nat" where
  "octets_out rs d s t = sum_list (map (\<lambda>r. if row_dev r = d \<and> row_src r = s \<and> row_dst r = t then nf_octets (row_data r) else 0) rs)"

lemma octets_out_simps [simp]:
  "octets_out [] d s t = 0" "octets_out (rs @ qs) d s t = octets_out rs d s t + octets_out qs d s t"
  by (simp_all add: octets_out_def)

text \<open>Keys are distinct on each level, no device is without a source.\<close>

definition dev_wf :: "nf_dev \<Rightarrow> bool" where
  "dev_wf m = (distinct (map fst m) \<and> m \<noteq> [] \<and> (\<forall>(s, x) \<in> set m. distinct (map fst x)))"

definition nf_wf :: "nf_map \<Rightarrow> bool" where
  "nf_wf m = (distinct (map fst m) \<and> (\<forall>(d, x) \<in> set m. dev_wf x))"

definition flows_of :: "nf_dev \<Rightarrow> nat" where
  "flows_of m = sum_list (map (\<lambda>(s, x). length x) m)"

definition all_flows :: "nf_map \<Rightarrow> nat" where
  "all_flows m = sum_list (map (\<lambda>(d, x). flows_of x) m)"

lemma take_octets:
  assumes "distinct (map fst m)" "nf_take now expire d s m = (rs, m')"
  shows "\<forall>t. src_octets m t = octets_out rs d s t + src_octets m' t"
  using assms
proof (induction m arbitrary: rs m')
  case Nil
  then show ?case by (simp add: nf_take_def src_octets_def)
next
  case (Cons x m)
  obtain k v where x: "x = (k, v)" by (cases x)
  obtain qs n where q: "nf_take now expire d s m = (qs, n)" by (cases "nf_take now expire d s m")
  have IH: "src_octets m t = octets_out qs d s t + src_octets n t" for t using Cons.IH[OF _ q] Cons.prems(1) by simp
  have "k \<notin> fst ` set m" using Cons.prems(1) x by simp
  then have k0: "src_octets m k = 0" by (simp add: src_octets_def map_of_eq_None_iff[THEN iffD2])
  show ?case
  proof (cases "isExpired now expire v")
    case True
    then have e: "rs = \<lparr> row_dev = d, row_src = s, row_dst = k, row_data = v \<rparr> # qs" "m' = n"
      using Cons.prems(2) q x by (auto simp: nf_take_def)
    show ?thesis
    proof
      fix t
      have "src_octets (x # m) t = (if t = k then nf_octets v else src_octets m t)" by (simp add: x src_octets_def)
      moreover have "octets_out rs d s t = (if t = k then nf_octets v else 0) + octets_out qs d s t"
        by (simp add: e octets_out_def)
      ultimately show "src_octets (x # m) t = octets_out rs d s t + src_octets m' t" using IH[of t] IH[of k] k0 e by simp
    qed
  next
    case False
    then have e: "rs = qs" "m' = (k, v) # n" using Cons.prems(2) q x by (auto simp: nf_take_def)
    show ?thesis
    proof
      fix t
      have "src_octets (x # m) t = (if t = k then nf_octets v else src_octets m t)"
        "src_octets m' t = (if t = k then nf_octets v else src_octets n t)" by (simp_all add: x e src_octets_def)
      then show "src_octets (x # m) t = octets_out rs d s t + src_octets m' t" using IH[of t] IH[of k] k0 e by simp
    qed
  qed
qed

lemma distinct_filter_fst: "distinct (map fst m) \<Longrightarrow> distinct (map fst (filter P m))"
  by (induction m) auto

lemma take_facts:
  assumes "nf_take now expire d s m = (rs, m')"
  shows "length m = length rs + length m'" "s' \<noteq> s \<or> d' \<noteq> d \<Longrightarrow> octets_out rs d' s' t = 0"
    "distinct (map fst m) \<Longrightarrow> distinct (map fst m')"
proof -
  have "length (filter (\<lambda>(k, x). isExpired now expire x) m) + length (filter (\<lambda>(k, x). \<not> isExpired now expire x) m) = length m"
    by (induction m) auto
  then show "length m = length rs + length m'" using assms by (auto simp: nf_take_def)
  show "s' \<noteq> s \<or> d' \<noteq> d \<Longrightarrow> octets_out rs d' s' t = 0"
    using assms by (auto simp: nf_take_def octets_out_def comp_def case_prod_unfold)
  show "distinct (map fst m) \<Longrightarrow> distinct (map fst m')" using assms by (auto simp: nf_take_def distinct_filter_fst)
qed

definition src_ok :: "nf_dev \<Rightarrow> bool" where
  "src_ok m = (distinct (map fst m) \<and> (\<forall>(s, x) \<in> set m. distinct (map fst x)))"

lemma src_ok_update:
  assumes "src_ok m" "j < length m" "distinct (map fst v)"
  shows "src_ok (m[j := (fst (m ! j), v)])"
  using assms set_update_subset_insert[of m j "(fst (m ! j), v)"]
  unfolding src_ok_def by (auto simp: distinct_list_update)

lemma src_ok_delete: "src_ok m \<Longrightarrow> src_ok (take j m @ drop (Suc j) m)"
  using distinct_list_delete[of m j] unfolding src_ok_def by (auto dest!: in_set_takeD in_set_dropD)

lemma sum_list_delete:
  "j < length (xs :: nat list) \<Longrightarrow> sum_list xs = xs ! j + sum_list (take j xs @ drop (Suc j) xs)"
  by (subst id_take_nth_drop[of j xs]) simp_all

lemma flows_of_update: "j < length m \<Longrightarrow> flows_of (m[j := (k, v)]) + length (snd (m ! j)) = flows_of m + length v"
proof -
  assume j: "j < length m"
  have "flows_of (m[j := (k, v)]) = length v + sum_list (take j (map (\<lambda>(s, x). length x) m) @ drop (Suc j) (map (\<lambda>(s, x). length x) m))"
    using sum_list_delete[of j "map (\<lambda>(s, x). length x) (m[j := (k, v)])"] j by (simp add: flows_of_def map_update)
  moreover have "flows_of m = length (snd (m ! j)) + sum_list (take j (map (\<lambda>(s, x). length x) m) @ drop (Suc j) (map (\<lambda>(s, x). length x) m))"
    using sum_list_delete[of j "map (\<lambda>(s, x). length x) m"] j by (simp add: flows_of_def case_prod_beta)
  ultimately show ?thesis by simp
qed

lemma flows_of_delete: "j < length m \<Longrightarrow> snd (m ! j) = [] \<Longrightarrow> flows_of (take j m @ drop (Suc j) m) = flows_of m"
  using sum_list_delete[of j "map (\<lambda>(s, x). length x) m"] by (simp add: flows_of_def case_prod_beta take_map drop_map)

text \<open>What a pass over the sources of a device does.\<close>

lemma sources_loop_facts:
  assumes "nf_sources_loop now expire d j m = Inr (rs, m')" "src_ok m"
  shows "src_ok m' \<and> (\<forall>s t. dev_octets m s t = octets_out rs d s t + dev_octets m' s t) \<and>
    (\<forall>d' s t. d' \<noteq> d \<longrightarrow> octets_out rs d' s t = 0) \<and> flows_of m = length rs + flows_of m' \<and> (m \<noteq> [] \<longrightarrow> m' \<noteq> [])"
  using assms
proof (induction now expire d j m arbitrary: rs m' rule: nf_sources_loop.induct)
  case (1 now expire d j m)
  show ?case
  proof (cases "length m \<le> j")
    case True
    then show ?thesis using 1(3,4) by (simp add: nf_sources_loop.simps[of now expire d j m])
  next
    case False
    then have j: "j < length m" by simp
    have dm: "distinct (map fst m)" using 1(4) by (simp add: src_ok_def)
    show ?thesis
    proof (cases "snd (m ! j) = []")
      case True
      let ?n = "take j m @ drop (Suc j) m"
      have n: "?n \<noteq> []" "nf_sources_loop now expire d 1 ?n = Inr (rs, m')"
        using 1(3) False True by (simp_all add: nf_sources_loop.simps[of now expire d j m] Let_def split: if_splits)
      note IH = 1(1)[OF False True refl n(1) n(2) src_ok_delete[OF 1(4)]]
      obtain x where x: "m ! j = (x, [])" using True by (cases "m ! j") auto
      then have mx: "map_of m x = Some []" using j dm by (metis map_of_eq_Some_iff nth_mem)
      have "dev_octets ?n s t = dev_octets m s t" for s t
        using map_of_list_delete[OF dm j] x mx by (simp add: dev_octets_def src_octets_def)
      moreover have "m' \<noteq> []" using IH n(1) by blast
      ultimately show ?thesis using IH flows_of_delete[OF j True] by simp
    next
      case ne: False
      obtain x v where x: "m ! j = (x, v)" by (cases "m ! j")
      obtain q s' where q: "nf_take now expire d x v = (q, s')" by (cases "nf_take now expire d x v")
      let ?n = "m[j := (x, s')]"
      obtain qs where r: "nf_sources_loop now expire d (Suc j) ?n = Inr (qs, m')" "rs = q @ qs"
        using 1(3) False ne by (auto simp: nf_sources_loop.simps[of now expire d j m] x q)
      have dv: "distinct (map fst v)" using 1(4) j x by (force simp: src_ok_def dest: nth_mem)
      note tf = take_facts[OF q]
      have ok: "src_ok ?n" using src_ok_update[OF 1(4) j, of s'] tf(3)[OF dv] x by simp
      have IH: "src_ok m' \<and> (\<forall>s t. dev_octets ?n s t = octets_out qs d s t + dev_octets m' s t) \<and>
          (\<forall>d' s t. d' \<noteq> d \<longrightarrow> octets_out qs d' s t = 0) \<and> flows_of ?n = length qs + flows_of m' \<and> (?n \<noteq> [] \<longrightarrow> m' \<noteq> [])"
        using 1(2)[OF False ne] ok r(1) by (simp add: x q)
      have mx: "map_of m x = Some v" using j dm x by (metis map_of_eq_Some_iff nth_mem)
      have "dev_octets m s t = octets_out q d s t + dev_octets ?n s t" for s t
        using map_of_list_update[OF dm j, of s'] x mx take_octets[OF dv q] tf(2)[of s d t]
        by (cases "s = x") (simp_all add: dev_octets_def)
      moreover have "flows_of m = length q + flows_of ?n"
        using flows_of_update[OF j, of x s'] tf(1) x by simp
      moreover have "m \<noteq> []" "?n \<noteq> []" using j by auto
      ultimately show ?thesis using IH tf(2)[of _ _] r(2) by simp
    qed
  qed
qed

lemma sources_loop_ok:
  assumes "m \<noteq> []" "j \<noteq> 0 \<or> (\<nexists>s. m = [(s, [])])"
  shows "\<exists>r. nf_sources_loop now expire d j m = Inr r"
  using assms
proof (induction now expire d j m rule: nf_sources_loop.induct)
  case (1 now expire d j m)
  show ?case
  proof (cases "length m \<le> j")
    case True
    then show ?thesis by (simp add: nf_sources_loop.simps[of now expire d j m])
  next
    case False
    then have j: "j < length m" by simp
    show ?thesis
    proof (cases "snd (m ! j) = []")
      case True
      let ?n = "take j m @ drop (Suc j) m"
      have "?n \<noteq> []"
      proof
        assume "?n = []"
        then have "j = 0" "length m \<le> 1" using j by auto
        then obtain x where "m = [x]" using j by (cases m) auto
        with True \<open>j = 0\<close> 1(4) show False by (cases x) auto
      qed
      with 1(1)[OF False True refl this] obtain r where "nf_sources_loop now expire d 1 ?n = Inr r" by auto
      with \<open>?n \<noteq> []\<close> False True show ?thesis by (simp add: nf_sources_loop.simps[of now expire d j m] Let_def)
    next
      case ne: False
      obtain q s' where q: "nf_take now expire d (fst (m ! j)) (snd (m ! j)) = (q, s')" by (cases "nf_take now expire d (fst (m ! j)) (snd (m ! j))")
      have "m[j := (fst (m ! j), s')] \<noteq> []" using j by auto
      with 1(2)[OF False ne q[symmetric]] obtain r where "nf_sources_loop now expire d (Suc j) (m[j := (fst (m ! j), s')]) = Inr r" by auto
      with False ne q show ?thesis by (cases r) (simp add: nf_sources_loop.simps[of now expire d j m])
    qed
  qed
qed

lemma sources_loop_fault: "nf_sources_loop now expire d 0 [(s, [])] = Inl OutOfBounds"
  by (subst nf_sources_loop.simps) simp

text \<open>The same for all devices.\<close>

lemma nf_wf_update:
  assumes "nf_wf m" "j < length m" "dev_wf v"
  shows "nf_wf (m[j := (fst (m ! j), v)])"
  using assms set_update_subset_insert[of m j "(fst (m ! j), v)"]
  unfolding nf_wf_def by (auto simp: distinct_list_update)

lemma all_flows_update: "j < length m \<Longrightarrow> all_flows (m[j := (k, v)]) + flows_of (snd (m ! j)) = all_flows m + flows_of v"
proof -
  assume j: "j < length m"
  have "all_flows (m[j := (k, v)]) = flows_of v + sum_list (take j (map (\<lambda>(s, x). flows_of x) m) @ drop (Suc j) (map (\<lambda>(s, x). flows_of x) m))"
    using sum_list_delete[of j "map (\<lambda>(s, x). flows_of x) (m[j := (k, v)])"] j by (simp add: all_flows_def map_update)
  moreover have "all_flows m = flows_of (snd (m ! j)) + sum_list (take j (map (\<lambda>(s, x). flows_of x) m) @ drop (Suc j) (map (\<lambda>(s, x). flows_of x) m))"
    using sum_list_delete[of j "map (\<lambda>(s, x). flows_of x) m"] j by (simp add: all_flows_def case_prod_beta)
  ultimately show ?thesis by simp
qed

lemma dev_wf_ok: "dev_wf m = (src_ok m \<and> m \<noteq> [])"
  by (auto simp: dev_wf_def src_ok_def)

lemma nf_wf_nth: "nf_wf m \<Longrightarrow> i < length m \<Longrightarrow> dev_wf (snd (m ! i))"
  by (force simp: nf_wf_def dest: nth_mem)

lemma devices_loop_facts:
  assumes "nf_devices_loop now expire i m = Inr (rs, m')" "nf_wf m"
  shows "nf_wf m' \<and> (\<forall>d s t. octets_in m d s t = octets_out rs d s t + octets_in m' d s t) \<and> all_flows m = length rs + all_flows m' \<and>
    length m' = length m \<and> (\<forall>k < length m. fst (m' ! k) = fst (m ! k) \<and> (k < i \<longrightarrow> m' ! k = m ! k) \<and>
      (i \<le> k \<longrightarrow> (\<exists>q. nf_sources_loop now expire (fst (m ! k)) 0 (snd (m ! k)) = Inr (q, snd (m' ! k)))))"
  using assms
proof (induction now expire i m arbitrary: rs m' rule: nf_devices_loop.induct)
  case (1 now expire i m)
  show ?case
  proof (cases "length m \<le> i")
    case True
    then show ?thesis using 1(3,4) by (simp add: nf_devices_loop.simps[of now expire i m])
  next
    case False
    then have i: "i < length m" by simp
    have dm: "distinct (map fst m)" using 1(4) by (simp add: nf_wf_def)
    obtain d v where x: "m ! i = (d, v)" by (cases "m ! i")
    have wv: "dev_wf v" using nf_wf_nth[OF 1(4) i] by (simp add: x)
    then have ne: "snd (m ! i) \<noteq> []" by (simp add: x dev_wf_ok)
    obtain q v' where q: "nf_sources_loop now expire d 0 v = Inr (q, v')"
      using 1(3) False ne by (auto simp: nf_devices_loop.simps[of now expire i m] x)
    let ?n = "m[i := (d, v')]"
    obtain qs where r: "nf_devices_loop now expire (Suc i) ?n = Inr (qs, m')" "rs = q @ qs"
      using 1(3) False ne by (auto simp: nf_devices_loop.simps[of now expire i m] x q)
    have sf: "src_ok v' \<and> (\<forall>s t. dev_octets v s t = octets_out q d s t + dev_octets v' s t) \<and>
        (\<forall>d' s t. d' \<noteq> d \<longrightarrow> octets_out q d' s t = 0) \<and> flows_of v = length q + flows_of v' \<and> (v \<noteq> [] \<longrightarrow> v' \<noteq> [])"
      by (rule sources_loop_facts[OF q]) (use wv in \<open>simp add: dev_wf_ok\<close>)
    have wf: "nf_wf ?n" using nf_wf_update[OF 1(4) i, of v'] sf wv by (simp add: x dev_wf_ok)
    have IH: "nf_wf m' \<and> (\<forall>d s t. octets_in ?n d s t = octets_out qs d s t + octets_in m' d s t) \<and> all_flows ?n = length qs + all_flows m' \<and>
      length m' = length ?n \<and> (\<forall>k < length ?n. fst (m' ! k) = fst (?n ! k) \<and> (k < Suc i \<longrightarrow> m' ! k = ?n ! k) \<and>
        (Suc i \<le> k \<longrightarrow> (\<exists>q. nf_sources_loop now expire (fst (?n ! k)) 0 (snd (?n ! k)) = Inr (q, snd (m' ! k)))))"
      using 1(2)[OF False ne] r(1) wf by (simp add: x q)
    have md: "map_of m d = Some v" using i dm x by (metis map_of_eq_Some_iff nth_mem)
    have "octets_in m e s t = octets_out q e s t + octets_in ?n e s t" for e s t
      using map_of_list_update[OF dm i, of v'] x md sf by (cases "e = d") (simp_all add: octets_in_def)
    moreover have "all_flows m = length q + all_flows ?n" using all_flows_update[OF i, of d v'] sf x by simp
    moreover have "fst (m' ! k) = fst (m ! k) \<and> (k < i \<longrightarrow> m' ! k = m ! k) \<and>
      (i \<le> k \<longrightarrow> (\<exists>q. nf_sources_loop now expire (fst (m ! k)) 0 (snd (m ! k)) = Inr (q, snd (m' ! k))))" if k: "k < length m" for k
    proof (cases "k = i")
      case True
      have "fst (m' ! i) = fst (?n ! i) \<and> m' ! i = ?n ! i" using IH i by simp
      then show ?thesis using True q x i by simp
    next
      case False
      have "fst (m' ! k) = fst (?n ! k) \<and> (k < Suc i \<longrightarrow> m' ! k = ?n ! k) \<and>
        (Suc i \<le> k \<longrightarrow> (\<exists>q. nf_sources_loop now expire (fst (?n ! k)) 0 (snd (?n ! k)) = Inr (q, snd (m' ! k))))"
        using IH k by simp
      then show ?thesis using False by (auto simp: not_less_eq_eq)
    qed
    ultimately show ?thesis using IH r(2) by simp
  qed
qed

lemma devices_loop_fault:
  assumes "nf_wf m"
  shows "(nf_devices_loop now expire i m = Inl OutOfBounds) = (\<exists>k s. i \<le> k \<and> k < length m \<and> snd (m ! k) = [(s, [])])"
    and "(\<exists>r. nf_devices_loop now expire i m = Inr r) = (\<nexists>k s. i \<le> k \<and> k < length m \<and> snd (m ! k) = [(s, [])])"
proof -
  have "if \<exists>k s. i \<le> k \<and> k < length m \<and> snd (m ! k) = [(s, [])] then nf_devices_loop now expire i m = Inl OutOfBounds
      else \<exists>r. nf_devices_loop now expire i m = Inr r"
    using assms
  proof (induction now expire i m rule: nf_devices_loop.induct)
    case (1 now expire i m)
    show ?case
    proof (cases "length m \<le> i")
      case True
      then show ?thesis by (simp add: nf_devices_loop.simps[of now expire i m])
    next
      case False
      then have i: "i < length m" by simp
      have w: "dev_wf (snd (m ! i))" using nf_wf_nth[OF 1(3) i] .
      then have ne: "snd (m ! i) \<noteq> []" by (simp add: dev_wf_ok)
      show ?thesis
      proof (cases "\<exists>s. snd (m ! i) = [(s, [])]")
        case True
        then have "nf_devices_loop now expire i m = Inl OutOfBounds"
          using False by (auto simp: nf_devices_loop.simps[of now expire i m] sources_loop_fault)
        with True i show ?thesis by auto
      next
        case ns: False
        obtain q v where q: "nf_sources_loop now expire (fst (m ! i)) 0 (snd (m ! i)) = Inr (q, v)"
          using sources_loop_ok[OF ne, of 0 now expire "fst (m ! i)"] ns by auto
        let ?n = "m[i := (fst (m ! i), v)]"
        have "dev_wf v" using sources_loop_facts[OF q] w by (simp add: dev_wf_ok)
        then have wf: "nf_wf ?n" by (rule nf_wf_update[OF 1(3) i])
        have e: "nf_devices_loop now expire i m = cbind (nf_devices_loop now expire (Suc i) ?n) (\<lambda>(rs', m'). Inr (q @ rs', m'))"
          using False ne q by (subst nf_devices_loop.simps) simp
        have s: "(\<exists>k s. Suc i \<le> k \<and> k < length ?n \<and> snd (?n ! k) = [(s, [])]) = (\<exists>k s. i \<le> k \<and> k < length m \<and> snd (m ! k) = [(s, [])])"
        proof
          assume "\<exists>k s. Suc i \<le> k \<and> k < length ?n \<and> snd (?n ! k) = [(s, [])]"
          then obtain k s where "Suc i \<le> k" "k < length m" "snd (m ! k) = [(s, [])]" by auto
          then show "\<exists>k s. i \<le> k \<and> k < length m \<and> snd (m ! k) = [(s, [])]" by (intro exI[of _ k] exI[of _ s]) simp
        next
          assume "\<exists>k s. i \<le> k \<and> k < length m \<and> snd (m ! k) = [(s, [])]"
          then obtain k s where k: "i \<le> k" "k < length m" "snd (m ! k) = [(s, [])]" by blast
          then have "k \<noteq> i" using ns by metis
          with k show "\<exists>k s. Suc i \<le> k \<and> k < length ?n \<and> snd (?n ! k) = [(s, [])]" by (intro exI[of _ k] exI[of _ s]) simp
        qed
        have "if \<exists>k s. Suc i \<le> k \<and> k < length ?n \<and> snd (?n ! k) = [(s, [])] then nf_devices_loop now expire (Suc i) ?n = Inl OutOfBounds
            else \<exists>r. nf_devices_loop now expire (Suc i) ?n = Inr r"
          by (rule 1(2)[OF False ne wf])
        then show ?thesis unfolding s by (auto simp: e split: if_splits)
      qed
    qed
  qed
  then show "(nf_devices_loop now expire i m = Inl OutOfBounds) = (\<exists>k s. i \<le> k \<and> k < length m \<and> snd (m ! k) = [(s, [])])"
    and "(\<exists>r. nf_devices_loop now expire i m = Inr r) = (\<nexists>k s. i \<le> k \<and> k < length m \<and> snd (m ! k) = [(s, [])])"
    by (auto split: if_splits)
qed

text \<open>What a record of an export packet does.\<close>

lemma update_map_of: "map_of (AList.update k v m) = (map_of m)(k \<mapsto> v)"
  by (rule update_conv')

lemma flows_of_map_update:
  "distinct (map fst m) \<Longrightarrow> map_of m k = Some w \<Longrightarrow> flows_of (AList.update k v m) + length w = flows_of m + length v"
proof (induction m)
  case (Cons x m)
  then show ?case by (cases x) (auto simp: flows_of_def)
qed simp

lemma all_flows_map_update:
  "distinct (map fst m) \<Longrightarrow> map_of m k = Some w \<Longrightarrow> all_flows (AList.update k v m) + flows_of w = all_flows m + flows_of v"
proof (induction m)
  case (Cons x m)
  then show ?case by (cases x) (auto simp: all_flows_def)
qed simp

lemma flows_of_insert: "flows_of (map_insert k v m) = flows_of m + length v"
  by (induction k v m rule: map_insert.induct) (auto simp: flows_of_def)

lemma all_flows_insert: "all_flows (map_insert k v m) = all_flows m + flows_of v"
  by (induction k v m rule: map_insert.induct) (auto simp: all_flows_def)

lemma length_update: "map_of m k = Some w \<Longrightarrow> length (AList.update k v m) = length m"
  by (induction m) auto

lemma set_update_subset: "set (AList.update k v m) \<subseteq> insert (k, v) (set m)"
  by (induction m) auto

lemma src_ok_map_update: "src_ok m \<Longrightarrow> distinct (map fst v) \<Longrightarrow> src_ok (AList.update k v m)"
  using set_update_subset[of k v m] by (auto simp: src_ok_def distinct_update)

lemma src_ok_map_insert: "src_ok m \<Longrightarrow> distinct (map fst v) \<Longrightarrow> map_of m k = None \<Longrightarrow> src_ok (map_insert k v m)"
  by (auto simp: src_ok_def distinct_insert set_map_insert)

lemma nf_wf_map_update: "nf_wf m \<Longrightarrow> dev_wf v \<Longrightarrow> nf_wf (AList.update k v m)"
  using set_update_subset[of k v m] by (auto simp: nf_wf_def distinct_update)

lemma nf_wf_map_insert: "nf_wf m \<Longrightarrow> dev_wf v \<Longrightarrow> map_of m k = None \<Longrightarrow> nf_wf (map_insert k v m)"
  by (auto simp: nf_wf_def distinct_insert set_map_insert)

lemma map_insert_ne: "map_insert k v m \<noteq> []"
  using set_map_insert[of k v m] by auto

lemma nf_wf_get: "nf_wf m \<Longrightarrow> map_of m d = Some x \<Longrightarrow> dev_wf x"
  by (auto simp: nf_wf_def dest: map_of_SomeD)

lemma src_ok_get: "src_ok m \<Longrightarrow> map_of m d = Some x \<Longrightarrow> distinct (map fst x)"
  by (auto simp: src_ok_def dest: map_of_SomeD)

lemma update_ne: "AList.update k v m \<noteq> []"
  by (cases m) auto

definition amount :: "nat \<Rightarrow> nf_flow \<Rightarrow> nat \<Rightarrow> nat \<Rightarrow> nat \<Rightarrow> nat" where
  "amount d f e s t = (if d = e \<and> fl_src f = s \<and> fl_dst f = t then fl_octets f else 0)"

lemma nf_add_facts:
  assumes "nf_wf (nfb a)"
  shows "nf_wf (nfb (nf_add L d f a)) \<and>
    buf_size (nf_add L d f a) - int (all_flows (nfb (nf_add L d f a))) = buf_size a - int (all_flows (nfb a)) \<and>
    (\<forall>e s t. octets_in (nfb (nf_add L d f a)) e s t mod 256 ^ L = (octets_in (nfb a) e s t + amount d f e s t) mod 256 ^ L)"
proof -
  have dm: "distinct (map fst (nfb a))" using assms by (simp add: nf_wf_def)
  consider (dev) "map_of (nfb a) d = None"
    | (src) m where "map_of (nfb a) d = Some m" "map_of m (fl_src f) = None"
    | (dst) m x where "map_of (nfb a) d = Some m" "map_of m (fl_src f) = Some x" "map_of x (fl_dst f) = None"
    | (old) m x v where "map_of (nfb a) d = Some m" "map_of m (fl_src f) = Some x" "map_of x (fl_dst f) = Some v"
    by (metis option.exhaust)
  then show ?thesis
  proof cases
    case dev
    let ?v = "[(fl_src f, [(fl_dst f, new_data f)])]"
    have "nf_wf (map_insert d ?v (nfb a))" by (rule nf_wf_map_insert[OF assms _ dev]) (simp add: dev_wf_def)
    then show ?thesis using dev
      by (auto simp: nf_add_def all_flows_insert flows_of_def octets_in_def map_of_insert amount_def dev_octets_def src_octets_def
          new_data_def)
  next
    case src
    note w = nf_wf_get[OF assms src(1)]
    let ?v = "map_insert (fl_src f) [(fl_dst f, new_data f)] m"
    have "dev_wf ?v" using w src_ok_map_insert[OF _ _ src(2), of "[(fl_dst f, new_data f)]"] by (simp add: dev_wf_ok map_insert_ne)
    then have "nf_wf (AList.update d ?v (nfb a))" by (rule nf_wf_map_update[OF assms])
    moreover have "all_flows (AList.update d ?v (nfb a)) = Suc (all_flows (nfb a))"
      using all_flows_map_update[OF dm src(1), of ?v] by (simp add: flows_of_insert)
    ultimately show ?thesis using src
      by (auto simp: nf_add_def octets_in_def update_map_of map_of_insert amount_def dev_octets_def src_octets_def new_data_def)
  next
    case dst
    note w = nf_wf_get[OF assms dst(1)]
    let ?x = "map_insert (fl_dst f) (new_data f) x"
    let ?v = "AList.update (fl_src f) ?x m"
    have "distinct (map fst ?x)" using src_ok_get[OF _ dst(2)] w by (intro distinct_insert dst(3)) (simp add: dev_wf_ok)
    then have "dev_wf ?v" using w src_ok_map_update[of m ?x] by (simp add: dev_wf_ok update_ne)
    then have "nf_wf (AList.update d ?v (nfb a))" by (rule nf_wf_map_update[OF assms])
    moreover have "length ?x = Suc (length x)" by (induction "fl_dst f" "new_data f" x rule: map_insert.induct) auto
    then have "flows_of ?v = Suc (flows_of m)"
      using flows_of_map_update[OF _ dst(2), of ?x] w by (simp add: dev_wf_def)
    then have "all_flows (AList.update d ?v (nfb a)) = Suc (all_flows (nfb a))"
      using all_flows_map_update[OF dm dst(1), of ?v] by simp
    ultimately show ?thesis using dst
      by (auto simp: nf_add_def octets_in_def update_map_of map_of_insert amount_def dev_octets_def src_octets_def new_data_def)
  next
    case old
    note w = nf_wf_get[OF assms old(1)]
    let ?x = "AList.update (fl_dst f) (data_add L (fl_octets f) (fl_packets f) (fl_stop f) v) x"
    let ?v = "AList.update (fl_src f) ?x m"
    have "distinct (map fst ?x)" using src_ok_get[OF _ old(2)] w by (intro distinct_update) (simp add: dev_wf_ok)
    then have "dev_wf ?v" using w src_ok_map_update[of m ?x] by (simp add: dev_wf_ok update_ne)
    then have "nf_wf (AList.update d ?v (nfb a))" by (rule nf_wf_map_update[OF assms])
    moreover have "flows_of ?v = flows_of m"
      using flows_of_map_update[OF _ old(2), of ?x] w length_update[OF old(3)] by (simp add: dev_wf_def)
    then have "all_flows (AList.update d ?v (nfb a)) = all_flows (nfb a)"
      using all_flows_map_update[OF dm old(1), of ?v] by simp
    ultimately show ?thesis using old
      by (auto simp: nf_add_def octets_in_def update_map_of amount_def dev_octets_def src_octets_def data_add_def)
  qed
qed

text \<open>Every row taken out is handed to exactly one place.\<close>

fun out_row :: "nf_out \<Rightarrow> nf_row list" where
  "out_row (ToDb _ r) = [r]"
| "out_row (ToFile _ r) = [r]"
| "out_row (Lost r) = [r]"
| "out_row (CloseDb _) = []"

lemma write_row: "nf_write opens day can r k = (k', out) \<Longrightarrow> concat (map out_row out) = [r]"
  by (auto simp: nf_write_def Let_def split: if_splits option.splits)

lemma write_rows:
  "fold (\<lambda>r (s, out). case nf_write opens day can r s of (s', o') \<Rightarrow> (s', out @ o')) rs (k, acc) = (k', out) \<Longrightarrow>
   concat (map out_row out) = concat (map out_row acc) @ rs"
proof (induction rs arbitrary: k acc)
  case (Cons r rs)
  obtain k1 o1 where w: "nf_write opens day can r k = (k1, o1)" by (cases "nf_write opens day can r k")
  from Cons.IH[of k1 "acc @ o1"] Cons.prems show ?case by (simp add: w write_row[OF w])
qed simp

section \<open>Runs\<close>

datatype nf_event = Export nat "byte list" | Round string bool int int

fun nf_run :: "nat \<Rightarrow> (nat \<Rightarrow> int) \<Rightarrow> nf_event list \<Rightarrow> (aggregator \<times> sink) \<times> nf_out list \<Rightarrow> ((aggregator \<times> sink) \<times> nf_out list) cres" where
  "nf_run L opens [] x = Inr x"
| "nf_run L opens (Export ip buf # evs) ((a, k), out) = cbind (nf_process L ip buf a) (\<lambda>a'. nf_run L opens evs ((a', k), out))"
| "nf_run L opens (Round day can now expire # evs) (st, out) =
     cbind (nf_round opens day can now expire st) (\<lambda>(st', out'). nf_run L opens evs (st', out @ out'))"

definition received :: "nat \<Rightarrow> nf_event \<Rightarrow> nat \<Rightarrow> nat \<Rightarrow> nat \<Rightarrow> nat" where
  "received L ev d s t = (case ev of
      Export ip buf \<Rightarrow> (case nf_records L buf of Inr fs \<Rightarrow> sum_list (map (\<lambda>f. amount ip f d s t) fs) | Inl _ \<Rightarrow> 0)
    | Round _ _ _ _ \<Rightarrow> 0)"

lemma nf_adds_facts:
  "nf_wf (nfb a) \<Longrightarrow> nf_wf (nfb (fold (nf_add L d) fs a)) \<and>
    buf_size (fold (nf_add L d) fs a) - int (all_flows (nfb (fold (nf_add L d) fs a))) = buf_size a - int (all_flows (nfb a)) \<and>
    (\<forall>e s t. octets_in (nfb (fold (nf_add L d) fs a)) e s t mod 256 ^ L =
      (octets_in (nfb a) e s t + sum_list (map (\<lambda>f. amount d f e s t) fs)) mod 256 ^ L)"
proof (induction fs arbitrary: a)
  case (Cons f fs)
  let ?a = "nf_add L d f a"
  note F = nf_add_facts[OF Cons.prems, of L d f]
  have wf: "nf_wf (nfb ?a)" using F by blast
  have bs: "buf_size ?a - int (all_flows (nfb ?a)) = buf_size a - int (all_flows (nfb a))" using F by blast
  have oc: "octets_in (nfb ?a) e s t mod 256 ^ L = (octets_in (nfb a) e s t + amount d f e s t) mod 256 ^ L" for e s t using F by blast
  note G = Cons.IH[OF wf]
  have "(octets_in (nfb ?a) e s t + z) mod 256 ^ L = (octets_in (nfb a) e s t + (amount d f e s t + z)) mod 256 ^ L" for e s t z
    using oc[of e s t] by (metis add.assoc mod_add_left_eq)
  with G bs show ?case by simp
qed simp

lemma nf_round_facts:
  assumes "nf_round opens day can now expire (a, k) = Inr ((a', k'), out)" "nf_wf (nfb a)"
  shows "nf_wf (nfb a') \<and> buf_size a' - int (all_flows (nfb a')) = buf_size a - int (all_flows (nfb a)) \<and>
    (\<forall>d s t. octets_in (nfb a) d s t = octets_out (concat (map out_row out)) d s t + octets_in (nfb a') d s t)"
proof -
  from assms(1) obtain rs m where l: "nf_devices_loop now expire 0 (nfb a) = Inr (rs, m)"
    by (cases "nf_devices_loop now expire 0 (nfb a)") (auto simp: nf_round_def)
  obtain k2 o2 where o2: "fold (\<lambda>r (s, out). case nf_write opens day can r s of (s', o') \<Rightarrow> (s', out @ o')) rs (k, []) = (k2, o2)"
    by (cases "fold (\<lambda>r (s, out). case nf_write opens day can r s of (s', o') \<Rightarrow> (s', out @ o')) rs (k, [])")
  have a': "a' = a \<lparr> nfb := m, buf_size := buf_size a - int (length rs) \<rparr>" and "out = o2"
    using assms(1) by (auto simp: nf_round_def l o2)
  with o2 have o: "fold (\<lambda>r (s, out). case nf_write opens day can r s of (s', o') \<Rightarrow> (s', out @ o')) rs (k, []) = (k2, out)" by simp
  show ?thesis using devices_loop_facts[OF l assms(2)] write_rows[OF o] by (simp add: a')
qed

lemma round_ok: "(\<exists>r. nf_round opens day can now expire (a, k) = Inr r) = (\<exists>r. nf_devices_loop now expire 0 (nfb a) = Inr r)"
  by (cases "nf_devices_loop now expire 0 (nfb a)") (auto simp: nf_round_def split: prod.splits)

lemma round_map:
  "nf_round opens day can now expire (a, k) = Inr ((a', k'), out) \<Longrightarrow> \<exists>rs. nf_devices_loop now expire 0 (nfb a) = Inr (rs, nfb a')"
  by (cases "nf_devices_loop now expire 0 (nfb a)") (auto simp: nf_round_def split: prod.splits)

lemma nf_run_facts:
  assumes "nf_run L opens evs ((a, k), out) = Inr ((a', k'), out')" "nf_wf (nfb a)"
  shows "nf_wf (nfb a') \<and> buf_size a' - int (all_flows (nfb a')) = buf_size a - int (all_flows (nfb a)) \<and>
    (\<forall>d s t. (octets_in (nfb a') d s t + octets_out (concat (map out_row out')) d s t) mod 256 ^ L =
      (octets_in (nfb a) d s t + octets_out (concat (map out_row out)) d s t + sum_list (map (\<lambda>e. received L e d s t) evs)) mod 256 ^ L)"
  using assms
proof (induction evs arbitrary: a k out)
  case Nil
  then show ?case by simp
next
  case (Cons ev evs)
  show ?case
  proof (cases ev)
    case (Export ip buf)
    obtain fs where fs: "nf_records L buf = Inr fs"
      and r: "nf_run L opens evs ((fold (nf_add L ip) fs a, k), out) = Inr ((a', k'), out')"
      using Cons.prems(1) by (auto simp: Export nf_process_def)
    let ?a = "fold (nf_add L ip) fs a"
    note F = nf_adds_facts[OF Cons.prems(2), of L ip fs]
    have wf: "nf_wf (nfb ?a)" using F by blast
    have bs: "buf_size ?a - int (all_flows (nfb ?a)) = buf_size a - int (all_flows (nfb a))" using F by blast
    have oc: "octets_in (nfb ?a) d s t mod 256 ^ L = (octets_in (nfb a) d s t + received L ev d s t) mod 256 ^ L" for d s t
      using F by (simp add: Export received_def fs)
    have "(octets_in (nfb ?a) d s t + z) mod 256 ^ L = (octets_in (nfb a) d s t + received L ev d s t + z) mod 256 ^ L" for d s t z
      using oc[of d s t] by (metis mod_add_left_eq)
    from this[of _ _ _ "octets_out (concat (map out_row out)) _ _ _ + sum_list (map (\<lambda>e. received L e _ _ _) evs)"]
    have "(octets_in (nfb ?a) d s t + octets_out (concat (map out_row out)) d s t + sum_list (map (\<lambda>e. received L e d s t) evs)) mod 256 ^ L =
      (octets_in (nfb a) d s t + octets_out (concat (map out_row out)) d s t +
        (received L ev d s t + sum_list (map (\<lambda>e. received L e d s t) evs))) mod 256 ^ L" for d s t
      by (simp add: ac_simps)
    with Cons.IH[OF r wf] bs show ?thesis by simp
  next
    case (Round day can now expire)
    obtain a1 k1 o1 where q: "nf_round opens day can now expire (a, k) = Inr ((a1, k1), o1)"
      and r: "nf_run L opens evs ((a1, k1), out @ o1) = Inr ((a', k'), out')"
      using Cons.prems(1) by (auto simp: Round)
    have z: "received L ev d s t = 0" for d s t by (simp add: Round received_def)
    from nf_round_facts[OF q Cons.prems(2)] Cons.IH[OF r] show ?thesis by (simp add: z ac_simps)
  qed
qed

text \<open>Where the rows go. \<open>sink_ok\<close>: an open connection is one that was opened, an open file is a file of one of
the rounds \<open>fs\<close>.\<close>

fun db_row :: "nf_out \<Rightarrow> nf_row list" where
  "db_row (ToDb _ r) = [r]"
| "db_row _ = []"

fun file_row :: "nf_out \<Rightarrow> nf_row list" where
  "file_row (ToFile _ r) = [r]"
| "file_row _ = []"

fun lost_row :: "nf_out \<Rightarrow> nf_row list" where
  "lost_row (Lost r) = [r]"
| "lost_row _ = []"

definition db_rows :: "nf_out list \<Rightarrow> nf_row list" where "db_rows out = concat (map db_row out)"
definition file_rows :: "nf_out list \<Rightarrow> nf_row list" where "file_rows out = concat (map file_row out)"
definition lost_rows :: "nf_out list \<Rightarrow> nf_row list" where "lost_rows out = concat (map lost_row out)"

lemmas rows_defs = db_rows_def file_rows_def lost_rows_def

lemma octets_out_split:
  "octets_out (concat (map out_row out)) d s t =
     octets_out (db_rows out) d s t + octets_out (file_rows out) d s t + octets_out (lost_rows out) d s t"
proof (induction out)
  case (Cons x out)
  then show ?case by (cases x) (simp_all add: rows_defs octets_out_def)
qed (simp add: rows_defs octets_out_def)

definition failures :: "(nat \<Rightarrow> int) \<Rightarrow> nat \<Rightarrow> nat" where
  "failures opens n = length (filter (\<lambda>i. opens i = 0) [0..<n])"

lemma failures_Suc: "failures opens (Suc n) = failures opens n + (if opens n = 0 then 1 else 0)"
  by (simp add: failures_def)

lemma failures_card: "failures opens n = card {i. i < n \<and> opens i = 0}"
proof -
  have "failures opens n = card (set (filter (\<lambda>i. opens i = 0) [0..<n]))"
    unfolding failures_def by (rule distinct_card[symmetric]) simp
  also have "set (filter (\<lambda>i. opens i = 0) [0..<n]) = {i. i < n \<and> opens i = 0}" by auto
  finally show ?thesis .
qed

definition sink_ok :: "(nat \<Rightarrow> int) \<Rightarrow> string set \<Rightarrow> sink \<Rightarrow> bool" where
  "sink_ok opens fs k = ((sk_open k \<longrightarrow> sk_cid k \<noteq> 0 \<and> sk_cid k \<in> opens ` {..<sk_tries k}) \<and>
     (\<forall>f. sk_fd k = Some f \<longrightarrow> f \<in> fs))"

definition placed :: "(nat \<Rightarrow> int) \<Rightarrow> string set \<Rightarrow> bool \<Rightarrow> sink \<Rightarrow> sink \<Rightarrow> nf_out list \<Rightarrow> bool" where
  "placed opens fs lost k k' out =
     (sk_tries k \<le> sk_tries k' \<and> sink_ok opens fs k' \<and>
      (\<forall>c r. ToDb c r \<in> set out \<longrightarrow> c \<noteq> 0 \<and> c \<in> opens ` {..<sk_tries k'}) \<and>
      (\<forall>f r. ToFile f r \<in> set out \<longrightarrow> f \<in> fs) \<and> (lost_rows out \<noteq> [] \<longrightarrow> lost) \<and>
      length (file_rows out) + length (lost_rows out) + failures opens (sk_tries k) = failures opens (sk_tries k'))"

lemma placed_refl: "sink_ok opens fs k \<Longrightarrow> placed opens fs lost k k []"
  by (simp add: placed_def rows_defs)

lemma placed_trans:
  assumes "placed opens fs lost k k1 o1" "placed opens fs lost k1 k2 o2"
  shows "placed opens fs lost k k2 (o1 @ o2)"
proof -
  have tries: "sk_tries k \<le> sk_tries k1" "sk_tries k1 \<le> sk_tries k2"
    using assms unfolding placed_def by blast+
  then have sub: "opens ` {..<sk_tries k1} \<subseteq> opens ` {..<sk_tries k2}" by auto
  have app: "file_rows (o1 @ o2) = file_rows o1 @ file_rows o2" "lost_rows (o1 @ o2) = lost_rows o1 @ lost_rows o2"
    by (simp_all add: rows_defs)
  have "length (file_rows (o1 @ o2)) + length (lost_rows (o1 @ o2)) + failures opens (sk_tries k) = failures opens (sk_tries k2)"
    using assms unfolding placed_def app by simp
  moreover have "lost_rows (o1 @ o2) \<noteq> [] \<longrightarrow> lost" using assms unfolding placed_def app by blast
  moreover have "c \<noteq> 0 \<and> c \<in> opens ` {..<sk_tries k2}" if "ToDb c r \<in> set (o1 @ o2)" for c r
    using that assms sub unfolding placed_def set_append by blast
  moreover have "f \<in> fs" if "ToFile f r \<in> set (o1 @ o2)" for f r
    using that assms unfolding placed_def set_append by blast
  moreover have "sk_tries k \<le> sk_tries k2" "sink_ok opens fs k2" using assms tries unfolding placed_def by auto
  ultimately show ?thesis unfolding placed_def by blast
qed

lemma placed_mono: "placed opens fs lost k k' out \<Longrightarrow> fs \<subseteq> fs' \<Longrightarrow> (lost \<longrightarrow> lost') \<Longrightarrow> placed opens fs' lost' k k' out"
  unfolding placed_def sink_ok_def by blast

text \<open>One row, when the connection is open or opens, and when it does not.\<close>

lemma write_db:
  assumes "nf_write opens day can r k = (k', out)" "sk_open k \<or> opens (sk_tries k) \<noteq> 0"
  shows "\<exists>c rest. out = ToDb c r # rest \<and> (rest = [] \<or> rest = [CloseDb c]) \<and>
    (if sk_open k then c = sk_cid k \<and> sk_tries k' = sk_tries k
     else c = opens (sk_tries k) \<and> sk_tries k' = Suc (sk_tries k)) \<and>
    (sk_open k' \<longrightarrow> sk_cid k' = c) \<and> (sk_fd k' = None \<or> sk_fd k' = sk_fd k)"
  using assms by (auto simp: nf_write_def Let_def split: if_splits)

lemma log_facts:
  "sk_tries (nf_log day can k) = sk_tries k" "sk_open (nf_log day can k) = sk_open k"
  "sk_fd (nf_log day can k) = None \<and> \<not> can \<or>
    (\<exists>f. sk_fd (nf_log day can k) = Some f \<and> (f = day \<or> sk_fd k = Some f))"
  by (auto simp: nf_log_def Let_def)

lemma write_file:
  assumes "nf_write opens day can r k = (k', out)" "\<not> sk_open k" "opens (sk_tries k) = 0"
  shows "sk_tries k' = Suc (sk_tries k) \<and> \<not> sk_open k' \<and>
    ((\<exists>f. out = [ToFile f r] \<and> (f = day \<or> sk_fd k = Some f) \<and> (sk_fd k' = None \<or> sk_fd k' = Some f)) \<or>
     out = [Lost r] \<and> \<not> can \<and> sk_fd k' = None)"
proof -
  define k1 where "k1 = k \<lparr> sk_cid := 0, sk_open := False, sk_tries := Suc (sk_tries k) \<rparr>"
  define k2 where "k2 = nf_log day can k1"
  have w: "(k', out) = (let o1 = (case sk_fd k2 of Some f \<Rightarrow> [ToFile f r] | None \<Rightarrow> [Lost r])
      in if 2000 < Suc (sk_closer k2) then (k2 \<lparr> sk_cid := 0, sk_open := False, sk_fd := None, sk_closer := 0 \<rparr>, o1)
         else (k2 \<lparr> sk_closer := Suc (sk_closer k2) \<rparr>, o1))"
  proof -
    have 1: "(if sk_open k then k else k \<lparr> sk_cid := opens (sk_tries k), sk_open := (opens (sk_tries k) \<noteq> 0),
        sk_tries := Suc (sk_tries k) \<rparr>) = k1"
      using assms(2,3) by (simp add: k1_def)
    have 2: "\<not> sk_open k1" "\<not> sk_open k2" using log_facts(2)[of day can k1] by (simp_all add: k1_def k2_def)
    show ?thesis
      using assms(1) unfolding nf_write_def 1 Let_def by (simp add: 2 cong: if_cong flip: k2_def)
  qed
  have "sk_tries k2 = Suc (sk_tries k)" "\<not> sk_open k2"
    "sk_fd k2 = None \<and> \<not> can \<or> (\<exists>f. sk_fd k2 = Some f \<and> (f = day \<or> sk_fd k = Some f))"
    using log_facts[of day can k1] by (simp_all add: k2_def k1_def)
  with w show ?thesis by (auto simp: Let_def split: if_splits)
qed

lemma write_placed:
  assumes "nf_write opens day can r k = (k', out)" "sink_ok opens fs k"
  shows "placed opens (insert day fs) (\<not> can) k k' out"
proof (cases "sk_open k \<or> opens (sk_tries k) \<noteq> 0")
  case True
  from write_db[OF assms(1) True] obtain c rest where o: "out = ToDb c r # rest" "rest = [] \<or> rest = [CloseDb c]"
    "if sk_open k then c = sk_cid k \<and> sk_tries k' = sk_tries k else c = opens (sk_tries k) \<and> sk_tries k' = Suc (sk_tries k)"
    "sk_open k' \<longrightarrow> sk_cid k' = c" "sk_fd k' = None \<or> sk_fd k' = sk_fd k" by blast
  have c: "c \<noteq> 0" "c \<in> opens ` {..<sk_tries k'}" "sk_tries k \<le> sk_tries k'"
    "failures opens (sk_tries k) = failures opens (sk_tries k')"
    using o(3) True assms(2) by (auto simp: sink_ok_def failures_Suc split: if_splits)
  have rows: "file_rows out = []" "lost_rows out = []" using o(1,2) by (auto simp: rows_defs)
  have "sink_ok opens (insert day fs) k'" using o(4,5) c assms(2) by (auto simp: sink_ok_def)
  then show ?thesis using c rows o(1,2) unfolding placed_def by auto
next
  case False
  then have "\<not> sk_open k" "opens (sk_tries k) = 0" by auto
  from write_file[OF assms(1) this] this assms(2) show ?thesis
    unfolding placed_def by (auto simp: rows_defs failures_Suc sink_ok_def)
qed

lemma writes_placed:
  "fold (\<lambda>r (s, out). case nf_write opens day can r s of (s', o') \<Rightarrow> (s', out @ o')) rs (k, acc) = (k', out) \<Longrightarrow>
   sink_ok opens fs k \<Longrightarrow> day \<in> fs \<Longrightarrow> \<exists>o1. out = acc @ o1 \<and> placed opens fs (\<not> can) k k' o1"
proof (induction rs arbitrary: k acc)
  case Nil
  then show ?case by (simp add: placed_refl)
next
  case (Cons r rs)
  obtain k1 o1 where w: "nf_write opens day can r k = (k1, o1)" by (cases "nf_write opens day can r k")
  have p: "placed opens fs (\<not> can) k k1 o1"
    using write_placed[OF w Cons.prems(2)] Cons.prems(3) by (simp add: insert_absorb)
  then have "sink_ok opens fs k1" by (simp add: placed_def)
  from Cons.IH[OF _ this Cons.prems(3), of "acc @ o1"] Cons.prems(1) obtain o2
    where "out = (acc @ o1) @ o2" "placed opens fs (\<not> can) k1 k' o2" by (auto simp: w)
  with placed_trans[OF p] show ?case by auto
qed

lemma round_placed:
  assumes "nf_round opens day can now expire (a, k) = Inr ((a', k'), out)" "sink_ok opens fs k" "day \<in> fs"
  shows "placed opens fs (\<not> can) k k' out"
proof -
  from assms(1) obtain rs m where l: "nf_devices_loop now expire 0 (nfb a) = Inr (rs, m)"
    by (cases "nf_devices_loop now expire 0 (nfb a)") (auto simp: nf_round_def)
  with assms(1) have "fold (\<lambda>r (s, out). case nf_write opens day can r s of (s', o') \<Rightarrow> (s', out @ o')) rs (k, []) = (k', out)"
    by (auto simp: nf_round_def split: prod.splits)
  from writes_placed[OF this assms(2,3)] show ?thesis by simp
qed

definition round_files :: "nf_event list \<Rightarrow> string set" where
  "round_files evs = {day. \<exists>can now expire. Round day can now expire \<in> set evs}"

definition file_failed :: "nf_event list \<Rightarrow> bool" where
  "file_failed evs = (\<exists>day now expire. Round day False now expire \<in> set evs)"

lemma run_placed:
  "nf_run L opens evs ((a, k), out) = Inr ((a', k'), out') \<Longrightarrow> sink_ok opens fs k \<Longrightarrow> round_files evs \<subseteq> fs \<Longrightarrow>
   \<exists>o1. out' = out @ o1 \<and> placed opens fs (file_failed evs) k k' o1"
proof (induction evs arbitrary: a k out)
  case Nil
  then show ?case by (simp add: placed_refl)
next
  case (Cons ev evs)
  have rf: "round_files evs \<subseteq> fs" using Cons.prems(3) by (auto simp: round_files_def)
  have ff: "file_failed evs \<longrightarrow> file_failed (ev # evs)" by (auto simp: file_failed_def)
  show ?case
  proof (cases ev)
    case (Export ip buf)
    then obtain a1 where "nf_run L opens evs ((a1, k), out) = Inr ((a', k'), out')"
      using Cons.prems(1) by auto
    from Cons.IH[OF this Cons.prems(2) rf] show ?thesis using placed_mono[OF _ subset_refl ff] by blast
  next
    case (Round day can now expire)
    obtain a1 k1 o1 where q: "nf_round opens day can now expire (a, k) = Inr ((a1, k1), o1)"
      and r: "nf_run L opens evs ((a1, k1), out @ o1) = Inr ((a', k'), out')"
      using Cons.prems(1) by (auto simp: Round)
    have "day \<in> fs" using Cons.prems(3) by (auto simp: Round round_files_def)
    note p = round_placed[OF q Cons.prems(2) this]
    then have "sink_ok opens fs k1" by (simp add: placed_def)
    from Cons.IH[OF r this rf] obtain o2 where o2: "out' = (out @ o1) @ o2" "placed opens fs (file_failed evs) k1 k' o2" by blast
    have "\<not> can \<longrightarrow> file_failed (ev # evs)" by (auto simp: Round file_failed_def)
    from placed_trans[OF placed_mono[OF p subset_refl this] placed_mono[OF o2(2) subset_refl ff]] o2(1)
    show ?thesis by auto
  qed
qed

definition no_flows :: aggregator where
  "no_flows = \<lparr> nfb = [], buf_size = 0 \<rparr>"

section \<open>Properties\<close>

text \<open>C16: starting with an empty aggregator, after any export packets and rounds of the thread that return, for every
device, source and destination the octets received are (up to the wrap-around of the counters) those of the flows still
kept, of the rows written to the database, of the rows written to the file and of the rows lost. A row goes to the
database over a connection that was opened; the rows written to the file or lost are exactly as many as the attempts to
open the database that failed; the file is the one of a round; and a row is only lost when some round could not open its
file, so that nothing is lost while the file can be opened. The size the aggregator keeps is the number of its flows.\<close>

theorem netflow_conserved:
  assumes "nf_run L opens evs ((no_flows, no_sink), []) = Inr ((a, k), out)"
  shows "(octets_in (nfb a) d s t + octets_out (db_rows out) d s t + octets_out (file_rows out) d s t +
        octets_out (lost_rows out) d s t) mod 256 ^ L =
      sum_list (map (\<lambda>e. received L e d s t) evs) mod 256 ^ L \<and>
    (\<forall>c r. ToDb c r \<in> set out \<longrightarrow> c \<noteq> 0 \<and> (\<exists>i < sk_tries k. opens i = c)) \<and>
    length (file_rows out) + length (lost_rows out) = card {i. i < sk_tries k \<and> opens i = 0} \<and>
    (\<forall>f r. ToFile f r \<in> set out \<longrightarrow> (\<exists>can now expire. Round f can now expire \<in> set evs)) \<and>
    ((\<forall>day can now expire. Round day can now expire \<in> set evs \<longrightarrow> can) \<longrightarrow> lost_rows out = []) \<and>
    buf_size a = int (all_flows (nfb a))"
proof -
  have wf: "nf_wf (nfb no_flows)" by (simp add: no_flows_def nf_wf_def)
  have "sink_ok opens (round_files evs) no_sink" by (simp add: sink_ok_def no_sink_def)
  from run_placed[OF assms this subset_refl]
  have p: "placed opens (round_files evs) (file_failed evs) no_sink k out" by simp
  then have "length (file_rows out) + length (lost_rows out) = failures opens (sk_tries k)"
    by (simp add: placed_def no_sink_def failures_def)
  moreover have "(\<forall>day can now expire. Round day can now expire \<in> set evs \<longrightarrow> can) \<longrightarrow> lost_rows out = []"
    using p unfolding placed_def file_failed_def by blast
  ultimately show ?thesis
    using p nf_run_facts[OF assms wf]
    by (auto simp: placed_def round_files_def failures_card octets_out_split no_flows_def octets_in_def all_flows_def add.assoc)
qed

text \<open>C40: a round fails only at a device whose only source has no flow left; and when the flows of a device with one
source have all expired, the round that writes them leaves exactly that: the next one steps past the end of an emptied
map (with the usual implementation of maps the thread never returns from there).\<close>

theorem netflow_round_fault:
  assumes run: "nf_run L opens evs ((no_flows, no_sink), []) = Inr ((a, k), out)"
  shows "(\<exists>r. nf_round opens day can now expire (a, k) = Inr r) = (\<nexists>d s. (d, [(s, [])]) \<in> set (nfb a)) \<and>
    (\<forall>d s m a' k' out'. (d, [(s, m)]) \<in> set (nfb a) \<and> (\<forall>(t, x) \<in> set m. isExpired now expire x) \<and>
       nf_round opens day can now expire (a, k) = Inr ((a', k'), out') \<longrightarrow>
       nf_round opens day2 can2 now2 expire2 (a', k') = Inl OutOfBounds)"
proof -
  have "nf_wf (nfb no_flows)" by (simp add: no_flows_def nf_wf_def)
  with nf_run_facts[OF run] have wf: "nf_wf (nfb a)" by blast
  have idx: "(\<exists>j s. 0 \<le> j \<and> j < length m \<and> snd (m ! j) = [(s, [])]) = (\<exists>d s. (d, [(s, [])]) \<in> set m)" for m :: nf_map
    by (metis in_set_conv_nth le0 prod.collapse snd_conv)
  have 1: "(\<exists>r. nf_round opens day can now expire (a, k) = Inr r) = (\<nexists>d s. (d, [(s, [])]) \<in> set (nfb a))"
    unfolding round_ok devices_loop_fault(2)[OF wf] idx ..
  have 2: "nf_round opens day2 can2 now2 expire2 (a', k') = Inl OutOfBounds"
    if m: "(d, [(s, m)]) \<in> set (nfb a)" and x: "\<forall>(t, x) \<in> set m. isExpired now expire x"
      and r: "nf_round opens day can now expire (a, k) = Inr ((a', k'), out')" for d s m a' k' out'
  proof -
    obtain rs where l: "nf_devices_loop now expire 0 (nfb a) = Inr (rs, nfb a')" using round_map[OF r] by blast
    note F = devices_loop_facts[OF l wf]
    obtain j where j: "j < length (nfb a)" "nfb a ! j = (d, [(s, m)])" using m by (auto simp: in_set_conv_nth)
    then obtain q where q: "nf_sources_loop now expire d 0 [(s, m)] = Inr (q, snd (nfb a' ! j))" using F by fastforce
    have "m \<noteq> []" using q sources_loop_fault[of now expire d s] by auto
    moreover have "filter (\<lambda>(t, x). \<not> isExpired now expire x) m = []" using x by (auto simp: filter_empty_conv)
    moreover have "nf_sources_loop now expire d 1 [(s, [])] = Inr ([], [(s, [])])" by (subst nf_sources_loop.simps) simp
    ultimately have "snd (nfb a' ! j) = [(s, [])]"
      using q by (subst (asm) nf_sources_loop.simps) (auto simp: nf_take_def)
    moreover have "j < length (nfb a')" using F j by simp
    ultimately have "nf_devices_loop now2 expire2 0 (nfb a') = Inl OutOfBounds"
      using devices_loop_fault(1)[of "nfb a'" now2 expire2 0] F by blast
    then show ?thesis by (simp add: nf_round_def)
  qed
  show ?thesis using 1 2 by blast
qed

text \<open>A packet of version 5 with one record on a host with 32 bit longs.\<close>

definition one_flow :: "byte list" where
  "one_flow = [0, 5, 0, 1, 0, 0, 0, 0, 0, 0, 0, 0, 0, 0, 0, 0, 0, 0, 0, 0, 0, 0, 0, 0, 9, 0, 0, 0, 2, 0, 0, 0, 0, 0, 0, 0,
     0, 3, 0, 0, 0, 0, 0, 1, 0, 0, 0, 100, 0, 0, 0, 0, 0, 0, 0, 0, 0, 0, 0, 0, 0, 0, 0, 0, 0, 0, 0, 0, 0, 0, 0, 0]"

lemma one_flow_record: "nf_records 4 one_flow = Inr [\<lparr> fl_src = 9, fl_dst = 2, fl_octets = 100, fl_packets = 1, fl_ifin = 3, fl_start = 0, fl_stop = 0 \<rparr>]"
proof -
  have v: "nf_version one_flow = 5" by (simp add: nf_version_def one_flow_def)
  have n: "be_at 2 2 one_flow = 1" by (simp add: be_at_def one_flow_def)
  have l: "length one_flow = 72" by (simp add: one_flow_def)
  have f: "le_at 4 24 one_flow = 9" "le_at 4 28 one_flow = 2" "be_at 4 44 one_flow = 100" "be_at 4 40 one_flow = 1" "be_at 2 36 one_flow = 3"
    "be_at 4 48 one_flow = 0" "be_at 4 52 one_flow = 0" "be_at 4 4 one_flow = 0" "be_at 4 8 one_flow = 0"
    by (simp_all add: be_at_def le_at_def one_flow_def)
  show ?thesis by (simp add: nf_records_def v n l nf_sizes_def nf_record_def f nf_time_def Let_def)
qed
definition the_flow :: nfdata where
  "the_flow = \<lparr> nf_octets = 100, nf_packets = 1, nf_ifin = 3, nf_start = 0, nf_stop = 0 \<rparr>"

lemma one_export: "nf_process 4 7 one_flow no_flows = Inr \<lparr> nfb = [(7, [(9, [(2, the_flow)])])], buf_size = 1 \<rparr>"
  by (simp add: nf_process_def one_flow_record nf_add_def no_flows_def new_data_def the_flow_def)

lemma one_loop:
  "nf_devices_loop 2000 900 0 [(7, [(9, [(2, the_flow)])])] =
     Inr ([\<lparr> row_dev = 7, row_src = 9, row_dst = 2, row_data = the_flow \<rparr>], [(7, [(9, [])])])"
proof -
  have e: "isExpired 2000 900 the_flow" by (simp add: isExpired_def the_flow_def)
  have t: "nf_take 2000 900 7 9 [(2, the_flow)] = ([\<lparr> row_dev = 7, row_src = 9, row_dst = 2, row_data = the_flow \<rparr>], [])"
    by (simp add: nf_take_def e)
  have "nf_sources_loop 2000 900 7 (Suc 0) [(9, [])] = Inr ([], [(9, [])])" by (subst nf_sources_loop.simps) simp
  then have s: "nf_sources_loop 2000 900 7 0 [(9, [(2, the_flow)])] =
      Inr ([\<lparr> row_dev = 7, row_src = 9, row_dst = 2, row_data = the_flow \<rparr>], [(9, [])])"
    by (subst nf_sources_loop.simps) (simp add: t)
  have "nf_devices_loop 2000 900 (Suc 0) [(7, [(9, [])])] = Inr ([], [(7, [(9, [])])])" by (subst nf_devices_loop.simps) simp
  then show ?thesis by (subst nf_devices_loop.simps) (simp add: s)
qed

lemma one_round:
  "nf_round (\<lambda>_. 7) ''f'' True 2000 900 (\<lparr> nfb = [(7, [(9, [(2, the_flow)])])], buf_size = 1 \<rparr>, no_sink) =
     Inr ((\<lparr> nfb = [(7, [(9, [])])], buf_size = 0 \<rparr>, no_sink \<lparr> sk_cid := 7, sk_open := True, sk_closer := Suc 0, sk_tries := Suc 0 \<rparr>),
       [ToDb 7 \<lparr> row_dev = 7, row_src = 9, row_dst = 2, row_data = the_flow \<rparr>])"
  using one_loop by (simp add: nf_round_def nf_write_def nf_log_def no_sink_def Let_def)

lemma one_run:
  "nf_run 4 (\<lambda>_. 7) [Export 7 one_flow, Round ''f'' True 2000 900] ((no_flows, no_sink), []) =
     Inr ((\<lparr> nfb = [(7, [(9, [])])], buf_size = 0 \<rparr>, no_sink \<lparr> sk_cid := 7, sk_open := True, sk_closer := Suc 0, sk_tries := Suc 0 \<rparr>),
       [ToDb 7 \<lparr> row_dev = 7, row_src = 9, row_dst = 2, row_data = the_flow \<rparr>])"
  by (simp add: one_export one_round)

text \<open>The database cannot be opened, the file can.\<close>

lemma file_run:
  "nf_run 4 (\<lambda>_. 0) [Export 7 one_flow, Round ''f'' True 2000 900] ((no_flows, no_sink), []) =
     Inr ((\<lparr> nfb = [(7, [(9, [])])], buf_size = 0 \<rparr>,
       no_sink \<lparr> sk_name := ''f'', sk_fd := Some ''f'', sk_closer := Suc 0, sk_tries := Suc 0 \<rparr>),
       [ToFile ''f'' \<lparr> row_dev = 7, row_src = 9, row_dst = 2, row_data = the_flow \<rparr>])"
  using one_loop by (simp add: one_export nf_round_def nf_write_def nf_log_def no_sink_def Let_def)

lemma netflow_conserved_witness:
  "octets_out [\<lparr> row_dev = 7, row_src = 9, row_dst = 2, row_data = the_flow \<rparr>] 7 9 2 mod 256 ^ 4 =
     sum_list (map (\<lambda>e. received 4 e 7 9 2) [Export 7 one_flow, Round ''f'' True 2000 900]) mod 256 ^ 4"
  using netflow_conserved[OF file_run, of 7 9 2] by (simp add: rows_defs octets_in_def dev_octets_def src_octets_def octets_out_def)

lemma netflow_round_fault_witness:
  "nf_round (\<lambda>_. 7) ''f'' True 2010 900 (\<lparr> nfb = [(7, [(9, [])])], buf_size = 0 \<rparr>,
     no_sink \<lparr> sk_cid := 7, sk_open := True, sk_closer := Suc 0, sk_tries := Suc 0 \<rparr>) = Inl OutOfBounds"
proof -
  have r: "nf_run 4 (\<lambda>_. 7) [Export 7 one_flow] ((no_flows, no_sink), []) =
      Inr ((\<lparr> nfb = [(7, [(9, [(2, the_flow)])])], buf_size = 1 \<rparr>, no_sink), [])"
    by (simp add: one_export)
  have "isExpired 2000 900 the_flow" by (simp add: isExpired_def the_flow_def)
  then have x: "\<forall>(t, x) \<in> set [(2 :: nat, the_flow)]. isExpired 2000 900 x" by simp
  show ?thesis
    using conjunct2[OF netflow_round_fault[OF r, where day = "''f''" and can = True and now = 2000 and expire = 900 and ?day2.0 = "''f''" and ?can2.0 = True
        and ?now2.0 = 2010 and ?expire2.0 = 900]] x one_round
    by auto
qed

end
