(* ===== verification/CoreDb.thy ===== *)
theory CoreDb
  imports TacDbEdit TacDbLog UtilsMatch
begin

text \<open>
  The list of databases (\<^verbatim>\<open>src/CoreDb.cc\<close>): which of them answers, which get a change, configuration. Each database is
  a module of \<^verbatim>\<open>src/TacDb.cc\<close>; \<open>eng\<close> gives the functions of a module, \<open>'s\<close> is the state of all database servers.
\<close>

section \<open>Databases\<close>

text \<open>\<open>td_held\<close>: the mutex of the module was left locked (see \<open>db_load\<close>).\<close>

record tdb =
  td_mod :: dbmod
  td_held :: bool

definition at_db :: "dns \<Rightarrow> string \<Rightarrow> nat \<Rightarrow> string \<Rightarrow> tdb \<Rightarrow> bool" where
  "at_db dns loc p d t = (ip_eq_str dns (db_location (td_mod t)) loc \<and> db_port (td_mod t) = p \<and> db_name (td_mod t) = d)"

section \<open>Answers\<close>

fun cdb_ask :: "(byte list \<Rightarrow> byte list) \<Rightarrow> (dbmod \<Rightarrow> 's engine) \<Rightarrow> string \<Rightarrow> tdb list \<Rightarrow> db_user \<Rightarrow> 's \<Rightarrow> (db_user \<times> 's) cres option" where
  "cdb_ask md5 eng us [] d s = Some (Inr (d, s))"
| "cdb_ask md5 eng us (t # ts) d s =
     obind (if db_shutdown (td_mod t) then Some (Inr (d, s)) else db_get_user md5 (td_mod t) (eng (td_mod t)) us s) (\<lambda>(d', s').
       if du_connect d' then Some (Inr (d', s')) else cdb_ask md5 eng us ts d' s')"

definition cdb_get :: "(byte list \<Rightarrow> byte list) \<Rightarrow> (dbmod \<Rightarrow> 's engine) \<Rightarrow> string \<Rightarrow> tdb list \<Rightarrow> 's \<Rightarrow> (db_user \<times> 's) cres option" where
  "cdb_get md5 eng us ts s = cdb_ask md5 eng us ts (new_db_user \<lparr> du_connect := False, du_result := False \<rparr>) s"

fun cdb_add_log :: "(int \<Rightarrow> tm) \<Rightarrow> (dbmod \<Rightarrow> 's engine) \<Rightarrow> ipaddr \<Rightarrow> log_user \<Rightarrow> tdb list \<Rightarrow> 's \<Rightarrow> 's" where
  "cdb_add_log local eng our l [] s = s"
| "cdb_add_log local eng our l (t # ts) s =
     (if db_shutdown (td_mod t) then cdb_add_log local eng our l ts s
      else case add_log local (td_mod t) (eng (td_mod t)) our l s of (out, s') \<Rightarrow>
        if 0 < length out then cdb_add_log local eng our l ts s' else s')"

fun cdb_function :: "(dbmod \<Rightarrow> 's engine) \<Rightarrow> string \<Rightarrow> tdb list \<Rightarrow> 's \<Rightarrow> string \<times> 's" where
  "cdb_function eng q [] s = ([], s)"
| "cdb_function eng q (t # ts) s = (case direct_function_query (td_mod t) (eng (td_mod t)) q s of (str, s') \<Rightarrow>
     if 0 < length str then (str, s') else cdb_function eng q ts s')"

text \<open>Flows and the descriptions of the tables only concern the first database. The list is not looked at before its first
element is taken.\<close>

definition cdb_first :: "tdb list \<Rightarrow> tdb cres" where
  "cdb_first ts = (case ts of [] \<Rightarrow> Inl OutOfBounds | t # _ \<Rightarrow> Inr t)"

definition cdb_open_nf :: "(dbmod \<Rightarrow> 's engine) \<Rightarrow> tdb list \<Rightarrow> 's \<Rightarrow> (int \<times> 's) cres" where
  "cdb_open_nf eng ts s = cbind (cdb_first ts) (\<lambda>t.
     Inr (if db_shutdown (td_mod t) then (0, s) else open_nf (td_mod t) (eng (td_mod t)) s))"

definition cdb_close_nf :: "(dbmod \<Rightarrow> 's engine) \<Rightarrow> int \<Rightarrow> tdb list \<Rightarrow> 's \<Rightarrow> 's cres" where
  "cdb_close_nf eng cid ts s = cbind (cdb_first ts) (\<lambda>t.
     Inr (if db_shutdown (td_mod t) then s else close_nf (eng (td_mod t)) cid s))"

definition cdb_add_nf :: "dns \<Rightarrow> (int \<Rightarrow> tm) \<Rightarrow> (dbmod \<Rightarrow> 's engine) \<Rightarrow> ipaddr \<Rightarrow> device list \<Rightarrow> int \<Rightarrow> flow \<Rightarrow> tdb list \<Rightarrow> 's \<Rightarrow>
    's cres option" where
  "cdb_add_nf dns local eng our ds cid f ts s = obind (Some (cdb_first ts)) (\<lambda>t.
     if db_shutdown (td_mod t) then Some (Inr s)
     else map_option (\<lambda>(out, s'). Inr s') (add_nf dns local (eng (td_mod t)) our ds cid f s))"

definition cdb_table_name :: "nat \<Rightarrow> tdb list \<Rightarrow> string cres" where
  "cdb_table_name n ts = cbind (cdb_first ts) (\<lambda>t. Inr (get_table_name n))"

definition cdb_table_mask :: "nat \<Rightarrow> tdb list \<Rightarrow> string cres" where
  "cdb_table_mask n ts = cbind (cdb_first ts) (\<lambda>t. Inr (get_table_mask n))"

definition cdb_table_descr :: "nat \<Rightarrow> tdb list \<Rightarrow> string cres" where
  "cdb_table_descr n ts = cbind (cdb_first ts) (\<lambda>t. Inr (get_table_descr n))"

definition cdb_field_name :: "nat \<Rightarrow> nat \<Rightarrow> tdb list \<Rightarrow> string cres" where
  "cdb_field_name t n ts = cbind (cdb_first ts) (\<lambda>_. Inr (get_field_name t n))"

definition cdb_field_descr :: "nat \<Rightarrow> nat \<Rightarrow> tdb list \<Rightarrow> string cres" where
  "cdb_field_descr t n ts = cbind (cdb_first ts) (\<lambda>_. Inr (get_field_descr t n))"

definition cdb_field_defv :: "nat \<Rightarrow> nat \<Rightarrow> tdb list \<Rightarrow> string cres" where
  "cdb_field_defv t n ts = cbind (cdb_first ts) (\<lambda>_. Inr (get_field_defv t n))"

definition cdb_field_type :: "nat \<Rightarrow> nat \<Rightarrow> tdb list \<Rightarrow> nat cres" where
  "cdb_field_type t n ts = cbind (cdb_first ts) (\<lambda>_. Inr (get_field_type t n))"

definition cdb_field_num :: "nat \<Rightarrow> tdb list \<Rightarrow> nat cres" where
  "cdb_field_num t ts = cbind (cdb_first ts) (\<lambda>_. Inr (get_field_num t))"

section \<open>Changes go to all databases\<close>

fun cdb_all :: "(tdb \<Rightarrow> 's \<Rightarrow> (string \<times> 's) cres) \<Rightarrow> tdb list \<Rightarrow> 's \<Rightarrow> (string \<times> 's) cres" where
  "cdb_all f [] s = Inr ([], s)"
| "cdb_all f (t # ts) s = cbind (f t s) (\<lambda>(out, s1). cbind (cdb_all f ts s1) (\<lambda>(outs, s2). Inr (out @ outs, s2)))"

definition cdb_create_all :: "(dbmod \<Rightarrow> 's engine) \<Rightarrow> tdb list \<Rightarrow> 's \<Rightarrow> (string \<times> 's) cres" where
  "cdb_create_all eng = cdb_all (\<lambda>t s. Inr (db_create_all (td_mod t) (eng (td_mod t)) s))"

definition cdb_add_data :: "env \<Rightarrow> (dbmod \<Rightarrow> 's engine) \<Rightarrow> string \<Rightarrow> string list \<Rightarrow> string list \<Rightarrow> tdb list \<Rightarrow> 's \<Rightarrow> (string \<times> 's) cres" where
  "cdb_add_data ev eng table as vs = cdb_all (\<lambda>t s. db_add ev (td_mod t) (eng (td_mod t)) table as vs s)"

definition cdb_modify_data :: "env \<Rightarrow> (dbmod \<Rightarrow> 's engine) \<Rightarrow> string \<Rightarrow> string list \<Rightarrow> string list \<Rightarrow> string list \<Rightarrow> string list \<Rightarrow>
    tdb list \<Rightarrow> 's \<Rightarrow> (string \<times> 's) cres" where
  "cdb_modify_data ev eng table as vs as2 vs2 = cdb_all (\<lambda>t s. db_modify ev (td_mod t) (eng (td_mod t)) table as vs as2 vs2 s)"

definition cdb_del_data :: "env \<Rightarrow> (dbmod \<Rightarrow> 's engine) \<Rightarrow> string \<Rightarrow> string list \<Rightarrow> string list \<Rightarrow> tdb list \<Rightarrow> 's \<Rightarrow> (string \<times> 's) cres" where
  "cdb_del_data ev eng table as vs = cdb_all (\<lambda>t s. db_del ev (td_mod t) (eng (td_mod t)) table as vs s)"

definition cdb_sshow :: "env \<Rightarrow> (dbmod \<Rightarrow> 's engine) \<Rightarrow> string \<Rightarrow> string list \<Rightarrow> string list \<Rightarrow> tdb list \<Rightarrow> 's \<Rightarrow> (string list \<times> 's) cres" where
  "cdb_sshow ev eng table as vs ts s = (case ts of [] \<Rightarrow> Inr ([], s) | t # _ \<Rightarrow> db_sshow ev (td_mod t) (eng (td_mod t)) table as vs s)"

definition cdb_show :: "env \<Rightarrow> (dbmod \<Rightarrow> 's engine) \<Rightarrow> string \<Rightarrow> string list \<Rightarrow> string list \<Rightarrow> tdb list \<Rightarrow> 's \<Rightarrow> (string \<times> 's) cres option" where
  "cdb_show ev eng table as vs ts s = (case ts of [] \<Rightarrow> Some (Inr ([], s)) | t # _ \<Rightarrow> db_show ev (td_mod t) (eng (td_mod t)) table as vs s)"

section \<open>Configuration\<close>

definition cdb_add :: "dns \<Rightarrow> string \<Rightarrow> nat \<Rightarrow> string \<Rightarrow> tdb list \<Rightarrow> tdb list" where
  "cdb_add dns loc p d ts = (if \<exists>t \<in> set ts. at_db dns loc p d t then ts
     else ts @ [\<lparr> td_mod = new_dbmod dns ''none.so'' ''public'' loc p ''dbuser'' ''dbpassword'' d, td_held = False \<rparr>])"

text \<open>The destructor takes the mutex of the module: \<open>None\<close> when it is held for ever.\<close>

definition cdb_del :: "dns \<Rightarrow> string \<Rightarrow> nat \<Rightarrow> string \<Rightarrow> tdb list \<Rightarrow> tdb list option" where
  "cdb_del dns loc p d ts =
     (if \<exists>t \<in> set ts. at_db dns loc p d t \<and> td_held t then None else Some (filter (\<lambda>t. \<not> at_db dns loc p d t) ts))"

definition cdb_change :: "dns \<Rightarrow> string \<Rightarrow> nat \<Rightarrow> string \<Rightarrow> (dbmod \<Rightarrow> dbmod) \<Rightarrow> tdb list \<Rightarrow> tdb list" where
  "cdb_change dns loc p d f ts = map (\<lambda>t. if at_db dns loc p d t then t \<lparr> td_mod := f (td_mod t) \<rparr> else t) ts"

definition modify_module :: "dns \<Rightarrow> string \<Rightarrow> nat \<Rightarrow> string \<Rightarrow> string \<Rightarrow> tdb list \<Rightarrow> tdb list" where
  "modify_module dns loc p d m = cdb_change dns loc p d (\<lambda>x. x \<lparr> db_module := m \<rparr>)"

definition cdb_modify_key :: "dns \<Rightarrow> string \<Rightarrow> nat \<Rightarrow> string \<Rightarrow> string \<Rightarrow> tdb list \<Rightarrow> tdb list" where
  "cdb_modify_key dns loc p d c = cdb_change dns loc p d (\<lambda>x. x \<lparr> db_key := c \<rparr>)"

definition cdb_modify_username :: "dns \<Rightarrow> string \<Rightarrow> nat \<Rightarrow> string \<Rightarrow> string \<Rightarrow> tdb list \<Rightarrow> tdb list" where
  "cdb_modify_username dns loc p d u = cdb_change dns loc p d (\<lambda>x. x \<lparr> db_username := u \<rparr>)"

definition cdb_modify_password :: "dns \<Rightarrow> string \<Rightarrow> nat \<Rightarrow> string \<Rightarrow> string \<Rightarrow> tdb list \<Rightarrow> tdb list" where
  "cdb_modify_password dns loc p d w = cdb_change dns loc p d (\<lambda>x. x \<lparr> db_password := w \<rparr>)"

definition modify_shutdown :: "dns \<Rightarrow> string \<Rightarrow> nat \<Rightarrow> string \<Rightarrow> bool \<Rightarrow> tdb list \<Rightarrow> tdb list" where
  "modify_shutdown dns loc p d b = cdb_change dns loc p d (\<lambda>x. x \<lparr> db_shutdown := b \<rparr>)"

text \<open>Loading the module of the first database of the name; \<open>None\<close> when its mutex is held for ever.\<close>

fun cdb_load :: "dns \<Rightarrow> (string \<Rightarrow> string) \<Rightarrow> (string \<Rightarrow> bool) \<Rightarrow> string \<Rightarrow> nat \<Rightarrow> string \<Rightarrow> tdb list \<Rightarrow> (string \<times> tdb list) option" where
  "cdb_load dns ld fns loc p d [] = Some ([], [])"
| "cdb_load dns ld fns loc p d (t # ts) =
     (if at_db dns loc p d t then map_option (\<lambda>(str, h). (str, t \<lparr> td_held := h \<rparr> # ts)) (db_load ld fns (td_mod t) (td_held t))
      else map_option (\<lambda>(str, ts'). (str, t # ts')) (cdb_load dns ld fns loc p d ts))"

definition cdb_getmodulename :: "dns \<Rightarrow> string \<Rightarrow> nat \<Rightarrow> string \<Rightarrow> tdb list \<Rightarrow> string" where
  "cdb_getmodulename dns loc p d ts = (case find (at_db dns loc p d) ts of Some t \<Rightarrow> db_module (td_mod t) | None \<Rightarrow> [])"

definition cdb_cfstr :: "dbmod \<Rightarrow> string" where
  "cdb_cfstr m = '' database '' @ getdbid m @ [CHR 0x0A] @ ''  cryptokey '' @ quoted (db_key m) @
     ''  login '' @ db_username m @ [CHR 0x0A] @ ''  password '' @ db_password m @ [CHR 0x0A] @
     ''  module '' @ db_module m @ [CHR 0x0A] @ ''  shutdown '' @ yesno (db_shutdown m) @ [CHR 0x0A] @ ''  exit''"

definition cdb_buildcfstr :: "nat \<Rightarrow> tdb list \<Rightarrow> string" where
  "cdb_buildcfstr n ts = (if n < length ts then cdb_cfstr (td_mod (ts ! n)) else [])"

text \<open>A database is named \<open>name@address:port\<close>. A module that cannot be loaded is replaced by the one before.\<close>

definition cdb_cmd :: "dns \<Rightarrow> (string \<Rightarrow> string) \<Rightarrow> (string \<Rightarrow> bool) \<Rightarrow> string \<Rightarrow> string list \<Rightarrow> string \<Rightarrow> nat \<Rightarrow> string \<Rightarrow> tdb list \<Rightarrow>
    (string \<times> tdb list) cres option" where
  "cdb_cmd dns ld fns cmdname ps loc p d ts =
     (let plain = (\<lambda>f. Some (cbind (first_param ps) (\<lambda>v. Inr ([], f v ts))))
      in if cmdname = ''confDbNo'' then map_option (\<lambda>ts'. Inr ([], ts')) (cdb_del dns loc p d ts)
         else if cmdname = ''confDbNode'' then map_option Inr (cdb_load dns ld fns loc p d (cdb_add dns loc p d ts))
         else if cmdname = ''confDbCrypto'' then plain (cdb_modify_key dns loc p d)
         else if cmdname = ''confDbLogin'' then plain (cdb_modify_username dns loc p d)
         else if cmdname = ''confDbPasswd'' then plain (cdb_modify_password dns loc p d)
         else if cmdname = ''confDbModule'' then obind (Some (first_param ps)) (\<lambda>v.
           let old = cdb_getmodulename dns loc p d ts
           in case cdb_load dns ld fns loc p d (modify_module dns loc p d v ts) of
                None \<Rightarrow> None
              | Some (str, ts1) \<Rightarrow>
                  if 0 < length str
                  then map_option (\<lambda>(_, ts2). Inr (str, ts2)) (cdb_load dns ld fns loc p d (modify_module dns loc p d old ts1))
                  else Some (Inr (str, ts1)))
         else if cmdname = ''confDbShutdown'' then
           Some (cbind (first_param ps) (\<lambda>v. Inr ([], modify_shutdown dns loc p d (\<not> match (Some v) (Some ''No'')) ts)))
         else Some (Inr ([], ts)))"

definition cdb_applycf :: "dns \<Rightarrow> (string \<Rightarrow> string) \<Rightarrow> (string \<Rightarrow> bool) \<Rightarrow> string \<Rightarrow> string list \<Rightarrow> string list \<Rightarrow> tdb list \<Rightarrow>
    (string \<times> tdb list) cres option" where
  "cdb_applycf dns ld fns cmdname ps us ts =
     obind (Some (first_param (if cmdname = ''confDbNo'' \<or> cmdname = ''confDbNode'' then ps else us))) (\<lambda>descr.
     obind (Some (splitId (Some descr) 0)) (\<lambda>n. obind (Some (splitId (Some descr) 1)) (\<lambda>h. obind (Some (splitId (Some descr) 2)) (\<lambda>q.
       if length n = 0 \<or> length h = 0 \<or> length q = 0 then
         Some (Inr (''% wrong database descriptor /'' @ descr @ ''/ you must use databasename@ipaddress:port form'', ts))
       else cdb_cmd dns ld fns cmdname ps (snprintf_s 16 h) (unat (word_of_int (atoi_c q) :: 32 word)) (snprintf_s 63 n) ts))))"

section \<open>Which database answers\<close>

text \<open>The first open database that connects; when none does, the answer of the last open one.\<close>

lemma cdb_get_first:
  assumes "\<forall>t \<in> set ts. \<not> db_shutdown (td_mod t) \<longrightarrow> db_get_user md5 (td_mod t) (eng (td_mod t)) us s = Some (Inr (ans t, s))"
    and "\<not> du_connect d"
  shows "cdb_ask md5 eng us ts d s = Some (Inr (case find (\<lambda>t. \<not> db_shutdown (td_mod t) \<and> du_connect (ans t)) ts of
        Some t \<Rightarrow> ans t
      | None \<Rightarrow> last (d # map ans (filter (\<lambda>t. \<not> db_shutdown (td_mod t)) ts)), s))"
  using assms
proof (induction ts arbitrary: d)
  case (Cons t ts)
  then show ?case by (cases "db_shutdown (td_mod t)"; cases "du_connect (ans t)") (auto split: option.splits)
qed simp

text \<open>A module that fails to load leaves its mutex locked: the attempt to load the old one again never returns.\<close>

lemma module_change_hangs:
  assumes "find (at_db dns loc p d) ts = Some t" "\<not> td_held t" "ld v \<noteq> ''(null)''" "0 < length (ld v)"
  shows "cdb_cmd dns ld fns ''confDbModule'' [v] loc p d ts = None"
proof -
  have at: "at_db dns loc p d (u \<lparr> td_mod := (td_mod u) \<lparr> db_module := w \<rparr> \<rparr>) = at_db dns loc p d u"
    "at_db dns loc p d (u \<lparr> td_held := h \<rparr>) = at_db dns loc p d u" for u w h by (simp_all add: at_db_def)
  have "\<exists>ts1. cdb_load dns ld fns loc p d (modify_module dns loc p d v ts) = Some (ld v, ts1) \<and>
      (\<forall>w. cdb_load dns ld fns loc p d (modify_module dns loc p d w ts1) = None)"
    using assms(1)
  proof (induction ts)
    case (Cons u ts)
    show ?case
    proof (cases "at_db dns loc p d u")
      case True
      with Cons.prems have "u = t" by simp
      with True assms(2-4) show ?thesis by (simp add: modify_module_def cdb_change_def at db_load_def Let_def) (simp add: at_db_def)
    next
      case False
      with Cons.prems have "find (at_db dns loc p d) ts = Some t" by simp
      from Cons.IH[OF this] obtain ts1 where "cdb_load dns ld fns loc p d (modify_module dns loc p d v ts) = Some (ld v, ts1)"
        "\<forall>w. cdb_load dns ld fns loc p d (modify_module dns loc p d w ts1) = None" by blast
      with False show ?thesis by (intro exI[of _ "u # ts1"]) (simp add: modify_module_def cdb_change_def)
    qed
  qed simp
  then show ?thesis using assms(3,4) by (auto simp: cdb_cmd_def first_param_def Let_def)
qed

end
