(* ===== verification/CoreListener.thy ===== *)
theory CoreListener
  imports CoreAccess CorePeer
begin

text \<open>
  The ports the server listens on (\<^verbatim>\<open>src/CoreListener.cc\<close>) and the life of a connection
  (\<^verbatim>\<open>src/Listener.cc\<close>): the thread of a listener takes connections, checks the address against the access list
  and the number of sessions against the limit, and starts a thread that runs the handler.
  Sockets are left out: what arrives is an event.
\<close>

section \<open>Listeners\<close>

datatype servertype = TCP | UDP | UDP_MULTICAST | XMLRPC

datatype handler = TacacsServer | RadiusServer | RadacctServer | HttpServer | XmlrpcServer | TerminalServer
  | NetflowServer | BundleServer | PeerServer | TciServer

record listener =
  ls_qDescrNum :: int
  ls_created :: bool
  ls_servname :: string
  ls_maxconnect :: int
  ls_acl :: int
  ls_port :: "32 word"
  ls_servertype :: servertype
  ls_users :: "handler option"

definition Listener_data :: "32 word \<Rightarrow> servertype \<Rightarrow> int \<Rightarrow> handler option \<Rightarrow> int \<Rightarrow> listener" where
  "Listener_data p t m f a = \<lparr> ls_qDescrNum = 0, ls_created = True, ls_servname = [], ls_maxconnect = m, ls_acl = a,
     ls_port = p, ls_servertype = t, ls_users = f \<rparr>"

definition destroy :: "listener \<Rightarrow> listener" where
  "destroy l = l \<lparr> ls_created := False \<rparr>"

definition add_session :: "listener \<Rightarrow> int \<times> listener" where
  "add_session l = (ls_qDescrNum l + 1, l \<lparr> ls_qDescrNum := ls_qDescrNum l + 1 \<rparr>)"

definition del_session :: "listener \<Rightarrow> listener" where
  "del_session l = l \<lparr> ls_qDescrNum := (if ls_qDescrNum l - 1 < 0 then 0 else ls_qDescrNum l - 1) \<rparr>"

section \<open>The list of listeners\<close>

text \<open>The handler and protocol of a service; \<open>xml\<close>: compiled with \<^verbatim>\<open>WITH_XMLRPC\<close>.\<close>

definition service :: "bool \<Rightarrow> string \<Rightarrow> (handler option \<times> servertype) option" where
  "service xml s =
     (if s = ''null'' then Some (None, TCP)
      else if s = ''tacacs'' then Some (Some TacacsServer, TCP)
      else if s = ''radius'' then Some (Some RadiusServer, UDP)
      else if s = ''radacct'' then Some (Some RadacctServer, UDP)
      else if s = ''http'' then Some (Some HttpServer, TCP)
      else if xml \<and> s = ''xmlrpc'' then Some (Some XmlrpcServer, XMLRPC)
      else if s = ''terminal'' then Some (Some TerminalServer, TCP)
      else if s = ''netflow'' then Some (Some NetflowServer, UDP)
      else if s = ''bundle'' then Some (Some BundleServer, UDP_MULTICAST)
      else if s = ''peer'' then Some (Some PeerServer, TCP)
      else if s = ''tci'' then Some (Some TciServer, TCP)
      else None)"

definition ls_add4 :: "bool \<Rightarrow> 32 word \<Rightarrow> int \<Rightarrow> string \<Rightarrow> int \<Rightarrow> listener list \<Rightarrow> listener list" where
  "ls_add4 xml p m s a srv =
     (if \<exists>l \<in> set srv. ls_port l = p then srv
      else case service xml s of
        None \<Rightarrow> srv
      | Some (f, t) \<Rightarrow> srv @ [(Listener_data p t m f a) \<lparr> ls_servname := s \<rparr>])"

definition ls_add :: "bool \<Rightarrow> 32 word \<Rightarrow> listener list \<Rightarrow> listener list" where
  "ls_add xml p = ls_add4 xml p 0 ''null'' 0"

definition ls_del :: "32 word \<Rightarrow> listener list \<Rightarrow> listener list" where
  "ls_del p srv = filter (\<lambda>l. ls_port l \<noteq> p) srv"

definition ls_modify1 :: "bool \<Rightarrow> 32 word \<Rightarrow> string \<Rightarrow> listener list \<Rightarrow> listener list" where
  "ls_modify1 xml p s srv = (case find (\<lambda>l. ls_port l = p) srv of
      Some l \<Rightarrow> ls_add4 xml p (ls_maxconnect l) s (ls_acl l) (del_first (\<lambda>l. ls_port l = p) srv)
    | None \<Rightarrow> ls_add4 xml p 0 s 0 srv)"

text \<open>The jump back after the listener was added is taken at most once, see \<open>modify_found\<close>.\<close>

definition ls_modify2 :: "bool \<Rightarrow> 32 word \<Rightarrow> int \<Rightarrow> listener list \<Rightarrow> listener list" where
  "ls_modify2 xml p m srv = upd_first (\<lambda>l. ls_port l = p) (\<lambda>l. l \<lparr> ls_maxconnect := m \<rparr>)
     (if \<exists>l \<in> set srv. ls_port l = p then srv else ls_add4 xml p m ''null'' 0 srv)"

definition ls_modify3 :: "bool \<Rightarrow> 32 word \<Rightarrow> int \<Rightarrow> listener list \<Rightarrow> listener list" where
  "ls_modify3 xml p a srv = upd_first (\<lambda>l. ls_port l = p) (\<lambda>l. l \<lparr> ls_acl := a \<rparr>)
     (if \<exists>l \<in> set srv. ls_port l = p then srv else ls_add4 xml p 0 ''null'' a srv)"

definition ls_check :: "regex \<Rightarrow> acls \<Rightarrow> 32 word \<Rightarrow> string \<Rightarrow> listener list \<Rightarrow> bool" where
  "ls_check rx as p a srv = (\<exists>l \<in> set srv. ls_port l = p \<and> acl_check rx (ls_acl l) a as)"

definition ls_buildcfstr :: "nat \<Rightarrow> listener list \<Rightarrow> string" where
  "ls_buildcfstr n srv =
     (if n < length srv then let l = srv ! n in
        '' listener '' @ toString_uint (ls_port l) @ [CHR 0x0A] @ ''  type '' @ ls_servname l @ [CHR 0x0A] @
        ''  maxconnect '' @ toString_int (word_of_int (ls_maxconnect l)) @ [CHR 0x0A] @
        ''  acl '' @ toString_int (word_of_int (ls_acl l)) @ [CHR 0x0A] @ ''  exit''
      else [])"

definition port_of :: "string list \<Rightarrow> (32 word) cres" where
  "port_of ps = cbind (first_param ps) (\<lambda>p. Inr (word_of_int (atoi_c p)))"

text \<open>\<open>us\<close> are the parameters of the mode, \<open>wds\<close> the words of the command.\<close>

definition ls_applycf :: "bool \<Rightarrow> string list \<Rightarrow> string \<Rightarrow> string list \<Rightarrow> string list \<Rightarrow> listener list \<Rightarrow> listener list cres" where
  "ls_applycf xml wds cmdname ps us srv =
     (if cmdname = ''confListenerNo'' then cbind (port_of ps) (\<lambda>p. Inr (ls_del p srv))
      else if cmdname = ''confListenerNode'' then cbind (port_of ps) (\<lambda>p. Inr (ls_add xml p srv))
      else if cmdname = ''confListenerMaxconnect'' then
        cbind (port_of us) (\<lambda>p. cbind (first_param ps) (\<lambda>m. Inr (ls_modify2 xml p (atoi_c m) srv)))
      else if cmdname = ''confListenerAcl'' then
        cbind (port_of us) (\<lambda>p. cbind (first_param ps) (\<lambda>a. Inr (ls_modify3 xml p (atoi_c a) srv)))
      else cbind (port_of us) (\<lambda>p. case wds of _ # m # _ \<Rightarrow> Inr (ls_modify1 xml p (lower m) srv) | _ \<Rightarrow> Inl OutOfBounds))"

section \<open>The start of a listener\<close>

text \<open>The threads \<^verbatim>\<open>CoreListener::init\<close> starts; \<open>thr k\<close>: the system makes the thread asked for in the \<open>k\<close>-th place. The first
one that can not be made is the last one asked for.\<close>

fun ls_init :: "(nat \<Rightarrow> bool) \<Rightarrow> nat \<Rightarrow> listener list \<Rightarrow> listener list" where
  "ls_init thr k [] = []"
| "ls_init thr k (l # ls) =
     (if \<not> (ls_created l \<and> ls_users l \<noteq> None) then ls_init thr k ls
      else if thr k then l # ls_init thr (Suc k) ls else [])"

text \<open>What the system says to the calls of \<^verbatim>\<open>AcceptConnection\<close> before its loop. The result of \<^verbatim>\<open>socket\<close> is kept unsigned: that it
is below zero is never seen, the next call fails instead.\<close>

record calls =
  sy_reuse :: bool
  sy_member :: bool
  sy_bind :: bool
  sy_listen :: bool

datatype started = NoHandler | UnknownType | NoReuse | NoBundle | PortMismatch | NoGroup | NoBind | NoListen | Listening

definition accept_start :: "bool \<Rightarrow> 32 word \<Rightarrow> calls \<Rightarrow> listener \<Rightarrow> started" where
  "accept_start isb bport sy us =
     (if ls_users us = None then NoHandler
      else if ls_servertype us = XMLRPC then UnknownType
      else if ls_servertype us = TCP \<and> \<not> sy_reuse sy then NoReuse
      else if ls_servertype us = UDP_MULTICAST \<and> \<not> isb then NoBundle
      else if ls_servertype us = UDP_MULTICAST \<and> ls_port us \<noteq> bport then PortMismatch
      else if ls_servertype us = UDP_MULTICAST \<and> \<not> sy_member sy then NoGroup
      else if \<not> sy_bind sy then NoBind
      else if ls_servertype us = TCP \<and> \<not> sy_listen sy then NoListen
      else Listening)"

section \<open>Connections\<close>

text \<open>What a thread is given: socket, port, datagram, protocol, address of the client, number.\<close>

record connect =
  cn_fh :: int
  cn_port :: "32 word"
  cn_buf :: "byte list option"
  cn_servertype :: servertype
  cn_addr :: ipv4
  cn_number :: int

datatype arrival = Failed | Arrived int ipv4 "byte list"

text \<open>
  One pass of the loop of \<^verbatim>\<open>AcceptConnection\<close>. \<open>Started\<close>: a thread runs the handler; \<open>Ran\<close>: the handler
  ran on the datagram; \<open>NoThread\<close>: the thread could not be made.
\<close>

datatype accepted = Nothing | Unauthorized | TooMany | NoThread | Started connect | Ran connect

definition accept_pass :: "regex \<Rightarrow> acls \<Rightarrow> listener list \<Rightarrow> bool \<Rightarrow> arrival \<Rightarrow> listener \<Rightarrow> accepted \<times> listener" where
  "accept_pass rx as srv thr ar us = (case ar of
      Failed \<Rightarrow> (Nothing, us)
    | Arrived fd addr buf \<Rightarrow>
        if \<not> ls_check rx as (ls_port us) (snprintf_s 29 (inet_ntoa addr)) srv then (Unauthorized, us)
        else if ls_maxconnect us \<le> ls_qDescrNum us \<and> ls_servertype us = TCP then (TooMany, us)
        else let (n, us1) = add_session us;
                 c = \<lparr> cn_fh = fd, cn_port = ls_port us, cn_buf = (if ls_servertype us = TCP then None else Some (take 2048 buf)),
                       cn_servertype = ls_servertype us, cn_addr = addr, cn_number = n \<rparr>
             in if ls_servertype us = TCP then (if thr then (Started c, us1) else (NoThread, del_session us1))
                else (Ran c, del_session us1))"

text \<open>A listener that runs: its data, the handler threads that have not ended, the sockets that were given to a handler.\<close>

record running =
  rn_us :: listener
  rn_threads :: "connect list"

definition accept_step :: "regex \<Rightarrow> acls \<Rightarrow> listener list \<Rightarrow> bool \<Rightarrow> arrival \<Rightarrow> running \<Rightarrow> running" where
  "accept_step rx as srv thr ar r = (case accept_pass rx as srv thr ar (rn_us r) of
      (Started c, us) \<Rightarrow> \<lparr> rn_us = us, rn_threads = rn_threads r @ [c] \<rparr>
    | (_, us) \<Rightarrow> r \<lparr> rn_us := us \<rparr>)"

definition HandleConnection_end :: "connect \<Rightarrow> running \<Rightarrow> running" where
  "HandleConnection_end c r = \<lparr> rn_us = del_session (rn_us r), rn_threads = remove1 c (rn_threads r) \<rparr>"

text \<open>Steps: a pass of the loop, the end of a handler, the limit or the access list is changed. The access lists and the other
listeners are whatever they are at the step.\<close>

inductive ls_step :: "regex \<Rightarrow> running \<Rightarrow> running \<Rightarrow> bool" for rx where
  accept: "ls_created (rn_us r) \<Longrightarrow> ls_step rx r (accept_step rx as srv thr ar r)"
| handler_end: "c \<in> set (rn_threads r) \<Longrightarrow> ls_step rx r (HandleConnection_end c r)"
| new_limit: "ls_step rx r (r \<lparr> rn_us := (rn_us r) \<lparr> ls_maxconnect := m \<rparr> \<rparr>)"
| new_acl: "ls_step rx r (r \<lparr> rn_us := (rn_us r) \<lparr> ls_acl := a \<rparr> \<rparr>)"
| stop: "ls_step rx r (r \<lparr> rn_us := destroy (rn_us r) \<rparr>)"

inductive ls_reach :: "regex \<Rightarrow> nat \<Rightarrow> running \<Rightarrow> running \<Rightarrow> bool" for rx mx r where
  start: "ls_reach rx mx r r"
| step: "ls_reach rx mx r s \<Longrightarrow> ls_step rx s t \<Longrightarrow> ls_maxconnect (rn_us t) \<le> int mx \<Longrightarrow> ls_reach rx mx r t"

section \<open>The registry of listeners\<close>

definition ls_keys :: "listener list \<Rightarrow> (32 word) list" where
  "ls_keys srv = map ls_port srv"

lemma service_null [simp]: "service xml ''null'' = Some (None, TCP)"
  by (simp add: service_def)

lemma Listener_data_simps [simp]:
  "ls_port (Listener_data p t m f a) = p" "ls_maxconnect (Listener_data p t m f a) = m" "ls_acl (Listener_data p t m f a) = a"
  "ls_qDescrNum (Listener_data p t m f a) = 0" "ls_servertype (Listener_data p t m f a) = t"
  "ls_users (Listener_data p t m f a) = f" "ls_created (Listener_data p t m f a) = True"
  by (simp_all add: Listener_data_def)

lemma ls_keys_simps [reg_simps]:
  "ls_keys (ls_add xml p srv) = (if p \<in> set (ls_keys srv) then ls_keys srv else ls_keys srv @ [p])"
  "ls_keys (ls_del p srv) = filter (\<lambda>x. x \<noteq> p) (ls_keys srv)"
  by (auto simp: ls_keys_def ls_add_def ls_add4_def ls_del_def map_filter_key)

interpretation ls_reg: registry ls_keys "ls_add xml" ls_del for xml
  by unfold_locales (simp_all add: reg_simps)

text \<open>The listener that was added is found when the search starts again.\<close>

lemma modify_found:
  "\<exists>l \<in> set (if \<exists>l \<in> set srv. ls_port l = p then srv else ls_add4 xml p m ''null'' a srv). ls_port l = p"
  by (auto simp: ls_add4_def)

lemma add_found: "(\<exists>l \<in> set (ls_add4 xml p m s a srv). ls_port l = p) = ((\<exists>l \<in> set srv. ls_port l = p) \<or> service xml s \<noteq> None)"
  by (auto simp: ls_add4_def split: option.splits)

text \<open>A new type makes a new listener with the limit and list of the old one; a type that is not known removes it.\<close>

lemma modify1_retypes:
  assumes "distinct (ls_keys srv)"
  shows "find (\<lambda>l. ls_port l = p) (ls_modify1 xml p s srv) =
    (case service xml s of
       None \<Rightarrow> None
     | Some (f, t) \<Rightarrow> Some (case find (\<lambda>l. ls_port l = p) srv of
           Some l \<Rightarrow> (Listener_data p t (ls_maxconnect l) f (ls_acl l)) \<lparr> ls_servname := s \<rparr>
         | None \<Rightarrow> (Listener_data p t 0 f 0) \<lparr> ls_servname := s \<rparr>))"
proof -
  have gone: "\<forall>l \<in> set (del_first (\<lambda>l. ls_port l = p) srv). ls_port l \<noteq> p"
  proof -
    have "p \<notin> set (map ls_port (del_first (\<lambda>l. ls_port l = p) srv))"
      using assms by (simp add: map_del_first_key ls_keys_def)
    then show ?thesis by auto
  qed
  have new: "find (\<lambda>l. ls_port l = p) (ls_add4 xml p m s a xs) =
      (case service xml s of None \<Rightarrow> None | Some (f, t) \<Rightarrow> Some ((Listener_data p t m f a) \<lparr> ls_servname := s \<rparr>))"
    if "\<forall>l \<in> set xs. ls_port l \<noteq> p" for xs m a
  proof -
    have "find (\<lambda>l. ls_port l = p) xs = None" using that by (auto simp: find_None_iff)
    then show ?thesis using that by (auto simp: ls_add4_def find_append split: option.splits)
  qed
  show ?thesis
  proof (cases "find (\<lambda>l. ls_port l = p) srv")
    case None
    then have "\<forall>l \<in> set srv. ls_port l \<noteq> p" by (simp add: find_None_iff)
    from new[OF this, of 0 0] None show ?thesis by (simp add: ls_modify1_def split: option.splits)
  next
    case (Some l)
    with new[OF gone, of "ls_maxconnect l" "ls_acl l"] show ?thesis by (simp add: ls_modify1_def split: option.splits)
  qed
qed

section \<open>The counter of sessions\<close>

definition counted :: "nat \<Rightarrow> running \<Rightarrow> bool" where
  "counted mx r = (ls_qDescrNum (rn_us r) = int (length (rn_threads r)) \<and> length (rn_threads r) \<le> mx)"

lemma counted_accept:
  assumes "counted mx r" "ls_maxconnect (rn_us r) \<le> int mx"
  shows "counted mx (accept_step rx as srv thr ar r)"
  using assms by (auto simp: accept_step_def accept_pass_def add_session_def del_session_def counted_def Let_def
      split: arrival.splits)

lemma accept_limit: "ls_maxconnect (rn_us (accept_step rx as srv thr ar r)) = ls_maxconnect (rn_us r)"
  by (auto simp: accept_step_def accept_pass_def add_session_def del_session_def Let_def split: arrival.splits)

lemma counted_step:
  assumes "ls_step rx r s" "counted mx r" "ls_maxconnect (rn_us s) \<le> int mx"
  shows "counted mx s"
  using assms
proof (cases rule: ls_step.cases)
  case (accept as srv thr ar)
  with assms(2,3) show ?thesis by (simp add: counted_accept accept_limit)
next
  case (handler_end c)
  then have "length (rn_threads r) = Suc (length (remove1 c (rn_threads r)))"
    by (auto simp: length_remove1 dest: length_pos_if_in_set)
  with handler_end assms(2) show ?thesis
    by (simp add: HandleConnection_end_def del_session_def counted_def)
qed (simp_all add: counted_def destroy_def)

section \<open>Properties\<close>

text \<open>C23: the counter of sessions of a listener is the number of its handler threads, whatever connections, ends of
handlers and changes of the limit come in whatever order; no more threads run than the largest limit that was set.\<close>

theorem sessions_bounded:
  assumes "ls_reach rx mx \<lparr> rn_us = Listener_data p t m f a, rn_threads = [] \<rparr> r"
  shows "ls_qDescrNum (rn_us r) = int (length (rn_threads r)) \<and> length (rn_threads r) \<le> mx"
proof -
  have "counted mx r"
    using assms
  proof induction
    case start
    show ?case by (simp add: counted_def)
  next
    case (step u v)
    then show ?case by (blast intro: counted_step)
  qed
  then show ?thesis by (simp add: counted_def)
qed

definition open_acl :: acls where
  "open_acl = snd (acl_add_permit 1 (Some ''.'') (acl_add 1 []))"

definition demo_listener :: listener where
  "demo_listener = Listener_data 49 TCP 5 (Some TacacsServer) 1"

definition demo_running :: running where
  "demo_running = accept_step (\<lambda>p t. Some True) open_acl [demo_listener] True (Arrived 7 10 [])
     \<lparr> rn_us = demo_listener, rn_threads = [] \<rparr>"

lemma sessions_bounded_witness:
  "length (rn_threads demo_running) = 1 \<and> ls_qDescrNum (rn_us demo_running) = int (length (rn_threads demo_running)) \<and>
   length (rn_threads demo_running) \<le> 5"
proof -
  have "acl_check (\<lambda>p t. Some True) 1 x open_acl" for x
    by (simp add: open_acl_def acl_add_def acl_add_permit_def has_acl_def new_acl_def data_add_permit_def rx_hit_def
        checkPermit_def checkDeny_def snprintf_s_short)
  then have one: "length (rn_threads demo_running) = 1"
    by (simp add: demo_running_def demo_listener_def accept_step_def accept_pass_def ls_check_def add_session_def Let_def)
  have "ls_reach (\<lambda>p t. Some True) 5 \<lparr> rn_us = demo_listener, rn_threads = [] \<rparr> demo_running"
    by (rule ls_reach.step[OF ls_reach.start])
      (simp_all add: demo_running_def accept_limit ls_step.accept, simp_all add: demo_listener_def ls_step.accept)
  from sessions_bounded[OF this[unfolded demo_listener_def]] one show ?thesis by simp
qed

text \<open>The configuration \<^verbatim>\<open>ls_add\<close> leaves: a listener that was given a port and no service has no handler; it never listens. One of
the bundle protocol listens on the port of the bundle only.\<close>

lemma new_port_silent: "find (\<lambda>l. ls_port l = p) srv = None \<Longrightarrow> \<exists>l. ls_add xml p srv = srv @ [l] \<and> accept_start isb bport sy l = NoHandler \<and> ls_init thr k [l] = []"
  by (auto simp: ls_add_def ls_add4_def service_def accept_start_def Listener_data_def find_None_iff)

lemma bundle_port_only: "ls_servertype us = UDP_MULTICAST \<Longrightarrow> accept_start isb bport sy us = Listening \<Longrightarrow> isb \<and> ls_port us = bport"
  by (auto simp: accept_start_def split: if_splits)

lemma init_all: "\<forall>j. thr j \<Longrightarrow> ls_init thr k srv = filter (\<lambda>l. ls_created l \<and> ls_users l \<noteq> None) srv"
  by (induction srv arbitrary: k) auto

end
