(* ===== verification/CmdParam.thy ===== *)
theory CmdParam
  imports UtilsMatch
begin

text \<open>
  Parameters of the command language (\<^verbatim>\<open>isCorrespondW\<close> of \<^verbatim>\<open>src/Utils.cc\<close>): a value against its description in a
  mask, \<^verbatim>\<open>{int:1-10}\<close>, \<^verbatim>\<open>{str:2-255}\<close>, \<^verbatim>\<open>{ip: }\<close>, \<^verbatim>\<open>{choice:Yes|No}\<close>. \<open>aft\<close>: the bytes behind the terminator of the value,
  of which the test for an address may read one.
\<close>

section \<open>The test\<close>

text \<open>\<^verbatim>\<open>strncasecmp\<close> with the length of the name.\<close>

definition names :: "string \<Rightarrow> string \<Rightarrow> bool" where
  "names nm k = (length nm \<le> length k \<and> map tolower_c nm = take (length nm) k)"

text \<open>The choices are not cut at the bar: each is compared up to the end of the description.\<close>

fun choice_tails :: "string \<Rightarrow> string list" where
  "choice_tails [] = []"
| "choice_tails (c # s) = (if c = CHR ''|'' then s # choice_tails s else choice_tails s)"

text \<open>Bounds: the smallest value, and the largest unless it is open.\<close>

definition limits :: "string \<Rightarrow> int \<times> int option" where
  "limits par =
     (let s = dropWhile (\<lambda>c. c = CHR '' '') par;
          mn = takeWhile (\<lambda>c. c \<noteq> CHR ''-'' \<and> c \<noteq> CHR '' '') s;
          mx = dropWhile (\<lambda>c. c = CHR ''-'' \<or> c = CHR '' '') (drop (Suc (length mn)) s)
      in (atoi_c mn, if mx = [] then None else Some (wrap32 (atoi_c mx))))"

definition within :: "int \<times> int option \<Rightarrow> int \<Rightarrow> bool" where
  "within lim n = (fst lim \<le> n \<and> (case snd lim of None \<Rightarrow> True | Some mx \<Rightarrow> n \<le> mx))"

definition isCorrespondW :: "string \<Rightarrow> string \<Rightarrow> string \<Rightarrow> bool cres" where
  "isCorrespondW aft desc str =
     (let d = dropWhile (\<lambda>c. c = CHR ''{'' \<or> c = CHR '' '') desc;
          nm = takeWhile (\<lambda>c. c \<noteq> CHR '':'' \<and> c \<noteq> CHR '' '') d;
          r = drop (length nm) d;
          par = dropWhile (\<lambda>c. c = CHR '':'' \<or> c = CHR '' '') r
      in if d = [] \<or> r = [] then Inr False
         else if names nm ''ip'' then isIp (Some str) aft
         else if par = [] then Inl OutOfBounds
         else let t = butlast par
              in if names nm ''choice'' then
                   Inr (2 \<le> length t \<and> (\<exists>m \<in> set (t # choice_tails t). matchNstrict str m))
                 else if names nm ''str'' then Inr (within (limits t) (int (length str)))
                 else if names nm ''int'' then
                   Inr (list_all isdigit_c str \<and> within (limits t) (atoi_c str))
                 else Inr False)"

section \<open>What the descriptions of the command file accept\<close>

lemma not_digit_chars:
  "\<not> isdigit_c CHR ''-''" "\<not> isdigit_c CHR '' ''" "\<not> isdigit_c CHR ''}''" "\<not> isdigit_c CHR '':''"
  by (simp_all add: isdigit_c_def code_def)

lemma dropWhile_dec: "(\<And>c. isdigit_c c \<Longrightarrow> \<not> P c) \<Longrightarrow> dropWhile P (dec_nat n @ s) = dec_nat n @ s"
  using dec_nat_digits[of n] by (cases "dec_nat n") auto

lemma takeWhile_dec: "(\<And>c. isdigit_c c \<Longrightarrow> P c) \<Longrightarrow> takeWhile P (dec_nat n @ s) = dec_nat n @ takeWhile P s"
  using dec_nat_digits[of n] by (intro takeWhile_append2) auto

lemma digit_sep: "isdigit_c c \<Longrightarrow> c \<noteq> CHR ''-'' \<and> c \<noteq> CHR '' '' \<and> c \<noteq> CHR '':''"
  using not_digit_chars by auto

lemma limits_closed:
  assumes "lo < 2 ^ 31" "hi < 2 ^ 31"
  shows "limits (dec_nat lo @ CHR ''-'' # dec_nat hi) = (int lo, Some (int hi))"
proof -
  have w: "wrap32 (int hi) = int hi" using assms by (simp add: wrap32_def)
  have "dropWhile (\<lambda>c. c = CHR ''-'' \<or> c = CHR '' '') (dec_nat hi) = dec_nat hi"
    using dropWhile_dec[of "\<lambda>c. c = CHR ''-'' \<or> c = CHR '' ''" hi "[]"] digit_sep by auto
  moreover have "\<exists>c \<in> set (dec_nat hi). c \<noteq> CHR ''-'' \<and> c \<noteq> CHR '' ''"
    using dec_nat_digits[of hi] digit_sep by (metis dec_nat_nonempty last_in_set)
  ultimately show ?thesis using assms w
    by (simp add: limits_def Let_def dropWhile_dec takeWhile_dec digit_sep atoi_dec_nat)
qed

lemma limits_open: "lo < 2 ^ 31 \<Longrightarrow> limits (dec_nat lo @ ''-'') = (int lo, None)"
  by (simp add: limits_def Let_def dropWhile_dec takeWhile_dec digit_sep atoi_dec_nat)

lemma isCorrespondW_desc:
  assumes "nm \<noteq> []" "\<forall>c \<in> set nm. c \<noteq> CHR ''{'' \<and> c \<noteq> CHR '':'' \<and> c \<noteq> CHR '' ''"
    and "par \<noteq> []" "hd par \<noteq> CHR '':''" "hd par \<noteq> CHR '' ''" "\<not> names nm ''ip''"
  shows "isCorrespondW aft (CHR ''{'' # nm @ CHR '':'' # par @ ''}'') str =
    (if names nm ''choice'' then
       Inr (2 \<le> length par \<and> (\<exists>m \<in> set (par # choice_tails par). matchNstrict str m))
     else if names nm ''str'' then Inr (within (limits par) (int (length str)))
     else if names nm ''int'' then Inr (list_all isdigit_c str \<and> within (limits par) (atoi_c str))
     else Inr False)"
proof -
  let ?s = "nm @ CHR '':'' # par @ ''}''"
  have d: "dropWhile (\<lambda>c. c = CHR ''{'' \<or> c = CHR '' '') ?s = ?s" using assms(1,2) by (cases nm) auto
  have n: "takeWhile (\<lambda>c. c \<noteq> CHR '':'' \<and> c \<noteq> CHR '' '') ?s = nm"
    using assms(2) by (subst takeWhile_append2) auto
  have p: "dropWhile (\<lambda>c. c = CHR '':'' \<or> c = CHR '' '') (par @ ''}'') = par @ ''}''"
    using assms(3-5) by (cases par) auto
  show ?thesis using assms(6) by (simp add: isCorrespondW_def d n p Let_def)
qed

text \<open>A string whose length is bounded, a number that is bounded below.\<close>

lemma param_str:
  "lo < 2 ^ 31 \<Longrightarrow> hi < 2 ^ 31 \<Longrightarrow>
   isCorrespondW aft (''{str:'' @ dec_nat lo @ ''-'' @ dec_nat hi @ ''}'') s = Inr (lo \<le> length s \<and> length s \<le> hi)"
proof -
  assume "lo < 2 ^ 31" "hi < 2 ^ 31"
  moreover have "hd (dec_nat lo @ CHR ''-'' # dec_nat hi) \<noteq> CHR '':''" "hd (dec_nat lo @ CHR ''-'' # dec_nat hi) \<noteq> CHR '' ''"
    using dec_nat_digits[of lo] digit_sep by (cases "dec_nat lo"; force)+
  ultimately show ?thesis
    using isCorrespondW_desc[of "''str''" "dec_nat lo @ CHR ''-'' # dec_nat hi" aft s]
    by (simp add: names_def tolower_c_def isupper_c_def code_def within_def limits_closed)
qed

lemma param_int_from:
  "lo < 2 ^ 31 \<Longrightarrow> n < 2 ^ 31 \<Longrightarrow> isCorrespondW aft (''{int:'' @ dec_nat lo @ ''-}'') (dec_nat n) = Inr (lo \<le> n)"
proof -
  assume a: "lo < 2 ^ 31" "n < 2 ^ 31"
  moreover have "hd (dec_nat lo @ ''-'') \<noteq> CHR '':''" "hd (dec_nat lo @ ''-'') \<noteq> CHR '' ''"
    using dec_nat_digits[of lo] digit_sep by (cases "dec_nat lo"; force)+
  moreover have "list_all isdigit_c (dec_nat n)" using dec_nat_digits[of n] by (simp add: list_all_iff)
  ultimately show ?thesis
    using isCorrespondW_desc[of "''int''" "dec_nat lo @ ''-''" aft "dec_nat n"]
    by (simp add: names_def tolower_c_def isupper_c_def code_def within_def limits_open atoi_dec_nat)
qed

end
