(* ===== verification/Vty.thy ===== *)
theory Vty
  imports CString
begin

text \<open>
  The line editor of the terminal (\<^verbatim>\<open>src/Vty.cc\<close>): the buffer of 513 bytes with the cursor, what each key does to it and
  what is echoed, keys and telnet options read from the socket, output page by page. What arrives is a list of bytes;
  behind its end every read fails and the byte is zero, as \<^verbatim>\<open>bzero\<close> left it. What is sent is collected in \<open>tx\<close>.
\<close>

section \<open>The buffer\<close>

record vty =
  vty_line :: string
  vtylinepos :: int
  isChanged :: bool
  local_echo :: bool
  vty_height :: int
  vty_width :: int
  tx :: string

definition LF :: char where "LF = CHR 0x0A"
definition BEL :: char where "BEL = CHR 0x07"
definition BS :: char where "BS = CHR 0x08"

text \<open>The string at an index of the buffer, a byte written to it, bytes moved inside it.\<close>

definition cell_str :: "string \<Rightarrow> int \<Rightarrow> string cres" where
  "cell_str b i = (if 0 \<le> i \<and> NUL \<in> set (drop (nat i) b) then Inr (c_str (drop (nat i) b)) else Inl OutOfBounds)"

definition cell :: "string \<Rightarrow> int \<Rightarrow> char cres" where
  "cell b i = (if 0 \<le> i \<and> nat i < length b then Inr (b ! nat i) else Inl OutOfBounds)"

definition put :: "string \<Rightarrow> int \<Rightarrow> char \<Rightarrow> string cres" where
  "put b i c = (if 0 \<le> i \<and> nat i < length b then Inr (b[nat i := c]) else Inl OutOfBounds)"

definition memmove :: "string \<Rightarrow> int \<Rightarrow> int \<Rightarrow> int \<Rightarrow> string cres" where
  "memmove b d s n =
     (if n = 0 then Inr b
      else if n < 0 \<or> d < 0 \<or> s < 0 \<or> int (length b) < d + n \<or> int (length b) < s + n then Inl OutOfBounds
      else Inr (take (nat d) b @ take (nat n) (drop (nat s) b) @ drop (nat (d + n)) b))"

definition maxVtyInput :: int where "maxVtyInput = 512"

definition blank_line :: string where
  "blank_line = replicate 513 NUL"

definition vty_cleanup :: "vty \<Rightarrow> vty" where
  "vty_cleanup v = v \<lparr> vty_line := blank_line, vtylinepos := 0, isChanged := True \<rparr>"

definition vty_get_line :: "vty \<Rightarrow> string cres" where
  "vty_get_line v = cell_str (vty_line v) 0"

definition vty_set_line :: "string \<Rightarrow> vty \<Rightarrow> vty" where
  "vty_set_line l v = v \<lparr> vty_line := take 512 l @ replicate (513 - length (take 512 l)) NUL, vtylinepos := int (length l),
     isChanged := True \<rparr>"

section \<open>Output\<close>

text \<open>A carriage return goes after each line feed; \<open>j\<close> bytes of the 600 are filled. When a line feed is byte 599
there is no room for the terminator.\<close>

fun tw_loop :: "nat \<Rightarrow> string \<Rightarrow> string" where
  "tw_loop j [] = []"
| "tw_loop j (c # s) =
     (if \<not> j < 599 then [] else if c = LF then LF # CHR 0x0D # tw_loop (j + 2) s else c # tw_loop (j + 1) s)"

definition twrite :: "string \<Rightarrow> vty \<Rightarrow> vty cres" where
  "twrite s v = (let o' = tw_loop 0 (c_str s) in if length o' < 600 then Inr (v \<lparr> tx := tx v @ o' \<rparr>) else Inl OutOfBounds)"

definition twrite_char :: "char \<Rightarrow> vty \<Rightarrow> vty" where
  "twrite_char c v = v \<lparr> tx := tx v @ [c] \<rparr>"

definition backs :: "int \<Rightarrow> vty \<Rightarrow> vty" where
  "backs n v = v \<lparr> tx := tx v @ replicate (nat n) BS \<rparr>"

definition bell :: "vty \<Rightarrow> vty" where
  "bell v = twrite_char BEL v"

definition changed :: "vty \<Rightarrow> vty" where
  "changed v = v \<lparr> isChanged := True \<rparr>"

section \<open>Keys\<close>

definition vty_insert_char :: "char \<Rightarrow> vty \<Rightarrow> vty cres" where
  "vty_insert_char c v0 =
     (let v = (if local_echo v0 then twrite_char c v0 else v0); p = vtylinepos v
      in cbind (cell_str (vty_line v) 0) (\<lambda>s.
        if p = int (length s) then
          cbind (put (vty_line v) p c) (\<lambda>b. cbind (put b (p + 1) NUL) (\<lambda>b'.
            Inr (changed (v \<lparr> vty_line := b', vtylinepos := p + 1 \<rparr>))))
        else if p < maxVtyInput then
          cbind (if local_echo v then cbind (cell_str (vty_line v) p) (\<lambda>t. twrite t v) else Inr v) (\<lambda>v1.
          let n = int (length s) - p
          in cbind (memmove (vty_line v1) (p + 1) p n) (\<lambda>b. cbind (put b p c) (\<lambda>b'.
            Inr (changed (backs n (v1 \<lparr> vty_line := b', vtylinepos := p + 1 \<rparr>))))))
        else Inr (bell v)))"

definition vty_move_end_of_line :: "vty \<Rightarrow> vty cres" where
  "vty_move_end_of_line v = cbind (cell_str (vty_line v) 0) (\<lambda>s.
     if vtylinepos v < int (length s) then
       (if vtylinepos v < 0 then Inl OutOfBounds
        else Inr (changed (v \<lparr> tx := tx v @ drop (nat (vtylinepos v)) s, vtylinepos := int (length s) \<rparr>)))
     else Inr (changed v))"

definition vty_move_beginning_of_line :: "vty \<Rightarrow> vty" where
  "vty_move_beginning_of_line v =
     (if 0 < vtylinepos v then changed ((backs (vtylinepos v) v) \<lparr> vtylinepos := 0 \<rparr>) else changed v)"

text \<open>The test of the loop also counts down: the cursor ends at -1.\<close>

definition vty_clear_input :: "vty \<Rightarrow> vty cres" where
  "vty_clear_input v = cbind (vty_move_end_of_line v) (\<lambda>v1.
     cbind (put (vty_line v1) 0 NUL) (\<lambda>b.
       Inr (changed (v1 \<lparr> vty_line := b, vtylinepos := - 1,
         tx := tx v1 @ concat (replicate (nat (vtylinepos v1)) [BS, CHR '' '', BS]) \<rparr>))))"

definition vty_move_forward :: "vty \<Rightarrow> vty cres" where
  "vty_move_forward v = cbind (cell_str (vty_line v) 0) (\<lambda>s.
     if vtylinepos v < int (length s) then
       cbind (cell (vty_line v) (vtylinepos v)) (\<lambda>c.
         Inr (changed ((twrite_char c v) \<lparr> vtylinepos := vtylinepos v + 1 \<rparr>)))
     else if vtylinepos v < maxVtyInput then cbind (vty_insert_char CHR '' '' v) (\<lambda>v'. Inr (changed v'))
     else Inr (bell v))"

definition vty_move_backward :: "vty \<Rightarrow> vty" where
  "vty_move_backward v =
     (if 0 < vtylinepos v then changed ((twrite_char BS v) \<lparr> vtylinepos := vtylinepos v - 1 \<rparr>) else v)"

text \<open>The character at the cursor goes, what follows is drawn again.\<close>

definition close_gap :: "vty \<Rightarrow> vty cres" where
  "close_gap v = cbind (cell_str (vty_line v) (vtylinepos v + 1)) (\<lambda>t. cbind (twrite t v) (\<lambda>v1.
     let v2 = twrite_char CHR '' '' v1
     in cbind (cell_str (vty_line v2) 0) (\<lambda>s.
       let n = int (length s) - vtylinepos v2
       in cbind (memmove (vty_line v2) (vtylinepos v2) (vtylinepos v2 + 1) n) (\<lambda>b.
         Inr (changed (backs n (v2 \<lparr> vty_line := b \<rparr>)))))))"

definition vty_del_char :: "vty \<Rightarrow> vty cres" where
  "vty_del_char v = cbind (cell_str (vty_line v) 0) (\<lambda>s.
     if length s = 0 \<or> int (length s) = vtylinepos v then Inr (bell v) else close_gap v)"

definition vty_del_backward_char :: "vty \<Rightarrow> vty cres" where
  "vty_del_backward_char v = (if vtylinepos v = 0 then Inr (bell v) else close_gap (vty_move_backward v))"

definition vty_redraw_line :: "vty \<Rightarrow> vty cres" where
  "vty_redraw_line v = cbind (cell_str (vty_line v) 0) (\<lambda>s. cbind (twrite s v) (\<lambda>v'.
     Inr (backs (int (length s) - vtylinepos v) v')))"

definition vty_clear_line_from_beg :: "vty \<Rightarrow> vty cres" where
  "vty_clear_line_from_beg v =
     (if vtylinepos v = 0 then Inr (bell v)
      else cbind (cell_str (vty_line v) 0) (\<lambda>s.
        let n = int (length s); p = vtylinepos v
        in cbind (memmove (vty_line v) 0 p (n - p)) (\<lambda>b.
          let b1 = take (nat (n - p)) b @ replicate (nat p) CHR '' '' @ drop (nat n) b
          in if p < 0 then Inl OutOfBounds
             else cbind (cell_str b1 0) (\<lambda>t. cbind (twrite t (vty_move_beginning_of_line (v \<lparr> vty_line := b1 \<rparr>))) (\<lambda>v1.
               cbind (put b1 (n - p) NUL) (\<lambda>b2.
                 Inr (changed (vty_move_beginning_of_line (v1 \<lparr> vty_line := b2, vtylinepos := n \<rparr>)))))))))"

text \<open>To a column: step by step, for ever when the cursor cannot get there.\<close>

partial_function (option) steps_to :: "int \<Rightarrow> vty \<Rightarrow> vty cres option" where
  "steps_to q v =
     (if q = vtylinepos v then Some (Inr v)
      else if q < vtylinepos v then steps_to q (vty_move_backward v)
      else obind (Some (vty_move_forward v)) (steps_to q))"

definition vty_move_to :: "int \<Rightarrow> vty \<Rightarrow> vty cres option" where
  "vty_move_to q v = (if maxVtyInput \<le> vtylinepos v then Some (Inr v) else steps_to q v)"

section \<open>Reading keys\<close>

datatype key = T_KEY_INSERT_CHAR | T_KEY_BEGINNING_OF_LINE | T_KEY_BACKWARD_CHAR | T_KEY_DELETE_CHAR | T_KEY_END_OF_LINE
  | T_KEY_FORWARD_CHAR | T_KEY_DELETE_BACKWARD_CHAR | T_KEY_CLEAR_LINE | T_KEY_NEXT_COMMAND | T_KEY_PREVIOUS_COMMAND
  | T_KEY_CLEAR_LINE_FROM_BEGINNING | T_KEY_KILL_WORD | T_KEY_EXECUTE_COMMAND | T_KEY_COMPLETE_COMMAND | T_KEY_GET_HELP
  | T_KEY_UP | T_KEY_DOWN | T_KEY_LEFT | T_KEY_RIGHT

definition next_byte :: "byte list \<Rightarrow> byte \<times> byte list" where
  "next_byte ins = (case ins of [] \<Rightarrow> (0, []) | b # bs \<Rightarrow> (b, bs))"

text \<open>Telnet options: \<open>WILL\<close> to \<open>DONT\<close> are 251 to 254, \<open>SB\<close> 250, \<open>SE\<close> 240.\<close>

partial_function (option) toptions :: "bool \<Rightarrow> bool \<Rightarrow> byte list \<Rightarrow> vty \<Rightarrow> (byte list \<times> vty) option" where
  "toptions sub cmd ins v = (case next_byte ins of (b, bs) \<Rightarrow>
     if b = 240 then Some (bs, v)
     else if (b = 1 \<or> b = 3 \<or> b = 13 \<or> b = 31) \<and> cmd then Some (bs, v)
     else let (bs', v') = (if b = 31 then
                case next_byte bs of (_, b1) \<Rightarrow> (case next_byte b1 of (w, b2) \<Rightarrow> (case next_byte b2 of (_, b3) \<Rightarrow>
                (case next_byte b3 of (h, b4) \<Rightarrow> (b4, v \<lparr> vty_width := uint w, vty_height := uint h \<rparr>))))
              else (bs, v));
              cmd' = (cmd \<or> 251 \<le> b \<and> b \<le> 254); sub' = (sub \<or> b = 250)
          in if cmd' \<or> sub' then toptions sub' cmd' bs' v' else Some (bs', v'))"

definition control_key :: "nat \<Rightarrow> key option" where
  "control_key n =
     (if n = 1 then Some T_KEY_BEGINNING_OF_LINE else if n = 2 then Some T_KEY_BACKWARD_CHAR
      else if n = 4 then Some T_KEY_DELETE_CHAR else if n = 5 then Some T_KEY_END_OF_LINE
      else if n = 6 then Some T_KEY_FORWARD_CHAR else if n = 8 \<or> n = 127 then Some T_KEY_DELETE_BACKWARD_CHAR
      else if n = 11 then Some T_KEY_CLEAR_LINE else if n = 14 then Some T_KEY_NEXT_COMMAND
      else if n = 16 then Some T_KEY_PREVIOUS_COMMAND else if n = 21 then Some T_KEY_CLEAR_LINE_FROM_BEGINNING
      else if n = 23 then Some T_KEY_KILL_WORD else if n = 13 then Some T_KEY_EXECUTE_COMMAND
      else if n = 9 then Some T_KEY_COMPLETE_COMMAND else None)"

definition arrow_key :: "nat \<Rightarrow> key option" where
  "arrow_key n = (if n = 65 then Some T_KEY_UP else if n = 66 then Some T_KEY_DOWN
     else if n = 67 then Some T_KEY_RIGHT else if n = 68 then Some T_KEY_LEFT else None)"

partial_function (option) tsymbol :: "nat \<Rightarrow> byte list \<Rightarrow> vty \<Rightarrow> (char \<times> key \<times> byte list \<times> vty) option" where
  "tsymbol esc ins v = (case next_byte ins of (b, bs) \<Rightarrow>
     let n = unat b
     in if n = 255 then (case toptions False False bs v of None \<Rightarrow> None | Some (bs', v') \<Rightarrow> tsymbol esc bs' v')
        else if n = 27 then tsymbol 1 bs v
        else if n = 91 \<and> esc = 1 then tsymbol 2 bs v
        else if n = 10 then tsymbol esc bs v
        else if esc = 2 \<and> arrow_key n \<noteq> None then Some (NUL, the (arrow_key n), bs, v)
        else if control_key n \<noteq> None then Some (NUL, the (control_key n), bs, v)
        else if n = 63 then Some (NUL, T_KEY_GET_HELP, bs, twrite_char CHR ''?'' v)
        else Some (char_of_byte b, T_KEY_INSERT_CHAR, bs, v))"

text \<open>What a key does; \<open>None\<close>: the key ends the reading of the line.\<close>

definition key_edit :: "char \<Rightarrow> key \<Rightarrow> (vty \<Rightarrow> vty cres) option" where
  "key_edit c k = (case k of
      T_KEY_INSERT_CHAR \<Rightarrow> Some (\<lambda>v. if c \<noteq> NUL then vty_insert_char c v else Inr v)
    | T_KEY_BEGINNING_OF_LINE \<Rightarrow> Some (\<lambda>v. Inr (vty_move_beginning_of_line v))
    | T_KEY_END_OF_LINE \<Rightarrow> Some vty_move_end_of_line
    | T_KEY_LEFT \<Rightarrow> Some (\<lambda>v. Inr (vty_move_backward v))
    | T_KEY_BACKWARD_CHAR \<Rightarrow> Some (\<lambda>v. Inr (vty_move_backward v))
    | T_KEY_RIGHT \<Rightarrow> Some vty_move_forward
    | T_KEY_FORWARD_CHAR \<Rightarrow> Some vty_move_forward
    | T_KEY_DELETE_CHAR \<Rightarrow> Some vty_del_char
    | T_KEY_DELETE_BACKWARD_CHAR \<Rightarrow> Some vty_del_backward_char
    | T_KEY_CLEAR_LINE \<Rightarrow> Some vty_clear_input
    | T_KEY_CLEAR_LINE_FROM_BEGINNING \<Rightarrow> Some vty_clear_line_from_beg
    | T_KEY_KILL_WORD \<Rightarrow> Some Inr
    | _ \<Rightarrow> None)"

text \<open>The key that ended the line; the arrows count as the keys for the next and the previous command.\<close>

definition end_key :: "key \<Rightarrow> key" where
  "end_key k = (case k of T_KEY_DOWN \<Rightarrow> T_KEY_NEXT_COMMAND | T_KEY_UP \<Rightarrow> T_KEY_PREVIOUS_COMMAND | _ \<Rightarrow> k)"

partial_function (option) treadstr :: "byte list \<Rightarrow> vty \<Rightarrow> (key \<times> byte list \<times> vty) cres option" where
  "treadstr ins v = (case tsymbol 0 ins v of
      None \<Rightarrow> None
    | Some (c, k, bs, v1) \<Rightarrow>
        (case key_edit c k of
           None \<Rightarrow> Some (Inr (end_key k, bs, v1))
         | Some f \<Rightarrow> obind (Some (f v1)) (\<lambda>v2. treadstr bs v2)))"

partial_function (option) read_line :: "byte list \<Rightarrow> vty \<Rightarrow> (byte list \<times> vty) cres option" where
  "read_line ins v = obind (treadstr ins v) (\<lambda>(k, bs, v1).
     if k = T_KEY_EXECUTE_COMMAND then Some (Inr (bs, v1)) else read_line bs v1)"

definition readstr :: "byte list \<Rightarrow> vty \<Rightarrow> (byte list \<times> vty) cres option" where
  "readstr ins v = read_line ins (v \<lparr> vty_line := blank_line, vtylinepos := 0 \<rparr>)"

section \<open>Output page by page\<close>

text \<open>A line of at most \<open>w\<close> characters with its end; a text that stops in the middle of a line is read past its terminator.\<close>

fun page_chunk :: "nat \<Rightarrow> string \<Rightarrow> string \<times> string" where
  "page_chunk 0 s = ([], s)"
| "page_chunk (Suc w) [] = ([], [])"
| "page_chunk (Suc w) (c # s) =
     (if c = LF \<or> c = CHR 0x0D then ([], c # s) else case page_chunk w s of (t, r) \<Rightarrow> (c # t, r))"

definition page_line :: "nat \<Rightarrow> string \<Rightarrow> (string \<times> string) cres" where
  "page_line w s = (case page_chunk w s of (t, r) \<Rightarrow>
     if length t = w then Inr (t @ [LF], r) else case r of [] \<Rightarrow> Inl OutOfBounds | c # r' \<Rightarrow> Inr (t @ [c], r'))"

fun page_lines :: "nat \<Rightarrow> nat \<Rightarrow> string \<Rightarrow> vty \<Rightarrow> (string \<times> vty) cres" where
  "page_lines 0 w s v = Inr (s, v)"
| "page_lines (Suc n) w s v =
     (if s = [] then Inr (s, v)
      else cbind (page_line w s) (\<lambda>(t, r). cbind (twrite t v) (\<lambda>v'. page_lines n w r v')))"

partial_function (option) wait_key :: "char \<Rightarrow> key \<Rightarrow> byte list \<Rightarrow> vty \<Rightarrow> (char \<times> key \<times> byte list \<times> vty) option" where
  "wait_key c k ins v =
     (if c = CHR '' '' \<or> c = CHR ''q'' \<or> c = CHR 0x0D \<or> k = T_KEY_EXECUTE_COMMAND then Some (c, k, ins, v)
      else case tsymbol 0 ins v of None \<Rightarrow> None | Some (c', k', ins', v') \<Rightarrow> wait_key c' k' ins' v')"

definition wipe :: "nat \<Rightarrow> vty \<Rightarrow> vty cres" where
  "wipe w v = cbind (twrite (replicate w BS) v) (\<lambda>v1. cbind (twrite (replicate w CHR '' '') v1) (twrite (replicate w BS)))"

partial_function (option) pages :: "nat \<Rightarrow> int \<Rightarrow> int \<Rightarrow> string \<Rightarrow> byte list \<Rightarrow> vty \<Rightarrow> (byte list \<times> vty) cres option" where
  "pages w h n s ins v =
     (if s = [] then Some (Inr (ins, v))
      else obind (Some (page_lines (nat n) w s v)) (\<lambda>(r, v1).
        if r = [] then Some (Inr (ins, v1))
        else obind (Some (twrite ''--(press space for next page, enter for line, q to stop)--'' v1)) (\<lambda>v2.
          case wait_key CHR ''a'' T_KEY_INSERT_CHAR ins v2 of
            None \<Rightarrow> None
          | Some (c, k, ins', v3) \<Rightarrow> obind (Some (wipe w v3)) (\<lambda>v4.
              let n1 = (if k = T_KEY_EXECUTE_COMMAND then 1 else n); n2 = (if c = CHR '' '' then h - 1 else n1)
              in if c = CHR ''q'' then Some (Inr (ins', v4)) else pages w h n2 r ins' v4))))"

definition pager :: "string \<Rightarrow> int \<Rightarrow> byte list \<Rightarrow> vty \<Rightarrow> (byte list \<times> vty) cres option" where
  "pager s h ins v = (let h' = (if h = 0 then vty_height v else h) in pages (nat (vty_width v)) h' (h' - 1) s ins v)"

section \<open>Lines of a text\<close>

text \<open>Class \<^verbatim>\<open>VtyStream\<close>: the text that is left, and whether its end was met; \<open>None\<close> is the exception at the end.\<close>

record vty_stream =
  st_rest :: string
  st_eof :: bool

definition new_stream :: "string \<Rightarrow> vty_stream" where
  "new_stream s = \<lparr> st_rest = s, st_eof = False \<rparr>"

definition stream_line :: "vty_stream \<Rightarrow> (string \<times> vty_stream) option" where
  "stream_line st =
     (if st_eof st then None
      else let l = takeWhile (\<lambda>c. c \<noteq> LF) (st_rest st); r = drop (length l) (st_rest st)
           in Some (take 512 (c_str l), \<lparr> st_rest = tl r, st_eof = (r = []) \<rparr>))"

section \<open>Lemmas on the buffer\<close>

text \<open>The buffer holds the text \<open>l @ r\<close> with the cursor between the two, and zeroes behind it.\<close>

definition padded :: "string \<Rightarrow> string" where
  "padded s = s @ replicate (513 - length s) NUL"

definition line_ok :: "string \<Rightarrow> bool" where
  "line_ok s = (length s \<le> 512 \<and> NUL \<notin> set s \<and> LF \<notin> set s)"

definition vty_rep :: "string \<times> string \<Rightarrow> vty \<Rightarrow> bool" where
  "vty_rep a v = (vty_line v = padded (fst a @ snd a) \<and> line_ok (fst a @ snd a) \<and> vtylinepos v = int (length (fst a)))"

named_theorems line_simps \<open>buffers that hold a text\<close>

lemma c_str_pad: "NUL \<notin> set s \<Longrightarrow> c_str (s @ replicate k NUL) = s"
  by (auto simp: c_str_def takeWhile_append)

lemma cell_str_padded [line_simps]:
  assumes "line_ok s" "i \<le> length s"
  shows "cell_str (padded s) (int i) = Inr (drop i s)"
proof -
  have d: "drop i (padded s) = drop i s @ replicate (513 - length s) NUL" using assms by (simp add: padded_def)
  have "NUL \<notin> set (drop i s)" using assms by (auto simp: line_ok_def dest: in_set_dropD)
  then show ?thesis using assms d by (simp add: cell_str_def c_str_pad line_ok_def)
qed

lemma cell_str_padded0 [line_simps]: "line_ok s \<Longrightarrow> cell_str (padded s) 0 = Inr s"
  using cell_str_padded[of s 0] by simp

lemma tw_loop_plain: "LF \<notin> set s \<Longrightarrow> j + length s \<le> 599 \<Longrightarrow> tw_loop j s = s"
  by (induction j s rule: tw_loop.induct) auto

lemma twrite_plain [line_simps]:
  "line_ok s \<Longrightarrow> twrite s v = Inr (v \<lparr> tx := tx v @ s \<rparr>)"
  by (simp add: twrite_def line_ok_def tw_loop_plain nul_free_def)

lemma length_padded [simp]: "length s \<le> 513 \<Longrightarrow> length (padded s) = 513"
  by (simp add: padded_def)

lemma line_ok_drop: "line_ok s \<Longrightarrow> line_ok (drop i s)"
  by (auto simp: line_ok_def dest: in_set_dropD)

lemma vty_frame [simp]:
  "vty_line (changed v) = vty_line v" "vtylinepos (changed v) = vtylinepos v" "tx (changed v) = tx v"
  "local_echo (changed v) = local_echo v"
  "vty_line (backs n v) = vty_line v" "vtylinepos (backs n v) = vtylinepos v" "local_echo (backs n v) = local_echo v"
  "vty_line (twrite_char c v) = vty_line v" "vtylinepos (twrite_char c v) = vtylinepos v"
  "local_echo (twrite_char c v) = local_echo v"
  "vty_line (bell v) = vty_line v" "vtylinepos (bell v) = vtylinepos v" "local_echo (bell v) = local_echo v"
  by (simp_all add: changed_def backs_def twrite_char_def bell_def)

lemma pad_one: "n < 513 \<Longrightarrow> replicate (513 - n) x = x # replicate (512 - n) x"
proof -
  assume "n < 513"
  then have "513 - n = Suc (512 - n)" by simp
  then show ?thesis by simp
qed

lemma pad_two: "n < 512 \<Longrightarrow> replicate (513 - n) x = x # x # replicate (511 - n) x"
proof -
  assume "n < 512"
  then have "513 - n = Suc (Suc (511 - n))" by simp
  then show ?thesis by simp
qed

lemma put_end:
  assumes "length s < 512"
  shows "cbind (put (padded s) (int (length s)) c) (\<lambda>b. put b (int (length s) + 1) NUL) = Inr (padded (s @ [c]))"
proof -
  have r: "padded s = s @ NUL # NUL # replicate (511 - length s) NUL"
    using assms by (simp add: padded_def pad_two)
  have "padded (s @ [c]) = s @ c # NUL # replicate (511 - length s) NUL"
    using assms pad_one[of "Suc (length s)" NUL] by (simp add: padded_def)
  moreover have "nat (int (length s) + 1) = Suc (length s)" by simp
  ultimately show ?thesis using assms by (simp add: put_def r list_update_append nat_add_distrib)
qed

lemma memmove_open:
  assumes "length (l @ r) < 512" "r \<noteq> []"
  shows "cbind (memmove (padded (l @ r)) (int (length l) + 1) (int (length l)) (int (length r)))
      (\<lambda>b. put b (int (length l)) c) = Inr (padded (l @ c # r))"
proof -
  obtain x r' where r: "r = x # r'" using assms(2) by (cases r) auto
  have t: "take (Suc (length l)) (padded (l @ r)) = l @ [x]" using r by (simp add: padded_def)
  have m: "take (length r) (drop (length l) (padded (l @ r))) = r" by (simp add: padded_def)
  have d: "drop (Suc (length l + length r)) (padded (l @ r)) = replicate (512 - length (l @ r)) NUL"
    using assms(1) by (simp add: padded_def)
  have n: "nat (int (length l) + 1) = Suc (length l)" "nat (int (length l) + 1 + int (length r)) = Suc (length l + length r)" by simp_all
  have "memmove (padded (l @ r)) (int (length l) + 1) (int (length l)) (int (length r)) =
      Inr (l @ x # r @ replicate (512 - length (l @ r)) NUL)"
    using assms unfolding memmove_def n nat_int t m d by simp
  then show ?thesis using assms by (simp add: put_def list_update_append padded_def)
qed

lemma memmove_close:
  assumes "line_ok (l @ x # r)"
  shows "memmove (padded (l @ x # r)) (int (length l)) (int (length l) + 1) (int (length (x # r))) = Inr (padded (l @ r))"
proof -
  let ?b = "padded (l @ x # r)"
  have len: "length l + length r < 512" using assms by (simp add: line_ok_def)
  have r: "?b = l @ x # r @ NUL # replicate (511 - length (l @ r)) NUL"
    using len pad_one[of "Suc (length l + length r)" NUL] by (simp add: padded_def)
  have "take (Suc (length r)) (drop (Suc (length l)) ?b) = r @ [NUL]" unfolding r by simp
  moreover have "drop (length l + Suc (length r)) ?b = NUL # replicate (511 - length (l @ r)) NUL" unfolding r by simp
  moreover have "take (length l) ?b = l" unfolding r by simp
  moreover have "padded (l @ r) = l @ r @ NUL # NUL # replicate (511 - length (l @ r)) NUL"
    using len by (simp add: padded_def pad_two)
  moreover have "nat (int (length l) + 1) = Suc (length l)" "nat (int (length l) + int (length (x # r))) = length l + Suc (length r)"
    "nat (1 + int (length r)) = Suc (length r)"
    by simp_all
  moreover have "length ?b = 513" using len by simp
  ultimately show ?thesis using len by (simp add: memmove_def del: length_padded)
qed

section \<open>The keys on a text with a cursor\<close>

text \<open>The reference: what is before the cursor and what is behind it.\<close>

fun text_edit :: "char \<Rightarrow> key \<Rightarrow> string \<times> string \<Rightarrow> string \<times> string" where
  "text_edit c T_KEY_INSERT_CHAR (l, r) = (if c = NUL then (l, r) else (l @ [c], r))"
| "text_edit c T_KEY_BEGINNING_OF_LINE (l, r) = ([], l @ r)"
| "text_edit c T_KEY_END_OF_LINE (l, r) = (l @ r, [])"
| "text_edit c T_KEY_LEFT (l, r) = (if l = [] then (l, r) else (butlast l, last l # r))"
| "text_edit c T_KEY_BACKWARD_CHAR (l, r) = (if l = [] then (l, r) else (butlast l, last l # r))"
| "text_edit c T_KEY_RIGHT (l, r) = (case r of [] \<Rightarrow> (l @ '' '', []) | x # r' \<Rightarrow> (l @ [x], r'))"
| "text_edit c T_KEY_FORWARD_CHAR (l, r) = (case r of [] \<Rightarrow> (l @ '' '', []) | x # r' \<Rightarrow> (l @ [x], r'))"
| "text_edit c T_KEY_DELETE_CHAR (l, r) = (l, tl r)"
| "text_edit c T_KEY_DELETE_BACKWARD_CHAR (l, r) = (butlast l, r)"
| "text_edit c k (l, r) = (l, r)"

lemma repD: "vty_rep (l, r) v \<Longrightarrow> vty_line v = padded (l @ r) \<and> line_ok (l @ r) \<and> vtylinepos v = int (length l)"
  by (simp add: vty_rep_def)

lemma insert_rep:
  assumes "vty_rep (l, r) v" "length (l @ r) < 512" "c \<noteq> NUL" "c \<noteq> LF"
  shows "\<exists>v'. vty_insert_char c v = Inr v' \<and> vty_rep (l @ [c], r) v' \<and> local_echo v' = local_echo v"
proof -
  note a = repD[OF assms(1)]
  have k: "line_ok (l @ c # r)" using a assms(2-4) by (auto simp: line_ok_def)
  have dr: "line_ok r" using line_ok_drop[of "l @ r" "length l"] a by simp
  have lr: "drop (length l) (l @ r) = r" by simp
  show ?thesis
  proof (cases "r = []")
    case True
    from put_end[of l c] assms(2) True obtain b where
      "put (padded l) (int (length l)) c = Inr b" "put b (int (length l) + 1) NUL = Inr (padded (l @ [c]))" by auto
    with a True k show ?thesis
      by (simp add: vty_insert_char_def Let_def line_simps vty_rep_def)
  next
    case False
    from memmove_open[OF assms(2) False, of c] obtain b where
      "memmove (padded (l @ r)) (int (length l) + 1) (int (length l)) (int (length r)) = Inr b"
      "put b (int (length l)) c = Inr (padded (l @ c # r))" by auto
    with a False k dr assms(2) show ?thesis
      by (simp add: vty_insert_char_def Let_def line_simps vty_rep_def maxVtyInput_def)
  qed
qed

lemma close_gap_rep:
  assumes "vty_rep (l, x # r) v"
  shows "\<exists>v'. close_gap v = Inr v' \<and> vty_rep (l, r) v' \<and> local_echo v' = local_echo v"
proof -
  note a = repD[OF assms]
  have s: "cell_str (padded (l @ x # r)) (int (length l) + 1) = Inr r"
    using cell_str_padded[of "l @ x # r" "Suc (length l)"] a by (simp add: ac_simps)
  have k: "line_ok (l @ r)" "line_ok r" using a by (auto simp: line_ok_def)
  show ?thesis using a s k memmove_close[of l x r]
    by (simp add: close_gap_def Let_def line_simps vty_rep_def)
qed

lemma backward_rep:
  assumes "vty_rep (l, r) v"
  shows "vty_rep (text_edit c T_KEY_LEFT (l, r)) (vty_move_backward v)"
proof (cases l rule: rev_cases)
  case (snoc l' x)
  with assms show ?thesis by (simp add: vty_rep_def vty_move_backward_def)
qed (use assms in \<open>simp add: vty_rep_def vty_move_backward_def\<close>)

lemma home_rep: "vty_rep (l, r) v \<Longrightarrow> vty_rep ([], l @ r) (vty_move_beginning_of_line v)"
  by (simp add: vty_rep_def vty_move_beginning_of_line_def)

lemma end_rep: "vty_rep (l, r) v \<Longrightarrow> \<exists>v'. vty_move_end_of_line v = Inr v' \<and> vty_rep (l @ r, []) v'"
  by (cases r) (auto simp: vty_rep_def vty_move_end_of_line_def line_simps)

lemma forward_rep:
  assumes "vty_rep (l, r) v" "r = [] \<Longrightarrow> length l < 512"
  shows "\<exists>v'. vty_move_forward v = Inr v' \<and> vty_rep (text_edit c T_KEY_RIGHT (l, r)) v'"
proof (cases r)
  case Nil
  then have "length (l @ r) < 512" using assms(2) by simp
  from insert_rep[OF assms(1) this, of "CHR '' ''"] Nil assms show ?thesis
    by (auto simp: vty_move_forward_def vty_rep_def line_simps LF_def maxVtyInput_def)
next
  case (Cons x r')
  note a = repD[OF assms(1)]
  have "cell (padded (l @ x # r')) (int (length l)) = Inr x" using a Cons by (simp add: cell_def padded_def nth_append)
  with a Cons show ?thesis by (simp add: vty_move_forward_def line_simps vty_rep_def)
qed
text \<open>Every key but those that clear a line does to the buffer what the reference says, as long as the text fits.\<close>

definition clears :: "key \<Rightarrow> bool" where
  "clears k = (k = T_KEY_CLEAR_LINE \<or> k = T_KEY_CLEAR_LINE_FROM_BEGINNING)"

definition text_len :: "string \<times> string \<Rightarrow> nat" where
  "text_len a = length (fst a @ snd a)"

lemma text_len_edit: "text_len (text_edit c k a) \<le> Suc (text_len a)"
  by (cases "(c, k, a)" rule: text_edit.cases) (auto simp: text_len_def split: list.splits)

lemma key_rep:
  assumes "key_edit c k = Some f" "\<not> clears k" "vty_rep a v" "c \<noteq> LF" "text_len a < 512"
  shows "\<exists>v'. f v = Inr v' \<and> vty_rep (text_edit c k a) v'"
proof -
  obtain l r where a: "a = (l, r)" by (cases a)
  have len: "length (l @ r) < 512" using assms(5) a by (simp add: text_len_def)
  have fw: "\<exists>v'. vty_move_forward v = Inr v' \<and> vty_rep (text_edit c T_KEY_RIGHT (l, r)) v'"
    using forward_rep[of l r v c] assms(3) a len by simp
  have fb: "text_edit c T_KEY_FORWARD_CHAR (l, r) = text_edit c T_KEY_RIGHT (l, r)" by simp
  have bw: "vty_rep (text_edit c T_KEY_LEFT (l, r)) (vty_move_backward v)"
    using backward_rep assms(3) a by blast
  show ?thesis
  proof (cases k)
    case T_KEY_INSERT_CHAR
    with assms insert_rep[of l r v c] a len show ?thesis by (auto simp: key_edit_def)
  next
    case T_KEY_BEGINNING_OF_LINE
    with assms home_rep[of l r v] a show ?thesis by (auto simp: key_edit_def)
  next
    case T_KEY_END_OF_LINE
    with assms end_rep[of l r v] a show ?thesis by (auto simp: key_edit_def)
  next
    case T_KEY_DELETE_CHAR
    have v: "vty_rep (l, r) v" using assms(3) a by simp
    show ?thesis
    proof (cases r)
      case Nil
      with T_KEY_DELETE_CHAR assms(1) repD[OF v] a show ?thesis
        by (auto simp: key_edit_def vty_del_char_def line_simps vty_rep_def)
    next
      case (Cons x r')
      with close_gap_rep[of l x r' v] v T_KEY_DELETE_CHAR assms(1) repD[OF v] a show ?thesis
        by (auto simp: key_edit_def vty_del_char_def line_simps)
    qed
  next
    case T_KEY_DELETE_BACKWARD_CHAR
    have v: "vty_rep (l, r) v" using assms(3) a by simp
    show ?thesis
    proof (cases l rule: rev_cases)
      case Nil
      with T_KEY_DELETE_BACKWARD_CHAR assms(1) repD[OF v] a v show ?thesis
        by (auto simp: key_edit_def vty_del_backward_char_def vty_rep_def)
    next
      case (snoc l' x)
      with bw have "vty_rep (l', x # r) (vty_move_backward v)" by simp
      from close_gap_rep[OF this] snoc T_KEY_DELETE_BACKWARD_CHAR assms(1) repD[OF v] a show ?thesis
        by (auto simp: key_edit_def vty_del_backward_char_def)
    qed
  next
    case T_KEY_RIGHT
    with fw assms(1) a show ?thesis by (simp add: key_edit_def)
  next
    case T_KEY_FORWARD_CHAR
    with fw assms(1) a show ?thesis by (simp only: fb) (simp add: key_edit_def)
  qed (use assms bw a in \<open>auto simp: key_edit_def clears_def\<close>)
qed

section \<open>Reading a line\<close>

text \<open>The bytes that are one key each.\<close>

definition byte_key :: "byte \<Rightarrow> char \<times> key" where
  "byte_key b = (case control_key (unat b) of Some k \<Rightarrow> (NUL, k)
     | None \<Rightarrow> if unat b = 63 then (NUL, T_KEY_GET_HELP) else (char_of_byte b, T_KEY_INSERT_CHAR))"

definition edits :: "byte \<Rightarrow> bool" where
  "edits b = (unat b \<notin> {255, 27, 10, 13, 9, 14, 16, 63, 11, 21})"

definition text_key :: "byte \<Rightarrow> string \<times> string \<Rightarrow> string \<times> string" where
  "text_key b = (case byte_key b of (c, k) \<Rightarrow> text_edit c k)"

lemma tsymbol_byte:
  "unat b \<notin> {255, 27, 10, 63} \<Longrightarrow> tsymbol 0 (b # bs) v = Some (fst (byte_key b), snd (byte_key b), bs, v)"
  by (subst tsymbol.simps) (auto simp: next_byte_def byte_key_def Let_def split: option.splits)

lemma tsymbol_end: "tsymbol 0 [] v = Some (char_of_byte 0, T_KEY_INSERT_CHAR, [], v)"
  by (subst tsymbol.simps) (simp add: next_byte_def Let_def control_key_def)

lemma code_of_byte: "code (char_of_byte b) = unat b"
proof -
  have "unat b < 256" using unsigned_less[of b] by simp
  then show ?thesis by (simp add: char_of_byte_def)
qed

lemma edits_key:
  assumes "edits b"
  obtains f where "key_edit (fst (byte_key b)) (snd (byte_key b)) = Some f" "\<not> clears (snd (byte_key b))" "fst (byte_key b) \<noteq> LF"
proof -
  have "char_of_byte b \<noteq> LF" using assms code_of_byte[of b] by (auto simp: edits_def LF_def code_def)
  moreover have "NUL \<noteq> LF" by (simp add: LF_def)
  ultimately have "fst (byte_key b) \<noteq> LF" by (auto simp: byte_key_def split: option.splits)
  moreover have "\<not> clears (snd (byte_key b)) \<and> (\<exists>f. key_edit (fst (byte_key b)) (snd (byte_key b)) = Some f)"
    using assms by (auto simp: byte_key_def control_key_def edits_def clears_def key_edit_def)
  ultimately show ?thesis using that by blast
qed

lemma treadstr_step:
  assumes "edits b" "vty_rep a v" "text_len a < 512"
  shows "\<exists>v'. treadstr (b # bs) v = treadstr bs v' \<and> vty_rep (text_key b a) v'"
proof -
  obtain f where f: "key_edit (fst (byte_key b)) (snd (byte_key b)) = Some f" "\<not> clears (snd (byte_key b))" "fst (byte_key b) \<noteq> LF"
    using assms(1) by (rule edits_key)
  from key_rep[OF f(1,2) assms(2) f(3) assms(3)] obtain v' where
    v': "f v = Inr v'" "vty_rep (text_edit (fst (byte_key b)) (snd (byte_key b)) a) v'" by blast
  have "unat b \<notin> {255, 27, 10, 63}" using assms(1) by (auto simp: edits_def)
  with f(1) v' show ?thesis
    by (subst treadstr.simps) (auto simp: tsymbol_byte text_key_def split: prod.splits)
qed

lemma treadstr_keys:
  assumes "list_all edits ks" "vty_rep a v" "text_len a + length ks \<le> 512"
  shows "\<exists>v'. treadstr (ks @ bs) v = treadstr bs v' \<and> vty_rep (fold text_key ks a) v'"
  using assms
proof (induction ks arbitrary: a v)
  case (Cons b ks)
  then obtain v1 where v1: "treadstr (b # ks @ bs) v = treadstr (ks @ bs) v1" "vty_rep (text_key b a) v1"
    using treadstr_step[of b a v "ks @ bs"] by auto
  have "text_len (text_key b a) \<le> Suc (text_len a)" using text_len_edit by (auto simp: text_key_def split: prod.splits)
  with Cons.IH[OF _ v1(2)] Cons.prems v1(1) show ?case by simp
qed auto

lemma empty_rep: "vty_rep ([], []) (v \<lparr> vty_line := blank_line, vtylinepos := 0 \<rparr>)"
  by (simp add: vty_rep_def blank_line_def padded_def line_ok_def)

lemma treadstr_cr: "treadstr (13 # bs) v = Some (Inr (T_KEY_EXECUTE_COMMAND, bs, v))"
  by (subst treadstr.simps) (simp add: tsymbol_byte byte_key_def control_key_def key_edit_def end_key_def)

lemma rep_line: "vty_rep a v \<Longrightarrow> vty_get_line v = Inr (fst a @ snd a)"
  by (simp add: vty_rep_def vty_get_line_def cell_str_padded0)

lemma treadstr_end: "treadstr [] v = None"
proof -
  have "treadstr ins v = Some y \<Longrightarrow> ins = [] \<longrightarrow> False" for ins v y
  proof (erule treadstr.raw_induct[where P = "\<lambda>ins v y. ins = [] \<longrightarrow> False", rotated], goal_cases)
    case (1 rec ins v y)
    show ?case
    proof
      assume "ins = []"
      with 1 show False by (auto simp: tsymbol_end key_edit_def char_of_byte_NUL)
    qed
  qed
  then show ?thesis by (cases "treadstr [] v") auto
qed

text \<open>A text whose last line is short and not ended is read past its end; with a width of zero no page ever ends.\<close>

lemma page_chunk_plain: "LF \<notin> set s \<Longrightarrow> CHR 0x0D \<notin> set s \<Longrightarrow> length s \<le> w \<Longrightarrow> page_chunk w s = (s, [])"
  by (induction w s rule: page_chunk.induct) auto

lemma pager_unended:
  "s \<noteq> [] \<Longrightarrow> LF \<notin> set s \<Longrightarrow> CHR 0x0D \<notin> set s \<Longrightarrow> length s < w \<Longrightarrow> page_lines (Suc n) w s v = Inl OutOfBounds"
  by (simp add: page_line_def page_chunk_plain)

lemma page_width_zero: "s \<noteq> [] \<Longrightarrow> page_line 0 s = Inr ([LF], s)"
  by (simp add: page_line_def)

section \<open>Where the editor leaves the buffer\<close>

lemma readstr_keys:
  assumes "list_all edits ks" "length ks \<le> 512"
  shows "\<exists>v'. readstr (ks @ bs) v = read_line bs v' \<and> treadstr (ks @ bs) (v \<lparr> vty_line := blank_line, vtylinepos := 0 \<rparr>) = treadstr bs v' \<and>
    vty_rep (fold text_key ks ([], [])) v'"
proof -
  from treadstr_keys[OF assms(1) empty_rep, of bs v] assms(2) obtain v' where
    "treadstr (ks @ bs) (v \<lparr> vty_line := blank_line, vtylinepos := 0 \<rparr>) = treadstr bs v'"
    "vty_rep (fold text_key ks ([], [])) v'" by (auto simp: text_len_def)
  then show ?thesis by (intro exI[of _ v']) (simp add: readstr_def read_line.simps)
qed

text \<open>A key that faults ends the reading.\<close>

lemma treadstr_fault:
  "unat b \<notin> {255, 27, 10, 63} \<Longrightarrow> key_edit (fst (byte_key b)) (snd (byte_key b)) = Some f \<Longrightarrow> f v = Inl e \<Longrightarrow>
   treadstr (b # bs) v = Some (Inl e)"
  by (subst treadstr.simps) (simp add: tsymbol_byte)

definition types :: "byte \<Rightarrow> bool" where
  "types b = (snd (byte_key b) = T_KEY_INSERT_CHAR \<and> edits b \<and> b \<noteq> 0)"

lemma types_key: "types b \<Longrightarrow> byte_key b = (char_of_byte b, T_KEY_INSERT_CHAR)"
  by (auto simp: types_def byte_key_def control_key_def edits_def split: if_splits)

lemma fold_types: "list_all types ks \<Longrightarrow> fold text_key ks (l, []) = (l @ map char_of_byte ks, [])"
  by (induction ks arbitrary: l) (auto simp: types_key text_key_def char_of_byte_NUL types_def)

lemma insert_full:
  assumes "vty_rep (l, []) v" "length l = 512"
  shows "vty_insert_char c v = Inl OutOfBounds"
proof -
  note a = repD[OF assms(1)]
  obtain b where b: "put (padded l) 512 c = Inr b" "length b = 513"
    using assms(2) by (auto simp: put_def padded_def)
  then have "put b 513 NUL = Inl OutOfBounds" by (simp add: put_def)
  with a assms(2) b show ?thesis by (simp add: vty_insert_char_def Let_def line_simps)
qed

text \<open>After the key that clears the line the cursor is before the buffer.\<close>

lemma clear_then_type:
  assumes "vty_rep a v"
  shows "\<exists>v1. vty_clear_input v = Inr v1 \<and> vty_insert_char c v1 = Inl OutOfBounds"
proof -
  obtain l r where a: "a = (l, r)" by (cases a)
  with assms have v: "vty_rep (l, r) v" by simp
  obtain v' where v': "vty_move_end_of_line v = Inr v'" "vty_rep (l @ r, []) v'" using end_rep[OF v] by blast
  note d = repD[OF v'(2)]
  then have len: "length (l @ r) \<le> 512" by (simp add: line_ok_def)
  have p: "put (padded (l @ r)) 0 NUL = Inr (NUL # tl (padded (l @ r)))"
    using len by (cases "padded (l @ r)") (auto simp: put_def padded_def)
  have s: "cell_str (NUL # t) 0 = Inr []" "cell_str (NUL # t) (- 1) = Inl OutOfBounds" for t
    by (simp_all add: cell_str_def c_str_def)
  have m: "memmove (NUL # t) 0 (- 1) 1 = Inl OutOfBounds" for t by (simp add: memmove_def)
  show ?thesis using v'(1) d p by (auto simp: vty_clear_input_def vty_insert_char_def Let_def s m maxVtyInput_def)
qed

section \<open>Properties\<close>

text \<open>C15: a line is what the keys make of a text with a cursor: after at most 512 keys (typing, moving, deleting; not the keys
that clear a line) the carriage return gives that text; and when the connection ends instead the reading never returns.\<close>

theorem line_edited:
  assumes "list_all edits ks" "length ks \<le> 512"
  shows "(\<exists>v'. readstr (ks @ 13 # bs) v = Some (Inr (bs, v')) \<and>
      vty_get_line v' = Inr (case fold text_key ks ([], []) of (l, r) \<Rightarrow> l @ r)) \<and>
    readstr ks v = None"
proof -
  from readstr_keys[OF assms, of "13 # bs" v] obtain v' where
    v': "readstr (ks @ 13 # bs) v = read_line (13 # bs) v'" "vty_rep (fold text_key ks ([], [])) v'" by blast
  from readstr_keys[OF assms, of "[]" v] obtain v2 where v2: "readstr ks v = read_line [] v2" by auto
  have "read_line (13 # bs) v' = Some (Inr (bs, v'))" by (subst read_line.simps) (simp add: treadstr_cr)
  moreover have "read_line [] v2 = None" by (subst read_line.simps) (simp add: treadstr_end)
  ultimately show ?thesis using v' v2 rep_line[OF v'(2)] by (auto split: prod.splits)
qed

definition a_vty :: vty where
  "a_vty = \<lparr> vty_line = blank_line, vtylinepos = 0, isChanged = True, local_echo = True, vty_height = 24, vty_width = 80, tx = [] \<rparr>"

lemma line_edited_witness:
  "(\<exists>v'. readstr ([97, 98, 2, 99] @ [13, 7]) a_vty = Some (Inr ([7], v')) \<and> vty_get_line v' = Inr ''acb'') \<and>
   readstr [97, 98, 2, 99] a_vty = None"
proof -
  have k: "byte_key 97 = (CHR ''a'', T_KEY_INSERT_CHAR)" "byte_key 98 = (CHR ''b'', T_KEY_INSERT_CHAR)"
    "byte_key 99 = (CHR ''c'', T_KEY_INSERT_CHAR)" "byte_key 2 = (NUL, T_KEY_BACKWARD_CHAR)"
    using char_of_byte_of_char[of "CHR ''a''"] char_of_byte_of_char[of "CHR ''b''"] char_of_byte_of_char[of "CHR ''c''"]
    by (simp_all add: byte_key_def control_key_def byte_of_char_def code_def)
  show ?thesis using line_edited[of "[97, 98, 2, 99]" "[7]" a_vty]
    by (simp add: edits_def text_key_def k)
qed

text \<open>C39: the buffer is written past its end by the 513th character typed on a line, and before its beginning by the first
character typed after the line was cleared: both while the name of the user is read, before the password.\<close>

theorem line_overrun:
  assumes "list_all types ks" "list_all edits es" "types b"
  shows "(512 < length ks \<longrightarrow> readstr (ks @ bs) v = Some (Inl OutOfBounds)) \<and>
    (length es \<le> 512 \<longrightarrow> readstr (es @ 11 # b # bs) v = Some (Inl OutOfBounds))"
proof (intro conjI impI)
  assume len: "512 < length ks"
  let ?k = "take 512 ks"
  obtain x rest where x: "drop 512 ks = x # rest" using len by (cases "drop 512 ks") auto
  have ks: "ks @ bs = ?k @ x # rest @ bs" using x by (metis append_Cons append_assoc append_take_drop_id)
  have ty: "list_all types ?k" using assms(1) by (auto simp: list_all_iff dest: in_set_takeD)
  then have ed: "list_all edits ?k" by (auto simp: list_all_iff types_def)
  have "x \<in> set ks" using x by (metis in_set_dropD list.set_intros(1))
  then have tx: "types x" using assms(1) by (simp add: list_all_iff)
  from readstr_keys[OF ed, of "x # rest @ bs" v] len obtain v' where v': "readstr (ks @ bs) v = read_line (x # rest @ bs) v'"
    "vty_rep (map char_of_byte ?k, []) v'" using fold_types[OF ty, of "[]"] ks by auto
  have nz: "char_of_byte x \<noteq> NUL" using tx by (simp add: types_def char_of_byte_NUL)
  have "treadstr (x # rest @ bs) v' = Some (Inl OutOfBounds)"
    by (rule treadstr_fault[where f = "\<lambda>v. if char_of_byte x \<noteq> NUL then vty_insert_char (char_of_byte x) v else Inr v"])
      (use tx types_key[OF tx] nz insert_full[OF v'(2)] len in \<open>auto simp: types_def edits_def key_edit_def\<close>)
  then show "readstr (ks @ bs) v = Some (Inl OutOfBounds)" using v'(1) by (simp add: read_line.simps)
next
  assume "length es \<le> 512"
  from readstr_keys[OF assms(2) this, of "11 # b # bs" v] obtain v' where
    v': "readstr (es @ 11 # b # bs) v = read_line (11 # b # bs) v'" "vty_rep (fold text_key es ([], [])) v'" by blast
  from clear_then_type[OF v'(2), of "char_of_byte b"] obtain v1 where
    v1: "vty_clear_input v' = Inr v1" "vty_insert_char (char_of_byte b) v1 = Inl OutOfBounds" by blast
  have nz: "char_of_byte b \<noteq> NUL" using assms(3) by (simp add: types_def char_of_byte_NUL)
  have "treadstr (11 # b # bs) v' = treadstr (b # bs) v1"
    by (subst treadstr.simps) (simp add: tsymbol_byte byte_key_def control_key_def key_edit_def v1)
  moreover have "treadstr (b # bs) v1 = Some (Inl OutOfBounds)"
    by (rule treadstr_fault[where f = "\<lambda>v. if char_of_byte b \<noteq> NUL then vty_insert_char (char_of_byte b) v else Inr v"])
      (use assms(3) types_key[OF assms(3)] nz v1 in \<open>auto simp: types_def edits_def key_edit_def\<close>)
  ultimately show "readstr (es @ 11 # b # bs) v = Some (Inl OutOfBounds)" using v'(1) by (simp add: read_line.simps)
qed

lemma line_overrun_witness:
  "readstr (replicate 600 97 @ [13]) a_vty = Some (Inl OutOfBounds) \<and> readstr ([97, 98] @ 11 # 97 # [13]) a_vty = Some (Inl OutOfBounds)"
proof -
  have k: "types 97" "edits 97" "edits 98" by (simp_all add: types_def edits_def byte_key_def control_key_def)
  then have "list_all types (replicate 600 97)" "list_all edits [97, 98]" by (simp_all add: list_all_iff)
  from line_overrun[OF this k(1), of "[13]" a_vty] show ?thesis by simp
qed

end
