(* ===== verification/Command.thy ===== *)
theory Command
  imports Vty CmdParam
begin

text \<open>
  Command lines (\<^verbatim>\<open>src/Command.cc\<close>): a line is split into words, the words are compared with the masks of a
  command, the values with their descriptions, and the command is run. Configuration files and remote commands go through the nodes
  that read lines without a terminal; the call stack of these nodes is a list of frames here, one for each node that
  was entered. What a command does is a parameter, \<open>fac\<close>.
\<close>

section \<open>Words of a line\<close>

text \<open>A word is its place and length. Quotes start a word that ends at the same quote; a backslash and the character
behind it stay in the word; a comment ends the line.\<close>

definition set_len :: "nat \<Rightarrow> (nat \<times> nat) list \<Rightarrow> (nat \<times> nat) list" where
  "set_len e ps = (if ps = [] then [] else butlast ps @ [(fst (last ps), e - fst (last ps))])"

fun split_loop :: "nat \<Rightarrow> bool \<Rightarrow> char \<Rightarrow> (nat \<times> nat) list \<Rightarrow> string \<Rightarrow> (nat \<times> nat) list \<times> nat option" where
  "split_loop p inw d ps [] = (if inw then set_len p ps else ps, None)"
| "split_loop p inw d ps (c # s) =
     (if c = CHR 0x5C then
        (let ps' = (if inw then ps else ps @ [(p, 0)])
         in case s of [] \<Rightarrow> split_loop (p + 1) True d ps' [] | x # s' \<Rightarrow> split_loop (p + 2) True d ps' s')
      else if \<not> inw \<and> (c = CHR ''!'' \<or> c = CHR ''#'' \<or> c = CHR '';'') then (ps, Some p)
      else if c = d then
        (if inw then split_loop (p + 1) False CHR '' '' (set_len p ps) s else split_loop (p + 1) False d ps s)
      else if c = CHR 0x27 \<or> c = CHR 0x22 \<or> c = CHR '' '' then
        (if inw then split_loop (p + 1) True d ps s else split_loop (p + 1) True c (ps @ [(p + 1, 0)]) s)
      else if inw then split_loop (p + 1) True d ps s
      else split_loop (p + 1) True d (ps @ [(p, 0)]) s)"

text \<open>Lines are cut at 298 characters.\<close>

definition the_line :: "string \<Rightarrow> string" where
  "the_line l = snprintf_s 299 l"

definition split_line :: "string \<Rightarrow> (nat \<times> nat) list" where
  "split_line l = fst (split_loop 0 False CHR '' '' [] (the_line l))"

text \<open>
  The word at or before the cursor: whether the cursor is in it, and its number. For a word at the start of the line the
  byte before the line is read, \<open>b4\<close>.
\<close>

fun under_cursor :: "char \<Rightarrow> string \<Rightarrow> nat \<Rightarrow> int \<Rightarrow> (nat \<times> nat) list \<Rightarrow> bool \<times> nat" where
  "under_cursor b4 l i p [] = (False, i)"
| "under_cursor b4 l i p ((st, n) # ps) =
     (let before = (if st = 0 then b4 else l ! (st - 1))
      in if int st \<le> p \<and> p \<le> int (st + n) then (True, i)
         else if 0 < st \<and> (before = CHR 0x27 \<or> before = CHR 0x22) \<and> int st - 1 = p then (True, i)
         else if st + n + 1 < length l \<and> (l ! (st + n + 1) = CHR 0x27 \<or> before = CHR 0x22) \<and> int (st + n + 1) = p then (True, i)
         else if p < int st then (False, if i \<noteq> 0 then i - 1 else 0)
         else under_cursor b4 l (i + 1) p ps)"

section \<open>One command\<close>

datatype cmd_status = CMD_UNKNOWN | CMD_PARAM_ERROR | CMD_PARAM_COUNT_ERROR

text \<open>A parsed line: nothing to do, an error with its place, or the values.\<close>

datatype parsed = NoWords | Wrong cmd_status nat | Params "string list"

definition word_at :: "string \<Rightarrow> nat \<times> nat \<Rightarrow> string" where
  "word_at l w = take (snd w) (drop (fst w) l)"

definition is_value :: "string \<Rightarrow> bool" where
  "is_value m = (m \<noteq> [] \<and> hd m = CHR ''{'')"

fun parse_words :: "string \<Rightarrow> bool \<Rightarrow> (nat \<times> nat) list \<Rightarrow> string list \<Rightarrow> parsed" where
  "parse_words l first (w # ws) (m # ms) =
     (if \<not> is_value m \<and> \<not> matchNstrict (drop (fst w) l) m
      then Wrong (if first then CMD_UNKNOWN else CMD_PARAM_ERROR) (fst w)
      else case parse_words l False ws ms of
             Params vs \<Rightarrow> Params (if is_value m then word_at l w # vs else vs)
           | r \<Rightarrow> r)"
| "parse_words l first [] [] = Params []"
| "parse_words l first (w # ws) [] = Wrong CMD_PARAM_COUNT_ERROR (fst w + snd w)"
| "parse_words l first [] (m # ms) = Wrong CMD_PARAM_COUNT_ERROR 0"

text \<open>With too few words the error is placed behind the last one.\<close>

definition parseCommand :: "string list \<Rightarrow> string \<Rightarrow> parsed" where
  "parseCommand ms line =
     (let l = the_line line; ws = split_line line
      in if ws = [] then NoWords
         else case parse_words l True ws ms of
                Wrong CMD_PARAM_COUNT_ERROR n \<Rightarrow>
                  Wrong CMD_PARAM_COUNT_ERROR (if length ws < length ms then fst (last ws) + snd (last ws) else n)
              | r \<Rightarrow> r)"

text \<open>The values against their descriptions: the place of the first that is wrong.\<close>

fun check_values :: "string \<Rightarrow> (nat \<times> nat) list \<Rightarrow> string list \<Rightarrow> string list \<Rightarrow> nat option cres" where
  "check_values aft (w # ws) (m # ms) vs =
     (if \<not> is_value m then check_values aft ws ms vs
      else case vs of
             [] \<Rightarrow> Inr None
           | v # vs' \<Rightarrow> cbind (isCorrespondW aft m (c_str v)) (\<lambda>ok.
               if ok then check_values aft ws ms vs' else Inr (Some (fst w + snd w))))"
| "check_values aft ws ms vs = Inr None"

datatype 'g attempt = Executed "string list" 'g | NoAction | Exit 'g | Failed cmd_status nat

type_synonym 'g facility = "string list \<Rightarrow> string \<Rightarrow> string list \<Rightarrow> string list \<Rightarrow> 'g \<Rightarrow> (bool \<times> 'g) cres option"

text \<open>\<open>up\<close> are the values of the node the command belongs to.\<close>

definition cmd_makeAction :: "string \<Rightarrow> 'g facility \<Rightarrow> string list \<Rightarrow> string \<Rightarrow> string list \<Rightarrow> string \<Rightarrow> 'g \<Rightarrow>
    'g attempt cres option" where
  "cmd_makeAction aft fac ms cid up line g = (case parseCommand ms line of
      NoWords \<Rightarrow> Some (Inr NoAction)
    | Wrong st n \<Rightarrow> Some (Inr (Failed st n))
    | Params vs \<Rightarrow> obind (Some (check_values aft (split_line line) ms vs)) (\<lambda>bad. case bad of
          Some n \<Rightarrow> Some (Inr (Failed CMD_PARAM_ERROR n))
        | None \<Rightarrow> obind (fac ms cid vs up g) (\<lambda>(ex, g'). Some (Inr (if ex then Exit g' else Executed vs g')))))"

section \<open>Nodes\<close>

datatype cmd = Cmd "string list" string | Node "string list" string "cmd list"

text \<open>The first command of a node is the one that leaves it.\<close>

definition commandnode :: "string list \<Rightarrow> string \<Rightarrow> string list \<Rightarrow> string \<Rightarrow> cmd list \<Rightarrow> cmd" where
  "commandnode ms cid ems ecid cs = Node ms cid (Cmd ems ecid # cs)"

fun cmd_words :: "cmd \<Rightarrow> string list" where
  "cmd_words (Cmd ms cid) = ms"
| "cmd_words (Node ms cid cs) = ms"

fun cmd_id :: "cmd \<Rightarrow> string" where
  "cmd_id (Cmd ms cid) = cid"
| "cmd_id (Node ms cid cs) = cid"

record frame =
  fr_children :: "cmd list"
  fr_params :: "string list"

text \<open>A line is offered to the commands of a node in their order. \<open>errs\<close>: the errors so far.\<close>

datatype 'g offered = Taken 'g | Entered frame 'g | Left 'g | Refused "(cmd_status \<times> nat) list"

fun offer :: "string \<Rightarrow> 'g facility \<Rightarrow> string list \<Rightarrow> string \<Rightarrow> cmd list \<Rightarrow> (cmd_status \<times> nat) list \<Rightarrow> 'g \<Rightarrow> 'g offered cres option" where
  "offer aft fac up line [] errs g = Some (Inr (Refused errs))"
| "offer aft fac up line (c # cs) errs g =
     obind (cmd_makeAction aft fac (cmd_words c) (cmd_id c) up line g) (\<lambda>r. case r of
        Failed st n \<Rightarrow> offer aft fac up line cs (errs @ [(st, n)]) g
      | Exit g' \<Rightarrow> Some (Inr (Left g'))
      | Executed vs g' \<Rightarrow> Some (Inr (case c of Cmd _ _ \<Rightarrow> Taken g' | Node _ _ cs' \<Rightarrow> Entered \<lparr> fr_children = cs', fr_params = vs \<rparr> g'))
      | NoAction \<Rightarrow> Some (Inr (case c of Cmd _ _ \<Rightarrow> Taken g | Node _ _ cs' \<Rightarrow> Entered \<lparr> fr_children = cs', fr_params = [] \<rparr> g)))"

text \<open>The first of the errors furthest to the right.\<close>

definition max_err :: "(cmd_status \<times> nat) list \<Rightarrow> (cmd_status \<times> nat) cres" where
  "max_err es = (case es of [] \<Rightarrow> Inl OutOfBounds
     | e # es' \<Rightarrow> Inr (foldl (\<lambda>m x. if snd m < snd x then x else m) e es'))"

definition err_text :: "cmd_status \<times> nat \<Rightarrow> string \<Rightarrow> string" where
  "err_text e line =
     (let pos = snprintf_s 9 (dec_nat (snd e))
      in (case fst e of
            CMD_UNKNOWN \<Rightarrow> ''% Command at row '' @ pos @ '' is unknown:''
          | CMD_PARAM_ERROR \<Rightarrow> LF # ''% Command parametr at row '' @ pos @ '' is unknown or incorrect:''
          | CMD_PARAM_COUNT_ERROR \<Rightarrow> LF # ''% Parameter count error at row '' @ pos @ '' is unknown:'')
         @ ''cmd was<'' @ line @ ''>'')"

text \<open>How the reading of lines ends: the outermost node was left (or its text ended), or an exception.\<close>

datatype 'g ended = Finished 'g | CmdErr 'g "(cmd_status \<times> nat \<times> string) option"

fun ni_run :: "string \<Rightarrow> 'g facility \<Rightarrow> frame list \<Rightarrow> string list \<Rightarrow> 'g \<Rightarrow> 'g ended cres option" where
  "ni_run aft fac [] ls g = Some (Inr (Finished g))"
| "ni_run aft fac [fr] [] g = Some (Inr (Finished g))"
| "ni_run aft fac (fr # fr' # frs) [] g = Some (Inr (CmdErr g None))"
| "ni_run aft fac (fr # frs) (line # ls) g =
     obind (offer aft fac (fr_params fr) line (fr_children fr) [] g) (\<lambda>r. case r of
        Taken g' \<Rightarrow> ni_run aft fac (fr # frs) ls g'
      | Entered new g' \<Rightarrow> ni_run aft fac (new # fr # frs) ls g'
      | Left g' \<Rightarrow> ni_run aft fac frs ls g'
      | Refused es \<Rightarrow> obind (Some (max_err es)) (\<lambda>e. Some (Inr (CmdErr g (Some (fst e, snd e, err_text e line))))))"

text \<open>The lines of a text as the stream gives them: one more empty line after a final line feed.\<close>

fun lines_of :: "nat \<Rightarrow> vty_stream \<Rightarrow> string list" where
  "lines_of 0 st = []"
| "lines_of (Suc n) st = (case stream_line st of None \<Rightarrow> [] | Some (l, st') \<Rightarrow> l # lines_of n st')"

definition text_lines :: "string \<Rightarrow> string list" where
  "text_lines s = lines_of (length s + 1) (new_stream s)"

text \<open>\<^verbatim>\<open>Terminal::process\<close> of a text: the outermost node is entered with an empty line.\<close>

definition run_text :: "string \<Rightarrow> 'g facility \<Rightarrow> cmd \<Rightarrow> string \<Rightarrow> 'g \<Rightarrow> 'g ended cres option" where
  "run_text aft fac root s g = (case root of
      Cmd _ _ \<Rightarrow> Some (Inr (Finished g))
    | Node _ _ cs \<Rightarrow> ni_run aft fac [\<lparr> fr_children = cs, fr_params = [] \<rparr>] (text_lines s) g)"


section \<open>Words come back\<close>

text \<open>A word as it is typed: as it is, or between apostrophes.\<close>

datatype token = Plain string | Quoted string

fun token_text :: "token \<Rightarrow> string" where
  "token_text (Plain w) = w"
| "token_text (Quoted w) = CHR 0x27 # w @ [CHR 0x27]"

fun token_word :: "token \<Rightarrow> string" where
  "token_word (Plain w) = w"
| "token_word (Quoted w) = w"

fun token_ok :: "token \<Rightarrow> bool" where
  "token_ok (Plain w) = (w \<noteq> [] \<and> list_all (\<lambda>c. c \<noteq> NUL \<and> c \<noteq> CHR '' '' \<and> c \<noteq> CHR 0x5C) w \<and>
     hd w \<notin> {CHR ''!'', CHR ''#'', CHR '';'', CHR 0x27, CHR 0x22})"
| "token_ok (Quoted w) = list_all (\<lambda>c. c \<noteq> NUL \<and> c \<noteq> CHR 0x27 \<and> c \<noteq> CHR 0x5C) w"

fun words_text :: "token list \<Rightarrow> string" where
  "words_text [] = []"
| "words_text [t] = token_text t"
| "words_text (t # ts) = token_text t @ CHR '' '' # words_text ts"

fun token_start :: "token \<Rightarrow> nat" where
  "token_start (Plain w) = 0"
| "token_start (Quoted w) = 1"

fun spans :: "nat \<Rightarrow> token list \<Rightarrow> (nat \<times> nat) list" where
  "spans p [] = []"
| "spans p (t # ts) = (p + token_start t, length (token_word t)) # spans (p + length (token_text t) + 1) ts"

lemma set_len_snoc [simp]: "set_len e (ps @ [(p, n)]) = ps @ [(p, e - p)]"
  by (simp add: set_len_def)

lemma split_in_plain:
  "list_all (\<lambda>c. c \<noteq> NUL \<and> c \<noteq> CHR '' '' \<and> c \<noteq> CHR 0x5C) w \<Longrightarrow>
   split_loop p True CHR '' '' ps (w @ s) = split_loop (p + length w) True CHR '' '' ps s"
  by (induction w arbitrary: p) auto

lemma split_in_quoted:
  "list_all (\<lambda>c. c \<noteq> NUL \<and> c \<noteq> CHR 0x27 \<and> c \<noteq> CHR 0x5C) w \<Longrightarrow>
   split_loop p True CHR 0x27 ps (w @ s) = split_loop (p + length w) True CHR 0x27 ps s"
  by (induction w arbitrary: p) auto

lemma split_token:
  assumes "token_ok t"
  shows "split_loop p False CHR '' '' ps (token_text t) = (ps @ [(p + token_start t, length (token_word t))], None)"
    and "split_loop p False CHR '' '' ps (token_text t @ CHR '' '' # s) =
      split_loop (p + length (token_text t) + 1) False CHR '' '' (ps @ [(p + token_start t, length (token_word t))]) s"
proof -
  have "split_loop p False CHR '' '' ps (token_text t) = (ps @ [(p + token_start t, length (token_word t))], None) \<and>
    split_loop p False CHR '' '' ps (token_text t @ CHR '' '' # s) =
      split_loop (p + length (token_text t) + 1) False CHR '' '' (ps @ [(p + token_start t, length (token_word t))]) s"
  proof (cases t)
    case (Plain w)
    then obtain c w' where w: "w = c # w'" using assms by (cases w) auto
    have "split_loop p False CHR '' '' ps (w @ r) = split_loop (p + length w) True CHR '' '' (ps @ [(p, 0)]) r" for r
      using assms w Plain split_in_plain[of w' "p + 1" "ps @ [(p, 0)]" r] by simp
    from this[of "[]"] this[of "CHR '' '' # s"] show ?thesis using Plain by simp
  next
    case (Quoted w)
    have "split_loop p False CHR '' '' ps (token_text t @ r) = split_loop (p + length w + 1) True CHR 0x27 (ps @ [(p + 1, 0)]) (CHR 0x27 # r)" for r
      using assms Quoted split_in_quoted[of w "p + 1" "ps @ [(p + 1, 0)]" "CHR 0x27 # r"] by simp
    from this[of "[]"] this[of "CHR '' '' # s"] show ?thesis using Quoted by simp
  qed
  then show "split_loop p False CHR '' '' ps (token_text t) = (ps @ [(p + token_start t, length (token_word t))], None)"
    "split_loop p False CHR '' '' ps (token_text t @ CHR '' '' # s) =
      split_loop (p + length (token_text t) + 1) False CHR '' '' (ps @ [(p + token_start t, length (token_word t))]) s" by simp_all
qed

lemma split_spans:
  "list_all token_ok ts \<Longrightarrow> split_loop p False CHR '' '' ps (words_text ts) = (ps @ spans p ts, None)"
  by (induction ts arbitrary: p ps rule: words_text.induct) (simp_all add: split_token)

lemma split_blanks:
  "split_loop p False CHR '' '' ps (replicate k CHR '' '' @ s) = split_loop (p + k) False CHR '' '' ps s"
  by (induction k arbitrary: p) auto

lemma word_at_spans: "map (word_at (pre @ words_text ts)) (spans (length pre) ts) = map token_word ts"
proof (induction ts arbitrary: pre rule: words_text.induct)
  case (2 t)
  show ?case by (cases t) (simp_all add: word_at_def)
next
  case (3 t u ts)
  have "word_at (pre @ words_text (t # u # ts)) (length pre + token_start t, length (token_word t)) = token_word t"
    by (cases t) (simp_all add: word_at_def)
  then show ?case using "3.IH"[of "pre @ token_text t @ CHR '' '' # []"] by simp
qed simp

lemma token_text_nul: "token_ok t \<Longrightarrow> NUL \<notin> set (token_text t)"
  by (cases t) (auto simp: list_all_iff)

lemma words_text_nul: "list_all token_ok ts \<Longrightarrow> NUL \<notin> set (words_text ts)"
  by (induction ts rule: words_text.induct) (auto simp: token_text_nul)

lemma the_line_words:
  "list_all token_ok ts \<Longrightarrow> k + length (words_text ts) \<le> 298 \<Longrightarrow>
   the_line (replicate k CHR '' '' @ words_text ts) = replicate k CHR '' '' @ words_text ts"
  using words_text_nul[of ts] by (intro snprintf_s_short[of _ 299, folded the_line_def]) (auto simp: nul_free_def)

lemma split_line_words:
  assumes "list_all token_ok ts" "k + length (words_text ts) \<le> 298"
  shows "split_line (replicate k CHR '' '' @ words_text ts) = spans k ts"
  using assms by (simp add: split_line_def the_line_words split_blanks split_spans)

text \<open>C14: a line made of blanks and of words joined by a blank, as they are or between apostrophes, is split into exactly
these words, when it has at most 298 characters.\<close>

theorem words_back:
  assumes "list_all token_ok ts" "k + length (words_text ts) \<le> 298"
  shows "map (word_at (the_line (replicate k CHR '' '' @ words_text ts))) (split_line (replicate k CHR '' '' @ words_text ts)) =
    map token_word ts"
  using assms word_at_spans[of "replicate k CHR '' ''" ts] by (simp add: the_line_words split_line_words)

lemma words_back_witness:
  "map (word_at (the_line ''  show 'a b' x'')) (split_line ''  show 'a b' x'') = [''show'', ''a b'', ''x'']"
  using words_back[of "[Plain ''show'', Quoted ''a b'', Plain ''x'']" 2]
  by (simp add: eval_nat_numeral)

lemma word_at_back:
  assumes "list_all token_ok ts" "k + length (words_text ts) \<le> 298"
  shows "map (word_at (replicate k CHR '' '' @ words_text ts)) (spans k ts) = map token_word ts"
  using word_at_spans[of "replicate k CHR '' ''" ts] by simp

end
