(* ===== verification/Debugging.thy ===== *)
theory Debugging
  imports IpAddr UtilsMatch UtilsTime
begin

text \<open>
  Log messages and where they go: the names of the facilities (\<^verbatim>\<open>src/Debug.cc\<close>), the lists of messages of the outputs
  (\<^verbatim>\<open>src/Logging.cc\<close>), the facilities of the log files, of the syslog servers and of the terminals
  (\<^verbatim>\<open>src/LogFile.cc\<close>, \<^verbatim>\<open>src/LogSyslog.cc\<close>, \<^verbatim>\<open>src/LogTerm.cc\<close>), and the part of the configuration that chooses them (\<^verbatim>\<open>src/CoreDebug.cc\<close>).
\<close>

section \<open>Facilities\<close>

definition facilities :: "(int \<times> string \<times> string) list" where
  "facilities = [(1, ''TACacs'', ''tacacs+''), (2, ''BILling'', ''billing system''),
     (3, ''AAA'', ''authentication/authorzation/accounting''), (4, ''DB'', ''database system''), (5, ''SNmp'', ''snmp activity''),
     (6, ''NETFlow'', ''NetFlow collector system''), (7, ''SERver'', ''TCP/UDP servers''), (8, ''CC'', ''Crypto Card''),
     (9, ''POOl'', ''address pool''), (10, ''TRack'', ''user tracking''), (11, ''HTtp'', ''http interface''),
     (12, ''TIP'', ''tacppd interchange protocol''), (13, ''TEP'', ''tacppd exchange protocol'')]"

definition fname :: "int \<Rightarrow> string" where
  "fname f = (case find (\<lambda>(n, nm, d). n = f) facilities of Some (n, nm, d) \<Rightarrow> nm | None \<Rightarrow> [])"

definition fdescr :: "int \<Rightarrow> string" where
  "fdescr f = (case find (\<lambda>(n, nm, d). n = f) facilities of Some (n, nm, d) \<Rightarrow> d | None \<Rightarrow> [])"

definition fnum :: "string \<Rightarrow> int" where
  "fnum s = (case find (\<lambda>(n, nm, d). match (Some s) (Some nm)) facilities of Some (n, nm, d) \<Rightarrow> n | None \<Rightarrow> 0)"

section \<open>Messages\<close>

record log_entry =
  le_level :: int
  le_text :: string

definition log_data :: "tm \<Rightarrow> int \<Rightarrow> string \<Rightarrow> log_entry" where
  "log_data tt n s =
     (let strd = ''['' @ zpad 4 (1900 + tm_year tt) @ ''/'' @ zpad 2 (tm_mon tt + 1) @ ''/'' @ zpad 2 (tm_mday tt) @ ''-'' @
            zpad 2 (tm_wday tt + 1) @ ''-'' @ zpad 2 (tm_hour tt) @ '':'' @ zpad 2 (tm_min tt) @ '':'' @ zpad 2 (tm_sec tt) @ ''] '';
          strt = snprintf_s 29 (upper (fname n) @ '': '')
      in \<lparr> le_level = n, le_text = strd @ (if 2 < length strt then strt else []) @ (if 0 < length s then s else ''(void)'') \<rparr>)"

record log_list =
  ll_num :: nat
  ll_logs :: "log_entry list"

definition ll_add :: "log_entry \<Rightarrow> log_list \<Rightarrow> log_list" where
  "ll_add e l = l \<lparr> ll_logs := ll_logs l @ [e] \<rparr>"

definition ll_del :: "int \<Rightarrow> log_list \<Rightarrow> string \<times> log_list" where
  "ll_del n l = (case find (\<lambda>e. le_level e = n) (ll_logs l) of
      Some e \<Rightarrow> (le_text e, l \<lparr> ll_logs := del_first (\<lambda>e. le_level e = n) (ll_logs l) \<rparr>)
    | None \<Rightarrow> ([], l))"

definition getEntry :: "log_list \<Rightarrow> log_entry option \<times> log_list" where
  "getEntry l = (case ll_logs l of [] \<Rightarrow> (None, l) | e # es \<Rightarrow> (Some e, l \<lparr> ll_logs := es \<rparr>))"

text \<open>A free number for a new output: after a number was found taken the search goes on behind the first list.\<close>

function free_num :: "nat list \<Rightarrow> nat \<Rightarrow> nat \<Rightarrow> nat" where
  "free_num ids i n = (if i < length ids then (if ids ! i = n then free_num ids 1 (n + 1) else free_num ids (i + 1) n) else n)"
  by pat_completeness auto
termination
proof (relation "measures [\<lambda>(ids, i, n). Suc (Max (insert 0 (set ids))) - n, \<lambda>(ids, i, n). length ids - i]", goal_cases)
  case (2 ids i n)
  then have "n \<in> set ids" by auto
  then have "n \<le> Max (insert 0 (set ids))" by simp
  then show ?case by (simp add: Suc_diff_le)
next
  case (3 ids i n)
  then show ?case by auto
qed simp

declare free_num.simps [simp del]

definition log_add :: "log_list list \<Rightarrow> nat \<times> log_list list" where
  "log_add ls = (let n = free_num (map ll_num ls) 0 1 in (n, ls @ [\<lparr> ll_num = n, ll_logs = [] \<rparr>]))"

definition log_del :: "nat \<Rightarrow> log_list list \<Rightarrow> log_list list" where
  "log_del n ls = filter (\<lambda>l. ll_num l \<noteq> n) ls"

definition getl :: "nat \<Rightarrow> log_list list \<Rightarrow> log_list option" where
  "getl n ls = find (\<lambda>l. ll_num l = n) ls"

definition out_msg :: "tm \<Rightarrow> int \<Rightarrow> string \<Rightarrow> log_list list \<Rightarrow> log_list list" where
  "out_msg tt n s ls = (if s = [] then ls else map (ll_add (log_data tt n s)) ls)"

definition log_clear :: "log_list list \<Rightarrow> log_list list" where
  "log_clear ls = map (\<lambda>l. l \<lparr> ll_logs := [] \<rparr>) ls"

definition log_size :: "log_list list \<Rightarrow> nat" where
  "log_size ls = sum_list (map (length \<circ> ll_logs) ls)"

text \<open>
  Messages made with a format. A conversion that is not one of the five copies the text of the one before again, and the
  character behind the percent sign is looked at once more. \<open>n\<close>: the size of the buffer.
\<close>

datatype log_arg = LChar char | LString string | LUint "32 word" | LHex "32 word" | LInt int

definition hex_digit :: "nat \<Rightarrow> char" where
  "hex_digit d = char_of (if d < 10 then 48 + d else 87 + d)"

fun hex_nat :: "nat \<Rightarrow> string" where
  "hex_nat n = (if n < 16 then [hex_digit n] else hex_nat (n div 16) @ [hex_digit (n mod 16)])"

declare hex_nat.simps [simp del]

fun arg_text :: "char \<Rightarrow> log_arg \<Rightarrow> string option" where
  "arg_text f (LChar c) = (if f = CHR ''c'' then Some (c_str [c]) else None)"
| "arg_text f (LString s) = (if f = CHR ''s'' then Some s else None)"
| "arg_text f (LUint w) = (if f = CHR ''u'' then Some (dec_nat (unat w)) else None)"
| "arg_text f (LHex w) = (if f = CHR ''x'' then Some (hex_nat (unat w)) else None)"
| "arg_text f (LInt k) = (if f = CHR ''d'' then Some (dec_int k) else None)"

definition conversions :: "char list" where
  "conversions = ''csuxd''"

fun format_msg :: "nat \<Rightarrow> string \<Rightarrow> log_arg list \<Rightarrow> string \<Rightarrow> string \<Rightarrow> string cres" where
  "format_msg n [] as prev out = Inr out"
| "format_msg n (c # fmt) as prev out =
     (if c \<noteq> CHR ''%'' then (if n \<le> length out + 1 then Inr out else format_msg n fmt as prev (out @ [c]))
      else case fmt of
        x # fmt' \<Rightarrow>
          if x \<in> set conversions then
            (case as of [] \<Rightarrow> Inl Indeterminate
             | a # as' \<Rightarrow> (case arg_text x a of None \<Rightarrow> Inl Indeterminate
                 | Some t \<Rightarrow> if n \<le> length out + length t + 1 then Inr out else format_msg n fmt' as' t (out @ t)))
          else if n \<le> length out + length prev + 1 then Inr out else format_msg n fmt as prev (out @ prev)
      | [] \<Rightarrow> if n \<le> length out + length prev + 1 then Inr out else Inr (out @ prev))"

definition MAX_LOG_STR_LEN :: nat where "MAX_LOG_STR_LEN = 900"

definition logging_log :: "tm \<Rightarrow> int \<Rightarrow> string \<Rightarrow> log_arg list \<Rightarrow> log_list list \<Rightarrow> log_list list cres" where
  "logging_log tt k fmt as ls = cbind (format_msg MAX_LOG_STR_LEN fmt as [] []) (\<lambda>s. Inr (out_msg tt k s ls))"

text \<open>The buffer is never left.\<close>

lemma format_msg_fits: "format_msg n fmt as prev out = Inr s \<Longrightarrow> length out < n \<Longrightarrow> length s < n"
proof (induction n fmt as prev out rule: format_msg.induct)
  case (2 n c fmt as prev out)
  show ?case
  proof (cases "c = CHR ''%''")
    case False
    with 2(1) 2(4,5) show ?thesis by (simp split: if_splits)
  next
    case c: True
    show ?thesis
    proof (cases fmt)
      case Nil
      with c 2(4,5) show ?thesis by (auto split: if_splits)
    next
      case (Cons x fmt')
      show ?thesis
      proof (cases "x \<in> set conversions")
        case True
        then obtain a as' t where "as = a # as'" "arg_text x a = Some t"
          using c Cons 2(4) by (auto split: list.splits option.splits)
        with True c Cons 2(2)[of x fmt' a as' t] 2(4,5) show ?thesis by (simp split: if_splits)
      next
        case False
        with c Cons 2(3)[of x fmt'] 2(4,5) show ?thesis by (simp split: if_splits)
      qed
    qed
  qed
qed simp

section \<open>Outputs\<close>

text \<open>A syslog server or a terminal: where it is, the number of its list, its facilities.\<close>

record 'a sink =
  sk_at :: 'a
  sk_id :: nat
  sk_fc :: "int list"

record outputs =
  file_fc :: "int list"
  servers :: "ipaddr sink list"

definition fc_add :: "int \<Rightarrow> int list \<Rightarrow> int list" where
  "fc_add n fc = (if n \<in> set fc then fc else fc @ [n])"

definition fc_del :: "int \<Rightarrow> int list \<Rightarrow> int list" where
  "fc_del n fc = filter (\<lambda>k. k \<noteq> n) fc"

definition is_debug_fc :: "int \<Rightarrow> outputs \<Rightarrow> bool" where
  "is_debug_fc n os = (n \<in> set (file_fc os))"

text \<open>A new sink gets a list of its own; the messages stay there until it goes, nothing reads them.\<close>

definition sink_add :: "('a \<Rightarrow> bool) \<Rightarrow> 'a \<Rightarrow> 'a sink list \<times> log_list list \<Rightarrow> 'a sink list \<times> log_list list" where
  "sink_add P a st = (case st of (ks, ls) \<Rightarrow>
     if \<exists>k \<in> set ks. P (sk_at k) then st
     else case log_add ls of (n, ls') \<Rightarrow> (ks @ [\<lparr> sk_at = a, sk_id = n, sk_fc = [] \<rparr>], ls'))"

definition sink_del :: "('a \<Rightarrow> bool) \<Rightarrow> 'a sink list \<times> log_list list \<Rightarrow> 'a sink list \<times> log_list list" where
  "sink_del P st = (case st of (ks, ls) \<Rightarrow>
     case find (\<lambda>k. P (sk_at k)) ks of
       None \<Rightarrow> st
     | Some k \<Rightarrow> (del_first (\<lambda>k. P (sk_at k)) ks, log_del (sk_id k) ls))"

text \<open>Only sinks that are already there get a facility.\<close>

definition sink_change :: "('a \<Rightarrow> bool) \<Rightarrow> (int list \<Rightarrow> int list) \<Rightarrow> 'a sink list \<Rightarrow> 'a sink list" where
  "sink_change P f ks = upd_first (\<lambda>k. P (sk_at k)) (\<lambda>k. k \<lparr> sk_fc := f (sk_fc k) \<rparr>) ks"

definition syslog_add :: "dns \<Rightarrow> string \<Rightarrow> outputs \<times> log_list list \<Rightarrow> outputs \<times> log_list list" where
  "syslog_add dns ip st = (case st of (os, ls) \<Rightarrow>
     case sink_add (\<lambda>a. ip_eq_str dns a ip) (ip_fill dns ip) (servers os, ls) of (ks, ls') \<Rightarrow> (os \<lparr> servers := ks \<rparr>, ls'))"

definition syslog_del :: "dns \<Rightarrow> string \<Rightarrow> outputs \<times> log_list list \<Rightarrow> outputs \<times> log_list list" where
  "syslog_del dns ip st = (case st of (os, ls) \<Rightarrow>
     case sink_del (\<lambda>a. ip_eq_str dns a ip) (servers os, ls) of (ks, ls') \<Rightarrow> (os \<lparr> servers := ks \<rparr>, ls'))"

definition syslog_change :: "dns \<Rightarrow> string \<Rightarrow> (int list \<Rightarrow> int list) \<Rightarrow> outputs \<Rightarrow> outputs" where
  "syslog_change dns ip f os = os \<lparr> servers := sink_change (\<lambda>a. ip_eq_str dns a ip) f (servers os) \<rparr>"

text \<open>Terminals are known by their sockets.\<close>

definition term_add :: "int \<Rightarrow> int sink list \<times> log_list list \<Rightarrow> int sink list \<times> log_list list" where
  "term_add fh = sink_add (\<lambda>a. a = fh) fh"

definition term_del :: "int \<Rightarrow> int sink list \<times> log_list list \<Rightarrow> int sink list \<times> log_list list" where
  "term_del fh = sink_del (\<lambda>a. a = fh)"

definition term_change :: "int \<Rightarrow> (int list \<Rightarrow> int list) \<Rightarrow> int sink list \<Rightarrow> int sink list" where
  "term_change fh f = sink_change (\<lambda>a. a = fh) f"

text \<open>A message written with \<^verbatim>\<open>startlog\<close> is kept when its facility is one of the log files, for all outputs.\<close>

definition startlog :: "tm \<Rightarrow> int \<Rightarrow> string \<Rightarrow> outputs \<Rightarrow> log_list list \<Rightarrow> log_list list" where
  "startlog tt n s os ls = (if is_debug_fc n os then out_msg tt n s ls else ls)"

definition LOG_ERROR :: int where "LOG_ERROR = 0"
definition LOG_EVENT :: int where "LOG_EVENT = 253"
definition LOG_INFORM :: int where "LOG_INFORM = 254"
definition LOG_LOGGING :: int where "LOG_LOGGING = 255"

datatype log_file = ErrorsFile | EventsFile | InformFile | AccountingFile | DebugFile

text \<open>Four levels have files of their own, the others go to the debug file when they are among the facilities of the log files.\<close>

definition file_of :: "int list \<Rightarrow> int \<Rightarrow> log_file option" where
  "file_of fc n =
     (if n = LOG_ERROR then Some ErrorsFile else if n = LOG_EVENT then Some EventsFile else if n = LOG_INFORM then Some InformFile
      else if n = LOG_LOGGING then Some AccountingFile else if n \<in> set fc then Some DebugFile else None)"

text \<open>The lines that one pass of the log writer puts into the files; afterwards its list is empty.\<close>

fun lines_out :: "int list \<Rightarrow> log_entry list \<Rightarrow> (log_file \<times> string) list" where
  "lines_out fc [] = []"
| "lines_out fc (e # es) =
     (case file_of fc (le_level e) of
        Some f \<Rightarrow> (f, le_text e @ [CHR 0x0A]) # lines_out fc es
      | None \<Rightarrow> lines_out fc es)"

definition logwrite :: "int list \<Rightarrow> nat \<Rightarrow> log_list list \<Rightarrow> ((log_file \<times> string) list \<times> log_list list) cres" where
  "logwrite fc oid ls = (case getl oid ls of
      None \<Rightarrow> Inl NullDeref
    | Some l \<Rightarrow> Inr (lines_out fc (ll_logs l), upd_first (\<lambda>l. ll_num l = oid) (\<lambda>l. l \<lparr> ll_logs := [] \<rparr>) ls))"

section \<open>Configuration\<close>

record debug_entry =
  de_num :: int
  de_name :: string

record debug_data =
  dd_output :: int
  dd_serv :: ipaddr
  dd_entries :: "debug_entry list"

definition entry_made :: "dns \<Rightarrow> debug_data \<Rightarrow> int \<Rightarrow> outputs \<Rightarrow> outputs" where
  "entry_made dns d n os =
     (if dd_output d = 1 then os \<lparr> file_fc := fc_add n (file_fc os) \<rparr>
      else if dd_output d = 2 then syslog_change dns (ip_get (dd_serv d)) (fc_add n) os else os)"

definition entry_gone :: "dns \<Rightarrow> debug_data \<Rightarrow> int \<Rightarrow> outputs \<Rightarrow> outputs" where
  "entry_gone dns d n os =
     (if dd_output d = 1 then os \<lparr> file_fc := fc_del n (file_fc os) \<rparr>
      else if dd_output d = 2 then syslog_change dns (ip_get (dd_serv d)) (fc_del n) os else os)"

definition debug_cfstr :: "dns \<Rightarrow> debug_data \<Rightarrow> string" where
  "debug_cfstr dns d =
     (if dd_output d = 1 then '' debug file'' @ [CHR 0x0A]
      else if dd_output d = 2 then
        (if ip_eq_str dns (dd_serv d) ''127.0.0.1'' then '' debug syslog'' @ [CHR 0x0A] else '' debug '' @ hname (dd_serv d) @ [CHR 0x0A])
      else []) @
     concat (map (\<lambda>e. ''  facility '' @ lower (de_name e) @ [CHR 0x0A]) (dd_entries d)) @ ''  exit''"

definition dd_add :: "dns \<Rightarrow> int \<Rightarrow> string \<Rightarrow> debug_data \<times> outputs \<Rightarrow> debug_data \<times> outputs" where
  "dd_add dns k n st = (case st of (d, os) \<Rightarrow>
     if \<exists>e \<in> set (dd_entries d). de_num e = k then st
     else (d \<lparr> dd_entries := dd_entries d @ [\<lparr> de_num = k, de_name = n \<rparr>] \<rparr>, entry_made dns d k os))"

definition dd_del :: "dns \<Rightarrow> int \<Rightarrow> debug_data \<times> outputs \<Rightarrow> debug_data \<times> outputs" where
  "dd_del dns k st = (case st of (d, os) \<Rightarrow>
     if \<exists>e \<in> set (dd_entries d). de_num e = k
     then (d \<lparr> dd_entries := del_first (\<lambda>e. de_num e = k) (dd_entries d) \<rparr>, entry_gone dns d k os) else st)"

definition at_output :: "dns \<Rightarrow> int \<Rightarrow> string \<Rightarrow> debug_data \<Rightarrow> bool" where
  "at_output dns out ip d =
     (out = 1 \<and> dd_output d = 1 \<or> out = 2 \<and> dd_output d = 2 \<and> ip_eq_str dns (dd_serv d) ip)"

type_synonym core_debug = "debug_data list \<times> outputs"

definition debug_add :: "dns \<Rightarrow> int \<Rightarrow> string \<Rightarrow> core_debug \<Rightarrow> core_debug" where
  "debug_add dns out ip st = (case st of (ds, os) \<Rightarrow>
     if \<exists>d \<in> set ds. at_output dns out ip d then st
     else (ds @ [\<lparr> dd_output = out, dd_serv = ip_fill dns ip, dd_entries = [] \<rparr>], os))"

fun debug_at :: "(debug_data \<Rightarrow> bool) \<Rightarrow> (debug_data \<times> outputs \<Rightarrow> debug_data \<times> outputs) \<Rightarrow> core_debug \<Rightarrow> core_debug" where
  "debug_at P f ([], os) = ([], os)"
| "debug_at P f (d # ds, os) =
     (if P d then (case f (d, os) of (d', os') \<Rightarrow> (d' # ds, os'))
      else case debug_at P f (ds, os) of (ds', os') \<Rightarrow> (d # ds', os'))"

text \<open>After an output was added the search starts again.\<close>

partial_function (option) debug_add_fc :: "dns \<Rightarrow> int \<Rightarrow> string \<Rightarrow> int \<Rightarrow> core_debug \<Rightarrow> core_debug option" where
  "debug_add_fc dns out ip f st =
     (if \<exists>d \<in> set (fst st). at_output dns out ip d
      then Some (debug_at (at_output dns out ip) (dd_add dns f (fname f)) st)
      else debug_add_fc dns out ip f (debug_add dns out ip st))"

definition debug_del :: "dns \<Rightarrow> int \<Rightarrow> string \<Rightarrow> core_debug \<Rightarrow> core_debug" where
  "debug_del dns out ip st = (case st of (ds, os) \<Rightarrow> case find (at_output dns out ip) ds of
      None \<Rightarrow> st
    | Some d \<Rightarrow> (del_first (at_output dns out ip) ds, fold (\<lambda>e. entry_gone dns d (de_num e)) (dd_entries d) os))"

definition debug_del_fc :: "dns \<Rightarrow> int \<Rightarrow> string \<Rightarrow> int \<Rightarrow> core_debug \<Rightarrow> core_debug" where
  "debug_del_fc dns out ip f st = debug_at (at_output dns out ip) (dd_del dns f) st"

definition debug_buildcfstr :: "dns \<Rightarrow> nat \<Rightarrow> core_debug \<Rightarrow> string" where
  "debug_buildcfstr dns n st = (if n < length (fst st) then debug_cfstr dns (fst st ! n) else [])"

definition word_no :: "nat \<Rightarrow> string list \<Rightarrow> string cres" where
  "word_no n ws = (if n < length ws then Inr (ws ! n) else Inl OutOfBounds)"

definition debug_applycf :: "dns \<Rightarrow> string list \<Rightarrow> string \<Rightarrow> string list \<Rightarrow> string list \<Rightarrow> core_debug \<Rightarrow> core_debug cres option" where
  "debug_applycf dns wds cmdname ps us st =
     (if cmdname = ''confDebugNoFile'' then Some (Inr (debug_del dns 1 ''127.0.0.1'' st))
      else if cmdname = ''confDebugNoIP'' then Some (cbind (first_param ps) (\<lambda>p. Inr (debug_del dns 2 p st)))
      else if cmdname = ''confDebugNodeFile'' then Some (Inr (debug_add dns 1 ''127.0.0.1'' st))
      else if cmdname = ''confDebugNodeIP'' then Some (cbind (first_param ps) (\<lambda>p. Inr (debug_add dns 2 p st)))
      else if cmdname = ''confDebugF'' then
        obind (Some (word_no 1 wds)) (\<lambda>w. map_option Inr (debug_add_fc dns 1 ''127.0.0.1'' (fnum w) st))
      else if cmdname = ''confDebugFIntNo'' then Some (cbind (word_no 2 wds) (\<lambda>w. Inr (debug_del_fc dns 1 ''127.0.0.1'' (fnum w) st)))
      else if cmdname = ''confDebugIP'' then
        obind (Some (cbind (first_param us) (\<lambda>u. cbind (word_no 1 wds) (\<lambda>w. Inr (u, w)))))
          (\<lambda>(u, w). map_option Inr (debug_add_fc dns 2 u (fnum w) st))
      else if cmdname = ''confDebugIPIntNo'' then
        Some (cbind (first_param us) (\<lambda>u. cbind (word_no 2 wds) (\<lambda>w. Inr (debug_del_fc dns 2 u (fnum w) st))))
      else Some (Inr st))"

section \<open>Lemmas\<close>

text \<open>Every facility has the number its name stands for.\<close>

lemma fnum_fname: "n \<in> {1..13} \<Longrightarrow> fnum (fname n) = n"
proof -
  have "\<forall>n \<in> {1, 2, 3, 4, 5, 6, 7, 8, 9, 10, 11, 12, 13}. fnum (fname n) = n"
    by code_simp
  moreover assume "n \<in> {1..13}"
  then have "n \<in> {1, 2, 3, 4, 5, 6, 7, 8, 9, 10, 11, 12, 13}" by (simp, presburger)
  ultimately show ?thesis by blast
qed

text \<open>The search for the output of a facility ends after at most one output was added.\<close>

lemma at_output_new: "out = 1 \<or> out = 2 \<Longrightarrow> at_output dns out ip \<lparr> dd_output = out, dd_serv = ip_fill dns ip, dd_entries = [] \<rparr>"
  by (auto simp: at_output_def ip_eq_str_def)

lemma debug_add_fc_returns:
  assumes "out = 1 \<or> out = 2"
  shows "debug_add_fc dns out ip f st =
    Some (debug_at (at_output dns out ip) (dd_add dns f (fname f)) (debug_add dns out ip st))"
proof (cases "\<exists>d \<in> set (fst st). at_output dns out ip d")
  case True
  then have "debug_add dns out ip st = st" by (auto simp: debug_add_def split: prod.splits)
  with True show ?thesis by (subst debug_add_fc.simps) simp
next
  case False
  then have "\<exists>d \<in> set (fst (debug_add dns out ip st)). at_output dns out ip d"
    using at_output_new[OF assms] by (auto simp: debug_add_def split: prod.splits)
  with False show ?thesis by (subst debug_add_fc.simps, subst debug_add_fc.simps) simp
qed

text \<open>While the first list does not have the number the search ends at, numbers of outputs are new.\<close>

lemma free_num_new:
  "\<forall>j < length ids. j < i \<longrightarrow> j = 0 \<or> ids ! j \<noteq> n \<Longrightarrow> free_num ids i n \<notin> set (tl ids)"
proof (induction ids i n rule: free_num.induct)
  case (1 ids i n)
  show ?case
  proof (cases "i < length ids")
    case True
    show ?thesis
    proof (cases "ids ! i = n")
      case eq: True
      with True "1.IH"(1) show ?thesis by (subst free_num.simps) auto
    next
      case False
      with True "1.IH"(2) "1.prems" show ?thesis by (subst free_num.simps) (auto simp: less_Suc_eq)
    qed
  next
    case False
    have "n \<notin> set (tl ids)"
    proof
      assume "n \<in> set (tl ids)"
      then obtain k where "k < length (tl ids)" "tl ids ! k = n" by (auto simp: in_set_conv_nth)
      then have "Suc k < length ids" "ids ! Suc k = n" by (simp_all add: nth_tl)
      with "1.prems" False show False by auto
    qed
    with False show ?thesis by (subst free_num.simps) simp
  qed
qed

text \<open>The number of the first list can be given twice: three outputs, of which the second is removed.\<close>

lemma output_twice: "fst (log_add [\<lparr> ll_num = 2, ll_logs = [] \<rparr>, \<lparr> ll_num = 1, ll_logs = [] \<rparr>]) = 2"
  by (simp add: log_add_def free_num.simps)

end
