(* ===== verification/CoreData.thy ===== *)
theory CoreData
  imports Bundle CoreManager CoreListener CorePool CoreDevice CoreDb CoreBilling Debugging
begin

text \<open>
  All configured objects together (\<^verbatim>\<open>src/CoreData.cc\<close>): the ten objects in the order of the configuration file, the text
  of the whole configuration, and the configuration commands of the terminal (\<^verbatim>\<open>cmdConfig...\<close> of
  \<^verbatim>\<open>src/Terminal.cc\<close>), each handed to its object.
\<close>

section \<open>The objects\<close>

record core =
  c_debug :: core_debug
  c_access :: acls
  c_managers :: "manager list"
  c_listeners :: "listener list"
  c_pools :: pools
  c_net :: net
  c_dbs :: "tdb list"
  c_bundle :: core_bundle
  c_billings :: billings
  c_peers :: "peer list"

datatype object = DEBUG_TYPE | ACCESS_TYPE | MANAGER_TYPE | LISTENER_TYPE | POOL_TYPE | DEVICE_TYPE | DB_TYPE | BUNDLE_TYPE
  | BILLING_TYPE | PEER_TYPE

definition objects :: "object list" where
  "objects = [DEBUG_TYPE, ACCESS_TYPE, MANAGER_TYPE, LISTENER_TYPE, POOL_TYPE, DEVICE_TYPE, DB_TYPE, BUNDLE_TYPE,
     BILLING_TYPE, PEER_TYPE]"

fun obj_name :: "object \<Rightarrow> string" where
  "obj_name DEBUG_TYPE = ''DEbug''"
| "obj_name ACCESS_TYPE = ''ACCess''"
| "obj_name MANAGER_TYPE = ''MANager''"
| "obj_name LISTENER_TYPE = ''LISTener''"
| "obj_name POOL_TYPE = ''POOl''"
| "obj_name DEVICE_TYPE = ''DEVice''"
| "obj_name DB_TYPE = ''DATabase''"
| "obj_name BUNDLE_TYPE = ''BUNdle''"
| "obj_name BILLING_TYPE = ''BILling''"
| "obj_name PEER_TYPE = ''PEer''"

fun obj_descr :: "object \<Rightarrow> string" where
  "obj_descr DEBUG_TYPE = ''debug''"
| "obj_descr ACCESS_TYPE = ''access list''"
| "obj_descr MANAGER_TYPE = ''system manager''"
| "obj_descr LISTENER_TYPE = ''tcp/udp listener''"
| "obj_descr POOL_TYPE = ''address pool''"
| "obj_descr DEVICE_TYPE = ''network access server''"
| "obj_descr DB_TYPE = ''database''"
| "obj_descr BUNDLE_TYPE = ''tacppd bundle''"
| "obj_descr BILLING_TYPE = ''billing module''"
| "obj_descr PEER_TYPE = ''roaming peer''"

definition core_getn :: "nat \<Rightarrow> string" where
  "core_getn n = (if n < length objects then obj_name (objects ! n) else [])"

definition core_nth :: "nat \<Rightarrow> object option" where
  "core_nth n = (if n < length objects then Some (objects ! n) else None)"

definition core_get :: "string \<Rightarrow> object option" where
  "core_get s = find (\<lambda>b. match (Some s) (Some (obj_name b))) objects"

definition core_help :: string where
  "core_help = concat (map (\<lambda>b. CHR '' '' # lower (obj_name b) @ CHR '' '' # replicate (20 - length (obj_name b)) CHR '' '' @
     obj_descr b @ [CHR 0x0A]) objects)"

section \<open>The text of the configuration\<close>

definition obj_cfstr :: "dns \<Rightarrow> core \<Rightarrow> object \<Rightarrow> nat \<Rightarrow> string" where
  "obj_cfstr dns c b n = (case b of
      DEBUG_TYPE \<Rightarrow> debug_buildcfstr dns n (c_debug c)
    | ACCESS_TYPE \<Rightarrow> acl_buildcfstr n (c_access c)
    | MANAGER_TYPE \<Rightarrow> mgr_buildcfstr n (c_managers c)
    | LISTENER_TYPE \<Rightarrow> ls_buildcfstr n (c_listeners c)
    | POOL_TYPE \<Rightarrow> pool_buildcfstr n (c_pools c)
    | DEVICE_TYPE \<Rightarrow> dev_buildcfstr n (c_net c)
    | DB_TYPE \<Rightarrow> cdb_buildcfstr n (c_dbs c)
    | BUNDLE_TYPE \<Rightarrow> bundle_buildcfstr dns (int n) (c_bundle c)
    | BILLING_TYPE \<Rightarrow> bil_buildcfstr n (c_billings c)
    | PEER_TYPE \<Rightarrow> peer_buildcfstr n (c_peers c))"

definition buildcf_n :: "(nat \<Rightarrow> string) \<Rightarrow> string \<Rightarrow> nat \<Rightarrow> string" where
  "buildcf_n b d n = (if n = 0 then CHR 0x0A # '' ! '' @ d @ [CHR 0x0A] else []) @ b n @ [CHR 0x0A]"

text \<open>The entries of an object are asked for until one has at most five characters with its line feed.\<close>

partial_function (option) cf_loop :: "(nat \<Rightarrow> string) \<Rightarrow> string \<Rightarrow> nat \<Rightarrow> string \<Rightarrow> string \<Rightarrow> string option" where
  "cf_loop b d i out stmp = (if 5 < length stmp then cf_loop b d (i + 1) (out @ stmp) (buildcf_n b d i) else Some out)"

definition obj_buildcf :: "dns \<Rightarrow> core \<Rightarrow> object \<Rightarrow> string option" where
  "obj_buildcf dns c b = (let f = obj_cfstr dns c b; d = obj_descr b in cf_loop f d 1 [] (buildcf_n f d 0))"

fun all_cf :: "dns \<Rightarrow> core \<Rightarrow> object list \<Rightarrow> string option" where
  "all_cf dns c [] = Some []"
| "all_cf dns c (b # bs) =
     (case obj_buildcf dns c b of
        None \<Rightarrow> None
      | Some s \<Rightarrow> map_option ((@) s) (all_cf dns c bs))"

text \<open>\<open>now\<close>: the time as \<^verbatim>\<open>ctime_r\<close> writes it, without its line feed.\<close>

definition showcf :: "dns \<Rightarrow> string \<Rightarrow> string \<Rightarrow> core \<Rightarrow> string option" where
  "showcf dns now user c =
     map_option (\<lambda>s. ''! tacppd configuration file, build by '' @ user @ '' '' @ now @ '' '' @ [CHR 0x0A] @ ''config'' @ [CHR 0x0A] @ s @
       [CHR 0x0A] @ ''exit'' @ [CHR 0x0A] @ ''! end of config'' @ [CHR 0x0A]) (all_cf dns c objects)"

datatype file_op = Rename string string | WriteFile string string

definition writecf :: "dns \<Rightarrow> string \<Rightarrow> tm \<Rightarrow> string \<Rightarrow> string \<Rightarrow> core \<Rightarrow> file_op list option" where
  "writecf dns now tt file user c =
     (let strd = snprintf_s 39 (zpad 4 (1900 + tm_year tt) @ zpad 2 (tm_mon tt + 1) @ zpad 2 (tm_mday tt) @ zpad 2 (tm_hour tt) @
            zpad 2 (tm_min tt))
      in map_option (\<lambda>s. [Rename file (file @ ''.old''), WriteFile file s, WriteFile (file @ ''.'' @ strd) s])
           (showcf dns now user c))"

section \<open>Configuration commands\<close>

text \<open>What the objects call outside the program: names, loading of modules, digests, regular expressions.\<close>

record outside =
  out_dns :: dns
  out_md5 :: "byte list \<Rightarrow> byte list"
  out_xml :: bool
  out_yes :: "string \<Rightarrow> bool"
  out_snmp :: "string \<Rightarrow> string"
  out_snmp_funcs :: "string \<Rightarrow> bool"
  out_db :: "string \<Rightarrow> string"
  out_db_funcs :: "string \<Rightarrow> bool"
  out_billing :: "string \<Rightarrow> string"

definition access_ids :: "string list" where
  "access_ids = [''confAccessNode'', ''confAccessNo'', ''confAccessDeny'', ''confAccessPermit'', ''confAccessIntNoDeny'',
     ''confAccessIntNoPermit'']"

definition billing_ids :: "string list" where
  "billing_ids = [''confBillingNode'', ''confBillingNo'', ''confBillingDescr'', ''confBillingModule'']"

definition bundle_ids :: "string list" where
  "bundle_ids = [''confBundleNode'', ''confBundleNo'', ''confBundleCrypto'', ''confBundlePrio'', ''confBundleTTl'']"

definition db_ids :: "string list" where
  "db_ids = [''confDbNo'', ''confDbNode'', ''confDbCrypto'', ''confDbLogin'', ''confDbPasswd'', ''confDbModule'', ''confDbShutdown'']"

definition debug_ids :: "string list" where
  "debug_ids = [''confDebugNoFile'', ''confDebugNoIP'', ''confDebugNodeFile'', ''confDebugNodeIP'', ''confDebugF'',
     ''confDebugFIntNo'', ''confDebugIP'', ''confDebugIPIntNo'']"

definition device_ids :: "string list" where
  "device_ids = [''confDeviceNode'', ''confDeviceNo'', ''confDeviceMan'', ''confDeviceDescr'', ''confDeviceTKey'',
     ''confDeviceSnmpComm'', ''confDeviceLogin'', ''confDevicePwd'', ''confDeviceDauth'', ''confDeviceModule'',
     ''confDevicePollDelay'', ''confDeviceSnmpPolling'', ''confDeviceIcmpPolling'', ''confDeviceIntrfCount'', ''confDeviceShut'']"

definition listener_ids :: "string list" where
  "listener_ids = [''confListenerNo'', ''confListenerNode'', ''confListenerTac'', ''confListenerHttp'', ''confListenerTerm'',
     ''confListenerNetf'', ''confListenerBundle'', ''confListenerPeer'', ''confListenerTraps'', ''confListenerSnmp'',
     ''confListenerTci'', ''confListenerRad'', ''confListenerRadacc'', ''confListenerSyslog'', ''confListenerMaxconnect'',
     ''confListenerAcl'']"

definition manager_ids :: "string list" where
  "manager_ids = [''confManagerNo'', ''confManagerNode'', ''confManagerPwd'', ''confManagerCPwd'', ''confManagerAcl'',
     ''confManagerHttp'', ''confManagerTerm'', ''confManagerTci'']"

definition peer_ids :: "string list" where
  "peer_ids = [''confPeerNo'', ''confPeerNode'', ''confPeerDescr'', ''confPeerMask'', ''confPeerNoMask'', ''confPeerCrypto'']"

definition pool_ids :: "string list" where
  "pool_ids = [''confPoolNo'', ''confPoolNode'', ''confPoolNoAddr'', ''confPoolAddr'']"

definition object_of :: "string \<Rightarrow> object option" where
  "object_of cid =
     (if cid \<in> set access_ids then Some ACCESS_TYPE else if cid \<in> set billing_ids then Some BILLING_TYPE
      else if cid \<in> set bundle_ids then Some BUNDLE_TYPE else if cid \<in> set db_ids then Some DB_TYPE
      else if cid \<in> set debug_ids then Some DEBUG_TYPE else if cid \<in> set device_ids then Some DEVICE_TYPE
      else if cid \<in> set listener_ids then Some LISTENER_TYPE else if cid \<in> set manager_ids then Some MANAGER_TYPE
      else if cid \<in> set peer_ids then Some PEER_TYPE else if cid \<in> set pool_ids then Some POOL_TYPE else None)"

text \<open>\<open>wds\<close>: the masks of the command, \<open>ps\<close>: its values, \<open>us\<close>: the values of the node it belongs to.\<close>

definition obj_applycf :: "outside \<Rightarrow> object \<Rightarrow> string list \<Rightarrow> string \<Rightarrow> string list \<Rightarrow> string list \<Rightarrow> core \<Rightarrow> core cres option" where
  "obj_applycf ev b wds cid ps us c = (case b of
      ACCESS_TYPE \<Rightarrow> Some (cbind (acl_applycf cid ps us ps (c_access c)) (\<lambda>(m, x). Inr (c \<lparr> c_access := x \<rparr>)))
    | BILLING_TYPE \<Rightarrow> Some (cbind (bil_applycf (out_billing ev) cid ps us (c_billings c)) (\<lambda>x. Inr (c \<lparr> c_billings := x \<rparr>)))
    | BUNDLE_TYPE \<Rightarrow> Some (cbind (bundle_applycf (out_dns ev) cid ps (c_bundle c)) (\<lambda>x. Inr (c \<lparr> c_bundle := x \<rparr>)))
    | DB_TYPE \<Rightarrow> obind (cdb_applycf (out_dns ev) (out_db ev) (out_db_funcs ev) cid ps us (c_dbs c)) (\<lambda>(m, x).
        Some (Inr (c \<lparr> c_dbs := x \<rparr>)))
    | DEBUG_TYPE \<Rightarrow> obind (debug_applycf (out_dns ev) wds cid ps us (c_debug c)) (\<lambda>x. Some (Inr (c \<lparr> c_debug := x \<rparr>)))
    | DEVICE_TYPE \<Rightarrow> Some (cbind (dev_applycf (out_dns ev) (out_yes ev) (out_snmp ev) (out_snmp_funcs ev) cid ps us (c_net c))
        (\<lambda>(m, x). Inr (c \<lparr> c_net := x \<rparr>)))
    | LISTENER_TYPE \<Rightarrow> Some (cbind (ls_applycf (out_xml ev) wds cid ps us (c_listeners c)) (\<lambda>x. Inr (c \<lparr> c_listeners := x \<rparr>)))
    | MANAGER_TYPE \<Rightarrow> Some (cbind (mgr_applycf (out_md5 ev) wds cid ps us (c_managers c)) (\<lambda>x. Inr (c \<lparr> c_managers := x \<rparr>)))
    | PEER_TYPE \<Rightarrow> Some (cbind (peer_applycf (out_dns ev) cid ps us (c_peers c)) (\<lambda>x. Inr (c \<lparr> c_peers := x \<rparr>)))
    | POOL_TYPE \<Rightarrow> obind (pool_applycf (out_dns ev) cid ps us (c_pools c)) (\<lambda>x. Some (Inr (c \<lparr> c_pools := x \<rparr>))))"

text \<open>The object is looked up by its name.\<close>

definition cmd_object :: "outside \<Rightarrow> object \<Rightarrow> string list \<Rightarrow> string \<Rightarrow> string list \<Rightarrow> string list \<Rightarrow> core \<Rightarrow> core cres option" where
  "cmd_object ev b wds cid ps us c = (case core_get (obj_name b) of
      None \<Rightarrow> Some (Inl NullDeref)
    | Some b' \<Rightarrow> obj_applycf ev b' wds cid ps us c)"

section \<open>Lemmas\<close>

text \<open>Every object is found under its own name.\<close>

lemma core_get_name: "core_get (obj_name b) = Some b"
proof -
  have "core_get (obj_name b) = Some b" if "b \<in> set objects"
  proof -
    have "list_all (\<lambda>b. core_get (obj_name b) = Some b) objects" by code_simp
    with that show ?thesis by (simp add: list_all_iff)
  qed
  moreover have "b \<in> set objects" by (cases b) (simp_all add: objects_def)
  ultimately show ?thesis .
qed

lemma cmd_object_self: "cmd_object ev b wds cid ps us c = obj_applycf ev b wds cid ps us c"
  by (simp add: cmd_object_def core_get_name)

text \<open>The text of an object: its entries up to the first that is short.\<close>

lemma cf_loop_entries:
  assumes "\<forall>n < k. 5 < length (b n) + 1" "b k = []" "i \<le> k" "0 < i"
  shows "cf_loop b d (Suc i) out (buildcf_n b d i) = Some (out @ concat (map (\<lambda>n. b n @ [CHR 0x0A]) [i..<k]))"
  using assms(3,4)
proof (induction "k - i" arbitrary: i out)
  case 0
  then show ?case using assms(2) by (subst cf_loop.simps) (simp add: buildcf_n_def)
next
  case (Suc m)
  then have i: "i < k" by simp
  then have "5 < length (buildcf_n b d i)" using assms(1) by (simp add: buildcf_n_def)
  moreover have "cf_loop b d (Suc (Suc i)) (out @ buildcf_n b d i) (buildcf_n b d (Suc i)) =
      Some ((out @ buildcf_n b d i) @ concat (map (\<lambda>n. b n @ [CHR 0x0A]) [Suc i..<k]))"
    using Suc i by (intro Suc.hyps(1)) auto
  ultimately show ?case using i Suc.prems
    by (subst cf_loop.simps) (simp add: buildcf_n_def upt_conv_Cons)
qed

lemma cf_loop_ends:
  assumes "\<forall>n \<ge> k. b n = []" "0 < i"
  shows "\<exists>s. cf_loop b d i out stmp = Some s"
  using assms(2)
proof (induction "k + 1 - i" arbitrary: i out stmp rule: less_induct)
  case less
  show ?case
  proof (cases "i \<le> k")
    case True
    then have "\<exists>s. cf_loop b d (i + 1) (out @ stmp) (buildcf_n b d i) = Some s" by (intro less.hyps) auto
    then show ?thesis by (subst cf_loop.simps) simp
  next
    case False
    then have "buildcf_n b d i = [CHR 0x0A]" using assms(1) less.prems by (simp add: buildcf_n_def)
    then show ?thesis by (subst cf_loop.simps, simp, subst cf_loop.simps) simp
  qed
qed

lemma obj_buildcf_ends: "\<exists>s. obj_buildcf dns c b = Some s"
proof -
  have "\<exists>k. \<forall>n \<ge> k. obj_cfstr dns c b n = []"
  proof (cases b)
    case DEBUG_TYPE
    then show ?thesis by (intro exI[of _ "length (fst (c_debug c))"]) (simp add: obj_cfstr_def debug_buildcfstr_def)
  next
    case ACCESS_TYPE
    then show ?thesis by (intro exI[of _ "length (c_access c)"]) (simp add: obj_cfstr_def acl_buildcfstr_def)
  next
    case MANAGER_TYPE
    then show ?thesis by (intro exI[of _ "length (c_managers c)"]) (simp add: obj_cfstr_def mgr_buildcfstr_def)
  next
    case LISTENER_TYPE
    then show ?thesis by (intro exI[of _ "length (c_listeners c)"]) (simp add: obj_cfstr_def ls_buildcfstr_def)
  next
    case POOL_TYPE
    then show ?thesis by (intro exI[of _ "length (c_pools c)"]) (simp add: obj_cfstr_def pool_buildcfstr_def)
  next
    case DEVICE_TYPE
    then show ?thesis by (intro exI[of _ "length (nas (c_net c))"]) (simp add: obj_cfstr_def dev_buildcfstr_def)
  next
    case DB_TYPE
    then show ?thesis by (intro exI[of _ "length (c_dbs c)"]) (simp add: obj_cfstr_def cdb_buildcfstr_def)
  next
    case BUNDLE_TYPE
    then show ?thesis by (intro exI[of _ 1]) (simp add: obj_cfstr_def bundle_buildcfstr_def)
  next
    case BILLING_TYPE
    then show ?thesis by (intro exI[of _ "length (c_billings c)"]) (simp add: obj_cfstr_def bil_buildcfstr_def)
  next
    case PEER_TYPE
    then show ?thesis by (intro exI[of _ "length (c_peers c)"]) (simp add: obj_cfstr_def peer_buildcfstr_def)
  qed
  then show ?thesis unfolding obj_buildcf_def Let_def by (blast intro: cf_loop_ends zero_less_one)
qed

lemma all_cf_ends: "\<exists>s. all_cf dns c bs = Some s"
proof (induction bs)
  case (Cons b bs)
  with obj_buildcf_ends[of dns c b] show ?case by (auto split: option.splits)
qed simp

text \<open>C38: the configuration of any state can be written: the loop over the entries of each object ends.\<close>

theorem showcf_returns: "\<exists>s. showcf dns now user c = Some s"
  using all_cf_ends by (auto simp: showcf_def)

end
