(* ===== verification/CommandNode.thy ===== *)
theory CommandNode
  imports Command "HOL-Library.List_Lexorder" "HOL-Library.Char_ord"
begin

text \<open>
  The interactive command line (\<^verbatim>\<open>CommandNode\<close> of \<^verbatim>\<open>src/Command.cc\<close>) and the tree of its commands
  (\<^verbatim>\<open>src/Cli.cc\<close>): prompts, help, completion, history, and the loop that reads a line at a node and offers it to the
  commands of the node. \<open>b4\<close> is the byte before the buffer the line is split in. A node that was entered is a frame of the
  call stack; the history of a node stays with the node, so histories are kept for the path of a node in the tree.
\<close>

section \<open>Commands with help texts\<close>

datatype icmd =
    ICmd "string list" "string list" string
  | INode "string list" "string list" string string string "icmd list"

fun i_words :: "icmd \<Rightarrow> string list" where
  "i_words (ICmd ms hs cid) = ms"
| "i_words (INode ms hs cid ivs mk cs) = ms"

fun i_help :: "icmd \<Rightarrow> string list" where
  "i_help (ICmd ms hs cid) = hs"
| "i_help (INode ms hs cid ivs mk cs) = hs"

fun i_id :: "icmd \<Rightarrow> string" where
  "i_id (ICmd ms hs cid) = cid"
| "i_id (INode ms hs cid ivs mk cs) = cid"

text \<open>The tree for scripts is the same without help and prompts.\<close>

fun strip :: "icmd \<Rightarrow> cmd" where
  "strip (ICmd ms hs cid) = Cmd ms cid"
| "strip (INode ms hs cid ivs mk cs) = Node ms cid (map strip cs)"

section \<open>The tree from its description\<close>

datatype xml_event = Start string "(string \<times> string) list" | End string

definition attr :: "string \<Rightarrow> (string \<times> string) list \<Rightarrow> string option" where
  "attr a xs = map_of (rev xs) a"

text \<open>Attributes whose names begin with a word, in their order; those with a name of their own are taken first.\<close>

definition begins :: "string \<Rightarrow> string \<Rightarrow> bool" where
  "begins p s = (take (length p) s = p)"

definition special :: "string list" where
  "special = [''cmdID'', ''inviteStr'', ''inviteStrMark'', ''ecmdID'', ''crhelp'']"

definition attrs :: "string \<Rightarrow> (string \<times> string) list \<Rightarrow> string list" where
  "attrs p xs = map snd (filter (\<lambda>(a, v). begins p a \<and> a \<notin> set special) xs)"

definition with_cr :: "(string \<times> string) list \<Rightarrow> string list \<Rightarrow> string list" where
  "with_cr xs hs = hs @ (case attr ''crhelp'' xs of None \<Rightarrow> [] | Some h \<Rightarrow> [h])"

text \<open>A string made of a null pointer throws, copying from one faults.\<close>

definition needed :: "cfault \<Rightarrow> string \<Rightarrow> (string \<times> string) list \<Rightarrow> string cres" where
  "needed e a xs = (case attr a xs of None \<Rightarrow> Inl e | Some v \<Rightarrow> Inr v)"

definition make_command :: "(string \<times> string) list \<Rightarrow> icmd cres" where
  "make_command xs = cbind (needed Abort ''cmdID'' xs) (\<lambda>cid. Inr (ICmd (attrs ''mask'' xs) (with_cr xs (attrs ''help'' xs)) cid))"

definition make_node :: "(string \<times> string) list \<Rightarrow> icmd cres" where
  "make_node xs =
     cbind (needed Abort ''cmdID'' xs) (\<lambda>cid. cbind (needed Abort ''ecmdID'' xs) (\<lambda>ecid.
     cbind (needed NullDeref ''inviteStr'' xs) (\<lambda>ivs. cbind (needed NullDeref ''inviteStrMark'' xs) (\<lambda>mk.
       Inr (INode (attrs ''mask'' xs) (with_cr xs (attrs ''help'' xs)) cid ivs mk
              [ICmd (attrs ''emask'' xs) (with_cr xs (attrs ''ehelp'' xs)) ecid])))))"

fun insertCommand :: "icmd \<Rightarrow> icmd \<Rightarrow> icmd" where
  "insertCommand c (INode ms hs cid ivs mk cs) = INode ms hs cid ivs mk (cs @ [c])"
| "insertCommand c (ICmd ms hs cid) = ICmd ms hs cid"

text \<open>The nodes that are open, the innermost first. The outermost stays the current node when it ends.\<close>

fun cli_event :: "xml_event \<Rightarrow> icmd list \<Rightarrow> icmd list cres" where
  "cli_event (Start el xs) st =
     (if el = ''commandnode'' then cbind (make_node xs) (\<lambda>n. Inr (n # st))
      else cbind (make_command xs) (\<lambda>c. case st of [] \<Rightarrow> Inl NullDeref | n # st' \<Rightarrow> Inr (insertCommand c n # st')))"
| "cli_event (End el) st =
     (if el = ''commandnode'' then
        (case st of [] \<Rightarrow> Inl NullDeref
           | [n] \<Rightarrow> Inr [n]
           | n # m # st' \<Rightarrow> Inr (insertCommand n m # st'))
      else Inr st)"

fun cli :: "xml_event list \<Rightarrow> icmd list \<Rightarrow> icmd list cres" where
  "cli [] st = Inr st"
| "cli (e # es) st = cbind (cli_event e st) (cli es)"

section \<open>Prompts\<close>

text \<open>The nodes from the innermost to the root, with their two strings; the buffer has 513 bytes.\<close>

definition prompt_parts :: "(string \<times> string) list \<Rightarrow> string" where
  "prompt_parts path = (case path of
      [] \<Rightarrow> []
    | [(ivs, mk)] \<Rightarrow> snprintf_s 256 (LF # ivs @ mk)
    | (ivs, mk) # up \<Rightarrow> snprintf_s 256 (LF # fst (last up)) @ concat (map fst (rev (butlast up))) @ ivs @ mk)"

definition invStr :: "(string \<times> string) list \<Rightarrow> string cres" where
  "invStr path =
     (if \<exists>(i, m) \<in> set path. 256 \<le> length i \<or> 256 \<le> length m then Inl Indeterminate
      else if 512 < length (prompt_parts path) then Inl OutOfBounds
      else Inr (prompt_parts path))"

definition write_prompt :: "(string \<times> string) list \<Rightarrow> vty \<Rightarrow> vty cres" where
  "write_prompt path v = cbind (invStr path) (\<lambda>s. twrite s v)"

section \<open>Help\<close>

definition iprefix :: "string \<Rightarrow> string \<Rightarrow> bool" where
  "iprefix w m = (length w \<le> length m \<and> map tolower_c w = map tolower_c (take (length w) m))"

definition cursor_word :: "char \<Rightarrow> string \<Rightarrow> int \<Rightarrow> nat" where
  "cursor_word b4 line p = snd (under_cursor b4 (the_line line) 0 p (split_line line))"

text \<open>\<open>None\<close>: all words of the line match.\<close>

fun first_miss :: "string \<Rightarrow> nat \<Rightarrow> (nat \<times> nat) list \<Rightarrow> string list \<Rightarrow> (nat \<times> nat \<times> nat) option" where
  "first_miss l k (w # ws) (m # ms) =
     (if is_value m \<or> matchNstrict (drop (fst w) l) m then first_miss l (k + 1) ws ms else Some (k, w))"
| "first_miss l k ws ms = None"

definition partial_word :: "string \<Rightarrow> nat \<Rightarrow> string list \<Rightarrow> nat \<times> nat \<times> nat \<Rightarrow> bool" where
  "partial_word l uc ms miss = (case miss of (k, w) \<Rightarrow> k = uc \<and> iprefix (drop (fst w) l) (ms ! k))"

definition makeHelp :: "nat \<Rightarrow> string \<Rightarrow> icmd \<Rightarrow> bool" where
  "makeHelp uc line c =
     (let l = the_line line; ws = split_line line; ms = i_words c
      in length ws \<le> length ms \<and>
         (case first_miss l 0 ws ms of
            Some miss \<Rightarrow> partial_word l uc ms miss
          | None \<Rightarrow> uc < length (i_help c)))"

text \<open>The word that can be typed at the cursor, with its explanation.\<close>

definition nth_or_fault :: "'a list \<Rightarrow> nat \<Rightarrow> 'a cres" where
  "nth_or_fault xs n = (if n < length xs then Inr (xs ! n) else Inl OutOfBounds)"

fun help_entries :: "nat \<Rightarrow> string \<Rightarrow> icmd list \<Rightarrow> (string \<times> string) list cres" where
  "help_entries uc line [] = Inr []"
| "help_entries uc line (c # cs) =
     (if \<not> makeHelp uc line c then help_entries uc line cs
      else cbind (if length (i_words c) = uc then Inr ''<CR>'' else nth_or_fault (i_words c) uc) (\<lambda>k.
           cbind (nth_or_fault (i_help c) uc) (\<lambda>h. cbind (help_entries uc line cs) (\<lambda>es. Inr ((k, h) # es)))))"

definition help_rows :: "(string \<times> string) list \<Rightarrow> (string \<times> string list) list" where
  "help_rows es = map (\<lambda>k. (k, sort (remdups (map snd (filter (\<lambda>e. fst e = k) es))))) (sort (remdups (map fst es)))"

definition padded_word :: "nat \<Rightarrow> string \<Rightarrow> string" where
  "padded_word n k = k @ replicate (n + 1 - length k) CHR '' ''"

fun write_all :: "string list \<Rightarrow> vty \<Rightarrow> vty cres" where
  "write_all [] v = Inr v"
| "write_all (s # ss) v = cbind (twrite s v) (write_all ss)"

definition row_lines :: "nat \<Rightarrow> string \<times> string list \<Rightarrow> string list" where
  "row_lines n r = (case snd r of [] \<Rightarrow> []
     | h # hs \<Rightarrow> [lower (padded_word n (fst r)), h, [LF]] @ concat (map (\<lambda>x. [replicate (n + 1) CHR '' '', x, [LF]]) hs))"

text \<open>With no entry the longest word is looked for in an empty table.\<close>

definition makeHelpNode :: "char \<Rightarrow> icmd list \<Rightarrow> vty \<Rightarrow> vty cres" where
  "makeHelpNode b4 cs v = cbind (vty_get_line v) (\<lambda>line.
     cbind (help_entries (cursor_word b4 line (vtylinepos v)) line cs) (\<lambda>es.
       if es = [] then Inl OutOfBounds
       else let n = foldr (\<lambda>e m. max (length (fst e)) m) es 0
            in write_all (concat (map (row_lines n) (help_rows es))) v))"

section \<open>Completion\<close>

datatype completion = Completed nat string | ByPart nat string | NotCompleted | ParamNext

definition completeCommand :: "nat \<Rightarrow> string \<Rightarrow> string list \<Rightarrow> completion" where
  "completeCommand uc line ms =
     (let l = the_line line; ws = split_line line
      in if length ms < length ws \<or> length ms \<le> uc then NotCompleted
         else if ws = [] then Completed 0 (ms ! 0)
         else case first_miss l 0 ws ms of
                Some (k, w) \<Rightarrow> if partial_word l uc ms (k, w) then ByPart (snd w) (ms ! k) else NotCompleted
              | None \<Rightarrow>
                  if uc < length ws then (if is_value (ms ! uc) then NotCompleted else Completed (snd (ws ! uc)) (ms ! uc))
                  else if length ws < length ms \<and> is_value (ms ! length ws) then ParamNext
                  else Completed 0 (ms ! uc))"

text \<open>Every word once, with the length that was typed.\<close>

fun candidates :: "completion list \<Rightarrow> string list \<Rightarrow> (nat \<times> string) list" where
  "candidates [] seen = []"
| "candidates (Completed n m # cs) seen = (if m \<in> set seen then candidates cs seen else (n, m) # candidates cs (m # seen))"
| "candidates (ByPart n m # cs) seen = (if m \<in> set seen then candidates cs seen else (n, m) # candidates cs (m # seen))"
| "candidates (c # cs) seen = candidates cs seen"

text \<open>Whether all candidates go on with the same character; behind the end of a word there is nothing to read.\<close>

fun all_agree :: "char \<Rightarrow> nat \<Rightarrow> (nat \<times> string) list \<Rightarrow> bool cres" where
  "all_agree c i [] = Inr True"
| "all_agree c i ((n, m) # ms) =
     (if n + i = length m then Inr False
      else if length m < n + i then Inl OutOfBounds
      else if lower m ! (n + i) \<noteq> c then Inr False else all_agree c i ms)"

function extend_word :: "(nat \<times> string) \<Rightarrow> (nat \<times> string) list \<Rightarrow> nat \<Rightarrow> vty \<Rightarrow> (nat \<times> vty) cres" where
  "extend_word (n, m) ms i v =
     (if length m < n + i then Inl OutOfBounds
      else if n + i = length m then Inr (i, v)
      else let c = lower m ! (n + i)
           in cbind (all_agree c i ms) (\<lambda>ok.
                if ok then cbind (vty_insert_char c v) (extend_word (n, m) ms (i + 1)) else Inr (i, v)))"
  by pat_completeness auto
termination
  by (relation "measure (\<lambda>((n, m), ms, i, v). length m - (n + i))") auto

declare extend_word.simps [simp del]

definition list_candidates :: "nat \<Rightarrow> (nat \<times> string) list \<Rightarrow> string list" where
  "list_candidates i ms = concat (map (\<lambda>(n, m). if n + i \<noteq> length m then [lower m, '' ''] else []) ms)"

partial_function (option) completeNodeCommand :: "char \<Rightarrow> (string \<times> string) list \<Rightarrow> icmd list \<Rightarrow> vty \<Rightarrow> vty cres option" where
  "completeNodeCommand b4 path cs v = obind (Some (vty_get_line v)) (\<lambda>line.
     let uc = cursor_word b4 line (vtylinepos v);
         rs = map (completeCommand uc line \<circ> i_words) cs; ms = candidates rs []
     in if ParamNext \<in> set rs \<and> list_all (\<lambda>r. case r of ByPart _ _ \<Rightarrow> False | _ \<Rightarrow> True) rs then Some (Inr v)
        else if ms = [] then Some (Inr (bell v))
        else obind (Some (if 1 < length ms then twrite [LF] v else Inr v)) (\<lambda>v1.
          let ws = split_line line
          in obind (if uc < length ws then vty_move_to (int (fst (ws ! uc) + snd (ws ! uc))) v1 else Some (Inr v1)) (\<lambda>v2.
             obind (Some (extend_word (hd ms) ms 0 v2)) (\<lambda>(i, v3).
             obind (Some (write_all (list_candidates i ms) v3)) (\<lambda>v4.
               if 1 < length ms then Some (cbind (write_prompt path v4) vty_redraw_line)
               else obind (Some (vty_insert_char CHR '' '' v4)) (\<lambda>v5.
                    obind (completeNodeCommand b4 path cs v5) (\<lambda>v6. Some (vty_del_char v6))))))))"

section \<open>History\<close>

text \<open>The lines and the place in them; the length of the list is the place behind the last.\<close>

record history =
  h_lines :: "string list"
  h_at :: nat

definition no_history :: history where
  "no_history = \<lparr> h_lines = [], h_at = 0 \<rparr>"

definition insertHistory :: "string \<Rightarrow> history \<Rightarrow> history" where
  "insertHistory s h =
     (let ls = (if length (h_lines h) = 10 then filter (\<lambda>x. x \<noteq> s) (tl (h_lines h)) else h_lines h)
      in if s \<in> set ls then h
         else \<lparr> h_lines = ls @ [s], h_at = (if length ls = 0 then 0 else length ls - 1) \<rparr>)"

text \<open>From the last line backwards one step more is taken; with a single line that is a step before the first.\<close>

definition getHistory :: "(string \<times> string) list \<Rightarrow> bool \<Rightarrow> history \<Rightarrow> vty \<Rightarrow> (history \<times> vty) cres" where
  "getHistory path nxt h v =
     (if h_lines h = [] then Inr (h, v)
      else let n = length (h_lines h);
               shown = (\<lambda>i v. vty_redraw_line (vty_set_line (h_lines h ! i) v))
           in cbind (write_prompt path v) (\<lambda>v1.
             if nxt then
               (if h_at h \<noteq> n then cbind (shown (h_at h) v1) (\<lambda>v2. Inr (h \<lparr> h_at := h_at h + 1 \<rparr>, v2))
                else cbind (twrite [BEL] v1) (\<lambda>v2. cbind (shown 0 v2) (\<lambda>v3. Inr (h \<lparr> h_at := 1 \<rparr>, v3))))
             else if h_at h \<noteq> 0 \<and> h_at h \<noteq> n then cbind (shown (h_at h) v1) (\<lambda>v2. Inr (h \<lparr> h_at := h_at h - 1 \<rparr>, v2))
             else if h_at h = n then
               cbind (twrite [BEL] v1) (\<lambda>v2. cbind (shown (n - 1) v2) (\<lambda>v3.
                 if n = 1 then Inl OutOfBounds else Inr (h \<lparr> h_at := n - 2 \<rparr>, v3)))
             else cbind (twrite [BEL] v1) (\<lambda>v2. cbind (shown 0 v2) (\<lambda>v3. Inr (h \<lparr> h_at := n - 1 \<rparr>, v3)))))"

section \<open>The loop of a node\<close>

text \<open>A marker under the place of an error.\<close>

definition twrite_marker_at :: "int \<Rightarrow> vty \<Rightarrow> vty cres" where
  "twrite_marker_at p v =
     (if 512 < p then Inr v
      else if p = 512 \<or> p < 0 then Inl OutOfBounds
      else twrite (LF # replicate (nat p) CHR '' '' @ ''^'') v)"

definition report :: "(string \<times> string) list \<Rightarrow> (cmd_status \<times> nat) list \<Rightarrow> vty \<Rightarrow> vty cres" where
  "report path es v = cbind (max_err es) (\<lambda>e. cbind (invStr path) (\<lambda>ivs.
     cbind (twrite_marker_at (int (snd e + length ivs) - 1) v) (\<lambda>v1.
       let pos = snprintf_s 9 (dec_nat (snd e))
       in write_all ((case fst e of
              CMD_UNKNOWN \<Rightarrow> [LF # ''% Command at marker '' @ [CHR 0x27, CHR ''^'', CHR 0x27] @ ''  (col '', pos, '') is unknown:'']
            | CMD_PARAM_ERROR \<Rightarrow> [LF # ''% Command parametr at marker '' @ [CHR 0x27, CHR ''^'', CHR 0x27] @ ''  (col '', pos,
                '') is unknown or incorrect:'']
            | CMD_PARAM_COUNT_ERROR \<Rightarrow> [LF # ''% Parameter count error at marker '' @ [CHR 0x27, CHR ''^'', CHR 0x27] @ ''  (col '', pos,
                '') is unknown:'']) @ [[]]) v1)))"

record iframe =
  if_path :: "nat list"
  if_prompts :: "(string \<times> string) list"
  if_children :: "icmd list"
  if_params :: "string list"

text \<open>The commands share the connection: what arrives, the editor, and the rest of the state.\<close>

type_synonym 'g io = "byte list \<times> vty \<times> 'g"

datatype 'g ioffered = ITaken "'g io" | IEntered nat "string list" "'g io" | ILeft "'g io" | IRefused "(cmd_status \<times> nat) list"

fun ioffer :: "string \<Rightarrow> 'g io facility \<Rightarrow> string list \<Rightarrow> string \<Rightarrow> nat \<Rightarrow> icmd list \<Rightarrow> (cmd_status \<times> nat) list \<Rightarrow> 'g io \<Rightarrow>
    'g ioffered cres option" where
  "ioffer aft fac up line i [] errs g = Some (Inr (IRefused errs))"
| "ioffer aft fac up line i (c # cs) errs g =
     obind (cmd_makeAction aft fac (i_words c) (i_id c) up line g) (\<lambda>r. case r of
        Failed st n \<Rightarrow> ioffer aft fac up line (i + 1) cs (errs @ [(st, n)]) g
      | Exit g' \<Rightarrow> Some (Inr (ILeft g'))
      | Executed vs g' \<Rightarrow> Some (Inr (case c of ICmd _ _ _ \<Rightarrow> ITaken g' | INode _ _ _ _ _ _ \<Rightarrow> IEntered i vs g'))
      | NoAction \<Rightarrow> Some (Inr (case c of ICmd _ _ _ \<Rightarrow> ITaken g | INode _ _ _ _ _ _ \<Rightarrow> IEntered i [] g)))"

definition child_frame :: "iframe \<Rightarrow> nat \<Rightarrow> string list \<Rightarrow> iframe cres" where
  "child_frame f i vs = (case if_children f ! i of
      ICmd _ _ _ \<Rightarrow> Inl OutOfBounds
    | INode ms hs cid ivs mk cs \<Rightarrow> Inr \<lparr> if_path = if_path f @ [i], if_prompts = (ivs, mk) # if_prompts f, if_children = cs, if_params = vs \<rparr>)"

definition ready :: "iframe \<Rightarrow> 'g io \<Rightarrow> 'g io cres" where
  "ready f g = (case g of (ins, v, s) \<Rightarrow> cbind (write_prompt (if_prompts f) v) (\<lambda>v'. Inr (ins, vty_cleanup v', s)))"

type_synonym histories = "nat list \<Rightarrow> history"

text \<open>One key that ends a line: the frames and histories after it.\<close>

definition node_key :: "char \<Rightarrow> string \<Rightarrow> 'g io facility \<Rightarrow> key \<Rightarrow> iframe \<Rightarrow> iframe list \<Rightarrow> histories \<Rightarrow> 'g io \<Rightarrow>
    (iframe list \<times> histories \<times> 'g io) cres option" where
  "node_key b4 aft fac k f fs hs g = (case g of (ins, v, s) \<Rightarrow>
     let hist = (\<lambda>nxt. obind (Some (vty_get_line v)) (\<lambda>line.
           obind (Some (getHistory (if_prompts f) nxt (insertHistory line (hs (if_path f))) v)) (\<lambda>(h, v').
             Some (Inr (f # fs, hs(if_path f := h), (ins, v', s))))))
     in if k = T_KEY_GET_HELP then
          obind (Some (cbind (twrite [LF] v) (\<lambda>v1. cbind (makeHelpNode b4 (if_children f) v1) (\<lambda>v2.
            cbind (write_prompt (if_prompts f) v2) vty_redraw_line)))) (\<lambda>v'. Some (Inr (f # fs, hs, (ins, v', s))))
        else if k = T_KEY_COMPLETE_COMMAND then
          obind (completeNodeCommand b4 (if_prompts f) (if_children f) v) (\<lambda>v'. Some (Inr (f # fs, hs, (ins, v', s))))
        else if k = T_KEY_EXECUTE_COMMAND then
          obind (Some (vty_get_line v)) (\<lambda>line. let hs' = hs(if_path f := insertHistory line (hs (if_path f)))
            in obind (ioffer aft fac (if_params f) line 0 (if_children f) [] g) (\<lambda>r. case r of
                 ITaken g' \<Rightarrow> obind (Some (ready f g')) (\<lambda>g''. Some (Inr (f # fs, hs', g'')))
               | IEntered i vs g' \<Rightarrow> obind (Some (child_frame f i vs)) (\<lambda>f'.
                   obind (Some (ready f' g')) (\<lambda>g''. Some (Inr (f' # f # fs, hs', g''))))
               | ILeft g' \<Rightarrow> (case fs of [] \<Rightarrow> Some (Inr ([], hs', g'))
                   | p # _ \<Rightarrow> obind (Some (ready p g')) (\<lambda>g''. Some (Inr (fs, hs', g''))))
               | IRefused es \<Rightarrow> obind (Some (report (if_prompts f) es v)) (\<lambda>v'.
                   obind (Some (ready f (ins, v', s))) (\<lambda>g''. Some (Inr (f # fs, hs', g''))))))
        else if k = T_KEY_NEXT_COMMAND then hist True
        else if k = T_KEY_PREVIOUS_COMMAND then hist False
        else obind (Some (twrite (''Unknown command status!'' @ LF # '' No reaction for this event.'' @ [LF]) v)) (\<lambda>v'.
          Some (Inr (f # fs, hs, (ins, v', s)))))"

partial_function (option) node_run :: "char \<Rightarrow> string \<Rightarrow> 'g io facility \<Rightarrow> iframe list \<Rightarrow> histories \<Rightarrow> 'g io \<Rightarrow> 'g io cres option" where
  "node_run b4 aft fac frs hs g = (case frs of
      [] \<Rightarrow> Some (Inr g)
    | f # fs \<Rightarrow> obind (treadstr (fst g) (fst (snd g))) (\<lambda>(k, ins, v).
        obind (node_key b4 aft fac k f fs hs (ins, v, snd (snd g))) (\<lambda>(frs', hs', g'). node_run b4 aft fac frs' hs' g')))"

text \<open>The root node: what was on the line before is only executed when the root has a command for it; the node is entered anyway.\<close>

definition root_frame :: "icmd \<Rightarrow> iframe cres" where
  "root_frame c = (case c of ICmd _ _ _ \<Rightarrow> Inl OutOfBounds
     | INode ms hs cid ivs mk cs \<Rightarrow> Inr \<lparr> if_path = [], if_prompts = [(ivs, mk)], if_children = cs, if_params = [] \<rparr>)"

definition run_terminal :: "char \<Rightarrow> string \<Rightarrow> 'g io facility \<Rightarrow> icmd \<Rightarrow> 'g io \<Rightarrow> 'g io cres option" where
  "run_terminal b4 aft fac root g =
     obind (Some (root_frame root)) (\<lambda>f. obind (Some (ready f g)) (\<lambda>g'. node_run b4 aft fac [f] (\<lambda>_. no_history) g'))"

section \<open>The tree is the one described\<close>

text \<open>A description: words, explanations, the explanation of the end of the line, identifiers; for a node also those of the
command that leaves it.\<close>

datatype desc =
    DCmd "string list" "string list" string string
  | DNode "string list" "string list" string string string string "string list" "string list" string "desc list"

fun built :: "desc \<Rightarrow> icmd" where
  "built (DCmd ms hs cr cid) = ICmd ms (hs @ [cr]) cid"
| "built (DNode ms hs cr cid ivs mk ems ehs ecid ds) =
     INode ms (hs @ [cr]) cid ivs mk (ICmd ems (ehs @ [cr]) ecid # map built ds)"

definition numbered :: "string \<Rightarrow> string list \<Rightarrow> (string \<times> string) list" where
  "numbered p vs = map (\<lambda>(i, v). (p @ dec_nat i, v)) (enumerate 0 vs)"

fun events :: "desc \<Rightarrow> xml_event list" where
  "events (DCmd ms hs cr cid) =
     [Start ''command'' ((''cmdID'', cid) # numbered ''mask'' ms @ numbered ''help'' hs @ [(''crhelp'', cr)]), End ''command'']"
| "events (DNode ms hs cr cid ivs mk ems ehs ecid ds) =
     Start ''commandnode'' ([(''cmdID'', cid), (''inviteStr'', ivs), (''inviteStrMark'', mk)] @ numbered ''emask'' ems @
       numbered ''ehelp'' ehs @ numbered ''mask'' ms @ numbered ''help'' hs @ [(''ecmdID'', ecid), (''crhelp'', cr)])
     # concat (map events ds) @ [End ''commandnode'']"

lemma attrs_append: "attrs p (xs @ ys) = attrs p xs @ attrs p ys"
  by (simp add: attrs_def)

lemma attrs_cons: "attrs p ((a, v) # xs) = (if begins p a \<and> a \<notin> set special then v # attrs p xs else attrs p xs)"
  by (simp add: attrs_def)

lemma attrs_numbered:
  assumes "length p = length q \<or> hd q \<noteq> hd p \<and> p \<noteq> [] \<and> q \<noteq> []" "q \<in> {''mask'', ''help'', ''emask'', ''ehelp''}"
  shows "attrs p (numbered q vs) = (if p = q then vs else [])"
proof -
  have b: "begins p (q @ dec_nat i) = (p = q)" for i
    using assms(1) by (cases p; cases q) (auto simp: begins_def)
  have s: "q @ dec_nat i \<notin> set special" for i
    using assms(2) dec_nat_nonempty[of i] dec_nat_digits[of i]
    by (auto simp: special_def isdigit_c_def code_def)
  have "attrs p (map (\<lambda>(i, v). (q @ dec_nat i, v)) (enumerate n vs)) = (if p = q then vs else [])" for n
    by (induction vs arbitrary: n) (auto simp: attrs_cons b s, auto simp: attrs_def)
  then show ?thesis by (simp add: numbered_def)
qed

lemma attr_numbered: "a \<in> set special \<Longrightarrow> q \<in> {''mask'', ''help'', ''emask'', ''ehelp''} \<Longrightarrow> attr a (xs @ numbered q vs @ ys) = attr a (xs @ ys)"
proof -
  assume a: "a \<in> set special" and q: "q \<in> {''mask'', ''help'', ''emask'', ''ehelp''}"
  have ne: "q @ dec_nat i \<noteq> a" for i
    using a q by (auto simp: special_def)
  have "a \<notin> fst ` set (rev (numbered q vs))" using ne by (force simp: numbered_def)
  then have n: "map_of (rev (numbered q vs)) a = None" by (simp add: map_of_eq_None_iff)
  then show ?thesis by (simp add: attr_def map_add_def split: option.splits)
qed

lemma attr_cons: "attr a ((b, v) # xs) = (case attr a xs of Some w \<Rightarrow> Some w | None \<Rightarrow> if a = b then Some v else None)"
  by (simp add: attr_def map_add_def split: option.splits)

lemma attr_numbered': "a \<in> set special \<Longrightarrow> q \<in> {''mask'', ''help'', ''emask'', ''ehelp''} \<Longrightarrow> attr a (numbered q vs @ ys) = attr a ys"
  using attr_numbered[of a q "[]"] by simp

lemmas attr_simps = attr_cons attr_numbered' attrs_append attrs_cons attrs_numbered with_cr_def special_def

lemma make_command_desc:
  "make_command ((''cmdID'', cid) # numbered ''mask'' ms @ numbered ''help'' hs @ [(''crhelp'', cr)]) = Inr (ICmd ms (hs @ [cr]) cid)"
  by (simp add: make_command_def needed_def attr_simps) (simp add: attr_def attrs_def)

lemma make_node_desc:
  "make_node ([(''cmdID'', cid), (''inviteStr'', ivs), (''inviteStrMark'', mk)] @ numbered ''emask'' ems @
       numbered ''ehelp'' ehs @ numbered ''mask'' ms @ numbered ''help'' hs @ [(''ecmdID'', ecid), (''crhelp'', cr)]) =
   Inr (INode ms (hs @ [cr]) cid ivs mk [ICmd ems (ehs @ [cr]) ecid])"
  by (simp add: make_node_def needed_def attr_simps) (simp add: attr_def attrs_def)

lemma cli_append: "cli (es @ fs) st = cbind (cli es st) (cli fs)"
  by (induction es arbitrary: st) (auto simp: cbind_def split: sum.splits)

fun i_children :: "icmd \<Rightarrow> icmd list" where
  "i_children (INode ms hs cid ivs mk cs) = cs"
| "i_children (ICmd ms hs cid) = []"

lemma cli_desc:
  "cli (events d) (INode ms hs cid ivs mk cs # st) = Inr (INode ms hs cid ivs mk (cs @ [built d]) # st)"
proof (induction d arbitrary: ms hs cid ivs mk cs st)
  case (DCmd dms dhs dcr dcid)
  show ?case by (simp add: make_command_desc)
next
  case (DNode dms dhs dcr dcid divs dmk dems dehs decid ds)
  have "cli (concat (map events ds)) (INode ms hs cid ivs mk cs # st) = Inr (INode ms hs cid ivs mk (cs @ map built ds) # st)"
    for ms hs cid ivs mk cs st using DNode by (induction ds arbitrary: cs) (simp_all add: cli_append)
  then show ?case by (simp add: make_node_desc[simplified] cli_append del: cbind_eq_Inr)
qed

text \<open>The tree of commands is the one its description gives: each node with the command that leaves it first and then
its commands and nodes in their order, each with its words, its explanations and the identifier of its method.\<close>

lemma cli_builds:
  "cli (events (DNode ms hs cr cid ivs mk ems ehs ecid ds)) [] = Inr [built (DNode ms hs cr cid ivs mk ems ehs ecid ds)]"
proof -
  have "cli (concat (map events ds)) [INode ms' hs' cid' ivs' mk' cs] = Inr [INode ms' hs' cid' ivs' mk' (cs @ map built ds)]"
    for ms' hs' cid' ivs' mk' cs by (induction ds arbitrary: cs) (simp_all add: cli_append cli_desc)
  then show ?thesis by (simp add: make_node_desc[simplified] cli_append del: cbind_eq_Inr)
qed

section \<open>A typed line and a line of a script\<close>

text \<open>What a script would do next, as the outcome of the same line at a terminal.\<close>

fun as_script :: "icmd list \<Rightarrow> 'g ioffered \<Rightarrow> 'g io offered" where
  "as_script cs (ITaken g) = Taken g"
| "as_script cs (IEntered i vs g) = (case strip (cs ! i) of
      Node ms cid cs' \<Rightarrow> Entered \<lparr> fr_children = cs', fr_params = vs \<rparr> g
    | Cmd ms cid \<Rightarrow> Refused [])"
| "as_script cs (ILeft g) = Left g"
| "as_script cs (IRefused es) = Refused es"

lemma strip_words [simp]: "cmd_words (strip c) = i_words c" "cmd_id (strip c) = i_id c"
  by (cases c; simp)+

lemma ioffer_script:
  "offer aft fac up line (map strip cs) errs g =
   obind (ioffer aft fac up line (length pre) cs errs g) (\<lambda>r. Some (Inr (as_script (pre @ cs) r)))"
proof (induction cs arbitrary: pre errs)
  case (Cons c cs)
  show ?case
  proof (cases "cmd_makeAction aft fac (i_words c) (i_id c) up line g")
    case (Some o1)
    show ?thesis
    proof (cases o1)
      case (Inr a)
      show ?thesis
      proof (cases a)
        case (Failed st n)
        with Some Inr Cons.IH[of "errs @ [(st, n)]" "pre @ [c]"] show ?thesis by simp
      qed (use Some Inr in \<open>cases c; simp\<close>)+
    qed (use Some in simp)
  qed simp
qed simp

lemma cleanup_rep: "vty_rep ([], []) (vty_cleanup v)"
  using empty_rep[of v] by (simp add: vty_rep_def vty_cleanup_def)

lemma node_run_typed:
  assumes "list_all types ks" "length ks \<le> 512"
  shows "\<exists>v'. vty_get_line v' = Inr (map char_of_byte ks) \<and>
    node_run b4 aft fac (f # fs) hs (ks @ 13 # bs, vty_cleanup v, s) =
      obind (node_key b4 aft fac T_KEY_EXECUTE_COMMAND f fs hs (bs, v', s))
        (\<lambda>(frs', hs', g'). node_run b4 aft fac frs' hs' g')"
proof -
  have ed: "list_all edits ks" using assms(1) by (auto simp: list_all_iff types_def)
  from treadstr_keys[OF ed cleanup_rep, of "13 # bs" v] assms(2) obtain v' where
    v': "treadstr (ks @ 13 # bs) (vty_cleanup v) = treadstr (13 # bs) v'" "vty_rep (fold text_key ks ([], [])) v'"
    by (auto simp: text_len_def)
  have "vty_get_line v' = Inr (map char_of_byte ks)" using rep_line[OF v'(2)] fold_types[OF assms(1), of "[]"] by simp
  moreover have "node_run b4 aft fac (f # fs) hs (ks @ 13 # bs, vty_cleanup v, s) =
      obind (node_key b4 aft fac T_KEY_EXECUTE_COMMAND f fs hs (bs, v', s)) (\<lambda>(frs', hs', g'). node_run b4 aft fac frs' hs' g')"
    by (subst node_run.simps) (simp add: v'(1) treadstr_cr)
  ultimately show ?thesis by blast
qed

text \<open>The node a line enters: the first command that does not refuse the line.\<close>

lemma ioffer_entered:
  "ioffer aft fac up line k cs errs g = Some (Inr (IEntered i vs g')) \<Longrightarrow>
   k \<le> i \<and> i < k + length cs \<and> (\<exists>ms hl cid ivs mk ds. cs ! (i - k) = INode ms hl cid ivs mk ds) \<and>
   (\<exists>es. ioffer aft fac up line k (take (i - k) cs) errs g = Some (Inr (IRefused es)))"
proof (induction cs arbitrary: k errs)
  case (Cons c cs)
  obtain a where a: "cmd_makeAction aft fac (i_words c) (i_id c) up line g = Some (Inr a)"
    using Cons.prems by (auto simp: obind_def split: option.splits sum.splits)
  show ?case
  proof (cases a)
    case (Failed st n)
    then have "ioffer aft fac up line (k + 1) cs (errs @ [(st, n)]) g = Some (Inr (IEntered i vs g'))"
      using Cons.prems a by simp
    note IH = Cons.IH[OF this]
    then obtain d where d: "i - k = Suc d" "i - Suc k = d" using Suc_diff_Suc[of k i] by force
    from IH show ?thesis using a Failed by (simp add: d)
  qed (use Cons.prems a in \<open>auto split: icmd.splits\<close>)
qed simp

lemma script_entered:
  assumes "offer aft fac up line (map strip cs) [] g = Some (Inr (Entered new g'))"
  shows "\<exists>i ms hl cid ivs mk ds. i < length cs \<and> cs ! i = INode ms hl cid ivs mk ds \<and>
    new = \<lparr> fr_children = map strip ds, fr_params = fr_params new \<rparr> \<and>
    ioffer aft fac up line 0 cs [] g = Some (Inr (IEntered i (fr_params new) g')) \<and>
    (\<exists>es. offer aft fac up line (map strip (take i cs)) [] g = Some (Inr (Refused es)))"
proof -
  have sc: "offer aft fac up line (map strip ds) [] g = obind (ioffer aft fac up line 0 ds [] g) (\<lambda>r. Some (Inr (as_script ds r)))" for ds
    using ioffer_script[of aft fac up line ds "[]" g "[]"] by simp
  from assms obtain r where r: "ioffer aft fac up line 0 cs [] g = Some (Inr r)" "as_script cs r = Entered new g'"
    unfolding sc by (auto simp: obind_def split: option.splits sum.splits)
  then obtain i vs g2 where i: "r = IEntered i vs g2" by (cases r) auto
  from ioffer_entered[OF r(1)[unfolded i]] obtain ms hl cid ivs mk ds es where
    c: "i < length cs" "cs ! i = INode ms hl cid ivs mk ds"
    "ioffer aft fac up line 0 (take i cs) [] g = Some (Inr (IRefused es))" by auto
  have n: "new = \<lparr> fr_children = map strip ds, fr_params = vs \<rparr>" "g2 = g'" using r(2) c(2) by (auto simp: i)
  have "offer aft fac up line (map strip (take i cs)) [] g = Some (Inr (Refused es))" unfolding sc c(3) by simp
  with c r(1) n show ?thesis by (auto simp: i)
qed

text \<open>C13: a line typed at a node, however deep, and ended by the carriage return has the effect it has in a script. Its text
is what was typed and it is offered to the same commands: when they do not return or fault, so does the terminal. After a
command was executed the node reads on. After the command that leaves the node, the node above it reads on, and above the
outermost node the terminal is done. A line that enters a node, which is the first command that does not refuse the line, makes
a new node whose commands are those the script goes on with and whose values are the same; it has its own place in the tree and
its prompt in front of those above, and returns to the nodes it was entered from. A line that all commands refuse reports the
same errors, where the script ends with an error, and the node reads on. In all cases the line is in the history of the node.\<close>

theorem typed_as_scripted:
  assumes "list_all types ks" "length ks \<le> 512"
  shows "\<exists>v'. vty_get_line v' = Inr (map char_of_byte ks) \<and>
    (let line = map char_of_byte ks;
         run = node_run b4 aft fac (f # fs) hs (ks @ 13 # bs, vty_cleanup v, s);
         script = (\<lambda>cs. offer aft fac (if_params f) line (map strip cs) [] (bs, v', s));
         hs' = hs(if_path f := insertHistory line (hs (if_path f)));
         go_on = (\<lambda>top below g. obind (Some (ready top g)) (node_run b4 aft fac (top # below) hs'))
     in (script (if_children f) = None \<longrightarrow> run = None) \<and>
        (\<forall>e. script (if_children f) = Some (Inl e) \<longrightarrow> run = Some (Inl e)) \<and>
        (\<forall>g. script (if_children f) = Some (Inr (Taken g)) \<longrightarrow> run = go_on f fs g) \<and>
        (\<forall>g. script (if_children f) = Some (Inr (Left g)) \<longrightarrow>
           run = (case fs of [] \<Rightarrow> Some (Inr g) | p # ps \<Rightarrow> go_on p ps g)) \<and>
        (\<forall>new g. script (if_children f) = Some (Inr (Entered new g)) \<longrightarrow>
           (\<exists>i ms hl cid ivs mk ds es. i < length (if_children f) \<and> if_children f ! i = INode ms hl cid ivs mk ds \<and>
              script (take i (if_children f)) = Some (Inr (Refused es)) \<and> fr_children new = map strip ds \<and>
              run = go_on \<lparr> if_path = if_path f @ [i], if_prompts = (ivs, mk) # if_prompts f, if_children = ds,
                            if_params = fr_params new \<rparr> (f # fs) g)) \<and>
        (\<forall>es. script (if_children f) = Some (Inr (Refused es)) \<longrightarrow>
           run = obind (Some (report (if_prompts f) es v')) (\<lambda>w. go_on f fs (bs, w, s))))"
proof -
  let ?line = "map char_of_byte ks" and ?cs = "if_children f"
  from node_run_typed[OF assms, of b4 aft fac f fs hs bs v s] obtain v' where
    v': "vty_get_line v' = Inr ?line"
    "node_run b4 aft fac (f # fs) hs (ks @ 13 # bs, vty_cleanup v, s) =
      obind (node_key b4 aft fac T_KEY_EXECUTE_COMMAND f fs hs (bs, v', s)) (\<lambda>(frs', hs', g'). node_run b4 aft fac frs' hs' g')" by blast
  define hs' where "hs' = hs(if_path f := insertHistory ?line (hs (if_path f)))"
  let ?g = "(bs, v', s)"
  let ?r = "ioffer aft fac (if_params f) ?line 0 ?cs [] ?g"
  let ?run = "node_run b4 aft fac (f # fs) hs (ks @ 13 # bs, vty_cleanup v, s)"
  have run: "?run = obind ?r (\<lambda>r. case r of
      ITaken g' \<Rightarrow> obind (Some (ready f g')) (node_run b4 aft fac (f # fs) hs')
    | IEntered i vs g' \<Rightarrow> obind (Some (child_frame f i vs)) (\<lambda>f'. obind (Some (ready f' g')) (node_run b4 aft fac (f' # f # fs) hs'))
    | ILeft g' \<Rightarrow> (case fs of [] \<Rightarrow> Some (Inr g') | p # ps \<Rightarrow> obind (Some (ready p g')) (node_run b4 aft fac (p # ps) hs'))
    | IRefused es \<Rightarrow> obind (Some (report (if_prompts f) es v')) (\<lambda>w. obind (Some (ready f (bs, w, s))) (node_run b4 aft fac (f # fs) hs')))"
  proof -
    have "node_run b4 aft fac [] h g = Some (Inr g)" for h g by (subst node_run.simps) simp
    then show ?thesis
      unfolding v'(2) node_key_def
      by (simp add: v'(1) Let_def hs'_def)
        (auto simp: obind_def hs'_def split: option.splits sum.splits ioffered.splits list.splits)
  qed
  have sc: "offer aft fac (if_params f) ?line (map strip ?cs) [] ?g = obind ?r (\<lambda>r. Some (Inr (as_script ?cs r)))"
    using ioffer_script[of aft fac "if_params f" ?line ?cs "[]" ?g "[]"] by simp
  have none: "offer aft fac (if_params f) ?line (map strip ?cs) [] ?g = None \<Longrightarrow> ?r = None"
    and fault: "\<And>e. offer aft fac (if_params f) ?line (map strip ?cs) [] ?g = Some (Inl e) \<Longrightarrow> ?r = Some (Inl e)"
    and other: "\<And>o1. offer aft fac (if_params f) ?line (map strip ?cs) [] ?g = Some (Inr o1) \<Longrightarrow>
      \<exists>r. ?r = Some (Inr r) \<and> as_script ?cs r = o1"
    unfolding sc by (auto simp: obind_def split: option.splits sum.splits)
  have taken: "?r = Some (Inr (ITaken g))" if "offer aft fac (if_params f) ?line (map strip ?cs) [] ?g = Some (Inr (Taken g))" for g
    using other[OF that] by (auto split: cmd.splits elim!: as_script.elims)
  have left: "?r = Some (Inr (ILeft g))" if "offer aft fac (if_params f) ?line (map strip ?cs) [] ?g = Some (Inr (Left g))" for g
    using other[OF that] by (auto split: cmd.splits elim!: as_script.elims)
  have refused: "?r = Some (Inr (IRefused es))" if o: "offer aft fac (if_params f) ?line (map strip ?cs) [] ?g = Some (Inr (Refused es))" for es
  proof -
    from other[OF o] obtain r where r: "?r = Some (Inr r)" "as_script ?cs r = Refused es" by blast
    show ?thesis
    proof (cases r)
      case (IEntered i vs g)
      with ioffer_entered[of aft fac "if_params f" ?line 0 ?cs "[]" ?g i vs g] r show ?thesis by auto
    qed (use r in auto)
  qed
  have entered: "\<exists>i ms hl cid ivs mk ds es. i < length ?cs \<and> ?cs ! i = INode ms hl cid ivs mk ds \<and>
      offer aft fac (if_params f) ?line (map strip (take i ?cs)) [] ?g = Some (Inr (Refused es)) \<and>
      fr_children new = map strip ds \<and>
      ?run = obind (Some (ready \<lparr> if_path = if_path f @ [i], if_prompts = (ivs, mk) # if_prompts f, if_children = ds,
          if_params = fr_params new \<rparr> g)) (node_run b4 aft fac (\<lparr> if_path = if_path f @ [i], if_prompts = (ivs, mk) # if_prompts f,
          if_children = ds, if_params = fr_params new \<rparr> # f # fs) hs')"
    if o: "offer aft fac (if_params f) ?line (map strip ?cs) [] ?g = Some (Inr (Entered new g))" for new g
  proof -
    from script_entered[OF o] obtain i ms hl cid ivs mk ds es where
      c: "i < length ?cs" "?cs ! i = INode ms hl cid ivs mk ds" "new = \<lparr> fr_children = map strip ds, fr_params = fr_params new \<rparr>"
      "?r = Some (Inr (IEntered i (fr_params new) g))"
      "offer aft fac (if_params f) ?line (map strip (take i ?cs)) [] ?g = Some (Inr (Refused es))" by blast
    have "fr_children new = map strip ds" by (subst c(3)) simp
    with c(1,2,5) show ?thesis unfolding run c(4) by (auto simp: child_frame_def)
  qed
  show ?thesis
    unfolding Let_def hs'_def[symmetric]
    using v'(1) none fault taken left refused entered by (intro exI[of _ v']) (simp add: run)
qed

definition leave_frame :: iframe where
  "leave_frame = \<lparr> if_path = [], if_prompts = [], if_children = [ICmd [''Exit''] [] ''exitCMDid''], if_params = [] \<rparr>"

lemma typed_as_scripted_witness:
  "\<exists>v'. node_run NUL [] (\<lambda>_ _ _ _ g. Some (Inr (True, g))) [leave_frame] (\<lambda>_. no_history)
     ([101, 120, 105, 116] @ [13, 7], vty_cleanup a_vty, ()) = Some (Inr ([7], v', ()))"
proof -
  have c: "char_of_byte 101 = CHR ''e''" "char_of_byte 120 = CHR ''x''" "char_of_byte 105 = CHR ''i''" "char_of_byte 116 = CHR ''t''"
    using char_of_byte_of_char[of "CHR ''e''"] char_of_byte_of_char[of "CHR ''x''"]
      char_of_byte_of_char[of "CHR ''i''"] char_of_byte_of_char[of "CHR ''t''"] by (simp_all add: byte_of_char_def code_def)
  have t: "list_all types [101, 120, 105, 116]" by (simp add: types_def edits_def byte_key_def control_key_def)
  have p: "parseCommand [''Exit''] ''exit'' = Params []" by code_simp
  have "check_values [] ws [''Exit''] [] = Inr None" for ws by (cases ws) (auto simp: is_value_def split: list.splits)
  then have m: "cmd_makeAction [] (\<lambda>_ _ _ _ g. Some (Inr (True, g))) [''Exit''] ''exitCMDid'' [] ''exit'' g = Some (Inr (Exit g))" for g
    by (simp add: cmd_makeAction_def p)
  from typed_as_scripted[OF t, of NUL "[]" "\<lambda>_ _ _ _ g. Some (Inr (True, g))" leave_frame "[]" "\<lambda>_. no_history" "[7]" a_vty "()"]
  show ?thesis by (auto simp: c m Let_def leave_frame_def)
qed

section \<open>History\<close>

definition history_ok :: "history \<Rightarrow> bool" where
  "history_ok h = (distinct (h_lines h) \<and> length (h_lines h) \<le> 10 \<and> h_at h \<le> length (h_lines h))"

lemma insertHistory_ok: "history_ok h \<Longrightarrow> history_ok (insertHistory s h)"
  using length_filter_le[of "\<lambda>x. x \<noteq> s" "tl (h_lines h)"]
  by (auto simp: history_ok_def insertHistory_def Let_def distinct_tl split: if_splits)

lemma getHistory_ok: "history_ok h \<Longrightarrow> getHistory path nxt h v = Inr (h', v') \<Longrightarrow> history_ok h'"
  by (cases "h_lines h") (auto simp: history_ok_def getHistory_def Let_def split: if_splits)

text \<open>Whatever is typed, the history of a node keeps at most ten lines, no line twice, and its place inside them; the
line just typed is one of them.\<close>

lemma history_kept:
  assumes "history_ok h"
  shows "history_ok (insertHistory s h) \<and> s \<in> set (h_lines (insertHistory s h)) \<and>
    (\<forall>path nxt v h' v'. getHistory path nxt h v = Inr (h', v') \<longrightarrow> history_ok h' \<and> h_lines h' = h_lines h)"
proof -
  have "s \<in> set (h_lines (insertHistory s h))" by (auto simp: insertHistory_def Let_def split: if_splits)
  moreover have "h_lines h' = h_lines h" if "getHistory path nxt h v = Inr (h', v')" for path nxt v h' v'
    using that by (auto simp: getHistory_def Let_def split: if_splits)
  ultimately show ?thesis using assms insertHistory_ok getHistory_ok by blast
qed

section \<open>Keys that fault\<close>

text \<open>A word that no command begins with: the first of its words can neither be it nor become it.\<close>

definition unknown_word :: "string \<Rightarrow> icmd \<Rightarrow> bool" where
  "unknown_word w c = (case i_words c of [] \<Rightarrow> True | m # ms \<Rightarrow> \<not> is_value m \<and> \<not> matchNstrict w m \<and> \<not> iprefix w m)"

lemma plain_line:
  assumes "token_ok (Plain w)" "length w \<le> 298"
  shows "the_line w = w" "split_line w = [(0, length w)]"
  using the_line_words[of "[Plain w]" 0] split_line_words[of "[Plain w]" 0] assms by simp_all

lemma no_help:
  assumes "token_ok (Plain w)" "length w \<le> 298" "unknown_word w c"
  shows "\<not> makeHelp uc w c"
  using assms plain_line[OF assms(1,2)]
  by (cases "i_words c") (auto simp: makeHelp_def unknown_word_def partial_word_def Let_def split: option.splits)

lemma no_help_entries: "\<forall>c \<in> set cs. \<not> makeHelp uc w c \<Longrightarrow> help_entries uc w cs = Inr []"
  by (induction cs) auto

text \<open>Two keys lose the terminal: the question mark after a word with which no command of the node begins (the longest
word is looked for in an empty table), and the tabulator after a word that is longer than the only command it matches (the
rest of the command is read behind its end).\<close>

lemma help_and_completion_fault:
  assumes "token_ok (Plain w)" "length w \<le> 298" "vty_get_line v = Inr w" "vtylinepos v = int (length w)"
  shows "((\<forall>c \<in> set cs. unknown_word w c) \<longrightarrow> makeHelpNode b4 cs v = Inl OutOfBounds) \<and>
    (\<forall>m hs cid. matchNstrict w m \<and> \<not> is_value m \<and> length m < length w \<longrightarrow>
      completeNodeCommand b4 path [ICmd [m] hs cid] v = Some (Inl OutOfBounds))"
proof (intro conjI impI allI)
  assume "\<forall>c \<in> set cs. unknown_word w c"
  then show "makeHelpNode b4 cs v = Inl OutOfBounds"
    using assms no_help_entries[of cs _ w] no_help[OF assms(1,2)] by (simp add: makeHelpNode_def)
next
  fix m hs cid
  assume m: "matchNstrict w m \<and> \<not> is_value m \<and> length m < length w"
  note l = plain_line[OF assms(1,2)]
  have u: "cursor_word b4 w (int (length w)) = 0" by (simp add: cursor_word_def l)
  have r: "completeCommand 0 w [m] = Completed (length w) m" using m by (simp add: completeCommand_def l Let_def)
  have mv: "vty_move_to (int (length w)) v = Some (Inr v)"
    using assms(4) by (simp add: vty_move_to_def steps_to.simps)
  have "extend_word (length w, m) [(length w, m)] 0 v = Inl OutOfBounds" using m by (simp add: extend_word.simps)
  then show "completeNodeCommand b4 path [ICmd [m] hs cid] v = Some (Inl OutOfBounds)"
    by (subst completeNodeCommand.simps) (simp add: assms(3,4) u r Let_def l mv)
qed

text \<open>The keys of the history that step before its first line: the next line and then the previous one, as the first keys.\<close>

lemma history_before_first:
  "getHistory path False \<lparr> h_lines = [s], h_at = 1 \<rparr> v = Inr r \<Longrightarrow> False"
  by (auto simp: getHistory_def Let_def)

definition typed_vty :: "string \<Rightarrow> vty" where
  "typed_vty w = a_vty \<lparr> vty_line := padded w, vtylinepos := int (length w) \<rparr>"

lemma typed_line: "line_ok w \<Longrightarrow> vty_get_line (typed_vty w) = Inr w \<and> vtylinepos (typed_vty w) = int (length w)"
  by (simp add: typed_vty_def vty_get_line_def cell_str_padded0)

lemma help_and_completion_fault_witness:
  "makeHelpNode NUL [ICmd [''Exit''] [''leave'', ''enter''] ''exitCMDid''] (typed_vty ''qq'') = Inl OutOfBounds \<and>
   completeNodeCommand NUL [] [ICmd [''Exit''] [''leave'', ''enter''] ''exitCMDid''] (typed_vty ''exits'') = Some (Inl OutOfBounds)"
proof -
  have m: "unknown_word ''qq'' (ICmd [''Exit''] [''leave'', ''enter''] ''exitCMDid'')" "matchNstrict ''exits'' ''Exit''" "\<not> is_value ''Exit''"
    by code_simp+
  have l: "line_ok ''qq''" "line_ok ''exits''" by (simp_all add: line_ok_def LF_def)
  show ?thesis
    using help_and_completion_fault[of "''qq''" "typed_vty ''qq''" "[ICmd [''Exit''] [''leave'', ''enter''] ''exitCMDid'']" NUL "[]"]
      help_and_completion_fault[of "''exits''" "typed_vty ''exits''" "[]" NUL "[]"] m typed_line[OF l(1)] typed_line[OF l(2)]
    by simp
qed

lemma history_kept_witness:
  "history_ok (insertHistory ''show'' \<lparr> h_lines = [''exit''], h_at = 0 \<rparr>) \<and>
   ''show'' \<in> set (h_lines (insertHistory ''show'' \<lparr> h_lines = [''exit''], h_at = 0 \<rparr>))"
  using history_kept[of "\<lparr> h_lines = [''exit''], h_at = 0 \<rparr>" "''show''"] by (simp add: history_ok_def)

end
