(* ===== verification/Terminal.thy ===== *)
theory Terminal
  imports CoreData CommandNode
begin

text \<open>
  The commands of the terminal (\<^verbatim>\<open>src/Terminal.cc\<close>): who may use it, what each command does to the objects of the
  server and to the databases, what it asks and what it shows, a whole session, and a configuration read as text.
  Everything a command changes is in \<open>tstate\<close>; it is passed along with what arrives and the line editor.
\<close>

section \<open>State and surroundings\<close>

text \<open>\<open>ts_drops\<close>: sessions the modules of devices were told to drop: address, community, port.\<close>

record 's tstate =
  ts_core :: core
  ts_db :: 's
  ts_terms :: "int sink list"
  ts_lists :: "log_list list"
  ts_user :: string
  ts_files :: "file_op list"
  ts_drops :: "(string \<times> string \<times> string) list"

text \<open>\<open>w_freed\<close>: what is read through the pointer to the copy of the line that three commands keep after it was freed.\<close>

record 's world =
  w_out :: outside
  w_env :: env
  w_eng :: "dbmod \<Rightarrow> 's engine"
  w_rx :: regex
  w_now :: int
  w_ctime :: string
  w_tm :: tm
  w_dir :: string
  w_handle :: int
  w_freed :: "string \<Rightarrow> string"

type_synonym 's tio = "'s tstate io"

definition tw :: "string \<Rightarrow> 's tio \<Rightarrow> 's tio cres" where
  "tw s g = (case g of (ins, v, st) \<Rightarrow> cbind (twrite s v) (\<lambda>v'. Inr (ins, v', st)))"

fun tws :: "string list \<Rightarrow> 's tio \<Rightarrow> 's tio cres" where
  "tws [] g = Inr g"
| "tws (s # ss) g = cbind (tw s g) (tws ss)"

definition pg :: "string \<Rightarrow> 's tio \<Rightarrow> 's tio cres option" where
  "pg s g = (case g of (ins, v, st) \<Rightarrow> obind (pager s 0 ins v) (\<lambda>(ins', v'). Some (Inr (ins', v', st))))"

definition rd :: "'s tio \<Rightarrow> (string \<times> 's tio) cres option" where
  "rd g = (case g of (ins, v, st) \<Rightarrow> obind (readstr ins v) (\<lambda>(ins', v').
     Some (cbind (vty_get_line v') (\<lambda>s. Inr (s, ins', v', st)))))"

definition with_core :: "(core \<Rightarrow> core) \<Rightarrow> 's tio \<Rightarrow> 's tio" where
  "with_core f g = (case g of (ins, v, st) \<Rightarrow> (ins, v, st \<lparr> ts_core := f (ts_core st) \<rparr>))"

abbreviation st_of :: "'s tio \<Rightarrow> 's tstate" where "st_of g \<equiv> snd (snd g)"

text \<open>Copying with \<^verbatim>\<open>strncpy\<close> and one byte less than the array holds: a longer string has no terminator.\<close>

definition strncpy_99 :: "string \<Rightarrow> string cres" where
  "strncpy_99 s = (if length s < 99 then Inr s else Inl Indeterminate)"

section \<open>Users and devices\<close>

definition HT :: char where "HT = CHR 0x09"

definition help_text :: string where
  "help_text = LF # ''  ^P'' @ [HT, HT] @ ''Previous command in list.'' @ [LF] @ ''  ^N'' @ [HT, HT] @ ''Next command in list.'' @ [LF, LF] @
     ''  ^F'' @ [HT, HT] @ ''Move forward one character'' @ [LF] @ ''  ^B'' @ [HT, HT] @ ''Move backward one character'' @ [LF] @
     ''  ^A'' @ [HT, HT] @ ''Move to the begining of the line.'' @ [LF] @ ''  ^E'' @ [HT, HT] @ ''Move to the end of the line.'' @ [LF, LF] @
     ''  ^H'' @ [HT, HT] @ ''Delete backward character.'' @ [LF] @ ''  ^D'' @ [HT, HT] @ ''Delete character in cursor position.'' @ [LF, LF] @
     ''  ^U'' @ [HT, HT] @ ''Clear line from home to cursor position.'' @ [LF, LF] @ ''  ^K'' @ [HT, HT] @ ''Clear line.'' @ [LF] @
     ''  <tab>'' @ [HT, HT] @ ''Compleate command.'' @ [LF]"

text \<open>The table has 30000 bytes; every session that is looked at is assigned to a local first (see \<open>dus_gets\<close>).\<close>

fun show_sessions :: "session \<Rightarrow> session list \<Rightarrow> nat \<Rightarrow> user_data list \<Rightarrow> session \<times> nat \<times> string \<times> user_data list" where
  "show_sessions none [] k u = (none, k, [], ses_assign none u)"
| "show_sessions none (s # c) k u =
     (let u' = ses_assign s (ses_assign s u);
          str = snprintf_s 200 (ses_username s @ (if 6 < length (ses_username s) then [HT, HT] else [HT, HT, HT]) @ ses_port s @
                  [HT] @ ses_phone s @ [HT] @ ip_get (ses_addr s) @ [LF]);
          k' = k + length str
      in if 30000 \<le> k' then (s, k', [], u')
         else case show_sessions none c k' u' of (l, k'', t, u'') \<Rightarrow> (l, k'', str @ t, u''))"

fun show_devices :: "session \<Rightarrow> session \<Rightarrow> device list \<Rightarrow> nat \<Rightarrow> user_data list \<Rightarrow> session \<times> string \<times> user_data list" where
  "show_devices none l [] k u = (l, [], u)"
| "show_devices none l (d # ds) k u =
     (let str = snprintf_s 200 ('' device: '' @ hname (hostaddr d) @ '' ('' @ dev_descr d @ '')'' @ [LF]); k' = k + length str
      in if 30000 \<le> k' then (l, [], u)
         else case show_sessions none (cusr d) k' u of (l', k'', t, u') \<Rightarrow>
              case show_devices none l' ds k'' u' of (l'', t', u'') \<Rightarrow> (l'', str @ t @ t', u''))"

definition users_head :: string where
  "users_head = LF # '' Username'' @ [HT, HT] @ ''Port'' @ [HT] @ ''Phone'' @ [HT, HT] @ ''IP Addr'' @ [LF]"

definition cmdShowUsr :: "'s world \<Rightarrow> 's tio \<Rightarrow> 's tio cres option" where
  "cmdShowUsr w g =
     (let none = absent_session (out_dns (w_out w)) (w_now w); n = c_net (ts_core (st_of g))
      in case show_devices none none (nas n) (length users_head) (ud n) of (l, t, u) \<Rightarrow>
         obind (pg (users_head @ t) g) (\<lambda>g'.
           Some (Inr (with_core (\<lambda>c. c \<lparr> c_net := (c_net c) \<lparr> ud := ses_destroy l u \<rparr> \<rparr>) g'))))"

definition nas_head :: string where
  "nas_head = LF # '' Nas'' @ [HT, HT, HT] @ ''IP'' @ [HT, HT] @ ''Status'' @ [LF]"

definition cmdShowNas :: "'s tio \<Rightarrow> 's tio cres option" where
  "cmdShowNas g = pg (nas_head @ concat (map (\<lambda>d. CHR '' '' # dev_descr d @ [HT, HT] @ hname (hostaddr d) @ [HT, HT] @
     (if dev_status d then ''Up'' else ''Down'') @ [LF]) (nas (c_net (ts_core (st_of g)))))) g"

text \<open>\<^verbatim>\<open>Snmp::drop\<close>: a device that is known and has a community.\<close>

definition snmp_drop :: "dns \<Rightarrow> string \<Rightarrow> string \<Rightarrow> 's tstate \<Rightarrow> 's tstate" where
  "snmp_drop dns n p st =
     (let ip = ip_fill dns n; cmn = getCommunity ip (c_net (ts_core st))
      in if length n = 0 \<or> length p = 0 \<or> length cmn = 0 then st
         else st \<lparr> ts_drops := ts_drops st @ [(ip_get ip, cmn, portConvert p)] \<rparr>)"

text \<open>The number of the session is never increased: the first session of a device is looked at for ever.\<close>

partial_function (option) clear_loop :: "dns \<Rightarrow> string \<Rightarrow> device \<Rightarrow> session list \<Rightarrow> 's tstate \<Rightarrow> 's tstate option" where
  "clear_loop dns u d ss st = (case ss of
      [] \<Rightarrow> Some st
    | s # _ \<Rightarrow> clear_loop dns u d ss
        (if ses_username s = u then snmp_drop dns (ip_get (hostaddr d)) (ses_port s) st else st))"

fun clear_devices :: "dns \<Rightarrow> string \<Rightarrow> device list \<Rightarrow> 's tstate \<Rightarrow> 's tstate option" where
  "clear_devices dns u [] st = Some st"
| "clear_devices dns u (d # ds) st = (case clear_loop dns u d (cusr d) st of None \<Rightarrow> None | Some st' \<Rightarrow> clear_devices dns u ds st')"

definition cmdClearUsr :: "'s world \<Rightarrow> string list \<Rightarrow> 's tio \<Rightarrow> 's tio cres option" where
  "cmdClearUsr w ps g = obind (Some (cbind (first_param ps) strncpy_99)) (\<lambda>u.
     case clear_devices (out_dns (w_out w)) u (nas (c_net (ts_core (st_of g)))) (st_of g) of
       None \<Rightarrow> None
     | Some st' \<Rightarrow> Some (tw (snprintf_s 100 (''User '' @ u @ '' have dropped'' @ [LF])) (fst g, fst (snd g), st')))"

definition second_param :: "string list \<Rightarrow> string cres" where
  "second_param ps = (if length ps < 2 then Inl OutOfBounds else Inr (ps ! 1))"

definition cmdClearNas :: "'s world \<Rightarrow> string list \<Rightarrow> 's tio \<Rightarrow> 's tio cres" where
  "cmdClearNas w ps g = cbind (cbind (first_param ps) strncpy_99) (\<lambda>n. cbind (cbind (second_param ps) strncpy_99) (\<lambda>p.
     cbind (isIp (Some n) [NUL]) (\<lambda>ok.
       if \<not> ok then tw (''Nas should be a valid IP address'' @ [LF]) g
       else tw (snprintf_s 100 (''Nas '' @ n @ '' port '' @ p @ '' have dropped'' @ [LF]))
              (fst g, fst (snd g), snmp_drop (out_dns (w_out w)) n p (st_of g)))))"

section \<open>Log messages on the terminal\<close>

definition facility_hit :: "string \<Rightarrow> string \<Rightarrow> bool" where
  "facility_hit f nm = (matchNstrict f ''ALl'' \<or> match (Some f) (Some nm))"

definition debug_switch :: "'s world \<Rightarrow> string \<Rightarrow> (int \<Rightarrow> int list \<Rightarrow> int list) \<Rightarrow> string \<Rightarrow> 's tio \<Rightarrow> 's tio cres" where
  "debug_switch w f change word g =
     (let hits = filter (\<lambda>(n, nm, d). facility_hit f nm) facilities
      in cbind (tws (map (\<lambda>(n, nm, d). snprintf_s 100 (LF # ''debug for '' @ lower nm @ '' now is '' @ word)) hits) g) (\<lambda>(ins, v, st).
           Inr (ins, v, st \<lparr> ts_terms := fold (\<lambda>(n, nm, d). term_change (w_handle w) (change (fnum nm))) hits (ts_terms st) \<rparr>)))"

definition cmdDebug :: "'s world \<Rightarrow> 's tio \<Rightarrow> 's tio cres" where
  "cmdDebug w g = cbind (vty_get_line (fst (snd g))) (\<lambda>l. cbind (split (Some l) 1) (\<lambda>f. debug_switch w f fc_add ''ON'' g))"

definition cmdNoDebug :: "'s world \<Rightarrow> 's tio \<Rightarrow> 's tio cres" where
  "cmdNoDebug w g = cbind (vty_get_line (fst (snd g))) (\<lambda>l. cbind (cbind (split (Some l) 2) strncpy_99) (\<lambda>f.
     debug_switch w f fc_del ''OFF'' g))"

section \<open>Databases\<close>

definition cmdDbCreate :: "'s world \<Rightarrow> 's tio \<Rightarrow> 's tio cres option" where
  "cmdDbCreate w g = obind (Some (cdb_create_all (w_eng w) (c_dbs (ts_core (st_of g))) (ts_db (st_of g)))) (\<lambda>(out, s).
     pg out (fst g, fst (snd g), (st_of g) \<lparr> ts_db := s \<rparr>))"

text \<open>The first table whose mask the word matches; with no database there is nobody to ask.\<close>

definition table_no :: "string \<Rightarrow> tdb list \<Rightarrow> nat option cres" where
  "table_no name ts = cbind (cdb_first ts) (\<lambda>_. Inr (find (\<lambda>i. match (Some name) (Some (get_table_mask i)))
     [0..<length (takeWhile (\<lambda>t. 0 < length (tb_name t)) db_list)]))"

text \<open>One question: the prompt on a new line, the answer cut at 99 characters.\<close>

definition ask :: "string \<Rightarrow> 's tio \<Rightarrow> (string \<times> 's tio) cres option" where
  "ask prompt g = obind (Some (tws [[LF], snprintf_s 100 prompt] g)) (\<lambda>g1. obind (rd g1) (\<lambda>(s, g2). Some (Inr (snprintf_s 100 s, g2))))"

text \<open>Questions for fields: field, prompt, answer when there is none. The answers that are not empty, with the names.\<close>

fun ask_all :: "(string \<times> string \<times> string) list \<Rightarrow> 's tio \<Rightarrow> ((string \<times> string) list \<times> 's tio) cres option" where
  "ask_all [] g = Some (Inr ([], g))"
| "ask_all ((nm, prompt, defv) # qs) g = obind (ask prompt g) (\<lambda>(s, g1).
     let a = (if length s = 0 then snprintf_s 100 defv else s)
     in obind (ask_all qs g1) (\<lambda>(as, g2). Some (Inr (if 0 < length a then (snprintf_s 100 nm, a) # as else as, g2))))"

definition sure :: "'s tio \<Rightarrow> (bool \<times> 's tio) cres option" where
  "sure g = obind (Some (tw (LF # ''Are you shure? [y/n]:'') g)) (\<lambda>g1. obind (rd g1) (\<lambda>(s, g2). Some (Inr (s = ''y'', g2))))"

definition fields_of :: "nat \<Rightarrow> nat list" where
  "fields_of t = [0..<get_field_num t]"

text \<open>The change of the databases, when it was confirmed.\<close>

definition db_change :: "'s world \<Rightarrow> (tdb list \<Rightarrow> 's \<Rightarrow> (string \<times> 's) cres) \<Rightarrow> 's tio \<Rightarrow> 's tio cres" where
  "db_change w f g = cbind (tw [LF] g) (\<lambda>g1.
     cbind (f (c_dbs (ts_core (st_of g1))) (ts_db (st_of g1))) (\<lambda>(out, s). Inr (fst g1, fst (snd g1), (st_of g1) \<lparr> ts_db := s \<rparr>)))"

text \<open>The table a command is about; without one the command ends with a message.\<close>

definition with_table :: "string \<Rightarrow> 's tio \<Rightarrow> (nat \<Rightarrow> 's tio \<Rightarrow> 's tio cres option) \<Rightarrow> 's tio cres option" where
  "with_table name g f =
     (if length name = 0 then Some (tw ''% no table name available'' g)
      else obind (Some (table_no name (c_dbs (ts_core (st_of g))))) (\<lambda>r. case r of
             None \<Rightarrow> Some (tw ''% no such table'' g)
           | Some t \<Rightarrow> f t g))"

text \<open>The second word of the line, read after the copy of the line was freed.\<close>

definition freed_word :: "'s world \<Rightarrow> 's tio \<Rightarrow> string cres" where
  "freed_word w g = cbind (vty_get_line (fst (snd g))) (\<lambda>l. cbind (split (Some (w_freed w l)) 1) (\<lambda>s. Inr (snprintf_s 32 s)))"

definition add_question :: "'s world \<Rightarrow> nat \<Rightarrow> nat \<Rightarrow> string \<times> string \<times> string" where
  "add_question w t i = (get_field_name t i,
     get_field_descr t i @ '' ['' @ (if get_field_type t i = 5 then time2iso (ev_local (w_env w)) (atoi_c (get_field_defv t i))
       else get_field_defv t i) @ '']:'',
     get_field_defv t i)"

definition cmdDbAdd :: "'s world \<Rightarrow> string list \<Rightarrow> 's tio \<Rightarrow> 's tio cres option" where
  "cmdDbAdd w wds g = obind (Some (word_no 1 wds)) (\<lambda>m. let name = snprintf_s 32 m
     in if length name = 0 then Some (tw ''% no table name available'' g)
        else with_table (lower name) g (\<lambda>t g1. obind (ask_all (map (add_question w t) (fields_of t)) g1) (\<lambda>(as, g2).
          obind (sure g2) (\<lambda>(yes, g3).
            if yes then Some (db_change w (cdb_add_data (w_env w) (w_eng w) (snprintf_s 100 (get_table_name t)) (map fst as) (map snd as)) g3)
            else Some (tw (''% add canceled'' @ [LF]) g3)))))"

definition plain_question :: "nat \<Rightarrow> nat \<Rightarrow> string \<times> string \<times> string" where
  "plain_question t i = (get_field_name t i, get_field_descr t i @ '':'', [])"

definition cmdDbDel :: "'s world \<Rightarrow> 's tio \<Rightarrow> 's tio cres option" where
  "cmdDbDel w g = obind (Some (freed_word w g)) (\<lambda>name. with_table name g (\<lambda>t g0.
     obind (Some (tw (LF # ''There are will be deleted all entries matched'' @ [LF]) g0)) (\<lambda>g1.
     obind (ask_all (map (plain_question t) (fields_of t)) g1) (\<lambda>(as, g2). obind (sure g2) (\<lambda>(yes, g3).
       if yes then Some (db_change w (cdb_del_data (w_env w) (w_eng w) (snprintf_s 100 (get_table_name t)) (map fst as) (map snd as)) g3)
       else Some (tw (''% delete canceled'' @ [LF]) g3))))))"

definition new_question :: "nat \<Rightarrow> nat \<times> string \<Rightarrow> string \<times> string \<times> string" where
  "new_question t iv = (case iv of (i, v) \<Rightarrow> (get_field_name t i, get_field_descr t i @ '' ['' @ v @ '']:'', []))"

definition cmdDbMod :: "'s world \<Rightarrow> 's tio \<Rightarrow> 's tio cres option" where
  "cmdDbMod w g = obind (Some (freed_word w g)) (\<lambda>name. with_table name g (\<lambda>t g0.
     let table = snprintf_s 100 (get_table_name t)
     in obind (Some (tw (LF # ''Entry identification data:'') g0)) (\<lambda>g1.
     obind (ask_all (map (plain_question t) (fields_of t)) g1) (\<lambda>(as, g2).
     obind (Some (cdb_sshow (w_env w) (w_eng w) table (map fst as) (map snd as) (c_dbs (ts_core (st_of g2))) (ts_db (st_of g2)))) (\<lambda>(vs, s).
     obind (Some (tw (LF # ''There are will be modifyed all entries matched'') (fst g2, fst (snd g2), (st_of g2) \<lparr> ts_db := s \<rparr>))) (\<lambda>g3.
     obind (ask_all (map (new_question t) (enumerate 0 vs)) g3) (\<lambda>(bs, g4). obind (sure g4) (\<lambda>(yes, g5).
       if yes then Some (db_change w (cdb_modify_data (w_env w) (w_eng w) table (map fst as) (map snd as) (map fst bs) (map snd bs)) g5)
       else Some (tw (LF # ''% modify command canceled'') g5)))))))))"

definition show_question :: "nat \<Rightarrow> nat \<Rightarrow> string \<times> string \<times> string" where
  "show_question t i = (get_field_name t i, get_field_descr t i @ '' ('' @ get_field_name t i @ ''):'', [])"

definition cmdDbShow :: "'s world \<Rightarrow> 's tio \<Rightarrow> 's tio cres option" where
  "cmdDbShow w g = obind (Some (freed_word w g)) (\<lambda>name. with_table name g (\<lambda>t g0.
     let table = snprintf_s 100 (get_table_name t)
     in obind (Some (tw (LF # ''There are will be shown all entryes matched (table='' @ table @ '')'') g0)) (\<lambda>g1.
     obind (ask_all (map (show_question t) (fields_of t)) g1) (\<lambda>(as, g2). obind (sure g2) (\<lambda>(yes, g3).
       if yes then obind (Some (tw [LF] g3)) (\<lambda>g4.
         obind (cdb_show (w_env w) (w_eng w) table (map fst as) (map snd as) (c_dbs (ts_core (st_of g4))) (ts_db (st_of g4))) (\<lambda>(out, s).
         obind (Some (tw [LF] (fst g4, fst (snd g4), (st_of g4) \<lparr> ts_db := s \<rparr>))) (pg out)))
       else Some (tw (LF # ''% show canceled'') g3))))))"

section \<open>Configuration\<close>

definition cmdConfig :: "'s world \<Rightarrow> string list \<Rightarrow> 's tio \<Rightarrow> (bool \<times> 's tio) cres option" where
  "cmdConfig w wds g = obind (Some (word_no 0 wds)) (\<lambda>m.
     if matchNstrict m ''EXit'' then Some (Inr (True, g))
     else if match (Some m) (Some ''SHow'') then
       obind (Some (tw (LF # ''Building configuration ... '') g)) (\<lambda>g1.
         case showcf (out_dns (w_out w)) (w_ctime w) (ts_user (st_of g1)) (ts_core (st_of g1)) of
           None \<Rightarrow> None
         | Some a \<Rightarrow> obind (Some (tw (''Ok'' @ [LF, LF]) g1)) (\<lambda>g2.
             obind (if 0 < length a then pg a g2 else Some (Inr g2)) (\<lambda>g3. Some (Inr (False, g3)))))
     else if match (Some m) (Some ''WRite'') then
       obind (Some (tw (LF # ''Write config to file ... '') g)) (\<lambda>g1.
         case writecf (out_dns (w_out w)) (w_ctime w) (w_tm w) (snprintf_s 256 (w_dir w @ ''/etc/tacppd.conf''))
                (ts_user (st_of g1)) (ts_core (st_of g1)) of
           None \<Rightarrow> None
         | Some fs \<Rightarrow> obind (Some (tw (''Ok'' @ [LF]) (fst g1, fst (snd g1), (st_of g1) \<lparr> ts_files := ts_files (st_of g1) @ fs \<rparr>))) (\<lambda>g2.
             Some (Inr (False, g2))))
     else Some (Inr (False, g)))"

definition cmdConfigObject :: "'s world \<Rightarrow> object \<Rightarrow> string list \<Rightarrow> string \<Rightarrow> string list \<Rightarrow> string list \<Rightarrow> 's tio \<Rightarrow> 's tio cres option" where
  "cmdConfigObject w b wds cid ps us g =
     obind (cmd_object (w_out w) b wds cid ps us (ts_core (st_of g))) (\<lambda>c. Some (Inr (with_core (\<lambda>_. c) g)))"

section \<open>The command table\<close>

definition debug_cmds :: "string list" where
  "debug_cmds = [''deball'' @ [CHR 0x27], ''debtacacs'', ''debbilling'', ''debaaa'', ''debbd'', ''debsnmp'', ''debnetflow'',
     ''debserver'', ''debcc'', ''debpool'', ''debtrack'', ''debhttp'', ''debtip'']"

definition nodebug_cmds :: "string list" where
  "nodebug_cmds = [''debnoall'' @ [CHR 0x27], ''debnotacacs'', ''debnobilling'', ''debnoaaa'', ''debnobd'', ''debnosnmp'',
     ''debnonetflow'', ''debnoserver'', ''debnocc'', ''debnopool'', ''debnotrack'', ''debnohttp'', ''debnotip'']"

definition table_cmds :: "string \<Rightarrow> string list" where
  "table_cmds p = map ((@) p) [''user'', ''add'', ''access'', ''avp'', ''command'', ''log'', ''trfint'', ''billing'', ''billres'', ''nfuser'']"

definition config_cmds :: "string list" where
  "config_cmds = [''config'', ''confShow'', ''confWrite'', ''confExit'']"

definition stay :: "'s tio cres option \<Rightarrow> (bool \<times> 's tio) cres option" where
  "stay r = obind r (\<lambda>g. Some (Inr (False, g)))"

text \<open>An identifier without a method does nothing. Only leaving ends a node.\<close>

definition terminal_action :: "'s world \<Rightarrow> 's tstate io facility" where
  "terminal_action w wds cid ps us g =
     (if cid = ''exitCMDid'' then Some (Inr (True, g))
      else if cid \<in> set config_cmds then cmdConfig w wds g
      else case object_of cid of Some b \<Rightarrow> stay (cmdConfigObject w b wds cid ps us g)
      | None \<Rightarrow>
        stay (if cid = ''help'' then Some (tw help_text g)
          else if cid = ''shusers'' then cmdShowUsr w g
          else if cid = ''shnas'' then cmdShowNas g
          else if cid \<in> set debug_cmds then Some (cmdDebug w g)
          else if cid \<in> set nodebug_cmds then Some (cmdNoDebug w g)
          else if cid = ''dcreate'' then cmdDbCreate w g
          else if cid \<in> set (table_cmds ''dadd'') then cmdDbAdd w wds g
          else if cid \<in> set (table_cmds ''ddel'') then cmdDbDel w g
          else if cid \<in> set (table_cmds ''dmod'') then cmdDbMod w g
          else if cid \<in> set (table_cmds ''dshow'') then cmdDbShow w g
          else if cid = ''cluser'' then cmdClearUsr w ps g
          else if cid = ''clport'' then Some (cmdClearNas w ps g)
          else Some (Inr g)))"

section \<open>Sessions\<close>

definition option_bytes :: "nat \<Rightarrow> nat \<Rightarrow> string" where
  "option_bytes a b = [CHR 0xFF, char_of a, char_of b]"

definition vty_echo :: "bool \<Rightarrow> 's tio \<Rightarrow> 's tio cres" where
  "vty_echo s = tw (option_bytes (if s then 252 else 251) 1)"

definition vty_linemode :: "bool \<Rightarrow> 's tio \<Rightarrow> 's tio cres" where
  "vty_linemode s = tw (option_bytes (if s then 252 else 251) 3)"

definition vty_tset :: "'s tio \<Rightarrow> 's tio cres" where
  "vty_tset = tws [option_bytes 254 1, option_bytes 254 3, option_bytes 253 31, option_bytes 254 34]"

definition echo_here :: "bool \<Rightarrow> 's tio \<Rightarrow> 's tio" where
  "echo_here b g = (case g of (ins, v, st) \<Rightarrow> (ins, v \<lparr> local_echo := b \<rparr>, st))"

definition auth :: "'s world \<Rightarrow> string \<Rightarrow> 's tio \<Rightarrow> (bool \<times> 's tio) cres option" where
  "auth w address g =
     obind (Some (vty_echo True g)) (\<lambda>g1.
     obind (Some (tw (LF # ''TACPPD user access verification'' @ [LF, LF] @ ''Username: '') (echo_here False g1))) (\<lambda>g2.
     obind (rd g2) (\<lambda>(u, g3). obind (Some (strncpy_99 u)) (\<lambda>username.
     obind (Some (tw ''Password: '' g3)) (\<lambda>g4. obind (Some (vty_echo False g4)) (\<lambda>g5.
     obind (rd g5) (\<lambda>(p, g6). obind (Some (strncpy_99 p)) (\<lambda>pass.
       case echo_here True g6 of (ins, v, st) \<Rightarrow>
         let c = ts_core st
         in Some (Inr (mgr_check (w_rx w) (out_md5 (w_out w)) (c_access c) username pass address ''terminal'' (c_managers c),
              ins, vty_cleanup v, st \<lparr> ts_user := username \<rparr>))))))))))"

definition terms_change :: "(int sink list \<times> log_list list \<Rightarrow> int sink list \<times> log_list list) \<Rightarrow> 's tio \<Rightarrow> 's tio" where
  "terms_change f g = (case g of (ins, v, st) \<Rightarrow>
     case f (ts_terms st, ts_lists st) of (ks, ls) \<Rightarrow> (ins, v, st \<lparr> ts_terms := ks, ts_lists := ls \<rparr>))"

definition terminal_session :: "char \<Rightarrow> string \<Rightarrow> 's world \<Rightarrow> icmd \<Rightarrow> string \<Rightarrow> 's tio \<Rightarrow> 's tio cres option" where
  "terminal_session b4 aft w root address g =
     obind (Some (vty_tset g)) (\<lambda>g1. obind (auth w (snprintf_s 99 address) (echo_here False g1)) (\<lambda>(ok, g2).
       if \<not> ok then Some (tw (LF # ''Authentication failed'' @ [LF, LF]) g2)
       else obind (Some (tw (LF # ''Authentication success'' @ [LF, LF]) g2)) (\<lambda>g3.
         obind (Some (cbind (vty_linemode False (terms_change (term_add (w_handle w)) g3)) (vty_echo False))) (\<lambda>g4.
         obind (run_terminal b4 aft (terminal_action w) root (echo_here True g4)) (\<lambda>g5.
           Some (Inr (terms_change (term_del (w_handle w)) g5)))))))"

text \<open>A configuration: an error ends the reading, what was done before stays done.\<close>

definition process_text :: "string \<Rightarrow> 's world \<Rightarrow> cmd \<Rightarrow> string \<Rightarrow> 's tio \<Rightarrow> 's tio cres option" where
  "process_text aft w root s g = obind (run_text aft (terminal_action w) root s g) (\<lambda>r. case r of
      Finished g' \<Rightarrow> Some (Inr g')
    | CmdErr g' e \<Rightarrow> Some (Inr g'))"

section \<open>Lemmas\<close>

lemma length_tw_loop: "length (tw_loop j s) \<le> 2 * length s"
  by (induction j s rule: tw_loop.induct) auto

lemma tw_short:
  assumes "length s < 300"
  shows "tw s (ins, v, st) = Inr (ins, v \<lparr> tx := tx v @ tw_loop 0 (c_str s) \<rparr>, st)"
proof -
  have "length (c_str s) \<le> length s" by (simp add: c_str_def length_takeWhile_le)
  then have "length (tw_loop 0 (c_str s)) < 600" using length_tw_loop[of 0 "c_str s"] assms by linarith
  then show ?thesis by (simp add: tw_def twrite_def)
qed

text \<open>A line that is typed and ended with a carriage return.\<close>

lemma rd_typed:
  assumes "list_all types ks" "length ks \<le> 512"
  shows "\<exists>v'. rd (ks @ 13 # bs, v, st) = Some (Inr (map char_of_byte ks, bs, v', st))"
proof -
  have "list_all edits ks" using assms(1) by (auto simp: list_all_iff types_def)
  from readstr_keys[OF this assms(2), of "13 # bs" v] obtain v' where
    "readstr (ks @ 13 # bs) v = read_line (13 # bs) v'" "vty_rep (map char_of_byte ks, []) v'"
    using fold_types[OF assms(1), of "[]"] by auto
  moreover have "read_line (13 # bs) v' = Some (Inr (bs, v'))" by (subst read_line.simps) (simp add: treadstr_cr)
  ultimately show ?thesis using rep_line[of "(map char_of_byte ks, [])" v'] by (simp add: rd_def)
qed

text \<open>Steps that only write.\<close>

definition only_writes :: "('s tio \<Rightarrow> 's tio cres) \<Rightarrow> bool" where
  "only_writes f = (\<exists>k. \<forall>ins v st. f (ins, v, st) = Inr (ins, k v, st))"

lemma only_writes_tw: "length s < 300 \<Longrightarrow> only_writes (tw s)"
  unfolding only_writes_def by (intro exI[of _ "\<lambda>v. v \<lparr> tx := tx v @ tw_loop 0 (c_str s) \<rparr>"]) (simp add: tw_short)

lemma only_writes_seq: "only_writes f \<Longrightarrow> only_writes g \<Longrightarrow> only_writes (\<lambda>x. cbind (f x) g)"
  unfolding only_writes_def by (elim exE) (rename_tac k l, rule_tac x = "\<lambda>v. l (k v)" in exI, simp)

lemma only_writes_tws: "\<forall>s \<in> set ss. length s < 300 \<Longrightarrow> only_writes (tws ss)"
proof (induction ss)
  case Nil
  show ?case unfolding only_writes_def by (rule exI[of _ "\<lambda>v. v"]) simp
next
  case (Cons s ss)
  have "tws (s # ss) = (\<lambda>g. cbind (tw s g) (tws ss))" by (rule ext) simp
  then show ?case using only_writes_seq[OF only_writes_tw Cons.IH, of s] Cons.prems by simp
qed

lemma only_writes_options: "only_writes vty_tset" "only_writes (vty_echo b)" "only_writes (vty_linemode b)"
proof -
  show "only_writes vty_tset" unfolding vty_tset_def by (rule only_writes_tws) (simp add: option_bytes_def)
  show "only_writes (vty_echo b)" "only_writes (vty_linemode b)"
    unfolding vty_echo_def vty_linemode_def by (rule only_writes_tw, simp add: option_bytes_def)+
qed

text \<open>The end of a command that drops the sessions of a user.\<close>

lemma clear_loop_hangs: "clear_loop dns u d (s # ss) st = None"
proof (cases "clear_loop dns u d (s # ss) st")
  case (Some r)
  have "clear_loop dns u d xs st = Some r \<Longrightarrow> xs = [] " for xs
    by (erule clear_loop.raw_induct[where P = "\<lambda>a b c xs st r. xs = []", rotated])
      (fastforce split: list.splits)
  from this[OF Some] show ?thesis by simp
qed

lemma clear_devices_hang: "(clear_devices dns u ds st = None) = (\<exists>d \<in> set ds. cusr d \<noteq> [])"
proof (induction ds arbitrary: st)
  case (Cons d ds)
  show ?case
  proof (cases "cusr d")
    case Nil
    then have "clear_loop dns u d (cusr d) st = Some st" by (simp add: clear_loop.simps[of dns u d "[]"])
    then show ?thesis using Cons Nil by simp
  qed (simp add: clear_loop_hangs)
qed simp

section \<open>Properties\<close>

text \<open>C3: a terminal is open to a manager only. When a user and a password are typed that the list of managers does not accept,
the session ends after the two lines with everything unchanged but the name of the user that is kept for configurations; when
they are accepted the commands follow, read from what arrives next; and a name or a password of 99 to 512 characters is
copied without its end, before anything was checked.\<close>

theorem terminal_login:
  assumes "list_all types us" "list_all types ps" "length us \<le> 512" "length ps \<le> 512"
  shows "\<exists>v'. terminal_session b4 aft w root address (us @ 13 # ps @ 13 # bs, v, st) =
     (let u = map char_of_byte us; p = map char_of_byte ps; c = ts_core st; st' = st \<lparr> ts_user := u \<rparr>
      in if 99 \<le> length us \<or> 99 \<le> length ps then Some (Inl Indeterminate)
         else if mgr_check (w_rx w) (out_md5 (w_out w)) (c_access c) u p (snprintf_s 99 address) ''terminal'' (c_managers c)
         then obind (run_terminal b4 aft (terminal_action w) root (terms_change (term_add (w_handle w)) (bs, v', st')))
           (\<lambda>g. Some (Inr (terms_change (term_del (w_handle w)) g)))
         else Some (Inr (bs, v', st')))"
proof -
  let ?u = "map char_of_byte us" and ?p = "map char_of_byte ps"
  obtain r1 where r1: "rd (us @ 13 # ps @ 13 # bs, x, st) = Some (Inr (?u, ps @ 13 # bs, r1 x, st))" for x
    using rd_typed[OF assms(1,3)] by metis
  obtain r2 where r2: "rd (ps @ 13 # bs, x, st) = Some (Inr (?p, bs, r2 x, st))" for x
    using rd_typed[OF assms(2,4)] by metis
  obtain k0 :: "vty \<Rightarrow> vty" where k0: "vty_tset (i, x, s) = Inr (i, k0 x, s)" for i x and s :: "'a tstate"
    using only_writes_options(1) unfolding only_writes_def by blast
  have "\<exists>k. \<forall>i x s. vty_echo b (i, x, s) = Inr (i, k x, s)" for b using only_writes_options(2) unfolding only_writes_def .
  then obtain k1 where k1: "vty_echo b (i, x, s) = Inr (i, k1 b x, s)" for b i x and s :: "'a tstate" by metis
  obtain k2 where k2: "vty_linemode False (i, x, s) = Inr (i, k2 x, s)" for i x and s :: "'a tstate"
    using only_writes_options(3) unfolding only_writes_def by blast
  let ?ms = "{LF # ''TACPPD user access verification'' @ [LF, LF] @ ''Username: '', ''Password: '',
    LF # ''Authentication failed'' @ [LF, LF], LF # ''Authentication success'' @ [LF, LF]}"
  have "\<exists>k. \<forall>i x. \<forall>s :: 'a tstate. m \<in> ?ms \<longrightarrow> tw m (i, x, s) = Inr (i, k x, s)" for m
    using only_writes_tw[of m, where ?'a = 'a] unfolding only_writes_def by (cases "m \<in> ?ms") auto
  then obtain k3 where k3: "m \<in> ?ms \<Longrightarrow> tw m (i, x, s) = Inr (i, k3 m x, s)" for m i x and s :: "'a tstate" by metis
  obtain h where h: "terms_change (term_add (w_handle w)) (i, x, s) = (i, x, h s)" for i x and s :: "'a tstate"
    by (rule that[of "\<lambda>s. snd (snd (terms_change (term_add (w_handle w)) (undefined, undefined, s)))"])
      (simp add: terms_change_def split: prod.splits)
  show ?thesis
    unfolding terminal_session_def auth_def
    by (simp add: k0 k1 k2 k3 r1 r2 h strncpy_99_def echo_here_def Let_def) (intro impI exI, rule refl)
qed

text \<open>A server without anything, and its terminal.\<close>

definition empty_core :: "dns \<Rightarrow> core" where
  "empty_core dns = \<lparr> c_debug = ([], \<lparr> file_fc = [], servers = [] \<rparr>), c_access = [], c_managers = [], c_listeners = [], c_pools = [],
     c_net = \<lparr> nas = [], ud = [] \<rparr>, c_dbs = [],
     c_bundle = \<lparr> bd_mgroup = ip_fill dns UNKNOWN_IP, bd_port = 0, bd_ttl = 0, bd_pri = 0, bd_key = [], bd_keepalive = 0 \<rparr>,
     c_billings = [], c_peers = [] \<rparr>"

definition no_names :: dns where "no_names = (\<lambda>_. None)"

definition quiet_world :: "unit world" where
  "quiet_world = \<lparr> w_out = \<lparr> out_dns = no_names, out_md5 = id, out_xml = False, out_yes = (\<lambda>_. True), out_snmp = (\<lambda>_. []),
       out_snmp_funcs = (\<lambda>_. True), out_db = (\<lambda>_. []), out_db_funcs = (\<lambda>_. True), out_billing = (\<lambda>_. []) \<rparr>,
     w_env = \<lparr> ev_md5 = id, ev_dns = no_names, ev_mktime = (\<lambda>_. 0), ev_local = (\<lambda>_. undefined), ev_junk = undefined \<rparr>,
     w_eng = (\<lambda>_. undefined), w_rx = (\<lambda>_ _. None), w_now = 0, w_ctime = [], w_tm = undefined, w_dir = [], w_handle = 5,
     w_freed = id \<rparr>"

definition fresh_terminal :: "unit tio" where
  "fresh_terminal = ([], a_vty, \<lparr> ts_core = empty_core no_names, ts_db = (), ts_terms = [], ts_lists = [], ts_user = [], ts_files = [],
     ts_drops = [] \<rparr>)"

lemma terminal_login_witness:
  "\<exists>v'. terminal_session NUL [] quiet_world (INode [] [] [] [] [] []) [] ([97] @ 13 # [97, 98] @ 13 # [7], a_vty, st_of fresh_terminal) =
     Some (Inr ([7], v', (st_of fresh_terminal) \<lparr> ts_user := ''a'' \<rparr>))"
proof -
  have c: "char_of_byte 97 = CHR ''a''" using char_of_byte_of_char[of "CHR ''a''"] by (simp add: byte_of_char_def code_def)
  have t: "list_all types [97]" "list_all types [97, 98]" by (simp_all add: types_def edits_def byte_key_def control_key_def)
  have m: "\<not> mgr_check rx md5 as u p a k (c_managers (ts_core (st_of fresh_terminal)))" for rx md5 as u p a k
    by (simp add: mgr_check_def fresh_terminal_def empty_core_def)
  from terminal_login[OF t, of NUL "[]" quiet_world "INode [] [] [] [] [] []" "[]" "[7]" a_vty "st_of fresh_terminal"]
  show ?thesis by (simp add: c m Let_def)
qed

end
