(* ===== verification/ConfigFile.thy ===== *)
theory ConfigFile
  imports Terminal
begin

text \<open>
  The configuration written and read again (\<^verbatim>\<open>src/CoreData.cc\<close>, \<^verbatim>\<open>src/Terminal.cc\<close>,
  \<^verbatim>\<open>etc/tacppd.cf.xml\<close>): the text \<open>showcf\<close> makes of the access lists, read by the nodes of a script, makes the same
  access lists.
\<close>

section \<open>Lines of a text\<close>

definition text_line :: "string \<Rightarrow> bool" where
  "text_line l = (LF \<notin> set l \<and> NUL \<notin> set l \<and> length l \<le> 512)"

definition lines_text :: "string list \<Rightarrow> string" where
  "lines_text ls = concat (map (\<lambda>l. l @ [LF]) ls)"

lemma lines_text_simps [simp]: "lines_text [] = []" "lines_text (l # ls) = l @ LF # lines_text ls" "lines_text (ls @ ms) = lines_text ls @ lines_text ms"
  by (simp_all add: lines_text_def)

lemma stream_line_next:
  assumes "text_line l"
  shows "stream_line \<lparr> st_rest = l @ LF # s, st_eof = False \<rparr> = Some (l, \<lparr> st_rest = s, st_eof = False \<rparr>)"
proof -
  have "takeWhile (\<lambda>c. c \<noteq> LF) (l @ LF # s) = l" using assms by (subst takeWhile_append2) (auto simp: text_line_def)
  then show ?thesis using assms by (auto simp: stream_line_def text_line_def Let_def nul_free_def)
qed

lemma lines_of_text:
  "list_all text_line ls \<Longrightarrow> length ls < n \<Longrightarrow> lines_of n (new_stream (lines_text ls)) = ls @ [[]]"
proof (induction ls arbitrary: n)
  case Nil
  then obtain m where "n = Suc m" by (cases n) auto
  then show ?case by (cases m) (simp_all add: new_stream_def stream_line_def)
next
  case (Cons l ls)
  then obtain m where "n = Suc m" by (cases n) auto
  with Cons show ?case by (simp add: new_stream_def stream_line_next)
qed

lemma text_lines_back: "list_all text_line ls \<Longrightarrow> text_lines (lines_text ls) = ls @ [[]]"
proof -
  have "length ls \<le> length (lines_text ls)" by (induction ls) auto
  then show "list_all text_line ls \<Longrightarrow> ?thesis"
    using lines_of_text[of ls "length (lines_text ls) + 1"] by (simp add: text_lines_def del: lines_of.simps)
qed

section \<open>Words of a line against masks\<close>

lemma strict_low_append: "length m \<le> length w \<Longrightarrow> strict_low (w @ r) m = strict_low w m"
proof (induction w m rule: strict_low.induct, goal_cases)
  case (3 b)
  then show ?case by (cases "b @ r"; cases b) auto
qed auto

lemma strict_up_append: "length m \<le> length w \<Longrightarrow> strict_up (w @ r) m = strict_up w m"
proof (induction w m rule: strict_up.induct)
  case (1 x b m msk)
  then show ?case using strict_low_append[of "m # msk" "x # b" r] by auto
next
  case (3 b)
  then show ?case by (cases "b @ r"; cases b) auto
qed auto

lemma match_word: "w \<noteq> [] \<Longrightarrow> length m \<le> length w \<Longrightarrow> matchNstrict (w @ r) m = matchNstrict w m"
  by (simp add: matchNstrict_def strict_up_append)

lemma match_not: "isupper_c m \<Longrightarrow> tolower_c m \<noteq> tolower_c c \<Longrightarrow> \<not> matchNstrict (c # r) (m # msk)"
  by (simp add: matchNstrict_def)

section \<open>Lines offered to a node\<close>

lemma offer_nothing:
  assumes "split_line line = []"
  shows "offer aft fac up line (Cmd ms cid # cs) errs g = Some (Inr (Taken g))"
  using assms by (simp add: cmd_makeAction_def parseCommand_def)

lemma offer_refused:
  assumes "split_line line = w # ws" "\<not> is_value m" "\<not> matchNstrict (drop (fst w) (the_line line)) m" "cmd_words c = m # ms"
  shows "\<exists>e. offer aft fac up line (c # cs) errs g = offer aft fac up line cs (errs @ [e]) g"
  using assms by (intro exI[of _ "(CMD_UNKNOWN, fst w)"]) (simp add: cmd_makeAction_def parseCommand_def Let_def)

lemma offer_taken:
  assumes "parseCommand (cmd_words c) line = Params vs" "check_values aft (split_line line) (cmd_words c) vs = Inr None"
    and "fac (cmd_words c) (cmd_id c) vs up g = Some (Inr (ex, g'))"
  shows "offer aft fac up line (c # cs) errs g = Some (Inr (if ex then Left g' else
    (case c of Cmd _ _ \<Rightarrow> Taken g' | Node _ _ cs' \<Rightarrow> Entered \<lparr> fr_children = cs', fr_params = vs \<rparr> g')))"
  using assms by (simp add: cmd_makeAction_def)

lemma comment_line:
  assumes "c = CHR ''!'' \<or> c = CHR ''#'' \<or> c = CHR '';''" "k \<le> 298"
  shows "split_line (replicate k CHR '' '' @ c # s) = []"
proof -
  have "the_line (replicate k CHR '' '' @ c # s) = take 298 (c_str (replicate k CHR '' '' @ c # s))"
    by (simp add: the_line_def snprintf_s_def)
  also have "c_str (replicate k CHR '' '' @ c # s) = replicate k CHR '' '' @ c # c_str s"
    using assms(1) by (auto simp: c_str_def takeWhile_append)
  finally obtain r where "the_line (replicate k CHR '' '' @ c # s) = replicate k CHR '' '' @ r" "r = [] \<or> hd r = c"
    using assms(2) by (cases "298 - k") (auto simp: take_Cons')
  then show ?thesis using assms(1) split_blanks[of 0 "[]" k "[]"] by (cases r) (auto simp: split_line_def split_blanks)
qed

lemma blank_line_words: "split_line [] = []"
  by (simp add: split_line_def the_line_def snprintf_s_def c_str_def)
section \<open>The commands of the configuration\<close>

text \<open>The part of \<^verbatim>\<open>etc/tacppd.cf.xml\<close> that access lists go through; \<open>ds\<close>: the commands of the database node,
\<open>rest\<close>: the other commands and nodes of the configuration, \<open>others\<close>: those of the root.\<close>

definition cr_help :: string where
  "cr_help = ''Press enter to execute command.''"

definition access_desc :: desc where
  "access_desc = DNode [''ACcess'', ''{int:0-}''] [''Add or modify existing access list.'', ''Access list number. ''] cr_help
     ''confAccessNode'' ''(access)'' ''$'' [''Exit''] [''Exit from access config section''] ''exitCMDid''
     [DCmd [''PErmit'', ''{str:2-255}''] [''Permit IP address.'', ''Regular expression string.''] cr_help ''confAccessPermit'',
      DCmd [''DEny'', ''{str:2-255}''] [''Deny IP address.'', ''Regular expression string.''] cr_help ''confAccessDeny'',
      DCmd [''NO'', ''PErmit'', ''{str:2-255}''] [''Remove entity.'', ''Permit IP address.'', ''Regular expression string.''] cr_help
        ''confAccessIntNoPermit'',
      DCmd [''NO'', ''DEny'', ''{str:2-255}''] [''Remove entity.'', ''Deny IP address.'', ''Regular expression string.''] cr_help
        ''confAccessIntNoDeny'']"

definition config_desc :: "desc list \<Rightarrow> desc" where
  "config_desc rest = DNode [''CONfig''] [''Tacppd config object.''] cr_help ''config'' ''(config)'' ''#'' [''Exit'']
     [''Exit from config section''] ''confExit''
     ([DCmd [''SHow''] [''Show config.''] cr_help ''confShow'',
       DCmd [''WRite''] [''Write running config to cfg file.''] cr_help ''confWrite'',
       DCmd [''NO'', ''ACcess'', ''{int:0-}''] [''Remove entity.'', ''Remove comletely access.'', ''Access list number. ''] cr_help
         ''confAccessNo'',
       access_desc] @ rest)"

definition root_desc :: "desc list \<Rightarrow> desc list \<Rightarrow> desc list \<Rightarrow> desc" where
  "root_desc ds rest others = DNode [''root''] [''Not need but required.''] cr_help ''root'' ''tacppd'' ''>'' [''Exit'']
     [''Exit from tacppd CLI''] ''exitCMDid''
     ([DNode [''DAtabase''] [''Database control.''] cr_help ''database'' ''(database)'' ''#'' [''Exit''] [''Exit from database section'']
         ''exitCMDid'' ds,
       config_desc rest] @ others)"

text \<open>The nodes of a script.\<close>

definition exit_cmd :: cmd where "exit_cmd = Cmd [''Exit''] ''exitCMDid''"

definition access_cmds :: "cmd list" where
  "access_cmds = [exit_cmd, Cmd [''PErmit'', ''{str:2-255}''] ''confAccessPermit'', Cmd [''DEny'', ''{str:2-255}''] ''confAccessDeny'',
     Cmd [''NO'', ''PErmit'', ''{str:2-255}''] ''confAccessIntNoPermit'', Cmd [''NO'', ''DEny'', ''{str:2-255}''] ''confAccessIntNoDeny'']"

definition config_children :: "cmd list \<Rightarrow> cmd list" where
  "config_children rest = [Cmd [''Exit''] ''confExit'', Cmd [''SHow''] ''confShow'', Cmd [''WRite''] ''confWrite'',
     Cmd [''NO'', ''ACcess'', ''{int:0-}''] ''confAccessNo'', Node [''ACcess'', ''{int:0-}''] ''confAccessNode'' access_cmds] @ rest"

definition root_children :: "cmd list \<Rightarrow> cmd list \<Rightarrow> cmd list \<Rightarrow> cmd list" where
  "root_children ds rest others = [exit_cmd, Node [''DAtabase''] ''database'' (exit_cmd # ds),
     Node [''CONfig''] ''config'' (config_children rest)] @ others"

lemma strip_root:
  "strip (built (root_desc ds rest others)) = Node [''root''] ''root''
     (root_children (map (strip \<circ> built) ds) (map (strip \<circ> built) rest) (map (strip \<circ> built) others))"
  by (simp add: root_desc_def config_desc_def access_desc_def root_children_def config_children_def access_cmds_def exit_cmd_def)

section \<open>What the lines of an access list do\<close>

fun rule_line :: "acl_entry \<Rightarrow> token list" where
  "rule_line e = (if 0 < length (permit e) then [Plain ''permit'', Plain (permit e)] else [Plain ''deny'', Plain (deny e)])"

text \<open>An access list as it can be written and read: rules of one kind, their text a word of 2 to 255 characters.\<close>

definition rule_ok :: "acl_entry \<Rightarrow> bool" where
  "rule_ok e = ((deny e = [] \<and> token_ok (Plain (permit e)) \<and> 2 \<le> length (permit e) \<and> length (permit e) \<le> 255 \<and> LF \<notin> set (permit e)) \<or>
     (permit e = [] \<and> token_ok (Plain (deny e)) \<and> 2 \<le> length (deny e) \<and> length (deny e) \<le> 255 \<and> LF \<notin> set (deny e)))"

definition acl_ok :: "acl_data \<Rightarrow> bool" where
  "acl_ok d = (0 \<le> acl_number d \<and> acl_number d < 2 ^ 31 \<and> list_all rule_ok (acl_rules d))"

lemma the_line_id: "NUL \<notin> set l \<Longrightarrow> length l \<le> 298 \<Longrightarrow> the_line l = l"
  by (intro snprintf_s_short[of _ 299, folded the_line_def]) (auto simp: nul_free_def)

lemma dec_digits: "c \<in> set (dec_nat n) \<Longrightarrow> isdigit_c c \<and> c \<noteq> NUL \<and> c \<noteq> CHR '' '' \<and> c \<noteq> CHR 0x5C \<and> c \<noteq> LF \<and>
    c \<notin> {CHR ''!'', CHR ''#'', CHR '';'', CHR 0x27, CHR 0x22}"
  using dec_nat_digits[of n] by (auto simp: isdigit_c_def code_def LF_def)

lemma dec_token: "token_ok (Plain (dec_nat n))"
  using dec_digits[of _ n] dec_nat_nonempty[of n] hd_in_set[of "dec_nat n"] by (auto simp: list_all_iff)

text \<open>A word and a value, with blanks before.\<close>

definition two_words :: "nat \<Rightarrow> string \<Rightarrow> string \<Rightarrow> string" where
  "two_words k w v = replicate k CHR '' '' @ w @ CHR '' '' # v"

lemma two_words_split:
  assumes "token_ok (Plain w)" "token_ok (Plain v)" "k + length w + length v < 298"
  shows "the_line (two_words k w v) = two_words k w v"
    and "split_line (two_words k w v) = [(k, length w), (k + length w + 1, length v)]"
    and "drop k (two_words k w v) = w @ CHR '' '' # v"
    and "word_at (two_words k w v) (k + length w + 1, length v) = v"
proof -
  have l: "replicate k CHR '' '' @ words_text [Plain w, Plain v] = two_words k w v" by (simp add: two_words_def)
  have a: "list_all token_ok [Plain w, Plain v]" "k + length (words_text [Plain w, Plain v]) \<le> 298" using assms by simp_all
  show "the_line (two_words k w v) = two_words k w v" "split_line (two_words k w v) = [(k, length w), (k + length w + 1, length v)]"
    using the_line_words[OF a] split_line_words[OF a] unfolding l by simp_all
  show "drop k (two_words k w v) = w @ CHR '' '' # v" "word_at (two_words k w v) (k + length w + 1, length v) = v"
    by (simp_all add: two_words_def word_at_def)
qed

lemma two_words_params:
  assumes "token_ok (Plain w)" "token_ok (Plain v)" "k + length w + length v < 298"
    and "\<not> is_value m" "is_value d" "length m \<le> length w" "matchNstrict w m"
  shows "parseCommand [m, d] (two_words k w v) = Params [v]"
    and "isCorrespondW aft d v = Inr True \<Longrightarrow> check_values aft (split_line (two_words k w v)) [m, d] [v] = Inr None"
proof -
  note s = two_words_split[OF assms(1-3)]
  have w: "w \<noteq> []" using assms(1) by simp
  have "matchNstrict (w @ CHR '' '' # v) m" using match_word[OF w assms(6)] assms(7) by simp
  then show "parseCommand [m, d] (two_words k w v) = Params [v]"
    using assms(4,5) s(4) by (simp add: parseCommand_def Let_def s(1-3))
  have "NUL \<notin> set v" using token_text_nul[OF assms(2)] by simp
  then have "c_str v = v" by (simp add: nul_free_def)
  then show "isCorrespondW aft d v = Inr True \<Longrightarrow> check_values aft (split_line (two_words k w v)) [m, d] [v] = Inr None"
    using assms(4,5) by (simp add: s(2))
qed

lemma two_words_refused:
  assumes "token_ok (Plain w)" "token_ok (Plain v)" "k + length w + length v < 298"
    and "\<not> is_value m" "\<not> matchNstrict (w @ CHR '' '' # v) m" "cmd_words c = m # ms"
  shows "\<exists>e. offer aft fac up (two_words k w v) (c # cs) errs g = offer aft fac up (two_words k w v) cs (errs @ [e]) g"
  using two_words_split[OF assms(1-3)] assms(4-6) by (intro offer_refused) auto

lemma upper_facts:
  "\<not> is_value ''Exit''" "\<not> is_value ''SHow''" "\<not> is_value ''WRite''" "\<not> is_value ''NO''" "\<not> is_value ''ACcess''"
  "\<not> is_value ''PErmit''" "\<not> is_value ''DEny''" "is_value ''{int:0-}''" "is_value ''{str:2-255}''" "\<not> is_value ''DAtabase''"
  "\<not> is_value ''CONfig''"
  by (simp_all add: is_value_def)

lemma access_words:
  "\<not> matchNstrict (''access'' @ r) ''Exit''" "\<not> matchNstrict (''access'' @ r) ''SHow''" "\<not> matchNstrict (''access'' @ r) ''WRite''"
  "\<not> matchNstrict (''access'' @ r) ''NO''" "matchNstrict ''access'' ''ACcess''"
  "\<not> matchNstrict (''permit'' @ r) ''Exit''" "matchNstrict ''permit'' ''PErmit''"
  "\<not> matchNstrict (''deny'' @ r) ''Exit''" "\<not> matchNstrict (''deny'' @ r) ''PErmit''" "matchNstrict ''deny'' ''DEny''"
  "\<not> matchNstrict (''config'' @ r) ''Exit''" "\<not> matchNstrict (''config'' @ r) ''DAtabase''" "matchNstrict ''config'' ''CONfig''"
  "matchNstrict ''exit'' ''Exit''" "matchNstrict ''Exit'' ''EXit''"
proof -
  have m: "\<not> matchNstrict ''access'' ''Exit''" "\<not> matchNstrict ''access'' ''SHow''" "\<not> matchNstrict ''access'' ''WRite''"
    "\<not> matchNstrict ''access'' ''NO''" "\<not> matchNstrict ''permit'' ''Exit''" "\<not> matchNstrict ''deny'' ''Exit''"
    "\<not> matchNstrict ''config'' ''Exit''" by code_simp+
  then show "\<not> matchNstrict (''access'' @ r) ''Exit''" "\<not> matchNstrict (''access'' @ r) ''SHow''" "\<not> matchNstrict (''access'' @ r) ''WRite''"
    "\<not> matchNstrict (''access'' @ r) ''NO''" "\<not> matchNstrict (''permit'' @ r) ''Exit''" "\<not> matchNstrict (''deny'' @ r) ''Exit''"
    "\<not> matchNstrict (''config'' @ r) ''Exit''"
    by (subst match_word; simp)+
  have "isupper_c CHR ''P''" "tolower_c CHR ''P'' \<noteq> tolower_c CHR ''d''" "isupper_c CHR ''D''" "tolower_c CHR ''D'' \<noteq> tolower_c CHR ''c''"
    by code_simp+
  then show "\<not> matchNstrict (''deny'' @ r) ''PErmit''" "\<not> matchNstrict (''config'' @ r) ''DAtabase''"
    by (simp_all add: match_not)
qed code_simp+

lemma value_facts:
  "n < 2 ^ 31 \<Longrightarrow> isCorrespondW aft ''{int:0-}'' (dec_nat n) = Inr True"
  "2 \<le> length s \<Longrightarrow> length s \<le> 255 \<Longrightarrow> isCorrespondW aft ''{str:2-255}'' s = Inr True"
proof -
  have d: "dec_nat 0 = ''0''" "dec_nat 2 = ''2''" "dec_nat 255 = ''255''" by code_simp+
  show "n < 2 ^ 31 \<Longrightarrow> isCorrespondW aft ''{int:0-}'' (dec_nat n) = Inr True"
    using param_int_from[of 0 n aft] by (simp add: d)
  show "2 \<le> length s \<Longrightarrow> length s \<le> 255 \<Longrightarrow> isCorrespondW aft ''{str:2-255}'' s = Inr True"
    using param_str[of 2 255 aft s] by (simp add: d)
qed

declare offer.simps [simp del]

text \<open>Commands that refuse a line.\<close>

lemma two_words_skip:
  assumes "token_ok (Plain w)" "token_ok (Plain v)" "k + length w + length v < 298"
    and "list_all (\<lambda>c. \<exists>m ms. cmd_words c = m # ms \<and> \<not> is_value m \<and> \<not> matchNstrict (w @ CHR '' '' # v) m) pre"
  shows "\<exists>errs'. offer aft fac up (two_words k w v) (pre @ cs) errs g = offer aft fac up (two_words k w v) cs errs' g"
  using assms(4)
proof (induction pre arbitrary: errs)
  case (Cons c pre)
  then obtain m ms where m: "cmd_words c = m # ms" "\<not> is_value m" "\<not> matchNstrict (w @ CHR '' '' # v) m" by auto
  from two_words_refused[OF assms(1-3) m(2,3,1), of aft fac up "pre @ cs" errs g] obtain e where
    "offer aft fac up (two_words k w v) (c # pre @ cs) errs g = offer aft fac up (two_words k w v) (pre @ cs) (errs @ [e]) g" by blast
  with Cons show ?case by auto
qed auto

section \<open>The commands do what they say\<close>

definition acls_of :: "'s tio \<Rightarrow> acls" where
  "acls_of g = c_access (ts_core (st_of g))"

definition set_acls :: "acls \<Rightarrow> 's tio \<Rightarrow> 's tio" where
  "set_acls as g = with_core (\<lambda>c. c \<lparr> c_access := as \<rparr>) g"

lemma set_acls_simps [simp]: "acls_of (set_acls as g) = as" "set_acls as (set_acls bs g) = set_acls as g"
  by (simp_all add: acls_of_def set_acls_def with_core_def split: prod.splits)

lemma set_acls_same: "set_acls (acls_of g) g = g"
  by (cases g) (simp add: set_acls_def acls_of_def with_core_def)

lemma access_action:
  assumes "cid \<in> set access_ids" "acl_applycf cid ps us ps (acls_of g) = Inr (m, as')"
  shows "terminal_action w wds cid ps us g = Some (Inr (False, set_acls as' g))"
proof -
  have "cid \<noteq> ''exitCMDid''" "cid \<notin> set config_cmds" "object_of cid = Some ACCESS_TYPE"
    using assms(1) by (auto simp: access_ids_def config_cmds_def object_of_def)
  then show ?thesis using assms(2)
    by (cases g) (simp add: terminal_action_def stay_def cmdConfigObject_def cmd_object_self obj_applycf_def acls_of_def set_acls_def
        with_core_def)
qed

lemma exit_actions:
  "terminal_action w wds ''exitCMDid'' ps us g = Some (Inr (True, g))"
  "terminal_action w [''Exit''] ''confExit'' ps us g = Some (Inr (True, g))"
  "terminal_action w [''CONfig''] ''config'' ps us g = Some (Inr (False, g))"
proof -
  have m: "matchNstrict ''Exit'' ''EXit''" "\<not> matchNstrict ''CONfig'' ''EXit''" "\<not> match (Some ''CONfig'') (Some ''SHow'')"
    "\<not> match (Some ''CONfig'') (Some ''WRite'')" by code_simp+
  show "terminal_action w wds ''exitCMDid'' ps us g = Some (Inr (True, g))"
    "terminal_action w [''Exit''] ''confExit'' ps us g = Some (Inr (True, g))"
    "terminal_action w [''CONfig''] ''config'' ps us g = Some (Inr (False, g))"
    by (simp_all add: terminal_action_def config_cmds_def cmdConfig_def word_no_def m)
qed

text \<open>One word alone.\<close>

lemma one_word:
  assumes "token_ok (Plain x)" "k + length x \<le> 298" "\<not> is_value m" "length m \<le> length x"
  shows "matchNstrict x m \<Longrightarrow> parseCommand [m] (replicate k CHR '' '' @ x) = Params []"
    and "check_values aft (split_line (replicate k CHR '' '' @ x)) [m] [] = Inr None"
    and "cmd_words c = m # ms \<Longrightarrow> \<not> matchNstrict x m \<Longrightarrow> \<exists>e. offer aft fac up (replicate k CHR '' '' @ x) (c # cs) errs g =
       offer aft fac up (replicate k CHR '' '' @ x) cs (errs @ [e]) g"
proof -
  have l: "the_line (replicate k CHR '' '' @ x) = replicate k CHR '' '' @ x" "split_line (replicate k CHR '' '' @ x) = [(k, length x)]"
    using the_line_words[of "[Plain x]" k] split_line_words[of "[Plain x]" k] assms(1,2) by simp_all
  show "matchNstrict x m \<Longrightarrow> parseCommand [m] (replicate k CHR '' '' @ x) = Params []"
    using assms(3) by (simp add: parseCommand_def l Let_def)
  show "check_values aft (split_line (replicate k CHR '' '' @ x)) [m] [] = Inr None" using assms(3) by (simp add: l)
  show "cmd_words c = m # ms \<Longrightarrow> \<not> matchNstrict x m \<Longrightarrow> \<exists>e. offer aft fac up (replicate k CHR '' '' @ x) (c # cs) errs g =
       offer aft fac up (replicate k CHR '' '' @ x) cs (errs @ [e]) g"
    using assms(3) l by (intro offer_refused) auto
qed

lemma exit_line:
  assumes "fac [''Exit''] cid [] up g = Some (Inr (True, g))" "k < 200"
  shows "offer aft fac up (replicate k CHR '' '' @ ''exit'') (Cmd [''Exit''] cid # cs) errs g = Some (Inr (Left g))"
proof -
  have t: "token_ok (Plain ''exit'')" by simp
  have k: "k + length ''exit'' \<le> 298" using assms(2) by simp
  have u: "\<not> is_value ''Exit''" "length ''Exit'' \<le> length ''exit''" by (simp_all add: is_value_def)
  show ?thesis
    using offer_taken[of "Cmd [''Exit''] cid" _ "[]" aft fac up g True g cs errs]
      one_word(1)[OF t k u] one_word(2)[OF t k u, of aft] assms(1) access_words(14) by simp
qed

lemma enter_access:
  assumes "n < 2 ^ 31"
  shows "offer aft (terminal_action w) up (two_words 1 ''access'' (dec_nat n)) (config_children rest) [] g =
    Some (Inr (Entered \<lparr> fr_children = access_cmds, fr_params = [dec_nat n] \<rparr> (set_acls (acl_add (int n) (acls_of g)) g)))"
proof -
  have t: "token_ok (Plain ''access'')" by simp
  have len: "length (dec_nat n) \<le> 10" using length_dec_nat[of n 10] assms by simp
  then have k: "1 + length ''access'' + length (dec_nat n) < 298" by simp
  let ?l = "two_words 1 ''access'' (dec_nat n)"
  let ?n = "Node [''ACcess'', ''{int:0-}''] ''confAccessNode'' access_cmds"
  let ?g = "set_acls (acl_add (int n) (acls_of g)) g"
  obtain errs where e: "offer aft (terminal_action w) up ?l (config_children rest) [] g = offer aft (terminal_action w) up ?l (?n # rest) errs g"
    using two_words_skip[OF t dec_token k, of "[Cmd [''Exit''] ''confExit'', Cmd [''SHow''] ''confShow'', Cmd [''WRite''] ''confWrite'',
      Cmd [''NO'', ''ACcess'', ''{int:0-}''] ''confAccessNo'']" aft "terminal_action w" up "?n # rest" "[]" g]
      access_words(1-4)[of "CHR '' '' # dec_nat n"] upper_facts by (auto simp: config_children_def)
  have "terminal_action w [''ACcess'', ''{int:0-}''] ''confAccessNode'' [dec_nat n] up g = Some (Inr (False, ?g))"
    using assms by (intro access_action) (simp_all add: access_ids_def acl_applycf_def first_param_def atoi_dec_nat)
  with two_words_params[OF t dec_token k, of "''ACcess''" "''{int:0-}''"] upper_facts access_words(5) value_facts(1)[OF assms]
    offer_taken[of ?n ?l "[dec_nat n]" aft "terminal_action w" up g False ?g rest errs] e
  show ?thesis by simp
qed

lemma rule_taken:
  assumes "rule_ok e" "n < 2 ^ 31"
  shows "\<exists>k x y. two_words k x y = (if 0 < length (permit e) then two_words 2 ''permit'' (permit e) else two_words 2 ''deny'' (deny e)) \<and>
    offer aft (terminal_action w) [dec_nat n] (two_words k x y) access_cmds [] g =
      Some (Inr (Taken (set_acls (snd (if 0 < length (permit e) then acl_add_permit (int n) (Some (permit e)) (acls_of g)
        else acl_add_deny (int n) (Some (deny e)) (acls_of g))) g)))"
proof (cases "0 < length (permit e)")
  case True
  then have p: "token_ok (Plain (permit e))" "2 \<le> length (permit e)" "length (permit e) \<le> 255" using assms(1) by (auto simp: rule_ok_def)
  have t: "token_ok (Plain ''permit'')" by simp
  have k: "2 + length ''permit'' + length (permit e) < 298" using p by simp
  let ?l = "two_words 2 ''permit'' (permit e)"
  let ?c = "Cmd [''PErmit'', ''{str:2-255}''] ''confAccessPermit''"
  let ?g = "set_acls (snd (acl_add_permit (int n) (Some (permit e)) (acls_of g))) g"
  obtain errs where e: "offer aft (terminal_action w) [dec_nat n] ?l access_cmds [] g =
      offer aft (terminal_action w) [dec_nat n] ?l (?c # tl (tl access_cmds)) errs g"
    using two_words_skip[OF t p(1) k, of "[exit_cmd]" aft "terminal_action w" "[dec_nat n]" "?c # tl (tl access_cmds)" "[]" g]
      access_words(6)[of "CHR '' '' # permit e"] upper_facts by (auto simp: access_cmds_def exit_cmd_def)
  have "terminal_action w [''PErmit'', ''{str:2-255}''] ''confAccessPermit'' [permit e] [dec_nat n] g = Some (Inr (False, ?g))"
    using assms(2) by (intro access_action)
      (simp_all add: access_ids_def acl_applycf_def acl_rule_cmd_def first_param_def atoi_dec_nat acl_add_permit_def split: prod.splits)
  with two_words_params[OF t p(1) k, of "''PErmit''" "''{str:2-255}''"] upper_facts access_words(7) value_facts(2)[OF p(2,3)]
    offer_taken[of ?c ?l "[permit e]" aft "terminal_action w" "[dec_nat n]" g False ?g "tl (tl access_cmds)" errs] e True
  show ?thesis by (intro exI[of _ 2] exI[of _ "''permit''"] exI[of _ "permit e"]) simp
next
  case False
  then have p: "token_ok (Plain (deny e))" "2 \<le> length (deny e)" "length (deny e) \<le> 255" using assms(1) by (auto simp: rule_ok_def)
  have t: "token_ok (Plain ''deny'')" by simp
  have k: "2 + length ''deny'' + length (deny e) < 298" using p by simp
  let ?l = "two_words 2 ''deny'' (deny e)"
  let ?c = "Cmd [''DEny'', ''{str:2-255}''] ''confAccessDeny''"
  let ?g = "set_acls (snd (acl_add_deny (int n) (Some (deny e)) (acls_of g))) g"
  obtain errs where e: "offer aft (terminal_action w) [dec_nat n] ?l access_cmds [] g =
      offer aft (terminal_action w) [dec_nat n] ?l (?c # drop 3 access_cmds) errs g"
    using two_words_skip[OF t p(1) k, of "[exit_cmd, Cmd [''PErmit'', ''{str:2-255}''] ''confAccessPermit'']" aft "terminal_action w"
        "[dec_nat n]" "?c # drop 3 access_cmds" "[]" g]
      access_words(8,9)[of "CHR '' '' # deny e"] upper_facts by (auto simp: access_cmds_def exit_cmd_def)
  have "terminal_action w [''DEny'', ''{str:2-255}''] ''confAccessDeny'' [deny e] [dec_nat n] g = Some (Inr (False, ?g))"
    using assms(2) by (intro access_action)
      (simp_all add: access_ids_def acl_applycf_def acl_rule_cmd_def first_param_def atoi_dec_nat acl_add_deny_def split: prod.splits)
  with two_words_params[OF t p(1) k, of "''DEny''" "''{str:2-255}''"] upper_facts access_words(10) value_facts(2)[OF p(2,3)]
    offer_taken[of ?c ?l "[deny e]" aft "terminal_action w" "[dec_nat n]" g False ?g "drop 3 access_cmds" errs] e False
  show ?thesis by (intro exI[of _ 2] exI[of _ "''deny''"] exI[of _ "deny e"]) simp
qed

section \<open>A whole access list\<close>

definition entry_line :: "acl_entry \<Rightarrow> string" where
  "entry_line e = (if 0 < length (permit e) then two_words 2 ''permit'' (permit e) else two_words 2 ''deny'' (deny e))"

definition acl_lines :: "acl_data \<Rightarrow> string list" where
  "acl_lines d = two_words 1 ''access'' (dec_nat (nat (acl_number d))) # map entry_line (acl_rules d) @ [replicate 2 CHR '' '' @ ''exit'']"

definition config_frames :: "cmd list \<Rightarrow> frame list \<Rightarrow> frame list" where
  "config_frames rest frs = \<lparr> fr_children = config_children rest, fr_params = [] \<rparr> # frs"

lemma upd_last: "\<forall>x \<in> set as. \<not> P x \<Longrightarrow> P d \<Longrightarrow> upd_first P f (as @ [d]) = as @ [f d]"
  by (induction as) auto

text \<open>The rules are added one after the other to the list that was entered.\<close>

lemma run_rules:
  assumes "list_all rule_ok es" "n < 2 ^ 31" "acls_of g = as @ [d]" "acl_number d = int n" "\<forall>x \<in> set as. acl_number x \<noteq> int n"
  shows "ni_run aft (terminal_action w) (\<lparr> fr_children = access_cmds, fr_params = [dec_nat n] \<rparr> # frs) (map entry_line es @ ls) g =
    ni_run aft (terminal_action w) (\<lparr> fr_children = access_cmds, fr_params = [dec_nat n] \<rparr> # frs) ls
      (set_acls (as @ [d \<lparr> acl_rules := acl_rules d @ es \<rparr>]) g)"
  using assms
proof (induction es arbitrary: g d)
  case Nil
  then show ?case using set_acls_same[of g] by simp
next
  case (Cons e es)
  let ?d = "d \<lparr> acl_rules := acl_rules d @ [e] \<rparr>"
  have h: "has_acl (int n) (as @ [d])" using Cons.prems(4) by (auto simp: has_acl_def)
  have e: "rule_ok e" using Cons.prems(1) by simp
  have add: "snd (if 0 < length (permit e) then acl_add_permit (int n) (Some (permit e)) (as @ [d]) else acl_add_deny (int n) (Some (deny e)) (as @ [d]))
      = as @ [?d]"
    using h e Cons.prems(4,5)
    by (auto simp: acl_add_permit_def acl_add_deny_def upd_last data_add_permit_def data_add_deny_def rule_ok_def)
  have o1: "offer aft (terminal_action w) [dec_nat n] (entry_line e) access_cmds [] g = Some (Inr (Taken (set_acls (as @ [?d]) g)))"
    using rule_taken[OF e Cons.prems(2), of aft w g] add Cons.prems(3) by (auto simp: entry_line_def)
  have "ni_run aft (terminal_action w) (\<lparr> fr_children = access_cmds, fr_params = [dec_nat n] \<rparr> # frs) (map entry_line (e # es) @ ls) g =
      ni_run aft (terminal_action w) (\<lparr> fr_children = access_cmds, fr_params = [dec_nat n] \<rparr> # frs) (map entry_line es @ ls) (set_acls (as @ [?d]) g)"
    by (simp add: o1)
  also have "\<dots> = ni_run aft (terminal_action w) (\<lparr> fr_children = access_cmds, fr_params = [dec_nat n] \<rparr> # frs) ls
      (set_acls (as @ [d \<lparr> acl_rules := acl_rules d @ e # es \<rparr>]) g)"
    using Cons.IH[of "set_acls (as @ [?d]) g" ?d] Cons.prems by simp
  finally show ?case .
qed

lemma run_acl:
  assumes "acl_ok d" "\<forall>x \<in> set (acls_of g). acl_number x \<noteq> acl_number d"
  shows "ni_run aft (terminal_action w) (config_frames rest frs) (acl_lines d @ ls) g =
    ni_run aft (terminal_action w) (config_frames rest frs) ls (set_acls (acls_of g @ [d]) g)"
proof -
  let ?n = "nat (acl_number d)"
  let ?f = "\<lparr> fr_children = access_cmds, fr_params = [dec_nat ?n] \<rparr>"
  have n: "?n < 2 ^ 31" "int ?n = acl_number d" using assms(1) by (auto simp: acl_ok_def nat_less_iff)
  have add: "acl_add (int ?n) (acls_of g) = acls_of g @ [new_acl (int ?n)]"
    using assms(2) n by (auto simp: acl_add_def has_acl_def)
  have ex: "offer aft (terminal_action w) [dec_nat ?n] (replicate 2 CHR '' '' @ ''exit'') access_cmds [] g' = Some (Inr (Left g'))" for g'
    unfolding access_cmds_def exit_cmd_def by (rule exit_line) (simp_all add: exit_actions)
  have "ni_run aft (terminal_action w) (config_frames rest frs) (acl_lines d @ ls) g =
      ni_run aft (terminal_action w) (?f # config_frames rest frs) (map entry_line (acl_rules d) @ (replicate 2 CHR '' '' @ ''exit'') # ls)
        (set_acls (acls_of g @ [new_acl (int ?n)]) g)"
    using enter_access[OF n(1), of aft w "[]" rest g] add by (simp add: config_frames_def acl_lines_def)
  also have "\<dots> = ni_run aft (terminal_action w) (?f # config_frames rest frs) ((replicate 2 CHR '' '' @ ''exit'') # ls)
        (set_acls (acls_of g @ [(new_acl (int ?n)) \<lparr> acl_rules := acl_rules (new_acl (int ?n)) @ acl_rules d \<rparr>]) g)"
    using assms n by (subst run_rules[where as = "acls_of g" and d = "new_acl (int ?n)"]) (auto simp: new_acl_def acl_ok_def)
  also have "(new_acl (int ?n)) \<lparr> acl_rules := acl_rules (new_acl (int ?n)) @ acl_rules d \<rparr> = d"
    using n by (simp add: new_acl_def)
  finally show ?thesis using ex by simp
qed

lemma run_acls:
  "list_all acl_ok ds \<Longrightarrow> distinct (map acl_number (acls_of g @ ds)) \<Longrightarrow>
   ni_run aft (terminal_action w) (config_frames rest frs) (concat (map acl_lines ds) @ ls) g =
   ni_run aft (terminal_action w) (config_frames rest frs) ls (set_acls (acls_of g @ ds) g)"
proof (induction ds arbitrary: g)
  case Nil
  then show ?case using set_acls_same[of g] by simp
next
  case (Cons d ds)
  then have "acl_number d \<notin> acl_number ` set (acls_of g)" by auto
  then have "\<forall>x \<in> set (acls_of g). acl_number x \<noteq> acl_number d" by (metis imageI)
  with Cons show ?case using run_acl[of d g aft w rest frs "concat (map acl_lines ds) @ ls"] by simp
qed

lemma run_nothing:
  assumes "split_line line = []" "fr_children fr = Cmd ms cid # cs"
  shows "ni_run aft fac (fr # frs) (line # ls) g = ni_run aft fac (fr # frs) ls g"
  using offer_nothing[OF assms(1), of aft fac "fr_params fr" ms cid cs "[]" g] assms(2) by simp

lemma run_nothings:
  "list_all (\<lambda>l. split_line l = []) pre \<Longrightarrow> fr_children fr = Cmd ms cid # cs \<Longrightarrow>
   ni_run aft fac (fr # frs) (pre @ ls) g = ni_run aft fac (fr # frs) ls g"
  by (induction pre) (auto simp: offer_nothing)

section \<open>The text as lines\<close>

lemma obj_text:
  assumes "\<forall>n < k. 4 < length (b n)" "\<forall>n \<ge> k. b n = []"
  shows "cf_loop b d 1 [] (buildcf_n b d 0) =
    Some (LF # '' ! '' @ d @ [LF] @ (if k = 0 then [LF] else concat (map (\<lambda>n. b n @ [LF]) [0..<k])))"
proof -
  have s: "buildcf_n b d 0 = LF # '' ! '' @ d @ [LF] @ b 0 @ [LF]" by (simp add: buildcf_n_def LF_def)
  have "cf_loop b d 1 [] (buildcf_n b d 0) = cf_loop b d (Suc 1) (buildcf_n b d 0) (buildcf_n b d 1)"
    by (subst cf_loop.simps) (simp add: s)
  also have "\<dots> = Some (buildcf_n b d 0 @ (if k = 0 then [] else concat (map (\<lambda>n. b n @ [LF]) [1..<k])))"
  proof (cases "k = 0")
    case True
    then show ?thesis using assms(2) by (subst cf_loop.simps) (simp add: buildcf_n_def)
  next
    case False
    then show ?thesis using cf_loop_entries[of k b 1 d "buildcf_n b d 0"] assms by (simp add: LF_def)
  qed
  finally show ?thesis using assms(2) by (simp add: s upt_conv_Cons)
qed

lemma acl_text: "acl_ok d \<Longrightarrow> data_buildcfstr d @ [LF] = lines_text (acl_lines d)"
proof -
  assume a: "acl_ok d"
  have "concat (map (\<lambda>e. (if 0 < length (permit e) then ''  permit '' @ permit e @ [CHR 0x0A] else []) @
      (if 0 < length (deny e) then ''  deny '' @ deny e @ [CHR 0x0A] else [])) es) = lines_text (map entry_line es)"
    if "list_all rule_ok es" for es
    using that by (induction es) (auto simp: rule_ok_def entry_line_def two_words_def LF_def numeral_2_eq_2)
  with a show ?thesis
    by (simp add: data_buildcfstr_def acl_ok_def acl_lines_def two_words_def LF_def dec_int_def numeral_2_eq_2)
qed

definition object_lines :: "core \<Rightarrow> object \<Rightarrow> string list" where
  "object_lines c b = [[], '' ! '' @ obj_descr b] @
     (if b = ACCESS_TYPE \<and> c_access c \<noteq> [] then concat (map acl_lines (c_access c)) else [[]])"

definition only_access :: "dns \<Rightarrow> core \<Rightarrow> bool" where
  "only_access dns c = (\<forall>b n. b \<noteq> ACCESS_TYPE \<longrightarrow> obj_cfstr dns c b n = [])"

lemma object_text:
  assumes "only_access dns c" "list_all acl_ok (c_access c)"
  shows "obj_buildcf dns c b = Some (lines_text (object_lines c b))"
proof (cases "b = ACCESS_TYPE")
  case False
  then show ?thesis using assms(1) obj_text[of 0 "obj_cfstr dns c b" "obj_descr b"]
    by (simp add: obj_buildcf_def only_access_def object_lines_def Let_def)
next
  case True
  let ?as = "c_access c"
  have b: "obj_cfstr dns c ACCESS_TYPE = (\<lambda>n. acl_buildcfstr n ?as)" by (rule ext) (simp add: obj_cfstr_def)
  have "map (\<lambda>n. acl_buildcfstr n ?as @ [LF]) [0..<length ?as] = map (\<lambda>d. data_buildcfstr d @ [LF]) ?as"
    by (rule nth_equalityI) (simp_all add: acl_buildcfstr_def)
  then have "concat (map (\<lambda>n. acl_buildcfstr n ?as @ [LF]) [0..<length ?as]) = concat (map (\<lambda>d. data_buildcfstr d @ [LF]) ?as)"
    by simp
  also have "concat (map (\<lambda>d. data_buildcfstr d @ [LF]) as) = lines_text (concat (map acl_lines as))" if "list_all acl_ok as" for as
    using that by (induction as) (auto simp: acl_text)
  note this[OF assms(2)]
  finally have t: "concat (map (\<lambda>n. acl_buildcfstr n ?as @ [LF]) [0..<length ?as]) = lines_text (concat (map acl_lines ?as))" .
  have "\<forall>n < length ?as. 4 < length (obj_cfstr dns c ACCESS_TYPE n)" "\<forall>n \<ge> length ?as. obj_cfstr dns c ACCESS_TYPE n = []"
    by (simp_all add: b acl_buildcfstr_def data_buildcfstr_def)
  from obj_text[OF this, of "obj_descr ACCESS_TYPE"] show ?thesis
    by (simp add: obj_buildcf_def object_lines_def Let_def b t True)
qed

definition header_line :: "string \<Rightarrow> string \<Rightarrow> string" where
  "header_line user now = ''! tacppd configuration file, build by '' @ user @ '' '' @ now @ '' ''"

definition config_lines :: "string \<Rightarrow> string \<Rightarrow> core \<Rightarrow> string list" where
  "config_lines now user c = header_line user now # ''config'' # concat (map (object_lines c) objects) @ [[], ''exit'', ''! end of config'']"

lemma showcf_lines:
  assumes "only_access dns c" "list_all acl_ok (c_access c)"
  shows "showcf dns now user c = Some (lines_text (config_lines now user c))"
proof -
  have "all_cf dns c bs = Some (lines_text (concat (map (object_lines c) bs)))" for bs
    by (induction bs) (simp_all add: object_text[OF assms])
  then show ?thesis by (simp add: showcf_def config_lines_def header_line_def LF_def)
qed

lemma word_text_line:
  assumes "token_ok (Plain v)" "LF \<notin> set v" "length v \<le> 255" "w \<in> {''access'', ''permit'', ''deny''}" "k \<le> 2"
  shows "text_line (two_words k w v)"
  using assms token_text_nul[OF assms(1)] by (auto simp: text_line_def two_words_def LF_def)

lemma acl_lines_text: "acl_ok d \<Longrightarrow> list_all text_line (acl_lines d)"
proof -
  assume a: "acl_ok d"
  have "nat (acl_number d) < 10 ^ 10" using a by (auto simp: acl_ok_def nat_less_iff)
  then have n: "length (dec_nat (nat (acl_number d))) \<le> 255" using length_dec_nat[of "nat (acl_number d)" 10] by simp
  have "text_line (two_words 1 ''access'' (dec_nat (nat (acl_number d))))"
    using n dec_digits by (intro word_text_line dec_token) auto
  moreover have "text_line (entry_line e)" if "rule_ok e" for e
    using that by (auto simp: entry_line_def rule_ok_def intro!: word_text_line)
  moreover have "text_line (replicate 2 CHR '' '' @ ''exit'')" by (simp add: text_line_def LF_def numeral_2_eq_2)
  ultimately show ?thesis using a by (simp add: acl_lines_def acl_ok_def list_all_iff)
qed

lemma config_lines_text:
  assumes "list_all acl_ok (c_access c)" "text_line (header_line user now)"
  shows "list_all text_line (config_lines now user c)"
proof -
  have "text_line [] \<and> text_line ('' ! '' @ obj_descr b) \<and> text_line ''config'' \<and> text_line ''exit'' \<and> text_line ''! end of config''" for b
    by (cases b) (simp_all add: text_line_def LF_def)
  with assms acl_lines_text show ?thesis by (auto simp: config_lines_def object_lines_def list_all_iff split: if_splits)
qed

section \<open>Written and read again\<close>

lemma comment_blank: "split_line ('' ! '' @ s) = []" "split_line (''! '' @ s) = []"
  using comment_line[of "CHR ''!''" 1 "CHR '' '' # s"] comment_line[of "CHR ''!''" 0 "CHR '' '' # s"] by simp_all

lemma object_lines_nothing:
  "b \<noteq> ACCESS_TYPE \<Longrightarrow> list_all (\<lambda>l. split_line l = []) (object_lines c b)"
  using comment_blank(1) blank_line_words by (simp add: object_lines_def)

lemma exit_config:
  "offer aft (terminal_action w) up ''exit'' (config_children rest) [] g = Some (Inr (Left g))"
  using exit_line[of "terminal_action w" "''confExit''" up g 0 aft "tl (config_children rest)" "[]"]
  by (simp add: exit_actions config_children_def)

lemma enter_config:
  "offer aft (terminal_action w) up ''config'' (root_children ds rest others) [] g =
   Some (Inr (Entered \<lparr> fr_children = config_children rest, fr_params = [] \<rparr> g))"
proof -
  have t: "token_ok (Plain ''config'')" by simp
  let ?n = "Node [''CONfig''] ''config'' (config_children rest)"
  have r: "\<exists>e. offer aft (terminal_action w) up ''config'' (c # cs) errs g = offer aft (terminal_action w) up ''config'' cs (errs @ [e]) g"
    if "cmd_words c = [m]" "m = ''Exit''" for c cs errs m
    using one_word(3)[OF t, of 0 m c "[]" aft "terminal_action w" up cs errs g] that upper_facts access_words(11)[of "[]"] by simp
  have d: "\<exists>e. offer aft (terminal_action w) up ''config'' (c # cs) errs g = offer aft (terminal_action w) up ''config'' cs (errs @ [e]) g"
    if "cmd_words c = [''DAtabase'']" for c cs errs
  proof (rule offer_refused)
    show "split_line ''config'' = (0, 6) # []" using split_line_words[of "[Plain ''config'']" 0] by simp
    show "\<not> matchNstrict (drop (fst (0, 6)) (the_line ''config'')) ''DAtabase''"
      using the_line_words[of "[Plain ''config'']" 0] access_words(12)[of "[]"] by simp
  qed (use that upper_facts in simp_all)
  let ?d = "Node [''DAtabase''] ''database'' (exit_cmd # ds)"
  obtain e1 where e1: "offer aft (terminal_action w) up ''config'' (root_children ds rest others) [] g =
      offer aft (terminal_action w) up ''config'' (?d # ?n # others) [e1] g"
    using r[of exit_cmd "''Exit''" "?d # ?n # others" "[]"] by (auto simp: root_children_def exit_cmd_def)
  obtain errs where e: "offer aft (terminal_action w) up ''config'' (root_children ds rest others) [] g =
      offer aft (terminal_action w) up ''config'' (?n # others) errs g"
    using d[of ?d "?n # others" "[e1]"] e1 by auto
  show ?thesis
    using one_word(1,2)[OF t, of 0 "''CONfig''"] upper_facts access_words(13) e
      offer_taken[of ?n "''config''" "[]" aft "terminal_action w" up g False g others errs] by (simp add: exit_actions)
qed

text \<open>C4: the configuration of a server that has access lists (rules of 2 to 255 characters that are words of the command
language) and nothing else is read back from its own text: a server without access lists gets the same lists, in the same
order, each with its rules in order, and nothing else changes.\<close>

theorem access_config_roundtrip:
  assumes "only_access dns c" "list_all acl_ok (c_access c)" "distinct (map acl_number (c_access c))"
    and "text_line (header_line user now)" "c_access (ts_core (st_of g)) = []"
  shows "\<exists>s. showcf dns now user c = Some s \<and>
    process_text aft w (strip (built (root_desc ds rest others))) s g =
      Some (Inr (with_core (\<lambda>c'. c' \<lparr> c_access := c_access c \<rparr>) g))"
proof -
  let ?ls = "config_lines now user c"
  let ?fac = "terminal_action w"
  let ?rest = "map (strip \<circ> built) rest"
  let ?root = "\<lparr> fr_children = root_children (map (strip \<circ> built) ds) ?rest (map (strip \<circ> built) others), fr_params = [] \<rparr>"
  have rc: "\<exists>cs. fr_children ?root = Cmd [''Exit''] ''exitCMDid'' # cs" by (simp add: root_children_def exit_cmd_def)
  then obtain rcs where rc: "fr_children ?root = Cmd [''Exit''] ''exitCMDid'' # rcs" by blast
  let ?cf = "\<lparr> fr_children = config_children ?rest, fr_params = [] \<rparr>"
  have cc: "fr_children ?cf = Cmd [''Exit''] ''confExit'' # tl (config_children ?rest)" by (simp add: config_children_def)
  have idle: "ni_run aft ?fac (config_frames ?rest frs) (pre @ ls) g' = ni_run aft ?fac (config_frames ?rest frs) ls g'"
    if "list_all (\<lambda>l. split_line l = []) pre" for pre ls g' frs
    unfolding config_frames_def by (rule run_nothings[OF that cc])
  have idle_root: "ni_run aft ?fac [?root] (pre @ ls) g' = ni_run aft ?fac [?root] ls g'"
    if "list_all (\<lambda>l. split_line l = []) pre" for pre ls g'
    by (rule run_nothings[OF that rc])
  have hl: "split_line (header_line user now) = []"
    using comment_blank(2)[of "''tacppd configuration file, build by '' @ user @ '' '' @ now @ '' ''"] by (simp add: header_line_def)
  have head: "?ls @ [[]] = [header_line user now] @ (''config'' # concat (map (object_lines c) objects) @ [[], ''exit'', ''! end of config''] @ [[]])"
    by (simp add: config_lines_def)
  let ?g = "set_acls (c_access c) g"
  have as0: "acls_of g = []" using assms(5) by (simp add: acls_of_def)
  have acc: "ni_run aft ?fac (config_frames ?rest frs) (object_lines c ACCESS_TYPE @ ls) g = ni_run aft ?fac (config_frames ?rest frs) ls ?g"
    for ls frs
  proof (cases "c_access c = []")
    case True
    then have "list_all (\<lambda>l. split_line l = []) (object_lines c ACCESS_TYPE)"
      using blank_line_words comment_blank(1) by (simp add: object_lines_def)
    then have "ni_run aft ?fac (config_frames ?rest frs) (object_lines c ACCESS_TYPE @ ls) g = ni_run aft ?fac (config_frames ?rest frs) ls g"
      by (rule idle)
    with True show ?thesis using set_acls_same[of g] as0 by metis
  next
    case False
    then have "object_lines c ACCESS_TYPE @ ls = [[], '' ! '' @ obj_descr ACCESS_TYPE] @ (concat (map acl_lines (c_access c)) @ ls)"
      by (simp add: object_lines_def)
    also have "ni_run aft ?fac (config_frames ?rest frs) \<dots> g = ni_run aft ?fac (config_frames ?rest frs) (concat (map acl_lines (c_access c)) @ ls) g"
      by (rule idle) (use blank_line_words comment_blank(1) in simp)
    also have "\<dots> = ni_run aft ?fac (config_frames ?rest frs) ls ?g"
      using run_acls[OF assms(2), of g aft w ?rest frs ls] as0 assms(3) by simp
    finally show ?thesis .
  qed
  have after: "ni_run aft ?fac (config_frames ?rest frs) (concat (map (object_lines c) bs) @ ls) g' = ni_run aft ?fac (config_frames ?rest frs) ls g'"
    if "ACCESS_TYPE \<notin> set bs" for bs ls g' frs
    using that by (induction bs) (auto simp: idle object_lines_nothing)
  have obs: "concat (map (object_lines c) objects) =
      concat (map (object_lines c) [DEBUG_TYPE]) @ object_lines c ACCESS_TYPE @ concat (map (object_lines c) (drop 2 objects))"
    by (simp add: objects_def)
  have body: "ni_run aft ?fac (config_frames ?rest frs) (concat (map (object_lines c) objects) @ ls) g = ni_run aft ?fac (config_frames ?rest frs) ls ?g"
    for ls frs
    unfolding obs append_assoc by (subst after, simp, subst acc, subst after) (simp_all add: objects_def)
  have "ni_run aft ?fac [?root] (?ls @ [[]]) g =
      ni_run aft ?fac [?root] (''config'' # concat (map (object_lines c) objects) @ [[], ''exit'', ''! end of config''] @ [[]]) g"
    unfolding head by (rule idle_root) (simp add: hl)
  also have "\<dots> = ni_run aft ?fac (config_frames ?rest [?root]) (concat (map (object_lines c) objects) @ [[], ''exit'', ''! end of config''] @ [[]]) g"
    using enter_config[of aft w "[]" "map (strip \<circ> built) ds" ?rest "map (strip \<circ> built) others" g] by (simp add: config_frames_def)
  also have "\<dots> = ni_run aft ?fac (config_frames ?rest [?root]) ([[], ''exit'', ''! end of config''] @ [[]]) ?g" by (rule body)
  also have "\<dots> = ni_run aft ?fac (config_frames ?rest [?root]) [''exit'', ''! end of config'', []] ?g"
    using idle[of "[[]]"] blank_line_words by simp
  also have "\<dots> = ni_run aft ?fac [?root] [''! end of config'', []] ?g" by (simp add: config_frames_def exit_config)
  also have "\<dots> = Some (Inr (Finished ?g))"
    using idle_root[of "[''! end of config'', []]" "[]" ?g] comment_blank(2)[of "''end of config''"] blank_line_words by simp
  finally have run: "ni_run aft ?fac [?root] (?ls @ [[]]) g = Some (Inr (Finished ?g))" .
  have "list_all text_line ?ls" using assms(2,4) by (rule config_lines_text)
  then have "process_text aft w (strip (built (root_desc ds rest others))) (lines_text ?ls) g = Some (Inr ?g)"
    using run by (simp add: process_text_def run_text_def strip_root text_lines_back)
  then show ?thesis using showcf_lines[OF assms(1,2)] by (auto simp: set_acls_def)
qed

lemma empty_core_access: "only_access dns ((empty_core dns) \<lparr> c_access := as \<rparr>)"
  unfolding only_access_def
proof (intro allI impI)
  fix b n
  assume "b \<noteq> ACCESS_TYPE"
  then show "obj_cfstr dns ((empty_core dns) \<lparr> c_access := as \<rparr>) b n = []"
    by (cases b) (simp_all add: obj_cfstr_def empty_core_def debug_buildcfstr_def mgr_buildcfstr_def ls_buildcfstr_def pool_buildcfstr_def
        dev_buildcfstr_def cdb_buildcfstr_def bundle_buildcfstr_def isBundle_def ip_eq_str_def bil_buildcfstr_def peer_buildcfstr_def)
qed

definition two_lists :: acls where
  "two_lists = [\<lparr> acl_number = 20, acl_rules = [\<lparr> permit = ''^10'', deny = [] \<rparr>, \<lparr> permit = [], deny = ''.*'' \<rparr>] \<rparr>,
     \<lparr> acl_number = 3, acl_rules = [] \<rparr>]"

lemma access_config_roundtrip_witness:
  "\<exists>s. showcf no_names ''Mon'' ''root'' ((empty_core no_names) \<lparr> c_access := two_lists \<rparr>) = Some s \<and>
    process_text [] quiet_world (strip (built (root_desc [] [] []))) s fresh_terminal =
      Some (Inr (with_core (\<lambda>c. c \<lparr> c_access := two_lists \<rparr>) fresh_terminal))"
proof -
  have "list_all acl_ok two_lists" "distinct (map acl_number two_lists)" "text_line (header_line ''root'' ''Mon'')"
    by (simp_all add: two_lists_def acl_ok_def rule_ok_def LF_def text_line_def header_line_def)
  moreover have "c_access (ts_core (st_of fresh_terminal)) = []" by (simp add: fresh_terminal_def empty_core_def)
  ultimately show ?thesis
    using access_config_roundtrip[OF empty_core_access, of two_lists no_names "''root''" "''Mon''" fresh_terminal "[]" quiet_world "[]" "[]" "[]"]
    by simp
qed

text \<open>The line that is written for a syslog server on the same host is not one that can be read: the node for a server needs
an address.\<close>

lemma syslog_line_refused: "isCorrespondW [] ''{ip:}'' ''syslog'' = Inr False"
  by code_simp

end
