(* ===== verification/Tci.thy ===== *)
theory Tci
  imports Terminal
begin

text \<open>
  The control interface (\<^verbatim>\<open>src/Tci.cc\<close>): lines of a client program, each a command or an argument of one, and the rows that
  are answered. What arrives is a list of bytes, \<open>None\<close> where \<^verbatim>\<open>sockread\<close> fails; after its end every read fails.
\<close>

section \<open>Lines\<close>

type_synonym arrivals = "byte option list"

text \<open>A byte 255 and the byte behind it are dropped. A read that fails gives the empty line, whatever came before.\<close>

fun tci_line :: "string \<Rightarrow> arrivals \<Rightarrow> string \<times> arrivals" where
  "tci_line buf [] = ([], [])"
| "tci_line buf (None # evs) = ([], evs)"
| "tci_line buf (Some b # evs) =
     (if 100 \<le> length buf \<or> b = 10 \<or> b = 13 then (c_str buf, if b = 13 then tl evs else evs)
      else if b = 255 then
        (case evs of [] \<Rightarrow> (c_str buf, []) | None # evs' \<Rightarrow> (c_str buf, evs') | Some _ # evs' \<Rightarrow> tci_line buf evs')
      else tci_line (buf @ [char_of_byte b]) evs)"

definition tci_read :: "arrivals \<Rightarrow> string \<times> arrivals" where
  "tci_read evs = tci_line [] evs"

type_synonym 's tci = "arrivals \<times> string list \<times> 's tstate"

definition CRLF :: string where "CRLF = [CHR 0x0D, LF]"

definition tci_write :: "string \<Rightarrow> 's tci \<Rightarrow> 's tci" where
  "tci_write s g = (case g of (evs, out, st) \<Rightarrow> (evs, out @ [s @ CRLF], st))"

definition tci_writes :: "string list \<Rightarrow> 's tci \<Rightarrow> 's tci" where
  "tci_writes ss g = fold tci_write ss g"

definition tci_next :: "'s tci \<Rightarrow> string \<times> 's tci" where
  "tci_next g = (case g of (evs, out, st) \<Rightarrow> case tci_read evs of (s, evs') \<Rightarrow> (s, evs', out, st))"

section \<open>Commands\<close>

definition tci_begin :: string where "tci_begin = ''#:'' @ HT # ''Begin''"
definition tci_end :: string where "tci_end = ''#:'' @ HT # ''End''"
definition tci_ok :: string where "tci_ok = ''#:'' @ HT # ''Ok''"
definition tci_error :: string where "tci_error = ''#:'' @ HT # ''Error''"

definition tci_row :: "session \<Rightarrow> string" where
  "tci_row s = ses_username s @ HT # ses_port s @ HT # (if length (ses_phone s) = 0 then ''unknown/unknown'' else ses_phone s) @
     HT # ip_get (ses_addr s)"

fun tci_sessions :: "session \<Rightarrow> session list \<Rightarrow> user_data list \<Rightarrow> user_data list" where
  "tci_sessions none [] u = ses_assign none u"
| "tci_sessions none (s # c) u = tci_sessions none c (ses_assign s (ses_assign s u))"

definition tci_device_rows :: "device \<Rightarrow> string list" where
  "tci_device_rows d = (''#:'' @ HT # ''Device'' @ HT # hname (hostaddr d) @ ''('' @ dev_descr d @ '')'') # map tci_row (cusr d)"

text \<open>The session looked at last counts its user once more than the others, until the command ends.\<close>

definition tci_showusers :: "'s world \<Rightarrow> 's tci \<Rightarrow> 's tci" where
  "tci_showusers w g = (case tci_writes ([tci_begin] @ concat (map tci_device_rows (nas (c_net (ts_core (snd (snd g)))))) @ [tci_end]) g of
     (evs, out, st) \<Rightarrow>
       let none = absent_session (out_dns (w_out w)) (w_now w); n = c_net (ts_core st);
           u = fold (\<lambda>d. tci_sessions none (cusr d)) (nas n) (ud n)
       in (evs, out, st \<lparr> ts_core := (ts_core st) \<lparr> c_net := n \<lparr> ud := ses_destroy none u \<rparr> \<rparr> \<rparr>))"

definition tci_showdevices :: "'s tci \<Rightarrow> 's tci" where
  "tci_showdevices g = tci_writes ([tci_begin] @ map (\<lambda>d. dev_descr d @ HT # hname (hostaddr d) @ HT #
     (if dev_status d then ''Up'' else ''Down'')) (nas (c_net (ts_core (snd (snd g))))) @ [tci_end]) g"

definition tci_state :: "('s tstate \<Rightarrow> 's tstate) \<Rightarrow> 's tci \<Rightarrow> 's tci" where
  "tci_state f g = (case g of (evs, out, st) \<Rightarrow> (evs, out, f st))"

definition config_path :: "'s world \<Rightarrow> string" where
  "config_path w = snprintf_s 256 (w_dir w @ ''/etc/tacppd.conf'')"

text \<open>One command; the name of the user is also what \<^verbatim>\<open>clearuser\<close> reads.\<close>

definition tci_command :: "'s world \<Rightarrow> string \<Rightarrow> string \<Rightarrow> 's tci \<Rightarrow> (string \<times> 's tci) cres option" where
  "tci_command w user cmd g =
     (let st = snd (snd g); dns = out_dns (w_out w); done_with = (\<lambda>ss g. Some (Inr (user, tci_writes ss g)))
      in if cmd = ''showusers'' then Some (Inr (user, tci_showusers w g))
         else if cmd = ''showdevices'' then Some (Inr (user, tci_showdevices g))
         else if cmd = ''checkpwd'' then done_with [tci_ok] (snd (tci_next (snd (tci_next g))))
         else if cmd = ''cryptpwd'' then done_with [tci_ok] (snd (tci_next (snd (tci_next (snd (tci_next g))))))
         else if cmd = ''clearuser'' then
           (case tci_next g of (u, g') \<Rightarrow>
              case clear_devices dns u (nas (c_net (ts_core st))) st of
                None \<Rightarrow> None
              | Some st' \<Rightarrow> Some (Inr (u, tci_writes [tci_ok] (tci_state (\<lambda>_. st') g'))))
         else if cmd = ''cleardeviceport'' then
           (case tci_next g of (d, g') \<Rightarrow> case tci_next g' of (p, g'') \<Rightarrow> done_with [tci_ok] (tci_state (snmp_drop dns d p) g''))
         else if cmd = ''db_create'' then
           obind (Some (cdb_create_all (w_eng w) (c_dbs (ts_core st)) (ts_db st))) (\<lambda>(s, db).
             done_with [tci_begin, s, tci_end] (tci_state (\<lambda>st. st \<lparr> ts_db := db \<rparr>) g))
         else if cmd \<in> {''db_add'', ''db_del'', ''db_modify'', ''db_show'', ''cf_command''} then
           done_with [tci_begin, tci_end] (snd (tci_next g))
         else if cmd = ''cf_show'' then
           (case showcf dns (w_ctime w) user (ts_core st) of
              None \<Rightarrow> None
            | Some s \<Rightarrow> done_with [tci_begin, s, tci_end] g)
         else if cmd = ''cf_write'' then
           (case writecf dns (w_ctime w) (w_tm w) (config_path w) user (ts_core st) of
              None \<Rightarrow> None
            | Some fs \<Rightarrow> done_with [tci_begin, [], tci_end] (tci_state (\<lambda>st. st \<lparr> ts_files := ts_files st @ fs \<rparr>) g))
         else Some (Inr (user, g)))"

partial_function (option) tci_commands :: "'s world \<Rightarrow> string \<Rightarrow> 's tci \<Rightarrow> 's tci cres option" where
  "tci_commands w user g = (case tci_next g of (cmd, g1) \<Rightarrow>
     if cmd = [] then Some (Inr g1)
     else obind (tci_command w user cmd g1) (\<lambda>(user', g2).
       if cmd = ''exit'' \<or> cmd = ''quit'' then Some (Inr g2) else tci_commands w user' g2))"

definition tci_process :: "'s world \<Rightarrow> string \<Rightarrow> 's tci \<Rightarrow> 's tci cres option" where
  "tci_process w address g = (case tci_next g of (u, g1) \<Rightarrow> case tci_next g1 of (p, g2) \<Rightarrow>
     let c = ts_core (snd (snd g2))
     in if \<not> mgr_check (w_rx w) (out_md5 (w_out w)) (c_access c) u p address ''tci'' (c_managers c) then Some (Inr (tci_write tci_error g2))
        else tci_commands w u (tci_write tci_ok g2))"

section \<open>Lemmas\<close>

definition tci_word :: "string \<Rightarrow> bool" where
  "tci_word s = (length s \<le> 100 \<and> list_all (\<lambda>c. c \<noteq> NUL \<and> byte_of_char c \<notin> {10, 13, 255}) s)"

definition sent_line :: "string \<Rightarrow> arrivals" where
  "sent_line s = map (Some \<circ> byte_of_char) s @ [Some 13, Some 10]"

lemma tci_line_word:
  "list_all (\<lambda>c. c \<noteq> NUL \<and> byte_of_char c \<notin> {10, 13, 255}) s \<Longrightarrow> length (buf @ s) \<le> 100 \<Longrightarrow>
   tci_line buf (sent_line s @ evs) = (c_str (buf @ s), evs)"
  by (induction s arbitrary: buf) (auto simp: sent_line_def)

lemma tci_next_word:
  assumes "tci_word s"
  shows "tci_next (sent_line s @ evs, out, st) = (s, evs, out, st)"
proof -
  have "nul_free s" using assms unfolding tci_word_def nul_free_def list_all_iff by blast
  moreover have "tci_line [] (sent_line s @ evs) = (c_str ([] @ s), evs)"
    using assms unfolding tci_word_def by (intro tci_line_word) simp_all
  ultimately show ?thesis by (simp add: tci_next_def tci_read_def)
qed

lemma tci_writes_state: "tci_writes ss (evs, out, st) = (evs, out @ map (\<lambda>s. s @ CRLF) ss, st)"
  by (induction ss arbitrary: out) (simp_all add: tci_writes_def tci_write_def)

lemma tci_step:
  assumes "tci_word c" "c \<noteq> []"
  shows "tci_commands w user (sent_line c @ evs, out, st) = obind (tci_command w user c (evs, out, st)) (\<lambda>(user', g2).
       if c = ''exit'' \<or> c = ''quit'' then Some (Inr g2) else tci_commands w user' g2)"
  using assms by (subst tci_commands.simps) (simp add: tci_next_word)

lemma tci_exit: "tci_commands w user (sent_line ''exit'' @ evs, out, st) = Some (Inr (evs, out, st))"
proof -
  have "tci_word ''exit''" by code_simp
  then show ?thesis by (subst tci_step) (simp_all add: tci_command_def)
qed

text \<open>C6: a program that talks to the control interface: when its name and password are not accepted the answer is one row and
nothing is changed, whatever it sends behind them; when they are, it gets the text of the configuration between two rows, and
the file of the configuration is renamed and written twice.\<close>

theorem control_interface:
  assumes "tci_word u" "tci_word p"
  shows "\<exists>s. showcf (out_dns (w_out w)) (w_ctime w) u (ts_core st) = Some s \<and>
    (if mgr_check (w_rx w) (out_md5 (w_out w)) (c_access (ts_core st)) u p address ''tci'' (c_managers (ts_core st)) then
       tci_process w address (sent_line u @ sent_line p @ sent_line ''cf_show'' @ sent_line ''exit'', [], st) =
         Some (Inr ([], map (\<lambda>s. s @ CRLF) [tci_ok, tci_begin, s, tci_end], st)) \<and>
       (\<exists>copy. tci_process w address (sent_line u @ sent_line p @ sent_line ''cf_write'' @ sent_line ''exit'', [], st) =
         Some (Inr ([], map (\<lambda>s. s @ CRLF) [tci_ok, tci_begin, [], tci_end],
           st \<lparr> ts_files := ts_files st @ [Rename (config_path w) (config_path w @ ''.old''),
             WriteFile (config_path w) s, WriteFile copy s] \<rparr>)))
     else tci_process w address (sent_line u @ sent_line p @ evs, [], st) = Some (Inr (evs, [tci_error @ CRLF], st)))"
proof -
  obtain s where s: "showcf (out_dns (w_out w)) (w_ctime w) u (ts_core st) = Some s"
    using all_cf_ends[of "out_dns (w_out w)" "ts_core st" objects] by (auto simp: showcf_def)
  have words: "tci_word ''cf_show''" "tci_word ''cf_write''" by code_simp+
  let ?f = "config_path w"
  obtain d where d: "writecf (out_dns (w_out w)) (w_ctime w) (w_tm w) ?f u (ts_core st) =
      Some [Rename ?f (?f @ ''.old''), WriteFile ?f s, WriteFile d s]"
    using s by (simp add: writecf_def Let_def)
  have e: "sent_line ''exit'' = sent_line ''exit'' @ []" by simp
  show ?thesis
  proof (cases "mgr_check (w_rx w) (out_md5 (w_out w)) (c_access (ts_core st)) u p address ''tci'' (c_managers (ts_core st))")
    case True
    have "tci_commands w u (sent_line ''cf_show'' @ sent_line ''exit'' @ [], [tci_ok @ CRLF], st) =
        Some (Inr ([], map (\<lambda>s. s @ CRLF) [tci_ok, tci_begin, s, tci_end], st))"
      by (subst tci_step[OF words(1)], simp, simp add: tci_command_def s tci_writes_state del: append_Nil2)
        (simp add: tci_exit del: append_Nil2)
    moreover have "tci_commands w u (sent_line ''cf_write'' @ sent_line ''exit'' @ [], [tci_ok @ CRLF], st) =
        Some (Inr ([], map (\<lambda>s. s @ CRLF) [tci_ok, tci_begin, [], tci_end],
          st \<lparr> ts_files := ts_files st @ [Rename ?f (?f @ ''.old''), WriteFile ?f s, WriteFile d s] \<rparr>))"
      by (subst tci_step[OF words(2)], simp, simp add: tci_command_def d tci_writes_state tci_state_def del: append_Nil2)
        (simp add: tci_exit del: append_Nil2)
    ultimately show ?thesis using True s assms
      by (intro exI[of _ s]) (auto simp: tci_process_def tci_next_word tci_write_def Let_def intro!: exI[of _ d])
  next
    case False
    then show ?thesis using s assms by (simp add: tci_process_def tci_next_word tci_write_def Let_def)
  qed
qed

lemma control_interface_witness:
  "\<exists>s. showcf no_names [] ''a'' (empty_core no_names) = Some s \<and>
     tci_process quiet_world [] (sent_line ''a'' @ sent_line ''b'' @ sent_line ''cf_show'', [], st_of fresh_terminal) =
       Some (Inr (sent_line ''cf_show'', [tci_error @ CRLF], st_of fresh_terminal))"
proof -
  have w: "tci_word ''a''" "tci_word ''b''" by code_simp+
  have m: "\<not> mgr_check rx md5 as u p a k (c_managers (ts_core (st_of fresh_terminal)))" for rx md5 as u p a k
    by (simp add: mgr_check_def fresh_terminal_def empty_core_def)
  from control_interface[OF w, of quiet_world "st_of fresh_terminal" "[]" "sent_line ''cf_show''"]
  show ?thesis by (simp add: m) (simp add: quiet_world_def fresh_terminal_def)
qed

text \<open>Dropping a user does not return when a device has sessions, whatever user was named.\<close>

lemma clearuser_hangs:
  "tci_command w user ''clearuser'' g = None \<longleftrightarrow> (\<exists>d \<in> set (nas (c_net (ts_core (snd (snd g))))). cusr d \<noteq> [])"
  using clear_devices_hang[of "out_dns (w_out w)" "fst (tci_next g)" "nas (c_net (ts_core (snd (snd g))))" "snd (snd g)"]
  by (auto simp: tci_command_def Let_def split: prod.splits option.splits)

end
