(* ===== verification/Http.thy ===== *)
theory Http
  imports Tci Base64
begin

text \<open>
  The web interface (\<^verbatim>\<open>src/Http.cc\<close>): the lines of a request, the header fields with their arrays, the login and the file that is
  sent. What arrives is as for the control interface; \<open>fs\<close> gives the content of the files that can be opened, \<open>now\<close> is the time as
  \<^verbatim>\<open>ctime_r\<close> writes it without its line feed, \<open>dir\<close> the directory of the program. Scripts
  (\<^verbatim>\<open>WITH_PERL\<close>) are not part of the build that is modelled.
\<close>

section \<open>Reading a request\<close>

fun hread_loop :: "string \<Rightarrow> arrivals \<Rightarrow> string \<times> arrivals" where
  "hread_loop buf [] = (buf, [])"
| "hread_loop buf (None # evs) = (buf, evs)"
| "hread_loop buf (Some b # evs) =
     (if 500 \<le> length buf \<or> b = 10 \<or> b = 13 then (buf, if b = 13 then tl evs else evs)
      else hread_loop (buf @ [char_of_byte b]) evs)"

text \<open>The array has 500 bytes and no place for a terminator.\<close>

definition hread :: "arrivals \<Rightarrow> (string \<times> arrivals) cres" where
  "hread evs = (case hread_loop [] evs of (buf, evs') \<Rightarrow>
     if length buf = 500 \<and> NUL \<notin> set buf then Inl OutOfBounds else Inr (c_str buf, evs'))"

text \<open>The path and the data are written over what an earlier line left in their arrays of 100 and 200 bytes.\<close>

record http_request =
  rq_method :: string
  rq_request :: string
  rq_data :: string
  rq_agent :: string
  rq_host :: string
  rq_accept :: string
  rq_encoding :: string
  rq_language :: string
  rq_charset :: string
  rq_via :: string
  rq_forwarded :: string
  rq_cache :: string
  rq_connection :: string
  rq_authorization :: string
  rq_username :: string
  rq_password :: string
  rq_cookie :: string

definition no_request :: http_request where
  "no_request = \<lparr> rq_method = [], rq_request = replicate 100 NUL, rq_data = replicate 200 NUL, rq_agent = [], rq_host = [],
     rq_accept = [], rq_encoding = [], rq_language = [], rq_charset = [], rq_via = [], rq_forwarded = [], rq_cache = [],
     rq_connection = [], rq_authorization = [], rq_username = [], rq_password = [], rq_cookie = [] \<rparr>"

definition written_over :: "string \<Rightarrow> string \<Rightarrow> string" where
  "written_over t a = t @ drop (length t) a"

definition get_path :: "string \<Rightarrow> string" where
  "get_path s = take 100 (takeWhile (\<lambda>c. c \<noteq> CHR ''?'' \<and> c \<noteq> CHR '' '') s)"

definition get_line :: "string \<Rightarrow> http_request \<Rightarrow> http_request" where
  "get_line str d =
     (let s = drop 4 str; p = get_path s; r = drop (length p) s;
          d' = d \<lparr> rq_method := ''GET'', rq_request := written_over p (rq_request d) \<rparr>
      in case r of [] \<Rightarrow> d'
         | c # r' \<Rightarrow> if c = CHR ''?'' then d' \<lparr> rq_data := written_over (take 200 (takeWhile (\<lambda>c. c \<noteq> CHR '' '') r')) (rq_data d) \<rparr>
                    else d')"

definition post_line :: "string \<Rightarrow> http_request \<Rightarrow> http_request" where
  "post_line str d = d \<lparr> rq_method := ''POST'',
     rq_request := written_over (take 100 (takeWhile (\<lambda>c. c \<noteq> CHR '' '') (drop 5 str))) (rq_request d) \<rparr>"

text \<open>The name and the password before and behind the first colon, each in an array of 50 bytes.\<close>

definition authorization_line :: "string \<Rightarrow> http_request \<Rightarrow> http_request cres" where
  "authorization_line str d =
     (let d' = d \<lparr> rq_authorization := take 29 (drop 15 str) \<rparr>
      in if \<not> 21 < length str then Inr d'
         else cbind (base64Decode (Some (drop 21 str))) (\<lambda>sss.
           let buf = snprintf_s 254 sss; u = takeWhile (\<lambda>c. c \<noteq> CHR '':'') buf; p = drop (Suc (length u)) buf
           in if 50 \<le> length u \<or> 50 \<le> length p then Inl OutOfBounds
              else Inr (d' \<lparr> rq_username := u, rq_password := p \<rparr>)))"

definition header_line :: "string \<Rightarrow> http_request \<Rightarrow> http_request cres" where
  "header_line str d =
     (if prefixed str ''GET '' then Inr (get_line str d)
      else if prefixed str ''POST '' then Inr (post_line str d)
      else if prefixed str ''User-Agent: '' then Inr (d \<lparr> rq_agent := take 79 (drop 12 str) \<rparr>)
      else if prefixed str ''Host: '' then Inr (d \<lparr> rq_host := take 29 (drop 6 str) \<rparr>)
      else if prefixed str ''Accept: '' then Inr (d \<lparr> rq_accept := take 299 (drop 8 str) \<rparr>)
      else if prefixed str ''Accept-Encoding: '' then Inr (d \<lparr> rq_encoding := take 9 (drop 17 str) \<rparr>)
      else if prefixed str ''Accept-Language: '' then Inr (d \<lparr> rq_language := take 9 (drop 17 str) \<rparr>)
      else if prefixed str ''Accept-Charset: '' then Inr (d \<lparr> rq_charset := take 19 (drop 16 str) \<rparr>)
      else if prefixed str ''Via: '' then Inr (d \<lparr> rq_via := take 79 (drop 5 str) \<rparr>)
      else if prefixed str ''X-Forwarded-For: '' then Inr (d \<lparr> rq_forwarded := take 29 (drop 17 str) \<rparr>)
      else if prefixed str ''Cache-Control: '' then Inr (d \<lparr> rq_cache := take 19 (drop 15 str) \<rparr>)
      else if prefixed str ''Connection: '' then Inr (d \<lparr> rq_connection := take 29 (drop 12 str) \<rparr>)
      else if prefixed str ''Cookie: '' then Inr (d \<lparr> rq_cookie := drop 8 str \<rparr>)
      else if prefixed str ''Authorization: '' then authorization_line str d
      else Inr d)"

text \<open>The last byte of the array of a line is never written by the first line; later lines may fill the array.\<close>

definition next_line :: "bool \<Rightarrow> arrivals \<Rightarrow> (string \<times> arrivals) cres" where
  "next_line first evs = cbind (hread evs) (\<lambda>(s, evs').
     if first \<and> 399 \<le> length s then Inl Indeterminate else if 400 \<le> length s then Inl OutOfBounds else Inr (s, evs'))"

lemma hread_loop_shorter:
  "hread_loop buf evs = (s, evs') \<Longrightarrow> length evs' \<le> length evs \<and> (s = buf \<or> length evs' < length evs)"
  by (induction buf evs rule: hread_loop.induct) (auto split: if_splits)

lemma next_line_shorter:
  assumes "next_line f evs = Inr (s, evs')" "s \<noteq> []"
  shows "length evs' < length evs"
proof (cases "hread_loop [] evs")
  case (Pair a evs'')
  then have "s = c_str a" "evs'' = evs'" using assms(1) by (auto simp: next_line_def hread_def split: if_splits)
  then show ?thesis using hread_loop_shorter[OF Pair] assms(2) by (auto simp: c_str_def)
qed

function header_lines :: "bool \<Rightarrow> bool \<Rightarrow> http_request \<Rightarrow> arrivals \<Rightarrow> (bool \<times> http_request \<times> arrivals) cres" where
  "header_lines first post d evs = (case next_line first evs of
      Inl e \<Rightarrow> Inl e
    | Inr (str, evs') \<Rightarrow>
        if str = [] then Inr (post, d, evs')
        else (case header_line str d of Inl e \<Rightarrow> Inl e | Inr d' \<Rightarrow> header_lines False (post \<or> prefixed str ''POST '') d' evs'))"
  by pat_completeness auto
termination
  by (relation "measure (\<lambda>(f, p, d, evs). length evs)") (auto dest: next_line_shorter)

declare header_lines.simps [simp del]

definition get_request :: "arrivals \<Rightarrow> http_request cres" where
  "get_request evs = cbind (header_lines True False no_request evs) (\<lambda>(post, d, evs').
     if post then cbind (hread evs') (\<lambda>(s, evs''). Inr (d \<lparr> rq_data := take 200 (s @ replicate 200 NUL) \<rparr>)) else Inr d)"

section \<open>Replies\<close>

text \<open>What is sent, and the files that were asked for.\<close>

record http_reply =
  sent :: string
  opened :: "string list"

definition hwrite :: "string \<Rightarrow> http_reply \<Rightarrow> http_reply" where
  "hwrite s r = r \<lparr> sent := sent r @ s @ CRLF \<rparr>"

definition hwrites :: "string list \<Rightarrow> http_reply \<Rightarrow> http_reply" where
  "hwrites ss r = fold hwrite ss r"

definition http_date :: "string \<Rightarrow> string" where
  "http_date now = snprintf_s 39 (''Date: '' @ now)"

definition status_ok :: "string \<Rightarrow> string list" where
  "status_ok now = [''HTTP/1.1 200 OK'', http_date now]"

definition koi8r :: string where "koi8r = ''Content-language: koi8-r''"

definition header_html :: "string \<Rightarrow> string list" where
  "header_html now = status_ok now @ [''Server: tacppd/0.0.7'', ''Connection: close'', ''Content-type: text/html'', koi8r, []]"

definition header_gif :: "string \<Rightarrow> string list" where
  "header_gif now = status_ok now @ [''Content-type: image/gif'', []]"

definition header_jpg :: "string \<Rightarrow> string list" where
  "header_jpg now = status_ok now @ [''Content-type: image/jpeg'', []]"

definition header_class :: "string \<Rightarrow> string list" where
  "header_class now = status_ok now @ [koi8r, ''Content-type: application/octet-stream'', []]"

definition header_js :: "string \<Rightarrow> string list" where
  "header_js now = status_ok now @ [koi8r, ''Content-type: application/x-javascript'', []]"

definition header_css :: "string \<Rightarrow> string list" where
  "header_css now = status_ok now @ [koi8r, ''Content-type: text/css'', []]"

definition header_auth :: "string \<Rightarrow> string list" where
  "header_auth now = [''HTTP/1.1 401 Authorization Required'', http_date now, ''Server: tacppd/0.0.7'',
     ''WWW-Authenticate: Basic realm='' @ [CHR 0x22] @ ''www'' @ [CHR 0x22], ''Connection: close'', ''Content-Type: text/html'', []]"

section \<open>Files\<close>

datatype http_dir = HTTP_NO_DIR | HTTP_ADMIN_DIR | HTTP_USER_DIR

definition full_path :: "string \<Rightarrow> http_dir \<Rightarrow> string \<Rightarrow> string" where
  "full_path dir t f = dir @ (case t of HTTP_NO_DIR \<Rightarrow> ''/http'' | HTTP_ADMIN_DIR \<Rightarrow> ''/http/admin'' | HTTP_USER_DIR \<Rightarrow> ''/http/user'') @ f"

type_synonym files = "string \<Rightarrow> string option"

definition openfile :: "string \<Rightarrow> files \<Rightarrow> http_dir \<Rightarrow> string \<Rightarrow> http_reply \<Rightarrow> string option \<times> http_reply" where
  "openfile dir fs t f r = (fs (full_path dir t f), r \<lparr> opened := opened r @ [full_path dir t f] \<rparr>)"

definition readwrite :: "string \<Rightarrow> http_reply \<Rightarrow> http_reply" where
  "readwrite c r = r \<lparr> sent := sent r @ c \<rparr>"

definition INVALID_FILE :: string where "INVALID_FILE = ''/invalid_file.html''"
definition INVALID_AUTH_FILE :: string where "INVALID_AUTH_FILE = ''/invalid_auth.html''"

text \<open>The page for files that are not there is a file itself; it was there a moment ago, so it is not looked for once more.\<close>

definition send_nofile :: "string \<Rightarrow> files \<Rightarrow> string \<Rightarrow> http_dir \<Rightarrow> http_reply \<Rightarrow> http_reply" where
  "send_nofile dir fs now t r = (case openfile dir fs t INVALID_FILE r of
      (Some _, r1) \<Rightarrow> (case openfile dir fs t INVALID_FILE (hwrites (header_html now) r1) of
          (Some c, r2) \<Rightarrow> hwrite [] (readwrite c r2)
        | (None, r2) \<Rightarrow> r2)
    | (None, r1) \<Rightarrow> hwrites (header_html now @ [''<HTML>'', ''TACPPD internal error - no such file or directory'', ''</HTML>'', []]) r1)"

definition send_from_file :: "string \<Rightarrow> files \<Rightarrow> string \<Rightarrow> http_dir \<Rightarrow> string \<Rightarrow> http_reply \<Rightarrow> http_reply" where
  "send_from_file dir fs now t f r = (case openfile dir fs t f r of
      (Some c, r1) \<Rightarrow> readwrite c r1
    | (None, r1) \<Rightarrow> send_nofile dir fs now t r1)"

text \<open>A name shorter than an ending is compared from before its start.\<close>

definition ends_with :: "string \<Rightarrow> string \<Rightarrow> bool cres" where
  "ends_with f e = (if length f < length e then Inl OutOfBounds else Inr (drop (length f - length e) f = e))"

fun first_ending :: "string \<Rightarrow> (string \<times> 'h) list \<Rightarrow> 'h option cres" where
  "first_ending f [] = Inr None"
| "first_ending f ((e, h) # es) = cbind (ends_with f e) (\<lambda>b. if b then Inr (Some h) else first_ending f es)"

definition endings :: "string \<Rightarrow> (string \<times> string list) list" where
  "endings now = [(''.html'', header_html now), (''.htm'', header_html now), (''.gif'', header_gif now), (''.jpg'', header_jpg now),
     (''.css'', header_css now), (''.class'', header_class now), (''.js'', header_js now)]"

definition send_file :: "string \<Rightarrow> files \<Rightarrow> string \<Rightarrow> http_dir \<Rightarrow> string \<Rightarrow> http_reply \<Rightarrow> http_reply cres" where
  "send_file dir fs now t f r = cbind (first_ending f (endings now)) (\<lambda>h. case h of
      None \<Rightarrow> Inr (send_nofile dir fs now t r)
    | Some ls \<Rightarrow> Inr (hwrite [] (send_from_file dir fs now t f (hwrites ls r))))"

definition send_authen :: "string \<Rightarrow> files \<Rightarrow> string \<Rightarrow> http_dir \<Rightarrow> http_reply \<Rightarrow> http_reply" where
  "send_authen dir fs now t r = hwrite [] (send_from_file dir fs now t INVALID_AUTH_FILE (hwrites (header_auth now) r))"

section \<open>A connection\<close>

definition http_process :: "'s world \<Rightarrow> files \<Rightarrow> string \<Rightarrow> core \<Rightarrow> arrivals \<Rightarrow> http_reply cres" where
  "http_process w fs address c evs = cbind (get_request evs) (\<lambda>d.
     let dir = w_dir w; now = w_ctime w; r = \<lparr> sent = [], opened = [] \<rparr>
     in if rq_username d = [] \<or> rq_password d = [] then Inr (send_authen dir fs now HTTP_NO_DIR r)
        else if \<not> mgr_check (w_rx w) (out_md5 (w_out w)) (c_access c) (rq_username d) (rq_password d) address ''http'' (c_managers c)
        then Inr (send_authen dir fs now HTTP_NO_DIR r)
        else cbind (buf_str 100 (rq_request d)) (\<lambda>f.
          if f = [] then Inl OutOfBounds
          else if last f = CHR ''/'' then send_file dir fs now HTTP_ADMIN_DIR (snprintf_s 199 (f @ ''index.html'')) r
          else send_file dir fs now HTTP_ADMIN_DIR f r))"

section \<open>Lemmas\<close>

definition http_word :: "string \<Rightarrow> bool" where
  "http_word s = (length s \<le> 398 \<and> list_all (\<lambda>c. c \<noteq> NUL \<and> byte_of_char c \<noteq> 10 \<and> byte_of_char c \<noteq> 13) s)"

lemma hread_loop_word:
  "list_all (\<lambda>c. c \<noteq> NUL \<and> byte_of_char c \<noteq> 10 \<and> byte_of_char c \<noteq> 13) s \<Longrightarrow> length (buf @ s) \<le> 398 \<Longrightarrow>
   hread_loop buf (sent_line s @ evs) = (buf @ s, evs)"
  by (induction s arbitrary: buf) (auto simp: sent_line_def)

lemma next_line_word:
  assumes "http_word s"
  shows "next_line first (sent_line s @ evs) = Inr (s, evs)"
proof -
  have "nul_free s" using assms unfolding http_word_def nul_free_def list_all_iff by blast
  moreover have "hread_loop [] (sent_line s @ evs) = ([] @ s, evs)"
    using assms unfolding http_word_def by (intro hread_loop_word) simp_all
  ultimately show ?thesis using assms by (simp add: next_line_def hread_def http_word_def)
qed

lemma header_lines_word:
  "http_word s \<Longrightarrow> header_lines first post d (sent_line s @ evs) =
     (if s = [] then Inr (post, d, evs)
      else case header_line s d of Inl e \<Rightarrow> Inl e | Inr d' \<Rightarrow> header_lines False (post \<or> prefixed s ''POST '') d' evs)"
  by (subst header_lines.simps) (simp add: next_line_word)

lemma first_header_line: "header_line (''GET '' @ s) d = Inr (get_line (''GET '' @ s) d)"
  by (auto simp: header_line_def prefixed_iff)

lemma auth_header_line: "header_line (''Authorization: '' @ s) d = authorization_line (''Authorization: '' @ s) d"
  by (simp add: header_line_def prefixed_iff)

lemma not_post: "\<not> prefixed (''GET '' @ s) ''POST ''" "\<not> prefixed (''Authorization: '' @ s) ''POST ''"
  by (simp_all add: prefixed_iff)

text \<open>A path as a browser sends it.\<close>

definition path_ok :: "string \<Rightarrow> bool" where
  "path_ok p = (p \<noteq> [] \<and> length p \<le> 99 \<and> list_all (\<lambda>c. c \<noteq> NUL \<and> c \<noteq> CHR ''?'' \<and> c \<noteq> CHR '' '' \<and> byte_of_char c \<noteq> 10 \<and> byte_of_char c \<noteq> 13) p)"

lemma get_line_path:
  assumes "path_ok p"
  shows "get_line (''GET '' @ p @ '' HTTP/1.1'') d = d \<lparr> rq_method := ''GET'', rq_request := written_over p (rq_request d) \<rparr>"
proof -
  have "\<forall>c \<in> set p. c \<noteq> CHR ''?'' \<and> c \<noteq> CHR '' ''" using assms unfolding path_ok_def list_all_iff by blast
  then have "takeWhile (\<lambda>c. c \<noteq> CHR ''?'' \<and> c \<noteq> CHR '' '') (p @ '' HTTP/1.1'') = p"
    by (subst takeWhile_append2) auto
  then have "get_path (p @ '' HTTP/1.1'') = p" using assms by (simp add: get_path_def path_ok_def)
  then show ?thesis by (simp add: get_line_def Let_def)
qed

lemma path_read: "path_ok p \<Longrightarrow> buf_str 100 (written_over p (replicate 100 NUL)) = Inr p"
proof -
  assume p: "path_ok p"
  then have "NUL \<notin> set p" unfolding path_ok_def list_all_iff by blast
  then have "c_str (p @ replicate (100 - length p) NUL) = p" by (rule c_str_pad)
  then show ?thesis using p by (simp add: buf_str_def written_over_def path_ok_def)
qed

text \<open>The name and the password come back; the arrays they are copied to are never left.\<close>

lemma code_b64_groups: "c \<in> set (b64_groups s) \<Longrightarrow> 43 \<le> code c"
proof -
  have g: "43 \<le> code (b64_char i)" if "i < 64" for i using that by (simp add: code_b64_char) presburger
  have e: "43 \<le> code CHR ''=''" by code_simp
  have k: "(p, q, r, t) = sextets (code x) b c \<Longrightarrow> b < 256 \<Longrightarrow> c < 256 \<Longrightarrow> p < 64 \<and> q < 64 \<and> r < 64 \<and> t < 64" for p q r t x b c
    using sextets_less[of "code x" b c p q r t] by simp
  show "c \<in> set (b64_groups s) \<Longrightarrow> 43 \<le> code c"
  proof (induction s rule: b64_groups.induct)
    case (4 x y z s)
    obtain p q r t where "sextets (code x) (code y) (code z) = (p, q, r, t)" by (cases "sextets (code x) (code y) (code z)") auto
    then show ?case using 4 k[of p q r t x "code y" "code z"] by (auto intro!: g)
  qed (auto simp: e intro!: g dest!: k split: prod.splits)
qed

lemma authorization_back:
  assumes "nul_free u" "nul_free p" "CHR '':'' \<notin> set u" "length u + length p \<le> 44"
  shows "authorization_line (''Authorization: Basic '' @ base64Encode (Some (u @ CHR '':'' # p))) d =
    Inr (d \<lparr> rq_authorization := take 29 (''Basic '' @ base64Encode (Some (u @ CHR '':'' # p))), rq_username := u, rq_password := p \<rparr>)"
proof -
  let ?s = "u @ CHR '':'' # p"
  have s: "nul_free ?s" "length ?s \<le> 45" using assms by (auto simp: nul_free_def)
  then have d: "base64Decode (Some (base64Encode (Some ?s))) = Inr ?s" by (rule base64_decode_encode)
  have "b64_groups ?s \<noteq> []" using b64_groups_length[of ?s] by auto
  then have l: "0 < length (base64Encode (Some ?s))" using s by (simp add: base64_encode_short)
  have b: "snprintf_s 254 ?s = ?s" using s by (simp add: snprintf_s_short)
  have "\<forall>c \<in> set u. c \<noteq> CHR '':''" using assms(3) by blast
  then have t: "takeWhile (\<lambda>c. c \<noteq> CHR '':'') ?s = u" by (subst takeWhile_append2) auto
  show ?thesis using assms(4) l by (simp add: authorization_line_def d b t Let_def)
qed

lemma authorization_word:
  assumes "nul_free s" "length s \<le> 45"
  shows "http_word (''Authorization: Basic '' @ base64Encode (Some s))"
proof -
  have c: "c \<noteq> NUL \<and> byte_of_char c \<noteq> 10 \<and> byte_of_char c \<noteq> 13" if "43 \<le> code c" for c
  proof -
    have "unat (byte_of_char c) = code c" by (simp add: byte_of_char_def unat_of_nat take_bit_nat_eq_self)
    then show ?thesis using that by (auto simp: code_def)
  qed
  have "list_all (\<lambda>c. c \<noteq> NUL \<and> byte_of_char c \<noteq> 10 \<and> byte_of_char c \<noteq> 13) (b64_groups s)"
    using c code_b64_groups by (auto simp: list_all_iff)
  moreover have "list_all (\<lambda>c. c \<noteq> NUL \<and> byte_of_char c \<noteq> 10 \<and> byte_of_char c \<noteq> 13) ''Authorization: Basic ''" by code_simp
  moreover have "length (b64_groups s) \<le> 60" using assms(2) b64_groups_length[of s] by simp
  ultimately show ?thesis using assms by (simp add: http_word_def base64_encode_short)
qed

lemma page_request:
  assumes "path_ok f" "nul_free u" "nul_free p" "CHR '':'' \<notin> set u" "length u + length p \<le> 44"
  shows "\<exists>d. get_request (sent_line (''GET '' @ f @ '' HTTP/1.1'') @
      sent_line (''Authorization: Basic '' @ base64Encode (Some (u @ CHR '':'' # p))) @ sent_line [] @ evs) = Inr d \<and>
    rq_username d = u \<and> rq_password d = p \<and> rq_request d = written_over f (replicate 100 NUL)"
proof -
  let ?s = "u @ CHR '':'' # p"
  have "http_word (''GET '' @ f @ '' HTTP/1.1'')"
  proof -
    have "list_all (\<lambda>c. c \<noteq> NUL \<and> byte_of_char c \<noteq> 10 \<and> byte_of_char c \<noteq> 13) ''GET ''"
      "list_all (\<lambda>c. c \<noteq> NUL \<and> byte_of_char c \<noteq> 10 \<and> byte_of_char c \<noteq> 13) '' HTTP/1.1''" by code_simp+
    then show ?thesis using assms(1) unfolding http_word_def path_ok_def list_all_iff by auto
  qed
  moreover have "http_word (''Authorization: Basic '' @ base64Encode (Some ?s))"
    using assms(2,3,5) by (intro authorization_word) (auto simp: nul_free_def)
  moreover have "http_word []" by (simp add: http_word_def)
  ultimately show ?thesis
    using authorization_back[OF assms(2,3,4,5)] not_post first_header_line[of "f @ '' HTTP/1.1''"]
      auth_header_line[of "''Basic '' @ base64Encode (Some ?s)"] get_line_path[OF assms(1)]
    by (simp add: get_request_def header_lines_word no_request_def)
qed

text \<open>What a reply can have asked for.\<close>

lemma opened_simps [simp]:
  "opened (hwrite s r) = opened r" "opened (hwrites ss r) = opened r" "opened (readwrite c r) = opened r"
  "snd (openfile dir fs t f r) = r \<lparr> opened := opened r @ [full_path dir t f] \<rparr>" "fst (openfile dir fs t f r) = fs (full_path dir t f)"
proof -
  show w: "opened (hwrite s r) = opened r" for s r by (simp add: hwrite_def)
  show "opened (hwrites ss r) = opened r" by (induction ss arbitrary: r) (simp_all add: hwrites_def w)
qed (simp_all add: readwrite_def openfile_def)

lemma opened_nofile: "set (opened (send_nofile dir fs now t r)) \<subseteq> set (opened r) \<union> {full_path dir t INVALID_FILE}"
  by (auto simp: send_nofile_def openfile_def split: option.splits)

lemma opened_file: "set (opened (send_from_file dir fs now t f r)) \<subseteq> set (opened r) \<union> {full_path dir t f, full_path dir t INVALID_FILE}"
  using opened_nofile[of dir fs now t "r \<lparr> opened := opened r @ [full_path dir t f] \<rparr>"]
  by (auto simp: send_from_file_def openfile_def split: option.splits)

lemma opened_send: "send_file dir fs now t f r = Inr r' \<Longrightarrow>
    set (opened r') \<subseteq> set (opened r) \<union> {full_path dir t f, full_path dir t INVALID_FILE}"
  using opened_file[of dir fs now t f] opened_nofile[of dir fs now t r]
  by (auto simp: send_file_def split: option.splits) (metis (no_types, lifting) Un_iff insertE opened_simps(2) singletonD subsetD)

section \<open>Properties\<close>

text \<open>C5: the pages of administrators need a login: whatever a client sends, a file is asked for under the directory of the
administrators only when the request had a name and a password the list of managers accepts for the web; without them the two
pages for failures are all that is looked for.\<close>

theorem web_pages_need_login:
  assumes "http_process w fs address c evs = Inr r" "f \<in> set (opened r)"
  shows "f \<in> {full_path (w_dir w) HTTP_NO_DIR INVALID_AUTH_FILE, full_path (w_dir w) HTTP_NO_DIR INVALID_FILE} \<or>
    (\<exists>d g. get_request evs = Inr d \<and> f = full_path (w_dir w) HTTP_ADMIN_DIR g \<and>
      mgr_check (w_rx w) (out_md5 (w_out w)) (c_access c) (rq_username d) (rq_password d) address ''http'' (c_managers c))"
proof -
  obtain d where d: "get_request evs = Inr d" using assms(1) by (auto simp: http_process_def)
  let ?r = "\<lparr> sent = [], opened = [] \<rparr>"
  have auth: "set (opened (send_authen (w_dir w) fs (w_ctime w) HTTP_NO_DIR ?r)) \<subseteq>
      {full_path (w_dir w) HTTP_NO_DIR INVALID_AUTH_FILE, full_path (w_dir w) HTTP_NO_DIR INVALID_FILE}"
    using opened_file[of "w_dir w" fs "w_ctime w" HTTP_NO_DIR INVALID_AUTH_FILE "hwrites (header_auth (w_ctime w)) ?r"]
    by (simp add: send_authen_def)
  show ?thesis
  proof (cases "r = send_authen (w_dir w) fs (w_ctime w) HTTP_NO_DIR ?r")
    case True
    then show ?thesis using auth assms(2) by blast
  next
    case False
    then have m: "mgr_check (w_rx w) (out_md5 (w_out w)) (c_access c) (rq_username d) (rq_password d) address ''http'' (c_managers c)"
      and "\<exists>g. send_file (w_dir w) fs (w_ctime w) HTTP_ADMIN_DIR g ?r = Inr r"
      using assms(1) by (auto simp: http_process_def d Let_def split: if_splits)
    then obtain g where "send_file (w_dir w) fs (w_ctime w) HTTP_ADMIN_DIR g ?r = Inr r" by blast
    from opened_send[OF this] assms(2) have "f = full_path (w_dir w) HTTP_ADMIN_DIR g \<or> f = full_path (w_dir w) HTTP_ADMIN_DIR INVALID_FILE"
      by auto
    then show ?thesis using d m by blast
  qed
qed

text \<open>A page with its name and password from a browser: the file is sent behind its header.\<close>

lemma web_page:
  assumes "path_ok (g @ ''.html'')" "nul_free u" "nul_free p" "CHR '':'' \<notin> set u" "length u + length p \<le> 44" "u \<noteq> []" "p \<noteq> []"
    and "mgr_check (w_rx w) (out_md5 (w_out w)) (c_access c) u p address ''http'' (c_managers c)"
    and "fs (w_dir w @ ''/http/admin'' @ g @ ''.html'') = Some content"
  shows "\<exists>r. http_process w fs address c (sent_line (''GET '' @ (g @ ''.html'') @ '' HTTP/1.1'') @
      sent_line (''Authorization: Basic '' @ base64Encode (Some (u @ CHR '':'' # p))) @ sent_line [] @ evs) = Inr r \<and>
    sent r = sent (hwrites (header_html (w_ctime w)) \<lparr> sent = [], opened = [] \<rparr>) @ content @ CRLF \<and>
    opened r = [w_dir w @ ''/http/admin'' @ g @ ''.html'']"
proof -
  let ?r = "\<lparr> sent = [], opened = [] \<rparr>"
  have e: "first_ending (g @ ''.html'') (endings now) = Inr (Some (header_html now))" for now
    by (simp add: endings_def ends_with_def)
  have f: "full_path (w_dir w) HTTP_ADMIN_DIR (g @ ''.html'') = w_dir w @ ''/http/admin'' @ g @ ''.html''" by (simp add: full_path_def)
  from page_request[OF assms(1-5), of evs] obtain d where
    d: "get_request (sent_line (''GET '' @ (g @ ''.html'') @ '' HTTP/1.1'') @
      sent_line (''Authorization: Basic '' @ base64Encode (Some (u @ CHR '':'' # p))) @ sent_line [] @ evs) = Inr d"
    "rq_username d = u" "rq_password d = p" "rq_request d = written_over (g @ ''.html'') (replicate 100 NUL)" by blast
  have s: "send_file (w_dir w) fs now HTTP_ADMIN_DIR (g @ ''.html'') ?r =
      Inr (hwrite [] (readwrite content ((hwrites (header_html now) ?r) \<lparr> opened := [w_dir w @ ''/http/admin'' @ g @ ''.html''] \<rparr>)))" for now
    using assms(9) by (simp add: send_file_def e send_from_file_def openfile_def f) 
  show ?thesis using assms(6,7,8) d path_read[OF assms(1)]
    by (simp add: http_process_def Let_def s hwrite_def readwrite_def)
qed

lemma web_pages_need_login_witness:
  "\<exists>r. http_process quiet_world (\<lambda>_. None) [] (empty_core no_names) [] = Inr r \<and>
    ''/http/invalid_auth.html'' \<in> set (opened r) \<and>
    (''/http/invalid_auth.html'' \<in> {full_path [] HTTP_NO_DIR INVALID_AUTH_FILE, full_path [] HTTP_NO_DIR INVALID_FILE} \<or>
      (\<exists>d g. get_request [] = Inr d \<and> ''/http/invalid_auth.html'' = full_path [] HTTP_ADMIN_DIR g))"
proof -
  have q: "w_dir quiet_world = []" by (simp add: quiet_world_def)
  have "get_request [] = Inr no_request" by (simp add: get_request_def header_lines.simps next_line_def hread_def c_str_def)
  then have p: "http_process quiet_world (\<lambda>_. None) [] (empty_core no_names) [] =
      Inr (send_authen [] (\<lambda>_. None) (w_ctime quiet_world) HTTP_NO_DIR \<lparr> sent = [], opened = [] \<rparr>)"
    by (simp add: http_process_def no_request_def q)
  have o: "''/http/invalid_auth.html'' \<in> set (opened (send_authen [] (\<lambda>_. None) (w_ctime quiet_world) HTTP_NO_DIR \<lparr> sent = [], opened = [] \<rparr>))"
    by (simp add: send_authen_def send_from_file_def send_nofile_def openfile_def full_path_def INVALID_AUTH_FILE_def)
  from web_pages_need_login[OF p o] show ?thesis using p o q by (auto simp: q)
qed

end
