(* ===== verification/SnmpModule.thy ===== *)
theory SnmpModule
  imports Utils
begin

text \<open>
  The modules that ask a device for its users (\<^verbatim>\<open>src/snmp/*.cc\<close>) and the data they share with the daemon
  (\<^verbatim>\<open>src/include/snmp_module.h\<close>). A module is given the function \<open>ask\<close> that reads the table of an object and may return null, and gives what it would send as lists of \<open>(object, value)\<close>. The error text is an array of 201 bytes of the caller.
  \<^verbatim>\<open>cisco-trf.cc\<close> does not compile and is left out.
\<close>

section \<open>Tables and results\<close>

record snmp_d =
  sn_res :: string
  sn_idx :: int
  sn_idx1 :: int

type_synonym table = "snmp_d list"

definition tab_get :: "nat \<Rightarrow> table \<Rightarrow> snmp_d option" where
  "tab_get n t = (if n < length t then Some (t ! n) else None)"

text \<open>A table that was not read is a null pointer.\<close>

definition tab_at :: "nat \<Rightarrow> table option \<Rightarrow> snmp_d option cres" where
  "tab_at n t = (case t of None \<Rightarrow> Inl NullDeref | Some t \<Rightarrow> Inr (tab_get n t))"

record snmp_out =
  so_user :: string
  so_port :: string
  so_oo :: "64 word"
  so_io :: "64 word"

record snmp_device =
  sd_outs :: "snmp_out list"
  sd_device :: string
  sd_commun :: string

definition new_out :: "string \<Rightarrow> string \<Rightarrow> snmp_out" where
  "new_out u p = \<lparr> so_user = u, so_port = p, so_oo = 0, so_io = 0 \<rparr>"

definition new_snmp_device :: "string \<Rightarrow> string \<Rightarrow> snmp_device" where
  "new_snmp_device d c = \<lparr> sd_outs = [], sd_device = d, sd_commun = c \<rparr>"

definition sd_add :: "snmp_out \<Rightarrow> snmp_device \<Rightarrow> snmp_device" where
  "sd_add so sd = sd \<lparr> sd_outs := sd_outs sd @ [so] \<rparr>"

definition sd_get :: "nat \<Rightarrow> snmp_device \<Rightarrow> snmp_out option" where
  "sd_get n sd = (if n < length (sd_outs sd) then Some (sd_outs sd ! n) else None)"

definition port_seen :: "string \<Rightarrow> snmp_device \<Rightarrow> bool" where
  "port_seen p sd = (\<exists>x \<in> set (sd_outs sd). so_port x = p)"

definition SNMP_ifName :: string where "SNMP_ifName = ''.1.3.6.1.2.1.31.1.1.1.1''"
definition SNMP_ifAdminStatus :: string where "SNMP_ifAdminStatus = ''.1.3.6.1.2.1.2.2.1.7''"
definition SNMP_CISCO_tsLineUser :: string where "SNMP_CISCO_tsLineUser = ''.1.3.6.1.4.1.9.2.9.2.1.18''"
definition SNMP_CISCO_cpmActiveUserID :: string where "SNMP_CISCO_cpmActiveUserID = ''.1.3.6.1.4.1.9.10.19.1.3.1.1.3''"
definition SNMP_CISCO_cpmActiveTTYNumber :: string where
  "SNMP_CISCO_cpmActiveTTYNumber = ''.1.3.6.1.4.1.9.10.19.1.3.1.1.14''"
definition SNMP_CISCO_cpmActiveEntryPort :: string where
  "SNMP_CISCO_cpmActiveEntryPort = ''.1.3.6.1.4.1.9.10.19.1.3.1.1.10''"
definition SNMP_CISCO_cpmActiveEntryChannel :: string where
  "SNMP_CISCO_cpmActiveEntryChannel = ''.1.3.6.1.4.1.9.10.19.1.3.1.1.11''"

text \<open>Reading a table may go on for ever and may fail (\<open>Snmp\<close>).\<close>

type_synonym ask_table = "string \<Rightarrow> string \<Rightarrow> string \<Rightarrow> table option cres option"

definition ask_for :: "ask_table \<Rightarrow> snmp_device \<Rightarrow> string \<Rightarrow> (table option \<Rightarrow> 'b cres option) \<Rightarrow> 'b cres option" where
  "ask_for ask sd obj f = obind (ask (sd_device sd) (sd_commun sd) obj) f"

definition no_answer :: "snmp_device \<Rightarrow> string" where
  "no_answer sd = snprintf_s 200 (''NAS '' @ sd_device sd @ '' not responded by SNMP, check community'')"

section \<open>Users of a device\<close>

text \<open>A call: the asynchronous line, or the time slot of a serial interface.\<close>

definition channel_port :: "string \<Rightarrow> string \<Rightarrow> string \<Rightarrow> string" where
  "channel_port tty p c = (if tty = ''-1'' then snprintf_s 99 (''Se'' @ p @ '':'' @ dec_int (wrap32 (atoi_c c - 1)))
     else snprintf_s 99 (''As'' @ tty))"

text \<open>The four tables of the active calls side by side; the flag says whether the port of the last call was there before.\<close>

fun channels :: "table \<Rightarrow> table option \<Rightarrow> table option \<Rightarrow> table option \<Rightarrow> nat \<Rightarrow> bool \<Rightarrow> snmp_device \<Rightarrow>
    (bool \<times> snmp_device) cres" where
  "channels [] ttys ports chans i aaa sd = Inr (aaa, sd)"
| "channels (u # us) ttys ports chans i aaa sd = cbind (tab_at i ttys) (\<lambda>t. case t of None \<Rightarrow> Inr (aaa, sd) | Some t \<Rightarrow>
     cbind (tab_at i ports) (\<lambda>p. case p of None \<Rightarrow> Inr (aaa, sd) | Some p \<Rightarrow>
     cbind (tab_at i chans) (\<lambda>c. case c of None \<Rightarrow> Inr (aaa, sd) | Some c \<Rightarrow>
       let port = channel_port (sn_res t) (sn_res p) (sn_res c); seen = port_seen port sd
       in channels us ttys ports chans (Suc i) seen
            (if \<not> seen \<and> 0 < length (sn_res u) then sd_add (new_out (sn_res u) port) sd else sd))))"

text \<open>The next interface whose name begins with As, from the one that was read: the index is moved behind the one found, and
the loop around moves it once more.\<close>

function next_as :: "table \<Rightarrow> nat \<Rightarrow> snmp_d option \<Rightarrow> snmp_d option \<times> nat" where
  "next_as names i None = (None, i)"
| "next_as names i (Some n) = (if prefixed (sn_res n) ''As'' then (Some n, i) else next_as names (Suc i) (tab_get i names))"
  by pat_completeness auto
termination
  by (relation "measure (\<lambda>(names, i, r). case r of None \<Rightarrow> 0 | Some _ \<Rightarrow> Suc (length names - i))") (auto simp: tab_get_def)

lemma next_as_forward: "next_as names i r = (r', i') \<Longrightarrow> i \<le> i'"
proof (induction names i r arbitrary: r' i' rule: next_as.induct)
  case (2 names i n)
  show ?case
  proof (cases "prefixed (sn_res n) ''As''")
    case False
    then have "Suc i \<le> i'" using 2 by simp
    then show ?thesis by simp
  qed (use 2 in simp)
qed simp

lemma next_as_later:
  assumes "(r, i') = next_as names i s" "tab_get i names \<noteq> None"
  shows "length names - Suc i' < length names - i"
proof -
  have "i \<le> i'" using assms(1) by (intro next_as_forward[of names i s r]) simp
  moreover have "i < length names" using assms(2) by (simp add: tab_get_def split: if_splits)
  ultimately show ?thesis by linarith
qed

function async_lines :: "table \<Rightarrow> table option \<Rightarrow> nat \<Rightarrow> nat \<Rightarrow> bool \<Rightarrow> snmp_device \<Rightarrow> (bool \<times> snmp_device) cres" where
  "async_lines names users i j aaa sd =
     (if tab_get i names = None then Inr (aaa, sd)
      else case tab_at j users of
        Inl e \<Rightarrow> Inl e
      | Inr None \<Rightarrow> Inr (aaa, sd)
      | Inr (Some u) \<Rightarrow>
          (case next_as names i (tab_get i names) of
             (None, _) \<Rightarrow> Inr (aaa, sd)
           | (Some n, i') \<Rightarrow>
               if length (sn_res u) = 0 then async_lines names users (Suc i') (Suc j) aaa sd
               else let seen = port_seen (sn_res n) sd
                    in async_lines names users (Suc i') (Suc j) seen
                         (if \<not> seen \<and> 0 < length (sn_res n) then sd_add (new_out (sn_res u) (sn_res n)) sd else sd)))"
  by pat_completeness auto
termination
  by (relation "measure (\<lambda>(names, users, i, j, aaa, sd). length names - i)")
    (use next_as_later in \<open>simp_all add: tab_get_def split: if_splits\<close>)

declare async_lines.simps [simp del]

text \<open>The other interfaces, by the flag the last line left.\<close>

definition idle_ports :: "table \<Rightarrow> bool \<Rightarrow> snmp_device \<Rightarrow> snmp_device" where
  "idle_ports names aaa sd = (if aaa then sd else sd \<lparr> sd_outs := sd_outs sd @ map (\<lambda>n. new_out [] (sn_res n)) names \<rparr>)"

section \<open>The modules\<close>

text \<open>The answer, the text of an error and the users.\<close>

type_synonym getnas = "ask_table \<Rightarrow> string \<Rightarrow> snmp_device \<Rightarrow> (bool \<times> string \<times> snmp_device) cres option"

definition active_calls :: "table option \<Rightarrow> table option \<Rightarrow> table option \<Rightarrow> table option \<Rightarrow> snmp_device \<Rightarrow> (bool \<times> snmp_device) cres" where
  "active_calls users ttys chans ports sd =
     (case users of None \<Rightarrow> Inl NullDeref | Some us \<Rightarrow> channels us ttys ports chans 0 False sd)"

definition getnas_cisco :: getnas where
  "getnas_cisco ask derr sd = ask_for ask sd SNMP_ifName (\<lambda>names. case names of
      None \<Rightarrow> Some (Inr (False, no_answer sd, sd))
    | Some names \<Rightarrow>
        ask_for ask sd SNMP_CISCO_tsLineUser (\<lambda>lines.
        ask_for ask sd SNMP_CISCO_cpmActiveUserID (\<lambda>users.
        ask_for ask sd SNMP_CISCO_cpmActiveTTYNumber (\<lambda>ttys.
        ask_for ask sd SNMP_CISCO_cpmActiveEntryChannel (\<lambda>chans.
        ask_for ask sd SNMP_CISCO_cpmActiveEntryPort (\<lambda>ports.
          Some (cbind (active_calls users ttys chans ports sd) (\<lambda>(aaa, sd1).
            cbind (async_lines names lines 0 2 aaa sd1) (\<lambda>(aaa, sd2). Inr (True, [], idle_ports names aaa sd2))))))))))"

definition getnas_asy :: getnas where
  "getnas_asy ask derr sd = ask_for ask sd SNMP_ifName (\<lambda>names. case names of
      None \<Rightarrow> Some (Inr (False, no_answer sd, sd))
    | Some names \<Rightarrow> ask_for ask sd SNMP_CISCO_tsLineUser (\<lambda>lines.
        Some (cbind (async_lines names lines 0 2 False sd) (\<lambda>(aaa, sd1). Inr (True, [], sd1)))))"

definition getnas_e1 :: getnas where
  "getnas_e1 ask derr sd = ask_for ask sd SNMP_CISCO_cpmActiveUserID (\<lambda>users. case users of
      None \<Rightarrow> Some (Inr (False, no_answer sd, sd))
    | Some us \<Rightarrow>
        ask_for ask sd SNMP_CISCO_cpmActiveTTYNumber (\<lambda>ttys.
        ask_for ask sd SNMP_CISCO_cpmActiveEntryChannel (\<lambda>chans.
        ask_for ask sd SNMP_CISCO_cpmActiveEntryPort (\<lambda>ports.
          Some (cbind (active_calls (Some us) ttys chans ports sd) (\<lambda>(aaa, sd1). Inr (True, [], sd1)))))))"

definition getnas_none :: getnas where
  "getnas_none ask derr sd = Some (Inr (False, derr, sd))"

text \<open>Closing a port and opening it again: the interface is found by its name, the last one of that name, and addressed by its
place in the table.\<close>

type_synonym dropnas = "ask_table \<Rightarrow> string \<Rightarrow> string \<Rightarrow> snmp_device \<Rightarrow> (bool \<times> string \<times> (string \<times> string) list) cres option"

definition tac_port :: "string \<Rightarrow> string" where
  "tac_port p = (if prefixed p ''tty'' then snprintf_s 49 (''As'' @ drop 3 p) else snprintf_s 49 p)"

fun last_named :: "string \<Rightarrow> nat \<Rightarrow> table \<Rightarrow> nat option \<Rightarrow> nat option" where
  "last_named p j [] r = r"
| "last_named p j (x # xs) r = last_named p (Suc j) xs (if sn_res x = p then Some j else r)"

definition admin_status :: "nat \<Rightarrow> string" where
  "admin_status k = snprintf_s 99 (SNMP_ifAdminStatus @ ''.'' @ dec_nat k)"

definition dropnas_cisco :: dropnas where
  "dropnas_cisco ask derr p sd = ask_for ask sd SNMP_ifName (\<lambda>names. Some (Inr (case names of
      None \<Rightarrow> (False, snprintf_s 200 (''ifName returns false, check host '' @ sd_device sd @ '' for community''), [])
    | Some names \<Rightarrow> (case last_named (tac_port p) 0 names None of
        None \<Rightarrow> (False, snprintf_s 200 (''no ifIndex/ifName information, check host '' @ sd_device sd), [])
      | Some k \<Rightarrow> (True, derr, [(admin_status (k + 1), ''2''), (admin_status (k + 1), ''1'')])))))"

definition dropnas_none :: dropnas where
  "dropnas_none ask derr p sd = Some (Inr (True, derr, []))"

text \<open>What loading a module gives: its two functions, null when it was not found or has them not.\<close>

record snmp_module =
  m_getnas :: "getnas option"
  m_dropnas :: "dropnas option"

definition none_so :: snmp_module where "none_so = \<lparr> m_getnas = Some getnas_none, m_dropnas = Some dropnas_none \<rparr>"
definition cisco_so :: snmp_module where "cisco_so = \<lparr> m_getnas = Some getnas_cisco, m_dropnas = Some dropnas_cisco \<rparr>"
definition cisco_asy_so :: snmp_module where "cisco_asy_so = \<lparr> m_getnas = Some getnas_asy, m_dropnas = Some dropnas_cisco \<rparr>"
definition cisco_e1_so :: snmp_module where "cisco_e1_so = \<lparr> m_getnas = Some getnas_e1, m_dropnas = Some dropnas_cisco \<rparr>"

section \<open>Lemmas\<close>

definition reported :: "table \<Rightarrow> table \<Rightarrow> table" where
  "reported pre lines = (if pre = [] then lines else case lines of a # b # r \<Rightarrow> a # r | _ \<Rightarrow> lines)"

definition line_users :: "table \<Rightarrow> table \<Rightarrow> snmp_out list" where
  "line_users us ns = map (\<lambda>(u, n). new_out (sn_res u) (sn_res n)) (filter (\<lambda>(u, n). sn_res u \<noteq> []) (zip us ns))"

lemma line_users_simps [simp]:
  "line_users [] ns = []" "line_users us [] = []"
  "line_users (u # us) (n # ns) = (if sn_res u = [] then line_users us ns else new_out (sn_res u) (sn_res n) # line_users us ns)"
  by (simp_all add: line_users_def)

lemma tab_get_drop: "drop i t = x # r \<Longrightarrow> tab_get i t = Some x \<and> drop (Suc i) t = r"
  by (metis drop_Suc drop_eq_Nil2 hd_drop_conv_nth linorder_not_le list.sel(1,3) list.simps(3) tab_get_def tl_drop)

lemma tab_get_end: "drop i t = [] \<Longrightarrow> tab_get i t = None"
  by (simp add: tab_get_def)

lemma tab_get_split: "tab_get (length t) (t @ u # r) = Some u"
  by (simp add: tab_get_def)

lemma prefixed_As: "prefixed s ''As'' \<Longrightarrow> s \<noteq> []"
  by (auto simp: prefixed_iff)

lemma async_lines_as:
  assumes "drop i names = ns" "\<forall>n \<in> set ns. prefixed (sn_res n) ''As''" "distinct (map sn_res ns)"
    and "\<forall>n \<in> set ns. \<not> port_seen (sn_res n) sd"
  shows "\<exists>aaa'. async_lines names (Some us) i j aaa sd = Inr (aaa', sd \<lparr> sd_outs := sd_outs sd @ line_users (drop j us) ns \<rparr>)"
  using assms
proof (induction ns arbitrary: i j aaa sd)
  case Nil
  then show ?case by (subst async_lines.simps) (simp add: tab_get_def)
next
  case (Cons n ns)
  have n: "tab_get i names = Some n" "drop (Suc i) names = ns" using tab_get_drop[OF Cons.prems(1)] by auto
  show ?case
  proof (cases "drop j us")
    case Nil
    then show ?thesis by (subst async_lines.simps) (simp add: n tab_at_def tab_get_end)
  next
    case (Cons u us')
    note u = tab_get_drop[OF Cons]
    have as: "prefixed (sn_res n) ''As''" "sn_res n \<noteq> []" "\<not> port_seen (sn_res n) sd"
      using Cons.prems(2,4) prefixed_As by auto
    let ?sd = "if sn_res u = [] then sd else sd_add (new_out (sn_res u) (sn_res n)) sd"
    have fresh: "\<forall>m \<in> set ns. \<not> port_seen (sn_res m) ?sd"
      using Cons.prems(3,4) by (auto simp: port_seen_def sd_add_def new_out_def)
    have step: "async_lines names (Some us) i j aaa sd =
        async_lines names (Some us) (Suc i) (Suc j) (if sn_res u = [] then aaa else False) ?sd"
      by (subst async_lines.simps) (simp add: n u tab_at_def as Let_def)
    obtain aaa' where "async_lines names (Some us) (Suc i) (Suc j) (if sn_res u = [] then aaa else False) ?sd =
        Inr (aaa', ?sd \<lparr> sd_outs := sd_outs ?sd @ line_users (drop (Suc j) us) ns \<rparr>)"
      using Cons.IH[OF n(2) _ _ fresh, of "Suc j" "if sn_res u = [] then aaa else False"] Cons.prems(2,3) by auto
    then show ?thesis by (auto simp: step Cons u sd_add_def)
  qed
qed

lemma next_as_skip:
  assumes "\<forall>n \<in> set pre. \<not> prefixed (sn_res n) ''As''" "prefixed (sn_res a) ''As''"
  shows "drop i names = pre @ a # r \<Longrightarrow> \<not> prefixed (sn_res x) ''As'' \<Longrightarrow>
    next_as names i (Some x) = (Some a, Suc (i + length pre))"
  using assms(1)
proof (induction pre arbitrary: i x)
  case Nil
  then show ?case using tab_get_drop[of i names a r] assms(2) by simp
next
  case (Cons p ps)
  then show ?case using tab_get_drop[of i names p "ps @ a # r"] by simp
qed

lemma next_as_none:
  "drop i names = pre \<Longrightarrow> \<forall>n \<in> set pre. \<not> prefixed (sn_res n) ''As'' \<Longrightarrow> \<not> prefixed (sn_res x) ''As'' \<Longrightarrow>
    fst (next_as names i (Some x)) = None"
proof (induction pre arbitrary: i x)
  case Nil
  then show ?case by (simp add: tab_get_def)
next
  case (Cons p ps)
  then show ?case using tab_get_drop[of i names p ps] by simp
qed

lemma async_lines_all:
  assumes "\<forall>n \<in> set pre. \<not> prefixed (sn_res n) ''As''" "\<forall>n \<in> set ns. prefixed (sn_res n) ''As''" "distinct (map sn_res ns)"
    and "\<forall>n \<in> set ns. \<not> port_seen (sn_res n) sd"
  shows "\<exists>aaa'. async_lines (pre @ ns) (Some us) 0 j aaa sd =
    Inr (aaa', sd \<lparr> sd_outs := sd_outs sd @ line_users (drop j us) (reported pre ns) \<rparr>)"
proof (cases pre)
  case Nil
  then show ?thesis using async_lines_as[of 0 "pre @ ns" ns sd us j aaa] assms by (simp add: reported_def)
next
  case (Cons p ps)
  have p: "tab_get 0 (pre @ ns) = Some p" "\<not> prefixed (sn_res p) ''As''" using Cons assms(1) by (simp_all add: tab_get_def)
  show ?thesis
  proof (cases "drop j us")
    case Nil
    then show ?thesis by (subst async_lines.simps) (simp add: p(1) tab_at_def tab_get_end)
  next
    case (Cons u us')
    note u = tab_get_drop[OF Cons]
    show ?thesis
    proof (cases ns)
      case Nil
      have "fst (next_as pre 0 (Some p)) = None" using assms(1) p(2) by (intro next_as_none[of 0 pre pre]) simp_all
      then obtain k where "next_as pre 0 (Some p) = (None, k)" by (cases "next_as pre 0 (Some p)") auto
      then show ?thesis using Nil p \<open>pre = p # ps\<close>
        by (subst async_lines.simps) (auto simp: u tab_at_def reported_def tab_get_def)
    next
      case (Cons a r)
      have a: "prefixed (sn_res a) ''As''" "sn_res a \<noteq> []" "\<not> port_seen (sn_res a) sd" using assms(2,4) Cons prefixed_As by auto
      have na: "next_as (pre @ ns) 0 (Some p) = (Some a, Suc (length pre))"
        using next_as_skip[OF assms(1) a(1), of 0 "pre @ ns" r p] Cons p(2) by simp
      let ?sd = "if sn_res u = [] then sd else sd_add (new_out (sn_res u) (sn_res a)) sd"
      let ?aaa = "if sn_res u = [] then aaa else False"
      have step: "async_lines (pre @ ns) (Some us) 0 j aaa sd = async_lines (pre @ ns) (Some us) (Suc (Suc (length pre))) (Suc j) ?aaa ?sd"
        by (subst async_lines.simps) (simp add: p na u tab_at_def a Let_def del: next_as.simps)
      have r: "drop (Suc (Suc (length pre))) (pre @ ns) = tl r" using Cons by (simp add: drop_Suc)
      have fresh: "\<forall>m \<in> set (tl r). \<not> port_seen (sn_res m) ?sd" "distinct (map sn_res (tl r))"
        "\<forall>m \<in> set (tl r). prefixed (sn_res m) ''As''"
        using assms(2,3,4) Cons by (cases r; auto simp: port_seen_def sd_add_def new_out_def)+
      obtain aaa' where "async_lines (pre @ ns) (Some us) (Suc (Suc (length pre))) (Suc j) ?aaa ?sd =
          Inr (aaa', ?sd \<lparr> sd_outs := sd_outs ?sd @ line_users (drop (Suc j) us) (tl r) \<rparr>)"
        using async_lines_as[OF r fresh(3,2,1)] by blast
      moreover have "reported pre ns = a # tl r" using Cons \<open>pre = p # ps\<close> by (cases r) (simp_all add: reported_def)
      ultimately show ?thesis by (auto simp: step \<open>drop j us = u # us'\<close> u sd_add_def)
    qed
  qed
qed

lemma last_named_snoc: "last_named p j (xs @ [x]) r = (if sn_res x = p then Some (j + length xs) else last_named p j xs r)"
  by (induction xs arbitrary: j r) auto

lemma last_named_absent: "p \<notin> sn_res ` set xs \<Longrightarrow> last_named p j xs r = r"
  by (induction xs arbitrary: j r) auto

lemma last_named_last:
  assumes "p \<notin> sn_res ` set post"
  shows "last_named p j (pre @ x # post) r = (if sn_res x = p then Some (j + length pre) else last_named p j pre r)"
  using assms
proof (induction post rule: rev_induct)
  case (snoc y ys)
  have "last_named p j ((pre @ x # ys) @ [y]) r = last_named p j (pre @ x # ys) r"
    using snoc.prems by (subst last_named_snoc) auto
  then show ?case using snoc by simp
qed (simp add: last_named_snoc)

section \<open>Properties\<close>

text \<open>Which users of asynchronous lines the module for them reports, on a device whose other interfaces stand before the
lines: without any other the line of the n-th name gets the user of row n + 2; with others the first line gets the user of row 2,
the second line is never reported and each one behind it gets the user of the row of its number.\<close>

lemma async_users:
  assumes "\<forall>n \<in> set pre. \<not> prefixed (sn_res n) ''As''" "\<forall>n \<in> set ns. prefixed (sn_res n) ''As''" "distinct (map sn_res ns)"
    and "ask d c SNMP_ifName = Some (Inr (Some (pre @ ns)))" "ask d c SNMP_CISCO_tsLineUser = Some (Inr (Some us))"
  shows "getnas_asy ask derr (new_snmp_device d c) = Some (Inr (True, [],
    (new_snmp_device d c) \<lparr> sd_outs := map (\<lambda>(u, n). new_out (sn_res u) (sn_res n))
      (filter (\<lambda>(u, n). sn_res u \<noteq> [])
        (zip (drop 2 us) (if pre = [] then ns else case ns of a # b # r \<Rightarrow> a # r | _ \<Rightarrow> ns))) \<rparr>))"
proof -
  let ?sd = "new_snmp_device d c"
  obtain aaa where "async_lines (pre @ ns) (Some us) 0 2 False ?sd =
      Inr (aaa, ?sd \<lparr> sd_outs := sd_outs ?sd @ line_users (drop 2 us) (reported pre ns) \<rparr>)"
    using async_lines_all[OF assms(1-3), of ?sd us 2 False] by (auto simp: port_seen_def new_snmp_device_def)
  then show ?thesis using assms(4,5)
    by (simp add: getnas_asy_def ask_for_def new_snmp_device_def line_users_def reported_def)
qed

definition row :: "string \<Rightarrow> snmp_d" where
  "row s = \<lparr> sn_res = s, sn_idx = 0, sn_idx1 = 0 \<rparr>"

definition demo_tables :: ask_table where
  "demo_tables d c obj = Some (Inr (Some (if obj = SNMP_ifName then map row [''Et0'', ''As1'', ''As2'', ''As3'']
     else map row [[], ''ann'', ''bob'', ''eve''])))"

lemma async_users_witness:
  "getnas_asy demo_tables [] (new_snmp_device [] []) = Some (Inr (True, [],
     (new_snmp_device [] []) \<lparr> sd_outs := [new_out ''bob'' ''As1'', new_out ''eve'' ''As3''] \<rparr>))"
proof -
  have as: "\<forall>n \<in> set [row ''Et0'']. \<not> prefixed (sn_res n) ''As''" "distinct (map sn_res (map row [''As1'', ''As2'', ''As3'']))"
    "\<forall>n \<in> set (map row [''As1'', ''As2'', ''As3'']). prefixed (sn_res n) ''As''"
    by (simp_all add: prefixed_iff row_def)
  have t: "demo_tables [] [] SNMP_ifName = Some (Inr (Some ([row ''Et0''] @ map row [''As1'', ''As2'', ''As3''])))"
    "demo_tables [] [] SNMP_CISCO_tsLineUser = Some (Inr (Some (map row [[], ''ann'', ''bob'', ''eve''])))"
    by (simp_all add: demo_tables_def SNMP_ifName_def SNMP_CISCO_tsLineUser_def)
  show ?thesis using async_users[where ask = demo_tables and d = "[]" and c = "[]" and derr = "[]", OF as(1,3,2) t] by (simp add: row_def)
qed

text \<open>The port that is closed is the last interface of its name, addressed by its place: right when the device numbers
its interfaces from one without gaps.\<close>

lemma drop_place:
  assumes "ask d c SNMP_ifName = Some (Inr (Some (pre @ n # post)))" "sn_res n = tac_port p" "tac_port p \<notin> sn_res ` set post"
  shows "dropnas_cisco ask derr p (new_snmp_device d c) = Some (Inr (True, derr,
    [(admin_status (length pre + 1), ''2''), (admin_status (length pre + 1), ''1'')]))"
  using assms last_named_last[OF assms(3), of 0 pre n None]
  by (simp add: dropnas_cisco_def ask_for_def new_snmp_device_def)

text \<open>The module for all kinds lists the idle interfaces only when the last port it looked at was a new one, and lists those
in use once more with no user.\<close>

lemma idle_twice:
  "port_seen (sn_res n) sd \<Longrightarrow> n \<in> set names \<Longrightarrow> \<not> distinct (map so_port (sd_outs (idle_ports names False sd)))"
  by (auto simp: idle_ports_def port_seen_def new_out_def)

end
