(* ===== verification/Snmp.thy ===== *)
theory Snmp
  imports SnmpModule CoreDevice
begin

text \<open>
  Requests to devices (\<^verbatim>\<open>src/Snmp.cc\<close>): reading a table by GETNEXT requests, setting an object, asking the module of
  a device for its users and dropping a port. The SNMP library is the parameter \<open>lib\<close>: what an object is called, whether a session opens and what the
  agent answers. A value is the memory its pointer leads to.
\<close>

section \<open>Answers of an agent\<close>

datatype asn_type = ASN_INTEGER | ASN_OCTET_STR | ASN_BIT_STR | ASN_GAUGE | ASN_COUNTER | ASN_UINTEGER | ASN_IPADDRESS |
  ASN_NULL | SNMP_ENDOFMIBVIEW | SNMP_NOSUCHOBJECT | SNMP_NOSUCHINSTANCE | ASN_OTHER

type_synonym oid = "nat list"

record snmp_var =
  va_name :: oid
  va_type :: asn_type
  va_mem :: "byte list option"
  va_len :: nat

datatype reply = Answer bool "snmp_var list" | TimeoutReply | ErrorReply

datatype 'p set_reply = SetDone | SetRefused "'p option" | SetTimeout | SetError

record 'p snmp_lib =
  sl_oid :: "string \<Rightarrow> oid"
  sl_open :: "string \<Rightarrow> string \<Rightarrow> bool"
  sl_next :: "string \<Rightarrow> string \<Rightarrow> oid \<Rightarrow> reply"
  sl_var :: "oid \<Rightarrow> char \<Rightarrow> string \<Rightarrow> 'p option"
  sl_send :: "string \<Rightarrow> string \<Rightarrow> 'p \<Rightarrow> 'p set_reply"

text \<open>The text of a value. Whatever its type, its memory is first compared with the string tcp.\<close>

definition mem_str :: "byte list \<Rightarrow> string cres" where
  "mem_str m = (if 0 \<in> set m then Inr (of_bytes (takeWhile (\<lambda>b. b \<noteq> 0) m)) else Inl OutOfBounds)"

definition mem_word :: "byte list \<Rightarrow> 64 word cres" where
  "mem_word m = (if length m < 8 then Inl OutOfBounds else Inr (word_rcat (rev (take 8 m))))"

definition is_tcp :: "byte list \<Rightarrow> bool cres" where
  "is_tcp m = (let t = to_bytes ''tcp'' @ [0]
     in if length m < 4 \<and> take (length m) t = m then Inl OutOfBounds else Inr (take 4 m = t))"

definition text_value :: "nat \<Rightarrow> byte list \<Rightarrow> string cres" where
  "text_value len m = cbind (mem_str m) (\<lambda>s. let t = take len s in if 500 \<le> length t then Inl OutOfBounds else Inr t)"

definition dotted :: "byte list \<Rightarrow> string cres" where
  "dotted m = (case m of a # b # c # d # _ \<Rightarrow>
       Inr (dec_nat (unat a) @ ''.'' @ dec_nat (unat b) @ ''.'' @ dec_nat (unat c) @ ''.'' @ dec_nat (unat d))
     | _ \<Rightarrow> Inl OutOfBounds)"

definition value_text :: "snmp_var \<Rightarrow> string cres" where
  "value_text v = (case va_mem v of
      None \<Rightarrow> Inr []
    | Some m \<Rightarrow> cbind (is_tcp m) (\<lambda>t. if t then Inr ''0'' else
       (case va_type v of
          ASN_INTEGER \<Rightarrow> cbind (mem_word m) (\<lambda>w. Inr (dec_int (sint w)))
        | ASN_GAUGE \<Rightarrow> cbind (mem_word m) (\<lambda>w. Inr (dec_nat (unat w)))
        | ASN_COUNTER \<Rightarrow> cbind (mem_word m) (\<lambda>w. Inr (dec_nat (unat w)))
        | ASN_UINTEGER \<Rightarrow> cbind (mem_word m) (\<lambda>w. Inr (dec_nat (unat w)))
        | ASN_IPADDRESS \<Rightarrow> dotted m
        | ASN_NULL \<Rightarrow> Inr ''NULL''
        | _ \<Rightarrow> text_value (va_len v) m)))"

section \<open>Reading a table\<close>

definition in_tree :: "oid \<Rightarrow> oid \<Rightarrow> bool" where
  "in_tree root name = (length root \<le> length name \<and> take (length root) name = root)"

text \<open>The last two numbers of the name that the next request asks for.\<close>

definition entry_at :: "string \<Rightarrow> oid \<Rightarrow> snmp_d cres" where
  "entry_at s name = (if name = [] then Inl OutOfBounds
     else Inr \<lparr> sn_res = s, sn_idx = wrap32 (int (last name)),
       sn_idx1 = (if 1 < length name then wrap32 (int (last (butlast name))) else 0) \<rparr>)"

fun read_vars :: "oid \<Rightarrow> snmp_var list \<Rightarrow> oid \<Rightarrow> bool \<Rightarrow> table \<Rightarrow> (oid \<times> bool \<times> table) cres" where
  "read_vars root [] name running out = Inr (name, running, out)"
| "read_vars root (v # vs) name running out =
     (if \<not> in_tree root (va_name v) then read_vars root vs name running out
      else cbind (value_text v) (\<lambda>s.
        let goes = va_type v \<notin> {SNMP_ENDOFMIBVIEW, SNMP_NOSUCHOBJECT, SNMP_NOSUCHINSTANCE};
            name' = (if goes then va_name v else name)
        in cbind (entry_at s name') (\<lambda>d. read_vars root vs name' (running \<or> goes) (out @ [d]))))"

text \<open>What was read so far is the result however it ends.\<close>

partial_function (option) walk :: "(oid \<Rightarrow> reply) \<Rightarrow> oid \<Rightarrow> oid \<Rightarrow> table \<Rightarrow> table cres option" where
  "walk next root name out = (case next name of
      Answer ok vs \<Rightarrow>
        if \<not> ok then Some (Inr out)
        else obind (Some (read_vars root vs name False out)) (\<lambda>(name', running, out').
          if running then walk next root name' out' else Some (Inr out'))
    | _ \<Rightarrow> Some (Inr out))"

definition snmp_get :: "'p snmp_lib \<Rightarrow> ask_table" where
  "snmp_get lib host commun obj =
     (if \<not> sl_open lib host commun then Some (Inr (Some []))
      else let root = sl_oid lib obj in obind (walk (sl_next lib host commun) root root []) (\<lambda>t. Some (Inr (Some t))))"

section \<open>Setting an object\<close>

text \<open>A request that is refused is repeated as the library repairs it; when it can not be repaired the answer is that it was done.\<close>

partial_function (option) send_set :: "('p \<Rightarrow> 'p set_reply) \<Rightarrow> 'p \<Rightarrow> bool option" where
  "send_set send pdu = (case send pdu of
      SetDone \<Rightarrow> Some True
    | SetRefused None \<Rightarrow> Some True
    | SetRefused (Some pdu') \<Rightarrow> send_set send pdu'
    | _ \<Rightarrow> Some False)"

definition snmp_puts :: "'p snmp_lib \<Rightarrow> string \<Rightarrow> string \<Rightarrow> string \<Rightarrow> string \<Rightarrow> char \<Rightarrow> bool option" where
  "snmp_puts lib host commun obj v t =
     (if \<not> sl_open lib host commun then Some False
      else case sl_var lib (sl_oid lib obj) t v of
        None \<Rightarrow> Some False
      | Some pdu \<Rightarrow> send_set (sl_send lib host commun) pdu)"

section \<open>Devices\<close>

text \<open>The functions of the module: never set before a module was loaded, null when it was not found.\<close>

definition module_of :: "(string \<Rightarrow> snmp_module) \<Rightarrow> device \<Rightarrow> snmp_module cres" where
  "module_of mods d = (case dev_dl d of None \<Rightarrow> Inl Indeterminate | Some m \<Rightarrow> Inr (mods m))"

definition snmp_users :: "'p snmp_lib \<Rightarrow> (string \<Rightarrow> snmp_module) \<Rightarrow> device \<Rightarrow> snmp_device option cres option" where
  "snmp_users lib mods d = obind (Some (module_of mods d)) (\<lambda>m. case m_getnas m of
      None \<Rightarrow> Some (Inl NullDeref)
    | Some getnas \<Rightarrow>
        obind (getnas (snmp_get lib) [] (new_snmp_device (ip_get (hostaddr d)) (community d))) (\<lambda>(r, derr, sd).
          Some (Inr (if r then Some sd else None))))"

fun put_objects :: "'p snmp_lib \<Rightarrow> string \<Rightarrow> string \<Rightarrow> (string \<times> string) list \<Rightarrow> bool list option" where
  "put_objects lib host commun [] = Some []"
| "put_objects lib host commun ((obj, v) # ps) = (case snmp_puts lib host commun obj v (CHR ''i'') of
      None \<Rightarrow> None
    | Some b \<Rightarrow> (case put_objects lib host commun ps of None \<Rightarrow> None | Some bs \<Rightarrow> Some (b # bs)))"

text \<open>Dropping a port: whether the module said that it did, and whether each object was set.\<close>

definition drop_port :: "'p snmp_lib \<Rightarrow> (string \<Rightarrow> snmp_module) \<Rightarrow> dns \<Rightarrow> string \<Rightarrow> string \<Rightarrow> net \<Rightarrow> (bool \<times> bool list) cres option" where
  "drop_port lib mods dns n p st =
     (let ip = ip_fill dns n; cmn = getCommunity ip st
      in if length n = 0 \<or> length p = 0 \<or> length cmn = 0 then Some (Inr (False, []))
         else case get_dev ip st of
           None \<Rightarrow> Some (Inr (False, []))
         | Some d \<Rightarrow> obind (Some (module_of mods d)) (\<lambda>m. case m_dropnas m of
             None \<Rightarrow> Some (Inl NullDeref)
           | Some dropnas \<Rightarrow>
               obind (dropnas (snmp_get lib) [] (portConvert p) (new_snmp_device (ip_get ip) cmn)) (\<lambda>(r, derr, ps).
                 case put_objects lib (ip_get ip) cmn ps of None \<Rightarrow> None | Some bs \<Rightarrow> Some (Inr (r, bs)))))"

section \<open>Lemmas\<close>

text \<open>The order of names, and an agent that answers with the first object behind the name it is asked for.\<close>

fun oid_less :: "oid \<Rightarrow> oid \<Rightarrow> bool" where
  "oid_less xs [] = False"
| "oid_less [] (y # ys) = True"
| "oid_less (x # xs) (y # ys) = (x < y \<or> x = y \<and> oid_less xs ys)"

definition getnext :: "snmp_var list \<Rightarrow> oid \<Rightarrow> reply" where
  "getnext mib name = (case find (\<lambda>v. oid_less name (va_name v)) mib of None \<Rightarrow> Answer False [] | Some v \<Rightarrow> Answer True [v])"

lemma oid_less_irrefl [simp]: "\<not> oid_less x x"
  by (induction x) auto

lemma oid_less_trans: "oid_less x y \<Longrightarrow> oid_less y z \<Longrightarrow> oid_less x z"
  by (induction x z arbitrary: y rule: oid_less.induct) (metis oid_less.simps list.exhaust dual_order.strict_trans)+

lemma oid_less_asym: "oid_less x y \<Longrightarrow> \<not> oid_less y x"
  using oid_less_trans oid_less_irrefl by blast

lemma in_tree_append: "in_tree root x = (\<exists>z. x = root @ z)"
  by (auto simp: in_tree_def) (metis append_take_drop_id)

lemma oid_less_append: "oid_less root (root @ z) = (z \<noteq> [])"
  by (induction root) (cases z; auto)+

lemma in_tree_block: "oid_less root y \<Longrightarrow> \<not> in_tree root y \<Longrightarrow> oid_less y x \<Longrightarrow> \<not> in_tree root x"
proof (induction root y arbitrary: x rule: oid_less.induct)
  case (3 a as b bs)
  then show ?case by (cases x) (auto simp: in_tree_def)
qed (auto simp: in_tree_def)

lemma takeWhile_filter:
  "sorted_wrt R xs \<Longrightarrow> (\<And>x y. x \<in> set xs \<Longrightarrow> y \<in> set xs \<Longrightarrow> R x y \<Longrightarrow> \<not> P x \<Longrightarrow> \<not> P y) \<Longrightarrow> takeWhile P xs = filter P xs"
proof (induction xs)
  case (Cons x xs)
  have "filter P xs = []" if "\<not> P x" using Cons.prems that by (auto simp: filter_empty_conv)
  moreover have "takeWhile P xs = filter P xs" using Cons by (intro Cons.IH) auto
  ultimately show ?case by simp
qed simp

definition table_row :: "(snmp_var \<Rightarrow> string) \<Rightarrow> snmp_var \<Rightarrow> snmp_d" where
  "table_row txt v = \<lparr> sn_res = txt v, sn_idx = wrap32 (int (last (va_name v))),
     sn_idx1 = (if 1 < length (va_name v) then wrap32 (int (last (butlast (va_name v)))) else 0) \<rparr>"

definition readable :: "oid \<Rightarrow> (snmp_var \<Rightarrow> string) \<Rightarrow> snmp_var \<Rightarrow> bool" where
  "readable root txt v = (in_tree root (va_name v) \<longrightarrow> value_text v = Inr (txt v) \<and>
     va_type v \<notin> {SNMP_ENDOFMIBVIEW, SNMP_NOSUCHOBJECT, SNMP_NOSUCHINSTANCE})"

lemma getnext_split:
  assumes "\<forall>v \<in> set pre. \<not> oid_less name (va_name v)" "\<forall>v \<in> set post. oid_less name (va_name v)"
  shows "getnext (pre @ post) name = (case post of [] \<Rightarrow> Answer False [] | v # _ \<Rightarrow> Answer True [v])"
  using assms(1)
proof (induction pre)
  case Nil
  then show ?case using assms(2) by (cases post) (auto simp: getnext_def)
next
  case (Cons v pre)
  then show ?case by (simp add: getnext_def)
qed

lemma walk_rest:
  assumes "sorted_wrt oid_less (map va_name (pre @ post))" "\<forall>v \<in> set post. readable root txt v"
    and "\<forall>v \<in> set pre. \<not> oid_less name (va_name v)" "\<forall>v \<in> set post. oid_less name (va_name v)"
  shows "walk (getnext (pre @ post)) root name out =
    Some (Inr (out @ map (table_row txt) (takeWhile (\<lambda>v. in_tree root (va_name v)) post)))"
  using assms
proof (induction post arbitrary: pre name out)
  case Nil
  then have "getnext pre name = Answer False []" using getnext_split[of pre name "[]"] by simp
  then show ?case by (subst walk.simps) simp
next
  case (Cons v post)
  have g: "getnext (pre @ v # post) name = Answer True [v]" using getnext_split[OF Cons.prems(3,4)] by simp
  show ?case
  proof (cases "in_tree root (va_name v)")
    case False
    then show ?thesis by (subst walk.simps) (simp add: g)
  next
    case True
    have v: "value_text v = Inr (txt v)" "va_type v \<notin> {SNMP_ENDOFMIBVIEW, SNMP_NOSUCHOBJECT, SNMP_NOSUCHINSTANCE}"
      using Cons.prems(2) True by (simp_all add: readable_def)
    have "va_name v \<noteq> []" using Cons.prems(4) by (cases "va_name v") auto
    then have "read_vars root [v] name False out = Inr (va_name v, True, out @ [table_row txt v])"
      using True v by (simp add: entry_at_def table_row_def Let_def)
    then have "walk (getnext (pre @ v # post)) root name out =
        walk (getnext ((pre @ [v]) @ post)) root (va_name v) (out @ [table_row txt v])"
      by (subst walk.simps) (simp add: g)
    also have "\<dots> = Some (Inr ((out @ [table_row txt v]) @ map (table_row txt) (takeWhile (\<lambda>v. in_tree root (va_name v)) post)))"
      using Cons.prems by (intro Cons.IH) (auto simp: sorted_wrt_append dest: oid_less_asym)
    finally show ?thesis using True by simp
  qed
qed

lemma dropWhile_behind:
  assumes "sorted_wrt oid_less (map va_name mib)" "v \<in> set (dropWhile (\<lambda>v. \<not> oid_less root (va_name v)) mib)"
  shows "oid_less root (va_name v)"
  using assms
proof (induction mib)
  case (Cons x xs)
  then show ?case using oid_less_trans by (auto split: if_splits)
qed simp

section \<open>Properties\<close>

text \<open>C10: from an agent that answers each request with the first object behind the name asked for, reading a table ends and gives
exactly the objects under its name, in order, each with its text and the end of its name.\<close>

theorem table_read:
  assumes "sl_open lib h c" "sl_next lib h c = getnext mib" "sorted_wrt oid_less (map va_name mib)"
    and "\<forall>v \<in> set mib. readable (sl_oid lib obj) txt v"
  shows "snmp_get lib h c obj = Some (Inr (Some (map (table_row txt)
    (filter (\<lambda>v. in_tree (sl_oid lib obj) (va_name v) \<and> va_name v \<noteq> sl_oid lib obj) mib))))"
proof -
  let ?root = "sl_oid lib obj" let ?P = "\<lambda>v. \<not> oid_less ?root (va_name v)" let ?T = "\<lambda>v. in_tree ?root (va_name v)"
  let ?pre = "takeWhile ?P mib" let ?post = "dropWhile ?P mib"
  have post: "\<forall>v \<in> set ?post. oid_less ?root (va_name v)" using dropWhile_behind[OF assms(3)] by blast
  have pre: "\<forall>v \<in> set ?pre. ?P v" by (auto dest: set_takeWhileD)
  have s: "sorted_wrt (\<lambda>x y. oid_less (va_name x) (va_name y)) mib" using assms(3) by (simp add: sorted_wrt_map)
  then have sp: "sorted_wrt (\<lambda>x y. oid_less (va_name x) (va_name y)) ?post"
    by (metis sorted_wrt_append takeWhile_dropWhile_id)
  have "takeWhile ?T ?post = filter ?T ?post"
    by (rule takeWhile_filter[OF sp]) (use post in_tree_block in blast)
  moreover have "filter ?T ?post = filter (\<lambda>v. ?T v \<and> va_name v \<noteq> ?root) ?post"
    by (rule filter_cong[OF refl]) (metis post oid_less_irrefl)
  moreover have "filter (\<lambda>v. ?T v \<and> va_name v \<noteq> ?root) ?pre = []"
    unfolding filter_empty_conv in_tree_append by (metis pre oid_less_append self_append_conv)
  moreover have "filter (\<lambda>v. ?T v \<and> va_name v \<noteq> ?root) mib =
      filter (\<lambda>v. ?T v \<and> va_name v \<noteq> ?root) ?pre @ filter (\<lambda>v. ?T v \<and> va_name v \<noteq> ?root) ?post"
    by (simp only: filter_append[symmetric] takeWhile_dropWhile_id)
  ultimately have f: "takeWhile ?T ?post = filter (\<lambda>v. ?T v \<and> va_name v \<noteq> ?root) mib"
    by (simp only: append_Nil)
  have "walk (getnext (?pre @ ?post)) ?root ?root [] = Some (Inr ([] @ map (table_row txt) (takeWhile ?T ?post)))"
  proof (rule walk_rest[OF _ _ pre post])
    show "sorted_wrt oid_less (map va_name (?pre @ ?post))" using assms(3) by (simp only: takeWhile_dropWhile_id)
    show "\<forall>v \<in> set ?post. readable ?root txt v" using assms(4) by (blast dest: set_dropWhileD)
  qed
  then show ?thesis using assms(1,2) by (simp add: snmp_get_def Let_def f)
qed

definition demo_var :: "oid \<Rightarrow> string \<Rightarrow> snmp_var" where
  "demo_var n s = \<lparr> va_name = n, va_type = ASN_OCTET_STR, va_mem = Some (to_bytes s @ [0]), va_len = length s \<rparr>"

definition demo_lib :: "unit snmp_lib" where
  "demo_lib = \<lparr> sl_oid = \<lambda>obj. [1, 2], sl_open = \<lambda>h c. True,
     sl_next = \<lambda>h c. getnext [demo_var [1, 1] ''x'', demo_var [1, 2, 5] ''Et0'', demo_var [1, 2, 7] ''As1'', demo_var [1, 3] ''y''],
     sl_var = \<lambda>n t v. None, sl_send = \<lambda>h c p. SetError \<rparr>"

lemma table_read_witness:
  "snmp_get demo_lib [] [] SNMP_ifName = Some (Inr (Some [\<lparr> sn_res = ''Et0'', sn_idx = 5, sn_idx1 = 2 \<rparr>, \<lparr> sn_res = ''As1'', sn_idx = 7, sn_idx1 = 2 \<rparr>]))"
proof -
  let ?mib = "[demo_var [1, 1] ''x'', demo_var [1, 2, 5] ''Et0'', demo_var [1, 2, 7] ''As1'', demo_var [1, 3] ''y'']"
  let ?txt = "\<lambda>v. case va_mem v of Some m \<Rightarrow> of_bytes (butlast m) | None \<Rightarrow> []"
  have texts: "value_text (demo_var [1, 2, 5] ''Et0'') = Inr ''Et0''" "value_text (demo_var [1, 2, 7] ''As1'') = Inr ''As1''"
    "?txt (demo_var [1, 2, 5] ''Et0'') = ''Et0''" "?txt (demo_var [1, 2, 7] ''As1'') = ''As1''"
    by code_simp+
  have s: "sorted_wrt oid_less (map va_name ?mib)" by (simp add: demo_var_def)
  have r: "\<forall>v \<in> set ?mib. readable (sl_oid demo_lib SNMP_ifName) ?txt v"
    using texts by (simp add: readable_def demo_lib_def in_tree_def) (simp add: demo_var_def)
  have n: "sl_next demo_lib [] [] = getnext ?mib" "sl_open demo_lib [] []" by (simp_all add: demo_lib_def)
  show ?thesis using table_read[OF n(2,1) s r] texts(3,4)
    by (simp add: demo_lib_def table_row_def in_tree_def demo_var_def wrap32_def)
qed

text \<open>A device that does not answer has empty tables, which no module takes for an error.\<close>

lemma silent_device:
  assumes "sl_next lib h c = (\<lambda>n. TimeoutReply)"
  shows "snmp_get lib h c obj = Some (Inr (Some []))"
  using assms by (auto simp: snmp_get_def walk.simps Let_def)

text \<open>A text of 500 bytes or more is written past the buffer it is converted in.\<close>

lemma long_value:
  assumes "va_type v = ASN_OCTET_STR" "va_mem v = Some m" "mem_str m = Inr s" "500 \<le> length s" "500 \<le> va_len v"
  shows "value_text v = Inl OutOfBounds"
proof -
  have l: "length (takeWhile (\<lambda>b. b \<noteq> 0) m) = length s" using assms(3) by (auto simp: mem_str_def of_bytes_def split: if_splits)
  then have long: "500 \<le> length m" using assms(4) length_takeWhile_le[of "\<lambda>b. b \<noteq> 0" m] by linarith
  have "take 4 m \<noteq> to_bytes ''tcp'' @ [0]"
  proof
    assume t: "take 4 m = to_bytes ''tcp'' @ [0]"
    have "m ! 3 = 0" using arg_cong[OF t, of "\<lambda>x. x ! 3"] long by (simp add: to_bytes_def)
    moreover have "takeWhile (\<lambda>b. b \<noteq> 0) m ! 3 = m ! 3" using l assms(4) by (intro takeWhile_nth) simp
    moreover have "takeWhile (\<lambda>b. b \<noteq> 0) m ! 3 \<in> set (takeWhile (\<lambda>b. b \<noteq> 0) m)" using l assms(4) by (intro nth_mem) simp
    then have "takeWhile (\<lambda>b. b \<noteq> 0) m ! 3 \<noteq> 0" using set_takeWhileD by fast
    ultimately show False by simp
  qed
  then show ?thesis using assms long by (simp add: value_text_def is_tcp_def text_value_def Let_def)
qed

end
