(* ===== verification/Icmp.thy ===== *)
theory Icmp
  imports IpAddr
begin

text \<open>
  The test of a device by an ICMP echo (\<^verbatim>\<open>src/Icmp.cc\<close>): the checksum, the request, the rounds of waiting for the reply. What the system calls
  return is given as a list of rounds; after its end nothing arrives before the time is over. Integers are as on a 64 bit
  little-endian host: the two fields of a \<^verbatim>\<open>timeval\<close> take 16 bytes, where the source counts 8.
\<close>

section \<open>Checksum\<close>

text \<open>The sum of the 16 bit words; a last odd byte is put into a variable whose other half \<open>x\<close> was never written. The sum is below
\<open>2 ^ 31\<close> for the 28 bytes it is called with.\<close>

fun word_sum :: "byte \<Rightarrow> byte list \<Rightarrow> nat" where
  "word_sum x [] = 0"
| "word_sum x [a] = unat a + 256 * unat x"
| "word_sum x (a # b # bs) = unat a + 256 * unat b + word_sum x bs"

definition in_cksum :: "byte \<Rightarrow> byte list \<Rightarrow> nat" where
  "in_cksum x bs = (let s = word_sum x bs; s1 = s div 65536 + s mod 65536; s2 = s1 + s1 div 65536 in 65535 - s2 mod 65536)"

section \<open>Times\<close>

record timeval =
  tv_sec :: int
  tv_usec :: int

definition time_end :: "timeval option \<Rightarrow> timeval \<Rightarrow> timeval option" where
  "time_end clock tv = (case clock of
      None \<Rightarrow> None
    | Some now \<Rightarrow>
        let n = (if tv_usec now < tv_usec tv then now \<lparr> tv_usec := tv_usec now + 1000000, tv_sec := tv_sec now - 1 \<rparr> else now)
        in Some \<lparr> tv_sec = tv_sec n - tv_sec tv, tv_usec = tv_usec n - tv_usec tv \<rparr>)"

definition time_minus :: "timeval \<Rightarrow> timeval \<Rightarrow> int \<times> timeval" where
  "time_minus t0 dt =
     (let t = (if tv_usec t0 < tv_usec dt then t0 \<lparr> tv_usec := tv_usec t0 + 1000000, tv_sec := tv_sec t0 - 1 \<rparr> else t0);
          r = \<lparr> tv_sec = tv_sec t - tv_sec dt, tv_usec = tv_usec t - tv_usec dt \<rparr>
      in (if tv_sec r < 0 \<or> tv_usec r < 0 then - 1 else 0, r))"

section \<open>The request\<close>

definition le_bytes :: "nat \<Rightarrow> nat \<Rightarrow> byte list" where
  "le_bytes n v = map (\<lambda>i. of_nat (v div 256 ^ i)) [0..<n]"

definition ICMP_ECHO :: byte where "ICMP_ECHO = 8"
definition ICMP_ECHOREPLY :: byte where "ICMP_ECHOREPLY = 0"

text \<open>The time of sending is written over the first eight bytes of the message.\<close>

definition MESSAGE :: "byte list" where "MESSAGE = to_bytes ''tacppd test'' @ [0]"

definition icmp_bytes :: "nat \<Rightarrow> nat \<Rightarrow> timeval \<Rightarrow> byte list" where
  "icmp_bytes ck pid tv = [ICMP_ECHO, 0] @ le_bytes 2 ck @ le_bytes 2 pid @ le_bytes 2 1 @
     le_bytes 8 (nat (tv_sec tv mod 2 ^ 64)) @ le_bytes 8 (nat (tv_usec tv mod 2 ^ 64)) @ drop 8 MESSAGE"

definition echo_request :: "byte \<Rightarrow> nat \<Rightarrow> timeval \<Rightarrow> byte list" where
  "echo_request x pid tv = icmp_bytes (in_cksum x (icmp_bytes 0 pid tv)) pid tv"

section \<open>Waiting for the reply\<close>

datatype select_result = SelectFailed | SelectTimeout | SelectReady

record ping_round =
  pr_start :: "timeval option"
  pr_select :: select_result
  pr_end :: "timeval option"
  pr_packet :: "(ipv4 \<times> byte list) option"
  pr_received :: "timeval option"

definition cstr_at :: "nat \<Rightarrow> byte list \<Rightarrow> byte list" where
  "cstr_at k bs = takeWhile (\<lambda>b. b \<noteq> 0) (drop k bs)"

text \<open>The reply is behind an IP header of 20 bytes in an array of 48.\<close>

definition is_reply :: "byte list \<Rightarrow> byte list \<Rightarrow> bool" where
  "is_reply req buf = (buf ! 20 = ICMP_ECHOREPLY \<and> take 2 (drop 24 buf) = take 2 (drop 4 req) \<and>
     1 \<le> unat (buf ! 26) + 256 * unat (buf ! 27) \<and> cstr_at 16 req = cstr_at 36 buf)"

definition received :: "byte list \<Rightarrow> byte list \<Rightarrow> byte list" where
  "received p buf = take 48 p @ drop (length (take 48 p)) buf"

fun ping_loop :: "ipv4 \<Rightarrow> byte list \<Rightarrow> timeval \<Rightarrow> byte list \<Rightarrow> ping_round list \<Rightarrow> bool" where
  "ping_loop host req remain buf [] = False"
| "ping_loop host req remain buf (r # rs) =
     (if \<not> (0 < tv_sec remain \<or> 0 < tv_usec remain) then False
      else case pr_start r of None \<Rightarrow> False
      | Some start \<Rightarrow>
          if pr_select r \<noteq> SelectReady then False
          else case time_end (pr_end r) start of None \<Rightarrow> False
          | Some waited \<Rightarrow> (case time_minus remain waited of (neg, remain') \<Rightarrow>
              if neg < 0 then False
              else if tv_sec remain' = 0 \<and> tv_usec remain' = 0 then False
              else case pr_packet r of None \<Rightarrow> False
              | Some (src, p) \<Rightarrow>
                  let buf' = received p buf
                  in if src = host \<and> is_reply req buf' then pr_received r \<noteq> None
                     else ping_loop host req remain' buf' rs))"

text \<open>\<open>clock\<close> is the time of sending, \<open>goes\<close> whether the packet could be sent: without a raw socket it can not.\<close>

definition test_ping :: "byte \<Rightarrow> nat \<Rightarrow> timeval option \<Rightarrow> bool \<Rightarrow> ipv4 \<Rightarrow> ping_round list \<Rightarrow> bool" where
  "test_ping x pid clock goes host rs = (case clock of
      None \<Rightarrow> False
    | Some tv \<Rightarrow> goes \<and> ping_loop host (echo_request x pid tv) \<lparr> tv_sec = 5, tv_usec = 0 \<rparr> (replicate 48 0) rs)"

definition icmp_test :: "byte \<Rightarrow> nat \<Rightarrow> timeval option \<Rightarrow> bool \<Rightarrow> ipaddr \<Rightarrow> ping_round list \<Rightarrow> bool" where
  "icmp_test x pid clock goes ip rs = test_ping x pid clock goes (inet_addr (ip_get ip)) rs"

section \<open>Lemmas\<close>

lemma word_sum_append: "even (length as) \<Longrightarrow> word_sum x (as @ bs) = word_sum x as + word_sum x bs"
  by (induction x as rule: word_sum.induct) auto

lemma in_cksum_mod:
  assumes "0 < word_sum x bs" "word_sum x bs < 2 ^ 31"
  shows "in_cksum x bs < 65535" "(in_cksum x bs + word_sum x bs) mod 65535 = 0"
proof -
  let ?s = "word_sum x bs"
  define q r where "q = ?s div 65536" and "r = ?s mod 65536"
  have s: "?s = 65536 * q + r" "r < 65536" by (simp_all add: q_def r_def)
  have q: "q < 32768" using assms(2) by (simp add: q_def)
  have c: "in_cksum x bs = 65535 - (q + r + (q + r) div 65536) mod 65536" by (simp add: in_cksum_def Let_def q_def r_def)
  have "in_cksum x bs < 65535 \<and> (in_cksum x bs + ?s) mod 65535 = 0"
  proof (cases "q + r < 65536")
    case True
    then have "in_cksum x bs = 65535 - (q + r)" by (simp add: c)
    moreover have "0 < q + r" using assms(1) s by simp
    ultimately have "in_cksum x bs < 65535" "in_cksum x bs + ?s = 65535 * (q + 1)" using s True by simp_all
    then show ?thesis by simp
  next
    case False
    then have "(q + r) div 65536 = 1" using s(2) q by simp
    then have "(q + r + (q + r) div 65536) mod 65536 = q + r - 65535" using False s(2) q by (simp add: mod_if)
    then have "in_cksum x bs < 65535" "in_cksum x bs + ?s = 65535 * (q + 2)" using s(1) c False q s(2) by simp_all
    then show ?thesis by simp
  qed
  then show "in_cksum x bs < 65535" "(in_cksum x bs + ?s) mod 65535 = 0" by auto
qed

lemma in_cksum_zero:
  assumes "0 < word_sum x bs" "word_sum x bs < 2 ^ 31"
  shows "in_cksum x bs = 0 \<longleftrightarrow> word_sum x bs mod 65535 = 0"
  using in_cksum_mod[OF assms] by (metis add_0 mod_add_right_eq mod_less add.right_neutral)

lemma word_sum_even: "even (length bs) \<Longrightarrow> word_sum x bs = word_sum y bs"
  by (induction x bs rule: word_sum.induct) auto

lemma word_sum_bound: "word_sum x bs \<le> 65535 * length bs"
proof (induction x bs rule: word_sum.induct)
  case (2 x a)
  then show ?case using unsigned_less[of a, where ?'a = nat] unsigned_less[of x, where ?'a = nat] by simp
next
  case (3 x a b bs)
  then show ?case using unsigned_less[of a, where ?'a = nat] unsigned_less[of b, where ?'a = nat] by simp
qed simp

lemma le_bytes_2: "le_bytes 2 v = [of_nat v, of_nat (v div 256)]"
  by (simp add: le_bytes_def upt_rec)

lemma word_sum_le2: "v < 65536 \<Longrightarrow> word_sum x (le_bytes 2 v @ bs) = v + word_sum x bs"
  by (simp add: le_bytes_2 unat_of_nat)

lemma length_le_bytes [simp]: "length (le_bytes n v) = n"
  by (simp add: le_bytes_def)

lemma word_sum_request:
  assumes "ck < 65536"
  shows "word_sum x (icmp_bytes ck pid tv) = ck + word_sum x (icmp_bytes 0 pid tv)" "0 < word_sum x (icmp_bytes 0 pid tv)"
proof -
  have "word_sum x (icmp_bytes c pid tv) = 8 + (c + word_sum x (drop 4 (icmp_bytes 0 pid tv)))" if "c < 65536" for c
    using word_sum_le2[OF that] by (simp add: icmp_bytes_def ICMP_ECHO_def)
  then show "word_sum x (icmp_bytes ck pid tv) = ck + word_sum x (icmp_bytes 0 pid tv)" "0 < word_sum x (icmp_bytes 0 pid tv)"
    using assms by simp_all
qed

lemma length_request: "length (icmp_bytes ck pid tv) = 28"
  by (simp add: icmp_bytes_def MESSAGE_def to_bytes_def)

section \<open>Properties\<close>

text \<open>C12: the checksum of an echo request is right: whoever adds up the packet that is sent gets zero, whatever process and time it
holds and whatever memory held before.\<close>

theorem request_checksum: "in_cksum y (echo_request x pid tv) = 0"
proof -
  let ?p = "icmp_bytes 0 pid tv" let ?ck = "in_cksum x ?p"
  have b: "word_sum z ?p \<le> 65535 * 28" for z using word_sum_bound[of z ?p] by (simp add: length_request)
  have e: "word_sum x ?p = word_sum y ?p" by (rule word_sum_even) (simp add: length_request)
  have ck: "?ck < 65535" "(?ck + word_sum y ?p) mod 65535 = 0"
    using in_cksum_mod[of x ?p] word_sum_request(2)[of 0 x pid tv] b[of x] e by simp_all
  have s: "word_sum y (echo_request x pid tv) = ?ck + word_sum y ?p" "0 < word_sum y ?p"
    using word_sum_request[of ?ck y pid tv] ck(1) by (simp_all add: echo_request_def)
  then have "0 < word_sum y (echo_request x pid tv)" "word_sum y (echo_request x pid tv) < 2 ^ 31"
    using b[of y] ck(1) by simp_all
  from in_cksum_zero[OF this] show ?thesis using s(1) ck(2) by simp
qed

lemma received_full: "48 \<le> length p \<Longrightarrow> length buf = 48 \<Longrightarrow> received p buf = take 48 p"
  by (simp add: received_def)

lemma ping_loop_reply:
  assumes "ping_loop host req remain buf rs" "length buf = 48" "\<forall>r \<in> set rs. \<forall>s p. pr_packet r = Some (s, p) \<longrightarrow> 48 \<le> length p"
  shows "\<exists>r \<in> set rs. \<exists>p. pr_packet r = Some (host, p) \<and> is_reply req (take 48 p)"
  using assms
proof (induction rs arbitrary: remain buf)
  case (Cons r rs)
  from Cons.prems(1) obtain start waited remain' neg src p where
    r: "pr_start r = Some start" "time_end (pr_end r) start = Some waited" "time_minus remain waited = (neg, remain')"
      "\<not> neg < 0" "\<not> (tv_sec remain' = 0 \<and> tv_usec remain' = 0)" "pr_packet r = Some (src, p)" "pr_select r = SelectReady"
      "0 < tv_sec remain \<or> 0 < tv_usec remain"
    and l: "if src = host \<and> is_reply req (received p buf) then pr_received r \<noteq> None else ping_loop host req remain' (received p buf) rs"
    by (auto simp: Let_def split: if_splits option.splits prod.splits)
  have p: "received p buf = take 48 p" "length (take 48 p) = 48" using Cons.prems(3) r(6) received_full[OF _ Cons.prems(2)] by simp_all
  show ?case
  proof (cases "src = host \<and> is_reply req (take 48 p)")
    case True
    then show ?thesis using r(6) by auto
  next
    case False
    then have "ping_loop host req remain' (take 48 p) rs" using l p by (simp split: if_splits)
    then show ?thesis using Cons.IH[OF _ p(2)] Cons.prems(3) by auto
  qed
qed simp

text \<open>C11: a device counts as answering only when a packet from its address came that is an echo reply with the number of the
process and the bytes of the time of sending that stand in its message, provided no packet is shorter than the
array it is read into.\<close>

theorem ping_reply:
  assumes "test_ping x pid (Some tv) goes host rs" "\<forall>r \<in> set rs. \<forall>s p. pr_packet r = Some (s, p) \<longrightarrow> 48 \<le> length p"
  shows "\<exists>r \<in> set rs. \<exists>p. pr_packet r = Some (host, p) \<and> p ! 20 = ICMP_ECHOREPLY \<and> take 2 (drop 24 p) = le_bytes 2 pid \<and>
    takeWhile (\<lambda>b. b \<noteq> 0) (take 12 (drop 36 p)) =
      takeWhile (\<lambda>b. b \<noteq> 0) (le_bytes 8 (nat (tv_usec tv mod 2 ^ 64)) @ to_bytes ''est'' @ [0])"
proof -
  let ?req = "echo_request x pid tv"
  have "ping_loop host ?req \<lparr> tv_sec = 5, tv_usec = 0 \<rparr> (replicate 48 0) rs" using assms(1) by (simp add: test_ping_def)
  from ping_loop_reply[OF this _ assms(2)] obtain r p where
    r: "r \<in> set rs" "pr_packet r = Some (host, p)" "is_reply ?req (take 48 p)" by auto
  have "drop 36 (take 48 p) = take 12 (drop 36 p)" by (simp add: drop_take)
  moreover have "take 2 (drop 24 (take 48 p)) = take 2 (drop 24 p)" by (simp add: drop_take)
  moreover have "take 2 (drop 4 ?req) = le_bytes 2 pid" by (simp add: echo_request_def icmp_bytes_def)
  moreover have "drop 16 ?req = le_bytes 8 (nat (tv_usec tv mod 2 ^ 64)) @ to_bytes ''est'' @ [0]"
    by (simp add: echo_request_def icmp_bytes_def MESSAGE_def to_bytes_def)
  ultimately show ?thesis using r by (intro bexI[of _ r] exI[of _ p]) (simp_all add: is_reply_def cstr_at_def)
qed

text \<open>The array is not cleared between packets: a reply from anyone, followed by an empty packet of the device, is taken for its answer.\<close>

definition full_reply :: "byte list" where
  "full_reply = replicate 20 0 @ [0, 0, 0, 0] @ le_bytes 2 7 @ le_bytes 2 1 @ replicate 20 0"

definition quick :: "(ipv4 \<times> byte list) option \<Rightarrow> ping_round" where
  "quick p = \<lparr> pr_start = Some \<lparr> tv_sec = 0, tv_usec = 0 \<rparr>, pr_select = SelectReady, pr_end = Some \<lparr> tv_sec = 0, tv_usec = 9 \<rparr>,
     pr_packet = p, pr_received = Some \<lparr> tv_sec = 0, tv_usec = 9 \<rparr> \<rparr>"

lemma request_parts:
  "take 2 (drop 4 (echo_request x pid tv)) = le_bytes 2 pid"
  "cstr_at 16 (echo_request x pid tv) = takeWhile (\<lambda>b. b \<noteq> 0) (le_bytes 8 (nat (tv_usec tv mod 2 ^ 64)) @ to_bytes ''est'' @ [0])"
  by (simp_all add: echo_request_def icmp_bytes_def cstr_at_def MESSAGE_def to_bytes_def)

lemma full_reply_ok: "is_reply (echo_request x 7 \<lparr> tv_sec = 3, tv_usec = 0 \<rparr>) full_reply"
  unfolding is_reply_def request_parts by (simp add: full_reply_def le_bytes_def upt_rec cstr_at_def ICMP_ECHOREPLY_def nth_append nth_Cons')

lemma reply_in_pieces:
  assumes "other \<noteq> host"
  shows "test_ping x 7 (Some \<lparr> tv_sec = 3, tv_usec = 0 \<rparr>) True host [quick (Some (other, full_reply)), quick (Some (host, []))]"
proof -
  have r: "received full_reply (replicate 48 0) = full_reply" "received [] full_reply = full_reply"
    by (simp_all add: received_def full_reply_def)
  show ?thesis using assms full_reply_ok
    by (simp add: test_ping_def quick_def time_end_def time_minus_def r)
qed

lemma ping_reply_witness:
  "test_ping 0 7 (Some \<lparr> tv_sec = 3, tv_usec = 0 \<rparr>) True 1 [quick (Some (1, full_reply))] \<and> full_reply ! 20 = ICMP_ECHOREPLY"
proof -
  have r: "received full_reply (replicate 48 0) = full_reply" by (simp add: received_def full_reply_def)
  have l: "length full_reply = 48" by (simp add: full_reply_def)
  have t: "test_ping 0 7 (Some \<lparr> tv_sec = 3, tv_usec = 0 \<rparr>) True 1 [quick (Some (1, full_reply))]"
    using full_reply_ok by (simp add: test_ping_def quick_def time_end_def time_minus_def r)
  show ?thesis using t ping_reply[OF t] l by (simp add: quick_def)
qed

end
