(* ===== verification/Polling.thy ===== *)
theory Polling
  imports Bundle Snmp Icmp
begin

text \<open>
  The polling of devices (\<^verbatim>\<open>periodicPolling\<close> of \<^verbatim>\<open>src/CoreDevice.cc\<close>): a device is asked for its users by its SNMP module, or tested by ICMP; a change of its state and of
  its users is noted in the tracker and told to the other servers of the bundle. The SNMP
  library, loaded modules, the rounds of each ICMP test, the database and the random keys of packets are parameters.
\<close>

section \<open>One device\<close>

record 'p poll_env =
  pl_dns :: dns
  pl_md5 :: "byte list \<Rightarrow> byte list"
  pl_dbget :: "string \<Rightarrow> db_user"
  pl_now :: int
  pl_mem :: ut_entry
  pl_vks :: "nat \<Rightarrow> nat \<Rightarrow> nat"
  pl_bundle :: core_bundle
  pl_lib :: "'p snmp_lib"
  pl_mods :: "string \<Rightarrow> snmp_module"
  pl_ping :: "ipaddr \<Rightarrow> byte \<times> nat \<times> timeval option \<times> bool \<times> ping_round list"

definition pings :: "'p poll_env \<Rightarrow> ipaddr \<Rightarrow> bool" where
  "pings w ip = (case pl_ping w ip of (x, pid, clock, goes, rs) \<Rightarrow> icmp_test x pid clock goes ip rs)"

text \<open>Users the device reports are made or renewed; those that are accepted are told.\<close>

fun poll_new :: "'p poll_env \<Rightarrow> ipaddr \<Rightarrow> snmp_out list \<Rightarrow> tracker \<Rightarrow> ut_entry list \<Rightarrow> tracker \<times> ut_entry list" where
  "poll_new w ip [] t uts = (t, uts)"
| "poll_new w ip (x # xs) t uts =
     (if 0 < length (so_user x) then
        let us = so_user x; pr = portConvert (so_port x); xip = ip_fill (pl_dns w) UNKNOWN_IP
        in (case ut_add (pl_dns w) (pl_dbget w) (pl_now w) us ip pr [] xip t of
             (added, t') \<Rightarrow> poll_new w ip xs t' (if added then add_ut (pl_mem w) us ip xip pr [] True uts else uts))
      else poll_new w ip xs t uts)"

definition still_there :: "snmp_out list \<Rightarrow> session \<Rightarrow> bool" where
  "still_there xs s = (\<exists>x \<in> set xs. 0 < length (so_user x) \<and> ses_username s = so_user x \<and> ses_port s = portConvert (so_port x))"

text \<open>Sessions the device does not report are ended. After each one the number is set to 0 and then increased: the first session is
not looked at again. The session read last is kept in a variable of the thread.\<close>

lemma getuser_at_nas: "nas (snd (getuser_at dns now ip k n)) = nas n"
  by (auto simp: getuser_at_def Let_def split: option.splits prod.splits)

lemma getuser_at_session:
  "fst (getuser_at dns now ip k n) =
     (case get_dev ip n of Some d \<Rightarrow> if k < length (cusr d) then cusr d ! k else absent_session dns now | None \<Rightarrow> absent_session dns now)"
  by (auto simp: getuser_at_def Let_def dus_gets_def split: option.splits prod.splits)

lemma dus_del_found: "s \<in> set c \<Longrightarrow> fst (dus_del (ses_port s) c u) \<and> length (fst (snd (dus_del (ses_port s) c u))) < length c"
proof (induction "ses_port s" c u rule: dus_del.induct)
  case (2 x c u)
  then show ?case by (cases "dus_del (ses_port s) c u") auto
qed simp

lemma try_devs_hit:
  assumes "find P ds = Some d" "fst (f (cusr d) u)" "\<And>d c. P (d \<lparr> cusr := c \<rparr>) = P d"
  shows "\<exists>ds' u'. try_devs P f ds u = (True, ds', u') \<and> find P ds' = Some (d \<lparr> cusr := fst (snd (f (cusr d) u)) \<rparr>)"
  using assms(1,2)
proof (induction ds)
  case (Cons x ds)
  then show ?case using assms(3) by (auto split: if_splits prod.splits)
qed simp

lemma del_first_session:
  assumes "get_dev ip n = Some d" "s \<in> set (cusr d)"
  shows "get_dev ip (snd (net_usr_del ip (ses_port s) n)) = Some (d \<lparr> cusr := fst (snd (dus_del (ses_port s) (cusr d) (ud n))) \<rparr>)"
proof -
  have "\<exists>ds' u'. try_devs (at_ip ip) (dus_del (ses_port s)) (nas n) (ud n) = (True, ds', u') \<and>
      find (at_ip ip) ds' = Some (d \<lparr> cusr := fst (snd (dus_del (ses_port s) (cusr d) (ud n))) \<rparr>)"
    using assms by (intro try_devs_hit) (auto simp: get_dev_def at_ip_def dus_del_found)
  then show ?thesis by (auto simp: net_usr_del_def get_dev_def)
qed

lemma tk_net_ut_del: "tk_net (snd (ut_del u c p t)) = snd (net_usr_del c p (tk_net t))"
  by (simp add: ut_del_def split: prod.split)

definition read_user :: "'p poll_env \<Rightarrow> ipaddr \<Rightarrow> nat \<Rightarrow> tracker \<Rightarrow> session \<times> tracker" where
  "read_user w ip k t = (case getuser_at (pl_dns w) (pl_now w) ip k (tk_net t) of
     (s, n) \<Rightarrow> (s, t \<lparr> tk_net := n \<lparr> ud := ses_assign s (ud n) \<rparr> \<rparr>))"

lemma read_user_facts:
  assumes "read_user w ip k t = (s, t')"
  shows "nas (tk_net t') = nas (tk_net t)"
    and "s = (case get_dev ip (tk_net t) of Some d \<Rightarrow> if k < length (cusr d) then cusr d ! k else absent_session (pl_dns w) (pl_now w)
      | None \<Rightarrow> absent_session (pl_dns w) (pl_now w))"
  using assms getuser_at_nas[of "pl_dns w" "pl_now w" ip k "tk_net t"] getuser_at_session[of "pl_dns w" "pl_now w" ip k "tk_net t"]
  by (auto simp: read_user_def split: prod.splits)

lemma read_user_present:
  assumes "read_user w ip k t = (s, t')" "ses_present s"
  shows "\<exists>d. get_dev ip (tk_net t') = Some d \<and> get_dev ip (tk_net t) = Some d \<and> k < length (cusr d) \<and> s = cusr d ! k"
  using read_user_facts[OF assms(1)] assms(2) by (auto simp: absent_session_def get_dev_def split: option.splits if_splits)

lemma ends_one:
  assumes "read_user w ip k t = (s, t')" "ses_present s"
  shows "users_of ip (tk_net (snd (ut_del u ip (ses_port s) t'))) < users_of ip (tk_net t)"
proof -
  obtain d where d: "get_dev ip (tk_net t') = Some d" "get_dev ip (tk_net t) = Some d" "k < length (cusr d)" "s = cusr d ! k"
    using read_user_present[OF assms] by blast
  then have s: "s \<in> set (cusr d)" by simp
  show ?thesis using del_first_session[OF d(1) s] dus_del_found[OF s] d(2) by (simp add: users_of_def tk_net_ut_del)
qed

lemma reads_on:
  assumes "read_user w ip k t = (s, t')" "ses_present s"
  shows "users_of ip (tk_net t') = users_of ip (tk_net t)" "k < users_of ip (tk_net t)"
  using read_user_present[OF assms] by (auto simp: users_of_def)

function poll_gone :: "'p poll_env \<Rightarrow> ipaddr \<Rightarrow> snmp_out list \<Rightarrow> nat \<Rightarrow> tracker \<Rightarrow> ut_entry list \<Rightarrow> session \<times> tracker \<times> ut_entry list" where
  "poll_gone w ip xs k t uts = (case read_user w ip k t of (s, t') \<Rightarrow>
     if \<not> ses_present s then (s, t', uts)
     else if ip_eq ip (ses_nas s) \<and> \<not> still_there xs s then
       poll_gone w ip xs 1 (snd (ut_del (ses_username s) ip (ses_port s) t'))
         (add_ut (pl_mem w) (ses_username s) ip (ses_addr s) (ses_port s) (ses_phone s) False uts)
     else poll_gone w ip xs (Suc k) t' uts)"
  by pat_completeness auto
termination
  by (relation "measures [\<lambda>(w, ip, xs, k, t, uts). users_of ip (tk_net t), \<lambda>(w, ip, xs, k, t, uts). users_of ip (tk_net t) - k]")
    (simp_all add: ends_one[OF sym] reads_on[OF sym] diff_less_mono2)

declare poll_gone.simps [simp del]

section \<open>All devices\<close>

definition upd_dev :: "nat \<Rightarrow> (device \<Rightarrow> device) \<Rightarrow> tracker \<Rightarrow> tracker" where
  "upd_dev i f t = t \<lparr> tk_net := (tk_net t) \<lparr> nas := (nas (tk_net t))[i := f (nas (tk_net t) ! i)] \<rparr> \<rparr>"

definition tell_device :: "'p poll_env \<Rightarrow> nat \<Rightarrow> ipaddr \<Rightarrow> bool \<Rightarrow> byte list list" where
  "tell_device w i ip up = (let b = pl_bundle w
     in send_dt (pl_md5 w) (isBundle (pl_dns w) b) (bd_key b) (bd_pri b) (pl_vks w (2 * i)) (add_dt ip up []))"

definition tell_users :: "'p poll_env \<Rightarrow> nat \<Rightarrow> ut_entry list \<Rightarrow> byte list list" where
  "tell_users w i uts = (let b = pl_bundle w
     in send_ut (pl_md5 w) (pl_mem w) (isBundle (pl_dns w) b) (bd_key b) (bd_pri b) (pl_vks w (2 * i + 1)) uts)"

type_synonym polled = "session \<times> tracker \<times> byte list list"

text \<open>The device failed: it goes down and its users are ended.\<close>

definition poll_down :: "'p poll_env \<Rightarrow> nat \<Rightarrow> device \<Rightarrow> polled \<Rightarrow> polled" where
  "poll_down w i d st = (case st of (l, t, ps) \<Rightarrow>
     if \<not> dev_status d then (l, t, ps)
     else let t1 = upd_dev i (\<lambda>d. d \<lparr> dev_status := False \<rparr>) t
          in (l, t1 \<lparr> tk_net := net_usr_del_all (hostaddr d) (tk_net t1) \<rparr>, ps @ tell_device w i (hostaddr d) False))"

text \<open>The device answered: it goes up, and the users its module gave are compared with the sessions. There are none when
only the ICMP test succeeded.\<close>

definition poll_up :: "'p poll_env \<Rightarrow> nat \<Rightarrow> device \<Rightarrow> snmp_device option \<Rightarrow> polled \<Rightarrow> polled cres" where
  "poll_up w i d sd st = (case st of (l, t, ps) \<Rightarrow>
     let t1 = (if dev_status d then t else upd_dev i (\<lambda>d. d \<lparr> dev_status := True \<rparr>) t);
         p1 = (if dev_status d then ps else ps @ tell_device w i (hostaddr d) True)
     in if \<not> snmppolling d then Inr (l, t1, p1)
        else case sd of
          None \<Rightarrow> Inl NullDeref
        | Some sd \<Rightarrow> (case poll_new w (hostaddr d) (sd_outs sd) t1 [] of (t2, uts) \<Rightarrow>
            case poll_gone w (hostaddr d) (sd_outs sd) 0 t2 uts of (l', t3, uts') \<Rightarrow> Inr (l', t3, p1 @ tell_users w i uts')))"

text \<open>A device that rests is only counted down; a delay of 0 becomes 60 first.\<close>

definition poll_device :: "'p poll_env \<Rightarrow> nat \<Rightarrow> polled \<Rightarrow> polled cres option" where
  "poll_device w i st = (case st of (l, t, ps) \<Rightarrow>
     let d = nas (tk_net t) ! i; delay = (if dev_delay d = 0 then 60 else dev_delay d)
     in if dev_shutdown d then Some (Inr st)
        else if 0 < dev_rest d then Some (Inr (l, upd_dev i (\<lambda>d. d \<lparr> dev_delay := delay, dev_rest := dev_rest d - 1 \<rparr>) t, ps))
        else let t1 = upd_dev i (\<lambda>d. d \<lparr> dev_delay := delay, dev_rest := delay \<rparr>) t
             in obind (if snmppolling d then snmp_users (pl_lib w) (pl_mods w) d else Some (Inr None)) (\<lambda>sd.
                  if sd \<noteq> None \<or> icmppolling d \<and> pings w (hostaddr d) then Some (poll_up w i d sd (l, t1, ps))
                  else Some (Inr (poll_down w i d (l, t1, ps)))))"

fun poll_devices :: "'p poll_env \<Rightarrow> nat list \<Rightarrow> polled \<Rightarrow> polled cres option" where
  "poll_devices w [] st = Some (Inr st)"
| "poll_devices w (i # is) st = obind (poll_device w i st) (poll_devices w is)"

definition periodicPolling :: "'p poll_env \<Rightarrow> tracker \<Rightarrow> (byte list list \<times> tracker) cres option" where
  "periodicPolling w t =
     obind (poll_devices w [0..<length (nas (tk_net t))] (absent_session (pl_dns w) (pl_now w), t, [])) (\<lambda>(l, t', ps).
       Some (Inr (ps, t' \<lparr> tk_net := (tk_net t') \<lparr> ud := ses_destroy l (ud (tk_net t')) \<rparr> \<rparr>)))"

text \<open>Whether a thread is started: the flag is raised by the thread.\<close>

definition startPeriodic :: "dns \<Rightarrow> server list \<Rightarrow> bool \<Rightarrow> bool" where
  "startPeriodic dns csrv running = (isActive dns csrv \<and> \<not> running)"

section \<open>Lemmas\<close>

definition kept :: "ipaddr \<Rightarrow> snmp_out list \<Rightarrow> session \<Rightarrow> bool" where
  "kept ip xs s = (\<not> ip_eq ip (ses_nas s) \<or> still_there xs s)"

text \<open>What the sweep leaves: the sessions that are reported, and the one that stood first, or second behind one that was ended.\<close>

fun sweep :: "(session \<Rightarrow> bool) \<Rightarrow> session list \<Rightarrow> session list" where
  "sweep P [] = []"
| "sweep P (s # ss) = (if P s then s # filter P ss else case ss of [] \<Rightarrow> [] | s' # ss' \<Rightarrow> s' # filter P ss')"

definition without :: "nat \<Rightarrow> 'a list \<Rightarrow> 'a list" where
  "without k xs = take k xs @ drop (Suc k) xs"

lemma dus_del_nth:
  assumes "distinct (map ses_port c)" "k < length c"
  shows "fst (snd (dus_del (ses_port (c ! k)) c u)) = without k c"
  using assms
proof (induction c arbitrary: k u)
  case (Cons x c)
  show ?case
  proof (cases k)
    case 0
    then show ?thesis by (simp add: without_def)
  next
    case (Suc j)
    then have j: "j < length c" using Cons.prems by simp
    then have "ses_port x \<noteq> ses_port (c ! j)" using Cons.prems(1) nth_mem[OF j] by force
    then show ?thesis using Cons.IH[of j u] Cons.prems Suc j
      by (cases "dus_del (ses_port (c ! j)) c u") (simp add: without_def)
  qed
qed simp

lemma without_simps:
  "0 < k \<Longrightarrow> k < length c \<Longrightarrow> \<not> P (c ! k) \<Longrightarrow> take 1 (without k c) @ filter P (drop 1 (without k c)) = take 1 c @ filter P (drop 1 c)"
  "without 0 c = drop 1 c"
proof -
  show "without 0 c = drop 1 c" by (simp add: without_def)
  assume k: "0 < k" "k < length c" "\<not> P (c ! k)"
  then obtain x xs where c: "c = x # xs" by (cases c) auto
  from k c obtain j where j: "k = Suc j" "j < length xs" by (cases k) auto
  have "filter P (drop 1 c) = filter P (take j xs) @ filter P (xs ! j # drop (Suc j) xs)"
    unfolding filter_append[symmetric] using j c by (simp add: id_take_nth_drop[symmetric])
  then show "take 1 (without k c) @ filter P (drop 1 (without k c)) = take 1 c @ filter P (drop 1 c)"
    using k(3) c j by (simp add: without_def)
qed

lemma distinct_without: "distinct (map f c) \<Longrightarrow> distinct (map f (without k c))"
proof -
  assume d: "distinct (map f c)"
  have "distinct (take k (map f c) @ drop (Suc k) (map f c))"
    unfolding distinct_append using d set_take_disj_set_drop_if_distinct[OF d, of k "Suc k"] by simp
  then show ?thesis by (simp only: without_def map_append take_map drop_map)
qed

lemma set_without: "set (without k c) \<subseteq> set c"
  unfolding without_def by (auto dest: in_set_takeD in_set_dropD)

definition polls_fine :: "ipaddr \<Rightarrow> device \<Rightarrow> tracker \<Rightarrow> bool" where
  "polls_fine ip d t = (get_dev ip (tk_net t) = Some d \<and> distinct (map ses_port (cusr d)) \<and> (\<forall>s \<in> set (cusr d). ses_present s))"

lemma read_fine:
  assumes "polls_fine ip d t" "read_user w ip k t = (s, t')"
  shows "polls_fine ip d t'" "k < length (cusr d) \<Longrightarrow> s = cusr d ! k \<and> ses_present s" "\<not> k < length (cusr d) \<Longrightarrow> \<not> ses_present s"
  using assms(1) read_user_facts[OF assms(2)] by (auto simp: polls_fine_def get_dev_def absent_session_def)

lemma del_fine:
  assumes "polls_fine ip d t" "k < length (cusr d)"
  shows "polls_fine ip (d \<lparr> cusr := without k (cusr d) \<rparr>) (snd (ut_del u ip (ses_port (cusr d ! k)) t))"
proof -
  have d: "get_dev ip (tk_net t) = Some d" "distinct (map ses_port (cusr d))" using assms(1) by (simp_all add: polls_fine_def)
  have "get_dev ip (tk_net (snd (ut_del u ip (ses_port (cusr d ! k)) t))) = Some (d \<lparr> cusr := without k (cusr d) \<rparr>)"
    using del_first_session[OF d(1) nth_mem[OF assms(2)]] dus_del_nth[OF d(2) assms(2)] by (simp add: tk_net_ut_del)
  then show ?thesis using assms(1) distinct_without[OF d(2)] set_without by (fastforce simp: polls_fine_def)
qed

lemma gone_tail:
  assumes "polls_fine ip d t" "1 \<le> k" "\<forall>j < length (cusr d). 1 \<le> j \<and> j < k \<longrightarrow> kept ip xs (cusr d ! j)"
    and "poll_gone w ip xs k t uts = (l, t', uts')"
  shows "polls_fine ip (d \<lparr> cusr := take 1 (cusr d) @ filter (kept ip xs) (drop 1 (cusr d)) \<rparr>) t'"
  using assms
proof (induction w ip xs k t uts arbitrary: d rule: poll_gone.induct)
  case (1 w ip xs k t uts)
  obtain s t1 where r: "read_user w ip k t = (s, t1)" by (cases "read_user w ip k t")
  note f = read_fine[OF "1.prems"(1) r]
  note res = "1.prems"(4)[unfolded poll_gone.simps[of w ip xs k t uts] r, simplified]
  show ?case
  proof (cases "k < length (cusr d)")
    case False
    then have "filter (kept ip xs) (drop 1 (cusr d)) = drop 1 (cusr d)"
      using "1.prems"(3) by (auto simp: filter_id_conv in_set_conv_nth)
    then have "d \<lparr> cusr := take 1 (cusr d) @ filter (kept ip xs) (drop 1 (cusr d)) \<rparr> = d" by (simp only: append_take_drop_id) simp
    then show ?thesis using res f(1,3) False by simp
  next
    case True
    then have s: "s = cusr d ! k" "ses_present s" using f(2) by auto
    show ?thesis
    proof (cases "ip_eq ip (ses_nas s) \<and> \<not> still_there xs s")
      case gone: True
      let ?d = "d \<lparr> cusr := without k (cusr d) \<rparr>"
      have "polls_fine ip ?d (snd (ut_del (ses_username s) ip (ses_port s) t1))" using del_fine[OF f(1) True] s(1) by simp
      then have "polls_fine ip (?d \<lparr> cusr := take 1 (cusr ?d) @ filter (kept ip xs) (drop 1 (cusr ?d)) \<rparr>) t'"
        using "1.IH"(1)[OF r[symmetric] _ gone, of ?d] s(2) res gone by simp
      moreover have "\<not> kept ip xs (cusr d ! k)" using gone s by (simp add: kept_def)
      ultimately show ?thesis using without_simps(1)[of k "cusr d" "kept ip xs"] True "1.prems"(2) by simp
    next
      case stays: False
      then have "kept ip xs (cusr d ! k)" using s by (auto simp: kept_def)
      then have "\<forall>j < length (cusr d). 1 \<le> j \<and> j < Suc k \<longrightarrow> kept ip xs (cusr d ! j)"
        using "1.prems"(3) by (auto simp: less_Suc_eq)
      then show ?thesis using "1.IH"(2)[OF r[symmetric] _ stays f(1)] s(2) res stays by simp
    qed
  qed
qed

lemma poll_gone_sweep:
  assumes "polls_fine ip d t" "poll_gone w ip xs 0 t uts = (l, t', uts')"
  shows "polls_fine ip (d \<lparr> cusr := sweep (kept ip xs) (cusr d) \<rparr>) t'"
proof -
  obtain s t1 where r: "read_user w ip 0 t = (s, t1)" by (cases "read_user w ip 0 t")
  note f = read_fine[OF assms(1) r]
  note res = assms(2)[unfolded poll_gone.simps[of w ip xs 0 t uts] r, simplified]
  show ?thesis
  proof (cases "cusr d")
    case Nil
    then have e: "d \<lparr> cusr := [] \<rparr> = d" by (cases d) simp
    show ?thesis using res f(1,3) Nil by (simp add: e)
  next
    case (Cons x ss)
    then have s: "s = x" "ses_present s" using f(2) by auto
    show ?thesis
    proof (cases "ip_eq ip (ses_nas s) \<and> \<not> still_there xs s")
      case True
      let ?d = "d \<lparr> cusr := ss \<rparr>"
      have "polls_fine ip ?d (snd (ut_del (ses_username s) ip (ses_port s) t1))"
        using del_fine[OF f(1), of 0] s(1) Cons by (simp add: without_simps(2))
      then have "polls_fine ip (?d \<lparr> cusr := take 1 (cusr ?d) @ filter (kept ip xs) (drop 1 (cusr ?d)) \<rparr>) t'"
        using gone_tail[of ip ?d _ 1 xs w] res True s(2) by simp
      moreover have "\<not> kept ip xs x" using True s by (simp add: kept_def)
      ultimately show ?thesis using Cons by (cases ss) simp_all
    next
      case False
      then have "kept ip xs x" using s by (auto simp: kept_def)
      moreover have "polls_fine ip (d \<lparr> cusr := take 1 (cusr d) @ filter (kept ip xs) (drop 1 (cusr d)) \<rparr>) t'"
        using gone_tail[OF f(1), of 1 xs w] res False s(2) by simp
      ultimately show ?thesis using Cons by simp
    qed
  qed
qed

lemma find_at: "i < length xs \<Longrightarrow> P (xs ! i) \<Longrightarrow> \<forall>j < i. \<not> P (xs ! j) \<Longrightarrow> find P xs = Some (xs ! i)"
  by (force simp: find_Some_iff)

lemma get_dev_upd:
  assumes "i < length (nas (tk_net t))" "\<forall>j < i. \<not> at_ip ip (nas (tk_net t) ! j)" "at_ip ip (f (nas (tk_net t) ! i))"
  shows "get_dev ip (tk_net (upd_dev i f t)) = Some (f (nas (tk_net t) ! i))"
  using assms find_at[of i "(nas (tk_net t))[i := f (nas (tk_net t) ! i)]" "at_ip ip"] by (simp add: get_dev_def upd_dev_def)

lemma silent_users:
  assumes "dev_dl d = Some m" "mods m = cisco_so" "\<And>h c. sl_next lib h c = (\<lambda>n. TimeoutReply)"
  shows "snmp_users lib mods d = Some (Inr (Some (new_snmp_device (ip_get (hostaddr d)) (community d))))"
proof -
  have "snmp_get lib h c obj = Some (Inr (Some []))" for h c obj by (rule silent_device) (rule assms(3))
  then show ?thesis using assms(1,2)
    by (simp add: snmp_users_def module_of_def cisco_so_def getnas_cisco_def ask_for_def active_calls_def async_lines.simps
        tab_get_def idle_ports_def)
qed

lemma sweep_all: "(\<And>s. s \<in> set ss \<Longrightarrow> \<not> P s) \<Longrightarrow> sweep P ss = take 1 (drop 1 ss)"
  by (cases ss; cases "tl ss") (auto simp: filter_empty_conv)

lemma poll_new_unique: "net_unique (tk_net t) \<Longrightarrow> net_unique (tk_net (fst (poll_new w ip xs t uts)))"
proof (induction w ip xs t uts rule: poll_new.induct)
  case (2 w ip x xs t uts)
  then show ?case using ut_add_unique[OF 2(3)] by (auto simp: Let_def split: prod.splits) (metis snd_conv)+
qed simp

lemma poll_gone_unique: "net_unique (tk_net t) \<Longrightarrow> poll_gone w ip xs k t uts = (l, t', uts') \<Longrightarrow> net_unique (tk_net t')"
proof (induction w ip xs k t uts rule: poll_gone.induct)
  case (1 w ip xs k t uts)
  obtain s t1 where r: "read_user w ip k t = (s, t1)" by (cases "read_user w ip k t")
  have u: "net_unique (tk_net t1)" using "1.prems"(1) read_user_facts(1)[OF r] by (simp add: net_unique_def)
  have v: "net_unique (tk_net (snd (ut_del (ses_username s) ip (ses_port s) t1)))" using net_usr_del_unique[OF u] by (simp add: tk_net_ut_del)
  note res = "1.prems"(2)[unfolded poll_gone.simps[of w ip xs k t uts] r, simplified]
  show ?case using res "1.IH"(1)[OF r[symmetric] _ _ v] "1.IH"(2)[OF r[symmetric] _ _ u] u by (auto split: if_splits)
qed

lemma upd_dev_unique:
  assumes "\<And>d. cusr (f d) = cusr d" "net_unique (tk_net t)"
  shows "net_unique (tk_net (upd_dev i f t))"
proof (cases "i < length (nas (tk_net t))")
  case True
  then show ?thesis using assms by (auto simp: net_unique_def upd_dev_def dest!: set_update_subset_insert[THEN subsetD])
next
  case False
  then show ?thesis using assms(2) by (simp add: net_unique_def upd_dev_def list_update_beyond)
qed

lemma poll_down_unique: "net_unique (tk_net t) \<Longrightarrow> poll_down w i d (l, t, ps) = (l', t', ps') \<Longrightarrow> net_unique (tk_net t')"
  using upd_dev_unique[of "\<lambda>d. d \<lparr> dev_status := False \<rparr>" t i] net_step_unique[of _ "pl_dns w" "NUsrDelAll (hostaddr d)"]
  by (auto simp: poll_down_def Let_def split: if_splits)

lemma poll_up_unique:
  assumes "net_unique (tk_net t)" "poll_up w i d sd (l, t, ps) = Inr (l', t', ps')"
  shows "net_unique (tk_net t')"
proof -
  define t1 where "t1 = (if dev_status d then t else upd_dev i (\<lambda>d. d \<lparr> dev_status := True \<rparr>) t)"
  have t1: "net_unique (tk_net t1)" using assms(1) upd_dev_unique[of "\<lambda>d. d \<lparr> dev_status := True \<rparr>" t i] by (simp add: t1_def)
  show ?thesis
  proof (cases "snmppolling d")
    case False
    then show ?thesis using assms(2) t1 by (simp add: poll_up_def Let_def t1_def)
  next
    case True
    then obtain x where x: "sd = Some x" using assms(2) by (cases sd) (simp_all add: poll_up_def Let_def)
    obtain t2 uts where n: "poll_new w (hostaddr d) (sd_outs x) t1 [] = (t2, uts)" by (cases "poll_new w (hostaddr d) (sd_outs x) t1 []")
    obtain l3 t3 u3 where g: "poll_gone w (hostaddr d) (sd_outs x) 0 t2 uts = (l3, t3, u3)"
      by (cases "poll_gone w (hostaddr d) (sd_outs x) 0 t2 uts")
    have "net_unique (tk_net t2)" using poll_new_unique[OF t1, of w "hostaddr d" "sd_outs x" "[]"] n by simp
    then show ?thesis using poll_gone_unique[OF _ g] assms(2) True x n g by (simp add: poll_up_def Let_def flip: t1_def)
  qed
qed

lemma poll_device_unique:
  assumes "net_unique (tk_net t)" "poll_device w i (l, t, ps) = Some (Inr (l', t', ps'))"
  shows "net_unique (tk_net t')"
proof -
  have u: "net_unique (tk_net (upd_dev i (\<lambda>d. d \<lparr> dev_delay := a, dev_rest := b d \<rparr>) t))" for a b
    using upd_dev_unique[of "\<lambda>d. d \<lparr> dev_delay := a, dev_rest := b d \<rparr>"] assms(1) by simp
  let ?d = "nas (tk_net t) ! i" let ?u = "if snmppolling ?d then snmp_users (pl_lib w) (pl_mods w) ?d else Some (Inr None)"
  let ?delay = "if dev_delay ?d = 0 then 60 else dev_delay ?d"
  let ?t = "upd_dev i (\<lambda>d. d \<lparr> dev_delay := ?delay, dev_rest := ?delay \<rparr>) t"
  consider "dev_shutdown ?d" | "\<not> dev_shutdown ?d" "0 < dev_rest ?d" | "\<not> dev_shutdown ?d" "\<not> 0 < dev_rest ?d" by blast
  then show ?thesis
  proof cases
    case 1
    then show ?thesis using assms by (simp add: poll_device_def Let_def)
  next
    case 2
    then have "t' = upd_dev i (\<lambda>d. d \<lparr> dev_delay := ?delay, dev_rest := dev_rest d - 1 \<rparr>) t"
      using assms(2) by (simp add: poll_device_def Let_def)
    then show ?thesis using u[where b = "\<lambda>d. dev_rest d - 1"] by blast
  next
    case 3
    have t: "net_unique (tk_net ?t)" using u[where b = "\<lambda>d. ?delay"] .
    have e: "obind ?u (\<lambda>sd. if sd \<noteq> None \<or> icmppolling ?d \<and> pings w (hostaddr ?d) then Some (poll_up w i ?d sd (l, ?t, ps))
        else Some (Inr (poll_down w i ?d (l, ?t, ps)))) = Some (Inr (l', t', ps'))"
      using assms(2) 3 by (simp add: poll_device_def Let_def)
    then obtain sd where "?u = Some (Inr sd)" by (cases ?u) (auto simp: obind_def split: sum.splits)
    then consider "poll_up w i ?d sd (l, ?t, ps) = Inr (l', t', ps')" | "poll_down w i ?d (l, ?t, ps) = (l', t', ps')"
      using e by (auto split: if_split_asm)
    then show ?thesis using poll_up_unique[OF t] poll_down_unique[OF t] by cases blast+
  qed
qed

lemma poll_devices_unique:
  "net_unique (tk_net t) \<Longrightarrow> poll_devices w is (l, t, ps) = Some (Inr (l', t', ps')) \<Longrightarrow> net_unique (tk_net t')"
proof (induction "is" arbitrary: l t ps)
  case (Cons i "is")
  from Cons.prems(2) obtain l1 t1 ps1 where d: "poll_device w i (l, t, ps) = Some (Inr (l1, t1, ps1))"
    and r: "poll_devices w is (l1, t1, ps1) = Some (Inr (l', t', ps'))"
    by (cases "poll_device w i (l, t, ps)") (auto simp: obind_def split: sum.splits)
  show ?case using Cons.IH[OF poll_device_unique[OF Cons.prems(1) d] r] .
qed simp

section \<open>Properties\<close>

text \<open>C8: after the comparison of a device's sessions with what its module reported, exactly these sessions are left: those that are
reported, and one that is not when the first session was ended, for the one behind it is then passed over.\<close>

theorem poll_leaves:
  assumes "get_dev ip (tk_net t) = Some d" "distinct (map ses_port (cusr d))" "\<forall>s \<in> set (cusr d). ses_present s"
    and "poll_gone w ip xs 0 t uts = (l, t', uts')"
  shows "get_dev ip (tk_net t') = Some (d \<lparr> cusr := (case cusr d of
      [] \<Rightarrow> []
    | s # ss \<Rightarrow>
        if kept ip xs s then s # filter (kept ip xs) ss
        else (case ss of [] \<Rightarrow> [] | s' # ss' \<Rightarrow> s' # filter (kept ip xs) ss')) \<rparr>)"
proof -
  have "get_dev ip (tk_net t') = Some (d \<lparr> cusr := sweep (kept ip xs) (cusr d) \<rparr>)"
    using poll_gone_sweep[of ip d t w xs uts l t' uts'] assms by (simp add: polls_fine_def)
  then show ?thesis by (cases "cusr d") auto
qed

text \<open>C7: a device whose agent does not answer is never found to be down while it is polled through the module for Cisco devices: an
empty table is taken for the answer, ICMP is not tried, the device stays up and its sessions are ended but for the second one.\<close>

theorem silent_stays_up:
  assumes "i < length (nas (tk_net t))" "nas (tk_net t) ! i = d" "\<forall>j < i. \<not> at_ip (hostaddr d) (nas (tk_net t) ! j)"
    and "\<not> dev_shutdown d" "dev_rest d = 0" "snmppolling d" "dev_status d" "dev_dl d = Some m" "pl_mods w m = cisco_so"
    and "\<forall>h c n. sl_next (pl_lib w) h c n = TimeoutReply"
    and "distinct (map ses_port (cusr d))" "\<forall>s \<in> set (cusr d). ses_present s \<and> ip_eq (hostaddr d) (ses_nas s)"
  shows "\<exists>l' t' ps' a. poll_device w i (l, t, ps) = Some (Inr (l', t', ps')) \<and>
    get_dev (hostaddr d) (tk_net t') = Some (d \<lparr> dev_delay := a, dev_rest := a, cusr := take 1 (drop 1 (cusr d)) \<rparr>)"
proof -
  let ?a = "if dev_delay d = 0 then 60 else dev_delay d"
  let ?d = "d \<lparr> dev_delay := ?a, dev_rest := ?a \<rparr>" let ?t = "upd_dev i (\<lambda>d. d \<lparr> dev_delay := ?a, dev_rest := ?a \<rparr>) t"
  have "sl_next (pl_lib w) h c = (\<lambda>n. TimeoutReply)" for h c using assms(10) by (intro ext) simp
  then have u: "snmp_users (pl_lib w) (pl_mods w) d = Some (Inr (Some (new_snmp_device (ip_get (hostaddr d)) (community d))))"
    using assms(8,9) by (intro silent_users) simp_all
  have g: "get_dev (hostaddr d) (tk_net ?t) = Some ?d"
    using get_dev_upd[OF assms(1,3), of "\<lambda>d. d \<lparr> dev_delay := ?a, dev_rest := ?a \<rparr>"] assms(2) by (simp add: at_ip_def ip_eq_def)
  obtain l' t' uts where r: "poll_gone w (hostaddr d) [] 0 ?t [] = (l', t', uts)" by (cases "poll_gone w (hostaddr d) [] 0 ?t []")
  have "polls_fine (hostaddr d) (?d \<lparr> cusr := sweep (kept (hostaddr d) []) (cusr ?d) \<rparr>) t'"
    using g assms(11,12) by (intro poll_gone_sweep[OF _ r]) (simp add: polls_fine_def)
  moreover have "sweep (kept (hostaddr d) []) (cusr d) = take 1 (drop 1 (cusr d))"
    using assms(12) by (intro sweep_all) (auto simp: kept_def still_there_def)
  ultimately have "get_dev (hostaddr d) (tk_net t') = Some (d \<lparr> dev_delay := ?a, dev_rest := ?a, cusr := take 1 (drop 1 (cusr d)) \<rparr>)"
    by (simp add: polls_fine_def)
  moreover have "poll_device w i (l, t, ps) = Some (Inr (l', t', ps @ tell_users w i uts))"
    using assms(2,4-7) u r by (simp add: poll_device_def poll_up_def Let_def new_snmp_device_def split del: if_split cong: if_cong)
  ultimately show ?thesis by blast
qed

text \<open>C9: a whole polling run, of whatever devices, modules and answers, gives no device two sessions of one user on one port.\<close>

theorem polling_unique:
  assumes "net_unique (tk_net t)" "periodicPolling w t = Some (Inr (ps, t'))"
  shows "net_unique (tk_net t')"
proof -
  obtain l1 t1 ps1 where "poll_devices w [0..<length (nas (tk_net t))] (absent_session (pl_dns w) (pl_now w), t, []) = Some (Inr (l1, t1, ps1))"
    and "t' = t1 \<lparr> tk_net := (tk_net t1) \<lparr> ud := ses_destroy l1 (ud (tk_net t1)) \<rparr> \<rparr>"
    using assms(2) by (cases "poll_devices w [0..<length (nas (tk_net t))] (absent_session (pl_dns w) (pl_now w), t, [])")
      (auto simp: periodicPolling_def obind_def split: sum.splits)
  then show ?thesis using poll_devices_unique[OF assms(1)] by (simp add: net_unique_def)
qed

text \<open>A device with both kinds of polling whose module reports a failure, as the one it is made with always does, ends the daemon when it
answers the ICMP test: the result of the module is used though it is null.\<close>

lemma poll_null:
  assumes "nas (tk_net t) ! i = d" "\<not> dev_shutdown d" "dev_rest d = 0" "snmppolling d" "icmppolling d" "dev_dl d = Some m"
    and "pl_mods w m = none_so" "pings w (hostaddr d)"
  shows "poll_device w i (l, t, ps) = Some (Inl NullDeref)"
  using assms by (simp add: poll_device_def poll_up_def Let_def snmp_users_def module_of_def none_so_def getnas_none_def)

text \<open>SNMP polling of a device whose module was never loaded calls a function that was never set.\<close>

lemma poll_unloaded:
  assumes "nas (tk_net t) ! i = d" "\<not> dev_shutdown d" "dev_rest d = 0" "snmppolling d" "dev_dl d = None"
  shows "poll_device w i (l, t, ps) = Some (Inl Indeterminate)"
  using assms by (simp add: poll_device_def Let_def snmp_users_def module_of_def)

section \<open>Witnesses\<close>

definition demo_ip :: ipaddr where "demo_ip = ip_default (\<lambda>s. None)"

definition demo_session :: "string \<Rightarrow> session" where
  "demo_session p = new_session 0 ''ann'' p [] demo_ip demo_ip"

definition demo_device :: device where
  "demo_device = (new_device demo_ip) \<lparr> dev_shutdown := False, snmppolling := True, dev_status := True, dev_dl := Some ''cisco.so'',
     cusr := map demo_session [''Async1'', ''Async2'', ''Async3''] \<rparr>"

definition demo_tracker :: tracker where
  "demo_tracker = \<lparr> tk_cache = [], tk_net = \<lparr> nas = [demo_device], ud = [] \<rparr> \<rparr>"

definition demo_env :: "unit poll_env" where
  "demo_env = \<lparr> pl_dns = \<lambda>s. None, pl_md5 = \<lambda>b. replicate 16 0, pl_dbget = \<lambda>u. new_db_user, pl_now = 0,
     pl_mem = \<lparr> ut_username = replicate 32 0, ut_device = 0, ut_userip = 0, ut_check = 0, ut_port = replicate 32 0,
       ut_phone = replicate 32 0, ut_status = 0 \<rparr>,
     pl_vks = \<lambda>i j. 0, pl_bundle = \<lparr> bd_mgroup = demo_ip, bd_port = 0, bd_ttl = 0, bd_pri = 0, bd_key = [], bd_keepalive = 0 \<rparr>,
     pl_lib = demo_lib \<lparr> sl_next := \<lambda>h c n. TimeoutReply \<rparr>, pl_mods = \<lambda>m. cisco_so, pl_ping = \<lambda>ip. (0, 0, None, False, []) \<rparr>"

lemma demo_facts: "\<forall>s \<in> set (cusr demo_device). ses_present s \<and> ip_eq (hostaddr demo_device) (ses_nas s)"
  "distinct (map ses_port (cusr demo_device))" "hostaddr demo_device = demo_ip" "get_dev demo_ip (tk_net demo_tracker) = Some demo_device"
  by (simp_all add: demo_device_def demo_session_def new_session_def new_device_def ip_eq_def demo_tracker_def get_dev_def at_ip_def)

lemma silent_stays_up_witness:
  "\<exists>l' t' ps' a. poll_device demo_env 0 (demo_session [], demo_tracker, []) = Some (Inr (l', t', ps')) \<and>
    get_dev demo_ip (tk_net t') = Some (demo_device \<lparr> dev_delay := a, dev_rest := a, cusr := [demo_session ''Async2''] \<rparr>)"
proof -
  have d: "0 < length (nas (tk_net demo_tracker))" "nas (tk_net demo_tracker) ! 0 = demo_device"
    "\<forall>j < (0::nat). \<not> at_ip (hostaddr demo_device) (nas (tk_net demo_tracker) ! j)"
    by (simp_all add: demo_tracker_def)
  have f: "\<not> dev_shutdown demo_device" "dev_rest demo_device = 0" "snmppolling demo_device" "dev_status demo_device"
    "dev_dl demo_device = Some ''cisco.so''" by (simp_all add: demo_device_def new_device_def)
  have w: "pl_mods demo_env ''cisco.so'' = cisco_so" "\<forall>h c n. sl_next (pl_lib demo_env) h c n = TimeoutReply" by (simp_all add: demo_env_def)
  have c: "take 1 (drop 1 (cusr demo_device)) = [demo_session ''Async2'']" by (simp add: demo_device_def)
  show ?thesis using silent_stays_up[OF d f w demo_facts(2,1), of "demo_session []" "[]"] c demo_facts(3) by simp
qed

lemma poll_leaves_witness:
  "\<exists>l t' uts. poll_gone demo_env demo_ip [new_out ''ann'' ''As3''] 0 demo_tracker [] = (l, t', uts) \<and>
     get_dev demo_ip (tk_net t') = Some (demo_device \<lparr> cusr := map demo_session [''Async2'', ''Async3''] \<rparr>)"
proof -
  obtain l t' uts where r: "poll_gone demo_env demo_ip [new_out ''ann'' ''As3''] 0 demo_tracker [] = (l, t', uts)"
    by (cases "poll_gone demo_env demo_ip [new_out ''ann'' ''As3''] 0 demo_tracker []")
  have p: "portConvert ''As3'' = ''Async3''" by code_simp
  have k: "kept demo_ip [new_out ''ann'' ''As3''] (demo_session q) = (q = ''Async3'')" for q
    by (auto simp: kept_def still_there_def demo_session_def new_session_def new_out_def p ip_eq_def)
  have c: "cusr demo_device = map demo_session [''Async1'', ''Async2'', ''Async3'']" by (simp add: demo_device_def)
  have present: "\<forall>s \<in> set (cusr demo_device). ses_present s" using demo_facts(1) by blast
  show ?thesis using poll_leaves[OF demo_facts(4,2) present r] r by (simp add: c k)
qed

lemma polling_unique_witness:
  "\<exists>ps t'. periodicPolling demo_env demo_tracker = Some (Inr (ps, t')) \<and> net_unique (tk_net t')"
proof -
  let ?l = "absent_session (pl_dns demo_env) (pl_now demo_env)"
  have d: "0 < length (nas (tk_net demo_tracker))" "nas (tk_net demo_tracker) ! 0 = demo_device"
    by (simp_all add: demo_tracker_def)
  have u: "snmp_users (pl_lib demo_env) (pl_mods demo_env) demo_device = Some (Inr (Some (new_snmp_device (ip_get demo_ip) (community demo_device))))"
    using silent_users[of demo_device "''cisco.so''" "pl_mods demo_env" "pl_lib demo_env"] demo_facts(3)
    by (simp add: demo_env_def demo_device_def)
  have f: "\<not> dev_shutdown demo_device" "dev_rest demo_device = 0" "snmppolling demo_device" "dev_status demo_device"
    by (simp_all add: demo_device_def new_device_def)
  have "\<exists>l t ps. poll_device demo_env 0 (?l, demo_tracker, []) = Some (Inr (l, t, ps))"
    by (simp add: poll_device_def poll_up_def Let_def d u f new_snmp_device_def split: prod.split)
  then obtain l t ps where p: "poll_device demo_env 0 (?l, demo_tracker, []) = Some (Inr (l, t, ps))" by blast
  have n: "[0..<length (nas (tk_net demo_tracker))] = [0]" by (simp add: demo_tracker_def)
  have run: "\<exists>t'. periodicPolling demo_env demo_tracker = Some (Inr (ps, t'))" by (simp add: periodicPolling_def n p)
  have s: "net_unique (tk_net demo_tracker)"
    by (simp add: demo_tracker_def demo_device_def demo_session_def new_session_def net_unique_def ses_unique_def ses_key_def)
  show ?thesis using run polling_unique[OF s] by blast
qed

end
