(* ===== verification/XmlDb.thy ===== *)
theory XmlDb
  imports Pgsql
begin

text \<open>
  The text database (\<^verbatim>\<open>src/db/xml-db.cc\<close>): one buffer of XML text which all connections share, read from the file by
  the first open and written back by some closes. Each request runs the Expat parser over the buffer; its handlers
  \<^verbatim>\<open>xdb_queryStart\<close> and \<^verbatim>\<open>xdb_queryStop\<close> collect rows or edit the buffer at the byte positions the parser tells.
  Expat is a parameter: the list of events of a text (with byte index, byte count and column) and whether it ended
  without a parse error. So are the width of \<^verbatim>\<open>size_t\<close> (\<open>xe_bits\<close>), local time, the files, and the bytes \<^verbatim>\<open>iso2time\<close>
  finds in the members of its \<^verbatim>\<open>struct tm\<close> it does not set. Positions are taken from files shorter than \<open>2 ^ 31\<close> bytes, an
  \<^verbatim>\<open>int\<close> holds them. \<open>None\<close> is a call that does not return: a lock that is never released, \<^verbatim>\<open>exit\<close>. The \<^verbatim>\<open>cerr\<close> traces are
  left out but for the one that reads an attribute that may not be there.
\<close>

section \<open>State\<close>

datatype action = SELECT_ROW | INSERT_ROW | UPDATE_ROW | DELETE_ROW | INSERT_TABLE

type_synonym xattrs = "(string \<times> string) list"

datatype xev = XStart nat nat nat string xattrs | XStop nat nat string

record xenv =
  xe_bits :: nat
  xe_local :: "int \<Rightarrow> tm"
  xe_mktime :: "tm \<Rightarrow> int"
  xe_stack :: tm
  xe_parser :: bool
  xe_expat :: "string \<Rightarrow> xev list \<times> bool"
  xe_write :: "string \<Rightarrow> bool"

text \<open>A connection: its rows found, the position of the start tag kept in \<^verbatim>\<open>streamByte[0]\<close>, and by how much the buffer has
become shorter than the text parsed. Members no code has set yet are \<open>None\<close>.\<close>

record xconn =
  xc_num :: nat
  xc_res :: "xattrs list"
  xc_skip :: bool
  xc_s0 :: "(int \<times> int) option"
  xc_act :: "action option"
  xc_dev :: int

record xdb =
  xd_con :: "xconn list"
  xd_buf :: string
  xd_name :: string
  xd_open :: bool
  xd_locked :: bool
  xd_files :: "string \<Rightarrow> string option"

section \<open>Strings of the C++ library\<close>

definition npos :: "nat \<Rightarrow> nat" where
  "npos w = 2 ^ w - 1"

definition str_find :: "nat \<Rightarrow> char \<Rightarrow> nat \<Rightarrow> string \<Rightarrow> nat" where
  "str_find w c from s = (let i = from + length (takeWhile (\<lambda>x. x \<noteq> c) (drop from s)) in if i < length s then i else npos w)"

definition str_insert :: "int \<Rightarrow> string \<Rightarrow> string \<Rightarrow> string cres" where
  "str_insert p r s = (if p < 0 \<or> int (length s) < p then Inl Abort else Inr (take (nat p) s @ r @ drop (nat p) s))"

text \<open>A negative count is a huge one: all that is left.\<close>

definition str_replace :: "int \<Rightarrow> int \<Rightarrow> string \<Rightarrow> string \<Rightarrow> string cres" where
  "str_replace p n r s = (if p < 0 \<or> int (length s) < p then Inl Abort
     else Inr (take (nat p) s @ r @ (if n < 0 then [] else drop (nat p + nat n) s)))"

definition find_first_not_of :: "char set \<Rightarrow> int \<Rightarrow> string \<Rightarrow> int" where
  "find_first_not_of B p s =
     (let i = nat p + length (takeWhile (\<lambda>x. x \<in> B) (drop (nat p) s)) in if i < length s then int i else -1)"

text \<open>The last place not behind \<open>p\<close>.\<close>

definition find_last_not_of :: "char set \<Rightarrow> int \<Rightarrow> string \<Rightarrow> int" where
  "find_last_not_of B p s = int (length (dropWhile (\<lambda>x. x \<in> B) (rev (take (nat p + 1) s)))) - 1"

definition strcase_eq :: "string \<Rightarrow> string \<Rightarrow> bool" where
  "strcase_eq a b = (map tolower_c (c_str a) = map tolower_c (c_str b))"

section \<open>Times\<close>

definition xml_time2iso :: "(int \<Rightarrow> tm) \<Rightarrow> int \<Rightarrow> string" where
  "xml_time2iso local t = (let tt = local t in
     snprintf_s 63 (zpad 4 (1900 + tm_year tt) @ ''-'' @ zpad 2 (tm_mon tt + 1) @ ''-'' @ zpad 2 (tm_mday tt) @
       '' '' @ zpad 2 (tm_hour tt) @ '':'' @ zpad 2 (tm_min tt) @ '':'' @ zpad 2 (tm_sec tt)))"

text \<open>Reads the bytes 0 to 18 of the text, the last of which may be its terminator.\<close>

definition xml_iso2time :: "xenv \<Rightarrow> string \<Rightarrow> int cres" where
  "xml_iso2time env txt = (if length (c_str txt) < 18 then Inl OutOfBounds
     else let s = c_str txt in Inr (xe_mktime env (xe_stack env \<lparr> tm_year := num_at 0 4 s - 1900, tm_mon := num_at 5 7 s - 1,
       tm_mday := num_at 8 10 s, tm_hour := num_at 11 13 s, tm_min := num_at 14 16 s, tm_sec := num_at 17 19 s \<rparr>)))"

section \<open>Escapes\<close>

text \<open>\<^verbatim>\<open>convert2WF\<close> keeps the place found in an \<^verbatim>\<open>unsigned int\<close> and compares that with \<^verbatim>\<open>string::npos\<close>.\<close>

partial_function (option) wf_amp :: "nat \<Rightarrow> nat \<Rightarrow> string \<Rightarrow> string cres option" where
  "wf_amp w pos s = (let p = str_find w CHR ''&'' pos s mod 2 ^ 32
     in if p = npos w then Some (Inr s)
        else if length s < p then Some (Inl Abort)
        else wf_amp w ((p + 1) mod 2 ^ 32) (take p s @ ''&amp;'' @ drop (p + 1) s))"

partial_function (option) wf_char :: "nat \<Rightarrow> char \<Rightarrow> string \<Rightarrow> string \<Rightarrow> string cres option" where
  "wf_char w c r s = (let p = str_find w c 0 s mod 2 ^ 32
     in if p = npos w then Some (Inr s)
        else if length s < p then Some (Inl Abort)
        else wf_char w c r (take p s @ r @ drop (p + 1) s))"

definition convert2WF :: "nat \<Rightarrow> string \<Rightarrow> string cres option" where
  "convert2WF w s = obind (wf_amp w 0 s) (\<lambda>s1. obind (wf_char w CHR ''>'' ''&gt;'' s1) (\<lambda>s2.
     obind (wf_char w CHR ''<'' ''&lt;'' s2) (\<lambda>s3. obind (wf_char w CHR 0x27 ''&apos;'' s3) (wf_char w CHR 0x22 ''&quot;''))))"

section \<open>Rows\<close>

text \<open>The variables the values go through; the text array of \<^verbatim>\<open>xdb_compareRow\<close> is not set before the first read.\<close>

record xvars =
  xv_bool :: bool
  xv_int :: int
  xv_str :: "string option"
  xv_date :: int

text \<open>The text of a text column: the array has room for 300 bytes, a longer value has no terminator in it.\<close>

definition text_of :: "dbtable \<Rightarrow> string \<Rightarrow> xvars \<Rightarrow> (string \<times> xvars) cres" where
  "text_of d n v = (case (if has_field T_STR n d then Some (get_chars n [] d) else xv_str v) of
      None \<Rightarrow> Inl Indeterminate
    | Some s \<Rightarrow> if 300 \<le> length s then Inl OutOfBounds else Inr (s, v \<lparr> xv_str := Some s \<rparr>))"

text \<open>\<^verbatim>\<open>get_name(i).c_str()\<close>, and a column of a row found: the first of the name.\<close>

definition c_name :: "dbtable \<Rightarrow> nat \<Rightarrow> string" where
  "c_name d i = c_str (get_name d i)"

definition col_of :: "string \<Rightarrow> xattrs \<Rightarrow> string" where
  "col_of n r = (case map_of r n of None \<Rightarrow> [] | Some s \<Rightarrow> s)"

text \<open>One value of a new row.\<close>

definition cell_text :: "xenv \<Rightarrow> dbtable \<Rightarrow> nat \<Rightarrow> xvars \<Rightarrow> (string \<times> xvars) cres option" where
  "cell_text env d i v =
     (let n = c_name d i; ty = get_type d i
      in if ty = T_BOOL then (let b = get_bool n (xv_bool v) d in Some (Inr (if b then ''true'' else ''false'', v \<lparr> xv_bool := b \<rparr>)))
         else if ty = T_INT then (let x = get_int n (xv_int v) d in Some (Inr (dec_int x, v \<lparr> xv_int := x \<rparr>)))
         else if ty = T_STR then obind (Some (text_of d n v)) (\<lambda>(s, v1). obind (convert2WF (xe_bits env) s) (\<lambda>e. Some (Inr (e, v1))))
         else if ty = T_DATE then (let t = get_date n (xv_date v) d in Some (Inr (xml_time2iso (xe_local env) t, v \<lparr> xv_date := t \<rparr>)))
         else Some (Inr ([], v)))"

fun row_cells :: "xenv \<Rightarrow> dbtable \<Rightarrow> action \<Rightarrow> xattrs \<Rightarrow> nat list \<Rightarrow> xvars \<Rightarrow> string cres option" where
  "row_cells env d act prev [] v = Some (Inr [])"
| "row_cells env d act prev (i # is) v =
     obind (if act = UPDATE_ROW \<and> \<not> get_update d i
            then obind (convert2WF (xe_bits env) (col_of (get_name d i) prev)) (\<lambda>e. Some (Inr (e, v)))
            else cell_text env d i v)
       (\<lambda>(x, v1). obind (row_cells env d act prev is v1) (\<lambda>r.
          Some (Inr ('' '' @ get_name d i @ '' = '' @ [quote] @ x @ [quote] @ '' '' @ r))))"

definition makeRow :: "xenv \<Rightarrow> dbtable \<Rightarrow> action \<Rightarrow> xattrs list \<Rightarrow> nat \<Rightarrow> string cres option" where
  "makeRow env d act rows delim =
     obind (row_cells env d act (if rows = [] then [] else hd rows) [0..<length (tb_fields d)]
         \<lparr> xv_bool = False, xv_int = 0, xv_str = Some [], xv_date = 0 \<rparr>)
       (\<lambda>r. Some (Inr (replicate (if act = INSERT_ROW then delim + 3 else delim) CHR '' '' @ ''<row '' @ r @ ''/>'')))"

text \<open>Does a value of a row agree with the column?\<close>

definition cell_agrees :: "xenv \<Rightarrow> dbtable \<Rightarrow> nat \<Rightarrow> string \<Rightarrow> xvars \<Rightarrow> (bool \<times> xvars) cres" where
  "cell_agrees env d i a v =
     (let n = c_name d i; ty = get_type d i
      in if ty = T_BOOL then (let b = get_bool n (xv_bool v) d in Inr ((\<not> strcase_eq a ''true'') \<noteq> b, v \<lparr> xv_bool := b \<rparr>))
         else if ty = T_INT then (let x = get_int n (xv_int v) d in Inr (atoi_c a = x, v \<lparr> xv_int := x \<rparr>))
         else if ty = T_STR then cbind (text_of d n v) (\<lambda>(s, v1). Inr (strcase_eq a s, v1))
         else if ty = T_DATE then (let t = get_date n (xv_date v) d in Inr (strcase_eq a (xml_time2iso (xe_local env) t), v \<lparr> xv_date := t \<rparr>))
         else Inr (True, v))"

fun attrs_agree :: "xenv \<Rightarrow> dbtable \<Rightarrow> nat \<Rightarrow> xattrs \<Rightarrow> xvars \<Rightarrow> (bool \<times> xvars) cres" where
  "attrs_agree env d i [] v = Inr (True, v)"
| "attrs_agree env d i ((n, a) # as) v =
     (if \<not> strcase_eq n (c_name d i) then attrs_agree env d i as v
      else cbind (cell_agrees env d i a v) (\<lambda>(ok, v1). if ok then attrs_agree env d i as v1 else Inr (False, v1)))"

fun cols_agree :: "xenv \<Rightarrow> dbtable \<Rightarrow> xattrs \<Rightarrow> nat list \<Rightarrow> xvars \<Rightarrow> bool cres" where
  "cols_agree env d as [] v = Inr True"
| "cols_agree env d as (i # is) v =
     (if \<not> get_request d i then cols_agree env d as is v
      else cbind (attrs_agree env d i as v) (\<lambda>(ok, v1). if ok then cols_agree env d as is v1 else Inr False))"

definition xdb_compareRow :: "xenv \<Rightarrow> dbtable \<Rightarrow> xattrs \<Rightarrow> bool cres" where
  "xdb_compareRow env d as = cols_agree env d as [0..<length (tb_fields d)] \<lparr> xv_bool = False, xv_int = 0, xv_str = None, xv_date = 0 \<rparr>"

section \<open>The handlers\<close>

definition LF_text :: string where "LF_text = [CHR 0x0A]"

text \<open>The attributes of a \<^verbatim>\<open>table\<close> tag: a new row goes behind it.\<close>

fun table_attrs :: "xenv \<Rightarrow> dbtable \<Rightarrow> action \<Rightarrow> nat \<Rightarrow> nat \<Rightarrow> nat \<Rightarrow> xattrs \<Rightarrow> xconn \<times> string \<Rightarrow> (xconn \<times> string) cres option" where
  "table_attrs env d act p k col [] (c, b) = Some (Inr (c, b))"
| "table_attrs env d act p k col ((n, a) # as) (c, b) =
     (if \<not> strcase_eq n ''name'' then table_attrs env d act p k col as (c, b)
      else if \<not> strcase_eq a (tb_name d) then table_attrs env d act p k col as (c \<lparr> xc_skip := True \<rparr>, b)
      else let c1 = c \<lparr> xc_skip := False, xc_s0 := Some (int p, int k) \<rparr>
        in if act \<noteq> INSERT_ROW then table_attrs env d act p k col as (c1, b)
           else obind (makeRow env d act (xc_res c) col) (\<lambda>r. obind (Some (str_insert (int p + int k) (LF_text @ r) b)) (\<lambda>b1.
             table_attrs env d act p k col as (c1 \<lparr> xc_skip := True \<rparr>, b1))))"

definition table_tags :: "dbtable \<Rightarrow> nat \<Rightarrow> string" where
  "table_tags d col = (let ind = replicate (col + 3) CHR '' ''
     in LF_text @ ind @ '' <TABLE name='' @ [quote] @ tb_name d @ [quote] @ ''>'' @ replicate 15 CHR '' '' @ LF_text @ ind @ '' </TABLE>'')"

definition xdb_queryStart :: "xenv \<Rightarrow> dbtable \<Rightarrow> action \<Rightarrow> nat \<Rightarrow> nat \<Rightarrow> nat \<Rightarrow> string \<Rightarrow> xattrs \<Rightarrow> xconn \<times> string \<Rightarrow> (xconn \<times> string) cres option" where
  "xdb_queryStart env d act p k col el as cb = (case cb of (c, b) \<Rightarrow>
     if as = [] then Some (Inl Indeterminate)
     else if strcase_eq el ''table'' then table_attrs env d act p k col as (c, b)
     else if strcase_eq el ''database'' \<and> act = INSERT_TABLE then
       obind (Some (str_insert (int p + int k) (table_tags d col) b)) (\<lambda>b1.
         Some (Inr (c \<lparr> xc_s0 := Some (int p, int k), xc_skip := True \<rparr>, b1)))
     else if xc_skip c \<or> \<not> strcase_eq el ''row'' then Some (Inr (c, b))
     else case act of
         SELECT_ROW \<Rightarrow> obind (Some (xdb_compareRow env d as)) (\<lambda>ok.
           Some (Inr (if ok then c \<lparr> xc_res := xc_res c @ [as] \<rparr> else c, b)))
       | UPDATE_ROW \<Rightarrow> obind (Some (xdb_compareRow env d as)) (\<lambda>ok.
           Some (Inr (if ok then c \<lparr> xc_s0 := Some (int p, int k), xc_res := xc_res c @ [as] \<rparr> else c \<lparr> xc_s0 := Some (-1, -1) \<rparr>, b)))
       | DELETE_ROW \<Rightarrow> obind (Some (xdb_compareRow env d as)) (\<lambda>ok.
           Some (Inr (c \<lparr> xc_s0 := if ok then Some (int p, int k) else Some (-1, -1) \<rparr>, b)))
       | _ \<Rightarrow> Some (Inr (c, b)))"

abbreviation (input) blanks :: "char set" where "blanks \<equiv> {CHR '' '', CHR 0x09}"
abbreviation (input) blanks_lf :: "char set" where "blanks_lf \<equiv> {CHR '' '', CHR 0x09, CHR 0x0A}"

definition delete_text_row :: "int \<Rightarrow> int \<Rightarrow> xconn \<Rightarrow> string \<Rightarrow> (xconn \<times> string) cres" where
  "delete_text_row s e c b =
     (let n = e - s; dotS = s - xc_dev c
      in cbind (str_replace dotS n [] b) (\<lambda>b1.
         let dotE = find_first_not_of blanks dotS b1; dotS1 = find_last_not_of blanks_lf dotS b1 + 1
         in cbind (str_replace dotS1 (dotE - dotS1) [] b1) (\<lambda>b2.
            Inr (c \<lparr> xc_dev := xc_dev c + n + (dotE - dotS1) \<rparr>, b2))))"

definition update_text_row :: "xenv \<Rightarrow> dbtable \<Rightarrow> int \<Rightarrow> int \<Rightarrow> xconn \<Rightarrow> string \<Rightarrow> (xconn \<times> string) cres option" where
  "update_text_row env d s e c b =
     obind (makeRow env d UPDATE_ROW (xc_res c) 0) (\<lambda>r.
     obind (Some (str_replace (s - xc_dev c) (e - s) r b)) (\<lambda>b1.
       Some (Inr (c \<lparr> xc_dev := xc_dev c + (e - s - int (length r)), xc_res := [] \<rparr>, b1))))"

definition xdb_queryStop :: "xenv \<Rightarrow> dbtable \<Rightarrow> action \<Rightarrow> nat \<Rightarrow> nat \<Rightarrow> string \<Rightarrow> xconn \<times> string \<Rightarrow> (xconn \<times> string) cres option" where
  "xdb_queryStop env d act p k el cb = (case cb of (c, b) \<Rightarrow>
     if xc_skip c then Some (Inr (c, b))
     else if \<not> strcase_eq el ''row'' then Some (Inr (c \<lparr> xc_skip := True \<rparr>, b))
     else if act \<noteq> DELETE_ROW \<and> act \<noteq> UPDATE_ROW then Some (Inr (c, b))
     else case xc_s0 c of
         None \<Rightarrow> Some (Inl Indeterminate)
       | Some (s, l) \<Rightarrow> if s = -1 \<and> l = -1 then Some (Inr (c, b))
           else if act = DELETE_ROW then Some (delete_text_row s (int p + int k) c b)
           else update_text_row env d s (int p + int k) c b)"

definition xev_step :: "xenv \<Rightarrow> dbtable \<Rightarrow> action \<Rightarrow> xev \<Rightarrow> xconn \<times> string \<Rightarrow> (xconn \<times> string) cres option" where
  "xev_step env d act e cb = (case e of XStart p k col el as \<Rightarrow> xdb_queryStart env d act p k col el as cb
     | XStop p k el \<Rightarrow> xdb_queryStop env d act p k el cb)"

fun xev_run :: "xenv \<Rightarrow> dbtable \<Rightarrow> action \<Rightarrow> xev list \<Rightarrow> xconn \<times> string \<Rightarrow> (xconn \<times> string) cres option" where
  "xev_run env d act [] cb = Some (Inr cb)"
| "xev_run env d act (e # es) cb = obind (xev_step env d act e cb) (xev_run env d act es)"

section \<open>Operations\<close>

definition xlock :: "xdb \<Rightarrow> 'a option \<Rightarrow> 'a option" where
  "xlock x m = (if xd_locked x then None else m)"

definition xconn_of :: "nat \<Rightarrow> xdb \<Rightarrow> xconn option" where
  "xconn_of n x = List.find (\<lambda>c. xc_num c = n) (xd_con x)"

definition xmlAction :: "xenv \<Rightarrow> nat \<Rightarrow> dbtable \<Rightarrow> action \<Rightarrow> xdb \<Rightarrow> (bool \<times> xdb) cres option" where
  "xmlAction env n d act x = xlock x (case xconn_of n x of
      None \<Rightarrow> Some (Inr (False, x))
    | Some c \<Rightarrow>
        if \<not> xe_parser env then Some (Inr (False, x))
        else (case xe_expat env (xd_buf x) of (evs, ok) \<Rightarrow>
          obind (xev_run env d act evs (c \<lparr> xc_act := Some act, xc_skip := False, xc_res := [], xc_dev := 0 \<rparr>, xd_buf x))
            (\<lambda>(c1, b1). if \<not> ok then None
               else Some (Inr (True, x \<lparr> xd_con := upd_first (\<lambda>c. xc_num c = n) (\<lambda>_. c1) (xd_con x), xd_buf := b1 \<rparr>)))))"

definition new_xconn :: "nat \<Rightarrow> xconn" where
  "new_xconn n = \<lparr> xc_num = n, xc_res = [], xc_skip = False, xc_s0 = None, xc_act = None, xc_dev = 0 \<rparr>"

text \<open>The test for a file that does not open is one of the pointer to the stream, which is never null.\<close>

definition xml_open :: "string \<Rightarrow> xdb \<Rightarrow> (nat \<times> xdb) option" where
  "xml_open dbase x = xlock x
     (let n = pick_num (map xc_num (xd_con x)) 0 1; x1 = x \<lparr> xd_con := xd_con x @ [new_xconn n] \<rparr>
      in Some (n, if xd_open x then x1
        else x1 \<lparr> xd_open := True, xd_name := dbase,
               xd_buf := xd_buf x @ (case xd_files x dbase of None \<Rightarrow> [] | Some t \<Rightarrow> t) \<rparr>))"

definition xml_close :: "xenv \<Rightarrow> nat \<Rightarrow> xdb \<Rightarrow> (bool \<times> xdb) cres option" where
  "xml_close env n x = xlock x
     (if \<not> xd_open x then Some (Inr (False, x \<lparr> xd_locked := True \<rparr>))
      else let found = xconn_of n x;
               act = (case found of None \<Rightarrow> Some UPDATE_ROW | Some c \<Rightarrow> xc_act c);
               x1 = x \<lparr> xd_con := del_first (\<lambda>c. xc_num c = n) (xd_con x) \<rparr>
        in if xd_con x1 \<noteq> [] then Some (Inr (found \<noteq> None, x1))
           else case act of
               None \<Rightarrow> Some (Inl Indeterminate)
             | Some a \<Rightarrow> if a = SELECT_ROW then Some (Inr (found \<noteq> None, x1))
                 else Some (Inr (True, if xe_write env (xd_name x)
                   then x1 \<lparr> xd_files := (xd_files x)(xd_name x \<mapsto> xd_buf x) \<rparr> else x1)))"

definition xml_query :: "xenv \<Rightarrow> nat \<Rightarrow> dbtable \<Rightarrow> xdb \<Rightarrow> (bool \<times> xdb) cres option" where
  "xml_query env n d x = xmlAction env n d SELECT_ROW x"

definition xml_function :: "string \<Rightarrow> string" where
  "xml_function f = []"

text \<open>\<^verbatim>\<open>db_get\<close>: a column of type address is left as it is.\<close>

definition xml_value :: "xenv \<Rightarrow> nat \<Rightarrow> string \<Rightarrow> dbval option cres" where
  "xml_value env ty s =
     (if ty = T_BOOL then Inr (Some (VBool (c_str s \<noteq> [] \<and> hd s = CHR ''t'')))
      else if ty = T_INT then Inr (Some (VInt (of_int (atoi_c (c_str s)))))
      else if ty = T_STR then Inr (Some (VStr s))
      else if ty = T_DATE then cbind (xml_iso2time env s) (\<lambda>t. Inr (Some (VDate t)))
      else Inr None)"

fun xml_cells :: "xenv \<Rightarrow> xattrs \<Rightarrow> nat list \<Rightarrow> dbtable \<Rightarrow> dbtable cres" where
  "xml_cells env r [] d = Inr d"
| "xml_cells env r (i # is) d =
     (if get_request d i then xml_cells env r is d
      else cbind (xml_value env (get_type d i) (col_of (get_name d i) r)) (\<lambda>v.
        xml_cells env r is (case v of None \<Rightarrow> d | Some u \<Rightarrow> tb_set (snprintf_s 99 (get_name d i)) u d)))"

definition xml_get :: "xenv \<Rightarrow> nat \<Rightarrow> dbtable \<Rightarrow> nat \<Rightarrow> xdb \<Rightarrow> (bool \<times> dbtable) cres option" where
  "xml_get env n d row x = xlock x (case xconn_of n x of
      None \<Rightarrow> Some (Inr (False, d))
    | Some c \<Rightarrow> if length (xc_res c) \<le> row then Some (Inr (False, d))
        else Some (cbind (xml_cells env (xc_res c ! row) [0..<length (tb_fields d)] d) (\<lambda>d1. Inr (True, d1))))"

definition xml_create :: "xenv \<Rightarrow> nat \<Rightarrow> dbtable \<Rightarrow> xdb \<Rightarrow> (bool \<times> xdb) cres option" where
  "xml_create env n d x = xmlAction env n d INSERT_TABLE x"

definition xml_create_idx :: "nat \<Rightarrow> dbtable \<Rightarrow> bool" where
  "xml_create_idx n d = True"

definition xml_add :: "xenv \<Rightarrow> nat \<Rightarrow> dbtable \<Rightarrow> xdb \<Rightarrow> (bool \<times> xdb) cres option" where
  "xml_add env n d x = xmlAction env n d INSERT_ROW x"

definition xml_update :: "xenv \<Rightarrow> nat \<Rightarrow> dbtable \<Rightarrow> xdb \<Rightarrow> (bool \<times> xdb) cres option" where
  "xml_update env n d x = xmlAction env n d UPDATE_ROW x"

definition xml_del :: "xenv \<Rightarrow> nat \<Rightarrow> dbtable \<Rightarrow> xdb \<Rightarrow> (bool \<times> xdb) cres option" where
  "xml_del env n d x = xmlAction env n d DELETE_ROW x"

section \<open>Escapes: lemmas\<close>

text \<open>Replacing a character everywhere, and the escape of one character.\<close>

definition subst_char :: "char \<Rightarrow> string \<Rightarrow> string \<Rightarrow> string" where
  "subst_char c r s = concat (map (\<lambda>x. if x = c then r else [x]) s)"

definition xml_esc :: "char \<Rightarrow> string" where
  "xml_esc x = (if x = CHR ''&'' then ''&amp;'' else if x = CHR ''>'' then ''&gt;'' else if x = CHR ''<'' then ''&lt;''
     else if x = CHR 0x27 then ''&apos;'' else if x = CHR 0x22 then ''&quot;'' else [x])"

lemma subst_char_simps [simp]: "subst_char c r [] = []" "subst_char c r (x # s) = (if x = c then r else [x]) @ subst_char c r s"
  "subst_char c r (s @ t) = subst_char c r s @ subst_char c r t"
  by (simp_all add: subst_char_def)

lemma subst_char_none: "c \<notin> set s \<Longrightarrow> subst_char c r s = s"
  by (induction s) auto

lemma length_subst_char: "length (subst_char c r s) \<le> length s * max 1 (length r)"
  by (induction s) (auto simp: max_def)

lemma str_find_hit: "c \<notin> set (drop from a) \<Longrightarrow> from \<le> length a \<Longrightarrow> str_find w c from (a @ c # t) = length a"
  by (simp add: str_find_def takeWhile_stop)

lemma str_find_miss: "c \<notin> set (drop from s) \<Longrightarrow> str_find w c from s = npos w"
  by (simp add: str_find_def takeWhile_all Let_def) arith

lemma split_at_char: "c \<in> set s \<Longrightarrow> \<exists>a t. s = a @ c # t \<and> c \<notin> set a"
  by (metis split_list_first)

text \<open>Where \<^verbatim>\<open>size_t\<close> has 32 bits every occurrence is replaced once.\<close>

lemma wf_char_32:
  assumes "c \<notin> set r" "c \<notin> set a" "length a + length s * max 1 (length r) < npos 32"
  shows "wf_char 32 c r (a @ s) = Some (Inr (a @ subst_char c r s))"
  using assms(2,3)
proof (induction "length s" arbitrary: a s rule: less_induct)
  case less
  show ?case
  proof (cases "c \<in> set s")
    case False
    then show ?thesis using less.prems
      by (subst wf_char.simps) (simp add: str_find_miss subst_char_none npos_def)
  next
    case True
    then obtain u t where s: "s = u @ c # t" "c \<notin> set u" using split_at_char by metis
    let ?a = "a @ u"
    have f: "str_find 32 c 0 (?a @ c # t) = length ?a" using s less.prems by (intro str_find_hit) auto
    have "length u * 1 \<le> length u * max 1 (length r)" by (intro mult_le_mono2) simp
    moreover have "length s * max 1 (length r) = length u * max 1 (length r) + max 1 (length r) + length t * max 1 (length r)"
      by (simp add: s add_mult_distrib)
    ultimately have b: "length ?a + max 1 (length r) + length t * max 1 (length r) < npos 32"
      using less.prems(2) unfolding length_append by linarith
    then have l: "length ?a < npos 32" by simp
    have "wf_char 32 c r (a @ s) = wf_char 32 c r ((?a @ r) @ t)"
      using f l s by (subst wf_char.simps) (simp add: npos_def)
    also have "\<dots> = Some (Inr ((?a @ r) @ subst_char c r t))"
      using b s less.prems(1) assms(1) by (intro less.hyps) auto
    finally show ?thesis using s by (simp add: subst_char_none)
  qed
qed

lemma wf_amp_step:
  assumes "p + 1 < npos 32" "length a = p" "p \<noteq> npos w" "from \<le> p" "CHR ''&'' \<notin> set (drop from a)"
  shows "wf_amp w from (a @ CHR ''&'' # t) = wf_amp w (p + 1) ((a @ ''&'') @ ''amp;'' @ t)"
proof -
  have f: "str_find w CHR ''&'' from (a @ CHR ''&'' # t) = p" using assms by (simp add: str_find_hit)
  have m: "p mod 2 ^ 32 = p" "(p + 1) mod 2 ^ 32 = p + 1" using assms(1) by (simp_all add: npos_def)
  show ?thesis unfolding wf_amp.simps[of w "from" "a @ CHR ''&'' # t"] f m Let_def using assms(2,3) by simp
qed

lemma wf_amp_last:
  "CHR ''&'' \<notin> set (drop from s) \<Longrightarrow> wf_amp w from s =
     (if npos w mod 2 ^ 32 = npos w then Some (Inr s)
      else if length s < npos w mod 2 ^ 32 then Some (Inl Abort)
      else wf_amp w ((npos w mod 2 ^ 32 + 1) mod 2 ^ 32) (take (npos w mod 2 ^ 32) s @ ''&amp;'' @ drop (npos w mod 2 ^ 32 + 1) s))"
  by (subst wf_amp.simps) (simp add: str_find_miss Let_def)

lemma count_none: "0 = length (filter ((=) c) s) \<Longrightarrow> c \<notin> set s"
  by (induction s) (auto split: if_splits)

lemma count_split: "Suc n = length (filter ((=) c) s) \<Longrightarrow>
  \<exists>u t. s = u @ c # t \<and> c \<notin> set u \<and> n = length (filter ((=) c) t) \<and> filter ((=) c) u = []"
proof (induction s)
  case (Cons x s)
  show ?case
  proof (cases "c = x")
    case True
    then show ?thesis using Cons.prems by (intro exI[of _ "[]"] exI[of _ s]) simp
  next
    case False
    then obtain u t where "s = u @ c # t" "c \<notin> set u" "n = length (filter ((=) c) t)" "filter ((=) c) u = []"
      using Cons by auto
    then show ?thesis using False by (intro exI[of _ "x # u"] exI[of _ t]) simp
  qed
qed simp

lemma wf_amp_32:
  assumes "length a + length s + 4 * length (filter ((=) CHR ''&'') s) < npos 32"
  shows "wf_amp 32 (length a) (a @ s) = Some (Inr (a @ subst_char CHR ''&'' ''&amp;'' s))"
  using assms
proof (induction "length (filter ((=) CHR ''&'') s)" arbitrary: a s)
  case 0
  have "CHR ''&'' \<notin> set s" by (rule count_none[OF 0(1)])
  then show ?case using 0 by (simp add: wf_amp_last subst_char_none npos_def)
next
  case (Suc n)
  obtain u t where s: "s = u @ CHR ''&'' # t" "CHR ''&'' \<notin> set u" and u: "n = length (filter ((=) CHR ''&'') t)" "filter ((=) CHR ''&'') u = []"
    using count_split[OF Suc.hyps(2)] by blast
  have l: "length (a @ u) + 1 < npos 32" using Suc.prems by (simp add: s)
  have "wf_amp 32 (length a) (a @ s) = wf_amp 32 (length (a @ u @ ''&'')) ((a @ u @ ''&'') @ (''amp;'' @ t))"
    using wf_amp_step[OF l refl, of 32 "length a" t] l s by (simp add: npos_def)
  also have "\<dots> = Some (Inr ((a @ u @ ''&'') @ subst_char CHR ''&'' ''&amp;'' (''amp;'' @ t)))"
    using Suc.hyps(2) Suc.prems s u by (intro Suc.hyps(1)) auto
  finally show ?case using s by (simp add: subst_char_none)
qed

text \<open>Where it has 64 bits the place never equals \<^verbatim>\<open>npos\<close>: the search that finds nothing ends in an exception.\<close>

lemma wf_amp_64:
  assumes "length a + length s + 4 * length (filter ((=) CHR ''&'') s) < npos 32"
  shows "wf_amp 64 (length a) (a @ s) = Some (Inl Abort)"
  using assms
proof (induction "length (filter ((=) CHR ''&'') s)" arbitrary: a s)
  case 0
  have "CHR ''&'' \<notin> set s" by (rule count_none[OF 0(1)])
  then show ?case using 0 by (simp add: wf_amp_last npos_def)
next
  case (Suc n)
  obtain u t where s: "s = u @ CHR ''&'' # t" "CHR ''&'' \<notin> set u" and u: "n = length (filter ((=) CHR ''&'') t)" "filter ((=) CHR ''&'') u = []"
    using count_split[OF Suc.hyps(2)] by blast
  have l: "length (a @ u) + 1 < npos 32" using Suc.prems by (simp add: s)
  have "wf_amp 64 (length a) (a @ s) = wf_amp 64 (length (a @ u @ ''&'')) ((a @ u @ ''&'') @ (''amp;'' @ t))"
    using wf_amp_step[OF l refl, of 64 "length a" t] l s by (simp add: npos_def)
  also have "\<dots> = Some (Inl Abort)"
    using Suc.hyps(2) Suc.prems s u by (intro Suc.hyps(1)) auto
  finally show ?case .
qed

lemma xml_esc_subst:
  "subst_char CHR 0x22 ''&quot;'' (subst_char CHR 0x27 ''&apos;'' (subst_char CHR ''<'' ''&lt;''
     (subst_char CHR ''>'' ''&gt;'' (subst_char CHR ''&'' ''&amp;'' s)))) = concat (map xml_esc s)"
  by (induction s) (simp_all add: xml_esc_def)

lemma convert2WF_32:
  assumes "length s < 700000"
  shows "convert2WF 32 s = Some (Inr (concat (map xml_esc s)))"
proof -
  let ?s1 = "subst_char CHR ''&'' ''&amp;'' s" and ?s2 = "\<lambda>s. subst_char CHR ''>'' ''&gt;'' s"
  let ?s3 = "\<lambda>s. subst_char CHR ''<'' ''&lt;'' s" and ?s4 = "\<lambda>s. subst_char CHR 0x27 ''&apos;'' s"
  have l: "length (subst_char c r t) \<le> k * max 1 (length r)" if "length t \<le> k" for c r t k
    using that length_subst_char[of c r t] by (meson le_trans mult_le_mono1)
  have l1: "length ?s1 \<le> 5 * length s" using l[of s "length s" "CHR ''&''" "''&amp;''"] by simp
  have l2: "length (?s2 ?s1) \<le> 20 * length s" using l[OF l1, of "CHR ''>''" "''&gt;''"] by simp
  have l3: "length (?s3 (?s2 ?s1)) \<le> 80 * length s" using l[OF l2, of "CHR ''<''" "''&lt;''"] by simp
  have l4: "length (?s4 (?s3 (?s2 ?s1))) \<le> 480 * length s" using l[OF l3, of "CHR 0x27" "''&apos;''"] by simp
  have n: "npos 32 = 4294967295" by (simp add: npos_def)
  have c0: "wf_amp 32 0 s = Some (Inr ?s1)"
    using wf_amp_32[of "[]" s] assms length_filter_le[of "(=) CHR ''&''" s] n by simp
  have "wf_char 32 CHR ''>'' ''&gt;'' ?s1 = Some (Inr (?s2 ?s1))"
    using wf_char_32[of "CHR ''>''" "''&gt;''" "[]" ?s1] l1 assms n by simp
  moreover have "wf_char 32 CHR ''<'' ''&lt;'' (?s2 ?s1) = Some (Inr (?s3 (?s2 ?s1)))"
    using wf_char_32[of "CHR ''<''" "''&lt;''" "[]" "?s2 ?s1"] l2 assms n by simp
  moreover have "wf_char 32 CHR 0x27 ''&apos;'' (?s3 (?s2 ?s1)) = Some (Inr (?s4 (?s3 (?s2 ?s1))))"
    using wf_char_32[of "CHR 0x27" "''&apos;''" "[]" "?s3 (?s2 ?s1)"] l3 assms n by simp
  moreover have "wf_char 32 CHR 0x22 ''&quot;'' (?s4 (?s3 (?s2 ?s1))) = Some (Inr (subst_char CHR 0x22 ''&quot;'' (?s4 (?s3 (?s2 ?s1)))))"
    using wf_char_32[of "CHR 0x22" "''&quot;''" "[]" "?s4 (?s3 (?s2 ?s1))"] l4 assms n by simp
  ultimately show ?thesis by (simp add: convert2WF_def c0 xml_esc_subst)
qed

text \<open>What an XML reader makes of the text between the quotes of an attribute: the five entities.\<close>

fun xml_text :: "string \<Rightarrow> string option" where
  "xml_text [] = Some []"
| "xml_text (c # r) =
     (if c = CHR 0x27 \<or> c = CHR ''<'' then None
      else if c \<noteq> CHR ''&'' then map_option ((#) c) (xml_text r)
      else if take 4 r = ''amp;'' then map_option ((#) CHR ''&'') (xml_text (drop 4 r))
      else if take 3 r = ''gt;'' then map_option ((#) CHR ''>'') (xml_text (drop 3 r))
      else if take 3 r = ''lt;'' then map_option ((#) CHR ''<'') (xml_text (drop 3 r))
      else if take 5 r = ''apos;'' then map_option ((#) CHR 0x27) (xml_text (drop 5 r))
      else if take 5 r = ''quot;'' then map_option ((#) CHR 0x22) (xml_text (drop 5 r))
      else None)"

lemma xml_text_esc: "xml_text (xml_esc c @ r) = map_option ((#) c) (xml_text r)"
  by (simp add: xml_esc_def)

lemma xml_text_concat: "xml_text (concat (map xml_esc s)) = Some s"
  by (induction s) (simp_all add: xml_text_esc)

section \<open>Deleting rows: lemmas\<close>

definition rstrip :: "string \<Rightarrow> string" where
  "rstrip s = rev (dropWhile (\<lambda>x. x \<in> blanks_lf) (rev s))"

lemma rstrip_solid: "s \<noteq> [] \<Longrightarrow> last s \<notin> blanks_lf \<Longrightarrow> set t \<subseteq> blanks_lf \<Longrightarrow> rstrip (s @ t) = s"
proof -
  assume a: "s \<noteq> []" "last s \<notin> blanks_lf" "set t \<subseteq> blanks_lf"
  then obtain u y where s: "s = u @ [y]" by (cases s rule: rev_cases) auto
  have "dropWhile (\<lambda>x. x \<in> blanks_lf) (rev t @ y # rev u) = dropWhile (\<lambda>x. x \<in> blanks_lf) (y # rev u)"
    using a(3) by (intro dropWhile_append2) auto
  then show ?thesis using a(2) s by (simp add: rstrip_def)
qed

lemma find_last_rstrip: "p = int (length pre) \<Longrightarrow> x \<in> blanks_lf \<Longrightarrow> find_last_not_of blanks_lf p (pre @ x # r) = int (length (rstrip pre)) - 1"
  by (simp add: find_last_not_of_def rstrip_def)

lemma find_last_here: "p = int (length pre) \<Longrightarrow> x \<notin> blanks_lf \<Longrightarrow> find_last_not_of blanks_lf p (pre @ x # r) = int (length pre)"
  by (simp add: find_last_not_of_def)

lemma find_first_behind: "p = int (length pre) \<Longrightarrow> set bl \<subseteq> blanks \<Longrightarrow> x \<notin> blanks \<Longrightarrow>
  find_first_not_of blanks p (pre @ bl @ x # r) = int (length pre + length bl)"
proof -
  assume a: "p = int (length pre)" "set bl \<subseteq> blanks" "x \<notin> blanks"
  have "takeWhile (\<lambda>x. x \<in> blanks) (bl @ x # r) = bl @ takeWhile (\<lambda>x. x \<in> blanks) (x # r)"
    using a(2) by (intro takeWhile_append2) blast
  then have "takeWhile (\<lambda>x. x \<in> blanks) (bl @ x # r) = bl" using a(3) by simp
  then show ?thesis using a(1) by (simp add: find_first_not_of_def)
qed

lemma rstrip_prefix: "\<exists>t. s = rstrip s @ t"
proof -
  have "s = rev (dropWhile (\<lambda>x. x \<in> blanks_lf) (rev s)) @ rev (takeWhile (\<lambda>x. x \<in> blanks_lf) (rev s))"
    by (metis rev_append rev_rev_ident takeWhile_dropWhile_id)
  then show ?thesis unfolding rstrip_def by blast
qed

lemma str_replace_cut:
  "p = int (length a) \<Longrightarrow> n = int (length m) \<Longrightarrow> str_replace p n r (a @ m @ t) = Inr (a @ r @ t)"
  by (simp add: str_replace_def)

text \<open>The text of the row goes, with the blanks and the line end before it and the blanks behind it, where a line end
or a blank follows.\<close>

lemma delete_text_line:
  assumes "xc_dev c = s - int (length pre)" "e = s + int (length row)" "set bl \<subseteq> blanks" "x \<notin> blanks" "bl \<noteq> [] \<or> x = CHR 0x0A"
  shows "delete_text_row s e c (pre @ row @ bl @ x # r) =
    Inr (c \<lparr> xc_dev := e - int (length (rstrip pre)) + int (length bl) \<rparr>, rstrip pre @ x # r)"
proof -
  obtain t where t: "pre = rstrip pre @ t" using rstrip_prefix by blast
  let ?b = "pre @ bl @ x # r"
  have d: "s - xc_dev c = int (length pre)" using assms(1) by simp
  have b1: "str_replace (s - xc_dev c) (e - s) [] (pre @ row @ bl @ x # r) = Inr ?b"
    using str_replace_cut[OF d, of "e - s" row "[]" "bl @ x # r"] assms(2) by simp
  obtain y z where y: "bl @ x # r = y # z" "y \<in> blanks_lf"
    using assms(3,5) by (cases bl) auto
  have ff: "find_first_not_of blanks (s - xc_dev c) ?b = int (length pre + length bl)"
    using find_first_behind[OF d assms(3,4)] .
  have fl: "find_last_not_of blanks_lf (s - xc_dev c) ?b + 1 = int (length (rstrip pre))"
    using find_last_rstrip[OF d y(2), of z] y(1) by simp
  have l: "int (length pre + length bl) - int (length (rstrip pre)) = int (length (t @ bl))"
    using arg_cong[OF t, of length] by simp
  have eq: "rstrip pre @ (t @ bl) @ x # r = ?b" using t by (metis append.assoc)
  have b2: "str_replace (int (length (rstrip pre))) (int (length (t @ bl))) [] ?b = Inr (rstrip pre @ x # r)"
    using str_replace_cut[OF refl refl, of "rstrip pre" "t @ bl" "[]" "x # r"] unfolding eq by simp
  have dv: "xc_dev c + (e - s) + int (length (t @ bl)) = e - int (length (rstrip pre)) + int (length bl)"
    using assms(1) arg_cong[OF t, of length] by simp
  show ?thesis by (simp only: delete_text_row_def b1 Let_def cbind_simps ff fl l b2 dv)
qed

text \<open>Where neither does, all behind the next character goes.\<close>

lemma delete_text_truncates:
  assumes "xc_dev c = s - int (length pre)" "e = s + int (length row)" "x \<notin> blanks_lf"
  shows "delete_text_row s e c (pre @ row @ x # r) = Inr (c \<lparr> xc_dev := e - int (length pre) - 1 \<rparr>, pre @ [x])"
proof -
  have d: "s - xc_dev c = int (length pre)" using assms(1) by simp
  have b1: "str_replace (s - xc_dev c) (e - s) [] (pre @ row @ x # r) = Inr (pre @ x # r)"
    using str_replace_cut[OF d, of "e - s" row "[]" "x # r"] assms(2) by simp
  have ff: "find_first_not_of blanks (s - xc_dev c) (pre @ x # r) = int (length pre)"
    using find_first_behind[OF d, of "[]" x r] assms(3) by simp
  have fl: "find_last_not_of blanks_lf (s - xc_dev c) (pre @ x # r) = int (length pre)" by (rule find_last_here[OF d assms(3)])
  have "str_replace (int (length pre) + 1) (-1) [] (pre @ x # r) = Inr (pre @ [x])"
    by (simp add: str_replace_def nat_add_distrib)
  then have b2: "str_replace (int (length pre) + 1) (int (length pre) - (int (length pre) + 1)) [] (pre @ x # r) = Inr (pre @ [x])" by simp
  have dv: "xc_dev c + (e - s) + (int (length pre) - (int (length pre) + 1)) = e - int (length pre) - 1" using assms(1) by simp
  show ?thesis by (simp only: delete_text_row_def b1 Let_def cbind_simps ff fl b2 dv)
qed

section \<open>A table of lines\<close>

text \<open>A file with every row on a line of its own, and what the parser tells of the rows.\<close>

definition row_line :: "string \<Rightarrow> xattrs \<times> string \<Rightarrow> string" where
  "row_line ind r = CHR 0x0A # ind @ snd r"

fun row_events :: "string \<Rightarrow> nat \<Rightarrow> (xattrs \<times> string) list \<Rightarrow> xev list" where
  "row_events ind p [] = []"
| "row_events ind p (r # rs) = (let q = p + 1 + length ind; k = length (snd r)
     in XStart q k (length ind) ''row'' (fst r) # XStop (q + k) 0 ''row'' # row_events ind (q + k) rs)"

definition solid :: "string \<Rightarrow> bool" where
  "solid s = (s \<noteq> [] \<and> last s \<notin> blanks_lf)"

definition row_ok :: "xenv \<Rightarrow> dbtable \<Rightarrow> (xattrs \<times> string \<Rightarrow> bool) \<Rightarrow> xattrs \<times> string \<Rightarrow> bool" where
  "row_ok env d hit r = (fst r \<noteq> [] \<and> solid (snd r) \<and> xdb_compareRow env d (fst r) = Inr (hit r))"

lemma row_is_row [simp]: "strcase_eq ''row'' ''row''" "\<not> strcase_eq ''row'' ''table''" "\<not> strcase_eq ''row'' ''database''"
  by (simp_all add: strcase_eq_def c_str_def tolower_c_def isupper_c_def)

lemma run_append: "xev_run env d act (es @ fs) cb = obind (xev_run env d act es cb) (xev_run env d act fs)"
  by (induction es arbitrary: cb) (auto simp: obind_def split: option.split sum.split)

lemma solid_lines: "solid h \<Longrightarrow> \<forall>r \<in> set rs. solid (snd r) \<Longrightarrow> solid (h @ concat (map (row_line ind) rs))"
  by (induction rs arbitrary: h) (auto simp: solid_def row_line_def)

lemma delete_run:
  assumes "set ind \<subseteq> blanks" "\<forall>r \<in> set rs. row_ok env d hit r" "solid h" "\<not> xc_skip c" "xc_dev c = int p - int (length h)"
  shows "\<exists>c1. xev_run env d DELETE_ROW (row_events ind p rs) (c, h @ concat (map (row_line ind) rs) @ CHR 0x0A # t) =
      Some (Inr (c1, h @ concat (map (row_line ind) (filter (\<lambda>r. \<not> hit r) rs)) @ CHR 0x0A # t)) \<and> \<not> xc_skip c1 \<and> xc_num c1 = xc_num c"
  using assms(2-5)
proof (induction rs arbitrary: h c p)
  case (Cons r rs)
  let ?q = "p + 1 + length ind" and ?k = "length (snd r)"
  let ?rest = "concat (map (row_line ind) rs) @ CHR 0x0A # t"
  let ?c = "c \<lparr> xc_s0 := if hit r then Some (int ?q, int ?k) else Some (-1, -1) \<rparr>"
  have r: "row_ok env d hit r" "\<forall>r \<in> set rs. row_ok env d hit r" using Cons.prems(1) by simp_all
  have start: "xev_step env d DELETE_ROW (XStart ?q ?k (length ind) ''row'' (fst r)) (c, b) = Some (Inr (?c, b))" for b
    using r(1) Cons.prems(3) by (simp add: xev_step_def xdb_queryStart_def row_ok_def)
  obtain z where z: "?rest = CHR 0x0A # z" by (cases rs) (auto simp: row_line_def)
  show ?case
  proof (cases "hit r")
    case False
    have "xev_step env d DELETE_ROW (XStop (?q + ?k) 0 ''row'') (?c, b) = Some (Inr (?c, b))" for b
      using False Cons.prems(3) by (simp add: xev_step_def xdb_queryStop_def)
    moreover have "solid (h @ row_line ind r)" using solid_lines[of h "[r]" ind] Cons.prems(2) r(1) by (simp add: row_ok_def)
    ultimately show ?thesis
      using Cons.IH[OF r(2), of "h @ row_line ind r" ?c "?q + ?k"] Cons.prems(3,4) False start
      by (simp add: Let_def row_line_def)
  next
    case True
    let ?e = "int (?q + ?k)"
    let ?c1 = "?c \<lparr> xc_dev := ?e - int (length h) \<rparr>"
    have rs: "rstrip (h @ CHR 0x0A # ind) = h" using rstrip_solid[of h "CHR 0x0A # ind"] Cons.prems(2) assms(1) by (auto simp: solid_def)
    have "delete_text_row (int ?q) ?e ?c ((h @ CHR 0x0A # ind) @ snd r @ [] @ CHR 0x0A # z) =
        Inr (?c \<lparr> xc_dev := ?e - int (length (rstrip (h @ CHR 0x0A # ind))) + int (length ([] :: string)) \<rparr>, rstrip (h @ CHR 0x0A # ind) @ CHR 0x0A # z)"
      using Cons.prems(4) by (intro delete_text_line) simp_all
    then have "delete_text_row (int ?q) ?e ?c (h @ row_line ind r @ ?rest) = Inr (?c1, h @ ?rest)"
      unfolding rs z by (simp add: row_line_def)
    then have "xev_step env d DELETE_ROW (XStop (?q + ?k) 0 ''row'') (?c, h @ row_line ind r @ ?rest) = Some (Inr (?c1, h @ ?rest))"
      using True Cons.prems(3) by (simp add: xev_step_def xdb_queryStop_def)
    then show ?thesis
      using Cons.IH[OF r(2) Cons.prems(2), of ?c1 "?q + ?k"] Cons.prems(3) True start
      by (simp add: Let_def)
  qed
qed simp

lemma select_run:
  assumes "\<forall>r \<in> set rs. row_ok env d hit r" "\<not> xc_skip c"
  shows "xev_run env d SELECT_ROW (row_events ind p rs) (c, b) =
    Some (Inr (c \<lparr> xc_res := xc_res c @ map fst (filter hit rs) \<rparr>, b))"
  using assms
proof (induction rs arbitrary: c p)
  case (Cons r rs)
  let ?c = "if hit r then c \<lparr> xc_res := xc_res c @ [fst r] \<rparr> else c"
  have r: "row_ok env d hit r" "\<forall>r \<in> set rs. row_ok env d hit r" using Cons.prems(1) by simp_all
  have "xev_step env d SELECT_ROW (XStart q k col ''row'' (fst r)) (c, b) = Some (Inr (?c, b))" for q k col
    using r(1) Cons.prems(2) by (simp add: xev_step_def xdb_queryStart_def row_ok_def)
  moreover have "xev_step env d SELECT_ROW (XStop q k ''row'') (?c, b) = Some (Inr (?c, b))" for q k
    using Cons.prems(2) by (simp add: xev_step_def xdb_queryStop_def)
  ultimately show ?case using Cons.IH[OF r(2), of ?c] Cons.prems(2) by (simp add: Let_def)
qed simp

lemma skip_run: "xc_skip c \<Longrightarrow> \<forall>r \<in> set rs. fst r \<noteq> [] \<Longrightarrow> xev_run env d act (row_events ind p rs) (c, b) = Some (Inr (c, b))"
  by (induction rs arbitrary: p) (auto simp: Let_def xev_step_def xdb_queryStart_def xdb_queryStop_def)

lemma stop_skip [simp]: "xc_skip c \<Longrightarrow> xev_step env d act (XStop p k el) (c, b) = Some (Inr (c, b))"
  by (simp add: xev_step_def xdb_queryStop_def)

text \<open>A file of one table: two start tags, the rows, two end tags.\<close>

definition file_text :: "string \<Rightarrow> string \<Rightarrow> (xattrs \<times> string) list \<Rightarrow> string \<Rightarrow> string" where
  "file_text h ind rs t = h @ concat (map (row_line ind) rs) @ CHR 0x0A # t"

definition file_events :: "dbtable \<Rightarrow> xattrs \<Rightarrow> nat \<Rightarrow> string \<Rightarrow> string \<Rightarrow> (xattrs \<times> string) list \<Rightarrow> xev list" where
  "file_events d ra col h ind rs = XStart 0 0 0 ''database'' ra # XStart 0 (length h) col ''table'' [(''name'', tb_name d)] #
     row_events ind (length h) rs @ [XStop 0 0 ''table'', XStop 0 0 ''database'']"

lemma tags_are_tags [simp]: "strcase_eq ''table'' ''table''" "strcase_eq ''name'' ''name''" "strcase_eq ''database'' ''database''" "strcase_eq s s"
  "\<not> strcase_eq ''database'' ''table''" "\<not> strcase_eq ''database'' ''row''" "\<not> strcase_eq ''table'' ''row''"
  by (simp_all add: strcase_eq_def c_str_def tolower_c_def isupper_c_def)

lemma file_start:
  assumes "act = SELECT_ROW \<or> act = DELETE_ROW \<or> act = UPDATE_ROW" "ra \<noteq> []"
  shows "xev_run env d act (file_events d ra col h ind rs) (c, b) =
    obind (xev_run env d act (row_events ind (length h) rs) (c \<lparr> xc_skip := False, xc_s0 := Some (0, int (length h)) \<rparr>, b))
      (xev_run env d act [XStop 0 0 ''table'', XStop 0 0 ''database''])"
  using assms by (auto simp: file_events_def run_append xev_step_def xdb_queryStart_def)

lemma file_stop: "xev_run env d act [XStop 0 0 ''table'', XStop 0 0 ''database''] (c, b) = Some (Inr (c \<lparr> xc_skip := True \<rparr>, b))"
  by (cases "xc_skip c") (simp_all add: xev_step_def xdb_queryStop_def)

text \<open>A new row goes on a line of its own behind the start tag.\<close>

lemma insert_line:
  assumes "ra \<noteq> []" "\<forall>r \<in> set rs. fst r \<noteq> []" "ind = replicate (col + 3) CHR '' ''"
    "makeRow env d INSERT_ROW [] col = Some (Inr (ind @ txt))" "xc_res c = []"
  shows "\<exists>c1. xev_run env d INSERT_ROW (file_events d ra col h ind rs) (c, file_text h ind rs t) =
    Some (Inr (c1, file_text h ind ((as, txt) # rs) t))"
proof -
  let ?c = "c \<lparr> xc_skip := True, xc_s0 := Some (0, int (length h)) \<rparr>"
  have i: "str_insert (0 + int (length h)) (LF_text @ ind @ txt) (file_text h ind rs t) = Inr (file_text h ind ((as, txt) # rs) t)"
    by (simp add: str_insert_def file_text_def row_line_def LF_text_def)
  have "xev_step env d INSERT_ROW (XStart 0 (length h) col ''table'' [(''name'', tb_name d)]) (c, file_text h ind rs t) =
      Some (Inr (?c, file_text h ind ((as, txt) # rs) t))"
    using i by (simp add: xev_step_def xdb_queryStart_def assms(4,5) Let_def)
  moreover have "xev_step env d INSERT_ROW (XStart 0 0 0 ''database'' ra) (c, b) = Some (Inr (c, b))" for b
    using assms(1) by (simp add: xev_step_def xdb_queryStart_def)
  ultimately show ?thesis
    using skip_run[of ?c rs env d INSERT_ROW ind "length h"] assms(2) by (simp add: file_events_def run_append)
qed

text \<open>Where \<^verbatim>\<open>size_t\<close> has 64 bits no row of a table with a text column is ever made.\<close>

lemma convert2WF_64: "length s < 700000 \<Longrightarrow> convert2WF 64 s = Some (Inl Abort)"
  using wf_amp_64[of "[]" s] length_filter_le[of "(=) CHR ''&''" s] by (simp add: convert2WF_def npos_def)

lemma cell_64:
  assumes "xe_bits env = 64" "get_type d i = T_STR"
  shows "\<exists>e. cell_text env d i v = Some (Inl e)"
proof (cases "text_of d (c_name d i) v")
  case (Inr p)
  then have "length (fst p) < 300" by (auto simp: text_of_def split: option.splits if_splits)
  then show ?thesis using assms Inr by (cases p) (simp add: cell_text_def convert2WF_64)
qed (use assms in \<open>simp add: cell_text_def\<close>)

lemma cells_64:
  assumes "xe_bits env = 64" "\<exists>i \<in> set is. get_type d i = T_STR"
  shows "\<exists>e. row_cells env d INSERT_ROW prev is v = Some (Inl e)"
  using assms(2)
proof (induction "is" arbitrary: v)
  case (Cons i "is")
  show ?case
  proof (cases "cell_text env d i v")
    case None
    then show ?thesis using cell_64[OF assms(1), of d i v] by (auto simp: cell_text_def Let_def split: if_splits)
  next
    case (Some r)
    show ?thesis
    proof (cases r)
      case (Inr p)
      obtain x v1 where p: "p = (x, v1)" by (cases p)
      have "get_type d i \<noteq> T_STR" using cell_64[OF assms(1), of d i v] Some Inr by auto
      then obtain e where "row_cells env d INSERT_ROW prev is v1 = Some (Inl e)" using Cons.IH[of v1] Cons.prems by auto
      then show ?thesis using Some Inr p by simp
    qed (use Some in simp)
  qed
qed simp

lemma add_fails_64:
  assumes "xe_bits env = 64" "\<exists>i < length (tb_fields d). get_type d i = T_STR" "ra \<noteq> []"
  shows "\<exists>e. xev_run env d INSERT_ROW (file_events d ra col h ind rs) (c, b) = Some (Inl e)"
proof -
  have "\<exists>i \<in> set [0..<length (tb_fields d)]. get_type d i = T_STR" using assms(2) by auto
  from cells_64[OF assms(1) this] have "\<exists>e. makeRow env d INSERT_ROW (xc_res c) col = Some (Inl e)"
    unfolding makeRow_def by (metis obind_simps(2))
  then have "\<exists>e. xev_step env d INSERT_ROW (XStart 0 (length h) col ''table'' [(''name'', tb_name d)]) (c, b) = Some (Inl e)"
    by (auto simp: xev_step_def xdb_queryStart_def Let_def)
  moreover have "xev_step env d INSERT_ROW (XStart 0 0 0 ''database'' ra) (c, b) = Some (Inr (c, b))"
    using assms(3) by (simp add: xev_step_def xdb_queryStart_def)
  ultimately show ?thesis by (auto simp: file_events_def)
qed

section \<open>Queries and deletions on a file: lemmas\<close>

abbreviation (input) begun :: "action \<Rightarrow> xconn \<Rightarrow> xconn" where
  "begun a c \<equiv> c \<lparr> xc_act := Some a, xc_skip := False, xc_res := [], xc_dev := 0 \<rparr>"

lemma action_ok:
  assumes "\<not> xd_locked x" "xconn_of n x = Some c" "xe_parser env" "xe_expat env (xd_buf x) = (evs, True)"
    "xev_run env d act evs (begun act c, xd_buf x) = Some (Inr (c1, b1))" "xc_num c1 = xc_num c"
  shows "\<exists>x1. xmlAction env n d act x = Some (Inr (True, x1)) \<and> xd_buf x1 = b1 \<and> xconn_of n x1 = Some c1"
proof -
  have "xc_num c = n" using assms(2) by (auto simp: xconn_of_def find_Some_iff)
  then have "List.find (\<lambda>c. xc_num c = n) (upd_first (\<lambda>c. xc_num c = n) (\<lambda>_. c1) (xd_con x)) = Some c1"
    using assms(2,6) by (subst find_upd_first_same) (auto simp: xconn_of_def)
  then show ?thesis using assms by (simp add: xmlAction_def xlock_def xconn_of_def)
qed

lemma query_file:
  assumes x: "\<not> xd_locked x" "xconn_of n x = Some c" "xe_parser env" "xd_buf x = file_text h ind rs t"
    and p: "xe_expat env (file_text h ind rs t) = (file_events d ra col h ind rs, True)" "ra \<noteq> []"
    and l: "\<forall>r \<in> set rs. row_ok env d hit r"
  shows "\<exists>x1 c1. xml_query env n d x = Some (Inr (True, x1)) \<and> xd_buf x1 = xd_buf x \<and> xconn_of n x1 = Some c1
    \<and> xc_res c1 = map fst (filter hit rs)"
proof -
  let ?c = "begun SELECT_ROW c \<lparr> xc_skip := False, xc_s0 := Some (0, int (length h)) \<rparr>"
  let ?q = "?c \<lparr> xc_res := xc_res ?c @ map fst (filter hit rs), xc_skip := True \<rparr>"
  have "xev_run env d SELECT_ROW (row_events ind (length h) rs) (?c, xd_buf x) = Some (Inr (?c \<lparr> xc_res := xc_res ?c @ map fst (filter hit rs) \<rparr>, xd_buf x))"
    using l by (rule select_run) simp
  then have r: "xev_run env d SELECT_ROW (file_events d ra col h ind rs) (begun SELECT_ROW c, xd_buf x) = Some (Inr (?q, xd_buf x))"
    by (subst file_start) (use p(2) in \<open>simp_all add: file_stop del: xev_run.simps\<close>)
  show ?thesis using action_ok[OF x(1-3) _ r] p(1) x(4) by (auto simp: xml_query_def)
qed

lemma delete_file:
  assumes x: "\<not> xd_locked x" "xconn_of n x = Some c" "xe_parser env" "xd_buf x = file_text h ind rs t"
    and p: "xe_expat env (file_text h ind rs t) = (file_events d ra col h ind rs, True)" "ra \<noteq> []"
    and l: "set ind \<subseteq> blanks" "solid h" "\<forall>r \<in> set rs. row_ok env d hit r"
  shows "\<exists>x1. xml_del env n d x = Some (Inr (True, x1)) \<and> xd_buf x1 = file_text h ind (filter (\<lambda>r. \<not> hit r) rs) t"
proof -
  let ?c = "begun DELETE_ROW c \<lparr> xc_skip := False, xc_s0 := Some (0, int (length h)) \<rparr>"
  obtain c1 where c1: "xev_run env d DELETE_ROW (row_events ind (length h) rs) (?c, xd_buf x) =
      Some (Inr (c1, file_text h ind (filter (\<lambda>r. \<not> hit r) rs) t))" "xc_num c1 = xc_num c"
    using delete_run[OF l(1,3,2), of ?c "length h" t] unfolding x(4) file_text_def by auto
  have r: "xev_run env d DELETE_ROW (file_events d ra col h ind rs) (begun DELETE_ROW c, xd_buf x) =
      Some (Inr (c1 \<lparr> xc_skip := True \<rparr>, file_text h ind (filter (\<lambda>r. \<not> hit r) rs) t))"
    by (subst file_start) (use p(2) c1(1) in \<open>simp_all add: file_stop del: xev_run.simps\<close>)
  show ?thesis using action_ok[OF x(1-3) _ r] p(1) x(4) c1(2) by (auto simp: xml_del_def)
qed

section \<open>Closing: lemmas\<close>

text \<open>A close before the first open keeps the lock: no later call returns.\<close>

lemma xml_close_locks:
  assumes "\<not> xd_locked x" "\<not> xd_open x" "xml_close env n x = Some (Inr (r, x1))"
  shows "\<not> r \<and> xml_open p x1 = None \<and> xmlAction env m d act x1 = None \<and> xml_get env m d row x1 = None \<and> xml_close env m x1 = None"
  using assms by (auto simp: xml_close_def xlock_def xml_open_def xmlAction_def xml_get_def)

text \<open>The last close writes the buffer only where the last request of that connection was not a query; what other
requests changed in the buffer is not in the file then.\<close>

lemma xml_close_flush:
  assumes "\<not> xd_locked x" "xd_open x" "xd_con x = [c]" "xc_num c = n" "xc_act c = Some act"
  shows "\<exists>x1. xml_close env n x = Some (Inr (True, x1)) \<and> xd_con x1 = [] \<and>
    xd_files x1 = (if act \<noteq> SELECT_ROW \<and> xe_write env (xd_name x) then (xd_files x)(xd_name x \<mapsto> xd_buf x) else xd_files x)"
  using assms by (simp add: xml_close_def xlock_def xconn_of_def Let_def)

section \<open>Properties\<close>

text \<open>C30: \<^verbatim>\<open>convert2WF\<close> escapes text for an attribute. Where \<^verbatim>\<open>size_t\<close> has 32 bits any text shorter than 700000 bytes comes
out as text with no quote and no angle bracket in it, of which an XML reader makes the text again. Where it has 64 bits
the call ends in an exception for every text, the empty one too.\<close>

theorem text_escaped:
  assumes "length s < 700000"
  shows "\<exists>e. convert2WF 32 s = Some (Inr e) \<and> xml_text e = Some s \<and> set e \<inter> {CHR 0x27, CHR 0x22, CHR ''<'', CHR ''>''} = {}
    \<and> convert2WF 64 s = Some (Inl Abort)"
proof -
  have "set (xml_esc c) \<inter> {CHR 0x27, CHR 0x22, CHR ''<'', CHR ''>''} = {}" for c by (simp add: xml_esc_def)
  then have "set (concat (map xml_esc s)) \<inter> {CHR 0x27, CHR 0x22, CHR ''<'', CHR ''>''} = {}" by fastforce
  then show ?thesis using convert2WF_32[OF assms] convert2WF_64[OF assms] xml_text_concat by blast
qed

lemma text_escaped_witness:
  "\<exists>e. convert2WF 32 ''a<b & c'' = Some (Inr e) \<and> xml_text e = Some ''a<b & c'' \<and> set e \<inter> {CHR 0x27, CHR 0x22, CHR ''<'', CHR ''>''} = {}
    \<and> convert2WF 64 ''a<b & c'' = Some (Inl Abort)"
  by (rule text_escaped) simp

text \<open>C29: A file of one table with each row on a line of its own, and a parser that tells its tags at their places. A
query finds the rows that agree with the columns asked for, in order, and leaves the text as it is; a deletion takes
exactly the lines of these rows out of the text, however many they are, and leaves every other byte.\<close>

theorem rows_deleted:
  assumes x: "\<not> xd_locked x" "xconn_of n x = Some c" "xe_parser env" "xd_buf x = file_text h ind rs t"
    and p: "xe_expat env (file_text h ind rs t) = (file_events d ra col h ind rs, True)" "ra \<noteq> []"
    and l: "set ind \<subseteq> blanks" "solid h" "\<forall>r \<in> set rs. row_ok env d hit r"
  shows "(\<exists>x1 c1. xml_query env n d x = Some (Inr (True, x1)) \<and> xd_buf x1 = xd_buf x \<and> xconn_of n x1 = Some c1
      \<and> xc_res c1 = map fst (filter hit rs)) \<and>
    (\<exists>x1. xml_del env n d x = Some (Inr (True, x1)) \<and> xd_buf x1 = file_text h ind (filter (\<lambda>r. \<not> hit r) rs) t)"
  using query_file[OF x p l(3)] delete_file[OF x p l] by blast

definition xml_demo_table :: dbtable where
  "xml_demo_table = set_request ''bilid'' (tb_put ''bilid'' (VStr ''gold'') bil_table)"

definition xml_demo_rows :: "(xattrs \<times> string) list" where
  "xml_demo_rows = [([(''bilid'', ''gold''), (''bilmodid'', ''1'')], ''<row 1/>''), ([(''bilid'', ''iron''), (''bilmodid'', ''2'')], ''<row 2/>''),
     ([(''bilid'', ''GOLD''), (''bilmodid'', ''3'')], ''<row 3/>'')]"

definition xml_demo_env :: xenv where
  "xml_demo_env = \<lparr> xe_bits = 64, xe_local = (\<lambda>t. zero_tm), xe_mktime = tm_sec, xe_stack = zero_tm, xe_parser = True,
     xe_expat = (\<lambda>s. (file_events xml_demo_table [(''v'', ''1'')] 0 ''<x>'' ''  '' xml_demo_rows, True)), xe_write = (\<lambda>_. True) \<rparr>"

definition xml_demo_db :: xdb where
  "xml_demo_db = \<lparr> xd_con = [new_xconn 1], xd_buf = file_text ''<x>'' ''  '' xml_demo_rows ''</x>'', xd_name = ''f'', xd_open = True,
     xd_locked = False, xd_files = (\<lambda>_. None) \<rparr>"

lemma xml_demo_fields:
  "length (tb_fields xml_demo_table) = 2" "get_request xml_demo_table 0" "\<not> get_request xml_demo_table (Suc 0)" "get_type xml_demo_table 0 = T_STR"
  "c_name xml_demo_table 0 = ''bilid''" "has_field T_STR ''bilid'' xml_demo_table" "get_chars ''bilid'' [] xml_demo_table = ''gold''"
  by (simp_all add: xml_demo_table_def bil_table_def new_table_def str_col_def int_col_def tb_add_def tb_put_def set_request_def
      new_field_def blank_field_def val_type_def store_def get_request_def tb_at_def get_type_def c_name_def get_name_def
      has_field_def tb_find_def get_chars_def c_str_def)

lemma xml_demo_words: "strcase_eq ''GOLD'' ''gold''" "\<not> strcase_eq ''iron'' ''gold''" "\<not> strcase_eq ''bilmodid'' ''bilid''"
  by code_simp+

lemma xml_demo_cols: "[0..<2] = [0, Suc 0]"
  by (simp add: upt_rec)

lemma rows_deleted_witness:
  "(\<exists>x1 c1. xml_query xml_demo_env 1 xml_demo_table xml_demo_db = Some (Inr (True, x1)) \<and> xd_buf x1 = xd_buf xml_demo_db \<and> xconn_of 1 x1 = Some c1
      \<and> xc_res c1 = map fst (filter (\<lambda>r. snd r \<noteq> ''<row 2/>'') xml_demo_rows)) \<and>
    (\<exists>x1. xml_del xml_demo_env 1 xml_demo_table xml_demo_db = Some (Inr (True, x1)) \<and>
      xd_buf x1 = file_text ''<x>'' ''  '' (filter (\<lambda>r. \<not> snd r \<noteq> ''<row 2/>'') xml_demo_rows) ''</x>'')"
proof (rule rows_deleted[where ra = "[(''v'', ''1'')]"])
  show "\<forall>r \<in> set xml_demo_rows. row_ok xml_demo_env xml_demo_table (\<lambda>r. snd r \<noteq> ''<row 2/>'') r"
    by (simp add: xml_demo_rows_def row_ok_def solid_def xdb_compareRow_def xml_demo_fields xml_demo_cols cell_agrees_def text_of_def xml_demo_words) blast
qed (simp_all add: xml_demo_db_def xml_demo_env_def xconn_of_def new_xconn_def solid_def)

end
