(* ===== verification/Mysql.thy ===== *)
theory Mysql
  imports Pgsql TacDb
begin

text \<open>
  The MySQL module (\<^verbatim>\<open>src/db/mysql.cc\<close>), and the module without a database (\<^verbatim>\<open>src/db/none.cc\<close>). The texts of
  \<^verbatim>\<open>SELECT\<close>, \<^verbatim>\<open>UPDATE\<close>, \<^verbatim>\<open>DELETE\<close> and of the indexes are those of the PostgreSQL module, character by character; tables, rows,
  dates and results are read and written otherwise. The server is a parameter: it connects or refuses, and
  answers a text with an error, with a table of cells, each of which can be \<^verbatim>\<open>NULL\<close>, or with neither, as
  \<^verbatim>\<open>mysql_store_result\<close> does for a statement that has no result. Results that are overwritten are not released.
\<close>

type_synonym cells = "string option list list"

record 's myserver =
  my_connect :: "string \<Rightarrow> int \<Rightarrow> string \<Rightarrow> string \<Rightarrow> string \<Rightarrow> 's \<Rightarrow> bool \<times> 's"
  my_exec :: "string \<Rightarrow> 's \<Rightarrow> cells option option \<times> 's"

record myconn =
  mc_num :: nat
  mc_res :: "cells option"

record 's my =
  my_con :: "myconn list"
  my_srv :: 's

section \<open>Times\<close>

definition my_time2iso :: "(int \<Rightarrow> tm) \<Rightarrow> int \<Rightarrow> string" where
  "my_time2iso local t = (let tt = local t in
     snprintf_s 63 (zpad 4 (1900 + tm_year tt) @ ''-'' @ zpad 2 (tm_mon tt + 1) @ ''-'' @ zpad 2 (tm_mday tt) @
       '' '' @ zpad 2 (tm_hour tt) @ '':'' @ zpad 2 (tm_min tt) @ '':'' @ zpad 2 (tm_sec tt)))"

text \<open>The bytes 0 to 18 of the text are read, however long it is.\<close>

definition my_iso2time :: "(tm \<Rightarrow> int) \<Rightarrow> string \<Rightarrow> int cres" where
  "my_iso2time mktime txt = (if length (c_str txt) < 18 then Inl OutOfBounds
     else let s = c_str txt in Inr (mktime (zero_tm \<lparr> tm_year := num_at 0 4 s - 1900, tm_mon := num_at 5 7 s - 1,
       tm_mday := num_at 8 10 s, tm_hour := num_at 11 13 s, tm_min := num_at 14 16 s, tm_sec := num_at 17 19 s \<rparr>)))"

section \<open>Connections\<close>

definition my_nums :: "'s my \<Rightarrow> nat list" where
  "my_nums g = map mc_num (my_con g)"

definition my_open :: "'s myserver \<Rightarrow> string \<Rightarrow> int \<Rightarrow> string \<Rightarrow> string \<Rightarrow> string \<Rightarrow> 's my \<Rightarrow> nat \<times> 's my" where
  "my_open sv host port dbase login pwd g = (let n = pick_num (my_nums g) 0 1
     in case my_connect sv host port dbase login pwd (my_srv g) of (ok, s1) \<Rightarrow>
       if \<not> ok then (0, g \<lparr> my_srv := s1 \<rparr>)
       else (n, g \<lparr> my_con := my_con g @ [\<lparr> mc_num = n, mc_res = None \<rparr>], my_srv := s1 \<rparr>))"

definition my_close :: "nat \<Rightarrow> 's my \<Rightarrow> bool \<times> 's my" where
  "my_close n g = (n \<in> set (my_nums g), g \<lparr> my_con := del_first (\<lambda>c. mc_num c = n) (my_con g) \<rparr>)"

definition my_conn :: "nat \<Rightarrow> 's my \<Rightarrow> myconn option" where
  "my_conn n g = List.find (\<lambda>c. mc_num c = n) (my_con g)"

definition my_set_res :: "nat \<Rightarrow> cells option \<Rightarrow> 's my \<Rightarrow> 's my" where
  "my_set_res n r g = g \<lparr> my_con := upd_first (\<lambda>c. mc_num c = n) (mc_res_update (\<lambda>_. r)) (my_con g) \<rparr>"

text \<open>\<^verbatim>\<open>sdb_query\<close>: a statement the server carried out that has no result gives a null pointer as one that failed.\<close>

definition my_sdb_query :: "'s myserver \<Rightarrow> string \<Rightarrow> 's \<Rightarrow> cells option \<times> 's" where
  "my_sdb_query sv req s = (case my_exec sv req s of (r, s1) \<Rightarrow> (case r of None \<Rightarrow> None | Some c \<Rightarrow> c, s1))"

definition my_send :: "'s myserver \<Rightarrow> bool \<Rightarrow> nat \<Rightarrow> string \<Rightarrow> 's my \<Rightarrow> bool \<times> 's my" where
  "my_send sv keep n req g = (case my_sdb_query sv req (my_srv g) of (r, s1) \<Rightarrow>
     (r \<noteq> None, my_set_res n (if keep then r else None) (g \<lparr> my_srv := s1 \<rparr>)))"

text \<open>A cell: the array has room for 300 bytes and is not cleared; 299 bytes or more leave it without a terminator.\<close>

definition my_sdb_get :: "cells option \<Rightarrow> nat \<Rightarrow> nat \<Rightarrow> string cres" where
  "my_sdb_get res i j = (case res of None \<Rightarrow> Inl NullDeref
     | Some a \<Rightarrow> if length a < i then Inr []
         else if length a \<le> i then Inl NullDeref
         else if length (a ! i) \<le> j then Inl OutOfBounds
         else case a ! i ! j of None \<Rightarrow> Inl NullDeref
            | Some s \<Rightarrow> if 299 \<le> length (c_str s) then Inl Indeterminate else Inr (c_str s))"

definition my_sdb_rows :: "cells option \<Rightarrow> nat cres" where
  "my_sdb_rows res = (case res of None \<Rightarrow> Inl NullDeref | Some a \<Rightarrow> Inr (length a))"

section \<open>Texts\<close>

definition my_create_col :: "dbtable \<Rightarrow> nat \<Rightarrow> string" where
  "my_create_col d i =
     (let ty = get_type d i; df = get_defv d i
      in col_name d i @
         (if ty = T_BOOL then '' bool'' @ (if 0 < length df then '' DEFAULT '' @ (if hd df = CHR ''t'' then ''true'' else ''false'') else []) @ '',''
          else if ty = T_INT then '' int'' @ (if 0 < length df then '' DEFAULT '' @ df else []) @ '',''
          else if ty = T_STR then '' varchar('' @ dec_nat (getslen (col_name d i) d) @ '')''
            @ (if 0 < length df then '' DEFAULT '' @ [quote] @ df @ [quote] else []) @ '',''
          else if ty = T_DATE then '' datetime,''
          else if ty = T_IP then '' varchar(16),''
          else []))"

definition my_create_text :: "dbtable \<Rightarrow> string cres" where
  "my_create_text d = cbind (drop_comma (concat (map (my_create_col d) [0..<length (tb_fields d)])))
     (\<lambda>f. Inr (''CREATE TABLE '' @ tb_name d @ ''('' @ f @ '')''))"

text \<open>A value of an \<^verbatim>\<open>INSERT\<close> goes through an array of 90 bytes; an address is never \<^verbatim>\<open>NULL\<close>.\<close>

definition my_insert_value :: "(int \<Rightarrow> tm) \<Rightarrow> dbtable \<Rightarrow> nat \<Rightarrow> pgvars \<Rightarrow> string \<times> pgvars" where
  "my_insert_value local d i v =
     (let n = col_name d i; ty = get_type d i
      in if ty = T_BOOL then (let b = get_bool n (pv_bool v) d in (if b then ''true,'' else ''false,'', v \<lparr> pv_bool := b \<rparr>))
         else if ty = T_INT then (let x = get_int n (pv_int v) d in (dec_int x @ '','', v \<lparr> pv_int := x \<rparr>))
         else if ty = T_STR then (in_quotes 90 (get_chars n [] d) '','', v)
         else if ty = T_DATE then (let t = get_date n (pv_date v) d
           in (if t < 100 then ''NULL,'' else snprintf_s 89 ([quote] @ my_time2iso local t @ [quote] @ '',''), v \<lparr> pv_date := t \<rparr>))
         else if ty = T_IP then (let a = get_ip n (pv_ip v) d
           in (snprintf_s 89 ([quote] @ ip_get a @ [quote] @ '',''), v \<lparr> pv_ip := a \<rparr>))
         else ([], v))"

fun my_insert_values :: "(int \<Rightarrow> tm) \<Rightarrow> dbtable \<Rightarrow> nat list \<Rightarrow> pgvars \<Rightarrow> string" where
  "my_insert_values local d [] v = []"
| "my_insert_values local d (i # is) v =
     fst (my_insert_value local d i v) @ my_insert_values local d is (snd (my_insert_value local d i v))"

definition my_insert_text :: "dns \<Rightarrow> (int \<Rightarrow> tm) \<Rightarrow> dbtable \<Rightarrow> string cres" where
  "my_insert_text dns local d =
     (let is = [0..<length (tb_fields d)]
      in cbind (drop_comma (concat (map (\<lambda>i. snprintf_s 89 (col_name d i @ '','')) is))) (\<lambda>f.
         cbind (drop_comma (my_insert_values local d is (new_vars dns))) (\<lambda>v.
         Inr (''INSERT INTO '' @ tb_name d @ ''('' @ f @ '') VALUES ('' @ v @ '')''))))"

section \<open>Operations\<close>

definition my_with_text :: "'s myserver \<Rightarrow> bool \<Rightarrow> nat \<Rightarrow> string cres \<Rightarrow> 's my \<Rightarrow> (bool \<times> 's my) cres" where
  "my_with_text sv keep n req g =
     (if my_conn n g = None then Inr (False, g) else cbind req (\<lambda>r. Inr (my_send sv keep n r g)))"

definition my_query :: "'s myserver \<Rightarrow> dns \<Rightarrow> (int \<Rightarrow> tm) \<Rightarrow> nat \<Rightarrow> dbtable \<Rightarrow> 's my \<Rightarrow> (bool \<times> 's my) cres" where
  "my_query sv dns local n d g = my_with_text sv True n (select_text dns local d) g"

definition my_create :: "'s myserver \<Rightarrow> nat \<Rightarrow> dbtable \<Rightarrow> 's my \<Rightarrow> (bool \<times> 's my) cres" where
  "my_create sv n d g = my_with_text sv False n (my_create_text d) g"

definition my_create_idx :: "'s myserver \<Rightarrow> nat \<Rightarrow> dbtable \<Rightarrow> 's my \<Rightarrow> bool \<times> 's my" where
  "my_create_idx sv n d g =
     (if my_conn n g = None then (False, g)
      else let u = idx_cols 2 d; i = idx_cols 1 d;
               r1 = (if 0 < length u then my_send sv False n (idx_text ''CREATE UNIQUE INDEX '' d u) g else (True, g))
           in if \<not> fst r1 then r1
              else if 0 < length i then my_send sv False n (idx_text ''CREATE INDEX '' d i) (snd r1) else (True, snd r1))"

definition my_add :: "'s myserver \<Rightarrow> dns \<Rightarrow> (int \<Rightarrow> tm) \<Rightarrow> nat \<Rightarrow> dbtable \<Rightarrow> 's my \<Rightarrow> (bool \<times> 's my) cres" where
  "my_add sv dns local n d g = my_with_text sv False n (my_insert_text dns local d) g"

definition my_update :: "'s myserver \<Rightarrow> dns \<Rightarrow> (int \<Rightarrow> tm) \<Rightarrow> nat \<Rightarrow> dbtable \<Rightarrow> 's my \<Rightarrow> (bool \<times> 's my) cres" where
  "my_update sv dns local n d g = my_with_text sv False n (update_text dns local d) g"

definition my_del :: "'s myserver \<Rightarrow> dns \<Rightarrow> (int \<Rightarrow> tm) \<Rightarrow> nat \<Rightarrow> dbtable \<Rightarrow> 's my \<Rightarrow> (bool \<times> 's my) cres" where
  "my_del sv dns local n d g = my_with_text sv False n (Inr (delete_text dns local d)) g"

definition my_function :: "'s myserver \<Rightarrow> nat \<Rightarrow> string \<Rightarrow> 's my \<Rightarrow> (string option \<times> 's my) cres" where
  "my_function sv n func g =
     (if my_conn n g = None then Inr (None, g)
      else case my_send sv True n (snprintf_s 399 (''SELECT '' @ func)) g of (ok, g1) \<Rightarrow>
        (let res = (case my_conn n g1 of None \<Rightarrow> None | Some c \<Rightarrow> mc_res c)
         in if \<not> ok then Inr (None, g1)
            else cbind (my_sdb_rows res) (\<lambda>k. if k = 0 then Inr (None, g1)
              else cbind (my_sdb_get res 0 0) (\<lambda>s. Inr (Some (snprintf_s 199 s), g1)))))"

definition my_value :: "dns \<Rightarrow> (tm \<Rightarrow> int) \<Rightarrow> nat \<Rightarrow> string \<Rightarrow> dbval option cres" where
  "my_value dns mktime ty s =
     (if ty = T_BOOL then Inr (Some (VBool (s \<noteq> [] \<and> hd s = CHR ''t'')))
      else if ty = T_INT then Inr (Some (VInt (of_int (atoi_c s))))
      else if ty = T_STR then Inr (Some (VStr s))
      else if ty = T_DATE then cbind (my_iso2time mktime s) (\<lambda>t. Inr (Some (VDate t)))
      else if ty = T_IP then Inr (Some (VIp (ip_fill dns s)))
      else Inr None)"

text \<open>A column of no known type is not read.\<close>

fun my_cells :: "dns \<Rightarrow> (tm \<Rightarrow> int) \<Rightarrow> cells option \<Rightarrow> nat \<Rightarrow> nat \<Rightarrow> nat list \<Rightarrow> dbtable \<Rightarrow> dbtable cres" where
  "my_cells dns mktime res row k [] d = Inr d"
| "my_cells dns mktime res row k (i # is) d =
     (if get_request d i then my_cells dns mktime res row k is d
      else if get_type d i \<notin> {T_BOOL, T_INT, T_STR, T_DATE, T_IP} then my_cells dns mktime res row (Suc k) is d
      else cbind (my_sdb_get res row k) (\<lambda>s. cbind (my_value dns mktime (get_type d i) s) (\<lambda>v.
        my_cells dns mktime res row (Suc k) is (case v of None \<Rightarrow> d | Some u \<Rightarrow> tb_set (col_name d i) u d))))"

definition my_get :: "dns \<Rightarrow> (tm \<Rightarrow> int) \<Rightarrow> nat \<Rightarrow> dbtable \<Rightarrow> nat \<Rightarrow> 's my \<Rightarrow> (bool \<times> dbtable) cres" where
  "my_get dns mktime n d row g = (case my_conn n g of
     None \<Rightarrow> Inr (False, d)
   | Some c \<Rightarrow> cbind (my_sdb_rows (mc_res c)) (\<lambda>k. if k \<le> row then Inr (False, d)
       else cbind (my_cells dns mktime (mc_res c) row 0 [0..<length (tb_fields d)] d) (\<lambda>d1. Inr (True, d1))))"

section \<open>The module without a database\<close>

text \<open>Every request succeeds and leaves the table as it is, but for the open, which gives number 0.\<close>

definition none_engine :: "'s engine" where
  "none_engine = \<lparr> en_open = (\<lambda>l p d u w s. ((0, []), s)), en_close = (\<lambda>c s. (True, s)), en_query = (\<lambda>c t s. (True, s)),
     en_function = (\<lambda>c f s. (Some [], s)), en_get = (\<lambda>c t row s. (True, t, s)), en_create = (\<lambda>c t s. ((True, []), s)),
     en_create_idx = (\<lambda>c t s. ((True, []), s)), en_add = (\<lambda>c t s. (True, s)), en_update = (\<lambda>c t s. (True, s)),
     en_del = (\<lambda>c t s. (True, s)) \<rparr>"

section \<open>Lemmas\<close>

text \<open>A statement without a result is carried out and reported as failed: no table is ever created and no row added,
changed or deleted, as far as the server is told; a read from the connection then faults.\<close>

lemma my_send_no_result:
  assumes "my_exec sv req (my_srv g) = (Some None, s1)"
  shows "\<not> fst (my_send sv keep n req g)" "my_srv (snd (my_send sv keep n req g)) = s1"
  using assms by (simp_all add: my_send_def my_sdb_query_def my_set_res_def)

lemma my_statement_fails:
  assumes "\<And>s. \<exists>s1. my_exec sv req s = (Some None, s1)" "my_conn n g = Some c" "t = Inr req"
  shows "\<exists>g1. my_with_text sv False n t g = Inr (False, g1) \<and> my_srv g1 = snd (my_exec sv req (my_srv g))
    \<and> my_get dns mktime n d row g1 = Inl NullDeref"
proof -
  obtain s1 where s1: "my_exec sv req (my_srv g) = (Some None, s1)" using assms(1) by blast
  let ?g1 = "my_set_res n None (g \<lparr> my_srv := s1 \<rparr>)"
  have c: "mc_num c = n" using assms(2) by (auto simp: my_conn_def find_Some_iff)
  have "my_conn n ?g1 = Some (c \<lparr> mc_res := None \<rparr>)"
    using assms(2) c unfolding my_conn_def my_set_res_def by (simp, subst find_upd_first_same) simp_all
  then have "my_get dns mktime n d row ?g1 = Inl NullDeref" by (simp add: my_get_def my_sdb_rows_def)
  moreover have "my_with_text sv False n t g = Inr (False, ?g1)"
    using assms(2,3) s1 by (simp add: my_with_text_def my_send_def my_sdb_query_def)
  ultimately show ?thesis using s1 by (auto simp: my_set_res_def)
qed

text \<open>A date before second 100 is stored as \<^verbatim>\<open>NULL\<close>, and a \<^verbatim>\<open>NULL\<close> can not be read back.\<close>

lemma my_null_date:
  "get_type d i = T_DATE \<Longrightarrow> get_date (col_name d i) (pv_date v) d < 100 \<Longrightarrow> fst (my_insert_value local d i v) = ''NULL,''"
  "row < length a \<Longrightarrow> k < length (a ! row) \<Longrightarrow> a ! row ! k = None \<Longrightarrow> \<not> get_request d i \<Longrightarrow> get_type d i = T_DATE \<Longrightarrow>
     my_cells dns mktime (Some a) row k (i # is) d = Inl NullDeref"
  by (simp_all add: my_insert_value_def Let_def my_sdb_get_def)

text \<open>The number 0 is that of a failed open: with this module no user is found, and none is let in.\<close>

lemma none_finds_no_user:
  "\<exists>u. db_get_user md5 m none_engine us s = Some (Inr (u, s)) \<and> \<not> du_connect u \<and> \<not> du_result u"
  by (simp add: db_get_user_def db_open_def db_close_def none_engine_def failed_def new_db_user_def)

end
