(* ===== verification/Spec2Isabelle.thy ===== *)
theory Spec2Isabelle
  imports Utils UtilsTime UtilsMatch IpAddr TacPacket TacAuthen TacAuthor TacAcct AuthorAlg CorePool CoreAccess CoreBilling
    CoreDevice UserTrack AModify AAA TacSession DbTable TacDb TacDbEdit TacDbLog Pgsql Tiep Bundle CoreManager CorePeer
    NetFlow CoreDb CoreListener CmdParam Vty Command Debugging CoreData CommandNode Terminal ConfigFile
    Tci Http Polling XmlDb Mysql
begin

text \<open>
  Verification of tacppd, a TACACS+ server: a daemon that answers the authentication, authorization and
  accounting requests of network devices from a database, and is administered through a terminal, configuration files and
  a protocol between servers. All sources named here are under \<^verbatim>\<open>src/\<close>.

  \<^bold>\<open>How the program works.\<close> \<^verbatim>\<open>CoreListener\<close> starts a thread for each port, \<^verbatim>\<open>AcceptConnection\<close> of \<^verbatim>\<open>Listener.cc\<close> takes
  connections and runs a handler for each: a reader of TACACS+ packets, a terminal, a reader of NetFlow exports, the bundle
  protocol. The reader of packets keeps one session per session number; a session decodes requests
  (\<^verbatim>\<open>Tacacs.cc\<close>), asks \<^verbatim>\<open>AAA.cc\<close> for a decision and encodes the answer. \<^verbatim>\<open>AAA.cc\<close> reads users
  through the tracker (\<^verbatim>\<open>UserTrack.cc\<close>) from the database (\<^verbatim>\<open>TacDb.cc\<close>, through one of the modules of \<^verbatim>\<open>db/\<close>), starts and
  ends the sessions kept with the devices (\<^verbatim>\<open>CoreDevice.cc\<close>), takes addresses from pools (\<^verbatim>\<open>CorePool.cc\<close>) and runs the values that are
  commands (\<^verbatim>\<open>AModify.cc\<close>). Ten configured objects hold the state (\<^verbatim>\<open>CoreData.cc\<close>); their text is written as the
  configuration file and read back line by line by the same command interpreter the terminal uses (\<^verbatim>\<open>Command.cc\<close>).

  \<^bold>\<open>Conventions.\<close> A \<^verbatim>\<open>char*\<close> that can be null and a reference to an object that may be missing are options. Code that leaves an array,
  dereferences null, reads what was never written, frees twice or ends the daemon gives \<open>Inl\<close> of a \<open>cfault\<close> (\<open>Prelude\<close>); code whose
  loop may go on for ever gives an \<^typ>\<open>'a option\<close>, \<open>None\<close> meaning that it does not return (\<open>partial_function\<close>; no fuel is used
  except in \<open>lines_of\<close>, where the length of the text and one bound the number of lines). Machine integers are words or
  integers with the wrap-around written out. Shared lists with a mutex are values that an operation returns
  changed: an operation under one lock is one step; what happens between steps of several threads is modelled as a
  step relation where the code relies on it (\<open>CoreListener\<close>, \<open>NetFlow\<close>). Sockets are lists of what arrives.
  Code outside the repository is a parameter: MD5 (\<open>md5\<close>), \<^verbatim>\<open>regexec\<close> (\<open>rx\<close>), name resolution (\<open>dns\<close>), \<^verbatim>\<open>localtime\<close> and
  \<^verbatim>\<open>mktime\<close>, the clock, the SQL server, the XML parsers, loaded modules. No property assumes more of them than its text says.

  \<^bold>\<open>Theories, in the order they build on each other.\<close>

  \<^item> \<open>Prelude\<close>: results, lists of objects, the locale \<open>registry\<close> (an object is found after it was added and not after it was removed,
    keys stay distinct), which pools, access lists, billing, devices, managers, peers and listeners interpret.
  \<^item> \<open>CString\<close>, \<open>Utils\<close>, \<open>UtilsTime\<close>, \<open>UtilsMatch\<close>, \<open>CmdParam\<close>, \<open>Base64\<close> (\<^verbatim>\<open>Utils.cc\<close>), \<open>IpAddr\<close> (\<^verbatim>\<open>include/ipaddr.h\<close>): strings, SQL quoting, dates and
    access times, command words, addresses. Lemmas: what quoting protects, when an access time is
    in force (five fields that must all fit), which abbreviations match, texts that are read back.
  \<^item> \<open>TacPacket\<close> (\<^verbatim>\<open>Packet.cc\<close>, \<^verbatim>\<open>TacacsPacket\<close>), \<open>TacAuthen\<close>, \<open>TacAuthor\<close>, \<open>TacAcct\<close>: the wire. The locale \<open>xor_cipher\<close> holds what makes a
    pad its own inverse; packets, stored passwords (\<open>TacDb\<close>) and the bundle protocol (\<open>Tiep\<close>) interpret it. Lemmas: round
    trips, what an accepted packet satisfies, which lengths leave an array.
  \<^item> \<open>UserDb\<close>, \<open>AuthorAlg\<close>: what the database knows of a user and the authorization of its pairs and commands: what a
    device that denies by default is granted.
  \<^item> \<open>CorePool\<close>, \<open>CoreAccess\<close>, \<open>CoreBilling\<close>, \<open>CoreDevice\<close>, \<open>UserTrack\<close>, \<open>AModify\<close>: the objects of the core. Invariants over every
    operation: no address is given twice, no device has a user twice on a port; access lists refine their first-match reading.
  \<^item> \<open>AAA\<close>, \<open>TacSession\<close>: decisions and sessions, with the daemon's shared state passed along. Who is let in, exactly; when PASS is sent.
  \<^item> \<open>DbTable\<close> (\<^verbatim>\<open>include/db_module.h\<close>; locale \<open>typed_store\<close> for the typed fields), \<open>TacDb\<close>, \<open>TacDbEdit\<close>, \<open>TacDbLog\<close>, \<open>CoreDb\<close>, \<open>Pgsql\<close>
    (\<^verbatim>\<open>db/pgsql.cc\<close>): tables, the users and their passwords, commands on tables, records of flows, the list of databases, the SQL text.
    No operation on a table changes the type of a column.
  \<^item> \<open>Mysql\<close> (\<^verbatim>\<open>db/mysql.cc\<close>, \<^verbatim>\<open>db/none.cc\<close>), \<open>XmlDb\<close> (\<^verbatim>\<open>db/xml-db.cc\<close>): the other database modules. The text database edits one buffer while a
    parser (a parameter) runs over a copy of it: the positions of the edits are right for files with a row on each line.
  \<^item> \<open>Tiep\<close>, \<open>Bundle\<close> (\<^verbatim>\<open>Tiep.cc\<close>, \<^verbatim>\<open>ServerTrack.cc\<close>, \<^verbatim>\<open>CoreBundle.cc\<close>): what one server reports is what the other notes.
  \<^item> \<open>CoreManager\<close>, \<open>CorePeer\<close>, \<open>CoreListener\<close>, \<open>NetFlow\<close>: administrators, peers, connections and their limit, flows (octets are neither
    lost nor made up).
  \<^item> \<open>Vty\<close> (\<^verbatim>\<open>Vty.cc\<close>): the line editor, refined to a text with a cursor (\<open>vty_rep\<close>, \<open>text_key\<close>).
  \<^item> \<open>Command\<close>, \<open>CommandNode\<close> (\<^verbatim>\<open>Command.cc\<close>, \<^verbatim>\<open>Cli.cc\<close>): words of a line, one command, the nodes of a script (\<open>ni_run\<close>) and of a terminal
    (\<open>node_run\<close>): the C++ recursion through \<^verbatim>\<open>makeAction\<close> is a list of frames. A typed line does what the same line of a script does.
  \<^item> \<open>Debugging\<close> (\<^verbatim>\<open>Debug.cc\<close>, \<^verbatim>\<open>Logging.cc\<close>, \<^verbatim>\<open>LogFile.cc\<close>, \<^verbatim>\<open>LogSyslog.cc\<close>, \<^verbatim>\<open>LogTerm.cc\<close>, \<^verbatim>\<open>CoreDebug.cc\<close>): log messages and their outputs.
  \<^item> \<open>CoreData\<close>, \<open>Terminal\<close>, \<open>ConfigFile\<close> (\<^verbatim>\<open>CoreData.cc\<close>, \<^verbatim>\<open>Terminal.cc\<close>): all objects together, the commands, a whole session from the login,
    and the configuration: it is always built, and access lists survive being written and read.
  \<^item> \<open>Tci\<close> (\<^verbatim>\<open>Tci.cc\<close>), \<open>Http\<close> (\<^verbatim>\<open>Http.cc\<close>): the control interface and the web interface, from the bytes that arrive to
    those that are sent; which files are opened for whom.
  \<^item> \<open>SnmpModule\<close> (\<^verbatim>\<open>snmp/*.cc\<close>, \<^verbatim>\<open>include/snmp_module.h\<close>), \<open>Snmp\<close> (\<^verbatim>\<open>Snmp.cc\<close>), \<open>Icmp\<close> (\<^verbatim>\<open>Icmp.cc\<close>), \<open>Polling\<close> (\<^verbatim>\<open>periodicPolling\<close> of \<^verbatim>\<open>CoreDevice.cc\<close>): tables are
    read from devices by a walk that ends, modules make users of them, and a run of the polling compares those with the sessions: exactly
    which sessions it leaves, what happens when a device is silent, what must have arrived for an ICMP test to succeed.

  \<^bold>\<open>Not modelled.\<close> The SNMP library (a parameter of \<open>Snmp\<close>) and \<^verbatim>\<open>cisco-trf.cc\<close>, which does not compile; process control (\<^verbatim>\<open>main.cc\<close>, \<^verbatim>\<open>App.cc\<close>,
  \<^verbatim>\<open>Daemon.cc\<close>, \<^verbatim>\<open>DLoad.cc\<close>), scripts of web pages (an embedded Perl), \<^verbatim>\<open>CryptoCard.cc\<close> (neither built nor complete), the database modules that do
  not compile (\<^verbatim>\<open>msql.cc\<close>, \<^verbatim>\<open>oci.cc\<close>, \<^verbatim>\<open>occi.cc\<close>, \<^verbatim>\<open>uodbc.cc\<close>), and sources without a body (\<^verbatim>\<open>Radius.cc\<close>, \<^verbatim>\<open>Diameter.cc\<close>, \<^verbatim>\<open>GtpPrime.cc\<close>, \<^verbatim>\<open>myQueue.cc\<close>,
  \<^verbatim>\<open>XmlServer.cc\<close>). The commands of the terminal and of the control interface record a request to drop a port in \<open>ts_drops\<close>; what such a request does is \<open>drop_port\<close> of
  \<open>Snmp\<close>. Mutexes appear only where one can stay locked.
\<close>

end
